(* ===== verification/Prelude.thy ===== *)
theory Prelude
  imports Main "HOL-Library.Word" "HOL-Library.Monad_Syntax"
begin

unbundle bit_operations_syntax

section \<open>Prelude: bytes, size_t arithmetic, assertions and flag words\<close>

text \<open>
  Shared material of the development.
  \<^item> C's \<open>size_t\<close> is 32 bits wide on every ESP32 target. It is a \<^typ>\<open>nat\<close> here, and the
    operations that may wrap around are \<open>sz_add\<close>, \<open>sz_sub\<close> (modulo \<open>2 ^ 32\<close>).
  \<^item> A computation that a failing \<open>configASSERT\<close>/\<open>assert\<close>, or an access outside the
    object it points into, can stop is an \<^typ>\<open>'a option\<close>: \<open>None\<close> is the stopped run.
  \<^item> Raw memory is a list of bytes; \<open>load_bytes\<close>, \<open>store_bytes\<close>, \<open>load32\<close> and
    \<open>store32\<close> read and write it, little endian as on the targets, and fail out of range.
  \<^item> Flag words are 32-bit words; \<open>flag_set\<close>, \<open>set_flag\<close>, \<open>clr_flag\<close> are C's
    \<open>w & f\<close>, \<open>w |= f\<close>, \<open>w &= ~f\<close>.
\<close>

named_theorems sz_simps \<open>exact forms of size_t operations that do not wrap\<close>
named_theorems mem_simps \<open>byte memory: reads over writes\<close>
named_theorems flag_simps \<open>tests of flag words after updates\<close>

type_synonym byte = "8 word"
type_synonym flags = "32 word"

subsection \<open>Assertions\<close>

definition configASSERT :: "bool \<Rightarrow> unit option" where
  "configASSERT b = (if b then Some () else None)"

lemma configASSERT_simps [simp]:
  "configASSERT True = Some ()"
  "configASSERT False = None"
  by (simp_all add: configASSERT_def)

lemma configASSERT_eq_Some [simp]: "configASSERT b = Some u \<longleftrightarrow> b"
  by (simp add: configASSERT_def)

lemma bind_configASSERT [simp]: "Option.bind (configASSERT b) f = (if b then f () else None)"
  by (simp add: configASSERT_def)

lemma bind_eq_SomeD:
  "Option.bind m f = Some y \<Longrightarrow> \<exists>x. m = Some x \<and> f x = Some y"
  by (cases m) auto

subsection \<open>Error codes\<close>

text \<open>The codes of \<open>esp_common/include/esp_err.h\<close> and the ones the update library and the HTTP server add.\<close>

datatype esp_err_t =
    ESP_OK | ESP_FAIL | ESP_ERR_NO_MEM | ESP_ERR_INVALID_ARG | ESP_ERR_INVALID_STATE
  | ESP_ERR_INVALID_SIZE | ESP_ERR_NOT_FOUND | ESP_ERR_NOT_SUPPORTED | ESP_ERR_TIMEOUT
  | ESP_ERR_INVALID_RESPONSE | ESP_ERR_INVALID_CRC | ESP_ERR_INVALID_VERSION
  | ESP_ERR_INVALID_MAC | ESP_ERR_NOT_FINISHED | ESP_ERR_NOT_ALLOWED
  | ESP_ERR_OTA_PARTITION_CONFLICT | ESP_ERR_OTA_SELECT_INFO_INVALID
  | ESP_ERR_OTA_VALIDATE_FAILED | ESP_ERR_OTA_SMALL_SEC_VER | ESP_ERR_OTA_ROLLBACK_FAILED
  | ESP_ERR_OTA_ROLLBACK_INVALID_STATE
  | ESP_ERR_HTTPD_HANDLERS_FULL | ESP_ERR_HTTPD_HANDLER_EXISTS | ESP_ERR_HTTPD_ALLOC_MEM

subsection \<open>Arithmetic on size_t\<close>

abbreviation SIZE_LIM :: nat where "SIZE_LIM \<equiv> 2 ^ 32"

definition sz_add :: "nat \<Rightarrow> nat \<Rightarrow> nat" where
  "sz_add a b = (a + b) mod SIZE_LIM"

definition sz_sub :: "nat \<Rightarrow> nat \<Rightarrow> nat" where
  "sz_sub a b = nat ((int a - int b) mod 2 ^ 32)"

definition sz_mul :: "nat \<Rightarrow> nat \<Rightarrow> nat" where
  "sz_mul a b = (a * b) mod SIZE_LIM"

lemma sz_add_exact [sz_simps]: "a + b < SIZE_LIM \<Longrightarrow> sz_add a b = a + b"
  by (simp add: sz_add_def)

lemma sz_sub_exact [sz_simps]: "b \<le> a \<Longrightarrow> a < SIZE_LIM \<Longrightarrow> sz_sub a b = a - b"
  by (simp add: sz_sub_def of_nat_diff [symmetric] nat_mod_distrib del: of_nat_diff)

lemma sz_mul_exact [sz_simps]: "a * b < SIZE_LIM \<Longrightarrow> sz_mul a b = a * b"
  by (simp add: sz_mul_def)

lemma sz_add_less: "sz_add a b < SIZE_LIM"
  by (simp add: sz_add_def)

lemma sz_sub_less: "sz_sub a b < SIZE_LIM"
proof -
  have "(int a - int b) mod 4294967296 < 4294967296" by (rule pos_mod_bound) simp
  then show ?thesis by (simp add: sz_sub_def)
qed

subsection \<open>Positions in a ring\<close>

lemma mod_eq_small:
  assumes "(a::nat) < n" "b < n" "(p + a) mod n = (p + b) mod n"
  shows "a = b"
proof -
  have aux: "x = y" if "x \<le> y" "y < n" "(p + x) mod n = (p + y) mod n" for x y
  proof -
    have "n dvd (p + y) - (p + x)" using that by (metis add_left_mono mod_eq_dvd_iff_nat)
    then have "n dvd y - x" by simp
    with that show ?thesis by (meson dvd_imp_le less_imp_diff_less linorder_not_le diff_is_0_eq' zero_less_diff le_antisym)
  qed
  show ?thesis using aux [of a b] aux [of b a] assms by (cases "a \<le> b") auto
qed

lemma mod_if_small: "(x::nat) < 2 * n \<Longrightarrow> x mod n = (if x < n then x else x - n)"
  by (simp add: mod_if)

lemma wrap_eq_iff:
  assumes "f < (S::nat)" "0 < t" "t \<le> S"
  shows "(f + t) mod S = f \<longleftrightarrow> t = S"
  using assms by (auto simp: mod_if)

subsection \<open>Searching lists\<close>

lemma find_append:
  "List.find P (xs @ ys) = (case List.find P xs of Some x \<Rightarrow> Some x | None \<Rightarrow> List.find P ys)"
  by (induction xs) auto

subsection \<open>Flag words\<close>

definition flag_set :: "flags \<Rightarrow> flags \<Rightarrow> bool" where
  "flag_set w f \<longleftrightarrow> w AND f \<noteq> 0"

definition set_flag :: "flags \<Rightarrow> flags \<Rightarrow> flags" where
  "set_flag w f = w OR f"

definition clr_flag :: "flags \<Rightarrow> flags \<Rightarrow> flags" where
  "clr_flag w f = w AND NOT f"

lemma flag_set_bit: "flag_set w (2 ^ n) \<longleftrightarrow> bit w n"
  by (simp add: flag_set_def and_exp_eq_0_iff_not_bit)

lemma flag_set_bit_num [flag_simps]:
  "flag_set w 1 \<longleftrightarrow> bit w 0"
  "flag_set w 2 \<longleftrightarrow> bit w 1"
  "flag_set w 4 \<longleftrightarrow> bit w 2"
  "flag_set w 8 \<longleftrightarrow> bit w 3"
  "flag_set w 16 \<longleftrightarrow> bit w 4"
  using flag_set_bit [of w 0] flag_set_bit [of w 1] flag_set_bit [of w 2]
    flag_set_bit [of w 3] flag_set_bit [of w 4] by simp_all

lemma bit_set_clr [flag_simps]:
  "bit (set_flag w f) n \<longleftrightarrow> bit w n \<or> bit f n"
  "bit (clr_flag w f) n \<longleftrightarrow> n < 32 \<and> bit w n \<and> \<not> bit f n"
  by (auto simp: set_flag_def clr_flag_def bit_or_iff bit_and_iff bit_not_iff)

subsection \<open>Byte memory\<close>

definition load_bytes :: "nat \<Rightarrow> nat \<Rightarrow> byte list \<Rightarrow> byte list option" where
  "load_bytes p n m = (if p + n \<le> length m then Some (take n (drop p m)) else None)"

definition store_bytes :: "nat \<Rightarrow> byte list \<Rightarrow> byte list \<Rightarrow> byte list option" where
  "store_bytes p xs m =
     (if p + length xs \<le> length m then Some (take p m @ xs @ drop (p + length xs) m) else None)"

text \<open>\<open>memcpy(dst, src, n)\<close>: the source must have \<open>n\<close> bytes.\<close>

definition memcpy :: "nat \<Rightarrow> byte list \<Rightarrow> nat \<Rightarrow> byte list \<Rightarrow> byte list option" where
  "memcpy p src n m = (if n \<le> length src then store_bytes p (take n src) m else None)"

fun le_bytes :: "nat \<Rightarrow> nat \<Rightarrow> byte list" where
  "le_bytes 0 v = []"
| "le_bytes (Suc n) v = of_nat v # le_bytes n (v div 256)"

fun le_val :: "byte list \<Rightarrow> nat" where
  "le_val [] = 0"
| "le_val (b # bs) = unat b + 256 * le_val bs"

definition load32 :: "nat \<Rightarrow> byte list \<Rightarrow> nat option" where
  "load32 p m = map_option le_val (load_bytes p 4 m)"

definition store32 :: "nat \<Rightarrow> nat \<Rightarrow> byte list \<Rightarrow> byte list option" where
  "store32 p v m = store_bytes p (le_bytes 4 v) m"

lemma length_le_bytes [simp]: "length (le_bytes n v) = n"
  by (induction n arbitrary: v) simp_all

lemma le_val_le_bytes: "le_val (le_bytes n v) = v mod 256 ^ n"
proof (induction n arbitrary: v)
  case 0
  then show ?case by simp
next
  case (Suc n)
  have "unat (of_nat v :: byte) = v mod 256"
    by (simp add: unat_of_nat)
  with Suc show ?case
    by (simp add: mod_mult2_eq)
qed

lemma le_val_bound: "le_val bs < 256 ^ length bs"
proof (induction bs)
  case Nil
  then show ?case by simp
next
  case (Cons b bs)
  have "unat b < 256" using unsigned_less [of b] by simp
  with Cons show ?case by simp
qed

text \<open>Evaluation of concrete memories.\<close>

lemma le_bytes_4 [mem_simps]:
  "le_bytes 4 v = [of_nat v, of_nat (v div 256), of_nat (v div 65536), of_nat (v div 16777216)]"
proof -
  have "le_bytes (Suc (Suc (Suc (Suc 0)))) v =
      [of_nat v, of_nat (v div 256), of_nat (v div 65536), of_nat (v div 16777216)]"
    by (simp add: div_mult2_eq [symmetric])
  moreover have "(4::nat) = Suc (Suc (Suc (Suc 0)))" by simp
  ultimately show ?thesis by metis
qed

lemma replicate_numeral [mem_simps]:
  "replicate (numeral k) x = x # replicate (pred_numeral k) x"
  by (simp add: numeral_eq_Suc)

lemma load_bytes_Some: "load_bytes p n m = Some xs \<Longrightarrow> length xs = n \<and> p + n \<le> length m"
  by (auto simp: load_bytes_def split: if_splits)

lemma store_bytes_Some [mem_simps]:
  "p + length xs \<le> length m \<Longrightarrow>
   store_bytes p xs m = Some (take p m @ xs @ drop (p + length xs) m)"
  by (simp add: store_bytes_def)

lemma store_bytes_length: "store_bytes p xs m = Some m' \<Longrightarrow> length m' = length m"
  by (auto simp: store_bytes_def split: if_splits)

lemma load_store_same:
  assumes "store_bytes p xs m = Some m'"
  shows "load_bytes p (length xs) m' = Some xs"
  using assms by (auto simp: store_bytes_def load_bytes_def split: if_splits)

lemma store_bytes_nth:
  assumes "store_bytes p xs m = Some m'" and "i < length m"
  shows "m' ! i = (if p \<le> i \<and> i < p + length xs then xs ! (i - p) else m ! i)"
  using assms by (auto simp: store_bytes_def nth_append min_def split: if_splits)

lemma load_bytes_eqI:
  assumes "length m = length m'" and "\<And>i. p \<le> i \<Longrightarrow> i < p + n \<Longrightarrow> i < length m \<Longrightarrow> m ! i = m' ! i"
  shows "load_bytes p n m = load_bytes p n m'"
  using assms by (auto simp: load_bytes_def intro!: nth_equalityI)

lemma load_store_other:
  assumes "store_bytes p xs m = Some m'" and "q + n \<le> p \<or> p + length xs \<le> q"
  shows "load_bytes q n m' = load_bytes q n m"
proof (rule load_bytes_eqI)
  show "length m' = length m" using assms(1) by (rule store_bytes_length)
  fix i assume "q \<le> i" "i < q + n" "i < length m'"
  with assms store_bytes_length [OF assms(1)] show "m' ! i = m ! i"
    by (subst store_bytes_nth [OF assms(1)]) auto
qed

lemma load32_store32:
  assumes "store32 p v m = Some m'" and "v < SIZE_LIM"
  shows "load32 p m' = Some v"
  using load_store_same [OF assms(1) [unfolded store32_def]] assms(2)
  by (simp add: load32_def le_val_le_bytes)

lemma load32_bound: "load32 p m = Some v \<Longrightarrow> v < SIZE_LIM"
proof -
  assume "load32 p m = Some v"
  then obtain bs where "length bs = 4" and "v = le_val bs"
    by (auto simp: load32_def dest: load_bytes_Some)
  with le_val_bound [of bs] show ?thesis by simp
qed

end
