(* ===== verification/Ringbuf.thy ===== *)
theory Ringbuf
  imports Prelude
begin

section \<open>The ring buffer: data and static operations (esp\_ringbuf/ringbuf.c)\<close>

text \<open>
  \<open>Ringbuffer_t\<close> and the static functions of \<open>ringbuf.c\<close>. The five function pointers
  of the structure (\<open>xCheckItemFits\<close>, \<open>vCopyItem\<close>, \<open>pvGetItem\<close>,
  \<open>vReturnItem\<close>, \<open>xGetCurMaxSize\<close>) are set once, by \<open>prvInitializeNewRingbuffer\<close>,
  as a function of the buffer type; the record keeps that type in \<open>rbOps\<close> and the functions
  of the same names dispatch on it. The storage area is a list of bytes; the pointers into it
  are offsets from \<open>pucHead\<close>, whose address is kept for the alignment checks. A pointer a
  caller passes in (\<open>pucItem\<close>) is an integer offset, since it may lie outside the storage.
  Item headers live in the storage, eight bytes each. \<open>None\<close> is a run stopped by
  \<open>configASSERT\<close>, an access outside the storage, or a loop that does not end.
\<close>

subsection \<open>Macros and types\<close>

definition rbHEADER_SIZE :: nat where "rbHEADER_SIZE = 8"

definition rbALIGN_SIZE :: "nat \<Rightarrow> nat" where
  "rbALIGN_SIZE xSize = (sz_add xSize 3) div 4 * 4"

definition rbCHECK_ALIGNED :: "nat \<Rightarrow> bool" where
  "rbCHECK_ALIGNED p \<longleftrightarrow> p mod 4 = 0"

definition rbALLOW_SPLIT_FLAG :: flags where "rbALLOW_SPLIT_FLAG = 1"
definition rbBYTE_BUFFER_FLAG :: flags where "rbBYTE_BUFFER_FLAG = 2"
definition rbBUFFER_FULL_FLAG :: flags where "rbBUFFER_FULL_FLAG = 4"
definition rbBUFFER_STATIC_FLAG :: flags where "rbBUFFER_STATIC_FLAG = 8"

definition rbITEM_FREE_FLAG :: flags where "rbITEM_FREE_FLAG = 1"
definition rbITEM_DUMMY_DATA_FLAG :: flags where "rbITEM_DUMMY_DATA_FLAG = 2"
definition rbITEM_SPLIT_FLAG :: flags where "rbITEM_SPLIT_FLAG = 4"
definition rbITEM_WRITTEN_FLAG :: flags where "rbITEM_WRITTEN_FLAG = 8"

lemmas rb_consts = rbHEADER_SIZE_def rbALLOW_SPLIT_FLAG_def rbBYTE_BUFFER_FLAG_def
  rbBUFFER_FULL_FLAG_def rbBUFFER_STATIC_FLAG_def
lemmas item_consts = rbITEM_FREE_FLAG_def rbITEM_DUMMY_DATA_FLAG_def rbITEM_SPLIT_FLAG_def
  rbITEM_WRITTEN_FLAG_def

datatype RingbufferType_t = RINGBUF_TYPE_NOSPLIT | RINGBUF_TYPE_ALLOWSPLIT | RINGBUF_TYPE_BYTEBUF

record ItemHeader_t =
  xItemLen :: nat
  uxItemFlags :: flags

type_synonym task = nat

record Ringbuffer_t =
  xSize :: nat
  xMaxItemSize :: nat
  uxRingbufferFlags :: flags
  rbOps :: RingbufferType_t
  pucAcquire :: nat
  pucWrite :: nat
  pucRead :: nat
  pucFree :: nat
  pucHead :: nat
  pucTail :: nat
  xItemsWaiting :: int
  xTasksWaitingToSend :: "task list"
  xTasksWaitingToReceive :: "task list"
  xQueueSet :: "nat option"
  storage :: "byte list"

abbreviation rb_full :: "Ringbuffer_t \<Rightarrow> bool" where
  "rb_full rb \<equiv> flag_set (uxRingbufferFlags rb) rbBUFFER_FULL_FLAG"

definition read_hdr :: "nat \<Rightarrow> byte list \<Rightarrow> ItemHeader_t option" where
  "read_hdr p m = do {
     l \<leftarrow> load32 p m;
     f \<leftarrow> load32 (p + 4) m;
     Some \<lparr>xItemLen = l, uxItemFlags = of_nat f\<rparr> }"

definition write_hdr :: "nat \<Rightarrow> ItemHeader_t \<Rightarrow> byte list \<Rightarrow> byte list option" where
  "write_hdr p h m = do {
     m1 \<leftarrow> store32 p (xItemLen h) m;
     store32 (p + 4) (unat (uxItemFlags h)) m1 }"

text \<open>The offset a pointer stands for, when it is not before the storage area.\<close>

definition ptr_off :: "int \<Rightarrow> nat option" where
  "ptr_off i = (if 0 \<le> i then Some (nat i) else None)"

subsection \<open>Initialisation and free space\<close>

definition prvInitializeNewRingbuffer ::
  "nat \<Rightarrow> RingbufferType_t \<Rightarrow> nat \<Rightarrow> byte list \<Rightarrow> Ringbuffer_t" where
  "prvInitializeNewRingbuffer xBufferSize xBufferType headAddr st =
     \<lparr>xSize = xBufferSize,
      xMaxItemSize =
        (case xBufferType of
           RINGBUF_TYPE_NOSPLIT \<Rightarrow> sz_sub (rbALIGN_SIZE (xBufferSize div 2)) rbHEADER_SIZE
         | RINGBUF_TYPE_ALLOWSPLIT \<Rightarrow> sz_sub xBufferSize (rbHEADER_SIZE * 2)
         | RINGBUF_TYPE_BYTEBUF \<Rightarrow> xBufferSize),
      uxRingbufferFlags =
        (case xBufferType of
           RINGBUF_TYPE_NOSPLIT \<Rightarrow> 0
         | RINGBUF_TYPE_ALLOWSPLIT \<Rightarrow> set_flag 0 rbALLOW_SPLIT_FLAG
         | RINGBUF_TYPE_BYTEBUF \<Rightarrow> set_flag 0 rbBYTE_BUFFER_FLAG),
      rbOps = xBufferType,
      pucAcquire = 0, pucWrite = 0, pucRead = 0, pucFree = 0,
      pucHead = headAddr, pucTail = xBufferSize,
      xItemsWaiting = 0,
      xTasksWaitingToSend = [], xTasksWaitingToReceive = [],
      xQueueSet = None,
      storage = st\<rparr>"

definition prvGetFreeSize :: "Ringbuffer_t \<Rightarrow> nat option" where
  "prvGetFreeSize rb = do {
     let xReturn =
       (if rb_full rb then 0
        else let xFreeSize = int (pucFree rb) - int (pucAcquire rb)
             in nat ((if xFreeSize \<le> 0 then xFreeSize + int (xSize rb) else xFreeSize) mod 2 ^ 32));
     configASSERT (xReturn \<le> xSize rb);
     Some xReturn }"

definition prvCheckItemFitsDefault :: "Ringbuffer_t \<Rightarrow> nat \<Rightarrow> bool option" where
  "prvCheckItemFitsDefault rb xItemSize = do {
     configASSERT (rbCHECK_ALIGNED (pucHead rb + pucAcquire rb));
     configASSERT (pucAcquire rb < pucTail rb);
     let xTotalItemSize = sz_add (rbALIGN_SIZE xItemSize) rbHEADER_SIZE;
     Some
       (if pucAcquire rb = pucFree rb then \<not> rb_full rb
        else if pucAcquire rb < pucFree rb then
          xTotalItemSize \<le> pucFree rb - pucAcquire rb
        else if xTotalItemSize \<le> sz_sub (pucTail rb) (pucAcquire rb) then True
        else if flag_set (uxRingbufferFlags rb) rbALLOW_SPLIT_FLAG then
          sz_add xTotalItemSize rbHEADER_SIZE \<le> sz_sub (xSize rb) (pucAcquire rb - pucFree rb)
        else xTotalItemSize \<le> pucFree rb) }"

definition prvCheckItemFitsByteBuffer :: "Ringbuffer_t \<Rightarrow> nat \<Rightarrow> bool option" where
  "prvCheckItemFitsByteBuffer rb xItemSize = do {
     configASSERT (pucAcquire rb < pucTail rb);
     Some
       (if pucAcquire rb = pucFree rb then \<not> rb_full rb
        else if pucAcquire rb < pucFree rb then xItemSize \<le> pucFree rb - pucAcquire rb
        else xItemSize \<le> sz_sub (xSize rb) (pucAcquire rb - pucFree rb)) }"

subsection \<open>Acquiring, completing and copying items\<close>

text \<open>
  \<open>mark_full\<close> is the check that ends the three copy routines: acquire pointer equal to free
  pointer means the buffer is now full.
\<close>

definition mark_full :: "Ringbuffer_t \<Rightarrow> Ringbuffer_t" where
  "mark_full rb =
     (if pucAcquire rb = pucFree rb
      then rb\<lparr>uxRingbufferFlags := set_flag (uxRingbufferFlags rb) rbBUFFER_FULL_FLAG\<rparr> else rb)"

definition prvAcquireItemNoSplit :: "Ringbuffer_t \<Rightarrow> nat \<Rightarrow> (nat \<times> Ringbuffer_t) option" where
  "prvAcquireItemNoSplit rb xItemSize = do {
     let xAlignedItemSize = rbALIGN_SIZE xItemSize;
     let xRemLen = sz_sub (pucTail rb) (pucAcquire rb);
     configASSERT (rbCHECK_ALIGNED (pucHead rb + pucAcquire rb));
     configASSERT (pucAcquire rb < pucTail rb);
     configASSERT (rbHEADER_SIZE \<le> xRemLen);
     rb1 \<leftarrow>
       (if xRemLen < sz_add xAlignedItemSize rbHEADER_SIZE then do {
          m \<leftarrow> write_hdr (pucAcquire rb)
                 \<lparr>xItemLen = 0, uxItemFlags = rbITEM_DUMMY_DATA_FLAG\<rparr> (storage rb);
          Some (rb\<lparr>storage := m, pucAcquire := 0\<rparr>) }
        else Some rb);
     m1 \<leftarrow> write_hdr (pucAcquire rb1) \<lparr>xItemLen = xItemSize, uxItemFlags = 0\<rparr> (storage rb1);
     let item_address = pucAcquire rb1 + rbHEADER_SIZE;
     let a = pucAcquire rb1 + (rbHEADER_SIZE + xAlignedItemSize);
     let rb2 = rb1\<lparr>storage := m1,
                   pucAcquire := (if sz_sub (pucTail rb1) a < rbHEADER_SIZE then 0 else a)\<rparr>;
     Some (item_address, mark_full rb2) }"

text \<open>
  The loop of \<open>prvSendItemDoneNoSplit\<close>: the write pointer passes items already written and
  dummy items, up to the acquire pointer.
\<close>

partial_function (option) advance_write :: "Ringbuffer_t \<Rightarrow> Ringbuffer_t option" where
  "advance_write rb = do {
     h \<leftarrow> read_hdr (pucWrite rb) (storage rb);
     (if (flag_set (uxItemFlags h) rbITEM_WRITTEN_FLAG \<or>
          flag_set (uxItemFlags h) rbITEM_DUMMY_DATA_FLAG) \<and> pucWrite rb \<noteq> pucAcquire rb
      then do {
        rb1 \<leftarrow>
          (if flag_set (uxItemFlags h) rbITEM_DUMMY_DATA_FLAG then do {
             m \<leftarrow> write_hdr (pucWrite rb)
                    (h\<lparr>uxItemFlags := set_flag (uxItemFlags h) rbITEM_WRITTEN_FLAG\<rparr>) (storage rb);
             Some (rb\<lparr>storage := m, pucWrite := 0\<rparr>) }
           else do {
             let w = pucWrite rb + (rbALIGN_SIZE (xItemLen h) + rbHEADER_SIZE);
             configASSERT (w \<le> xSize rb);
             Some (rb\<lparr>pucWrite := w\<rparr>) });
        let rb2 = (if sz_sub (pucTail rb1) (pucWrite rb1) < rbHEADER_SIZE
                   then rb1\<lparr>pucWrite := 0\<rparr> else rb1);
        advance_write rb2 }
      else Some rb) }"

definition prvSendItemDoneNoSplit :: "Ringbuffer_t \<Rightarrow> int \<Rightarrow> Ringbuffer_t option" where
  "prvSendItemDoneNoSplit rb pucItem = do {
     configASSERT ((int (pucHead rb) + pucItem) mod 4 = 0);
     configASSERT (0 \<le> pucItem);
     configASSERT (pucItem \<le> int (pucTail rb));
     p \<leftarrow> ptr_off (pucItem - int rbHEADER_SIZE);
     h \<leftarrow> read_hdr p (storage rb);
     configASSERT (xItemLen h \<le> xMaxItemSize rb);
     configASSERT (\<not> flag_set (uxItemFlags h) rbITEM_DUMMY_DATA_FLAG);
     configASSERT (\<not> flag_set (uxItemFlags h) rbITEM_WRITTEN_FLAG);
     m \<leftarrow> write_hdr p
            (h\<lparr>uxItemFlags :=
                 set_flag (clr_flag (uxItemFlags h) rbITEM_SPLIT_FLAG) rbITEM_WRITTEN_FLAG\<rparr>)
            (storage rb);
     advance_write (rb\<lparr>storage := m, xItemsWaiting := xItemsWaiting rb + 1\<rparr>) }"

definition prvCopyItemNoSplit :: "Ringbuffer_t \<Rightarrow> byte list \<Rightarrow> nat \<Rightarrow> Ringbuffer_t option" where
  "prvCopyItemNoSplit rb pucItem xItemSize = do {
     (item_addr, rb1) \<leftarrow> prvAcquireItemNoSplit rb xItemSize;
     m \<leftarrow> memcpy item_addr pucItem xItemSize (storage rb1);
     prvSendItemDoneNoSplit (rb1\<lparr>storage := m\<rparr>) (int item_addr) }"

definition prvCopyItemAllowSplit :: "Ringbuffer_t \<Rightarrow> byte list \<Rightarrow> nat \<Rightarrow> Ringbuffer_t option" where
  "prvCopyItemAllowSplit rb pucItem xItemSize = do {
     let xAlignedItemSize = rbALIGN_SIZE xItemSize;
     let xRemLen = sz_sub (pucTail rb) (pucAcquire rb);
     configASSERT (rbCHECK_ALIGNED (pucHead rb + pucAcquire rb));
     configASSERT (pucAcquire rb < pucTail rb);
     configASSERT (rbHEADER_SIZE \<le> xRemLen);
     (rb1, item1, size1, aligned1) \<leftarrow>
       (if xRemLen < sz_add xAlignedItemSize rbHEADER_SIZE then
          (let rem = xRemLen - rbHEADER_SIZE in
           if 0 < rem then do {
             m \<leftarrow> write_hdr (pucAcquire rb)
                    \<lparr>xItemLen = rem, uxItemFlags = set_flag 0 rbITEM_SPLIT_FLAG\<rparr> (storage rb);
             m1 \<leftarrow> memcpy (pucAcquire rb + rbHEADER_SIZE) pucItem rem m;
             Some (rb\<lparr>storage := m1, xItemsWaiting := xItemsWaiting rb + 1, pucAcquire := 0\<rparr>,
                   drop rem pucItem, sz_sub xItemSize rem, sz_sub xAlignedItemSize rem) }
           else do {
             m \<leftarrow> write_hdr (pucAcquire rb)
                    \<lparr>xItemLen = rem, uxItemFlags = set_flag 0 rbITEM_DUMMY_DATA_FLAG\<rparr>
                    (storage rb);
             Some (rb\<lparr>storage := m, pucAcquire := 0\<rparr>, pucItem, xItemSize, xAlignedItemSize) })
        else Some (rb, pucItem, xItemSize, xAlignedItemSize));
     m2 \<leftarrow> write_hdr (pucAcquire rb1) \<lparr>xItemLen = size1, uxItemFlags = 0\<rparr> (storage rb1);
     m3 \<leftarrow> memcpy (pucAcquire rb1 + rbHEADER_SIZE) item1 size1 m2;
     let a = pucAcquire rb1 + rbHEADER_SIZE + aligned1;
     let rb2 = mark_full (rb1\<lparr>storage := m3, xItemsWaiting := xItemsWaiting rb1 + 1,
                     pucAcquire := (if sz_sub (pucTail rb1) a < rbHEADER_SIZE then 0 else a)\<rparr>);
     Some (rb2\<lparr>pucWrite := pucAcquire rb2\<rparr>) }"

definition prvCopyItemByteBuf :: "Ringbuffer_t \<Rightarrow> byte list \<Rightarrow> nat \<Rightarrow> Ringbuffer_t option" where
  "prvCopyItemByteBuf rb pucItem xItemSize = do {
     configASSERT (pucAcquire rb < pucTail rb);
     let xRemLen = sz_sub (pucTail rb) (pucAcquire rb);
     (rb1, item1, size1) \<leftarrow>
       (if xRemLen < xItemSize then do {
          m \<leftarrow> memcpy (pucAcquire rb) pucItem xRemLen (storage rb);
          Some (rb\<lparr>storage := m, xItemsWaiting := xItemsWaiting rb + int xRemLen, pucAcquire := 0\<rparr>,
                drop xRemLen pucItem, xItemSize - xRemLen) }
        else Some (rb, pucItem, xItemSize));
     m1 \<leftarrow> memcpy (pucAcquire rb1) item1 size1 (storage rb1);
     let a = pucAcquire rb1 + size1;
     let rb2 = mark_full (rb1\<lparr>storage := m1, xItemsWaiting := xItemsWaiting rb1 + int size1,
                     pucAcquire := (if a = pucTail rb1 then 0 else a)\<rparr>);
     Some (rb2\<lparr>pucWrite := pucAcquire rb2\<rparr>) }"

subsection \<open>Retrieving and returning items\<close>

definition prvCheckItemAvail :: "Ringbuffer_t \<Rightarrow> bool" where
  "prvCheckItemAvail rb =
     (if flag_set (uxRingbufferFlags rb) rbBYTE_BUFFER_FLAG \<and> pucRead rb \<noteq> pucFree rb then False
      else xItemsWaiting rb > 0 \<and> (pucRead rb \<noteq> pucWrite rb \<or> rb_full rb))"

text \<open>The result of a retrieval: offset and length of the data, and the split mark.\<close>

record got_item =
  gotPtr :: nat
  gotSize :: nat
  gotSplit :: bool

definition prvGetItemDefault :: "Ringbuffer_t \<Rightarrow> (got_item \<times> Ringbuffer_t) option" where
  "prvGetItemDefault rb = do {
     h0 \<leftarrow> read_hdr (pucRead rb) (storage rb);
     configASSERT (xItemsWaiting rb > 0 \<and> (pucRead rb \<noteq> pucWrite rb \<or> rb_full rb));
     configASSERT (rbCHECK_ALIGNED (pucHead rb + pucRead rb));
     configASSERT (pucRead rb < pucTail rb);
     configASSERT (xItemLen h0 \<le> xMaxItemSize rb \<or> flag_set (uxItemFlags h0) rbITEM_DUMMY_DATA_FLAG);
     (rb1, h) \<leftarrow>
       (if flag_set (uxItemFlags h0) rbITEM_DUMMY_DATA_FLAG then do {
          h1 \<leftarrow> read_hdr 0 (storage rb);
          configASSERT (xItemLen h1 \<le> xMaxItemSize rb);
          Some (rb\<lparr>pucRead := 0\<rparr>, h1) }
        else Some (rb, h0));
     let pcReturn = pucRead rb1 + rbHEADER_SIZE;
     configASSERT (if xItemLen h = 0 then pcReturn \<le> pucTail rb1 else pcReturn < pucTail rb1);
     let r = pucRead rb1 + (rbHEADER_SIZE + rbALIGN_SIZE (xItemLen h));
     Some (\<lparr>gotPtr = pcReturn, gotSize = xItemLen h,
            gotSplit = flag_set (uxItemFlags h) rbITEM_SPLIT_FLAG\<rparr>,
           rb1\<lparr>xItemsWaiting := xItemsWaiting rb1 - 1,
               pucRead := (if sz_sub (pucTail rb1) r < rbHEADER_SIZE then 0 else r)\<rparr>) }"

definition prvGetItemByteBuf :: "Ringbuffer_t \<Rightarrow> nat \<Rightarrow> (got_item \<times> Ringbuffer_t) option" where
  "prvGetItemByteBuf rb xMaxSize = do {
     configASSERT (xItemsWaiting rb > 0 \<and> (pucRead rb \<noteq> pucWrite rb \<or> rb_full rb));
     configASSERT (pucRead rb < pucTail rb);
     configASSERT (pucRead rb = pucFree rb);
     let ret = pucRead rb;
     let (size, rd) =
       (if pucRead rb > pucWrite rb \<or> rb_full rb then
          (if xMaxSize = 0 \<or> pucTail rb - pucRead rb \<le> xMaxSize
           then (pucTail rb - pucRead rb, 0)
           else (xMaxSize, pucRead rb + xMaxSize))
        else
          (if xMaxSize = 0 \<or> pucWrite rb - pucRead rb \<le> xMaxSize
           then (pucWrite rb - pucRead rb, pucWrite rb)
           else (xMaxSize, pucRead rb + xMaxSize)));
     Some (\<lparr>gotPtr = ret, gotSize = size, gotSplit = False\<rparr>,
           rb\<lparr>xItemsWaiting := xItemsWaiting rb - int size, pucRead := rd\<rparr>) }"

text \<open>
  The loop of \<open>prvReturnItemDefault\<close>: the free pointer passes items already returned and
  dummy items, up to the read pointer.
\<close>

partial_function (option) advance_free :: "Ringbuffer_t \<Rightarrow> Ringbuffer_t option" where
  "advance_free rb = do {
     h \<leftarrow> read_hdr (pucFree rb) (storage rb);
     (if (flag_set (uxItemFlags h) rbITEM_FREE_FLAG \<or>
          flag_set (uxItemFlags h) rbITEM_DUMMY_DATA_FLAG) \<and> pucFree rb \<noteq> pucRead rb
      then do {
        rb1 \<leftarrow>
          (if flag_set (uxItemFlags h) rbITEM_DUMMY_DATA_FLAG then do {
             m \<leftarrow> write_hdr (pucFree rb)
                    (h\<lparr>uxItemFlags := set_flag (uxItemFlags h) rbITEM_FREE_FLAG\<rparr>) (storage rb);
             Some (rb\<lparr>storage := m, pucFree := 0\<rparr>) }
           else do {
             let f = pucFree rb + (rbALIGN_SIZE (xItemLen h) + rbHEADER_SIZE);
             configASSERT (f \<le> xSize rb);
             Some (rb\<lparr>pucFree := f\<rparr>) });
        let rb2 = (if sz_sub (pucTail rb1) (pucFree rb1) < rbHEADER_SIZE
                   then rb1\<lparr>pucFree := 0\<rparr> else rb1);
        advance_free rb2 }
      else Some rb) }"

definition prvReturnItemDefault :: "Ringbuffer_t \<Rightarrow> int \<Rightarrow> Ringbuffer_t option" where
  "prvReturnItemDefault rb pucItem = do {
     configASSERT ((int (pucHead rb) + pucItem) mod 4 = 0);
     configASSERT (0 \<le> pucItem);
     configASSERT (pucItem \<le> int (pucTail rb));
     p \<leftarrow> ptr_off (pucItem - int rbHEADER_SIZE);
     h \<leftarrow> read_hdr p (storage rb);
     configASSERT (xItemLen h \<le> xMaxItemSize rb);
     configASSERT (\<not> flag_set (uxItemFlags h) rbITEM_DUMMY_DATA_FLAG);
     configASSERT (\<not> flag_set (uxItemFlags h) rbITEM_FREE_FLAG);
     m \<leftarrow> write_hdr p
            (h\<lparr>uxItemFlags :=
                 set_flag (clr_flag (uxItemFlags h) rbITEM_SPLIT_FLAG) rbITEM_FREE_FLAG\<rparr>)
            (storage rb);
     rb1 \<leftarrow> advance_free (rb\<lparr>storage := m\<rparr>);
     Some
       (if rb_full rb1 \<and>
           (pucFree rb1 \<noteq> pucAcquire rb1 \<or>
            pucFree rb1 = pucAcquire rb1 \<and> pucFree rb1 = pucRead rb1)
        then rb1\<lparr>uxRingbufferFlags := clr_flag (uxRingbufferFlags rb1) rbBUFFER_FULL_FLAG\<rparr>
        else rb1) }"

definition prvReturnItemByteBuf :: "Ringbuffer_t \<Rightarrow> int \<Rightarrow> Ringbuffer_t option" where
  "prvReturnItemByteBuf rb pucItem = do {
     configASSERT (0 \<le> pucItem);
     configASSERT (pucItem < int (pucTail rb));
     let rb1 = rb\<lparr>pucFree := pucRead rb\<rparr>;
     Some (if rb_full rb1
           then rb1\<lparr>uxRingbufferFlags := clr_flag (uxRingbufferFlags rb1) rbBUFFER_FULL_FLAG\<rparr>
           else rb1) }"

subsection \<open>Facts about the full mark\<close>

lemma mark_full_sel [simp]:
  "xSize (mark_full rb) = xSize rb" "xMaxItemSize (mark_full rb) = xMaxItemSize rb"
  "rbOps (mark_full rb) = rbOps rb" "pucAcquire (mark_full rb) = pucAcquire rb"
  "pucRead (mark_full rb) = pucRead rb" "pucFree (mark_full rb) = pucFree rb"
  "pucHead (mark_full rb) = pucHead rb" "pucTail (mark_full rb) = pucTail rb"
  "xItemsWaiting (mark_full rb) = xItemsWaiting rb" "storage (mark_full rb) = storage rb"
  "pucWrite (mark_full rb) = pucWrite rb" "xQueueSet (mark_full rb) = xQueueSet rb"
  "xTasksWaitingToSend (mark_full rb) = xTasksWaitingToSend rb"
  "xTasksWaitingToReceive (mark_full rb) = xTasksWaitingToReceive rb"
  by (simp_all add: mark_full_def)

lemma mark_full_flags [simp]:
  "rb_full (mark_full rb) \<longleftrightarrow> pucAcquire rb = pucFree rb \<or> rb_full rb"
  "flag_set (uxRingbufferFlags (mark_full rb)) rbBYTE_BUFFER_FLAG \<longleftrightarrow>
   flag_set (uxRingbufferFlags rb) rbBYTE_BUFFER_FLAG"
  "flag_set (uxRingbufferFlags (mark_full rb)) rbALLOW_SPLIT_FLAG \<longleftrightarrow>
   flag_set (uxRingbufferFlags rb) rbALLOW_SPLIT_FLAG"
  by (simp_all add: mark_full_def rb_consts flag_simps)

lemma mark_full_upd:
  "(mark_full rb)\<lparr>storage := m\<rparr> = mark_full (rb\<lparr>storage := m\<rparr>)"
  "(mark_full rb)\<lparr>xItemsWaiting := k\<rparr> = mark_full (rb\<lparr>xItemsWaiting := k\<rparr>)"
  "(mark_full rb)\<lparr>pucWrite := w\<rparr> = mark_full (rb\<lparr>pucWrite := w\<rparr>)"
  by (simp_all add: mark_full_def)

subsection \<open>Current maximum item size\<close>

text \<open>
  The comparison \<open>xFreeSize > xMaxItemSize\<close> is unsigned, but its left side is not negative
  there, so the values compare as numbers.
\<close>

definition clamp_size :: "Ringbuffer_t \<Rightarrow> int \<Rightarrow> nat" where
  "clamp_size rb xFreeSize =
     (if xFreeSize < 0 then 0
      else if xFreeSize > int (xMaxItemSize rb) then xMaxItemSize rb
      else nat xFreeSize)"

definition prvGetCurMaxSizeNoSplit :: "Ringbuffer_t \<Rightarrow> nat" where
  "prvGetCurMaxSizeNoSplit rb =
     (if rb_full rb then 0
      else
        let xFreeSize =
          (if pucAcquire rb < pucFree rb then int (pucFree rb - pucAcquire rb)
           else let xSize1 = sz_sub (pucTail rb) (pucAcquire rb); xSize2 = pucFree rb
                in int (if xSize1 > xSize2 then xSize1 else xSize2))
        in clamp_size rb (xFreeSize - int rbHEADER_SIZE))"

definition prvGetCurMaxSizeAllowSplit :: "Ringbuffer_t \<Rightarrow> nat" where
  "prvGetCurMaxSizeAllowSplit rb =
     (if rb_full rb then 0
      else
        clamp_size rb
          (if pucAcquire rb = 0 \<and> pucFree rb = 0 then int (xSize rb) - int rbHEADER_SIZE
           else if pucAcquire rb < pucFree rb then
             int (pucFree rb) - int (pucAcquire rb) - int rbHEADER_SIZE
           else int (pucFree rb) + (int (pucTail rb) - int (pucAcquire rb)) - int rbHEADER_SIZE * 2))"

definition prvGetCurMaxSizeByteBuf :: "Ringbuffer_t \<Rightarrow> nat" where
  "prvGetCurMaxSizeByteBuf rb =
     (if rb_full rb then 0
      else let xFreeSize = int (pucFree rb) - int (pucAcquire rb)
           in nat ((if xFreeSize \<le> 0 then xFreeSize + int (xSize rb) else xFreeSize) mod 2 ^ 32))"

subsection \<open>The function pointers\<close>

text \<open>\<open>rb_eval\<close> evaluates the static operations on concrete buffers.\<close>

lemmas rb_eval = prvInitializeNewRingbuffer_def prvAcquireItemNoSplit_def
  prvSendItemDoneNoSplit_def prvCopyItemNoSplit_def prvCopyItemAllowSplit_def
  prvCopyItemByteBuf_def prvCheckItemFitsDefault_def prvCheckItemFitsByteBuffer_def
  prvCheckItemAvail_def prvGetItemDefault_def prvGetItemByteBuf_def prvReturnItemDefault_def
  prvReturnItemByteBuf_def prvGetFreeSize_def mark_full_def rb_consts item_consts
  rbALIGN_SIZE_def rbCHECK_ALIGNED_def read_hdr_def write_hdr_def load32_def store32_def
  load_bytes_def store_bytes_def memcpy_def ptr_off_def advance_write.simps advance_free.simps
  sz_add_def sz_sub_def flag_set_def set_flag_def clr_flag_def Let_def mem_simps

definition xCheckItemFits :: "Ringbuffer_t \<Rightarrow> nat \<Rightarrow> bool option" where
  "xCheckItemFits rb n = (case rbOps rb of
       RINGBUF_TYPE_NOSPLIT \<Rightarrow> prvCheckItemFitsDefault rb n
     | RINGBUF_TYPE_ALLOWSPLIT \<Rightarrow> prvCheckItemFitsDefault rb n
     | RINGBUF_TYPE_BYTEBUF \<Rightarrow> prvCheckItemFitsByteBuffer rb n)"

definition vCopyItem :: "Ringbuffer_t \<Rightarrow> byte list \<Rightarrow> nat \<Rightarrow> Ringbuffer_t option" where
  "vCopyItem rb xs n = (case rbOps rb of
       RINGBUF_TYPE_NOSPLIT \<Rightarrow> prvCopyItemNoSplit rb xs n
     | RINGBUF_TYPE_ALLOWSPLIT \<Rightarrow> prvCopyItemAllowSplit rb xs n
     | RINGBUF_TYPE_BYTEBUF \<Rightarrow> prvCopyItemByteBuf rb xs n)"

definition pvGetItem :: "Ringbuffer_t \<Rightarrow> nat \<Rightarrow> (got_item \<times> Ringbuffer_t) option" where
  "pvGetItem rb xMaxSize = (case rbOps rb of
       RINGBUF_TYPE_NOSPLIT \<Rightarrow> prvGetItemDefault rb
     | RINGBUF_TYPE_ALLOWSPLIT \<Rightarrow> prvGetItemDefault rb
     | RINGBUF_TYPE_BYTEBUF \<Rightarrow> prvGetItemByteBuf rb xMaxSize)"

definition vReturnItem :: "Ringbuffer_t \<Rightarrow> int \<Rightarrow> Ringbuffer_t option" where
  "vReturnItem rb p = (case rbOps rb of
       RINGBUF_TYPE_NOSPLIT \<Rightarrow> prvReturnItemDefault rb p
     | RINGBUF_TYPE_ALLOWSPLIT \<Rightarrow> prvReturnItemDefault rb p
     | RINGBUF_TYPE_BYTEBUF \<Rightarrow> prvReturnItemByteBuf rb p)"

definition xGetCurMaxSize :: "Ringbuffer_t \<Rightarrow> nat" where
  "xGetCurMaxSize rb = (case rbOps rb of
       RINGBUF_TYPE_NOSPLIT \<Rightarrow> prvGetCurMaxSizeNoSplit rb
     | RINGBUF_TYPE_ALLOWSPLIT \<Rightarrow> prvGetCurMaxSizeAllowSplit rb
     | RINGBUF_TYPE_BYTEBUF \<Rightarrow> prvGetCurMaxSizeByteBuf rb)"

end
