(* ===== verification/Ringbuf_Api.thy ===== *)
theory Ringbuf_Api
  imports Ringbuf
begin

section \<open>The ring buffer: blocking core and public functions (esp\_ringbuf/ringbuf.c)\<close>

text \<open>
  The generic send and receive loops and the public API on top of them. Every body between
  \<open>portENTER_CRITICAL\<close> and \<open>portEXIT_CRITICAL\<close> is one atomic step on the record.
  What happens while the calling task is blocked is not under the control of the code: it is
  the argument \<open>env\<close>, one entry per time the loop goes to sleep. An entry holds the answer
  of \<open>xTaskCheckForTimeOut\<close> (\<open>None\<close>: timed out, \<open>Some t\<close>: \<open>t\<close> ticks remain) and the
  change other tasks made to the ring buffer before this task ran again. When \<open>env\<close> is used
  up the task is still asleep (\<open>Blocked\<close>). Handles are records, so the \<open>NULL\<close> checks on
  them do not arise.
\<close>

subsection \<open>Task lists and outcomes\<close>

text \<open>
  \<open>vTaskPlaceOnEventList\<close> keeps a list ordered by priority, a new task behind those of its
  own priority; \<open>xTaskRemoveFromEventList\<close> takes the first one.
\<close>

fun place_on_event_list :: "(task \<Rightarrow> nat) \<Rightarrow> task \<Rightarrow> task list \<Rightarrow> task list" where
  "place_on_event_list prio t [] = [t]"
| "place_on_event_list prio t (u # us) =
     (if prio u < prio t then t # u # us else u # place_on_event_list prio t us)"

type_synonym wakeups = "(nat option \<times> (Ringbuffer_t \<Rightarrow> Ringbuffer_t)) list"

datatype 'a outcome = Returned 'a Ringbuffer_t | Blocked Ringbuffer_t

datatype send_mode = SendItem "byte list" | AcquireItem

record send_result =
  sendOk :: bool
  acquiredPtr :: "nat option"
  wokenTask :: "task option"
  notifiedSet :: "nat option"

definition send_failed :: send_result where
  "send_failed = \<lparr>sendOk = False, acquiredPtr = None, wokenTask = None, notifiedSet = None\<rparr>"

text \<open>
  After data was written: notify the queue set, or else unblock the first task waiting to
  receive.
\<close>

definition wake_receiver :: "Ringbuffer_t \<Rightarrow> send_result \<times> Ringbuffer_t" where
  "wake_receiver rb =
     (case xQueueSet rb of
        Some qs \<Rightarrow> (\<lparr>sendOk = True, acquiredPtr = None, wokenTask = None, notifiedSet = Some qs\<rparr>, rb)
      | None \<Rightarrow>
          (case xTasksWaitingToReceive rb of
             [] \<Rightarrow> (\<lparr>sendOk = True, acquiredPtr = None, wokenTask = None, notifiedSet = None\<rparr>, rb)
           | t # ts \<Rightarrow> (\<lparr>sendOk = True, acquiredPtr = None, wokenTask = Some t, notifiedSet = None\<rparr>,
                        rb\<lparr>xTasksWaitingToReceive := ts\<rparr>)))"

lemma wake_receiver_cases:
  obtains ts where "snd (wake_receiver rb) = rb\<lparr>xTasksWaitingToReceive := ts\<rparr>"
    "sendOk (fst (wake_receiver rb))"
proof -
  have "\<exists>ts. snd (wake_receiver rb) = rb\<lparr>xTasksWaitingToReceive := ts\<rparr> \<and>
      sendOk (fst (wake_receiver rb))"
    by (cases "xQueueSet rb"; cases "xTasksWaitingToReceive rb")
      (auto simp: wake_receiver_def intro: exI [of _ "xTasksWaitingToReceive rb"])
  then show ?thesis using that by blast
qed

fun prvSendAcquireGeneric ::
  "(task \<Rightarrow> nat) \<Rightarrow> task \<Rightarrow> wakeups \<Rightarrow> Ringbuffer_t \<Rightarrow> send_mode \<Rightarrow> nat \<Rightarrow> nat \<Rightarrow>
   send_result outcome option" where
  "prvSendAcquireGeneric prio self env rb mode xItemSize xTicksToWait = do {
     fits \<leftarrow> xCheckItemFits rb xItemSize;
     (if fits then
        (case mode of
           AcquireItem \<Rightarrow> do {
             (p, rb1) \<leftarrow> prvAcquireItemNoSplit rb xItemSize;
             Some (Returned \<lparr>sendOk = True, acquiredPtr = Some p, wokenTask = None,
                             notifiedSet = None\<rparr> rb1) }
         | SendItem pvItem \<Rightarrow> do {
             rb1 \<leftarrow> vCopyItem rb pvItem xItemSize;
             let (res, rb2) = wake_receiver rb1;
             Some (Returned res rb2) })
      else if xTicksToWait = 0 then Some (Returned send_failed rb)
      else
        (let rb1 = rb\<lparr>xTasksWaitingToSend :=
                       place_on_event_list prio self (xTasksWaitingToSend rb)\<rparr>
         in case env of
              [] \<Rightarrow> Some (Blocked rb1)
            | (None, _) # _ \<Rightarrow> Some (Returned send_failed rb)
            | (Some t, f) # env' \<Rightarrow>
                prvSendAcquireGeneric prio self env' (f rb1) mode xItemSize t)) }"

declare prvSendAcquireGeneric.simps [simp del]

record recv_result =
  recvOk :: bool
  pvItem1 :: "got_item option"
  pvItem2 :: "got_item option"

definition recv_failed :: recv_result where
  "recv_failed = \<lparr>recvOk = False, pvItem1 = None, pvItem2 = None\<rparr>"

text \<open>
  The retrieval that \<open>prvReceiveGeneric\<close> and \<open>prvReceiveGenericFromISR\<close> share: the
  second part of a split item follows the first. On an allow-split buffer \<open>*pvItem2\<close> is
  written in either case; \<open>item2_ok\<close> says whether the caller passed a pointer there, and
  the write through \<open>NULL\<close> stops the run.
\<close>

definition receive_now :: "bool \<Rightarrow> Ringbuffer_t \<Rightarrow> nat \<Rightarrow> (recv_result \<times> Ringbuffer_t) option" where
  "receive_now item2_ok rb xMaxSize = do {
     (it1, rb1) \<leftarrow> pvGetItem rb
        (if flag_set (uxRingbufferFlags rb) rbBYTE_BUFFER_FLAG then xMaxSize else 0);
     configASSERT (\<not> flag_set (uxRingbufferFlags rb1) rbALLOW_SPLIT_FLAG \<or> item2_ok);
     (if flag_set (uxRingbufferFlags rb1) rbALLOW_SPLIT_FLAG \<and> gotSplit it1 then do {
        (it2, rb2) \<leftarrow> pvGetItem rb1 0;
        configASSERT (gotPtr it2 < gotPtr it1);
        configASSERT (\<not> gotSplit it2);
        Some (\<lparr>recvOk = True, pvItem1 = Some it1, pvItem2 = Some it2\<rparr>, rb2) }
      else Some (\<lparr>recvOk = True, pvItem1 = Some it1, pvItem2 = None\<rparr>, rb1)) }"

fun prvReceiveGeneric ::
  "(task \<Rightarrow> nat) \<Rightarrow> task \<Rightarrow> wakeups \<Rightarrow> bool \<Rightarrow> Ringbuffer_t \<Rightarrow> nat \<Rightarrow> nat \<Rightarrow>
   recv_result outcome option" where
  "prvReceiveGeneric prio self env item2_ok rb xMaxSize xTicksToWait =
     (if prvCheckItemAvail rb then do {
        (res, rb1) \<leftarrow> receive_now item2_ok rb xMaxSize;
        Some (Returned res rb1) }
      else if xTicksToWait = 0 then Some (Returned recv_failed rb)
      else
        (let rb1 = rb\<lparr>xTasksWaitingToReceive :=
                       place_on_event_list prio self (xTasksWaitingToReceive rb)\<rparr>
         in case env of
              [] \<Rightarrow> Some (Blocked rb1)
            | (None, _) # _ \<Rightarrow> Some (Returned recv_failed rb)
            | (Some t, f) # env' \<Rightarrow> prvReceiveGeneric prio self env' item2_ok (f rb1) xMaxSize t))"

declare prvReceiveGeneric.simps [simp del]

definition prvReceiveGenericFromISR ::
  "bool \<Rightarrow> Ringbuffer_t \<Rightarrow> nat \<Rightarrow> (recv_result \<times> Ringbuffer_t) option" where
  "prvReceiveGenericFromISR item2_ok rb xMaxSize =
     (if prvCheckItemAvail rb then receive_now item2_ok rb xMaxSize else Some (recv_failed, rb))"

subsection \<open>Creation and deletion\<close>

text \<open>
  The allocator's answers are arguments: whether the control block was allocated, and the
  address and contents of the storage block. A failed creation says which of the two blocks
  it gives back to the allocator.
\<close>

datatype create_result = Created Ringbuffer_t | CreateFailed bool bool

definition xRingbufferCreate ::
  "bool \<Rightarrow> (nat \<Rightarrow> (nat \<times> byte list) option) \<Rightarrow> nat \<Rightarrow> RingbufferType_t \<Rightarrow> create_result option" where
  "xRingbufferCreate calloc_ok malloc_st xBufferSize0 xBufferType = do {
     configASSERT (xBufferSize0 > 0);
     let xBufferSize = (if xBufferType \<noteq> RINGBUF_TYPE_BYTEBUF then rbALIGN_SIZE xBufferSize0
                        else xBufferSize0);
     Some (case malloc_st xBufferSize of
             None \<Rightarrow> CreateFailed calloc_ok False
           | Some (a, st) \<Rightarrow>
               if \<not> calloc_ok then CreateFailed False True
               else Created (prvInitializeNewRingbuffer xBufferSize xBufferType a st)) }"

definition xRingbufferCreateNoSplit ::
  "bool \<Rightarrow> (nat \<Rightarrow> (nat \<times> byte list) option) \<Rightarrow> nat \<Rightarrow> nat \<Rightarrow> create_result option" where
  "xRingbufferCreateNoSplit calloc_ok malloc_st xItemSize xItemNum =
     xRingbufferCreate calloc_ok malloc_st
       (sz_mul (sz_add (rbALIGN_SIZE xItemSize) rbHEADER_SIZE) xItemNum) RINGBUF_TYPE_NOSPLIT"

definition xRingbufferCreateStatic ::
  "nat \<Rightarrow> RingbufferType_t \<Rightarrow> (nat \<times> byte list) option \<Rightarrow> Ringbuffer_t option" where
  "xRingbufferCreateStatic xBufferSize xBufferType pucRingbufferStorage = do {
     configASSERT (xBufferSize > 0);
     (a, st) \<leftarrow> pucRingbufferStorage;
     configASSERT (xBufferType = RINGBUF_TYPE_BYTEBUF \<or> rbCHECK_ALIGNED xBufferSize);
     let rb = prvInitializeNewRingbuffer xBufferSize xBufferType a st;
     Some (rb\<lparr>uxRingbufferFlags := set_flag (uxRingbufferFlags rb) rbBUFFER_STATIC_FLAG\<rparr>) }"

datatype freed_block = FreeStorage | FreeControlBlock

definition vRingbufferDelete :: "Ringbuffer_t \<Rightarrow> freed_block list" where
  "vRingbufferDelete rb =
     (if \<not> flag_set (uxRingbufferFlags rb) rbBUFFER_STATIC_FLAG
      then [FreeStorage, FreeControlBlock] else [])"

definition xRingbufferGetStaticBuffer :: "Ringbuffer_t \<Rightarrow> nat option" where
  "xRingbufferGetStaticBuffer rb =
     (if flag_set (uxRingbufferFlags rb) rbBUFFER_STATIC_FLAG then Some (pucHead rb) else None)"

definition xRingbufferCreateWithCaps ::
  "bool \<Rightarrow> (nat \<Rightarrow> (nat \<times> byte list) option) \<Rightarrow> nat \<Rightarrow> RingbufferType_t \<Rightarrow> create_result option" where
  "xRingbufferCreateWithCaps caps_malloc_ok caps_malloc_st xBufferSize xBufferType =
     (case caps_malloc_st xBufferSize of
        None \<Rightarrow> Some (CreateFailed caps_malloc_ok False)
      | Some blk \<Rightarrow>
          if \<not> caps_malloc_ok then Some (CreateFailed False True)
          else map_option Created (xRingbufferCreateStatic xBufferSize xBufferType (Some blk)))"

definition vRingbufferDeleteWithCaps :: "Ringbuffer_t \<Rightarrow> freed_block list option" where
  "vRingbufferDeleteWithCaps rb = do {
     configASSERT (xRingbufferGetStaticBuffer rb \<noteq> None);
     Some (vRingbufferDelete rb @ [FreeControlBlock, FreeStorage]) }"

subsection \<open>Sending\<close>

definition is_nosplit :: "Ringbuffer_t \<Rightarrow> bool" where
  "is_nosplit rb \<longleftrightarrow>
     \<not> flag_set (uxRingbufferFlags rb) (rbBYTE_BUFFER_FLAG OR rbALLOW_SPLIT_FLAG)"

definition xRingbufferSendAcquire ::
  "(task \<Rightarrow> nat) \<Rightarrow> task \<Rightarrow> wakeups \<Rightarrow> Ringbuffer_t \<Rightarrow> nat \<Rightarrow> nat \<Rightarrow> send_result outcome option" where
  "xRingbufferSendAcquire prio self env rb xItemSize xTicksToWait = do {
     configASSERT (is_nosplit rb);
     (if xItemSize > xMaxItemSize rb then Some (Returned send_failed rb)
      else if flag_set (uxRingbufferFlags rb) rbBYTE_BUFFER_FLAG \<and> xItemSize = 0
      then Some (Returned (send_failed\<lparr>sendOk := True\<rparr>) rb)
      else prvSendAcquireGeneric prio self env rb AcquireItem xItemSize xTicksToWait) }"

definition xRingbufferSendComplete :: "Ringbuffer_t \<Rightarrow> int \<Rightarrow> (send_result \<times> Ringbuffer_t) option" where
  "xRingbufferSendComplete rb pvItem = do {
     configASSERT (is_nosplit rb);
     rb1 \<leftarrow> prvSendItemDoneNoSplit rb pvItem;
     Some (wake_receiver rb1) }"

definition xRingbufferSend ::
  "(task \<Rightarrow> nat) \<Rightarrow> task \<Rightarrow> wakeups \<Rightarrow> Ringbuffer_t \<Rightarrow> byte list option \<Rightarrow> nat \<Rightarrow> nat \<Rightarrow>
   send_result outcome option" where
  "xRingbufferSend prio self env rb pvItem xItemSize xTicksToWait = do {
     configASSERT (pvItem \<noteq> None \<or> xItemSize = 0);
     (if xItemSize > xMaxItemSize rb then Some (Returned send_failed rb)
      else if flag_set (uxRingbufferFlags rb) rbBYTE_BUFFER_FLAG \<and> xItemSize = 0
      then Some (Returned (send_failed\<lparr>sendOk := True\<rparr>) rb)
      else prvSendAcquireGeneric prio self env rb
             (SendItem (case pvItem of None \<Rightarrow> [] | Some xs \<Rightarrow> xs)) xItemSize xTicksToWait) }"

definition xRingbufferSendFromISR ::
  "Ringbuffer_t \<Rightarrow> byte list option \<Rightarrow> nat \<Rightarrow> (send_result \<times> Ringbuffer_t) option" where
  "xRingbufferSendFromISR rb pvItem xItemSize = do {
     configASSERT (pvItem \<noteq> None \<or> xItemSize = 0);
     (if xItemSize > xMaxItemSize rb then Some (send_failed, rb)
      else if flag_set (uxRingbufferFlags rb) rbBYTE_BUFFER_FLAG \<and> xItemSize = 0
      then Some (send_failed\<lparr>sendOk := True\<rparr>, rb)
      else do {
        fits \<leftarrow> xCheckItemFits rb xItemSize;
        (if fits then do {
           rb1 \<leftarrow> vCopyItem rb (case pvItem of None \<Rightarrow> [] | Some xs \<Rightarrow> xs) xItemSize;
           Some (wake_receiver rb1) }
         else Some (send_failed, rb)) }) }"

subsection \<open>Receiving and returning\<close>

definition first_item :: "recv_result outcome \<Rightarrow> got_item option outcome" where
  "first_item r = (case r of
      Returned res rb \<Rightarrow> Returned (if recvOk res then pvItem1 res else None) rb
    | Blocked rb \<Rightarrow> Blocked rb)"

definition xRingbufferReceive ::
  "(task \<Rightarrow> nat) \<Rightarrow> task \<Rightarrow> wakeups \<Rightarrow> Ringbuffer_t \<Rightarrow> nat \<Rightarrow> got_item option outcome option" where
  "xRingbufferReceive prio self env rb xTicksToWait =
     map_option first_item (prvReceiveGeneric prio self env False rb 0 xTicksToWait)"

definition xRingbufferReceiveFromISR ::
  "Ringbuffer_t \<Rightarrow> (got_item option \<times> Ringbuffer_t) option" where
  "xRingbufferReceiveFromISR rb =
     map_option (\<lambda>(res, rb1). (if recvOk res then pvItem1 res else None, rb1))
       (prvReceiveGenericFromISR False rb 0)"

definition xRingbufferReceiveSplit ::
  "(task \<Rightarrow> nat) \<Rightarrow> task \<Rightarrow> wakeups \<Rightarrow> Ringbuffer_t \<Rightarrow> nat \<Rightarrow> recv_result outcome option" where
  "xRingbufferReceiveSplit prio self env rb xTicksToWait = do {
     configASSERT (flag_set (uxRingbufferFlags rb) rbALLOW_SPLIT_FLAG);
     prvReceiveGeneric prio self env True rb 0 xTicksToWait }"

definition xRingbufferReceiveSplitFromISR ::
  "Ringbuffer_t \<Rightarrow> (recv_result \<times> Ringbuffer_t) option" where
  "xRingbufferReceiveSplitFromISR rb = do {
     configASSERT (flag_set (uxRingbufferFlags rb) rbALLOW_SPLIT_FLAG);
     prvReceiveGenericFromISR True rb 0 }"

definition xRingbufferReceiveUpTo ::
  "(task \<Rightarrow> nat) \<Rightarrow> task \<Rightarrow> wakeups \<Rightarrow> Ringbuffer_t \<Rightarrow> nat \<Rightarrow> nat \<Rightarrow>
   got_item option outcome option" where
  "xRingbufferReceiveUpTo prio self env rb xTicksToWait xMaxSize = do {
     configASSERT (flag_set (uxRingbufferFlags rb) rbBYTE_BUFFER_FLAG);
     (if xMaxSize = 0 then Some (Returned None rb)
      else map_option first_item (prvReceiveGeneric prio self env False rb xMaxSize xTicksToWait)) }"

definition xRingbufferReceiveUpToFromISR ::
  "Ringbuffer_t \<Rightarrow> nat \<Rightarrow> (got_item option \<times> Ringbuffer_t) option" where
  "xRingbufferReceiveUpToFromISR rb xMaxSize = do {
     configASSERT (flag_set (uxRingbufferFlags rb) rbBYTE_BUFFER_FLAG);
     (if xMaxSize = 0 then Some (None, rb)
      else map_option (\<lambda>(res, rb1). (if recvOk res then pvItem1 res else None, rb1))
             (prvReceiveGenericFromISR False rb xMaxSize)) }"

text \<open>
  Returning an item unblocks the first task waiting to send. The result names it; whether it
  preempts the caller is the scheduler's business.
\<close>

definition vRingbufferReturnItem :: "Ringbuffer_t \<Rightarrow> int \<Rightarrow> (task option \<times> Ringbuffer_t) option" where
  "vRingbufferReturnItem rb pvItem = do {
     rb1 \<leftarrow> vReturnItem rb pvItem;
     Some (case xTasksWaitingToSend rb1 of
             [] \<Rightarrow> (None, rb1)
           | t # ts \<Rightarrow> (Some t, rb1\<lparr>xTasksWaitingToSend := ts\<rparr>)) }"

text \<open>
  The interrupt version reports a needed context switch: \<open>preempts\<close> is the answer of
  \<open>xTaskRemoveFromEventList\<close>, \<open>woken\<close> the caller's flag, \<open>None\<close> for a \<open>NULL\<close> pointer.
\<close>

definition vRingbufferReturnItemFromISR ::
  "(task \<Rightarrow> bool) \<Rightarrow> Ringbuffer_t \<Rightarrow> int \<Rightarrow> bool option \<Rightarrow> (bool option \<times> Ringbuffer_t) option" where
  "vRingbufferReturnItemFromISR preempts rb pvItem pxHigherPriorityTaskWoken = do {
     rb1 \<leftarrow> vReturnItem rb pvItem;
     Some (case xTasksWaitingToSend rb1 of
             [] \<Rightarrow> (pxHigherPriorityTaskWoken, rb1)
           | t # ts \<Rightarrow> (if preempts t then map_option (\<lambda>_. True) pxHigherPriorityTaskWoken
                        else pxHigherPriorityTaskWoken,
                        rb1\<lparr>xTasksWaitingToSend := ts\<rparr>)) }"

subsection \<open>Queries and queue sets\<close>

definition xRingbufferGetMaxItemSize :: "Ringbuffer_t \<Rightarrow> nat" where
  "xRingbufferGetMaxItemSize rb = xMaxItemSize rb"

definition xRingbufferGetCurFreeSize :: "Ringbuffer_t \<Rightarrow> nat" where
  "xRingbufferGetCurFreeSize rb = xGetCurMaxSize rb"

definition xRingbufferAddToQueueSetRead :: "Ringbuffer_t \<Rightarrow> nat \<Rightarrow> bool \<times> Ringbuffer_t" where
  "xRingbufferAddToQueueSetRead rb qs =
     (if xQueueSet rb \<noteq> None \<or> prvCheckItemAvail rb then (False, rb)
      else (True, rb\<lparr>xQueueSet := Some qs\<rparr>))"

definition xRingbufferRemoveFromQueueSetRead :: "Ringbuffer_t \<Rightarrow> nat \<Rightarrow> bool \<times> Ringbuffer_t" where
  "xRingbufferRemoveFromQueueSetRead rb qs =
     (if xQueueSet rb \<noteq> Some qs \<or> prvCheckItemAvail rb then (False, rb)
      else (True, rb\<lparr>xQueueSet := None\<rparr>))"

definition vRingbufferGetInfo :: "Ringbuffer_t \<Rightarrow> nat \<times> nat \<times> nat \<times> nat \<times> int" where
  "vRingbufferGetInfo rb =
     (pucFree rb, pucRead rb, pucWrite rb, pucAcquire rb, xItemsWaiting rb)"

end
