(* ===== verification/Channel.thy ===== *)
theory Channel
  imports Prelude
begin

section \<open>The contract of a message channel\<close>

text \<open>
  What a client of a ring buffer relies on, whatever its type: a send either appends its data
  to the queue or is refused and changes nothing, a receive takes a prefix off the queue and
  makes progress when there is something to take, and no call stops (\<open>None\<close>). The client's
  theorem, proved once here, is that nothing is lost, duplicated or reordered over any
  sequence of calls. The ring buffer theories interpret the locale on the model of the code.
\<close>

datatype 'c chan_op = Send 'c | Recv nat

fun chan_run ::
  "('c \<Rightarrow> 's \<Rightarrow> (bool \<times> 's) option) \<Rightarrow> (nat \<Rightarrow> 's \<Rightarrow> ('e list \<times> 's) option) \<Rightarrow> ('c \<Rightarrow> 'e list) \<Rightarrow>
   'c chan_op list \<Rightarrow> 's \<Rightarrow> ('e list \<times> 'e list \<times> 's) option" where
  "chan_run send recv chunk [] s = Some ([], [], s)"
| "chan_run send recv chunk (Send c # ops) s = do {
     (ok, s1) \<leftarrow> send c s;
     (sent, received, s2) \<leftarrow> chan_run send recv chunk ops s1;
     Some ((if ok then chunk c else []) @ sent, received, s2) }"
| "chan_run send recv chunk (Recv n # ops) s = do {
     (xs, s1) \<leftarrow> recv n s;
     (sent, received, s2) \<leftarrow> chan_run send recv chunk ops s1;
     Some (sent, xs @ received, s2) }"

locale channel =
  fixes inv :: "'s \<Rightarrow> bool"
    and queue :: "'s \<Rightarrow> 'e list"
    and valid :: "'c \<Rightarrow> bool"
    and chunk :: "'c \<Rightarrow> 'e list"
    and send :: "'c \<Rightarrow> 's \<Rightarrow> (bool \<times> 's) option"
    and recv :: "nat \<Rightarrow> 's \<Rightarrow> ('e list \<times> 's) option"
  assumes send_law: "inv s \<Longrightarrow> valid c \<Longrightarrow>
      \<exists>ok s'. send c s = Some (ok, s') \<and> inv s' \<and> queue s' = queue s @ (if ok then chunk c else [])"
    and recv_law: "inv s \<Longrightarrow>
      \<exists>xs s'. recv n s = Some (xs, s') \<and> inv s' \<and> queue s = xs @ queue s' \<and>
        (0 < n \<longrightarrow> queue s \<noteq> [] \<longrightarrow> xs \<noteq> [])"
begin

definition valid_ops :: "'c chan_op list \<Rightarrow> bool" where
  "valid_ops ops \<longleftrightarrow> (\<forall>op \<in> set ops. case op of Send c \<Rightarrow> valid c | Recv n \<Rightarrow> True)"

lemma run_conserves:
  assumes "inv s" and "valid_ops ops"
  shows "\<exists>sent received s'. chan_run send recv chunk ops s = Some (sent, received, s') \<and>
     inv s' \<and> queue s @ sent = received @ queue s'"
  using assms
proof (induction ops arbitrary: s)
  case Nil
  then show ?case by simp
next
  case (Cons op ops)
  have v: "valid_ops ops" using Cons.prems(2) by (simp add: valid_ops_def)
  show ?case
  proof (cases op)
    case (Send c)
    with Cons.prems obtain ok s1 where s1: "send c s = Some (ok, s1)" "inv s1"
      "queue s1 = queue s @ (if ok then chunk c else [])"
      using send_law [of s c] by (auto simp: valid_ops_def)
    from Cons.IH [OF s1(2) v] Send s1 show ?thesis by auto
  next
    case (Recv n)
    with Cons.prems obtain xs s1 where s1: "recv n s = Some (xs, s1)" "inv s1"
      "queue s = xs @ queue s1"
      using recv_law [of s n] by auto
    from Cons.IH [OF s1(2) v] Recv s1 show ?thesis by auto
  qed
qed

text \<open>Draining: one receive per queued element at most empties the queue.\<close>

lemma drain:
  assumes "inv s" and "length (queue s) \<le> k" and "0 < n"
  shows "\<exists>s'. chan_run send recv chunk (replicate k (Recv n)) s = Some ([], queue s, s') \<and>
     inv s' \<and> queue s' = []"
  using assms
proof (induction k arbitrary: s)
  case 0
  then show ?case by simp
next
  case (Suc k)
  obtain xs s1 where s1: "recv n s = Some (xs, s1)" "inv s1" "queue s = xs @ queue s1"
    "queue s \<noteq> [] \<longrightarrow> xs \<noteq> []"
    using recv_law [OF Suc.prems(1), of n] Suc.prems(3) by auto
  have "length (queue s1) \<le> k" using s1(3,4) Suc.prems(2) by (cases xs) auto
  from Suc.IH [OF s1(2) this Suc.prems(3)] s1 show ?case by auto
qed

end

end
