(* ===== verification/Ringbuf_Byte.thy ===== *)
theory Ringbuf_Byte
  imports Ringbuf_Api Channel
begin

section \<open>Byte buffers refine a byte queue\<close>

text \<open>
  The byte-buffer half of \<open>ringbuf.c\<close> against its contract: the buffer is a queue of bytes
  from which one contiguous chunk at a time can be out on loan. \<open>bb_held\<close> counts the bytes
  on loan, \<open>bb_unread\<close> those waiting; both regions are read cyclically out of the storage.
\<close>

definition cyc :: "byte list \<Rightarrow> nat \<Rightarrow> nat \<Rightarrow> byte list" where
  "cyc m p k = map (\<lambda>i. m ! ((p + i) mod length m)) [0..<k]"

definition bb_unread :: "Ringbuffer_t \<Rightarrow> nat" where
  "bb_unread rb = nat (xItemsWaiting rb)"

definition bb_held :: "Ringbuffer_t \<Rightarrow> nat" where
  "bb_held rb =
     (if rb_full rb then xSize rb - bb_unread rb
      else (pucRead rb + xSize rb - pucFree rb) mod xSize rb)"

definition bb_inv :: "Ringbuffer_t \<Rightarrow> bool" where
  "bb_inv rb \<longleftrightarrow>
     rbOps rb = RINGBUF_TYPE_BYTEBUF \<and>
     flag_set (uxRingbufferFlags rb) rbBYTE_BUFFER_FLAG \<and>
     \<not> flag_set (uxRingbufferFlags rb) rbALLOW_SPLIT_FLAG \<and>
     0 < xSize rb \<and> xSize rb < 2 ^ 31 \<and> pucTail rb = xSize rb \<and> xMaxItemSize rb = xSize rb \<and>
     length (storage rb) = xSize rb \<and>
     pucAcquire rb < xSize rb \<and> pucWrite rb = pucAcquire rb \<and>
     pucRead rb < xSize rb \<and> pucFree rb < xSize rb \<and>
     0 \<le> xItemsWaiting rb \<and>
     pucRead rb = (pucFree rb + bb_held rb) mod xSize rb \<and>
     pucAcquire rb = (pucRead rb + bb_unread rb) mod xSize rb \<and>
     bb_held rb + bb_unread rb \<le> xSize rb \<and>
     (rb_full rb \<longleftrightarrow> bb_held rb + bb_unread rb = xSize rb)"

definition bb_queue :: "Ringbuffer_t \<Rightarrow> byte list" where
  "bb_queue rb = cyc (storage rb) (pucRead rb) (bb_unread rb)"

definition bb_loan :: "Ringbuffer_t \<Rightarrow> byte list" where
  "bb_loan rb = cyc (storage rb) (pucFree rb) (bb_held rb)"

subsection \<open>Cyclic regions\<close>

lemma length_cyc [simp]: "length (cyc m p k) = k"
  by (simp add: cyc_def)

lemma nth_cyc [simp]: "i < k \<Longrightarrow> cyc m p k ! i = m ! ((p + i) mod length m)"
  by (simp add: cyc_def)

lemma cyc_append: "cyc m p (j + k) = cyc m p j @ cyc m ((p + j) mod length m) k"
proof (rule nth_equalityI)
  fix i assume "i < length (cyc m p (j + k))"
  then show "cyc m p (j + k) ! i = (cyc m p j @ cyc m ((p + j) mod length m) k) ! i"
    by (cases "i < j") (auto simp: nth_append mod_simps simp flip: add.assoc dest!: le_Suc_ex [OF leI])
qed simp

lemma take_cyc: "j \<le> k \<Longrightarrow> take j (cyc m p k) = cyc m p j"
  by (rule nth_equalityI) auto

lemma drop_cyc: "j \<le> k \<Longrightarrow> drop j (cyc m p k) = cyc m ((p + j) mod length m) (k - j)"
  by (rule nth_equalityI) (auto simp: mod_add_left_eq add.assoc)

lemma cyc_contiguous: "p + k \<le> length m \<Longrightarrow> cyc m p k = take k (drop p m)"
  by (rule nth_equalityI) auto

lemma cyc_cong:
  assumes "length m' = length m"
    and "\<And>i. i < k \<Longrightarrow> m' ! ((p + i) mod length m) = m ! ((p + i) mod length m)"
  shows "cyc m' p k = cyc m p k"
  using assms by (intro nth_equalityI) auto

subsection \<open>Sending\<close>

text \<open>
  The copy, with or without wrap-around, writes \<open>xs\<close> cyclically from the acquire pointer.
\<close>

lemma prvCopyItemByteBuf_eq:
  assumes inv: "bb_inv rb" and n: "0 < length xs" "bb_held rb + bb_unread rb + length xs \<le> xSize rb"
  obtains m where
    "prvCopyItemByteBuf rb xs (length xs) =
       Some (let rb1 = mark_full (rb\<lparr>storage := m,
                     xItemsWaiting := xItemsWaiting rb + int (length xs),
                     pucAcquire := (pucAcquire rb + length xs) mod xSize rb\<rparr>)
             in rb1\<lparr>pucWrite := pucAcquire rb1\<rparr>)"
    and "length m = xSize rb"
    and "\<And>i. i < length xs \<Longrightarrow> m ! ((pucAcquire rb + i) mod xSize rb) = xs ! i"
    and "\<And>j. j < xSize rb \<Longrightarrow> (\<And>i. i < length xs \<Longrightarrow> j \<noteq> (pucAcquire rb + i) mod xSize rb) \<Longrightarrow>
           m ! j = storage rb ! j"
proof -
  let ?A = "pucAcquire rb" and ?S = "xSize rb" and ?n = "length xs" and ?m = "storage rb"
  have A: "?A < ?S" "?S < 2 ^ 31" "pucTail rb = ?S" "length ?m = ?S" "?n \<le> ?S"
    using inv n by (auto simp: bb_inv_def)
  show ?thesis
  proof (cases "?S - ?A < ?n")
    case False
    let ?m' = "take ?A ?m @ xs @ drop (?A + ?n) ?m"
    have modA: "(?A + i) mod ?S = ?A + i" if "i < ?n" for i using that False A by simp
    show ?thesis
    proof (rule that [of ?m'])
      show "prvCopyItemByteBuf rb xs ?n = Some (let rb1 = mark_full (rb\<lparr>storage := ?m',
                     xItemsWaiting := xItemsWaiting rb + int ?n,
                     pucAcquire := (?A + ?n) mod ?S\<rparr>) in rb1\<lparr>pucWrite := pucAcquire rb1\<rparr>)"
        using A False n by (auto simp: prvCopyItemByteBuf_def memcpy_def sz_simps mem_simps Let_def)
      show "length ?m' = ?S" using A False by simp
      show "?m' ! ((?A + i) mod ?S) = xs ! i" if "i < ?n" for i
        using that A False by (simp add: modA nth_append)
      show "?m' ! j = ?m ! j" if "j < ?S" "\<And>i. i < ?n \<Longrightarrow> j \<noteq> (?A + i) mod ?S" for j
      proof -
        have "\<not> (?A \<le> j \<and> j < ?A + ?n)"
          using that(2) [of "j - ?A"] modA [of "j - ?A"] by (cases "j - ?A < ?n") auto
        then show ?thesis using that(1) A False by (auto simp: nth_append)
      qed
    qed
  next
    case True
    let ?k = "?S - ?A"
    let ?m1 = "take ?A ?m @ take ?k xs"
    let ?m' = "drop ?k xs @ drop (?n - ?k) ?m1"
    have lt: "?n - ?k < ?S" using True A by linarith
    have modA: "(?A + i) mod ?S = (if i < ?k then ?A + i else i - ?k)" if "i < ?n" for i
      using that A True by (auto simp: mod_if)
    show ?thesis
    proof (rule that [of ?m'])
      have eq: "(?A + ?n) mod ?S = ?n - ?k" using A True mod_if_small [of "?A + ?n" ?S] by auto
      show "prvCopyItemByteBuf rb xs ?n = Some (let rb1 = mark_full (rb\<lparr>storage := ?m',
                     xItemsWaiting := xItemsWaiting rb + int ?n,
                     pucAcquire := (?A + ?n) mod ?S\<rparr>) in rb1\<lparr>pucWrite := pucAcquire rb1\<rparr>)"
        unfolding eq using A True n lt
        by (auto simp: prvCopyItemByteBuf_def memcpy_def sz_simps store_bytes_def Let_def of_nat_diff)
      show len: "length ?m' = ?S" using A True by simp
      show "?m' ! ((?A + i) mod ?S) = xs ! i" if "i < ?n" for i
        using that A True by (auto simp: modA nth_append)
      show "?m' ! j = ?m ! j" if "j < ?S" "\<And>i. i < ?n \<Longrightarrow> j \<noteq> (?A + i) mod ?S" for j
      proof -
        have "\<not> ?A \<le> j"
          using that(1) that(2) [of "j - ?A"] modA [of "j - ?A"] True by (cases "j - ?A < ?n") auto
        moreover have "\<not> j < ?n - ?k"
          using that(1) that(2) [of "j + ?k"] modA [of "j + ?k"] True by (cases "j + ?k < ?n") auto
        ultimately show ?thesis using that(1) A True by (auto simp: nth_append)
      qed
    qed
  qed
qed

lemma bb_held_eq:
  assumes "pucRead rb = (pucFree rb + h) mod xSize rb" "pucFree rb < xSize rb" "0 < xSize rb"
    "h + bb_unread rb \<le> xSize rb" "rb_full rb \<longleftrightarrow> h + bb_unread rb = xSize rb"
  shows "bb_held rb = h"
proof (cases "rb_full rb")
  case True
  then show ?thesis using assms by (simp add: bb_held_def)
next
  case False
  with assms(4,5) have "h < xSize rb" by simp
  then have "((pucFree rb + h) mod xSize rb + xSize rb - pucFree rb) mod xSize rb = h"
    using assms(2) by (auto simp: mod_if)
  then show ?thesis using False assms(1) by (simp add: bb_held_def)
qed

text \<open>The positions the fields must have, from which the invariant follows.\<close>

lemma bb_invI:
  assumes "rbOps rb = RINGBUF_TYPE_BYTEBUF"
    "flag_set (uxRingbufferFlags rb) rbBYTE_BUFFER_FLAG"
    "\<not> flag_set (uxRingbufferFlags rb) rbALLOW_SPLIT_FLAG"
    "0 < xSize rb" "xSize rb < 2 ^ 31" "pucTail rb = xSize rb" "xMaxItemSize rb = xSize rb"
    "length (storage rb) = xSize rb"
    "pucWrite rb = pucAcquire rb" "pucFree rb < xSize rb" "xItemsWaiting rb = int u"
    "pucRead rb = (pucFree rb + h) mod xSize rb"
    "pucAcquire rb = (pucFree rb + (h + u)) mod xSize rb"
    "h + u \<le> xSize rb" "rb_full rb \<longleftrightarrow> h + u = xSize rb"
  shows "bb_inv rb \<and> bb_held rb = h \<and> bb_unread rb = u"
proof -
  have u: "bb_unread rb = u" using assms(11) by (simp add: bb_unread_def)
  have h: "bb_held rb = h" using assms u by (intro bb_held_eq) auto
  show ?thesis unfolding bb_inv_def h u using assms by (simp add: mod_add_left_eq add.assoc)
qed

lemma bb_inv_facts:
  assumes "bb_inv rb"
  shows "pucAcquire rb = (pucFree rb + (bb_held rb + bb_unread rb)) mod xSize rb"
    and "xItemsWaiting rb = int (bb_unread rb)" and "length (storage rb) = xSize rb"
    and "0 < xSize rb" and "pucRead rb = (pucFree rb + bb_held rb) mod xSize rb"
    and "pucFree rb < xSize rb" and "pucAcquire rb < xSize rb" and "pucTail rb = xSize rb"
    and "xSize rb < 2 ^ 31" and "rb_full rb \<longleftrightarrow> bb_held rb + bb_unread rb = xSize rb"
    and "bb_held rb + bb_unread rb \<le> xSize rb" and "pucWrite rb = pucAcquire rb"
    and "rbOps rb = RINGBUF_TYPE_BYTEBUF" and "pucRead rb < xSize rb"
  using assms unfolding bb_inv_def bb_unread_def by (simp_all add: mod_add_left_eq add.assoc)

lemma bb_static_facts:
  assumes "bb_inv rb"
  shows "flag_set (uxRingbufferFlags rb) rbBYTE_BUFFER_FLAG"
    and "\<not> flag_set (uxRingbufferFlags rb) rbALLOW_SPLIT_FLAG" and "xMaxItemSize rb = xSize rb"
  using assms unfolding bb_inv_def by simp_all

lemma bb_send:
  assumes inv: "bb_inv rb" and n: "0 < length xs" "bb_held rb + bb_unread rb + length xs \<le> xSize rb"
  shows "\<exists>rb'. prvCopyItemByteBuf rb xs (length xs) = Some rb' \<and> bb_inv rb' \<and>
     bb_queue rb' = bb_queue rb @ xs \<and> bb_loan rb' = bb_loan rb \<and> xSize rb' = xSize rb \<and>
     xQueueSet rb' = xQueueSet rb \<and> xTasksWaitingToReceive rb' = xTasksWaitingToReceive rb"
proof -
  note f = bb_inv_facts [OF inv] and sf = bb_static_facts [OF inv]
  let ?S = "xSize rb" and ?h = "bb_held rb" and ?u = "bb_unread rb" and ?n = "length xs"
  obtain m where eq: "prvCopyItemByteBuf rb xs ?n =
       Some (let rb1 = mark_full (rb\<lparr>storage := m, xItemsWaiting := xItemsWaiting rb + int ?n,
                     pucAcquire := (pucAcquire rb + ?n) mod ?S\<rparr>)
             in rb1\<lparr>pucWrite := pucAcquire rb1\<rparr>)" (is "_ = Some ?rb'")
    and len: "length m = ?S"
    and wr: "\<And>i. i < ?n \<Longrightarrow> m ! ((pucAcquire rb + i) mod ?S) = xs ! i"
    and fr: "\<And>j. j < ?S \<Longrightarrow> (\<And>i. i < ?n \<Longrightarrow> j \<noteq> (pucAcquire rb + i) mod ?S) \<Longrightarrow> m ! j = storage rb ! j"
    using prvCopyItemByteBuf_eq [OF assms] by blast
  have nf: "\<not> rb_full rb" using f(10) n by simp
  have A': "(pucAcquire rb + ?n) mod ?S = (pucFree rb + (?h + (?u + ?n))) mod ?S"
    using f(1) by (simp add: mod_add_left_eq add.assoc)
  have full': "(pucAcquire rb + ?n) mod ?S = pucFree rb \<longleftrightarrow> ?h + (?u + ?n) = ?S"
    unfolding A' using n f(6) by (intro wrap_eq_iff) auto
  have inv': "bb_inv ?rb' \<and> bb_held ?rb' = ?h \<and> bb_unread ?rb' = ?u + ?n"
    using f sf len n nf full' A' by (intro bb_invI) (auto simp: Let_def)
  have same: "m ! ((pucFree rb + i) mod ?S) = storage rb ! ((pucFree rb + i) mod ?S)"
    if "i < ?h + ?u" for i
  proof (rule fr)
    show "(pucFree rb + i) mod ?S < ?S" using f(4) by simp
    fix j assume "j < ?n"
    moreover have "(pucAcquire rb + j) mod ?S = (pucFree rb + (?h + ?u + j)) mod ?S"
      using f(1) by (simp add: mod_add_left_eq add.assoc)
    ultimately show "(pucFree rb + i) mod ?S \<noteq> (pucAcquire rb + j) mod ?S"
      using mod_eq_small [of i ?S "?h + ?u + j" "pucFree rb"] that n by fastforce
  qed
  have loan: "bb_loan ?rb' = bb_loan rb"
    unfolding bb_loan_def using inv' same f(3) len
    by (auto simp: Let_def intro!: cyc_cong)
  have "cyc m (pucRead rb) (?u + ?n) = cyc m (pucRead rb) ?u @ cyc m (pucAcquire rb) ?n"
    using f(1,5) len by (simp add: cyc_append mod_add_left_eq add.assoc)
  moreover have "cyc m (pucRead rb) ?u = cyc (storage rb) (pucRead rb) ?u"
    using same [of "?h + i" for i] f(3,5) len
    by (intro cyc_cong) (auto simp: mod_add_left_eq add.assoc)
  moreover have "cyc m (pucAcquire rb) ?n = xs"
    using wr len by (intro nth_equalityI) auto
  ultimately have "bb_queue ?rb' = bb_queue rb @ xs"
    unfolding bb_queue_def using inv' by (simp add: Let_def)
  with eq inv' loan show ?thesis by (auto simp: Let_def)
qed

lemma bb_fits:
  assumes inv: "bb_inv rb" and n: "n \<le> xSize rb" "0 < n"
  shows "prvCheckItemFitsByteBuffer rb n =
     Some (bb_held rb + bb_unread rb + n \<le> xSize rb)"
proof -
  note f = bb_inv_facts [OF inv]
  let ?t = "bb_held rb + bb_unread rb"
  consider "?t = 0" | "0 < ?t" "pucFree rb + ?t < xSize rb" | "?t < xSize rb" "xSize rb \<le> pucFree rb + ?t"
    | "?t = xSize rb" using f(11) by linarith
  then show ?thesis
  proof cases
    case 1
    then show ?thesis using f n by (auto simp: prvCheckItemFitsByteBuffer_def)
  next
    case 2
    then have "pucAcquire rb = pucFree rb + ?t" using f(1) by simp
    then show ?thesis using 2 f n by (auto simp: prvCheckItemFitsByteBuffer_def sz_simps)
  next
    case 3
    then have "pucAcquire rb = pucFree rb + ?t - xSize rb" using f(1,6) by (simp add: mod_if)
    then show ?thesis using 3 f n by (auto simp: prvCheckItemFitsByteBuffer_def sz_simps)
  next
    case 4
    then show ?thesis using f n by (auto simp: prvCheckItemFitsByteBuffer_def)
  qed
qed

subsection \<open>Receiving and returning\<close>

lemma bb_avail:
  assumes "bb_inv rb"
  shows "prvCheckItemAvail rb \<longleftrightarrow> bb_held rb = 0 \<and> 0 < bb_unread rb"
proof -
  note f = bb_inv_facts [OF assms] and sf = bb_static_facts [OF assms]
  let ?h = "bb_held rb" and ?u = "bb_unread rb"
  have RF: "pucRead rb = pucFree rb \<longleftrightarrow> ?h = 0 \<or> ?h = xSize rb"
    using f(5,6,11) wrap_eq_iff [of "pucFree rb" "xSize rb" ?h] by (cases "?h = 0") auto
  have RA: "pucRead rb = pucAcquire rb \<longleftrightarrow> ?u = 0 \<or> ?u = xSize rb"
    using assms f(11,14) wrap_eq_iff [of "pucRead rb" "xSize rb" ?u]
    by (cases "?u = 0") (auto simp: bb_inv_def)
  show ?thesis unfolding prvCheckItemAvail_def using sf f(2,4,10,11,12) RF RA by auto
qed

definition bb_chunk :: "Ringbuffer_t \<Rightarrow> nat \<Rightarrow> nat" where
  "bb_chunk rb mx =
     (if mx = 0 then min (bb_unread rb) (xSize rb - pucRead rb)
      else min mx (min (bb_unread rb) (xSize rb - pucRead rb)))"

lemma prvGetItemByteBuf_eq:
  assumes inv: "bb_inv rb" and av: "bb_held rb = 0" "0 < bb_unread rb"
  shows "prvGetItemByteBuf rb mx =
     Some (\<lparr>gotPtr = pucRead rb, gotSize = bb_chunk rb mx, gotSplit = False\<rparr>,
       rb\<lparr>xItemsWaiting := int (bb_unread rb - bb_chunk rb mx),
          pucRead := (pucFree rb + bb_chunk rb mx) mod xSize rb\<rparr>)"
proof -
  note f = bb_inv_facts [OF inv] and sf = bb_static_facts [OF inv]
  let ?R = "pucRead rb" and ?u = "bb_unread rb" and ?S = "xSize rb"
  have R: "?R = pucFree rb" using f(5,6) av by simp
  have avail: "?R \<noteq> pucWrite rb \<or> rb_full rb"
    using bb_avail [OF inv] av by (auto simp: prvCheckItemAvail_def split: if_splits)
  have A: "pucAcquire rb = (?R + ?u) mod ?S" using f(1) R av by simp
  show ?thesis
  proof (cases "?R + ?u < ?S")
    case True
    then have "pucAcquire rb = ?R + ?u" using A by simp
    with True have "\<not> (pucWrite rb < ?R \<or> rb_full rb)" "pucWrite rb = ?R + ?u"
      using f(10,12) R av by auto
    then show ?thesis using f(2,4,6,8,14) av(2) R avail True
      by (auto simp: prvGetItemByteBuf_def bb_chunk_def min_def of_nat_diff)
  next
    case False
    have "pucAcquire rb = ?R + ?u - ?S"
      using A False f(11,14) av mod_if_small [of "?R + ?u" ?S] by auto
    then have w: "(pucWrite rb < ?R \<or> rb_full rb) = True" using False f(10-14) av by auto
    have c: "bb_chunk rb mx = (if mx = 0 \<or> ?S - ?R \<le> mx then ?S - ?R else mx)"
      using False by (auto simp: bb_chunk_def)
    have r: "(pucFree rb + (?S - ?R)) mod ?S = 0"
      "\<not> ?S - ?R \<le> mx \<Longrightarrow> (?R + mx) mod ?S = ?R + mx"
      using R f(14) by simp_all
    show ?thesis using f(2,8,14) av(2) avail False
      by (auto simp: prvGetItemByteBuf_def w c r R [symmetric] of_nat_diff)
  qed
qed

lemma bb_chunk_bounds:
  assumes "bb_inv rb" "0 < bb_unread rb"
  shows "0 < bb_chunk rb mx" "bb_chunk rb mx \<le> bb_unread rb"
    "pucRead rb + bb_chunk rb mx \<le> xSize rb" "0 < mx \<Longrightarrow> bb_chunk rb mx \<le> mx"
  using bb_inv_facts(14) [OF assms(1)] assms(2) by (auto simp: bb_chunk_def min_def)

lemma bb_get:
  assumes inv: "bb_inv rb" and av: "bb_held rb = 0" "0 < bb_unread rb"
  shows "\<exists>it rb'. prvGetItemByteBuf rb mx = Some (it, rb') \<and> bb_inv rb' \<and>
     storage rb' = storage rb \<and> gotPtr it < xSize rb \<and> gotSize it = bb_chunk rb mx \<and>
     load_bytes (gotPtr it) (gotSize it) (storage rb) = Some (take (gotSize it) (bb_queue rb)) \<and>
     bb_queue rb' = drop (gotSize it) (bb_queue rb) \<and>
     bb_loan rb' = take (gotSize it) (bb_queue rb) \<and>
     bb_held rb' = gotSize it \<and> xSize rb' = xSize rb \<and>
     \<not> flag_set (uxRingbufferFlags rb') rbALLOW_SPLIT_FLAG \<and> \<not> gotSplit it"
proof -
  note f = bb_inv_facts [OF inv] and sf = bb_static_facts [OF inv]
    and b = bb_chunk_bounds [OF inv av(2), of mx]
  let ?k = "bb_chunk rb mx" and ?u = "bb_unread rb" and ?S = "xSize rb"
  let ?rb' = "rb\<lparr>xItemsWaiting := int (?u - ?k), pucRead := (pucFree rb + ?k) mod ?S\<rparr>"
  have R: "pucRead rb = pucFree rb" using f(5,6) av by simp
  have inv': "bb_inv ?rb' \<and> bb_held ?rb' = ?k \<and> bb_unread ?rb' = ?u - ?k"
    using f sf av b by (intro bb_invI) auto
  have q': "bb_queue ?rb' = drop ?k (bb_queue rb)"
    using inv' b f(3) R by (simp add: bb_queue_def drop_cyc)
  have l': "bb_loan ?rb' = take ?k (bb_queue rb)"
    using inv' b R by (simp add: bb_queue_def bb_loan_def take_cyc)
  have "load_bytes (pucRead rb) ?k (storage rb) = Some (take ?k (bb_queue rb))"
    using b f(3) by (simp add: load_bytes_def bb_queue_def take_cyc cyc_contiguous)
  with inv' q' l' f(14) sf prvGetItemByteBuf_eq [OF inv av, of mx] show ?thesis by auto
qed

lemma bb_return:
  assumes inv: "bb_inv rb" and h: "0 < bb_held rb" and p: "0 \<le> p" "p < int (xSize rb)"
  shows "\<exists>rb'. prvReturnItemByteBuf rb p = Some rb' \<and> bb_inv rb' \<and> bb_held rb' = 0 \<and>
     bb_queue rb' = bb_queue rb \<and> xSize rb' = xSize rb"
proof -
  note f = bb_inv_facts [OF inv] and sf = bb_static_facts [OF inv]
  let ?rb1 = "rb\<lparr>pucFree := pucRead rb\<rparr>"
  let ?rb' = "if rb_full ?rb1
    then ?rb1\<lparr>uxRingbufferFlags := clr_flag (uxRingbufferFlags ?rb1) rbBUFFER_FULL_FLAG\<rparr> else ?rb1"
  have eq: "prvReturnItemByteBuf rb p = Some ?rb'"
    using p f(8) by (simp add: prvReturnItemByteBuf_def Let_def)
  have nf: "\<not> rb_full ?rb'" by (simp add: rb_consts flag_simps)
  have A: "pucAcquire rb = (pucRead rb + bb_unread rb) mod xSize rb"
    using inv by (simp add: bb_inv_def)
  have inv': "bb_inv ?rb' \<and> bb_held ?rb' = 0 \<and> bb_unread ?rb' = bb_unread rb"
    by (rule bb_invI) (use f sf h nf A in \<open>auto simp: rb_consts flag_simps\<close>)
  then have "bb_queue ?rb' = bb_queue rb" by (auto simp: bb_queue_def)
  with eq inv' show ?thesis by auto
qed

subsection \<open>The public functions as a channel\<close>

lemma bb_task_lists [simp]:
  "bb_inv (rb\<lparr>xTasksWaitingToReceive := ts\<rparr>) = bb_inv rb"
  "bb_inv (rb\<lparr>xTasksWaitingToSend := ts\<rparr>) = bb_inv rb"
  "bb_queue (rb\<lparr>xTasksWaitingToReceive := ts\<rparr>) = bb_queue rb"
  "bb_queue (rb\<lparr>xTasksWaitingToSend := ts\<rparr>) = bb_queue rb"
  "bb_held (rb\<lparr>xTasksWaitingToReceive := ts\<rparr>) = bb_held rb"
  "bb_held (rb\<lparr>xTasksWaitingToSend := ts\<rparr>) = bb_held rb"
  by (simp_all add: bb_inv_def bb_queue_def bb_held_def bb_unread_def)

lemma length_bb_queue [simp]: "length (bb_queue rb) = bb_unread rb"
  by (simp add: bb_queue_def)

lemma bb_queue_Nil [simp]: "bb_queue rb = [] \<longleftrightarrow> bb_unread rb = 0"
  by (simp add: bb_queue_def cyc_def)

lemma length_bb_loan [simp]: "length (bb_loan rb) = bb_held rb"
  by (simp add: bb_loan_def)

lemma bb_send_api:
  assumes inv: "bb_inv rb"
  shows "\<exists>r rb'. xRingbufferSendFromISR rb (Some xs) (length xs) = Some (r, rb') \<and> bb_inv rb' \<and>
     (sendOk r \<longleftrightarrow> bb_held rb + bb_unread rb + length xs \<le> xSize rb) \<and>
     bb_queue rb' = bb_queue rb @ (if sendOk r then xs else []) \<and> bb_loan rb' = bb_loan rb"
proof -
  note f = bb_inv_facts [OF inv] and sf = bb_static_facts [OF inv]
  consider "xs = []" | "xSize rb < length xs"
    | "0 < length xs" "length xs \<le> xSize rb" "\<not> bb_held rb + bb_unread rb + length xs \<le> xSize rb"
    | "0 < length xs" "bb_held rb + bb_unread rb + length xs \<le> xSize rb"
    by fastforce
  then show ?thesis
  proof cases
    case 4
    obtain rb1 where rb1: "prvCopyItemByteBuf rb xs (length xs) = Some rb1" "bb_inv rb1"
      "bb_queue rb1 = bb_queue rb @ xs" "bb_loan rb1 = bb_loan rb"
      using bb_send [OF inv 4] by blast
    obtain ts where w: "snd (wake_receiver rb1) = rb1\<lparr>xTasksWaitingToReceive := ts\<rparr>"
      "sendOk (fst (wake_receiver rb1))" by (rule wake_receiver_cases)
    have "bb_loan (rb1\<lparr>xTasksWaitingToReceive := ts\<rparr>) = bb_loan rb1"
      by (simp add: bb_loan_def)
    with 4 rb1 w f sf bb_fits [OF inv, of "length xs"] show ?thesis
      by (cases "wake_receiver rb1")
        (auto simp: xRingbufferSendFromISR_def xCheckItemFits_def vCopyItem_def)
  next
    case 3
    then show ?thesis using inv f sf bb_fits [OF inv, of "length xs"]
      by (auto simp: xRingbufferSendFromISR_def xCheckItemFits_def send_failed_def)
  qed (use inv f sf in \<open>auto simp: xRingbufferSendFromISR_def send_failed_def\<close>)
qed

text \<open>A client that copies each chunk out and hands it back at once.\<close>

definition bb_client_send :: "byte list \<Rightarrow> Ringbuffer_t \<Rightarrow> (bool \<times> Ringbuffer_t) option" where
  "bb_client_send xs rb =
     map_option (\<lambda>(r, rb1). (sendOk r, rb1)) (xRingbufferSendFromISR rb (Some xs) (length xs))"

definition bb_client_recv :: "nat \<Rightarrow> Ringbuffer_t \<Rightarrow> (byte list \<times> Ringbuffer_t) option" where
  "bb_client_recv n rb = do {
     (got, rb1) \<leftarrow> xRingbufferReceiveUpToFromISR rb n;
     (case got of
        None \<Rightarrow> Some ([], rb1)
      | Some it \<Rightarrow> do {
          xs \<leftarrow> load_bytes (gotPtr it) (gotSize it) (storage rb1);
          (_, rb2) \<leftarrow> vRingbufferReturnItem rb1 (int (gotPtr it));
          Some (xs, rb2) }) }"

lemma bb_client_recv_law:
  assumes inv: "bb_inv rb" "bb_held rb = 0"
  shows "\<exists>xs rb'. bb_client_recv n rb = Some (xs, rb') \<and> bb_inv rb' \<and> bb_held rb' = 0 \<and>
     bb_queue rb = xs @ bb_queue rb' \<and> (0 < n \<longrightarrow> bb_queue rb \<noteq> [] \<longrightarrow> xs \<noteq> [])"
proof (cases "0 < n \<and> 0 < bb_unread rb")
  case False
  then show ?thesis using inv bb_avail [OF inv(1)] bb_static_facts [OF inv(1)]
    by (auto simp: bb_client_recv_def xRingbufferReceiveUpToFromISR_def
        prvReceiveGenericFromISR_def recv_failed_def)
next
  case True
  note sf = bb_static_facts [OF inv(1)] and f = bb_inv_facts [OF inv(1)]
  obtain it rb1 where g: "prvGetItemByteBuf rb n = Some (it, rb1)" "bb_inv rb1"
    "storage rb1 = storage rb" "gotPtr it < xSize rb" "gotSize it = bb_chunk rb n"
    "load_bytes (gotPtr it) (gotSize it) (storage rb) = Some (take (gotSize it) (bb_queue rb))"
    "bb_queue rb1 = drop (gotSize it) (bb_queue rb)" "bb_held rb1 = gotSize it"
    "xSize rb1 = xSize rb" "\<not> flag_set (uxRingbufferFlags rb1) rbALLOW_SPLIT_FLAG"
    using bb_get [OF inv conjunct2 [OF True], of n] by (elim exE conjE) (rule that)
  have pos: "0 < gotSize it" using bb_chunk_bounds [OF inv(1), of n] True g(5) by simp
  obtain rb2 where r: "prvReturnItemByteBuf rb1 (int (gotPtr it)) = Some rb2" "bb_inv rb2"
    "bb_held rb2 = 0" "bb_queue rb2 = bb_queue rb1"
    using bb_return [OF g(2), of "int (gotPtr it)"] pos g(4,8,9) by auto
  have "\<exists>rb3 t. vRingbufferReturnItem rb1 (int (gotPtr it)) = Some (t, rb3) \<and> bb_inv rb3 \<and>
      bb_held rb3 = 0 \<and> bb_queue rb3 = bb_queue rb1"
    using r bb_inv_facts(13) [OF g(2)]
    by (auto simp: vRingbufferReturnItem_def vReturnItem_def split: list.splits)
  then show ?thesis using True pos g sf f bb_avail [OF inv(1)] inv(2)
    by (auto simp: bb_client_recv_def xRingbufferReceiveUpToFromISR_def
        prvReceiveGenericFromISR_def receive_now_def pvGetItem_def)
qed

interpretation bytebuf: channel "\<lambda>rb. bb_inv rb \<and> bb_held rb = 0" bb_queue "\<lambda>_. True"
  "\<lambda>xs. xs" bb_client_send bb_client_recv
proof
  fix rb :: Ringbuffer_t and xs :: "byte list"
  assume a: "bb_inv rb \<and> bb_held rb = 0"
  then obtain r rb' where s: "xRingbufferSendFromISR rb (Some xs) (length xs) = Some (r, rb')"
    "bb_inv rb'" "bb_queue rb' = bb_queue rb @ (if sendOk r then xs else [])"
    "bb_loan rb' = bb_loan rb" using bb_send_api [of rb xs] by blast
  have "bb_held rb' = bb_held rb" using s(4) length_bb_loan by metis
  with a s show "\<exists>ok rb'. bb_client_send xs rb = Some (ok, rb') \<and> (bb_inv rb' \<and> bb_held rb' = 0) \<and>
      bb_queue rb' = bb_queue rb @ (if ok then xs else [])"
    by (simp add: bb_client_send_def)
next
  fix rb :: Ringbuffer_t and n :: nat
  assume "bb_inv rb \<and> bb_held rb = 0"
  then show "\<exists>xs rb'. bb_client_recv n rb = Some (xs, rb') \<and> (bb_inv rb' \<and> bb_held rb' = 0) \<and>
      bb_queue rb = xs @ bb_queue rb' \<and> (0 < n \<longrightarrow> bb_queue rb \<noteq> [] \<longrightarrow> xs \<noteq> [])"
    using bb_client_recv_law [of rb n] by auto
qed

lemma bb_init:
  assumes "0 < n" "n < 2 ^ 31" "length st = n"
  shows "bb_inv (prvInitializeNewRingbuffer n RINGBUF_TYPE_BYTEBUF a st)"
    and "bb_held (prvInitializeNewRingbuffer n RINGBUF_TYPE_BYTEBUF a st) = 0"
    and "bb_queue (prvInitializeNewRingbuffer n RINGBUF_TYPE_BYTEBUF a st) = []"
proof -
  let ?rb = "prvInitializeNewRingbuffer n RINGBUF_TYPE_BYTEBUF a st"
  have "bb_inv ?rb \<and> bb_held ?rb = 0 \<and> bb_unread ?rb = 0"
    by (rule bb_invI) (use assms in \<open>auto simp: prvInitializeNewRingbuffer_def rb_consts flag_simps\<close>)
  then show "bb_inv ?rb" "bb_held ?rb = 0" "bb_queue ?rb = []"
    by (simp_all add: bb_queue_def cyc_def)
qed

end
