(* ===== verification/Ringbuf_NoSplit.thy ===== *)
theory Ringbuf_NoSplit
  imports Ringbuf_Api Channel
begin

section \<open>No-split buffers refine a queue of items\<close>

text \<open>
  The storage of a no-split buffer is a chain of blocks: items (header and aligned data) and
  dummy blocks that fill the end of the storage. \<open>chain m S p bs q\<close> reads the block list
  \<open>bs\<close> off the memory from offset \<open>p\<close> to offset \<open>q\<close>; \<open>csize\<close> is its extent, at most
  the size of the storage. The free, read, write and acquire pointers cut the chain into the
  items on loan to the application and the items waiting to be read.
\<close>

subsection \<open>Headers in memory\<close>

definition agree :: "nat \<Rightarrow> nat \<Rightarrow> byte list \<Rightarrow> byte list \<Rightarrow> bool" where
  "agree a b m m' \<longleftrightarrow> length m' = length m \<and> (\<forall>i < length m. a \<le> i \<and> i < b \<longrightarrow> m' ! i = m ! i)"

lemma agreeD: "agree a b m m' \<Longrightarrow> a \<le> i \<Longrightarrow> i < b \<Longrightarrow> i < length m \<Longrightarrow> m' ! i = m ! i"
  by (simp add: agree_def)

lemma agree_sub: "agree a b m m' \<Longrightarrow> a \<le> c \<Longrightarrow> d \<le> b \<Longrightarrow> agree c d m m'"
  by (auto simp: agree_def)

lemma load_agree: "agree a b m m' \<Longrightarrow> a \<le> p \<Longrightarrow> p + n \<le> b \<Longrightarrow> load_bytes p n m' = load_bytes p n m"
  by (rule load_bytes_eqI) (auto simp: agree_def)

lemma read_hdr_agree: "agree a b m m' \<Longrightarrow> a \<le> p \<Longrightarrow> p + 8 \<le> b \<Longrightarrow> read_hdr p m' = read_hdr p m"
  unfolding read_hdr_def load32_def
  by (simp add: load_agree [of a b m m' p 4] load_agree [of a b m m' "p + 4" 4])

lemma write_hdr_spec:
  assumes "p + 8 \<le> length m" and "xItemLen h < SIZE_LIM"
  obtains m' where "write_hdr p h m = Some m'" "length m' = length m" "read_hdr p m' = Some h"
    "\<And>i. i < length m \<Longrightarrow> \<not> (p \<le> i \<and> i < p + 8) \<Longrightarrow> m' ! i = m ! i"
proof -
  obtain m1 where m1: "store_bytes p (le_bytes 4 (xItemLen h)) m = Some m1"
    using assms(1) by (simp add: store_bytes_def)
  have l1: "length m1 = length m" using m1 by (rule store_bytes_length)
  let ?f = "le_bytes 4 (unat (uxItemFlags h))"
  obtain m2 where m2: "store_bytes (p + 4) ?f m1 = Some m2"
    using assms(1) l1 by (simp add: store_bytes_def)
  have l2: "length m2 = length m" using store_bytes_length [OF m2] l1 by simp
  have "load32 p m2 = load32 p m1"
    unfolding load32_def using load_store_other [OF m2, of p 4] by simp
  also have "\<dots> = Some (xItemLen h)"
    using load32_store32 [of p "xItemLen h" m m1] m1 assms(2) by (simp add: store32_def)
  finally have r1: "load32 p m2 = Some (xItemLen h)" .
  have "unat (uxItemFlags h) < SIZE_LIM" using unsigned_less [of "uxItemFlags h"] by simp
  then have r2: "load32 (p + 4) m2 = Some (unat (uxItemFlags h))"
    using load32_store32 [of "p + 4" "unat (uxItemFlags h)" m1 m2] m2 by (simp add: store32_def)
  have other: "m2 ! i = m ! i" if "i < length m" "\<not> (p \<le> i \<and> i < p + 8)" for i
    using store_bytes_nth [OF m2, of i] store_bytes_nth [OF m1, of i] that l1 by auto
  show ?thesis
    by (rule that [of m2])
      (use m1 m2 l2 r1 r2 other in \<open>simp_all add: write_hdr_def store32_def read_hdr_def\<close>)
qed

subsection \<open>Blocks and chains\<close>

datatype blk = BDummy | BItem "byte list" bool

definition al :: "nat \<Rightarrow> nat" where "al n = (n + 3) div 4 * 4"

lemma rbALIGN_SIZE_al: "n + 3 < SIZE_LIM \<Longrightarrow> rbALIGN_SIZE n = al n"
  by (simp add: rbALIGN_SIZE_def al_def sz_add_exact)

lemma al_bounds: "n \<le> al n" "al n < n + 4" "4 dvd al n"
  unfolding al_def by presburger+

fun bsize :: "nat \<Rightarrow> nat \<Rightarrow> blk \<Rightarrow> nat" where
  "bsize S p BDummy = S - p"
| "bsize S p (BItem xs fr) =
     (if S - (p + 8 + al (length xs)) < 8 then S - p else 8 + al (length xs))"

definition nxt :: "nat \<Rightarrow> nat \<Rightarrow> blk \<Rightarrow> nat" where
  "nxt S p b = (if p + bsize S p b = S then 0 else p + bsize S p b)"

fun blk_at :: "byte list \<Rightarrow> nat \<Rightarrow> nat \<Rightarrow> blk \<Rightarrow> bool" where
  "blk_at m mx p BDummy =
     (\<exists>h. read_hdr p m = Some h \<and> p + 8 \<le> length m \<and> bit (uxItemFlags h) 1)"
| "blk_at m mx p (BItem xs fr) =
     (\<exists>h. read_hdr p m = Some h \<and> p + 8 + al (length xs) \<le> length m \<and> xItemLen h = length xs \<and>
          length xs \<le> mx \<and> (bit (uxItemFlags h) 0 \<longleftrightarrow> fr) \<and> \<not> bit (uxItemFlags h) 1 \<and>
          \<not> bit (uxItemFlags h) 2 \<and> bit (uxItemFlags h) 3 \<and>
          load_bytes (p + 8) (length xs) m = Some xs)"

fun chain :: "byte list \<Rightarrow> nat \<Rightarrow> nat \<Rightarrow> blk list \<Rightarrow> nat \<Rightarrow> bool" where
  "chain m mx p [] q \<longleftrightarrow> p = q"
| "chain m mx p (b # bs) q \<longleftrightarrow> blk_at m mx p b \<and> chain m mx (nxt (length m) p b) bs q"

fun csize :: "nat \<Rightarrow> nat \<Rightarrow> blk list \<Rightarrow> nat" where
  "csize S p [] = 0"
| "csize S p (b # bs) = bsize S p b + csize S (nxt S p b) bs"

fun cend :: "nat \<Rightarrow> nat \<Rightarrow> blk list \<Rightarrow> nat" where
  "cend S p [] = p"
| "cend S p (b # bs) = cend S (nxt S p b) bs"

text \<open>An offset where a block may start: aligned, with room for a header.\<close>

definition posn :: "nat \<Rightarrow> nat \<Rightarrow> bool" where
  "posn S p \<longleftrightarrow> 4 dvd p \<and> p + 8 \<le> S"

lemma chain_append:
  "chain m mx p (bs @ cs) q \<longleftrightarrow> chain m mx p bs (cend (length m) p bs) \<and>
     chain m mx (cend (length m) p bs) cs q"
  by (induction bs arbitrary: p) auto

lemma chain_cend: "chain m mx p bs q \<Longrightarrow> q = cend (length m) p bs"
  by (induction bs arbitrary: p) auto

lemma csize_append: "csize S p (bs @ cs) = csize S p bs + csize S (cend S p bs) cs"
  by (induction bs arbitrary: p) auto

lemma cend_append: "cend S p (bs @ cs) = cend S (cend S p bs) cs"
  by (induction bs arbitrary: p) auto

lemma blk_fits: "blk_at m mx p b \<Longrightarrow> 8 \<le> bsize (length m) p b \<and> p + bsize (length m) p b \<le> length m"
  by (cases b) auto

lemma nxt_mod:
  assumes "blk_at m mx p b"
  shows "nxt (length m) p b = (p + bsize (length m) p b) mod length m"
  using blk_fits [OF assms] by (auto simp: nxt_def)

lemma nxt_less: "blk_at m mx p b \<Longrightarrow> nxt (length m) p b < length m"
  using blk_fits [of m mx p b] by (auto simp: nxt_def)

lemma nxt_posn:
  assumes "blk_at m mx p b" "posn (length m) p" "4 dvd length m"
  shows "posn (length m) (nxt (length m) p b)"
proof (cases b)
  case BDummy
  then show ?thesis using assms blk_fits [OF assms(1)] by (auto simp: nxt_def posn_def)
next
  case (BItem xs fr)
  show ?thesis
  proof (cases "length m - (p + 8 + al (length xs)) < 8")
    case True
    then show ?thesis using assms(2) BItem by (auto simp: nxt_def posn_def)
  next
    case False
    have "4 dvd p + (8 + al (length xs))"
      using assms(2) al_bounds(3) [of "length xs"] unfolding posn_def by presburger
    then show ?thesis using False BItem by (auto simp: nxt_def posn_def)
  qed
qed

lemma chain_posn:
  "chain m mx p bs q \<Longrightarrow> posn (length m) p \<Longrightarrow> 4 dvd length m \<Longrightarrow> posn (length m) q"
  by (induction bs arbitrary: p) (auto intro: nxt_posn)

lemma csize_pos: "chain m mx p (b # bs) q \<Longrightarrow> 8 \<le> csize (length m) p (b # bs)"
  using blk_fits by fastforce

lemma csize_0: "chain m mx p bs q \<Longrightarrow> csize (length m) p bs = 0 \<longleftrightarrow> bs = []"
  using csize_pos by (cases bs) fastforce+

lemma chain_mod:
  assumes "chain m mx p bs q" "p < length m"
  shows "q = (p + csize (length m) p bs) mod length m"
  using assms
proof (induction bs arbitrary: p)
  case Nil
  then show ?case by simp
next
  case (Cons b bs)
  let ?n = "nxt (length m) p b"
  have b: "blk_at m mx p b" and c: "chain m mx ?n bs q" using Cons.prems(1) by auto
  have "q = (?n + csize (length m) ?n bs) mod length m" using Cons.IH [OF c] nxt_less [OF b] by simp
  also have "\<dots> = (p + (bsize (length m) p b + csize (length m) ?n bs)) mod length m"
    unfolding nxt_mod [OF b] by (simp add: mod_add_left_eq add.assoc)
  finally show ?case by simp
qed

text \<open>Frame: a change of the memory outside the extent of a chain keeps it.\<close>

lemma blk_at_agree:
  assumes "agree p (p + bsize (length m) p b) m m'" and "blk_at m mx p b"
  shows "blk_at m' mx p b"
proof -
  note fits = blk_fits [OF assms(2)]
  have h: "read_hdr p m' = read_hdr p m"
    using fits by (intro read_hdr_agree [OF assms(1)]) auto
  have l: "length m' = length m" using assms(1) by (simp add: agree_def)
  show ?thesis
  proof (cases b)
    case BDummy
    with assms(2) h l show ?thesis by simp
  next
    case (BItem xs fr)
    have "8 + length xs \<le> bsize (length m) p b"
      using assms(2) BItem al_bounds(1) [of "length xs"] by auto
    then have "load_bytes (p + 8) (length xs) m' = load_bytes (p + 8) (length xs) m"
      by (intro load_agree [OF assms(1)]) auto
    with assms(2) h l BItem show ?thesis by simp
  qed
qed

lemma chain_frame:
  assumes "chain m mx p bs q" "p < length m" "length m' = length m"
    and "\<And>i. i < csize (length m) p bs \<Longrightarrow> m' ! ((p + i) mod length m) = m ! ((p + i) mod length m)"
  shows "chain m' mx p bs q"
  using assms
proof (induction bs arbitrary: p)
  case Nil
  then show ?case by simp
next
  case (Cons b bs)
  let ?S = "length m"
  have b: "blk_at m mx p b" and c: "chain m mx (nxt ?S p b) bs q" using Cons.prems(1) by auto
  note fits = blk_fits [OF b] and nm = nxt_mod [OF b]
  have "m' ! i = m ! i" if "p \<le> i" "i < p + bsize ?S p b" for i
    using Cons.prems(4) [of "i - p"] that fits by auto
  then have b': "blk_at m' mx p b"
    using b Cons.prems(3) by (intro blk_at_agree [OF _ b]) (auto simp: agree_def)
  have "m' ! ((nxt ?S p b + i) mod ?S) = m ! ((nxt ?S p b + i) mod ?S)"
    if "i < csize ?S (nxt ?S p b) bs" for i
    using Cons.prems(4) [of "bsize ?S p b + i"] that nm by (simp add: mod_add_left_eq add.assoc)
  moreover have "nxt ?S p b < ?S" using b by (rule nxt_less)
  ultimately have "chain m' mx (nxt ?S p b) bs q" using Cons.IH [OF c] Cons.prems(3) by blast
  with b' Cons.prems(3) show ?case by simp
qed

subsection \<open>The invariant\<close>

definition is_item :: "blk \<Rightarrow> bool" where
  "is_item b = (case b of BDummy \<Rightarrow> False | BItem _ _ \<Rightarrow> True)"

definition item_freed :: "blk \<Rightarrow> bool" where
  "item_freed b = (case b of BDummy \<Rightarrow> True | BItem _ fr \<Rightarrow> fr)"

definition items_of :: "blk list \<Rightarrow> byte list list" where
  "items_of bs = List.map_filter (\<lambda>b. case b of BDummy \<Rightarrow> None | BItem xs _ \<Rightarrow> Some xs) bs"

lemma is_item_simps [simp]: "\<not> is_item BDummy" "is_item (BItem xs fr)"
  and item_freed_simps [simp]: "item_freed BDummy" "item_freed (BItem xs fr) = fr"
  and items_of_simps [simp]: "items_of [] = []" "items_of (BDummy # bs) = items_of bs"
    "items_of (BItem xs fr # bs) = xs # items_of bs" "items_of (bs @ cs) = items_of bs @ items_of cs"
  by (simp_all add: is_item_def item_freed_def items_of_def List.map_filter_def)

definition ns_static :: "Ringbuffer_t \<Rightarrow> bool" where
  "ns_static rb \<longleftrightarrow>
     rbOps rb = RINGBUF_TYPE_NOSPLIT \<and>
     \<not> flag_set (uxRingbufferFlags rb) rbBYTE_BUFFER_FLAG \<and>
     \<not> flag_set (uxRingbufferFlags rb) rbALLOW_SPLIT_FLAG \<and>
     16 \<le> xSize rb \<and> 4 dvd xSize rb \<and> xSize rb < 2 ^ 31 \<and> pucTail rb = xSize rb \<and>
     4 dvd pucHead rb \<and> length (storage rb) = xSize rb \<and>
     xMaxItemSize rb = al (xSize rb div 2) - 8"

definition ns_inv :: "Ringbuffer_t \<Rightarrow> blk list \<Rightarrow> blk list \<Rightarrow> bool" where
  "ns_inv rb ls rs \<longleftrightarrow>
     ns_static rb \<and> posn (xSize rb) (pucFree rb) \<and>
     chain (storage rb) (xMaxItemSize rb) (pucFree rb) ls (pucRead rb) \<and>
     chain (storage rb) (xMaxItemSize rb) (pucRead rb) rs (pucAcquire rb) \<and>
     csize (xSize rb) (pucFree rb) (ls @ rs) \<le> xSize rb \<and>
     (rb_full rb \<longleftrightarrow> csize (xSize rb) (pucFree rb) (ls @ rs) = xSize rb) \<and>
     pucWrite rb = pucAcquire rb \<and>
     xItemsWaiting rb = int (length (items_of rs)) \<and>
     (\<forall>xs fr. BItem xs fr \<in> set rs \<longrightarrow> \<not> fr)"

text \<open>Where a new item goes: at the acquire pointer, or behind a dummy at the start.\<close>

definition place :: "nat \<Rightarrow> nat \<Rightarrow> byte list \<Rightarrow> blk list" where
  "place S a xs = (if S - a < 8 + al (length xs) then [BDummy, BItem xs False] else [BItem xs False])"

lemma ns_staticD:
  assumes "ns_static rb"
  shows "rbOps rb = RINGBUF_TYPE_NOSPLIT" "16 \<le> xSize rb" "4 dvd xSize rb" "xSize rb < 2 ^ 31"
    "pucTail rb = xSize rb" "4 dvd pucHead rb" "length (storage rb) = xSize rb"
    "xMaxItemSize rb = al (xSize rb div 2) - 8"
    "\<not> flag_set (uxRingbufferFlags rb) rbALLOW_SPLIT_FLAG"
    "\<not> flag_set (uxRingbufferFlags rb) rbBYTE_BUFFER_FLAG"
  using assms by (simp_all add: ns_static_def)

lemma ns_chain:
  assumes "ns_inv rb ls rs"
  shows "chain (storage rb) (xMaxItemSize rb) (pucFree rb) (ls @ rs) (pucAcquire rb)"
  using assms chain_cend unfolding ns_inv_def chain_append by metis

lemma ns_cends:
  assumes "ns_inv rb ls rs"
  shows "pucRead rb = cend (xSize rb) (pucFree rb) ls" "pucAcquire rb = cend (xSize rb) (pucRead rb) rs"
  using assms chain_cend [of "storage rb" _ "pucFree rb" ls] chain_cend [of "storage rb" _ "pucRead rb" rs]
  unfolding ns_inv_def ns_static_def by auto

lemma ns_posns:
  assumes "ns_inv rb ls rs"
  shows "posn (xSize rb) (pucFree rb)" "posn (xSize rb) (pucRead rb)" "posn (xSize rb) (pucAcquire rb)"
proof -
  have st: "length (storage rb) = xSize rb" "4 dvd xSize rb" using assms by (auto simp: ns_inv_def ns_static_def)
  show F: "posn (xSize rb) (pucFree rb)" using assms by (simp add: ns_inv_def)
  show R: "posn (xSize rb) (pucRead rb)"
    using chain_posn [of "storage rb" _ "pucFree rb" ls] assms st F by (auto simp: ns_inv_def)
  show "posn (xSize rb) (pucAcquire rb)"
    using chain_posn [of "storage rb" _ "pucRead rb" rs] assms st R by (auto simp: ns_inv_def)
qed

text \<open>The extent of the chain fixes where the acquire pointer is.\<close>

lemma ns_acquire_cases:
  assumes "ns_inv rb ls rs"
  defines "t \<equiv> csize (xSize rb) (pucFree rb) (ls @ rs)"
  obtains (empty) "t = 0" "pucAcquire rb = pucFree rb" "\<not> rb_full rb"
  | (low) "pucAcquire rb < pucFree rb" "t + pucFree rb = pucAcquire rb + xSize rb" "\<not> rb_full rb"
  | (high) "pucFree rb < pucAcquire rb" "t + pucFree rb = pucAcquire rb" "\<not> rb_full rb"
  | (full) "t = xSize rb" "pucAcquire rb = pucFree rb" "rb_full rb"
proof -
  have st: "length (storage rb) = xSize rb" using assms by (auto simp: ns_inv_def ns_static_def)
  have F: "pucFree rb + 8 \<le> xSize rb" using ns_posns(1) [OF assms(1)] by (simp add: posn_def)
  have le: "t \<le> xSize rb" "rb_full rb \<longleftrightarrow> t = xSize rb" using assms by (auto simp: ns_inv_def)
  have A: "pucAcquire rb = (pucFree rb + t) mod xSize rb"
    using chain_mod [OF ns_chain [OF assms(1)]] st F by (simp add: t_def)
  consider "t = 0" | "0 < t" "pucFree rb + t < xSize rb"
    | "t < xSize rb" "xSize rb \<le> pucFree rb + t" | "t = xSize rb" using le by linarith
  then show ?thesis
  proof cases
    case 3
    then have "pucAcquire rb = pucFree rb + t - xSize rb" using A F by (simp add: mod_if)
    then show ?thesis using 3 low le by simp
  qed (use A F le empty high full in auto)
qed

lemma ns_max:
  assumes "ns_static rb" "n \<le> xMaxItemSize rb"
  shows "al n + 8 \<le> xSize rb div 2 + 2" "n + 3 < SIZE_LIM" "al n + 8 < SIZE_LIM"
    "4 dvd p \<Longrightarrow> xSize rb < p + (al n + 8) \<Longrightarrow> al n + 8 \<le> p"
proof -
  note d = ns_staticD [OF assms(1)]
  obtain k where k: "xSize rb = 4 * k" using d(3) by blast
  have half: "al (xSize rb div 2) = (if even k then 2 * k else 2 * k + 2)"
    unfolding al_def k by (auto elim!: evenE oddE)
  have "al n \<le> al (xSize rb div 2) - 8"
  proof -
    have "al (al (xSize rb div 2) - 8) = al (xSize rb div 2) - 8"
      using al_bounds(3) [of "xSize rb div 2"] unfolding al_def by presburger
    moreover have "al n \<le> al (xMaxItemSize rb)"
      using assms(2) unfolding al_def by (intro mult_le_mono div_le_mono) auto
    ultimately show ?thesis using d(8) by simp
  qed
  then have le: "al n + 8 \<le> (if even k then 2 * k else 2 * k + 2)"
    using half d(2) k by (auto split: if_splits)
  show "al n + 8 \<le> xSize rb div 2 + 2" using le k by (auto split: if_splits)
  show "n + 3 < SIZE_LIM" "al n + 8 < SIZE_LIM"
    using le al_bounds(1) [of n] d(4) k by (auto split: if_splits)
  show "al n + 8 \<le> p" if p: "4 dvd p" "xSize rb < p + (al n + 8)"
  proof -
    obtain j l where jl: "p = 4 * j" "al n = 4 * l" using p(1) al_bounds(3) [of n] unfolding dvd_def by blast
    with le p(2) k show ?thesis by (auto split: if_splits elim!: evenE oddE) presburger
  qed
qed

subsection \<open>Sending an item\<close>

text \<open>The fit check says exactly whether the placed blocks fit behind the chain.\<close>

lemma ns_fits:
  assumes inv: "ns_inv rb ls rs" and n: "length xs \<le> xMaxItemSize rb"
  shows "prvCheckItemFitsDefault rb (length xs) =
     Some (csize (xSize rb) (pucFree rb) (ls @ rs) +
           csize (xSize rb) (pucAcquire rb) (place (xSize rb) (pucAcquire rb) xs) \<le> xSize rb)"
proof -
  let ?S = "xSize rb" and ?A = "pucAcquire rb" and ?F = "pucFree rb" and ?T = "al (length xs) + 8"
  have st: "ns_static rb" using inv by (simp add: ns_inv_def)
  note d = ns_staticD [OF st] and mxs = ns_max [OF st n]
  have pA: "4 dvd ?A" "?A + 8 \<le> ?S" and pF: "4 dvd ?F" "?F + 8 \<le> ?S"
    using ns_posns [OF inv] by (auto simp: posn_def)
  have T: "sz_add (rbALIGN_SIZE (length xs)) rbHEADER_SIZE = ?T"
    using mxs by (simp add: rbALIGN_SIZE_al sz_add_exact rbHEADER_SIZE_def)
  have ok: "rbCHECK_ALIGNED (pucHead rb + ?A)" "?A < pucTail rb" "sz_sub (pucTail rb) ?A = ?S - ?A"
    using pA d by (auto simp: rbCHECK_ALIGNED_def sz_sub_exact)
  have big: "xSize rb < ?A + ?T \<Longrightarrow> ?T \<le> ?A" using mxs(4) [OF pA(1)] .
  show ?thesis using inv
  proof (cases rule: ns_acquire_cases)
    case empty
    then show ?thesis using ok big pA d(2)
      by (cases "?S < ?A + ?T") (auto simp: prvCheckItemFitsDefault_def T place_def nxt_def)
  next
    case low
    then show ?thesis using ok pA pF
      by (auto simp: prvCheckItemFitsDefault_def T place_def nxt_def)
  next
    case high
    then show ?thesis using ok pA pF d(9)
      by (auto simp: prvCheckItemFitsDefault_def T place_def nxt_def)
  next
    case full
    then show ?thesis using ok pA pF d(2)
      by (auto simp: prvCheckItemFitsDefault_def T place_def nxt_def)
  qed
qed

text \<open>Single steps of the write-pointer loop.\<close>

lemma advance_write_stop:
  assumes "read_hdr (pucWrite rb) (storage rb) = Some h" "pucWrite rb = pucAcquire rb"
  shows "advance_write rb = Some rb"
  using assms by (subst advance_write.simps) simp

lemma advance_write_item:
  assumes "read_hdr (pucWrite rb) (storage rb) = Some h" "pucWrite rb \<noteq> pucAcquire rb"
    "bit (uxItemFlags h) 3" "\<not> bit (uxItemFlags h) 1" "xItemLen h = length xs"
    "length xs + 3 < SIZE_LIM" "pucWrite rb + 8 + al (length xs) \<le> xSize rb"
    "pucTail rb = xSize rb" "xSize rb < 2 ^ 31"
  shows "advance_write rb = advance_write (rb\<lparr>pucWrite := nxt (xSize rb) (pucWrite rb) (BItem xs fr)\<rparr>)"
proof -
  let ?w = "pucWrite rb + (al (length xs) + 8)"
  have "sz_sub (xSize rb) ?w = xSize rb - ?w" using assms(7,9) by (intro sz_sub_exact) auto
  then have "rb\<lparr>pucWrite := nxt (xSize rb) (pucWrite rb) (BItem xs fr)\<rparr> =
      (if sz_sub (xSize rb) ?w < 8 then rb\<lparr>pucWrite := 0\<rparr> else rb\<lparr>pucWrite := ?w\<rparr>)"
    using assms(7) by (auto simp: nxt_def add.assoc add.commute)
  then show ?thesis using assms
    by (subst advance_write.simps)
      (simp add: item_consts flag_simps rbHEADER_SIZE_def rbALIGN_SIZE_al add.assoc add.commute)
qed

lemma advance_write_dummy:
  assumes "read_hdr (pucWrite rb) (storage rb) = Some h" "pucWrite rb \<noteq> pucAcquire rb"
    "bit (uxItemFlags h) 1" "pucTail rb = xSize rb" "16 \<le> xSize rb" "xSize rb < 2 ^ 31"
    "write_hdr (pucWrite rb) (h\<lparr>uxItemFlags := set_flag (uxItemFlags h) 8\<rparr>) (storage rb) = Some m"
  shows "advance_write rb = advance_write (rb\<lparr>storage := m, pucWrite := 0\<rparr>)"
  using assms
  by (subst advance_write.simps)
    (simp add: item_consts flag_simps rbHEADER_SIZE_def sz_sub_exact)

text \<open>The loop passes one written item and stops at the acquire pointer.\<close>

lemma posn_read: "posn (length m) p \<Longrightarrow> \<exists>h. read_hdr p m = Some h"
  by (auto simp: posn_def read_hdr_def load32_def load_bytes_def)

lemma advance_write_block:
  assumes "pucAcquire rb = nxt (xSize rb) (pucWrite rb) (BItem xs fr)"
    "blk_at (storage rb) mx (pucWrite rb) (BItem xs fr)"
    "posn (xSize rb) (pucAcquire rb)" "length (storage rb) = xSize rb"
    "pucTail rb = xSize rb" "length xs + 3 < SIZE_LIM" "xSize rb < 2 ^ 31"
  shows "advance_write rb = Some (rb\<lparr>pucWrite := pucAcquire rb\<rparr>)"
proof -
  obtain h where h: "read_hdr (pucWrite rb) (storage rb) = Some h" "bit (uxItemFlags h) 3"
    "\<not> bit (uxItemFlags h) 1" "xItemLen h = length xs"
    and f: "pucWrite rb + 8 + al (length xs) \<le> xSize rb"
    using assms(2,4) by auto
  obtain h' where h': "read_hdr (pucAcquire rb) (storage rb) = Some h'"
    using posn_read [of "storage rb" "pucAcquire rb"] assms(3,4) by auto
  show ?thesis
  proof (cases "pucWrite rb = pucAcquire rb")
    case True
    then have "rb\<lparr>pucWrite := pucAcquire rb\<rparr> = rb" by simp
    with advance_write_stop [OF h(1) True] show ?thesis by simp
  next
    case False
    have "advance_write rb = advance_write (rb\<lparr>pucWrite := pucAcquire rb\<rparr>)"
      unfolding assms(1) using False assms f h by (intro advance_write_item [OF h(1)]) auto
    also have "\<dots> = Some (rb\<lparr>pucWrite := pucAcquire rb\<rparr>)"
      using h' by (intro advance_write_stop) auto
    finally show ?thesis .
  qed
qed

lemma memcpy_spec:
  assumes "p + length xs \<le> length m"
  obtains m' where "memcpy p xs (length xs) m = Some m'" "length m' = length m"
    "load_bytes p (length xs) m' = Some xs"
    "\<And>i. i < length m \<Longrightarrow> \<not> (p \<le> i \<and> i < p + length xs) \<Longrightarrow> m' ! i = m ! i"
proof -
  obtain m' where m': "store_bytes p xs m = Some m'" using assms by (simp add: store_bytes_def)
  show ?thesis
    by (rule that [of m'])
      (use m' store_bytes_length [OF m'] load_store_same [OF m'] store_bytes_nth [OF m'] in
        \<open>auto simp: memcpy_def\<close>)
qed

text \<open>Header, data, header again: the three writes that store one item.\<close>

lemma put_item:
  assumes "p + 8 + al (length xs) \<le> length m" "length xs < SIZE_LIM" "length xs \<le> mx"
  obtains m1 m2 m3 where
    "write_hdr p \<lparr>xItemLen = length xs, uxItemFlags = 0\<rparr> m = Some m1"
    "memcpy (p + 8) xs (length xs) m1 = Some m2"
    "read_hdr p m2 = Some \<lparr>xItemLen = length xs, uxItemFlags = 0\<rparr>"
    "write_hdr p \<lparr>xItemLen = length xs, uxItemFlags = set_flag (clr_flag 0 4) 8\<rparr> m2 = Some m3"
    "length m3 = length m" "blk_at m3 mx p (BItem xs False)"
    "\<And>i. i < length m \<Longrightarrow> \<not> (p \<le> i \<and> i < p + 8 + al (length xs)) \<Longrightarrow> m3 ! i = m ! i"
proof -
  let ?h0 = "\<lparr>xItemLen = length xs, uxItemFlags = 0\<rparr>"
  let ?h1 = "\<lparr>xItemLen = length xs, uxItemFlags = set_flag (clr_flag 0 4) 8\<rparr>"
  note al = al_bounds(1) [of "length xs"]
  obtain m1 where m1: "write_hdr p ?h0 m = Some m1" "length m1 = length m" "read_hdr p m1 = Some ?h0"
    "\<And>i. i < length m \<Longrightarrow> \<not> (p \<le> i \<and> i < p + 8) \<Longrightarrow> m1 ! i = m ! i"
    using write_hdr_spec [of p m ?h0] assms by auto
  obtain m2 where m2: "memcpy (p + 8) xs (length xs) m1 = Some m2" "length m2 = length m1"
    "load_bytes (p + 8) (length xs) m2 = Some xs"
    "\<And>i. i < length m1 \<Longrightarrow> \<not> (p + 8 \<le> i \<and> i < p + 8 + length xs) \<Longrightarrow> m2 ! i = m1 ! i"
    using memcpy_spec [of "p + 8" xs m1] assms(1) al m1(2) by auto
  have "read_hdr p m2 = read_hdr p m1"
    by (rule read_hdr_agree [of p "p + 8"]) (use m2 in \<open>auto simp: agree_def\<close>)
  then have r2: "read_hdr p m2 = Some ?h0" using m1 by simp
  obtain m3 where m3: "write_hdr p ?h1 m2 = Some m3" "length m3 = length m2" "read_hdr p m3 = Some ?h1"
    "\<And>i. i < length m2 \<Longrightarrow> \<not> (p \<le> i \<and> i < p + 8) \<Longrightarrow> m3 ! i = m2 ! i"
    using write_hdr_spec [of p m2 ?h1] assms m1 m2 by auto
  have "load_bytes (p + 8) (length xs) m3 = load_bytes (p + 8) (length xs) m2"
    by (rule load_agree [of "p + 8" "p + 8 + length xs"]) (use m3 in \<open>auto simp: agree_def\<close>)
  then have b: "blk_at m3 mx p (BItem xs False)"
    using m1 m2 m3 assms by (simp add: flag_simps)
  have "m3 ! i = m ! i" if "i < length m" "\<not> (p \<le> i \<and> i < p + 8 + al (length xs))" for i
    using that m1(2,4) m2(2,4) m3(4) al by auto
  with m1 m2 m3 r2 b show ?thesis by (intro that [of m1 m2 m3]) auto
qed

lemma upd_swap:
  "rb\<lparr>pucAcquire := a, storage := m\<rparr> = rb\<lparr>storage := m, pucAcquire := a\<rparr>"
  "rb\<lparr>xItemsWaiting := k, storage := m\<rparr> = rb\<lparr>storage := m, xItemsWaiting := k\<rparr>"
  by simp_all

lemma ptr_aligned:
  "4 dvd (a::nat) \<Longrightarrow> 4 dvd (b::nat) \<Longrightarrow> (int a + (int b + 8)) mod 4 = 0"
  "4 dvd a \<Longrightarrow> (int a + 8) mod 4 = 0"
  by presburger+

definition sent :: "Ringbuffer_t \<Rightarrow> byte list \<Rightarrow> nat \<Rightarrow> Ringbuffer_t" where
  "sent rb m a = mark_full (rb\<lparr>storage := m, pucAcquire := a,
     xItemsWaiting := xItemsWaiting rb + 1, pucWrite := a\<rparr>)"

lemma ns_copy_plain:
  assumes inv: "ns_inv rb ls rs" and n: "length xs \<le> xMaxItemSize rb"
    and room: "pucAcquire rb + (8 + al (length xs)) \<le> xSize rb"
  obtains m where "prvCopyItemNoSplit rb xs (length xs) =
      Some (sent rb m (nxt (xSize rb) (pucAcquire rb) (BItem xs False)))"
    "length m = xSize rb" "blk_at m (xMaxItemSize rb) (pucAcquire rb) (BItem xs False)"
    "\<And>i. i < xSize rb \<Longrightarrow> \<not> (pucAcquire rb \<le> i \<and> i < pucAcquire rb + 8 + al (length xs)) \<Longrightarrow>
       m ! i = storage rb ! i"
proof -
  let ?S = "xSize rb" and ?A = "pucAcquire rb" and ?n = "length xs" and ?mx = "xMaxItemSize rb"
  let ?A' = "nxt ?S ?A (BItem xs False)"
  have st: "ns_static rb" using inv by (simp add: ns_inv_def)
  note d = ns_staticD [OF st] and mxs = ns_max [OF st n]
  have pA: "posn ?S ?A" and W: "pucWrite rb = ?A" using ns_posns [OF inv] inv by (auto simp: ns_inv_def)
  have hs: "?A + 8 + al ?n \<le> length (storage rb)" "?n < SIZE_LIM" using room d(7) mxs(2) by simp_all
  obtain m1 m2 m3 where m: "write_hdr ?A \<lparr>xItemLen = ?n, uxItemFlags = 0\<rparr> (storage rb) = Some m1"
    "memcpy (?A + 8) xs ?n m1 = Some m2"
    "read_hdr ?A m2 = Some \<lparr>xItemLen = ?n, uxItemFlags = 0\<rparr>"
    "write_hdr ?A \<lparr>xItemLen = ?n, uxItemFlags = set_flag (clr_flag 0 4) 8\<rparr> m2 = Some m3"
    "length m3 = length (storage rb)" "blk_at m3 ?mx ?A (BItem xs False)"
    "\<And>i. i < length (storage rb) \<Longrightarrow> \<not> (?A \<le> i \<and> i < ?A + 8 + al ?n) \<Longrightarrow> m3 ! i = storage rb ! i"
    using put_item [OF hs n] by blast
  have sub: "sz_sub ?S ?A = ?S - ?A" "sz_sub ?S (?A + (8 + al ?n)) = ?S - (?A + (8 + al ?n))"
    using room d(4) by (auto simp: sz_sub_exact)
  have A': "(if ?S - (?A + (8 + al ?n)) < 8 then 0 else ?A + (8 + al ?n)) = ?A'"
    using room by (auto simp: nxt_def)
  have acq: "prvAcquireItemNoSplit rb ?n =
      Some (?A + 8, mark_full (rb\<lparr>storage := m1, pucAcquire := ?A'\<rparr>))"
    using pA d(5,6) mxs(2,3) room m(1) A'
    by (simp add: prvAcquireItemNoSplit_def rbHEADER_SIZE_def rbCHECK_ALIGNED_def rbALIGN_SIZE_al
        sub sz_add_exact posn_def Let_def)
  have pA': "posn ?S ?A'" using nxt_posn [OF m(6)] m(5) pA d by simp
  let ?rb3 = "mark_full (rb\<lparr>storage := m3, pucAcquire := ?A', xItemsWaiting := xItemsWaiting rb + 1\<rparr>)"
  have "advance_write ?rb3 = Some (?rb3\<lparr>pucWrite := pucAcquire ?rb3\<rparr>)"
    by (rule advance_write_block [of _ xs False ?mx]) (use W m(5,6) pA' d mxs in auto)
  also have "?rb3\<lparr>pucWrite := pucAcquire ?rb3\<rparr> = sent rb m3 ?A'"
    by (simp add: sent_def mark_full_upd)
  finally have adv: "advance_write ?rb3 = Some (sent rb m3 ?A')" .
  have "prvCopyItemNoSplit rb xs ?n = Some (sent rb m3 ?A')"
    unfolding prvCopyItemNoSplit_def acq using pA d m(2,3,4) n adv room
    by (simp add: mark_full_upd prvSendItemDoneNoSplit_def ptr_off_def rbHEADER_SIZE_def
        item_consts flag_simps posn_def Let_def upd_swap ptr_aligned)
  then show ?thesis by (rule that) (use m(5-7) d in auto)
qed

lemma advance_write_dummy_block:
  assumes b: "blk_at (storage rb) mx 0 (BItem xs fr)" "pucAcquire rb = nxt (xSize rb) 0 (BItem xs fr)"
    and h: "read_hdr (pucWrite rb) (storage rb) = Some \<lparr>xItemLen = 0, uxItemFlags = 2\<rparr>"
    and p: "posn (xSize rb) (pucAcquire rb)" "posn (xSize rb) (pucWrite rb)"
      "8 + al (length xs) \<le> pucWrite rb"
    and d: "length (storage rb) = xSize rb" "pucTail rb = xSize rb" "16 \<le> xSize rb"
      "length xs + 3 < SIZE_LIM" "xSize rb < 2 ^ 31"
  obtains m where "advance_write rb = Some (rb\<lparr>storage := m, pucWrite := pucAcquire rb\<rparr>)"
    "length m = xSize rb" "blk_at m mx (pucWrite rb) BDummy" "blk_at m mx 0 (BItem xs fr)"
    "\<And>i. i < xSize rb \<Longrightarrow> i < pucWrite rb \<Longrightarrow> m ! i = storage rb ! i"
proof (cases "pucWrite rb = pucAcquire rb")
  case True
  have eq: "rb\<lparr>storage := storage rb, pucWrite := pucAcquire rb\<rparr> = rb" using True by simp
  show ?thesis
    by (rule that [of "storage rb"])
      (use advance_write_stop [OF h True] eq d b h p in \<open>auto simp: posn_def bit_numeral_rec\<close>)
next
  case False
  let ?W = "pucWrite rb" and ?h = "\<lparr>xItemLen = 0, uxItemFlags = set_flag 2 8\<rparr> :: ItemHeader_t"
  obtain m where m: "write_hdr ?W ?h (storage rb) = Some m" "length m = length (storage rb)"
    "read_hdr ?W m = Some ?h"
    "\<And>i. i < length (storage rb) \<Longrightarrow> \<not> (?W \<le> i \<and> i < ?W + 8) \<Longrightarrow> m ! i = storage rb ! i"
    using write_hdr_spec [of ?W "storage rb" ?h] p(2) d(1) by (auto simp: posn_def)
  have sz: "bsize (length (storage rb)) 0 (BItem xs fr) \<le> ?W" using p(2,3) d(1) by (auto simp: posn_def)
  have b': "blk_at m mx 0 (BItem xs fr)"
    by (rule blk_at_agree [OF _ b(1)]) (use m sz in \<open>auto simp: agree_def\<close>)
  have "advance_write rb = advance_write (rb\<lparr>storage := m, pucWrite := 0\<rparr>)"
    using False d h m(1) by (intro advance_write_dummy [OF h]) (auto simp: bit_numeral_rec)
  also have "\<dots> = Some (rb\<lparr>storage := m, pucWrite := pucAcquire rb\<rparr>)"
    using advance_write_block [of "rb\<lparr>storage := m, pucWrite := 0\<rparr>" xs fr mx] b b' m(2) p d by simp
  finally show ?thesis
    by (rule that) (use m d b' p in \<open>auto simp: flag_simps bit_numeral_rec posn_def\<close>)
qed

lemma ns_copy_wrap:
  assumes inv: "ns_inv rb ls rs" and n: "length xs \<le> xMaxItemSize rb"
    and room: "xSize rb < pucAcquire rb + (8 + al (length xs))"
  obtains m where "prvCopyItemNoSplit rb xs (length xs) = Some (sent rb m (8 + al (length xs)))"
    "length m = xSize rb" "blk_at m (xMaxItemSize rb) (pucAcquire rb) BDummy"
    "blk_at m (xMaxItemSize rb) 0 (BItem xs False)"
    "\<And>i. 8 + al (length xs) \<le> i \<Longrightarrow> i < pucAcquire rb \<Longrightarrow> m ! i = storage rb ! i"
proof -
  let ?S = "xSize rb" and ?A = "pucAcquire rb" and ?n = "length xs" and ?mx = "xMaxItemSize rb"
  let ?T = "8 + al ?n" and ?d = "\<lparr>xItemLen = 0, uxItemFlags = 2\<rparr> :: ItemHeader_t"
  have st: "ns_static rb" using inv by (simp add: ns_inv_def)
  note d = ns_staticD [OF st] and mxs = ns_max [OF st n]
  have pA: "posn ?S ?A" and W: "pucWrite rb = ?A" using ns_posns [OF inv] inv by (auto simp: ns_inv_def)
  have TA: "?T \<le> ?A" using mxs(4) [of ?A] pA room by (auto simp: posn_def)
  obtain m0 where m0: "write_hdr ?A ?d (storage rb) = Some m0" "length m0 = ?S" "read_hdr ?A m0 = Some ?d"
    "\<And>i. i < ?S \<Longrightarrow> \<not> (?A \<le> i \<and> i < ?A + 8) \<Longrightarrow> m0 ! i = storage rb ! i"
    using write_hdr_spec [of ?A "storage rb" ?d] pA d(7) by (auto simp: posn_def)
  have hs: "0 + 8 + al ?n \<le> length m0" "?n < SIZE_LIM" using TA pA m0(2) mxs(2) by (auto simp: posn_def)
  obtain m1 m2 m3 where m: "write_hdr 0 \<lparr>xItemLen = ?n, uxItemFlags = 0\<rparr> m0 = Some m1"
    "memcpy (0 + 8) xs ?n m1 = Some m2"
    "read_hdr 0 m2 = Some \<lparr>xItemLen = ?n, uxItemFlags = 0\<rparr>"
    "write_hdr 0 \<lparr>xItemLen = ?n, uxItemFlags = set_flag (clr_flag 0 4) 8\<rparr> m2 = Some m3"
    "length m3 = length m0" "blk_at m3 ?mx 0 (BItem xs False)"
    "\<And>i. i < length m0 \<Longrightarrow> \<not> (0 \<le> i \<and> i < 0 + 8 + al ?n) \<Longrightarrow> m3 ! i = m0 ! i"
    using put_item [OF hs n] by blast
  have "read_hdr ?A m3 = read_hdr ?A m0"
    by (rule read_hdr_agree [of ?A "?A + 8"]) (use m TA in \<open>auto simp: agree_def\<close>)
  then have h3: "read_hdr ?A m3 = Some ?d" using m0(3) by simp
  have A': "nxt ?S 0 (BItem xs False) = ?T" "posn ?S ?T"
    using TA pA al_bounds(3) [of ?n] by (auto simp: nxt_def posn_def)
  have sub: "sz_sub ?S ?A = ?S - ?A" "sz_sub ?S ?T = ?S - ?T" using TA pA d(4) by (auto simp: sz_sub_exact posn_def)
  have acq: "prvAcquireItemNoSplit rb ?n = Some (8, mark_full (rb\<lparr>storage := m1, pucAcquire := ?T\<rparr>))"
    using pA A'(2) d(5,6) mxs(2,3) room m0(1) m(1)
    by (auto simp: prvAcquireItemNoSplit_def rbHEADER_SIZE_def rbCHECK_ALIGNED_def rbALIGN_SIZE_al
        sub sz_add_exact posn_def Let_def item_consts)
  let ?rb3 = "mark_full (rb\<lparr>storage := m3, pucAcquire := ?T, xItemsWaiting := xItemsWaiting rb + 1\<rparr>)"
  obtain m4 where m4: "advance_write ?rb3 = Some (?rb3\<lparr>storage := m4, pucWrite := pucAcquire ?rb3\<rparr>)"
    "length m4 = ?S" "blk_at m4 ?mx ?A BDummy" "blk_at m4 ?mx 0 (BItem xs False)"
    "\<And>i. i < ?S \<Longrightarrow> i < ?A \<Longrightarrow> m4 ! i = m3 ! i"
    using advance_write_dummy_block [of ?rb3 ?mx xs False] m(5,6) m0(2) A' h3 W pA TA d mxs(2)
    by (auto simp del: blk_at.simps bsize.simps)
  have "prvCopyItemNoSplit rb xs ?n = Some (sent rb m4 ?T)"
    unfolding prvCopyItemNoSplit_def acq using d(5,6) m(2,3,4) n m4(1) TA pA
    by (simp add: mark_full_upd prvSendItemDoneNoSplit_def ptr_off_def rbHEADER_SIZE_def
        item_consts flag_simps posn_def Let_def sent_def upd_swap ptr_aligned)
  then show ?thesis
  proof (rule that)
    show "m4 ! i = storage rb ! i" if "?T \<le> i" "i < ?A" for i
      using that m4(5) m(7) m0(2,4) pA by (simp add: posn_def)
  qed (use m4 in simp_all)
qed

text \<open>Both cases together: the placed blocks, and nothing else, change.\<close>

lemma ns_copy:
  assumes inv: "ns_inv rb ls rs" and n: "length xs \<le> xMaxItemSize rb"
    and fit: "csize (xSize rb) (pucFree rb) (ls @ rs) +
        csize (xSize rb) (pucAcquire rb) (place (xSize rb) (pucAcquire rb) xs) \<le> xSize rb"
  obtains m a where "prvCopyItemNoSplit rb xs (length xs) = Some (sent rb m a)"
    "length m = xSize rb"
    "chain m (xMaxItemSize rb) (pucAcquire rb) (place (xSize rb) (pucAcquire rb) xs) a"
    "\<And>j. j < xSize rb \<Longrightarrow> (\<And>i. i < csize (xSize rb) (pucAcquire rb) (place (xSize rb) (pucAcquire rb) xs) \<Longrightarrow>
        j \<noteq> (pucAcquire rb + i) mod xSize rb) \<Longrightarrow> m ! j = storage rb ! j"
proof -
  let ?S = "xSize rb" and ?A = "pucAcquire rb" and ?mx = "xMaxItemSize rb" and ?T = "8 + al (length xs)"
  have st: "ns_static rb" using inv by (simp add: ns_inv_def)
  note d = ns_staticD [OF st] and mxs = ns_max [OF st n]
  have pA: "4 dvd ?A" "?A + 8 \<le> ?S" using ns_posns [OF inv] by (auto simp: posn_def)
  show ?thesis
  proof (cases "?A + ?T \<le> ?S")
    case True
    obtain m where m: "prvCopyItemNoSplit rb xs (length xs) = Some (sent rb m (nxt ?S ?A (BItem xs False)))"
      "length m = ?S" "blk_at m ?mx ?A (BItem xs False)"
      "\<And>i. i < ?S \<Longrightarrow> \<not> (?A \<le> i \<and> i < ?A + 8 + al (length xs)) \<Longrightarrow> m ! i = storage rb ! i"
      using ns_copy_plain [OF inv n True] by blast
    have pl: "place ?S ?A xs = [BItem xs False]" using True by (simp add: place_def)
    show ?thesis
    proof (rule that [OF m(1,2)])
      show "m ! j = storage rb ! j" if j: "j < ?S" and o: "\<And>i. i < csize ?S ?A (place ?S ?A xs) \<Longrightarrow>
        j \<noteq> (?A + i) mod ?S" for j
      proof (rule m(4) [OF j], rule notI)
        assume a: "?A \<le> j \<and> j < ?A + 8 + al (length xs)"
        then have "j - ?A < csize ?S ?A (place ?S ?A xs)" using j True by (auto simp: pl)
        from o [OF this] a j show False by simp
      qed
    qed (use m(2,3) pl in simp)
  next
    case False
    then have w: "?S < ?A + ?T" by simp
    obtain m where m: "prvCopyItemNoSplit rb xs (length xs) = Some (sent rb m ?T)"
      "length m = ?S" "blk_at m ?mx ?A BDummy" "blk_at m ?mx 0 (BItem xs False)"
      "\<And>i. ?T \<le> i \<Longrightarrow> i < ?A \<Longrightarrow> m ! i = storage rb ! i"
      using ns_copy_wrap [OF inv n w] by blast
    have pl: "place ?S ?A xs = [BDummy, BItem xs False]" using w pA by (auto simp: place_def)
    have TA: "?T \<le> ?A" using mxs(4) [of ?A] pA w by auto
    have nx: "nxt ?S ?A BDummy = 0" "nxt ?S 0 (BItem xs False) = ?T"
      using pA TA by (auto simp: nxt_def)
    have sz: "csize ?S ?A (place ?S ?A xs) = (?S - ?A) + ?T" using pA TA nx by (simp add: pl)
    show ?thesis
    proof (rule that [OF m(1,2)])
      show "chain m ?mx ?A (place ?S ?A xs) ?T" using m(2-4) nx by (simp add: pl del: blk_at.simps)
      show "m ! j = storage rb ! j" if j: "j < ?S" and o: "\<And>i. i < csize ?S ?A (place ?S ?A xs) \<Longrightarrow>
        j \<noteq> (?A + i) mod ?S" for j
      proof (rule m(5))
        show "?T \<le> j"
        proof (rule ccontr)
          assume "\<not> ?T \<le> j"
          then have "(?S - ?A) + j < csize ?S ?A (place ?S ?A xs)" using sz by linarith
          from o [OF this] j pA show False by simp
        qed
        show "j < ?A"
        proof (rule ccontr)
          assume a: "\<not> j < ?A"
          then have "j - ?A < csize ?S ?A (place ?S ?A xs)" using sz j by linarith
          from o [OF this] j a show False by simp
        qed
      qed
    qed
  qed
qed

lemma place_items [simp]: "items_of (place S a xs) = [xs]"
  and place_unfreed: "BItem ys fr \<in> set (place S a xs) \<Longrightarrow> \<not> fr"
  and place_nonempty: "\<exists>b bs. place S a xs = b # bs"
  by (auto simp: place_def split: if_splits)

lemma sent_sel [simp]:
  "storage (sent rb m a) = m" "pucAcquire (sent rb m a) = a" "pucWrite (sent rb m a) = a"
  "pucRead (sent rb m a) = pucRead rb" "pucFree (sent rb m a) = pucFree rb"
  "xSize (sent rb m a) = xSize rb" "xMaxItemSize (sent rb m a) = xMaxItemSize rb"
  "xItemsWaiting (sent rb m a) = xItemsWaiting rb + 1"
  "rb_full (sent rb m a) \<longleftrightarrow> a = pucFree rb \<or> rb_full rb"
  "xQueueSet (sent rb m a) = xQueueSet rb"
  by (simp_all add: sent_def)

lemma sent_static: "ns_static rb \<Longrightarrow> length m = xSize rb \<Longrightarrow> ns_static (sent rb m a)"
  by (simp add: ns_static_def sent_def)

lemma ns_send:
  assumes inv: "ns_inv rb ls rs" and n: "length xs \<le> xMaxItemSize rb"
    and fit: "csize (xSize rb) (pucFree rb) (ls @ rs) +
        csize (xSize rb) (pucAcquire rb) (place (xSize rb) (pucAcquire rb) xs) \<le> xSize rb"
  shows "\<exists>rb'. prvCopyItemNoSplit rb xs (length xs) = Some rb' \<and>
     ns_inv rb' ls (rs @ place (xSize rb) (pucAcquire rb) xs)"
proof -
  let ?S = "xSize rb" and ?F = "pucFree rb" and ?A = "pucAcquire rb" and ?mx = "xMaxItemSize rb"
  let ?pl = "place ?S ?A xs" and ?t = "csize ?S ?F (ls @ rs)"
  have st: "ns_static rb" using inv by (simp add: ns_inv_def)
  note len = ns_staticD(7) [OF st]
  obtain m a where m: "prvCopyItemNoSplit rb xs (length xs) = Some (sent rb m a)" "length m = ?S"
    "chain m ?mx ?A ?pl a"
    "\<And>j. j < ?S \<Longrightarrow> (\<And>i. i < csize ?S ?A ?pl \<Longrightarrow> j \<noteq> (?A + i) mod ?S) \<Longrightarrow> m ! j = storage rb ! j"
    using ns_copy [OF assms] by blast
  have F: "?F < ?S" "0 < ?S" using ns_posns(1) [OF inv] by (auto simp: posn_def)
  have A: "?A = (?F + ?t) mod ?S" using chain_mod [OF ns_chain [OF inv]] len F by simp
  have same: "m ! ((?F + i) mod ?S) = storage rb ! ((?F + i) mod ?S)" if "i < ?t" for i
  proof (rule m(4))
    show "(?F + i) mod ?S < ?S" using F by simp
    fix k assume "k < csize ?S ?A ?pl"
    then show "(?F + i) mod ?S \<noteq> (?A + k) mod ?S"
      using mod_eq_small [of i ?S "?t + k" ?F] that fit
      unfolding A by (auto simp: mod_add_left_eq add.assoc)
  qed
  have "chain m ?mx ?F (ls @ rs) ?A"
    using chain_frame [OF ns_chain [OF inv], of m] same F m(2) len by simp
  then have c: "chain m ?mx ?F ls (cend ?S ?F ls)" "chain m ?mx (cend ?S ?F ls) rs ?A"
    using m(2) by (simp_all add: chain_append)
  note R = ns_cends(1) [OF inv] and AR = ns_cends(2) [OF inv]
  have sz: "csize ?S ?F (ls @ rs @ ?pl) = ?t + csize ?S ?A ?pl"
    using R AR by (simp add: csize_append cend_append)
  have pos: "0 < csize ?S ?A ?pl"
    using csize_0 [OF m(3)] place_nonempty [of ?S ?A xs] m(2) by (cases "csize ?S ?A ?pl") auto
  have a: "a = (?F + (?t + csize ?S ?A ?pl)) mod ?S"
    using chain_mod [OF m(3)] ns_posns(3) [OF inv] m(2) A by (simp add: posn_def mod_add_left_eq add.assoc)
  have full: "a = ?F \<longleftrightarrow> ?t + csize ?S ?A ?pl = ?S"
    unfolding a using F pos fit by (intro wrap_eq_iff) auto
  have nf: "\<not> rb_full rb" using inv pos fit by (auto simp: ns_inv_def)
  have "ns_inv (sent rb m a) ls (rs @ ?pl)"
    unfolding ns_inv_def sent_sel
  proof (intro conjI)
    show "chain m ?mx (pucRead rb) (rs @ ?pl) a"
      using c(2) m(2,3) R AR by (simp add: chain_append)
    show "csize ?S ?F (ls @ rs @ ?pl) \<le> ?S"
      "(a = ?F \<or> rb_full rb) = (csize ?S ?F (ls @ rs @ ?pl) = ?S)"
      using sz fit full nf by auto
  qed (use st m(2) inv c(1) R in \<open>auto simp: ns_inv_def sent_static dest: place_unfreed\<close>)
  with m(1) show ?thesis by blast
qed

subsection \<open>Receiving an item\<close>

lemma ns_csize_split:
  assumes "ns_inv rb ls rs"
  shows "csize (xSize rb) (pucFree rb) (ls @ rs) =
     csize (xSize rb) (pucFree rb) ls + csize (xSize rb) (pucRead rb) rs"
  using ns_cends(1) [OF assms] by (simp add: csize_append)

lemma ns_avail:
  assumes inv: "ns_inv rb ls rs"
  shows "prvCheckItemAvail rb \<longleftrightarrow> items_of rs \<noteq> []"
proof -
  let ?S = "xSize rb" and ?R = "pucRead rb"
  have st: "ns_static rb" using inv by (simp add: ns_inv_def)
  note d = ns_staticD [OF st]
  have R: "?R < ?S" using ns_posns(2) [OF inv] by (simp add: posn_def)
  have c: "chain (storage rb) (xMaxItemSize rb) ?R rs (pucAcquire rb)" using inv by (simp add: ns_inv_def)
  have "?R \<noteq> pucWrite rb \<or> rb_full rb" if "items_of rs \<noteq> []"
  proof -
    have "rs \<noteq> []" using that by auto
    then have pos: "0 < csize ?S ?R rs" using csize_0 [OF c] d(7) by simp
    have le: "csize ?S ?R rs \<le> ?S" using inv ns_csize_split [OF inv] by (simp add: ns_inv_def)
    have "pucAcquire rb = (?R + csize ?S ?R rs) mod ?S" using chain_mod [OF c] d(7) R by simp
    then show ?thesis using wrap_eq_iff [OF R pos le] inv ns_csize_split [OF inv] le
      by (auto simp: ns_inv_def)
  qed
  then show ?thesis using inv d(10) by (auto simp: prvCheckItemAvail_def ns_inv_def)
qed

lemma ns_first:
  assumes inv: "ns_inv rb ls rs" and q: "items_of rs = xs # q"
  obtains (item) rs' where "rs = BItem xs False # rs'" "items_of rs' = q"
  | (dummy) rs' where "rs = BDummy # BItem xs False # rs'" "items_of rs' = q"
proof (cases rs)
  case Nil
  with q show ?thesis by simp
next
  case (Cons b rs1)
  have uf: "\<And>ys fr. BItem ys fr \<in> set rs \<Longrightarrow> \<not> fr" using inv by (auto simp: ns_inv_def)
  show ?thesis
  proof (cases b)
    case (BItem ys fr)
    then show ?thesis using q Cons uf [of ys fr] item by auto
  next
    case BDummy
    show ?thesis
    proof (cases rs1)
      case Nil
      with q Cons BDummy show ?thesis by simp
    next
      case (Cons b2 rs2)
      let ?S = "xSize rb" and ?R = "pucRead rb"
      have R: "?R + 8 \<le> ?S" using ns_posns(2) [OF inv] by (simp add: posn_def)
      have le: "csize ?S ?R rs \<le> ?S" using inv ns_csize_split [OF inv] by (simp add: ns_inv_def)
      have "b2 \<noteq> BDummy"
        using le R \<open>rs = b # rs1\<close> Cons BDummy by (auto simp: nxt_def)
      then obtain ys fr where "b2 = BItem ys fr" by (cases b2) auto
      then show ?thesis using q uf [of ys fr] \<open>rs = b # rs1\<close> Cons BDummy dummy by auto
    qed
  qed
qed

lemma get_step:
  assumes "ns_static rb" "blk_at (storage rb) (xMaxItemSize rb) p (BItem xs False)" "posn (xSize rb) p"
  shows "p + (8 + rbALIGN_SIZE (length xs)) \<le> xSize rb" "length xs + 3 < SIZE_LIM"
    "(if sz_sub (pucTail rb) (p + (8 + rbALIGN_SIZE (length xs))) < 8 then 0
      else p + (8 + rbALIGN_SIZE (length xs))) = nxt (xSize rb) p (BItem xs False)"
proof -
  note d = ns_staticD [OF assms(1)]
  have n: "length xs \<le> xMaxItemSize rb" "p + (8 + al (length xs)) \<le> xSize rb" using assms(2) d(7) by auto
  note mxs = ns_max [OF assms(1) n(1)]
  show "length xs + 3 < SIZE_LIM" by (rule mxs)
  show "p + (8 + rbALIGN_SIZE (length xs)) \<le> xSize rb" using n mxs by (simp add: rbALIGN_SIZE_al)
  have "sz_sub (pucTail rb) (p + (8 + al (length xs))) = xSize rb - (p + (8 + al (length xs)))"
    using n d by (simp add: sz_sub_exact)
  then show "(if sz_sub (pucTail rb) (p + (8 + rbALIGN_SIZE (length xs))) < 8 then 0
      else p + (8 + rbALIGN_SIZE (length xs))) = nxt (xSize rb) p (BItem xs False)"
    using n by (auto simp: rbALIGN_SIZE_al [OF mxs(2)] nxt_def)
qed

lemma get_eval:
  assumes "read_hdr (pucRead rb) (storage rb) = Some h0"
    "xItemsWaiting rb > 0 \<and> (pucRead rb \<noteq> pucWrite rb \<or> rb_full rb)"
    "4 dvd pucHead rb + pucRead rb" "pucRead rb < pucTail rb"
    "bit (uxItemFlags h0) 1 \<and> p = 0 \<and> read_hdr 0 (storage rb) = Some h \<or>
     \<not> bit (uxItemFlags h0) 1 \<and> p = pucRead rb \<and> h = h0"
    "xItemLen h \<le> xMaxItemSize rb"
    "if xItemLen h = 0 then p + 8 \<le> pucTail rb else p + 8 < pucTail rb"
  shows "prvGetItemDefault rb =
     Some (\<lparr>gotPtr = p + 8, gotSize = xItemLen h, gotSplit = bit (uxItemFlags h) 2\<rparr>,
           rb\<lparr>xItemsWaiting := xItemsWaiting rb - 1,
              pucRead := (if sz_sub (pucTail rb) (p + (8 + rbALIGN_SIZE (xItemLen h))) < 8 then 0
                else p + (8 + rbALIGN_SIZE (xItemLen h)))\<rparr>)"
  using assms
  by (cases "xItemLen h = 0")
    (auto simp: prvGetItemDefault_def rbCHECK_ALIGNED_def item_consts flag_simps
      rbHEADER_SIZE_def Let_def)

lemma ns_get:
  assumes inv: "ns_inv rb ls rs" and q: "items_of rs = xs # q"
  shows "\<exists>pre rs' it rb'. rs = pre @ BItem xs False # rs' \<and> pre \<in> {[], [BDummy]} \<and>
     prvGetItemDefault rb = Some (it, rb') \<and> ns_inv rb' (ls @ pre @ [BItem xs False]) rs' \<and>
     gotPtr it = cend (xSize rb) (pucFree rb) (ls @ pre) + 8 \<and> gotSize it = length xs \<and>
     \<not> gotSplit it \<and> load_bytes (gotPtr it) (gotSize it) (storage rb') = Some xs \<and>
     items_of rs' = q \<and> pucFree rb' = pucFree rb \<and> xSize rb' = xSize rb \<and>
     \<not> flag_set (uxRingbufferFlags rb') rbALLOW_SPLIT_FLAG"
proof -
  let ?S = "xSize rb" and ?R = "pucRead rb" and ?m = "storage rb" and ?mx = "xMaxItemSize rb"
  have st: "ns_static rb" using inv by (simp add: ns_inv_def)
  note d = ns_staticD [OF st]
  have av: "xItemsWaiting rb > 0 \<and> (?R \<noteq> pucWrite rb \<or> rb_full rb)"
    using ns_avail [OF inv] q by (auto simp: prvCheckItemAvail_def split: if_splits)
  have pR: "posn ?S ?R" using ns_posns [OF inv] by simp
  have p0: "posn ?S 0" using d(2) by (simp add: posn_def)
  have mx3: "length xs + 3 < SIZE_LIM \<Longrightarrow> length xs \<le> rbALIGN_SIZE (length xs)"
    using al_bounds(1) [of "length xs"] by (simp add: rbALIGN_SIZE_al)
  have room: "if length xs = 0 then p + 8 \<le> pucTail rb else p + 8 < pucTail rb"
    if "p + (8 + rbALIGN_SIZE (length xs)) \<le> ?S" "length xs + 3 < SIZE_LIM" for p
    using that mx3 d(5) by (cases xs) auto
  note c = inv [unfolded ns_inv_def]
  show ?thesis using inv q
  proof (cases rule: ns_first)
    case (item rs')
    let ?b = "BItem xs False"
    let ?rb' = "rb\<lparr>xItemsWaiting := xItemsWaiting rb - 1, pucRead := nxt ?S ?R ?b\<rparr>"
    have b: "blk_at ?m ?mx ?R ?b" using c item by simp
    note g = get_step [OF st b pR]
    obtain h where h: "read_hdr ?R ?m = Some h" "xItemLen h = length xs" "length xs \<le> ?mx"
      "\<not> bit (uxItemFlags h) 1" "\<not> bit (uxItemFlags h) 2" using b by auto
    have "prvGetItemDefault rb = Some (\<lparr>gotPtr = ?R + 8, gotSize = length xs, gotSplit = False\<rparr>, ?rb')"
      using get_eval [OF h(1) av, of ?R h, unfolded h(2) g(3)] h pR d(5,6) room [OF g(1,2)]
      by (simp add: posn_def del: length_0_conv)
    moreover have "ns_inv ?rb' (ls @ [?b]) rs'"
      using c item d(7) ns_cends(1) [OF inv] by (auto simp: ns_inv_def ns_static_def chain_append)
    ultimately show ?thesis using item b ns_cends(1) [OF inv] d(9)
      by (intro exI [of _ "[]"] exI [of _ rs']) auto
  next
    case (dummy rs')
    let ?b = "BItem xs False"
    let ?rb' = "rb\<lparr>xItemsWaiting := xItemsWaiting rb - 1, pucRead := nxt ?S 0 ?b\<rparr>"
    have n0: "nxt ?S ?R BDummy = 0" using pR by (auto simp: nxt_def posn_def)
    have bd: "blk_at ?m ?mx ?R BDummy" and b: "blk_at ?m ?mx 0 ?b" using c dummy d(7) n0 by auto
    note g = get_step [OF st b p0]
    obtain h where h: "read_hdr 0 ?m = Some h" "xItemLen h = length xs" "length xs \<le> ?mx"
      "\<not> bit (uxItemFlags h) 1" "\<not> bit (uxItemFlags h) 2" using b by auto
    obtain hd where hd: "read_hdr ?R ?m = Some hd" "bit (uxItemFlags hd) 1" using bd by auto
    have "prvGetItemDefault rb = Some (\<lparr>gotPtr = 8, gotSize = length xs, gotSplit = False\<rparr>, ?rb')"
      using get_eval [OF hd(1) av, of 0 h, unfolded h(2) g(3)] h hd pR d(5,6) room [OF g(1,2)]
      by (simp add: posn_def del: length_0_conv)
    moreover have "ns_inv ?rb' (ls @ [BDummy, ?b]) rs'"
      using c dummy d(7) ns_cends(1) [OF inv] n0 by (auto simp: ns_inv_def ns_static_def chain_append)
    ultimately show ?thesis using dummy b n0 ns_cends(1) [OF inv] d(9)
      by (intro exI [of _ "[BDummy]"] exI [of _ rs']) (auto simp: cend_append)
  qed
qed

subsection \<open>Returning an item\<close>

text \<open>Changing one block of a chain in place.\<close>

lemma chain_update_block:
  assumes c: "chain m mx p (pre @ b # post) q" "p < length m"
    and sz: "csize (length m) p (pre @ b # post) \<le> length m"
    and m': "length m' = length m"
      "\<And>i. i < length m \<Longrightarrow> \<not> (cend (length m) p pre \<le> i \<and>
         i < cend (length m) p pre + bsize (length m) (cend (length m) p pre) b) \<Longrightarrow> m' ! i = m ! i"
    and b': "blk_at m' mx (cend (length m) p pre) b'"
      "bsize (length m) (cend (length m) p pre) b' = bsize (length m) (cend (length m) p pre) b"
  shows "chain m' mx p (pre @ b' # post) q"
    "csize (length m) p (pre @ b' # post) = csize (length m) p (pre @ b # post)"
proof -
  let ?S = "length m" let ?c = "cend ?S p pre" let ?n = "nxt ?S ?c b" let ?z = "bsize ?S ?c b"
  have n': "nxt ?S ?c b' = ?n" using b'(2) by (simp add: nxt_def)
  show "csize ?S p (pre @ b' # post) = csize ?S p (pre @ b # post)"
    using b'(2) n' by (simp add: csize_append)
  have pre: "chain m mx p pre ?c" and blk: "blk_at m mx ?c b" and post: "chain m mx ?n post q"
    using c(1) by (simp_all add: chain_append)
  have cm: "?c = (p + csize ?S p pre) mod ?S" using chain_mod [OF pre c(2)] .
  have tot: "csize ?S p pre + ?z + csize ?S ?n post \<le> ?S" using sz by (simp add: csize_append add.assoc)
  note fit = blk_fits [OF blk]
  have off: "m' ! ((p + k) mod ?S) = m ! ((p + k) mod ?S)"
    if k: "k < csize ?S p pre \<or> csize ?S p pre + ?z \<le> k" "k < csize ?S p pre + ?z + csize ?S ?n post" for k
  proof (rule m'(2))
    show "(p + k) mod ?S < ?S" using c(2) by (intro mod_less_divisor) auto
    show "\<not> (?c \<le> (p + k) mod ?S \<and> (p + k) mod ?S < ?c + ?z)"
    proof
      assume a: "?c \<le> (p + k) mod ?S \<and> (p + k) mod ?S < ?c + ?z"
      define j where "j = (p + k) mod ?S - ?c"
      have j: "j < ?z" "(p + k) mod ?S = ?c + j" using a by (auto simp: j_def)
      then have "(p + k) mod ?S = (?c + j) mod ?S" using fit by simp
      also have "\<dots> = (p + (csize ?S p pre + j)) mod ?S"
        unfolding cm by (simp add: mod_add_left_eq add.assoc)
      finally have "k = csize ?S p pre + j"
        using mod_eq_small [of k ?S "csize ?S p pre + j" p] k tot j(1) by auto
      with k j(1) show False by auto
    qed
  qed
  have "chain m' mx p pre ?c"
    by (rule chain_frame [OF pre c(2) m'(1)]) (use off in auto)
  moreover have "chain m' mx ?n post q"
  proof (rule chain_frame [OF post nxt_less [OF blk] m'(1)])
    fix i assume "i < csize ?S ?n post"
    then show "m' ! ((?n + i) mod ?S) = m ! ((?n + i) mod ?S)"
      using off [of "csize ?S p pre + ?z + i"] nxt_mod [OF blk] cm
      by (simp add: mod_add_left_eq add.assoc)
  qed
  ultimately show "chain m' mx p (pre @ b' # post) q"
    using b'(1) m'(1) n' by (simp add: chain_append)
qed

text \<open>The free-pointer loop drops the returned and dummy blocks at the front.\<close>

lemma advance_free_stop:
  assumes "read_hdr (pucFree rb) (storage rb) = Some h"
    "pucFree rb = pucRead rb \<or> \<not> bit (uxItemFlags h) 0 \<and> \<not> bit (uxItemFlags h) 1"
  shows "advance_free rb = Some rb"
  using assms by (subst advance_free.simps) (auto simp: item_consts flag_simps)

lemma advance_free_item:
  assumes "read_hdr (pucFree rb) (storage rb) = Some h" "pucFree rb \<noteq> pucRead rb"
    "bit (uxItemFlags h) 0" "\<not> bit (uxItemFlags h) 1" "xItemLen h = length xs"
    "length xs + 3 < SIZE_LIM" "pucFree rb + 8 + al (length xs) \<le> xSize rb"
    "pucTail rb = xSize rb" "xSize rb < 2 ^ 31"
  shows "advance_free rb = advance_free (rb\<lparr>pucFree := nxt (xSize rb) (pucFree rb) (BItem xs fr)\<rparr>)"
proof -
  let ?w = "pucFree rb + (al (length xs) + 8)"
  have "sz_sub (xSize rb) ?w = xSize rb - ?w" using assms(7,9) by (intro sz_sub_exact) auto
  then have "rb\<lparr>pucFree := nxt (xSize rb) (pucFree rb) (BItem xs fr)\<rparr> =
      (if sz_sub (xSize rb) ?w < 8 then rb\<lparr>pucFree := 0\<rparr> else rb\<lparr>pucFree := ?w\<rparr>)"
    using assms(7) by (auto simp: nxt_def add.assoc add.commute)
  then show ?thesis using assms
    by (subst advance_free.simps)
      (simp add: item_consts flag_simps rbHEADER_SIZE_def rbALIGN_SIZE_al add.assoc add.commute)
qed

lemma advance_free_dummy:
  assumes "read_hdr (pucFree rb) (storage rb) = Some h" "pucFree rb \<noteq> pucRead rb"
    "bit (uxItemFlags h) 1" "pucTail rb = xSize rb" "16 \<le> xSize rb" "xSize rb < 2 ^ 31"
    "write_hdr (pucFree rb) (h\<lparr>uxItemFlags := set_flag (uxItemFlags h) 1\<rparr>) (storage rb) = Some m"
  shows "advance_free rb = advance_free (rb\<lparr>storage := m, pucFree := 0\<rparr>)"
  using assms
  by (subst advance_free.simps)
    (simp add: item_consts flag_simps rbHEADER_SIZE_def sz_sub_exact)

lemma advance_free_chain:
  assumes "ns_static rb" "posn (xSize rb) (pucFree rb)"
    "chain (storage rb) (xMaxItemSize rb) (pucFree rb) (ls @ rs) (pucAcquire rb)"
    "pucRead rb = cend (xSize rb) (pucFree rb) ls"
    "csize (xSize rb) (pucFree rb) (ls @ rs) \<le> xSize rb" "csize (xSize rb) (pucFree rb) ls < xSize rb"
  shows "\<exists>m. advance_free rb =
       Some (rb\<lparr>storage := m, pucFree := cend (xSize rb) (pucFree rb) (takeWhile item_freed ls)\<rparr>) \<and>
     length m = xSize rb \<and>
     chain m (xMaxItemSize rb) (cend (xSize rb) (pucFree rb) (takeWhile item_freed ls))
       (dropWhile item_freed ls @ rs) (pucAcquire rb)"
  using assms
proof (induction ls arbitrary: rb)
  case Nil
  note d = ns_staticD [OF Nil.prems(1)]
  obtain h where "read_hdr (pucFree rb) (storage rb) = Some h"
    using posn_read [of "storage rb"] Nil.prems(2) d(7) by auto
  then have "advance_free rb = Some rb" using Nil.prems(4) by (intro advance_free_stop) auto
  then show ?case using Nil.prems(3) d(7) by (intro exI [of _ "storage rb"]) simp
next
  case (Cons b ls)
  let ?S = "xSize rb" and ?F = "pucFree rb" and ?m = "storage rb" and ?mx = "xMaxItemSize rb"
  note d = ns_staticD [OF Cons.prems(1)]
  have F: "?F < ?S" using Cons.prems(2) by (simp add: posn_def)
  have b: "blk_at ?m ?mx ?F b" and c: "chain ?m ?mx (nxt ?S ?F b) (ls @ rs) (pucAcquire rb)"
    using Cons.prems(3) d(7) by auto
  note fit = blk_fits [OF b] and np = nxt_posn [OF b]
  have ne: "?F \<noteq> pucRead rb"
  proof -
    have "chain ?m ?mx ?F (b # ls) (pucRead rb)" using Cons.prems(3,4) d(7) by (simp add: chain_append)
    then have "pucRead rb = (?F + csize ?S ?F (b # ls)) mod ?S" using chain_mod d(7) F by metis
    then show ?thesis using wrap_eq_iff [OF F, of "csize ?S ?F (b # ls)"] fit Cons.prems(6) d(7) by auto
  qed
  show ?case
  proof (cases b)
    case (BItem xs fr)
    obtain h where h: "read_hdr ?F ?m = Some h" "xItemLen h = length xs" "bit (uxItemFlags h) 0 = fr"
      "\<not> bit (uxItemFlags h) 1" "length xs \<le> ?mx" "?F + 8 + al (length xs) \<le> ?S"
      using b BItem d(7) by auto
    show ?thesis
    proof (cases fr)
      case False
      then have "advance_free rb = Some rb" using h by (intro advance_free_stop) auto
      then show ?thesis using False BItem Cons.prems(3) d(7) by (intro exI [of _ ?m]) simp
    next
      case True
      let ?rb1 = "rb\<lparr>pucFree := nxt ?S ?F b\<rparr>"
      have "advance_free rb = advance_free ?rb1"
        unfolding BItem using h ne True d ns_max(2) [OF Cons.prems(1) h(5)]
        by (intro advance_free_item [OF h(1)]) auto
      moreover have "\<exists>m. advance_free ?rb1 =
          Some (?rb1\<lparr>storage := m, pucFree := cend (xSize ?rb1) (pucFree ?rb1) (takeWhile item_freed ls)\<rparr>) \<and>
        length m = xSize ?rb1 \<and>
        chain m (xMaxItemSize ?rb1) (cend (xSize ?rb1) (pucFree ?rb1) (takeWhile item_freed ls))
          (dropWhile item_freed ls @ rs) (pucAcquire ?rb1)"
        by (rule Cons.IH) (use Cons.prems c np d in \<open>auto simp: ns_static_def\<close>)
      ultimately show ?thesis using True BItem by auto
    qed
  next
    case BDummy
    obtain h where h: "read_hdr ?F ?m = Some h" "bit (uxItemFlags h) 1" "?F + 8 \<le> ?S"
      using b BDummy d(7) by auto
    have "xItemLen h < SIZE_LIM"
      using h(1) load32_bound by (auto simp: read_hdr_def dest!: bind_eq_SomeD)
    then obtain m where m: "write_hdr ?F (h\<lparr>uxItemFlags := set_flag (uxItemFlags h) 1\<rparr>) ?m = Some m"
      "length m = length ?m" "\<And>i. i < length ?m \<Longrightarrow> \<not> (?F \<le> i \<and> i < ?F + 8) \<Longrightarrow> m ! i = ?m ! i"
      "read_hdr ?F m = Some (h\<lparr>uxItemFlags := set_flag (uxItemFlags h) 1\<rparr>)"
      using write_hdr_spec [of ?F ?m "h\<lparr>uxItemFlags := set_flag (uxItemFlags h) 1\<rparr>"] h(3) d(7) by auto
    have n0: "nxt ?S ?F BDummy = 0" using F by (simp add: nxt_def)
    let ?rb1 = "rb\<lparr>storage := m, pucFree := 0\<rparr>"
    have adv: "advance_free rb = advance_free ?rb1"
      using h ne d m(1) by (intro advance_free_dummy [OF h(1)]) auto
    have "chain m ?mx ?F ([] @ BDummy # (ls @ rs)) (pucAcquire rb)"
      by (rule chain_update_block(1) [of ?m ?mx ?F "[]" BDummy "ls @ rs"])
        (use Cons.prems(3,5) BDummy F d(7) m h in \<open>auto simp: flag_simps\<close>)
    then have c1: "chain m ?mx 0 (ls @ rs) (pucAcquire rb)" using m(2) d(7) n0 by simp
    have "\<exists>m'. advance_free ?rb1 =
        Some (?rb1\<lparr>storage := m', pucFree := cend (xSize ?rb1) (pucFree ?rb1) (takeWhile item_freed ls)\<rparr>) \<and>
      length m' = xSize ?rb1 \<and>
      chain m' (xMaxItemSize ?rb1) (cend (xSize ?rb1) (pucFree ?rb1) (takeWhile item_freed ls))
        (dropWhile item_freed ls @ rs) (pucAcquire ?rb1)"
      by (rule Cons.IH) (use Cons.prems c1 d m(2) BDummy n0 in \<open>auto simp: ns_static_def posn_def\<close>)
    then show ?thesis using adv BDummy n0 by auto
  qed
qed

text \<open>Marking the item as returned.\<close>

lemma ns_mark:
  assumes inv: "ns_inv rb (pre @ BItem xs False # post) rs"
  defines "p \<equiv> cend (xSize rb) (pucFree rb) pre"
  obtains h m where "read_hdr p (storage rb) = Some h" "xItemLen h \<le> xMaxItemSize rb"
    "\<not> bit (uxItemFlags h) 1" "\<not> bit (uxItemFlags h) 0" "4 dvd p" "p + 8 \<le> xSize rb"
    "write_hdr p (h\<lparr>uxItemFlags := set_flag (clr_flag (uxItemFlags h) 4) 1\<rparr>) (storage rb) = Some m"
    "length m = xSize rb"
    "chain m (xMaxItemSize rb) (pucFree rb) ((pre @ BItem xs True # post) @ rs) (pucAcquire rb)"
    "csize (xSize rb) (pucFree rb) ((pre @ BItem xs True # post) @ rs) =
     csize (xSize rb) (pucFree rb) ((pre @ BItem xs False # post) @ rs)"
    "cend (xSize rb) (pucFree rb) (pre @ BItem xs True # post) = pucRead rb"
proof -
  let ?S = "xSize rb" and ?F = "pucFree rb" and ?m = "storage rb" and ?mx = "xMaxItemSize rb"
  have st: "ns_static rb" using inv by (simp add: ns_inv_def)
  note d = ns_staticD [OF st]
  have F: "posn ?S ?F" "?F < ?S" using ns_posns(1) [OF inv] by (auto simp: posn_def)
  have c: "chain ?m ?mx ?F (pre @ BItem xs False # (post @ rs)) (pucAcquire rb)"
    using ns_chain [OF inv] by simp
  then have b: "blk_at ?m ?mx p (BItem xs False)" and cp: "chain ?m ?mx ?F pre p"
    using d(7) by (simp_all add: chain_append p_def)
  have pp: "posn ?S p" using chain_posn [OF cp] F(1) d by simp
  obtain h where h: "read_hdr p ?m = Some h" "xItemLen h = length xs" "length xs \<le> ?mx"
    "p + 8 + al (length xs) \<le> ?S" "\<not> bit (uxItemFlags h) 0" "\<not> bit (uxItemFlags h) 1"
    "bit (uxItemFlags h) 3" "load_bytes (p + 8) (length xs) ?m = Some xs"
    using b d(7) by auto
  let ?h = "h\<lparr>uxItemFlags := set_flag (clr_flag (uxItemFlags h) 4) 1\<rparr>"
  have lim: "xItemLen ?h < SIZE_LIM" "p + 8 \<le> length ?m" using h ns_max(2) [OF st h(3)] d(7) by auto
  obtain m where m: "write_hdr p ?h ?m = Some m" "length m = length ?m" "read_hdr p m = Some ?h"
    "\<And>i. i < length ?m \<Longrightarrow> \<not> (p \<le> i \<and> i < p + 8) \<Longrightarrow> m ! i = ?m ! i"
    using write_hdr_spec [OF lim(2,1)] by blast
  have "load_bytes (p + 8) (length xs) m = load_bytes (p + 8) (length xs) ?m"
    by (rule load_agree [of "p + 8" "p + 8 + length xs"]) (use m in \<open>auto simp: agree_def\<close>)
  then have b': "blk_at m ?mx p (BItem xs True)" using m h d(7) by (simp add: flag_simps)
  have sz: "8 \<le> bsize ?S p (BItem xs False)" using blk_fits [OF b] d(7) by simp
  have pm: "cend (length ?m) ?F pre = p" using d(7) by (simp add: p_def)
  have tot: "csize (length ?m) ?F (pre @ BItem xs False # (post @ rs)) \<le> length ?m"
    using inv d(7) by (simp add: ns_inv_def)
  have out: "m ! i = ?m ! i"
    if "i < length ?m" "\<not> (p \<le> i \<and> i < p + bsize (length ?m) p (BItem xs False))" for i
    using m(4) [OF that(1)] that(2) sz d(7) by (metis add_le_cancel_left order_less_le_trans)
  have "?F < length ?m" "bsize (length ?m) p (BItem xs True) = bsize (length ?m) p (BItem xs False)"
    using F(2) d(7) by simp_all
  note upd = chain_update_block [OF c this(1) tot m(2), unfolded pm, OF out b' this(2), simplified d(7)]
  note upd
  moreover have "cend ?S ?F (pre @ BItem xs True # post) = cend ?S ?F (pre @ BItem xs False # post)"
    by (simp add: cend_append nxt_def)
  ultimately show ?thesis
    using h m pp d(7) ns_cends(1) [OF inv] by (intro that [of h m]) (simp_all add: posn_def)
qed

lemma return_eval:
  assumes "read_hdr p (storage rb) = Some h" "xItemLen h \<le> xMaxItemSize rb"
    "\<not> bit (uxItemFlags h) 1" "\<not> bit (uxItemFlags h) 0" "4 dvd p" "p + 8 \<le> xSize rb"
    "4 dvd pucHead rb" "pucTail rb = xSize rb"
    "write_hdr p (h\<lparr>uxItemFlags := set_flag (clr_flag (uxItemFlags h) 4) 1\<rparr>) (storage rb) = Some m"
    "advance_free (rb\<lparr>storage := m\<rparr>) = Some rb1"
  shows "prvReturnItemDefault rb (int (p + 8)) = Some
       (if rb_full rb1 \<and> (pucFree rb1 \<noteq> pucAcquire rb1 \<or>
            pucFree rb1 = pucAcquire rb1 \<and> pucFree rb1 = pucRead rb1)
        then rb1\<lparr>uxRingbufferFlags := clr_flag (uxRingbufferFlags rb1) rbBUFFER_FULL_FLAG\<rparr>
        else rb1)"
proof -
  have "(int (pucHead rb) + int (p + 8)) mod 4 = 0" using ptr_aligned(1) [OF assms(7,5)] by simp
  then show ?thesis using assms
    by (simp add: prvReturnItemDefault_def ptr_off_def rbHEADER_SIZE_def item_consts flag_simps)
qed

lemma static_clr_full:
  "ns_static (rb\<lparr>uxRingbufferFlags := clr_flag (uxRingbufferFlags rb) rbBUFFER_FULL_FLAG\<rparr>) = ns_static rb"
  "\<not> rb_full (rb\<lparr>uxRingbufferFlags := clr_flag (uxRingbufferFlags rb) rbBUFFER_FULL_FLAG\<rparr>)"
  by (simp_all add: ns_static_def rb_consts flag_simps)

text \<open>
  As long as part of the storage is not on loan, items may be returned in any order: the free
  pointer passes the returned items at the front, the others stay on loan.
\<close>

lemma ns_return:
  assumes inv: "ns_inv rb (pre @ BItem xs False # post) rs"
    and part: "csize (xSize rb) (pucFree rb) (pre @ BItem xs False # post) < xSize rb"
  shows "\<exists>rb'. prvReturnItemDefault rb (int (cend (xSize rb) (pucFree rb) pre + 8)) = Some rb' \<and>
     ns_inv rb' (dropWhile item_freed (pre @ BItem xs True # post)) rs \<and> xSize rb' = xSize rb"
proof -
  let ?S = "xSize rb" and ?F = "pucFree rb" and ?mx = "xMaxItemSize rb"
  let ?p = "cend ?S ?F pre" and ?ls = "pre @ BItem xs True # post"
  let ?tw = "takeWhile item_freed ?ls" and ?dw = "dropWhile item_freed ?ls"
  have st: "ns_static rb" using inv by (simp add: ns_inv_def)
  note d = ns_staticD [OF st]
  obtain h m where m: "read_hdr ?p (storage rb) = Some h" "xItemLen h \<le> ?mx"
    "\<not> bit (uxItemFlags h) 1" "\<not> bit (uxItemFlags h) 0" "4 dvd ?p" "?p + 8 \<le> ?S"
    "write_hdr ?p (h\<lparr>uxItemFlags := set_flag (clr_flag (uxItemFlags h) 4) 1\<rparr>) (storage rb) = Some m"
    "length m = ?S" "chain m ?mx ?F (?ls @ rs) (pucAcquire rb)"
    "csize ?S ?F (?ls @ rs) = csize ?S ?F ((pre @ BItem xs False # post) @ rs)"
    "cend ?S ?F ?ls = pucRead rb"
    using ns_mark [OF inv] by blast
  let ?F' = "cend ?S ?F ?tw"
  let ?t = "csize ?S ?F (?ls @ rs)" and ?t' = "csize ?S ?F' (?dw @ rs)"
  have F: "posn ?S ?F" using ns_posns(1) [OF inv] .
  have t: "?t \<le> ?S" "rb_full rb \<longleftrightarrow> ?t = ?S" using inv m(10) by (auto simp: ns_inv_def)
  have part': "csize ?S ?F ?ls < ?S"
    using part m(10) csize_append [of ?S ?F ?ls rs, unfolded m(11)]
      csize_append [of ?S ?F "pre @ BItem xs False # post" rs, folded ns_cends(1) [OF inv]] by linarith
  have "\<exists>m'. advance_free (rb\<lparr>storage := m\<rparr>) = Some ((rb\<lparr>storage := m\<rparr>)\<lparr>storage := m', pucFree := ?F'\<rparr>) \<and>
      length m' = ?S \<and> chain m' ?mx ?F' (?dw @ rs) (pucAcquire rb)"
    using advance_free_chain [of "rb\<lparr>storage := m\<rparr>" ?ls rs] st F m(8,9,11) t part'
    by (simp add: ns_static_def)
  then obtain m' where m': "advance_free (rb\<lparr>storage := m\<rparr>) = Some (rb\<lparr>storage := m', pucFree := ?F'\<rparr>)"
    "length m' = ?S" "chain m' ?mx ?F' (?dw @ rs) (pucAcquire rb)" by auto
  let ?rb1 = "rb\<lparr>storage := m', pucFree := ?F'\<rparr>"
  have spl: "?t = csize ?S ?F ?tw + ?t'"
    using csize_append [of ?S ?F ?tw "?dw @ rs"] by (simp only: append_assoc [symmetric] takeWhile_dropWhile_id)
  have R: "pucRead rb = cend ?S ?F' ?dw"
    using cend_append [of ?S ?F ?tw ?dw] m(11) by (simp only: takeWhile_dropWhile_id)
  have ctw: "chain m ?mx ?F ?tw ?F'"
  proof -
    have "chain m ?mx ?F (?tw @ (?dw @ rs)) (pucAcquire rb)"
      using m(9) by (simp only: append_assoc [symmetric] takeWhile_dropWhile_id)
    then show ?thesis unfolding chain_append m(8) by simp
  qed
  have F': "posn ?S ?F'" using chain_posn [OF ctw] F m(8) d by simp
  have A: "pucAcquire rb = (?F' + ?t') mod ?S"
    using chain_mod [OF m'(3)] m'(2) F' by (simp add: posn_def)
  have fl: "(?F' \<noteq> pucAcquire rb \<or> ?F' = pucRead rb) = (?t' < ?S)" if "rb_full rb"
  proof (cases "?t' = ?S")
    case True
    have "?tw = []" using True spl t csize_0 [OF ctw] m(8) by simp
    then have "?F' = ?F" by simp
    moreover have "?F \<noteq> pucRead rb"
    proof -
      have "chain m ?mx ?F ?ls (pucRead rb)"
        using iffD1 [OF chain_append, OF m(9)] unfolding m(8,11) by blast
      then have "pucRead rb = (?F + csize ?S ?F ?ls) mod ?S" "0 < csize ?S ?F ?ls"
        using chain_mod [of m ?mx ?F ?ls] csize_0 [of m ?mx ?F ?ls] F m(8) by (auto simp: posn_def)
      then show ?thesis using wrap_eq_iff [of ?F ?S "csize ?S ?F ?ls"] F part' by (auto simp: posn_def)
    qed
    moreover have "pucAcquire rb = ?F'" using A True F' by (simp add: posn_def)
    ultimately show ?thesis using True by simp
  next
    case False
    have lt: "?t' < ?S" using False spl t by linarith
    have "?F' = pucRead rb" if "?F' = pucAcquire rb"
    proof -
      have "?t' = 0" using that A wrap_eq_iff [of ?F' ?S ?t'] F' lt by (cases ?t') (auto simp: posn_def)
      then have "?dw @ rs = []" using csize_0 [OF m'(3)] unfolding m'(2) by blast
      then have dw: "?dw = []" by (simp only: append_is_Nil_conv)
      show ?thesis using R unfolding dw cend.simps by (rule sym)
    qed
    then show ?thesis using lt by auto
  qed
  define rb' where "rb' = (if rb_full ?rb1 \<and> (pucFree ?rb1 \<noteq> pucAcquire ?rb1 \<or>
            pucFree ?rb1 = pucAcquire ?rb1 \<and> pucFree ?rb1 = pucRead ?rb1)
        then ?rb1\<lparr>uxRingbufferFlags := clr_flag (uxRingbufferFlags ?rb1) rbBUFFER_FULL_FLAG\<rparr>
        else ?rb1)"
  have "prvReturnItemDefault rb (int (?p + 8)) = Some rb'"
    unfolding rb'_def using return_eval [OF m(1-6) d(6,5) m(7) m'(1)] by simp
  moreover have "ns_inv rb' ?dw rs"
  proof -
    have "rb_full rb' \<longleftrightarrow> ?t' = ?S"
      using fl t spl unfolding rb'_def by (auto simp: rb_consts flag_simps)
    moreover have "ns_static rb'" using st m'(2) unfolding rb'_def by (simp add: ns_static_def rb_consts flag_simps)
    moreover have "chain m' ?mx ?F' ?dw (pucRead rb)" "chain m' ?mx (pucRead rb) rs (pucAcquire rb)"
      using m'(2,3) R by (simp_all add: chain_append)
    ultimately show ?thesis using F' t spl inv unfolding ns_inv_def rb'_def by auto
  qed
  moreover have "xSize rb' = ?S" by (simp add: rb'_def)
  ultimately show ?thesis by blast
qed

text \<open>
  When the whole storage is on loan the code makes no such distinction: handing back any one
  item leaves the buffer empty, with the storage of the other items free to be written again.
\<close>

lemma ns_return_full:
  assumes inv: "ns_inv rb (pre @ BItem xs False # post) rs"
    and full: "csize (xSize rb) (pucFree rb) (pre @ BItem xs False # post) = xSize rb"
  shows "\<exists>rb'. prvReturnItemDefault rb (int (cend (xSize rb) (pucFree rb) pre + 8)) = Some rb' \<and>
     ns_inv rb' [] [] \<and> xSize rb' = xSize rb"
proof -
  let ?S = "xSize rb" and ?F = "pucFree rb" and ?mx = "xMaxItemSize rb"
  let ?p = "cend ?S ?F pre" and ?ls = "pre @ BItem xs False # post"
  have st: "ns_static rb" using inv by (simp add: ns_inv_def)
  note d = ns_staticD [OF st]
  obtain h m where m: "read_hdr ?p (storage rb) = Some h" "xItemLen h \<le> ?mx"
    "\<not> bit (uxItemFlags h) 1" "\<not> bit (uxItemFlags h) 0" "4 dvd ?p" "?p + 8 \<le> ?S"
    "write_hdr ?p (h\<lparr>uxItemFlags := set_flag (clr_flag (uxItemFlags h) 4) 1\<rparr>) (storage rb) = Some m"
    "length m = ?S"
    using ns_mark [OF inv] by blast
  have F: "posn ?S ?F" "?F < ?S" using ns_posns(1) [OF inv] by (auto simp: posn_def)
  have c: "chain (storage rb) ?mx ?F ?ls (pucRead rb)" "chain (storage rb) ?mx (pucRead rb) rs (pucAcquire rb)"
    using inv by (auto simp: ns_inv_def)
  have R: "pucRead rb = ?F" using chain_mod [OF c(1)] full F d(7) by simp
  have "csize ?S (pucRead rb) rs = 0" using ns_csize_split [OF inv] full inv by (simp add: ns_inv_def)
  then have rs: "rs = []" using csize_0 [OF c(2)] d(7) by simp
  then have A: "pucAcquire rb = ?F" using c(2) R by simp
  have fl: "rb_full rb" using inv rs full by (simp add: ns_inv_def)
  obtain h' where "read_hdr ?F m = Some h'" using posn_read [of m ?F] F(1) m(8) by auto
  then have "advance_free (rb\<lparr>storage := m\<rparr>) = Some (rb\<lparr>storage := m\<rparr>)"
    by (intro advance_free_stop) (use R in auto)
  then have ret: "prvReturnItemDefault rb (int (?p + 8)) = Some
      (rb\<lparr>storage := m, uxRingbufferFlags := clr_flag (uxRingbufferFlags rb) rbBUFFER_FULL_FLAG\<rparr>)"
    (is "_ = Some ?rb'") using return_eval [OF m(1-6) d(6,5) m(7)] fl R A by simp
  have "ns_inv ?rb' [] []"
    using inv rs R A m(8) F d(2) by (auto simp: ns_inv_def ns_static_def rb_consts flag_simps)
  then show ?thesis using ret by simp
qed

subsection \<open>The waiting items, read off the storage\<close>

fun ns_walk :: "byte list \<Rightarrow> nat \<Rightarrow> nat \<Rightarrow> byte list list" where
  "ns_walk m 0 p = []"
| "ns_walk m (Suc k) p =
     (case read_hdr p m of None \<Rightarrow> [] | Some h0 \<Rightarrow>
        let q = (if bit (uxItemFlags h0) 1 then 0 else p) in
        case read_hdr q m of None \<Rightarrow> [] | Some h \<Rightarrow>
          (case load_bytes (q + 8) (xItemLen h) m of None \<Rightarrow> [] | Some xs \<Rightarrow>
             xs # ns_walk m k (nxt (length m) q (BItem xs False))))"

definition ns_queue :: "Ringbuffer_t \<Rightarrow> byte list list" where
  "ns_queue rb = ns_walk (storage rb) (nat (xItemsWaiting rb)) (pucRead rb)"

lemma ns_walk_item:
  assumes "blk_at m mx p (BItem xs fr)"
  shows "ns_walk m (Suc k) p = xs # ns_walk m k (nxt (length m) p (BItem xs fr))"
  using assms by (auto simp: nxt_def)

lemma ns_walk_dummy:
  assumes "blk_at m mx p BDummy" "blk_at m mx 0 (BItem xs fr)"
  shows "ns_walk m (Suc k) p = ns_walk m (Suc k) 0"
  using assms by auto

lemma ns_walk_chain:
  assumes "chain m mx p bs q" "p < length m" "csize (length m) p bs \<le> length m"
  shows "ns_walk m (length (items_of bs)) p = items_of bs"
  using assms
proof (induction bs arbitrary: p)
  case Nil
  then show ?case by simp
next
  case (Cons b bs)
  let ?n = "nxt (length m) p b"
  have b: "blk_at m mx p b" and c: "chain m mx ?n bs q" using Cons.prems(1) by auto
  have IH: "ns_walk m (length (items_of bs)) ?n = items_of bs"
    using Cons.IH [OF c nxt_less [OF b]] Cons.prems(3) by simp
  show ?case
  proof (cases b)
    case (BItem xs fr)
    then show ?thesis using ns_walk_item b IH by simp
  next
    case BDummy
    then have n0: "?n = 0" using Cons.prems(2) by (simp add: nxt_def)
    show ?thesis
    proof (cases bs)
      case (Cons b2 bs2)
      have "b2 \<noteq> BDummy" using Cons.prems(2,3) BDummy n0 Cons by auto
      then obtain xs fr where b2: "b2 = BItem xs fr" by (cases b2) auto
      have "blk_at m mx 0 (BItem xs fr)" using c n0 Cons b2 by simp
      then have "ns_walk m (Suc k) p = ns_walk m (Suc k) 0" for k
        using b BDummy by (intro ns_walk_dummy) auto
      then show ?thesis using IH n0 BDummy Cons b2 by (simp del: ns_walk.simps(2))
    qed (use BDummy in simp)
  qed
qed

lemma ns_queue_items:
  assumes inv: "ns_inv rb ls rs"
  shows "ns_queue rb = items_of rs"
proof -
  have "length (storage rb) = xSize rb" using inv by (simp add: ns_inv_def ns_static_def)
  then have "ns_walk (storage rb) (length (items_of rs)) (pucRead rb) = items_of rs"
    using inv ns_csize_split [OF inv] ns_posns(2) [OF inv]
    by (intro ns_walk_chain) (auto simp: ns_inv_def posn_def)
  then show ?thesis using inv by (simp add: ns_queue_def ns_inv_def)
qed

subsection \<open>The public functions as a channel\<close>

lemma ns_task_lists [simp]:
  "ns_inv (rb\<lparr>xTasksWaitingToReceive := ts\<rparr>) = ns_inv rb"
  "ns_inv (rb\<lparr>xTasksWaitingToSend := ts\<rparr>) = ns_inv rb"
  by (simp_all add: ns_inv_def ns_static_def fun_eq_iff)

lemma ns_send_api:
  assumes inv: "ns_inv rb ls rs"
  shows "\<exists>r rb' bs. xRingbufferSendFromISR rb (Some xs) (length xs) = Some (r, rb') \<and>
     ns_inv rb' ls (rs @ bs) \<and> items_of bs = (if sendOk r then [xs] else []) \<and>
     (sendOk r \<longleftrightarrow> length xs \<le> xMaxItemSize rb \<and> csize (xSize rb) (pucFree rb) (ls @ rs) +
        csize (xSize rb) (pucAcquire rb) (place (xSize rb) (pucAcquire rb) xs) \<le> xSize rb)"
proof -
  let ?fit = "csize (xSize rb) (pucFree rb) (ls @ rs) +
        csize (xSize rb) (pucAcquire rb) (place (xSize rb) (pucAcquire rb) xs) \<le> xSize rb"
  have st: "ns_static rb" using inv by (simp add: ns_inv_def)
  note d = ns_staticD [OF st]
  consider "xMaxItemSize rb < length xs" | "length xs \<le> xMaxItemSize rb" "\<not> ?fit"
    | "length xs \<le> xMaxItemSize rb" ?fit by linarith
  then show ?thesis
  proof cases
    case 1
    then show ?thesis using inv
      by (auto simp: xRingbufferSendFromISR_def send_failed_def intro!: exI [of _ "[]"])
  next
    case 2
    then show ?thesis using inv d ns_fits [OF inv 2(1)]
      by (auto simp: xRingbufferSendFromISR_def xCheckItemFits_def send_failed_def intro!: exI [of _ "[]"])
  next
    case 3
    obtain rb1 where rb1: "prvCopyItemNoSplit rb xs (length xs) = Some rb1"
      "ns_inv rb1 ls (rs @ place (xSize rb) (pucAcquire rb) xs)" using ns_send [OF inv 3] by blast
    obtain ts where w: "snd (wake_receiver rb1) = rb1\<lparr>xTasksWaitingToReceive := ts\<rparr>"
      "sendOk (fst (wake_receiver rb1))" by (rule wake_receiver_cases)
    have "xRingbufferSendFromISR rb (Some xs) (length xs) = Some (wake_receiver rb1)"
      using 3 rb1(1) d ns_fits [OF inv 3(1)]
      by (simp add: xRingbufferSendFromISR_def xCheckItemFits_def vCopyItem_def)
    then show ?thesis using 3 rb1(2) w
      by (intro exI [of _ "fst (wake_receiver rb1)"] exI [of _ "snd (wake_receiver rb1)"]
          exI [of _ "place (xSize rb) (pucAcquire rb) xs"]) (simp add: prod_eq_iff)
  qed
qed

text \<open>A client that copies each item out and hands it back at once.\<close>

definition ns_client_send :: "byte list \<Rightarrow> Ringbuffer_t \<Rightarrow> (bool \<times> Ringbuffer_t) option" where
  "ns_client_send xs rb =
     map_option (\<lambda>(r, rb1). (sendOk r, rb1)) (xRingbufferSendFromISR rb (Some xs) (length xs))"

definition ns_client_recv :: "nat \<Rightarrow> Ringbuffer_t \<Rightarrow> (byte list list \<times> Ringbuffer_t) option" where
  "ns_client_recv n rb = do {
     (got, rb1) \<leftarrow> xRingbufferReceiveFromISR rb;
     (case got of
        None \<Rightarrow> Some ([], rb1)
      | Some it \<Rightarrow> do {
          xs \<leftarrow> load_bytes (gotPtr it) (gotSize it) (storage rb1);
          (_, rb2) \<leftarrow> vRingbufferReturnItem rb1 (int (gotPtr it));
          Some ([xs], rb2) }) }"

definition ns_idle :: "Ringbuffer_t \<Rightarrow> bool" where
  "ns_idle rb \<longleftrightarrow> (\<exists>rs. ns_inv rb [] rs)"

lemma ns_return_only:
  assumes inv: "ns_inv rb (pre @ [BItem xs False]) rs" and pre: "pre \<in> {[], [BDummy]}"
  shows "\<exists>t rb'. vRingbufferReturnItem rb (int (cend (xSize rb) (pucFree rb) pre + 8)) = Some (t, rb') \<and>
     ns_inv rb' [] rs"
proof -
  let ?p = "int (cend (xSize rb) (pucFree rb) pre + 8)"
  have ops: "rbOps rb = RINGBUF_TYPE_NOSPLIT" using inv by (simp add: ns_inv_def ns_static_def)
  have le: "csize (xSize rb) (pucFree rb) (pre @ [BItem xs False]) \<le> xSize rb"
    using inv ns_csize_split [OF inv] by (simp add: ns_inv_def)
  have "\<exists>rb'. prvReturnItemDefault rb ?p = Some rb' \<and> ns_inv rb' [] rs"
  proof (cases "csize (xSize rb) (pucFree rb) (pre @ [BItem xs False]) = xSize rb")
    case True
    have "csize (xSize rb) (pucRead rb) rs = 0" using True inv ns_csize_split [OF inv] by (simp add: ns_inv_def)
    then have "rs = []"
      using csize_0 [of "storage rb" "xMaxItemSize rb" "pucRead rb" rs] inv by (auto simp: ns_inv_def ns_static_def)
    then show ?thesis using ns_return_full [of rb pre xs "[]" rs] inv True by auto
  next
    case False
    have "dropWhile item_freed (pre @ [BItem xs True]) = []" using pre by auto
    then show ?thesis using ns_return [of rb pre xs "[]" rs] inv le False by force
  qed
  then obtain rb' where "prvReturnItemDefault rb ?p = Some rb'" "ns_inv rb' [] rs" by blast
  then show ?thesis using ops
    by (auto simp: vRingbufferReturnItem_def vReturnItem_def split: list.splits)
qed

lemma ns_client_recv_law:
  assumes inv: "ns_inv rb [] rs"
  shows "\<exists>got rb' rs'. ns_client_recv n rb = Some (got, rb') \<and> ns_inv rb' [] rs' \<and>
     items_of rs = got @ items_of rs' \<and> (items_of rs \<noteq> [] \<longrightarrow> got \<noteq> [])"
proof (cases "items_of rs")
  case Nil
  then show ?thesis using inv ns_avail [OF inv]
    by (auto simp: ns_client_recv_def xRingbufferReceiveFromISR_def prvReceiveGenericFromISR_def
        recv_failed_def)
next
  case (Cons xs q)
  have st: "ns_static rb" using inv by (simp add: ns_inv_def)
  note d = ns_staticD [OF st]
  obtain pre rs' it rb1 where g: "pre \<in> {[], [BDummy]}" "prvGetItemDefault rb = Some (it, rb1)"
    "ns_inv rb1 (pre @ [BItem xs False]) rs'" "gotPtr it = cend (xSize rb) (pucFree rb) pre + 8"
    "\<not> gotSplit it" "load_bytes (gotPtr it) (gotSize it) (storage rb1) = Some xs"
    "items_of rs' = q" "pucFree rb1 = pucFree rb" "xSize rb1 = xSize rb"
    "\<not> flag_set (uxRingbufferFlags rb1) rbALLOW_SPLIT_FLAG"
    using ns_get [OF inv Cons] unfolding append_Nil by (elim exE conjE) (rule that)
  obtain t rb2 where r: "vRingbufferReturnItem rb1 (int (gotPtr it)) = Some (t, rb2)" "ns_inv rb2 [] rs'"
    using ns_return_only [OF g(3,1)] g(4,8,9) by auto
  have "xRingbufferReceiveFromISR rb = Some (Some it, rb1)"
    using g(2,10) d Cons ns_avail [OF inv]
    by (simp add: xRingbufferReceiveFromISR_def prvReceiveGenericFromISR_def receive_now_def pvGetItem_def)
  then show ?thesis using g(6,7) r Cons by (auto simp: ns_client_recv_def)
qed

interpretation nosplit: channel ns_idle ns_queue "\<lambda>_. True" "\<lambda>xs. [xs]" ns_client_send ns_client_recv
proof
  fix rb :: Ringbuffer_t and xs :: "byte list"
  assume "ns_idle rb"
  then obtain rs where inv: "ns_inv rb [] rs" by (auto simp: ns_idle_def)
  then obtain r rb' bs where s: "xRingbufferSendFromISR rb (Some xs) (length xs) = Some (r, rb')"
    "ns_inv rb' [] (rs @ bs)" "items_of bs = (if sendOk r then [xs] else [])"
    using ns_send_api [of rb "[]" rs xs] by blast
  then show "\<exists>ok rb'. ns_client_send xs rb = Some (ok, rb') \<and> ns_idle rb' \<and>
      ns_queue rb' = ns_queue rb @ (if ok then [xs] else [])"
    using ns_queue_items [OF inv] ns_queue_items [OF s(2)]
    by (auto simp: ns_client_send_def ns_idle_def)
next
  fix rb :: Ringbuffer_t and n :: nat
  assume "ns_idle rb"
  then obtain rs where inv: "ns_inv rb [] rs" by (auto simp: ns_idle_def)
  obtain got rb' rs' where r: "ns_client_recv n rb = Some (got, rb')" "ns_inv rb' [] rs'"
    "items_of rs = got @ items_of rs'" "items_of rs \<noteq> [] \<longrightarrow> got \<noteq> []"
    using ns_client_recv_law [OF inv, of n] by blast
  then show "\<exists>got rb'. ns_client_recv n rb = Some (got, rb') \<and> ns_idle rb' \<and>
      ns_queue rb = got @ ns_queue rb' \<and> (0 < n \<longrightarrow> ns_queue rb \<noteq> [] \<longrightarrow> got \<noteq> [])"
    using ns_queue_items [OF inv] ns_queue_items [OF r(2)] by (auto simp: ns_idle_def)
qed

lemma ns_init:
  assumes "16 \<le> n" "4 dvd n" "n < 2 ^ 31" "length st = n" "4 dvd a"
  shows "ns_inv (prvInitializeNewRingbuffer n RINGBUF_TYPE_NOSPLIT a st) [] []"
proof -
  have "al (n div 2) < n div 2 + 4" "8 \<le> al (n div 2)"
    using al_bounds(1,2) [of "n div 2"] assms(1) by auto
  then show ?thesis using assms
    by (auto simp: prvInitializeNewRingbuffer_def ns_inv_def ns_static_def posn_def rb_consts
        flag_simps rbALIGN_SIZE_al rbHEADER_SIZE_def sz_sub_exact)
qed

end
