(* ===== verification/Ringbuf_Spec.thy ===== *)
theory Ringbuf_Spec
  imports Ringbuf_Byte Ringbuf_NoSplit
begin

section \<open>Properties of the ring buffer\<close>

text \<open>
  What a client of \<open>esp_ringbuf/ringbuf.c\<close> can rely on, for byte buffers and no-split
  buffers: the refinement of a queue over any sequence of calls, the exact acceptance
  condition of a send, returning items in any order, and the traces that show where the code
  departs from its documentation.
\<close>

text \<open>
  Claim C1. Byte buffers. Create a byte buffer of any size and let a client send chunks and receive
  up to \<open>n\<close> bytes at a time (handing each chunk back), in any order. No call stops, and the
  bytes of the accepted sends are exactly the bytes received so far followed by the bytes
  still in the buffer: nothing is lost, duplicated, reordered or changed.
\<close>

theorem byte_buffer_fifo:
  assumes "0 < n" and "n < 2 ^ 31" and "length st = n"
  shows "\<exists>sent received rb'.
     chan_run bb_client_send bb_client_recv (\<lambda>xs. xs) ops
       (prvInitializeNewRingbuffer n RINGBUF_TYPE_BYTEBUF a st) = Some (sent, received, rb') \<and>
     bb_inv rb' \<and> sent = received @ bb_queue rb'"
proof -
  have "bytebuf.valid_ops ops" by (auto simp: bytebuf.valid_ops_def split: chan_op.splits)
  from bytebuf.run_conserves [OF conjI [OF bb_init(1,2) [OF assms]] this, of a]
  show ?thesis unfolding bb_init(3) [OF assms] by auto
qed

theorem byte_buffer_fifo_witness:
  "\<exists>sent received rb'.
     chan_run bb_client_send bb_client_recv (\<lambda>xs. xs) [Send [1, 2, 3], Send [4, 5], Recv 2, Send [6], Recv 9]
       (prvInitializeNewRingbuffer 4 RINGBUF_TYPE_BYTEBUF 0 [0, 0, 0, 0]) = Some (sent, received, rb') \<and>
     bb_inv rb' \<and> sent = received @ bb_queue rb'"
  by (rule byte_buffer_fifo) simp_all

text \<open>
  Claim C2. No-split buffers. Create a no-split buffer (a multiple of four bytes, at least sixteen)
  and let a client send items and receive items (handing each back), in any order. No call
  stops, and the accepted items are exactly the received items followed by the items waiting:
  no item is lost, duplicated, reordered, cut or changed, whatever the wrap-around, the dummy
  blocks and the alignment padding.
\<close>

theorem no_split_fifo:
  assumes "16 \<le> n" and "4 dvd n" and "n < 2 ^ 31" and "length st = n" and "4 dvd a"
  shows "\<exists>sent received rb'.
     chan_run ns_client_send ns_client_recv (\<lambda>xs. [xs]) ops
       (prvInitializeNewRingbuffer n RINGBUF_TYPE_NOSPLIT a st) = Some (sent, received, rb') \<and>
     sent = received @ ns_queue rb'"
proof -
  let ?rb = "prvInitializeNewRingbuffer n RINGBUF_TYPE_NOSPLIT a st"
  have i: "ns_inv ?rb [] []" using ns_init [OF assms] .
  then have "ns_idle ?rb" "ns_queue ?rb = []" using ns_queue_items [OF i] by (auto simp: ns_idle_def)
  moreover have "nosplit.valid_ops ops" by (auto simp: nosplit.valid_ops_def split: chan_op.splits)
  ultimately show ?thesis using nosplit.run_conserves [of ?rb ops] by auto
qed

theorem no_split_fifo_witness:
  "\<exists>sent received rb'.
     chan_run ns_client_send ns_client_recv (\<lambda>xs. [xs])
       [Send [1, 2, 3], Send [4, 5], Recv 1, Send [], Send [6], Recv 1]
       (prvInitializeNewRingbuffer 32 RINGBUF_TYPE_NOSPLIT 0 (replicate 32 0)) = Some (sent, received, rb') \<and>
     sent = received @ ns_queue rb'"
  by (rule no_split_fifo) simp_all

text \<open>
  Draining. From any state of a no-split buffer with nothing on loan, receiving once per
  waiting item delivers exactly the waiting items in order and leaves the buffer empty: an
  accepted item is always eventually delivered.
\<close>

theorem no_split_drain:
  assumes "ns_idle rb"
  shows "\<exists>rb'. chan_run ns_client_send ns_client_recv (\<lambda>xs. [xs])
       (replicate (length (ns_queue rb)) (Recv 1)) rb = Some ([], ns_queue rb, rb') \<and>
     ns_idle rb' \<and> ns_queue rb' = []"
  by (rule nosplit.drain [OF assms]) simp_all

theorem no_split_drain_witness:
  "\<exists>rb'. chan_run ns_client_send ns_client_recv (\<lambda>xs. [xs])
       (replicate (length (ns_queue (prvInitializeNewRingbuffer 16 RINGBUF_TYPE_NOSPLIT 0 (replicate 16 0)))) (Recv 1))
       (prvInitializeNewRingbuffer 16 RINGBUF_TYPE_NOSPLIT 0 (replicate 16 0)) =
         Some ([], ns_queue (prvInitializeNewRingbuffer 16 RINGBUF_TYPE_NOSPLIT 0 (replicate 16 0)), rb') \<and>
     ns_idle rb' \<and> ns_queue rb' = []"
proof (rule no_split_drain)
  show "ns_idle (prvInitializeNewRingbuffer 16 RINGBUF_TYPE_NOSPLIT 0 (replicate 16 0))"
    using ns_init [of 16 "replicate 16 0" 0] by (auto simp: ns_idle_def)
qed

text \<open>
  A send to a byte buffer from an interrupt is accepted exactly when the bytes on loan,
  the bytes waiting and the new bytes fit the storage; a refused send leaves the waiting bytes
  and the bytes on loan as they were, an accepted one appends its bytes and does not touch the
  bytes on loan.
\<close>

theorem byte_buffer_send_exact:
  assumes "bb_inv rb"
  shows "\<exists>r rb'. xRingbufferSendFromISR rb (Some xs) (length xs) = Some (r, rb') \<and> bb_inv rb' \<and>
     (sendOk r \<longleftrightarrow> bb_held rb + bb_unread rb + length xs \<le> xSize rb) \<and>
     bb_queue rb' = bb_queue rb @ (if sendOk r then xs else []) \<and> bb_loan rb' = bb_loan rb"
  using bb_send_api [OF assms] .

theorem byte_buffer_send_exact_witness:
  "\<exists>r rb'. xRingbufferSendFromISR (prvInitializeNewRingbuffer 4 RINGBUF_TYPE_BYTEBUF 0 [0, 0, 0, 0])
       (Some [1, 2, 3]) (length [1, 2, 3 :: byte]) = Some (r, rb') \<and> bb_inv rb' \<and>
     (sendOk r \<longleftrightarrow> bb_held (prvInitializeNewRingbuffer 4 RINGBUF_TYPE_BYTEBUF 0 [0, 0, 0, 0]) +
        bb_unread (prvInitializeNewRingbuffer 4 RINGBUF_TYPE_BYTEBUF 0 [0, 0, 0, 0]) + length [1, 2, 3 :: byte]
        \<le> xSize (prvInitializeNewRingbuffer 4 RINGBUF_TYPE_BYTEBUF 0 [0, 0, 0, 0])) \<and>
     bb_queue rb' = bb_queue (prvInitializeNewRingbuffer 4 RINGBUF_TYPE_BYTEBUF 0 [0, 0, 0, 0]) @
        (if sendOk r then [1, 2, 3] else []) \<and>
     bb_loan rb' = bb_loan (prvInitializeNewRingbuffer 4 RINGBUF_TYPE_BYTEBUF 0 [0, 0, 0, 0])"
  by (rule byte_buffer_send_exact) (rule bb_init(1), simp_all)

definition loan_demo :: Ringbuffer_t where
  "loan_demo = (prvInitializeNewRingbuffer 32 RINGBUF_TYPE_NOSPLIT 0
     ([2, 0, 0, 0, 8, 0, 0, 0, 1, 2, 0, 0, 1, 0, 0, 0, 8, 0, 0, 0, 3, 0, 0, 0] @ replicate 8 0))
     \<lparr>pucRead := 24, pucWrite := 24, pucAcquire := 24\<rparr>"

lemma loan_demo_inv: "ns_inv loan_demo [BItem [1, 2] False, BItem [3] False] []"
  by (simp add: loan_demo_def ns_inv_def ns_static_def posn_def rb_eval nxt_def al_def
      prvInitializeNewRingbuffer_def replicate_numeral)

text \<open>
  Claim C3. Items of a no-split buffer may be handed back in any order while part of the storage is
  not on loan: returning the item in the middle of the items on loan never stops, keeps the
  waiting items, and the free pointer passes exactly the returned items at the front of the
  loan; the others stay on loan with their contents.
\<close>

theorem no_split_return_any_order:
  assumes "ns_inv rb (pre @ BItem xs False # post) rs"
    and "csize (xSize rb) (pucFree rb) (pre @ BItem xs False # post) < xSize rb"
  shows "\<exists>rb'. prvReturnItemDefault rb (int (cend (xSize rb) (pucFree rb) pre + 8)) = Some rb' \<and>
     ns_inv rb' (dropWhile item_freed (pre @ BItem xs True # post)) rs \<and> xSize rb' = xSize rb"
  using ns_return [OF assms] .

theorem no_split_return_any_order_witness:
  "\<exists>rb'. prvReturnItemDefault loan_demo
       (int (cend (xSize loan_demo) (pucFree loan_demo) [BItem [1, 2] False] + 8)) = Some rb' \<and>
     ns_inv rb' (dropWhile item_freed ([BItem [1, 2] False] @ BItem [3] True # [])) [] \<and>
     xSize rb' = xSize loan_demo"
proof (rule no_split_return_any_order)
  show "ns_inv loan_demo ([BItem [1, 2] False] @ BItem [3] False # []) []" using loan_demo_inv by simp
  show "csize (xSize loan_demo) (pucFree loan_demo) ([BItem [1, 2] False] @ BItem [3] False # [])
      < xSize loan_demo"
    by (simp add: loan_demo_def prvInitializeNewRingbuffer_def nxt_def al_def)
qed

text \<open>
  The maximum item size promised by \<open>xRingbufferGetMaxItemSize\<close>: whatever the positions of
  the pointers, an item of at most that size is always accepted by an empty no-split buffer.
\<close>

theorem no_split_max_item_fits:
  assumes "ns_inv rb [] []" and "length xs \<le> xRingbufferGetMaxItemSize rb"
  shows "\<exists>r rb'. xRingbufferSendFromISR rb (Some xs) (length xs) = Some (r, rb') \<and> sendOk r \<and>
     ns_queue rb' = [xs]"
proof -
  let ?S = "xSize rb" and ?A = "pucAcquire rb"
  have st: "ns_static rb" using assms(1) by (simp add: ns_inv_def)
  have n: "length xs \<le> xMaxItemSize rb" using assms(2) by (simp add: xRingbufferGetMaxItemSize_def)
  have p: "posn ?S ?A" using ns_posns(3) [OF assms(1)] .
  have "csize ?S ?A (place ?S ?A xs) \<le> ?S"
  proof (cases "?S < ?A + (al (length xs) + 8)")
    case True
    then have "al (length xs) + 8 \<le> ?A" using ns_max(4) [OF st n] p by (simp add: posn_def)
    with True p show ?thesis by (auto simp: place_def nxt_def posn_def)
  next
    case False
    with p show ?thesis by (auto simp: place_def posn_def)
  qed
  then show ?thesis
    using ns_send_api [OF assms(1), of xs] n ns_queue_items by fastforce
qed

theorem no_split_max_item_fits_witness:
  "\<exists>r rb'. xRingbufferSendFromISR (prvInitializeNewRingbuffer 16 RINGBUF_TYPE_NOSPLIT 0 (replicate 16 0))
       (Some []) (length ([] :: byte list)) = Some (r, rb') \<and> sendOk r \<and> ns_queue rb' = [[]]"
  by (rule no_split_max_item_fits) (rule ns_init, simp_all)

text \<open>
  When a no-split buffer is completely on loan, handing back any one of the items makes the
  whole storage free: the buffer is empty afterwards although the other items are still held by
  the application, and their storage may be written again.
\<close>

theorem no_split_full_loan_released:
  assumes "ns_inv rb (pre @ BItem xs False # post) rs"
    and "csize (xSize rb) (pucFree rb) (pre @ BItem xs False # post) = xSize rb"
  shows "\<exists>rb'. prvReturnItemDefault rb (int (cend (xSize rb) (pucFree rb) pre + 8)) = Some rb' \<and>
     ns_inv rb' [] [] \<and> xSize rb' = xSize rb"
  using ns_return_full [OF assms] .

definition full_loan_demo :: Ringbuffer_t where
  "full_loan_demo = (prvInitializeNewRingbuffer 32 RINGBUF_TYPE_NOSPLIT 0
     [8, 0, 0, 0, 8, 0, 0, 0, 1, 2, 3, 4, 5, 6, 7, 8, 8, 0, 0, 0, 8, 0, 0, 0, 11, 12, 13, 14, 15, 16, 17, 18])
     \<lparr>uxRingbufferFlags := 4\<rparr>"

theorem no_split_full_loan_released_witness:
  "\<exists>rb'. prvReturnItemDefault full_loan_demo
       (int (cend (xSize full_loan_demo) (pucFree full_loan_demo) [] + 8)) = Some rb' \<and>
     ns_inv rb' [] [] \<and> xSize rb' = xSize full_loan_demo"
proof (rule no_split_full_loan_released)
  show "ns_inv full_loan_demo
      ([] @ BItem [1, 2, 3, 4, 5, 6, 7, 8] False # [BItem [11, 12, 13, 14, 15, 16, 17, 18] False]) []"
    by (simp add: full_loan_demo_def ns_inv_def ns_static_def posn_def rb_eval nxt_def al_def
        prvInitializeNewRingbuffer_def replicate_numeral)
  show "csize (xSize full_loan_demo) (pucFree full_loan_demo)
      ([] @ BItem [1, 2, 3, 4, 5, 6, 7, 8] False # [BItem [11, 12, 13, 14, 15, 16, 17, 18] False]) =
      xSize full_loan_demo"
    by (simp add: full_loan_demo_def prvInitializeNewRingbuffer_def nxt_def al_def)
qed

text \<open>
  Completing acquired items out of order. Two acquisitions of 8 bytes fill a no-split buffer
  of 32 bytes. Completing only the second one makes an item available, and the item a receiver
  then gets is the first one, whose data the sender has not written yet (its header has no
  written flag).
\<close>

theorem no_split_uncommitted_item_received:
  "(do { (p1, rb1) \<leftarrow> prvAcquireItemNoSplit
             (prvInitializeNewRingbuffer 32 RINGBUF_TYPE_NOSPLIT 0 (replicate 32 0)) 8;
         (p2, rb2) \<leftarrow> prvAcquireItemNoSplit rb1 8;
         rb3 \<leftarrow> prvSendItemDoneNoSplit rb2 (int p2);
         h \<leftarrow> read_hdr (p1 - rbHEADER_SIZE) (storage rb3);
         (it, rb4) \<leftarrow> prvGetItemDefault rb3;
         Some (prvCheckItemAvail rb3, p1, p2, gotPtr it, flag_set (uxItemFlags h) rbITEM_WRITTEN_FLAG) })
   = Some (True, 8, 24, 8, False)"
  by (simp add: rb_eval rbHEADER_SIZE_def replicate_numeral)

text \<open>
  Receiving from an allow-split buffer with the functions that take no second item pointer
  writes through a null pointer as soon as an item is available: the call never returns.
\<close>

theorem allow_split_plain_receive_fails:
  assumes "rbOps rb = RINGBUF_TYPE_ALLOWSPLIT" and "flag_set (uxRingbufferFlags rb) rbALLOW_SPLIT_FLAG"
    and "\<not> flag_set (uxRingbufferFlags rb) rbBYTE_BUFFER_FLAG" and "prvCheckItemAvail rb"
  shows "xRingbufferReceiveFromISR rb = None"
proof -
  have "flag_set (uxRingbufferFlags rb1) rbALLOW_SPLIT_FLAG" if "prvGetItemDefault rb = Some (it, rb1)" for it rb1
    using that assms(2) by (auto simp: prvGetItemDefault_def Let_def split: if_splits option.splits bind_splits)
  then have "receive_now False rb 0 = None"
    using assms by (auto simp: receive_now_def pvGetItem_def split: bind_splits)
  then show ?thesis using assms
    by (simp add: xRingbufferReceiveFromISR_def prvReceiveGenericFromISR_def)
qed

theorem allow_split_plain_receive_fails_witness:
  "xRingbufferReceiveFromISR ((prvInitializeNewRingbuffer 32 RINGBUF_TYPE_ALLOWSPLIT 0 (replicate 32 0))
     \<lparr>xItemsWaiting := 1, pucWrite := 8, pucAcquire := 8\<rparr>) = None"
  by (rule allow_split_plain_receive_fails) (simp_all add: rb_eval)

text \<open>
  Buffers smaller than the overhead of one item. The maximum item size of an allow-split
  buffer below 16 bytes and of a no-split buffer of at most 8 bytes wraps around to almost
  \<open>2 ^ 32\<close>, so the size check of the send functions rejects nothing.
\<close>

theorem tiny_buffer_max_item_wraps:
  assumes "n < 16"
  shows "xMaxItemSize (prvInitializeNewRingbuffer n RINGBUF_TYPE_ALLOWSPLIT a st) = 2 ^ 32 - 16 + n \<and>
     (n = 4 \<or> n = 8 \<longrightarrow> xMaxItemSize (prvInitializeNewRingbuffer n RINGBUF_TYPE_NOSPLIT a st) = 2 ^ 32 - 4)"
proof -
  have "(int n - 16) mod 4294967296 = (int n - 16 + 4294967296) mod 4294967296"
    by (rule mod_add_self2 [symmetric])
  also have "\<dots> = int n - 16 + 4294967296" using assms by (intro mod_pos_pos_trivial) auto
  finally show ?thesis
    by (auto simp: prvInitializeNewRingbuffer_def rbHEADER_SIZE_def rbALIGN_SIZE_def sz_sub_def sz_add_def)
qed

theorem tiny_buffer_max_item_wraps_witness:
  "xMaxItemSize (prvInitializeNewRingbuffer 8 RINGBUF_TYPE_ALLOWSPLIT 0 (replicate 8 0)) = 4294967288 \<and>
   xMaxItemSize (prvInitializeNewRingbuffer 8 RINGBUF_TYPE_NOSPLIT 0 (replicate 8 0)) = 4294967292"
  using tiny_buffer_max_item_wraps [of 8 0 "replicate 8 0"] by simp

end
