(* ===== verification/Esp_Timer.thy ===== *)
theory Esp_Timer
  imports Prelude
begin

section \<open>High resolution timers: the operations of esp_timer\<close>

text \<open>
  Model of \<open>esp_timer/src/esp_timer.c\<close> (task and interrupt dispatch, no profiling) together
  with the alarm table of \<open>esp_timer_impl_common.c\<close> and the systimer back end
  \<open>esp_timer_impl_systimer.c\<close>. Timers live in a store from handles to structures; a handle
  that is not in the store, or a list operation on a timer that is already linked or is not
  linked, stops the run (\<open>None\<close>). Times are 64-bit words, compared unsigned as in the code.
  The clock reading of a call is its argument \<open>now\<close>; the processing loop takes the list of
  the readings it makes and is \<open>None\<close> when it would need more of them.
\<close>

subsection \<open>Data\<close>

type_synonym time = "64 word"
type_synonym handle = nat

definition UINT64_MAX :: time where "UINT64_MAX = 0xFFFFFFFFFFFFFFFF"
definition INT64_MAX :: time where "INT64_MAX = 0x7FFFFFFFFFFFFFFF"

definition EVENT_ID_DELETE_TIMER :: "32 word" where "EVENT_ID_DELETE_TIMER = 0xF0DE1E1E"

definition FL_ISR_DISPATCH_METHOD :: flags where "FL_ISR_DISPATCH_METHOD = 1"
definition FL_SKIP_UNHANDLED_EVENTS :: flags where "FL_SKIP_UNHANDLED_EVENTS = 2"

datatype esp_timer_dispatch_t = ESP_TIMER_TASK | ESP_TIMER_ISR

text \<open>\<open>callback\<close> is the union of the function address and the event id.\<close>

record esp_timer =
  alarm :: time
  period :: time
  tflags :: flags
  callback :: "32 word"
  arg :: nat

record timer_sys =
  store :: "handle \<Rightarrow> esp_timer option"
  s_timers :: "esp_timer_dispatch_t \<Rightarrow> handle list"
  timestamp_id :: "esp_timer_dispatch_t \<Rightarrow> time"
  hw_alarm :: time
  s_timer_task :: bool
  s_isr_dispatch_need_yield :: bool
  s_timer_interrupt_handle :: bool
  s_alarm_handler :: bool

record esp_timer_create_args_t =
  acallback :: "32 word"
  aarg :: nat
  adispatch_method :: int
  askip_unhandled_events :: bool

text \<open>The bit-field \<open>period:56\<close> keeps the low 56 bits.\<close>

definition period56 :: "time \<Rightarrow> time" where
  "period56 p = take_bit 56 p"

definition dispatch_of :: "esp_timer \<Rightarrow> esp_timer_dispatch_t" where
  "dispatch_of t = (if flag_set (tflags t) FL_ISR_DISPATCH_METHOD then ESP_TIMER_ISR else ESP_TIMER_TASK)"

definition alarm_of :: "timer_sys \<Rightarrow> handle \<Rightarrow> time" where
  "alarm_of st h = (case store st h of None \<Rightarrow> 0 | Some t \<Rightarrow> alarm t)"

definition put :: "handle \<Rightarrow> esp_timer \<Rightarrow> timer_sys \<Rightarrow> timer_sys" where
  "put h t st = st\<lparr>store := (store st)(h \<mapsto> t)\<rparr>"

definition set_list :: "esp_timer_dispatch_t \<Rightarrow> handle list \<Rightarrow> timer_sys \<Rightarrow> timer_sys" where
  "set_list d hs st = st\<lparr>s_timers := (s_timers st)(d := hs)\<rparr>"

subsection \<open>The alarm table and the hardware alarm\<close>

definition esp_timer_impl_set_alarm_id :: "time \<Rightarrow> esp_timer_dispatch_t \<Rightarrow> timer_sys \<Rightarrow> timer_sys" where
  "esp_timer_impl_set_alarm_id timestamp d st =
     (let ts = (timestamp_id st)(d := timestamp)
      in st\<lparr>timestamp_id := ts, hw_alarm := min (ts ESP_TIMER_TASK) (ts ESP_TIMER_ISR)\<rparr>)"

definition esp_timer_impl_set_alarm :: "time \<Rightarrow> timer_sys \<Rightarrow> timer_sys" where
  "esp_timer_impl_set_alarm timestamp = esp_timer_impl_set_alarm_id timestamp ESP_TIMER_TASK"

definition esp_timer_impl_try_to_set_next_alarm :: "timer_sys \<Rightarrow> timer_sys" where
  "esp_timer_impl_try_to_set_next_alarm st =
     (let (now_idx, next_idx) =
            (if timestamp_id st ESP_TIMER_TASK < timestamp_id st ESP_TIMER_ISR
             then (ESP_TIMER_TASK, ESP_TIMER_ISR) else (ESP_TIMER_ISR, ESP_TIMER_TASK))
      in if timestamp_id st next_idx \<noteq> UINT64_MAX
         then esp_timer_impl_set_alarm_id UINT64_MAX now_idx st
         else st\<lparr>timestamp_id := (timestamp_id st)(now_idx := UINT64_MAX)\<rparr>)"

definition esp_timer_impl_get_min_period_us :: time where
  "esp_timer_impl_get_min_period_us = 50"

subsection \<open>The sorted list of armed timers\<close>

definition timer_armed :: "esp_timer \<Rightarrow> bool" where
  "timer_armed t \<longleftrightarrow> alarm t > 0"

text \<open>The list walk: in front of the first timer with a later alarm, else at the end.\<close>

fun timer_link :: "(handle \<Rightarrow> time) \<Rightarrow> handle \<Rightarrow> handle list \<Rightarrow> handle list" where
  "timer_link al h [] = [h]"
| "timer_link al h (i # is) = (if al h < al i then h # i # is else i # timer_link al h is)"

definition timer_insert :: "handle \<Rightarrow> bool \<Rightarrow> timer_sys \<Rightarrow> timer_sys option" where
  "timer_insert h without_update_alarm st = do {
     t \<leftarrow> store st h;
     let d = dispatch_of t;
     configASSERT (h \<notin> set (s_timers st ESP_TIMER_TASK) \<and> h \<notin> set (s_timers st ESP_TIMER_ISR));
     let st1 = set_list d (timer_link (alarm_of st) h (s_timers st d)) st;
     Some (if \<not> without_update_alarm \<and> hd (s_timers st1 d) = h
           then esp_timer_impl_set_alarm_id (alarm t) d st1 else st1) }"

definition timer_remove :: "handle \<Rightarrow> timer_sys \<Rightarrow> timer_sys option" where
  "timer_remove h st = do {
     t \<leftarrow> store st h;
     let d = dispatch_of t;
     configASSERT (h \<in> set (s_timers st d));
     let first_timer = hd (s_timers st d);
     let st1 = put h (t\<lparr>alarm := 0, period := 0\<rparr>) (set_list d (remove1 h (s_timers st d)) st);
     Some (if h = first_timer
           then esp_timer_impl_set_alarm_id
                  (case s_timers st1 d of [] \<Rightarrow> UINT64_MAX | f # _ \<Rightarrow> alarm_of st1 f) d st1
           else st1) }"

subsection \<open>Public operations\<close>

definition is_initialized :: "timer_sys \<Rightarrow> bool" where
  "is_initialized st = s_timer_task st"

text \<open>\<open>calloc\<close> is the handle the allocator returns, if any.\<close>

definition esp_timer_create ::
  "handle option \<Rightarrow> esp_timer_create_args_t option \<Rightarrow> bool \<Rightarrow> timer_sys \<Rightarrow>
   esp_err_t \<times> handle option \<times> timer_sys" where
  "esp_timer_create calloc args out_ok st =
     (if \<not> is_initialized st then (ESP_ERR_INVALID_STATE, None, st)
      else case args of
        None \<Rightarrow> (ESP_ERR_INVALID_ARG, None, st)
      | Some a \<Rightarrow>
          if acallback a = 0 \<or> \<not> out_ok \<or> adispatch_method a < 0 \<or> adispatch_method a \<ge> 2
          then (ESP_ERR_INVALID_ARG, None, st)
          else (case calloc of
                  None \<Rightarrow> (ESP_ERR_NO_MEM, None, st)
                | Some h \<Rightarrow>
                    (ESP_OK, Some h,
                     put h \<lparr>alarm = 0, period = 0,
                            tflags = set_flag
                              (if adispatch_method a \<noteq> 0 then FL_ISR_DISPATCH_METHOD else 0)
                              (if askip_unhandled_events a then FL_SKIP_UNHANDLED_EVENTS else 0),
                            callback = acallback a, arg = aarg a\<rparr> st)))"

definition esp_timer_restart ::
  "handle option \<Rightarrow> time \<Rightarrow> time \<Rightarrow> timer_sys \<Rightarrow> (esp_err_t \<times> timer_sys) option" where
  "esp_timer_restart timer timeout_us now st =
     (case timer of
        None \<Rightarrow> Some (ESP_ERR_INVALID_ARG, st)
      | Some h \<Rightarrow>
          if \<not> is_initialized st then Some (ESP_ERR_INVALID_STATE, st)
          else do {
            t \<leftarrow> store st h;
            if \<not> timer_armed t then Some (ESP_ERR_INVALID_STATE, st)
            else do {
              st1 \<leftarrow> timer_remove h st;
              t1 \<leftarrow> store st1 h;
              let t2 = (if period t \<noteq> 0
                        then let new_period = max timeout_us esp_timer_impl_get_min_period_us
                             in t1\<lparr>alarm := now + new_period, period := period56 new_period\<rparr>
                        else t1\<lparr>alarm := now + timeout_us, period := 0\<rparr>);
              st2 \<leftarrow> timer_insert h False (put h t2 st1);
              Some (ESP_OK, st2) } })"

definition esp_timer_start_once ::
  "handle option \<Rightarrow> time \<Rightarrow> time \<Rightarrow> timer_sys \<Rightarrow> (esp_err_t \<times> timer_sys) option" where
  "esp_timer_start_once timer timeout_us now st =
     (case timer of
        None \<Rightarrow> Some (ESP_ERR_INVALID_ARG, st)
      | Some h \<Rightarrow>
          if \<not> is_initialized st then Some (ESP_ERR_INVALID_STATE, st)
          else do {
            t \<leftarrow> store st h;
            if timer_armed t then Some (ESP_ERR_INVALID_STATE, st)
            else do {
              st1 \<leftarrow> timer_insert h False (put h (t\<lparr>alarm := now + timeout_us, period := 0\<rparr>) st);
              Some (ESP_OK, st1) } })"

definition esp_timer_start_periodic ::
  "handle option \<Rightarrow> time \<Rightarrow> time \<Rightarrow> timer_sys \<Rightarrow> (esp_err_t \<times> timer_sys) option" where
  "esp_timer_start_periodic timer period_us0 now st =
     (case timer of
        None \<Rightarrow> Some (ESP_ERR_INVALID_ARG, st)
      | Some h \<Rightarrow>
          if \<not> is_initialized st then Some (ESP_ERR_INVALID_STATE, st)
          else do {
            let period_us = max period_us0 esp_timer_impl_get_min_period_us;
            t \<leftarrow> store st h;
            if timer_armed t then Some (ESP_ERR_INVALID_STATE, st)
            else do {
              st1 \<leftarrow> timer_insert h False
                 (put h (t\<lparr>alarm := now + period_us, period := period56 period_us\<rparr>) st);
              Some (ESP_OK, st1) } })"

definition esp_timer_stop :: "handle option \<Rightarrow> timer_sys \<Rightarrow> (esp_err_t \<times> timer_sys) option" where
  "esp_timer_stop timer st =
     (case timer of
        None \<Rightarrow> Some (ESP_ERR_INVALID_ARG, st)
      | Some h \<Rightarrow>
          if \<not> is_initialized st then Some (ESP_ERR_INVALID_STATE, st)
          else do {
            t \<leftarrow> store st h;
            if \<not> timer_armed t then Some (ESP_ERR_INVALID_STATE, st)
            else do {
              st1 \<leftarrow> timer_remove h st;
              Some (ESP_OK, st1) } })"

definition esp_timer_delete ::
  "handle option \<Rightarrow> time \<Rightarrow> timer_sys \<Rightarrow> (esp_err_t \<times> timer_sys) option" where
  "esp_timer_delete timer now st =
     (case timer of
        None \<Rightarrow> Some (ESP_ERR_INVALID_ARG, st)
      | Some h \<Rightarrow> do {
          t \<leftarrow> store st h;
          if timer_armed t then Some (ESP_ERR_INVALID_STATE, st)
          else do {
            st1 \<leftarrow> timer_insert h False
               (put h (t\<lparr>tflags := clr_flag (tflags t) FL_ISR_DISPATCH_METHOD,
                         callback := EVENT_ID_DELETE_TIMER, alarm := now, period := 0\<rparr>) st);
            Some (ESP_OK, st1) } })"

subsection \<open>Processing due timers\<close>

definition skipped_events :: "time \<Rightarrow> esp_timer \<Rightarrow> int" where
  "skipped_events now t = sint (ucast ((now - alarm t) div period t) :: 32 word)"

definition rearm :: "time \<Rightarrow> esp_timer \<Rightarrow> esp_timer" where
  "rearm now t =
     (if flag_set (tflags t) FL_SKIP_UNHANDLED_EVENTS \<and> skipped_events now t > 1
      then t\<lparr>alarm := now + period t\<rparr> else t\<lparr>alarm := alarm t + period t\<rparr>)"

text \<open>
  One pass of the loop per clock reading. \<open>cb\<close> is the effect of a callback on the timers: it
  runs with the list unlocked and may call any public operation. The result is whether a timer
  was processed, and the first timer that is not due.
\<close>

fun process_loop ::
  "(32 word \<Rightarrow> nat \<Rightarrow> timer_sys \<Rightarrow> timer_sys) \<Rightarrow> esp_timer_dispatch_t \<Rightarrow> time list \<Rightarrow> bool \<Rightarrow>
   timer_sys \<Rightarrow> (bool \<times> handle option \<times> timer_sys) option" where
  "process_loop cb d [] processed st = None"
| "process_loop cb d (now # nows) processed st =
     (case s_timers st d of
        [] \<Rightarrow> Some (processed, None, st)
      | it # rest \<Rightarrow> do {
          t \<leftarrow> store st it;
          if alarm t > now then Some (processed, Some it, st)
          else
            let st1 = set_list d rest st
            in if callback t = EVENT_ID_DELETE_TIMER
               then process_loop cb d nows True (st1\<lparr>store := (store st1)(it := None)\<rparr>)
               else do {
                 st2 \<leftarrow> (if period t > 0 then timer_insert it True (put it (rearm now t) st1)
                        else Some (put it (t\<lparr>alarm := 0\<rparr>) st1));
                 process_loop cb d nows True (cb (callback t) (arg t) st2) } })"

definition timer_process_alarm ::
  "(32 word \<Rightarrow> nat \<Rightarrow> timer_sys \<Rightarrow> timer_sys) \<Rightarrow> esp_timer_dispatch_t \<Rightarrow> time list \<Rightarrow>
   timer_sys \<Rightarrow> (bool \<times> timer_sys) option" where
  "timer_process_alarm cb d nows st = do {
     (processed, it, st1) \<leftarrow> process_loop cb d nows False st;
     Some (processed,
       (case it of
          Some i \<Rightarrow> if d = ESP_TIMER_TASK \<or> processed
                    then esp_timer_impl_set_alarm_id (alarm_of st1 i) d st1 else st1
        | None \<Rightarrow> if processed then esp_timer_impl_set_alarm_id UINT64_MAX d st1 else st1)) }"

text \<open>
  The interrupt handler: whether the timer task is notified and whether a context switch is
  requested. \<open>woken\<close> is the answer of \<open>vTaskNotifyGiveFromISR\<close>.
\<close>

definition esp_timer_isr_dispatch_need_yield :: "bool \<Rightarrow> timer_sys \<Rightarrow> timer_sys option" where
  "esp_timer_isr_dispatch_need_yield in_isr st = do {
     configASSERT in_isr;
     Some (st\<lparr>s_isr_dispatch_need_yield := True\<rparr>) }"

definition timer_alarm_handler ::
  "(32 word \<Rightarrow> nat \<Rightarrow> timer_sys \<Rightarrow> timer_sys) \<Rightarrow> bool \<Rightarrow> time list \<Rightarrow> timer_sys \<Rightarrow>
   (bool \<times> bool \<times> timer_sys) option" where
  "timer_alarm_handler cb woken nows st = do {
     (isr_timers_processed, st1) \<leftarrow>
        timer_process_alarm cb ESP_TIMER_ISR nows (esp_timer_impl_try_to_set_next_alarm st);
     let need_yield = s_isr_dispatch_need_yield st1;
     let st2 = st1\<lparr>s_isr_dispatch_need_yield := False\<rparr>;
     Some (\<not> isr_timers_processed, need_yield \<or> (\<not> isr_timers_processed \<and> woken), st2) }"

subsection \<open>Start-up and shut-down\<close>

definition init_timer_task :: "bool \<Rightarrow> timer_sys \<Rightarrow> esp_err_t \<times> timer_sys" where
  "init_timer_task task_created st =
     (if is_initialized st then (ESP_ERR_INVALID_STATE, st)
      else if \<not> task_created then (ESP_ERR_NO_MEM, st)
      else (ESP_OK, st\<lparr>s_timer_task := True\<rparr>))"

definition deinit_timer_task :: "timer_sys \<Rightarrow> timer_sys" where
  "deinit_timer_task st = (if s_timer_task st then st\<lparr>s_timer_task := False\<rparr> else st)"

definition esp_timer_impl_init :: "esp_err_t \<Rightarrow> esp_err_t \<Rightarrow> timer_sys \<Rightarrow> esp_err_t \<times> timer_sys" where
  "esp_timer_impl_init intr_alloc intr_enable st =
     (if s_timer_interrupt_handle st then (ESP_ERR_INVALID_STATE, st)
      else if intr_alloc \<noteq> ESP_OK then (intr_alloc, st)
      else (intr_enable, st\<lparr>s_timer_interrupt_handle := True, s_alarm_handler := True\<rparr>))"

definition esp_timer_impl_deinit :: "timer_sys \<Rightarrow> timer_sys" where
  "esp_timer_impl_deinit st = st\<lparr>s_timer_interrupt_handle := False, s_alarm_handler := False\<rparr>"

definition esp_timer_init ::
  "bool \<Rightarrow> esp_err_t \<Rightarrow> esp_err_t \<Rightarrow> timer_sys \<Rightarrow> esp_err_t \<times> timer_sys" where
  "esp_timer_init task_created intr_alloc intr_enable st =
     (let (err, st1) = init_timer_task task_created st
      in if err \<noteq> ESP_OK then (err, st1)
         else let (err2, st2) = esp_timer_impl_init intr_alloc intr_enable st1
              in if err2 \<noteq> ESP_OK then (err2, deinit_timer_task st2) else (ESP_OK, st2))"

definition esp_timer_deinit :: "timer_sys \<Rightarrow> esp_err_t \<times> timer_sys" where
  "esp_timer_deinit st =
     (if \<not> is_initialized st then (ESP_ERR_INVALID_STATE, st)
      else if s_timers st ESP_TIMER_TASK \<noteq> [] \<or> s_timers st ESP_TIMER_ISR \<noteq> []
      then (ESP_ERR_INVALID_STATE, st)
      else (ESP_OK, deinit_timer_task (esp_timer_impl_deinit st)))"

subsection \<open>Queries\<close>

definition closer :: "time \<Rightarrow> time option \<Rightarrow> time" where
  "closer next_alarm a = (case a of None \<Rightarrow> next_alarm | Some x \<Rightarrow> if next_alarm > x then x else next_alarm)"

definition first_of :: "timer_sys \<Rightarrow> (handle \<Rightarrow> bool) \<Rightarrow> esp_timer_dispatch_t \<Rightarrow> time option" where
  "first_of st P d = map_option (alarm_of st) (find P (s_timers st d))"

definition esp_timer_get_next_alarm :: "timer_sys \<Rightarrow> time" where
  "esp_timer_get_next_alarm st =
     closer (closer INT64_MAX (first_of st (\<lambda>_. True) ESP_TIMER_TASK)) (first_of st (\<lambda>_. True) ESP_TIMER_ISR)"

definition wakes_up :: "timer_sys \<Rightarrow> handle \<Rightarrow> bool" where
  "wakes_up st h = (case store st h of None \<Rightarrow> False
     | Some t \<Rightarrow> \<not> flag_set (tflags t) FL_SKIP_UNHANDLED_EVENTS)"

definition esp_timer_get_next_alarm_for_wake_up :: "timer_sys \<Rightarrow> time" where
  "esp_timer_get_next_alarm_for_wake_up st =
     closer (closer INT64_MAX (first_of st (wakes_up st) ESP_TIMER_TASK)) (first_of st (wakes_up st) ESP_TIMER_ISR)"

definition esp_timer_get_period :: "handle option \<Rightarrow> bool \<Rightarrow> timer_sys \<Rightarrow> (esp_err_t \<times> time option) option" where
  "esp_timer_get_period timer out_ok st =
     (case timer of None \<Rightarrow> Some (ESP_ERR_INVALID_ARG, None)
      | Some h \<Rightarrow> if \<not> out_ok then Some (ESP_ERR_INVALID_ARG, None)
          else map_option (\<lambda>t. (ESP_OK, Some (period t))) (store st h))"

definition esp_timer_get_expiry_time ::
  "handle option \<Rightarrow> bool \<Rightarrow> timer_sys \<Rightarrow> (esp_err_t \<times> time option) option" where
  "esp_timer_get_expiry_time timer out_ok st =
     (case timer of None \<Rightarrow> Some (ESP_ERR_INVALID_ARG, None)
      | Some h \<Rightarrow> if \<not> out_ok then Some (ESP_ERR_INVALID_ARG, None)
          else map_option (\<lambda>t. if period t > 0 then (ESP_ERR_NOT_SUPPORTED, None)
                               else (ESP_OK, Some (alarm t))) (store st h))"

definition esp_timer_is_active :: "handle option \<Rightarrow> timer_sys \<Rightarrow> bool option" where
  "esp_timer_is_active timer st =
     (case timer of None \<Rightarrow> Some False | Some h \<Rightarrow> map_option timer_armed (store st h))"

end
