(* ===== verification/Esp_Timer_Inv.thy ===== *)
theory Esp_Timer_Inv
  imports Esp_Timer
begin

section \<open>Invariant of the timer lists and of the hardware alarm\<close>

text \<open>
  \<open>tm_inv\<close>: the two lists hold exactly the armed timers, each in the list of its dispatch
  method and once, in the order of their alarms, and every period fits its bit-field.
  \<open>hw_ok d\<close>: the alarm table entry of a dispatch method is the alarm of its first timer;
  \<open>hw_min\<close>: the hardware alarm is the earlier of the two entries.
\<close>

definition in_lists :: "timer_sys \<Rightarrow> bool" where
  "in_lists st \<longleftrightarrow> (\<forall>d. distinct (s_timers st d) \<and> sorted (map (alarm_of st) (s_timers st d)) \<and>
     (\<forall>h \<in> set (s_timers st d). \<exists>t. store st h = Some t \<and> dispatch_of t = d \<and> alarm t \<noteq> 0))"

definition all_armed :: "timer_sys \<Rightarrow> bool" where
  "all_armed st \<longleftrightarrow> (\<forall>h t. store st h = Some t \<longrightarrow>
     period t < 2 ^ 56 \<and> (alarm t \<noteq> 0 \<longrightarrow> h \<in> set (s_timers st (dispatch_of t))))"

definition tm_inv :: "timer_sys \<Rightarrow> bool" where
  "tm_inv st \<longleftrightarrow> in_lists st \<and> all_armed st"

definition first_alarm :: "timer_sys \<Rightarrow> esp_timer_dispatch_t \<Rightarrow> time" where
  "first_alarm st d = (case s_timers st d of [] \<Rightarrow> UINT64_MAX | h # _ \<Rightarrow> alarm_of st h)"

definition hw_ok :: "timer_sys \<Rightarrow> esp_timer_dispatch_t \<Rightarrow> bool" where
  "hw_ok st d \<longleftrightarrow> timestamp_id st d = first_alarm st d"

definition hw_min :: "timer_sys \<Rightarrow> bool" where
  "hw_min st \<longleftrightarrow> hw_alarm st = min (timestamp_id st ESP_TIMER_TASK) (timestamp_id st ESP_TIMER_ISR)"

lemmas tm_defs = tm_inv_def in_lists_def all_armed_def

subsection \<open>Basic facts\<close>

lemma dispatch_cases: "d = ESP_TIMER_TASK \<or> d = ESP_TIMER_ISR"
  by (cases d) auto

lemma put_sel [simp]:
  "s_timers (put h t st) = s_timers st" "store (put h t st) = (store st)(h \<mapsto> t)"
  "timestamp_id (put h t st) = timestamp_id st" "hw_alarm (put h t st) = hw_alarm st"
  "s_timer_task (put h t st) = s_timer_task st"
  by (simp_all add: put_def)

lemma set_list_sel [simp]:
  "s_timers (set_list d hs st) = (s_timers st)(d := hs)" "store (set_list d hs st) = store st"
  "timestamp_id (set_list d hs st) = timestamp_id st" "hw_alarm (set_list d hs st) = hw_alarm st"
  "s_timer_task (set_list d hs st) = s_timer_task st"
  by (simp_all add: set_list_def)

lemma set_alarm_sel [simp]:
  "s_timers (esp_timer_impl_set_alarm_id a d st) = s_timers st"
  "store (esp_timer_impl_set_alarm_id a d st) = store st"
  "s_timer_task (esp_timer_impl_set_alarm_id a d st) = s_timer_task st"
  "timestamp_id (esp_timer_impl_set_alarm_id a d st) = (timestamp_id st)(d := a)"
  by (simp_all add: esp_timer_impl_set_alarm_id_def Let_def)

lemma alarm_of_upd [simp]:
  "alarm_of (put h t st) i = (if i = h then alarm t else alarm_of st i)"
  "alarm_of (set_list d hs st) = alarm_of st"
  "alarm_of (esp_timer_impl_set_alarm_id a d st) = alarm_of st"
  by (auto simp: alarm_of_def)

lemma first_alarm_set [simp]: "first_alarm (esp_timer_impl_set_alarm_id a d st) = first_alarm st"
  by (simp add: first_alarm_def fun_eq_iff split: list.splits)

lemma set_alarm_keeps [simp]:
  "tm_inv (esp_timer_impl_set_alarm_id a d st) = tm_inv st"
  "hw_min (esp_timer_impl_set_alarm_id a d st)"
  by (simp_all add: tm_defs hw_min_def) (simp add: esp_timer_impl_set_alarm_id_def Let_def)

lemma hw_min_upd [simp]:
  "hw_min (put h t st) = hw_min st" "hw_min (set_list d hs st) = hw_min st"
  by (simp_all add: hw_min_def)

lemma tm_inv_storeD:
  "tm_inv st \<Longrightarrow> h \<in> set (s_timers st d) \<Longrightarrow> \<exists>t. store st h = Some t \<and> dispatch_of t = d \<and> alarm t \<noteq> 0"
  by (simp add: tm_defs)

lemma tm_invD:
  assumes "tm_inv st"
  shows "distinct (s_timers st d)" "sorted (map (alarm_of st) (s_timers st d))"
    "store st h = Some t \<Longrightarrow> period t < 2 ^ 56"
    "store st h = Some t \<Longrightarrow> alarm t \<noteq> 0 \<Longrightarrow> dispatch_of t = d \<Longrightarrow> h \<in> set (s_timers st d)"
  using assms by (auto simp: tm_defs)

lemma tm_invI:
  assumes "\<And>d. distinct (s_timers st d)" "\<And>d. sorted (map (alarm_of st) (s_timers st d))"
    "\<And>h d. h \<in> set (s_timers st d) \<Longrightarrow> \<exists>t. store st h = Some t \<and> dispatch_of t = d \<and> alarm t \<noteq> 0"
    "\<And>h t. store st h = Some t \<Longrightarrow> period t < 2 ^ 56"
    "\<And>h t. store st h = Some t \<Longrightarrow> alarm t \<noteq> 0 \<Longrightarrow> h \<in> set (s_timers st (dispatch_of t))"
  shows "tm_inv st"
  using assms unfolding tm_defs by blast

lemma armed_iff:
  assumes "tm_inv st" "store st h = Some t"
  shows "timer_armed t \<longleftrightarrow> h \<in> set (s_timers st (dispatch_of t))"
  using assms tm_inv_storeD [OF assms(1), of h "dispatch_of t"] tm_invD(4) [OF assms _ refl]
  by (auto simp: timer_armed_def word_gt_0)

lemma not_listed:
  assumes "tm_inv st" "store st h = Some t" "\<not> timer_armed t"
  shows "h \<notin> set (s_timers st d)"
  using assms tm_inv_storeD [OF assms(1), of h d] by (auto simp: timer_armed_def word_gt_0)

subsection \<open>Sorted insertion\<close>

lemma timer_link_set [simp]: "set (timer_link al h hs) = insert h (set hs)"
  by (induction hs) auto

lemma timer_link_distinct [simp]: "distinct (timer_link al h hs) \<longleftrightarrow> h \<notin> set hs \<and> distinct hs"
  by (induction hs) auto

lemma timer_link_Nil [simp]: "timer_link al h hs \<noteq> []"
  by (cases hs) auto

lemma timer_link_sorted: "sorted (map al hs) \<Longrightarrow> sorted (map al (timer_link al h hs))"
  by (induction hs) (auto simp: not_less)

lemma timer_link_cong:
  "(\<And>i. i \<in> insert h (set hs) \<Longrightarrow> al i = al' i) \<Longrightarrow> timer_link al h hs = timer_link al' h hs"
  by (induction hs) auto

text \<open>Insertion is stable: the new timer goes behind the timers with the same alarm.\<close>

lemma timer_link_split:
  "sorted (map al hs) \<Longrightarrow>
   timer_link al h hs = takeWhile (\<lambda>i. al i \<le> al h) hs @ h # dropWhile (\<lambda>i. al i \<le> al h) hs"
  by (induction hs) (auto simp: not_le)

lemma timer_link_hd:
  "hd (timer_link al h hs) = (case hs of [] \<Rightarrow> h | i # _ \<Rightarrow> if al h < al i then h else i)"
  by (cases hs) auto

subsection \<open>Arming and disarming\<close>

lemma put_unlisted_inv:
  assumes "tm_inv st" "h \<notin> set (s_timers st ESP_TIMER_TASK)" "h \<notin> set (s_timers st ESP_TIMER_ISR)"
    "alarm t = 0" "period t < 2 ^ 56"
  shows "tm_inv (put h t st)"
proof -
  have nh: "h \<notin> set (s_timers st d)" for d using assms(2,3) dispatch_cases [of d] by auto
  then have same: "map (alarm_of (put h t st)) (s_timers st d) = map (alarm_of st) (s_timers st d)" for d
    by (auto intro!: map_cong)
  show ?thesis
  proof (rule tm_invI)
    show "sorted (map (alarm_of (put h t st)) (s_timers (put h t st) d))" for d
      unfolding put_sel same by (rule tm_invD [OF assms(1)])
  qed (use tm_inv_storeD [OF assms(1)] tm_invD [OF assms(1)] nh assms(4,5) in
      \<open>auto split: if_splits\<close>)
qed

lemma timer_insert_inv:
  assumes inv: "tm_inv st"
    and un: "\<And>d. h \<notin> set (s_timers st d)"
    and t: "alarm t \<noteq> 0" "period t < 2 ^ 56"
  obtains st' where "timer_insert h w (put h t st) = Some st'" "tm_inv st'"
    "store st' = (store st)(h \<mapsto> t)"
    "s_timers st' = (s_timers st)(dispatch_of t :=
       timer_link (alarm_of (put h t st)) h (s_timers st (dispatch_of t)))"
    "s_timer_task st' = s_timer_task st"
    "hw_min st \<Longrightarrow> hw_min st'"
    "\<And>d. hw_ok st d \<Longrightarrow> \<not> w \<or> d \<noteq> dispatch_of t \<Longrightarrow> hw_ok st' d"
    "w \<Longrightarrow> timestamp_id st' = timestamp_id st"
proof -
  let ?d = "dispatch_of t" and ?st = "put h t st"
  let ?hs = "timer_link (alarm_of ?st) h (s_timers st ?d)"
  let ?st1 = "set_list ?d ?hs ?st"
  let ?up = "\<not> w \<and> hd ?hs = h"
  let ?st' = "if ?up then esp_timer_impl_set_alarm_id (alarm t) ?d ?st1 else ?st1"
  have same: "map (alarm_of ?st) (s_timers st d) = map (alarm_of st) (s_timers st d)" for d
    using un by (auto intro!: map_cong)
  have srt: "sorted (map (alarm_of ?st) (s_timers st d))" for d
    unfolding same using inv by (simp add: tm_defs)
  have i1: "tm_inv ?st1"
  proof (rule tm_invI)
    show "sorted (map (alarm_of ?st1) (s_timers ?st1 d))" for d
      using srt [of d] timer_link_sorted [OF srt, of h ?d] by (simp del: alarm_of_upd(1))
  qed (use tm_inv_storeD [OF inv] tm_invD [OF inv] un t in \<open>auto split: if_splits\<close>)
  have fa: "first_alarm ?st1 d = (if d = ?d then alarm_of ?st (hd ?hs) else first_alarm st d)" for d
    using un [of d] by (cases "s_timers st d"; cases ?hs) (auto simp: first_alarm_def split: list.splits)
  have hd2: "hd ?hs = h \<or> (\<exists>i. hd ?hs = i \<and> i \<noteq> h \<and> first_alarm st ?d = alarm_of ?st i)"
    using un [of ?d] by (cases "s_timers st ?d") (auto simp: first_alarm_def)
  have hw: "hw_ok ?st' d" if "hw_ok st d" "\<not> w \<or> d \<noteq> ?d" for d
    using that fa [of d] hd2 by (auto simp: hw_ok_def)
  show ?thesis
  proof (rule that [of ?st'])
    show "timer_insert h w ?st = Some ?st'"
      using un by (simp add: timer_insert_def Let_def)
  qed (use i1 hw in \<open>auto\<close>)
qed

lemma timer_remove_inv:
  assumes inv: "tm_inv st" and t: "store st h = Some t" "timer_armed t"
  obtains st' where "timer_remove h st = Some st'" "tm_inv st'"
    "store st' = (store st)(h \<mapsto> t\<lparr>alarm := 0, period := 0\<rparr>)"
    "s_timers st' = (s_timers st)(dispatch_of t := remove1 h (s_timers st (dispatch_of t)))"
    "s_timer_task st' = s_timer_task st"
    "hw_min st \<Longrightarrow> hw_min st'" "\<And>d. hw_ok st d \<Longrightarrow> hw_ok st' d"
proof -
  let ?d = "dispatch_of t" and ?t = "t\<lparr>alarm := 0, period := 0\<rparr>"
  let ?hs = "s_timers st ?d"
  let ?st1 = "put h ?t (set_list ?d (remove1 h ?hs) st)"
  let ?st' = "if h = hd ?hs then esp_timer_impl_set_alarm_id
      (case s_timers ?st1 ?d of [] \<Rightarrow> UINT64_MAX | f # _ \<Rightarrow> alarm_of ?st1 f) ?d ?st1 else ?st1"
  have m: "h \<in> set ?hs" using armed_iff [OF inv t(1)] t(2) by simp
  have other: "h \<notin> set (s_timers st d)" if "d \<noteq> ?d" for d
    using that tm_inv_storeD [OF inv, of h d] t(1) by auto
  have dis: "distinct ?hs" using inv by (simp add: tm_defs)
  have same: "map (alarm_of ?st1) (s_timers ?st1 d) = map (alarm_of st) (s_timers ?st1 d)" for d
    using dis other [of d] by (auto intro!: map_cong)
  have i1: "tm_inv ?st1"
  proof (rule tm_invI)
    show "sorted (map (alarm_of ?st1) (s_timers ?st1 d))" for d
      unfolding same using tm_invD(2) [OF inv] by (auto simp: sorted_map_remove1)
  qed (use tm_inv_storeD [OF inv] tm_invD [OF inv] dis other in \<open>auto split: if_splits\<close>)
  have fa: "first_alarm ?st1 d = first_alarm st d" if "d \<noteq> ?d \<or> h \<noteq> hd ?hs" for d
    using that m other [of d] by (cases "s_timers st d") (auto simp: first_alarm_def)
  have hw: "hw_ok ?st' d" if "hw_ok st d" for d
    using that fa [of d] by (auto simp: hw_ok_def first_alarm_def split: list.splits)
  show ?thesis
  proof (rule that [of ?st'])
    show "timer_remove h st = Some ?st'" using t(1) m by (simp add: timer_remove_def Let_def)
  qed (use i1 hw in \<open>auto\<close>)
qed

end
