(* ===== verification/Esp_Timer_Steps.thy ===== *)
theory Esp_Timer_Steps
  imports Esp_Timer_Inv
begin

section \<open>Timer calls as steps, and the processing loop\<close>

text \<open>
  The public calls as a step relation on the timer state, every step keeping the invariant and
  the alarm table, and the processing loop whose callbacks make such steps.
\<close>

subsection \<open>The alarm back end as an interface\<close>

text \<open>
  What the timer lists rely on: an alarm table with one entry per dispatch method, a target
  that is the earliest entry. A table whose entries are not later than the first alarm of each
  list never fires late.
\<close>

locale alarm_table =
  fixes set_alarm :: "time \<Rightarrow> esp_timer_dispatch_t \<Rightarrow> 's \<Rightarrow> 's"
    and entry :: "'s \<Rightarrow> esp_timer_dispatch_t \<Rightarrow> time"
    and target :: "'s \<Rightarrow> time"
  assumes entry_set: "entry (set_alarm a d s) = (entry s)(d := a)"
    and target_set: "target (set_alarm a d s) =
      min (entry (set_alarm a d s) ESP_TIMER_TASK) (entry (set_alarm a d s) ESP_TIMER_ISR)"
begin

lemma target_le: "target (set_alarm a d s) \<le> a"
  by (cases d) (simp_all add: target_set entry_set)

lemma target_other: "d' \<noteq> d \<Longrightarrow> target (set_alarm a d s) = min a (entry s d')"
  by (cases d; cases d') (simp_all add: target_set entry_set min.commute)

lemma target_both: "d' \<noteq> d \<Longrightarrow> target (set_alarm a d (set_alarm b d' s)) = min a b"
  by (simp add: target_other entry_set)

end

interpretation systimer: alarm_table esp_timer_impl_set_alarm_id timestamp_id hw_alarm
  by unfold_locales (simp_all add: esp_timer_impl_set_alarm_id_def Let_def)

lemma hw_alarm_not_late:
  assumes "tm_inv st" "hw_min st" "\<And>d. hw_ok st d" "store st h = Some t" "timer_armed t"
  shows "hw_alarm st \<le> alarm t"
proof -
  let ?hs = "s_timers st (dispatch_of t)"
  have m: "h \<in> set ?hs" using armed_iff [OF assms(1,4)] assms(5) by simp
  then obtain f fs where f: "?hs = f # fs" by (cases ?hs) auto
  then have "alarm_of st f \<le> alarm_of st h"
    using m tm_invD(2) [OF assms(1), of "dispatch_of t"] by auto
  moreover have "hw_alarm st \<le> first_alarm st (dispatch_of t)"
    using assms(2,3) by (cases "dispatch_of t") (auto simp: hw_min_def hw_ok_def min_le_iff_disj)
  ultimately show ?thesis using f assms(4) by (simp add: first_alarm_def alarm_of_def)
qed

subsection \<open>Public calls\<close>

lemma period56_bound [simp]: "period56 p < 72057594037927936"
  unfolding period56_def by (simp add: word_less_nat_alt unsigned_take_bit_eq take_bit_nat_def)

text \<open>\<open>keeps st st'\<close>: a call that keeps the list invariant and the alarm table.\<close>

definition keeps :: "timer_sys \<Rightarrow> timer_sys \<Rightarrow> bool" where
  "keeps st st' \<longleftrightarrow> (tm_inv st \<longrightarrow> tm_inv st' \<and> (hw_min st \<longrightarrow> hw_min st') \<and>
     (\<forall>d. hw_ok st d \<longrightarrow> hw_ok st' d) \<and> s_timer_task st' = s_timer_task st)"

lemma keeps_refl [simp]: "keeps st st"
  by (simp add: keeps_def)

lemma keeps_trans: "keeps st st' \<Longrightarrow> keeps st' st'' \<Longrightarrow> keeps st st''"
  by (auto simp: keeps_def)

lemma arm_call:
  assumes inv: "tm_inv st" and t: "store st h = Some t" "\<not> timer_armed t"
    and t': "alarm t' \<noteq> 0" "period t' < 2 ^ 56"
  obtains st' where "timer_insert h False (put h t' st) = Some st'" "tm_inv st'" "keeps st st'"
    "store st' = (store st)(h \<mapsto> t')"
    "s_timers st' = (s_timers st)(dispatch_of t' :=
       timer_link (alarm_of (put h t' st)) h (s_timers st (dispatch_of t')))"
  using timer_insert_inv [of st h t' False] not_listed [OF inv t] inv t'
  unfolding keeps_def by metis

lemma create_keeps:
  assumes "esp_timer_create (Some h) args out_ok st = (e, r, st')" "store st h = None"
  shows "keeps st st'"
proof (cases "st' = st")
  case False
  then obtain t where st': "st' = put h t st" "alarm t = 0" "period t = 0"
    using assms(1) by (auto simp: esp_timer_create_def split: if_splits option.splits)
  have un: "h \<notin> set (s_timers st d)" if "tm_inv st" for d
    using tm_inv_storeD [OF that, of h d] assms(2) by auto
  have "first_alarm st' d = first_alarm st d" if "tm_inv st" for d
    using un [OF that, of d] by (cases "s_timers st d") (auto simp: first_alarm_def st')
  then show ?thesis using un put_unlisted_inv [of st h t] st' by (simp add: keeps_def hw_ok_def)
qed simp

lemma start_once_step:
  assumes inv: "tm_inv st" and h: "store st h = Some t" "now + timeout_us \<noteq> 0"
  obtains e st' where "esp_timer_start_once (Some h) timeout_us now st = Some (e, st')" "keeps st st'"
    "e = ESP_OK \<longleftrightarrow> is_initialized st \<and> \<not> timer_armed t"
    "e = ESP_OK \<Longrightarrow> store st' h = Some (t\<lparr>alarm := now + timeout_us, period := 0\<rparr>)"
    "e \<noteq> ESP_OK \<Longrightarrow> st' = st"
proof (cases "is_initialized st \<and> \<not> timer_armed t")
  case True
  obtain st' where "timer_insert h False (put h (t\<lparr>alarm := now + timeout_us, period := 0\<rparr>) st) = Some st'"
    "keeps st st'" "store st' = (store st)(h \<mapsto> t\<lparr>alarm := now + timeout_us, period := 0\<rparr>)"
    by (rule arm_call [OF inv h(1), of "t\<lparr>alarm := now + timeout_us, period := 0\<rparr>"]) (use True h(2) in auto)
  then show ?thesis using True h by (intro that [of ESP_OK st']) (auto simp: esp_timer_start_once_def)
next
  case False
  then show ?thesis using h by (intro that [of ESP_ERR_INVALID_STATE st]) (auto simp: esp_timer_start_once_def)
qed

lemma start_periodic_step:
  assumes inv: "tm_inv st" and h: "store st h = Some t"
    and p: "p = max period_us esp_timer_impl_get_min_period_us" "now + p \<noteq> 0"
  obtains e st' where "esp_timer_start_periodic (Some h) period_us now st = Some (e, st')" "keeps st st'"
    "e = ESP_OK \<longleftrightarrow> is_initialized st \<and> \<not> timer_armed t"
    "e = ESP_OK \<Longrightarrow> store st' h = Some (t\<lparr>alarm := now + p, period := period56 p\<rparr>)"
    "e \<noteq> ESP_OK \<Longrightarrow> st' = st"
proof (cases "is_initialized st \<and> \<not> timer_armed t")
  case True
  obtain st' where "timer_insert h False (put h (t\<lparr>alarm := now + p, period := period56 p\<rparr>) st) = Some st'"
    "keeps st st'" "store st' = (store st)(h \<mapsto> t\<lparr>alarm := now + p, period := period56 p\<rparr>)"
    by (rule arm_call [OF inv h(1), of "t\<lparr>alarm := now + p, period := period56 p\<rparr>"]) (use True p(2) in auto)
  then show ?thesis using True h p(1)
    by (intro that [of ESP_OK st']) (auto simp: esp_timer_start_periodic_def Let_def)
next
  case False
  then show ?thesis using h
    by (intro that [of ESP_ERR_INVALID_STATE st]) (auto simp: esp_timer_start_periodic_def Let_def)
qed

lemma stop_step:
  assumes inv: "tm_inv st" and h: "store st h = Some t"
  obtains e st' where "esp_timer_stop (Some h) st = Some (e, st')" "keeps st st'"
    "e = ESP_OK \<longleftrightarrow> is_initialized st \<and> timer_armed t"
    "e = ESP_OK \<Longrightarrow> store st' h = Some (t\<lparr>alarm := 0, period := 0\<rparr>)"
    "e = ESP_OK \<Longrightarrow> h \<notin> set (s_timers st' d)"
    "e \<noteq> ESP_OK \<Longrightarrow> st' = st"
proof (cases "is_initialized st \<and> timer_armed t")
  case True
  obtain st' where st': "timer_remove h st = Some st'" "tm_inv st'"
    "store st' = (store st)(h \<mapsto> t\<lparr>alarm := 0, period := 0\<rparr>)" "s_timer_task st' = s_timer_task st"
    "hw_min st \<Longrightarrow> hw_min st'" "\<And>d. hw_ok st d \<Longrightarrow> hw_ok st' d"
    using timer_remove_inv [OF inv h] True by metis
  have "h \<notin> set (s_timers st' d)" using tm_inv_storeD [OF st'(2), of h d] st'(3) by auto
  then show ?thesis using True h st' that [of ESP_OK st'] by (auto simp: esp_timer_stop_def keeps_def)
next
  case False
  then show ?thesis using h by (intro that [of ESP_ERR_INVALID_STATE st]) (auto simp: esp_timer_stop_def)
qed

lemma restart_step:
  assumes inv: "tm_inv st" and h: "store st h = Some t"
    and a: "now + timeout_us \<noteq> 0" "now + max timeout_us esp_timer_impl_get_min_period_us \<noteq> 0"
  obtains e st' where "esp_timer_restart (Some h) timeout_us now st = Some (e, st')" "keeps st st'"
    "e = ESP_OK \<longleftrightarrow> is_initialized st \<and> timer_armed t" "e \<noteq> ESP_OK \<Longrightarrow> st' = st"
    "e = ESP_OK \<Longrightarrow> store st' h = Some
       (if period t = 0 then t\<lparr>alarm := now + timeout_us, period := 0\<rparr>
        else t\<lparr>alarm := now + max timeout_us esp_timer_impl_get_min_period_us,
               period := period56 (max timeout_us esp_timer_impl_get_min_period_us)\<rparr>)"
proof (cases "is_initialized st \<and> timer_armed t")
  case True
  let ?t1 = "t\<lparr>alarm := 0, period := 0\<rparr>"
  let ?t2 = "if period t = 0 then t\<lparr>alarm := now + timeout_us, period := 0\<rparr>
        else t\<lparr>alarm := now + max timeout_us esp_timer_impl_get_min_period_us,
               period := period56 (max timeout_us esp_timer_impl_get_min_period_us)\<rparr>"
  obtain st1 where st1: "timer_remove h st = Some st1" "tm_inv st1" "store st1 = (store st)(h \<mapsto> ?t1)"
    "s_timer_task st1 = s_timer_task st" "hw_min st \<Longrightarrow> hw_min st1" "\<And>d. hw_ok st d \<Longrightarrow> hw_ok st1 d"
    using timer_remove_inv [OF inv h] True by metis
  then have k1: "keeps st st1" by (simp add: keeps_def)
  obtain st2 where st2: "timer_insert h False (put h ?t2 st1) = Some st2" "keeps st1 st2"
    "store st2 = (store st1)(h \<mapsto> ?t2)"
    by (rule arm_call [OF st1(2), of h ?t1 ?t2])
      (use st1(3) a in \<open>auto simp: timer_armed_def\<close>)
  have "esp_timer_restart (Some h) timeout_us now st = Some (ESP_OK, st2)"
    using True h st1(1,3) st2(1) by (auto simp: esp_timer_restart_def Let_def split: if_splits)
  then show ?thesis using True st2 keeps_trans [OF k1 st2(2)] that [of ESP_OK st2] by auto
next
  case False
  then show ?thesis using h by (intro that [of ESP_ERR_INVALID_STATE st]) (auto simp: esp_timer_restart_def)
qed

lemma delete_step:
  assumes inv: "tm_inv st" and h: "store st h = Some t" "now \<noteq> 0"
  obtains e st' where "esp_timer_delete (Some h) now st = Some (e, st')" "keeps st st'"
    "e = ESP_OK \<longleftrightarrow> \<not> timer_armed t"
    "e = ESP_OK \<Longrightarrow> store st' h = Some (t\<lparr>tflags := clr_flag (tflags t) FL_ISR_DISPATCH_METHOD,
        callback := EVENT_ID_DELETE_TIMER, alarm := now, period := 0\<rparr>)"
    "e \<noteq> ESP_OK \<Longrightarrow> st' = st"
proof (cases "timer_armed t")
  case False
  let ?t = "t\<lparr>tflags := clr_flag (tflags t) FL_ISR_DISPATCH_METHOD,
        callback := EVENT_ID_DELETE_TIMER, alarm := now, period := 0\<rparr>"
  obtain st' where "timer_insert h False (put h ?t st) = Some st'" "keeps st st'" "store st' = (store st)(h \<mapsto> ?t)"
    by (rule arm_call [OF inv h(1), of ?t]) (use False h(2) in auto)
  then show ?thesis using False h by (intro that [of ESP_OK st']) (auto simp: esp_timer_delete_def)
next
  case True
  then show ?thesis using h by (intro that [of ESP_ERR_INVALID_STATE st]) (auto simp: esp_timer_delete_def)
qed

text \<open>
  The calls as steps. A call that would compute the alarm 0, the mark of a timer that is not
  armed, is left out: it needs a timeout that wraps the 64-bit clock around exactly.
\<close>

inductive tm_api :: "timer_sys \<Rightarrow> timer_sys \<Rightarrow> bool" where
  create: "esp_timer_create (Some h) args out_ok st = (e, r, st') \<Longrightarrow> store st h = None \<Longrightarrow> tm_api st st'"
| start_once: "esp_timer_start_once (Some h) timeout_us now st = Some (e, st') \<Longrightarrow>
    now + timeout_us \<noteq> 0 \<Longrightarrow> tm_api st st'"
| start_periodic: "esp_timer_start_periodic (Some h) period_us now st = Some (e, st') \<Longrightarrow>
    now + max period_us esp_timer_impl_get_min_period_us \<noteq> 0 \<Longrightarrow> tm_api st st'"
| restart: "esp_timer_restart (Some h) timeout_us now st = Some (e, st') \<Longrightarrow> now + timeout_us \<noteq> 0 \<Longrightarrow>
    now + max timeout_us esp_timer_impl_get_min_period_us \<noteq> 0 \<Longrightarrow> tm_api st st'"
| stop: "esp_timer_stop (Some h) st = Some (e, st') \<Longrightarrow> tm_api st st'"
| delete: "esp_timer_delete (Some h) now st = Some (e, st') \<Longrightarrow> now \<noteq> 0 \<Longrightarrow> tm_api st st'"

inductive_cases tm_apiE: "tm_api st st'"

lemma call_known:
  "esp_timer_start_once (Some h) a now st = Some (e, st') \<Longrightarrow> st' = st \<or> (\<exists>t. store st h = Some t)"
  "esp_timer_start_periodic (Some h) a now st = Some (e, st') \<Longrightarrow> st' = st \<or> (\<exists>t. store st h = Some t)"
  "esp_timer_restart (Some h) a now st = Some (e, st') \<Longrightarrow> st' = st \<or> (\<exists>t. store st h = Some t)"
  "esp_timer_stop (Some h) st = Some (e, st') \<Longrightarrow> st' = st \<or> (\<exists>t. store st h = Some t)"
  "esp_timer_delete (Some h) now st = Some (e, st') \<Longrightarrow> st' = st \<or> (\<exists>t. store st h = Some t)"
  by (cases "store st h"; auto simp: esp_timer_start_once_def esp_timer_start_periodic_def
      esp_timer_restart_def esp_timer_stop_def esp_timer_delete_def Let_def split: if_splits)+

lemma tm_api_keeps:
  assumes "tm_api st st'"
  shows "keeps st st'"
proof (cases "tm_inv st")
  case inv: True
  from assms show ?thesis
  proof cases
    case (create h args out_ok e r)
    then show ?thesis by (rule create_keeps)
  next
    case (start_once h timeout_us now e)
    then show ?thesis using call_known(1) [OF start_once(1)] start_once_step [OF inv, of h _ now timeout_us]
      by (metis keeps_refl option.inject prod.inject)
  next
    case (start_periodic h period_us now e)
    then show ?thesis using call_known(2) [OF start_periodic(1)] start_periodic_step [OF inv, of h _ _ period_us now]
      by (metis keeps_refl option.inject prod.inject)
  next
    case (restart h timeout_us now e)
    then show ?thesis using call_known(3) [OF restart(1)] restart_step [OF inv, of h _ now timeout_us]
      by (metis keeps_refl option.inject prod.inject)
  next
    case (stop h e)
    then show ?thesis using call_known(4) [OF stop(1)] stop_step [OF inv, of h]
      by (metis keeps_refl option.inject prod.inject)
  next
    case (delete h now e)
    then show ?thesis using call_known(5) [OF delete(1)] delete_step [OF inv, of h _ now]
      by (metis keeps_refl option.inject prod.inject)
  qed
qed (simp add: keeps_def)

lemma tm_api_star_keeps: "tm_api\<^sup>*\<^sup>* st st' \<Longrightarrow> keeps st st'"
  by (induction rule: rtranclp_induct) (auto intro: keeps_trans tm_api_keeps)

subsection \<open>One pass of the processing loop\<close>

lemma unlink_unlisted:
  assumes inv: "tm_inv st" and l: "s_timers st d = it # rest" and t: "store st it = Some t"
  shows "it \<notin> set (s_timers (set_list d rest st) d')" "dispatch_of t = d" "alarm t \<noteq> 0"
  using tm_inv_storeD [OF inv, of it d] tm_inv_storeD [OF inv, of it d'] t tm_invD(1) [OF inv, of d] l
  by auto

text \<open>The first timer leaves its list: freed, disarmed or about to be armed again.\<close>

lemma unlink_inv:
  assumes inv: "tm_inv st" and l: "s_timers st d = it # rest" and t: "store st it = Some t"
    and st': "s_timers st' = (s_timers st)(d := rest)" "store st' = (store st)(it := r)"
    and r: "\<And>t'. r = Some t' \<Longrightarrow> alarm t' = 0 \<and> period t' < 2 ^ 56"
  shows "tm_inv st'"
proof (rule tm_invI)
  note un = unlink_unlisted [OF inv l t]
  have ne: "it \<notin> set (s_timers st' d')" for d' using un(1) [of d'] st' by simp
  have sub: "h \<in> set (s_timers st' d') \<Longrightarrow> h \<in> set (s_timers st d')" for h d'
    using l st'(1) by (auto split: if_splits)
  show "distinct (s_timers st' d')" for d'
    using tm_invD(1) [OF inv, of d'] l st'(1) by auto
  have same: "map (alarm_of st') (s_timers st' d') = map (alarm_of st) (s_timers st' d')" for d'
    using ne [of d'] st'(2) by (auto simp: alarm_of_def intro!: map_cong)
  show "sorted (map (alarm_of st') (s_timers st' d'))" for d'
    unfolding same using tm_invD(2) [OF inv, of d'] l st'(1) by auto
  show "\<exists>t. store st' h = Some t \<and> dispatch_of t = d' \<and> alarm t \<noteq> 0" if "h \<in> set (s_timers st' d')" for h d'
    using tm_inv_storeD [OF inv sub [OF that]] ne [of d'] that st'(2) by auto
  show "period t' < 2 ^ 56" if "store st' h = Some t'" for h t'
    using that st'(2) r tm_invD(3) [OF inv] by (auto split: if_splits)
  show "h \<in> set (s_timers st' (dispatch_of t'))" if "store st' h = Some t'" "alarm t' \<noteq> 0" for h t'
  proof -
    have "h \<noteq> it" using that st'(2) r by auto
    then have "h \<in> set (s_timers st (dispatch_of t'))" using tm_invD(4) [OF inv _ that(2) refl] that(1) st'(2) by auto
    then show ?thesis using \<open>h \<noteq> it\<close> l st'(1) by auto
  qed
qed

text \<open>A due periodic timer gets a later alarm: nothing wraps around below \<open>INT64_MAX\<close>.\<close>

lemma rearm_later:
  assumes "alarm t \<le> now" "now \<le> INT64_MAX" "period t < 2 ^ 56" "0 < period t"
  shows "unat (alarm (rearm now t)) = unat now + unat (period t) \<or>
     unat (alarm (rearm now t)) = unat (alarm t) + unat (period t)"
    and "alarm t < alarm (rearm now t)" "alarm (rearm now t) \<noteq> 0"
    and "period (rearm now t) = period t" "dispatch_of (rearm now t) = dispatch_of t"
proof -
  have b: "unat (alarm t) \<le> unat now" "unat now < 2 ^ 63" "unat (period t) < 2 ^ 56" "0 < unat (period t)"
    using assms by (simp_all add: word_le_nat_alt word_less_nat_alt INT64_MAX_def)
  then have e: "unat (now + period t) = unat now + unat (period t)"
    "unat (alarm t + period t) = unat (alarm t) + unat (period t)"
    by (simp_all add: unat_word_ariths)
  show "unat (alarm (rearm now t)) = unat now + unat (period t) \<or>
     unat (alarm (rearm now t)) = unat (alarm t) + unat (period t)"
    using e by (simp add: rearm_def)
  then show l: "alarm t < alarm (rearm now t)" using b by (auto simp: word_less_nat_alt)
  then show "alarm (rearm now t) \<noteq> 0" using word_not_simps(1) by fastforce
  show "period (rearm now t) = period t" "dispatch_of (rearm now t) = dispatch_of t"
    by (simp_all add: rearm_def dispatch_of_def)
qed

text \<open>What one pass does with the first, due timer before its callback.\<close>

definition pass :: "esp_timer_dispatch_t \<Rightarrow> handle \<Rightarrow> handle list \<Rightarrow> time \<Rightarrow> esp_timer \<Rightarrow> timer_sys \<Rightarrow> timer_sys option" where
  "pass d it rest now t st =
     (if callback t = EVENT_ID_DELETE_TIMER
      then Some ((set_list d rest st)\<lparr>store := (store st)(it := None)\<rparr>)
      else if period t > 0 then timer_insert it True (put it (rearm now t) (set_list d rest st))
      else Some (put it (t\<lparr>alarm := 0\<rparr>) (set_list d rest st)))"

lemma process_loop_pass:
  assumes "s_timers st d = it # rest" "store st it = Some t" "alarm t \<le> now"
  shows "process_loop cb d (now # nows) p st = do {
     st1 \<leftarrow> pass d it rest now t st;
     process_loop cb d nows True
       (if callback t = EVENT_ID_DELETE_TIMER then st1 else cb (callback t) (arg t) st1) }"
proof -
  have "\<not> now < alarm t" using assms(3) by simp
  then show ?thesis using assms(1,2) by (simp add: pass_def Let_def)
qed

lemma pass_ok:
  assumes inv: "tm_inv st" and l: "s_timers st d = it # rest" and t: "store st it = Some t"
    and due: "alarm t \<le> now" "now \<le> INT64_MAX"
  obtains st' r where "pass d it rest now t st = Some st'" "tm_inv st'" "store st' = (store st)(it := r)"
    "s_timers st' = (s_timers st)(d := (if r = Some (rearm now t) \<and> 0 < period t
        then timer_link (alarm_of st') it rest else rest))"
    "timestamp_id st' = timestamp_id st" "hw_min st \<longrightarrow> hw_min st'"
    "callback t = EVENT_ID_DELETE_TIMER \<longleftrightarrow> r = None"
    "callback t \<noteq> EVENT_ID_DELETE_TIMER \<longrightarrow> 0 < period t \<longrightarrow> r = Some (rearm now t)"
    "callback t \<noteq> EVENT_ID_DELETE_TIMER \<longrightarrow> period t = 0 \<longrightarrow> r = Some (t\<lparr>alarm := 0\<rparr>)"
proof -
  note un = unlink_unlisted [OF inv l t]
  let ?st1 = "set_list d rest st"
  have p56: "period t < 2 ^ 56" using tm_invD(3) [OF inv t] .
  consider (del) "callback t = EVENT_ID_DELETE_TIMER"
    | (once) "callback t \<noteq> EVENT_ID_DELETE_TIMER" "period t = 0"
    | (per) "callback t \<noteq> EVENT_ID_DELETE_TIMER" "0 < period t" by (auto simp: word_gt_0)
  then show ?thesis
  proof cases
    case del
    have "tm_inv (?st1\<lparr>store := (store st)(it := None)\<rparr>)"
      by (rule unlink_inv [OF inv l t]) auto
    then show ?thesis using del by (intro that [of "?st1\<lparr>store := (store st)(it := None)\<rparr>" None])
      (auto simp: pass_def hw_min_def)
  next
    case once
    have "tm_inv (put it (t\<lparr>alarm := 0\<rparr>) ?st1)"
      by (rule unlink_inv [OF inv l t]) (use once in auto)
    then show ?thesis using once by (intro that [of "put it (t\<lparr>alarm := 0\<rparr>) ?st1" "Some (t\<lparr>alarm := 0\<rparr>)"])
      (auto simp: pass_def)
  next
    case per
    let ?t0 = "t\<lparr>alarm := 0\<rparr>" and ?t' = "rearm now t"
    have i0: "tm_inv (put it ?t0 ?st1)" by (rule unlink_inv [OF inv l t]) (use p56 in auto)
    note r = rearm_later [OF due p56 per(2)]
    have eq: "put it ?t' (put it ?t0 ?st1) = put it ?t' ?st1" by (simp add: put_def)
    obtain st' where st': "timer_insert it True (put it ?t' (put it ?t0 ?st1)) = Some st'" "tm_inv st'"
      "store st' = (store (put it ?t0 ?st1))(it \<mapsto> ?t')"
      "s_timers st' = (s_timers (put it ?t0 ?st1))(dispatch_of ?t' :=
         timer_link (alarm_of (put it ?t' (put it ?t0 ?st1))) it (s_timers (put it ?t0 ?st1) (dispatch_of ?t')))"
      "hw_min (put it ?t0 ?st1) \<Longrightarrow> hw_min st'" "True \<Longrightarrow> timestamp_id st' = timestamp_id (put it ?t0 ?st1)"
      by (rule timer_insert_inv [OF i0, of it ?t' True]) (use un r p56 in auto)
    have al: "alarm_of st' = alarm_of (put it ?t' (put it ?t0 ?st1))"
      using st'(3) by (simp add: alarm_of_def fun_eq_iff)
    show ?thesis using per st' un(2) r(5) al
      by (intro that [of st' "Some ?t'"]) (auto simp: pass_def eq)
  qed
qed

end
