(* ===== verification/Esp_Timer_Spec.thy ===== *)
theory Esp_Timer_Spec
  imports Esp_Timer_Steps
begin

section \<open>Properties of the timers\<close>

text \<open>
  The processing loop keeps the invariant whatever calls the callbacks make, serves every due
  timer and programs the next alarm; it ends; a deleted timer is freed; the queries return the
  earliest alarm.
\<close>

subsection \<open>The processing loop\<close>

lemma process_loop_stop:
  assumes "s_timers st d = i # rest" "store st i = Some t" "\<not> alarm t \<le> now"
  shows "process_loop cb d (now # nows) p st = Some (p, Some i, st)"
  using assms by (simp add: not_le)

lemma pass_other:
  assumes "tm_inv st" "s_timers st d = it # rest" "store st it = Some t" "d' \<noteq> d"
    "store st' = (store st)(it := r)" "s_timers st' = (s_timers st)(d := hs)"
    "timestamp_id st' = timestamp_id st" "hw_ok st d'"
  shows "hw_ok st' d'"
proof -
  have "it \<notin> set (s_timers st d')"
    using unlink_unlisted(1) [OF assms(1-3), of d'] assms(4) by simp
  then have "first_alarm st' d' = first_alarm st d'"
    using assms(4,5,6) by (cases "s_timers st d'") (auto simp: first_alarm_def alarm_of_def)
  then show ?thesis using assms(7,8) by (simp add: hw_ok_def)
qed

text \<open>
  The loop returns at the reading \<open>now\<close>: with the readings before it the loop is still running, and
  the readings after it are not made.
\<close>

definition returns_at :: "(time list \<Rightarrow> 'r option) \<Rightarrow> time list \<Rightarrow> 'r \<Rightarrow> time list \<Rightarrow> time \<Rightarrow> bool" where
  "returns_at run nows r rs now \<longleftrightarrow>
     (\<exists>us. nows = rs @ now # us) \<and> run rs = None \<and> (\<forall>us. run (rs @ now # us) = Some r)"

lemma returns_at_first:
  "run [] = None \<Longrightarrow> (\<And>us. run (now # us) = Some r) \<Longrightarrow> returns_at run (now # nows) r [] now"
  by (simp add: returns_at_def)

lemma returns_at_later:
  "(\<And>us. run (now # us) = run' us) \<Longrightarrow> returns_at run' nows r rs l \<Longrightarrow> returns_at run (now # nows) r (now # rs) l"
  by (auto simp: returns_at_def)

lemma returns_at_unique:
  assumes "returns_at run nows r rs now" and "returns_at run nows r' rs' now'"
  shows "now' = now"
proof -
  obtain us us' where n: "nows = rs @ now # us" "nows = rs' @ now' # us'"
    and none: "run rs = None" "run rs' = None"
    and some: "\<And>vs. run (rs @ now # vs) = Some r" "\<And>vs. run (rs' @ now' # vs) = Some r'"
    using assms unfolding returns_at_def by blast
  obtain ws where "rs = rs' @ ws \<and> ws @ now # us = now' # us' \<or> rs @ ws = rs' \<and> now # us = ws @ now' # us'"
    using trans [OF n(1) [symmetric] n(2)] unfolding append_eq_append_conv2 by metis
  then show ?thesis using none some by (cases ws) auto
qed

lemma process_loop_inv:
  assumes cb: "\<And>c a st. tm_api\<^sup>*\<^sup>* st (cb c a st)"
    and inv: "tm_inv st" and clk: "\<forall>now \<in> set nows. now \<le> INT64_MAX"
    and run: "process_loop cb d nows p st = Some (p', it, st')"
  shows "tm_inv st' \<and> (hw_min st \<longrightarrow> hw_min st') \<and> (\<forall>d'. d' \<noteq> d \<longrightarrow> hw_ok st d' \<longrightarrow> hw_ok st' d') \<and>
     it = (case s_timers st' d of [] \<Rightarrow> None | i # _ \<Rightarrow> Some i) \<and> (p \<longrightarrow> p') \<and> (\<not> p' \<longrightarrow> st' = st) \<and>
     (\<exists>rs now. returns_at (\<lambda>ns. process_loop cb d ns p st) nows (p', it, st') rs now \<and>
        (\<forall>h \<in> set (s_timers st' d). now < alarm_of st' h))"
  using inv clk run
proof (induction nows arbitrary: p st)
  case Nil
  then show ?case by simp
next
  case (Cons now nows)
  show ?case
  proof (cases "s_timers st d")
    case Nil
    then have "returns_at (\<lambda>ns. process_loop cb d ns p st) (now # nows) (p', it, st') [] now"
      using Cons.prems(3) by (intro returns_at_first) auto
    then show ?thesis using Cons.prems Nil by auto
  next
    case l: (Cons i rest)
    obtain t where t: "store st i = Some t" using tm_inv_storeD [OF Cons.prems(1), of i d] l by auto
    show ?thesis
    proof (cases "alarm t \<le> now")
      case False
      then have lt: "now < alarm_of st i" using t by (simp add: alarm_of_def)
      moreover have "\<forall>h \<in> set rest. alarm_of st i \<le> alarm_of st h"
        using tm_invD(2) [OF Cons.prems(1), of d] l by auto
      ultimately have q: "\<forall>h \<in> set (s_timers st d). now < alarm_of st h" using l by fastforce
      note stop = process_loop_stop [OF l t False]
      have e: "p' = p" "it = Some i" "st' = st" using Cons.prems(3) unfolding stop by auto
      have "returns_at (\<lambda>ns. process_loop cb d ns p st) (now # nows) (p', it, st') [] now"
        by (rule returns_at_first) (use stop e in \<open>simp_all del: process_loop.simps(2)\<close>)
      then show ?thesis using Cons.prems(1) l q e by auto
    next
      case True
      have nl: "now \<le> INT64_MAX" using Cons.prems(2) by simp
      obtain st1 r where s1: "pass d i rest now t st = Some st1" "tm_inv st1"
        "store st1 = (store st)(i := r)" "s_timers st1 = (s_timers st)(d := (if r = Some (rearm now t) \<and> 0 < period t
          then timer_link (alarm_of st1) i rest else rest))"
        "timestamp_id st1 = timestamp_id st" "hw_min st \<longrightarrow> hw_min st1"
        by (rule pass_ok [OF Cons.prems(1) l t True nl])
      let ?st2 = "if callback t = EVENT_ID_DELETE_TIMER then st1 else cb (callback t) (arg t) st1"
      have k: "keeps st1 ?st2" using tm_api_star_keeps [OF cb] by simp
      have o1: "hw_ok st1 d'" if "d' \<noteq> d" "hw_ok st d'" for d'
        by (rule pass_other [OF Cons.prems(1) l t that(1) s1(3,4,5) that(2)])
      have go: "process_loop cb d (now # us) p st = process_loop cb d us True ?st2" for us
        using s1(1) unfolding process_loop_pass [OF l t True] by simp
      then have "process_loop cb d nows True ?st2 = Some (p', it, st')" using Cons.prems(3) by metis
      moreover have "tm_inv ?st2" using k s1(2) by (simp add: keeps_def)
      ultimately have IH: "tm_inv st' \<and> (hw_min ?st2 \<longrightarrow> hw_min st') \<and>
         (\<forall>d'. d' \<noteq> d \<longrightarrow> hw_ok ?st2 d' \<longrightarrow> hw_ok st' d') \<and>
         it = (case s_timers st' d of [] \<Rightarrow> None | i # _ \<Rightarrow> Some i) \<and> (True \<longrightarrow> p') \<and> (\<not> p' \<longrightarrow> st' = ?st2) \<and>
         (\<exists>rs now. returns_at (\<lambda>ns. process_loop cb d ns True ?st2) nows (p', it, st') rs now \<and>
            (\<forall>h \<in> set (s_timers st' d). now < alarm_of st' h))"
        using Cons.prems(2) by (intro Cons.IH) auto
      then obtain rs m where m: "returns_at (\<lambda>ns. process_loop cb d ns True ?st2) nows (p', it, st') rs m"
        "\<forall>h \<in> set (s_timers st' d). m < alarm_of st' h" by blast
      have "returns_at (\<lambda>ns. process_loop cb d ns p st) (now # nows) (p', it, st') (now # rs) m"
        by (rule returns_at_later [OF go m(1)])
      with m(2) have "\<exists>rs m. returns_at (\<lambda>ns. process_loop cb d ns p st) (now # nows) (p', it, st') rs m \<and>
            (\<forall>h \<in> set (s_timers st' d). m < alarm_of st' h)" by blast
      then show ?thesis using IH k s1(2,6) o1 unfolding keeps_def by metis
    qed
  qed
qed

text \<open>What follows the loop: the alarm of the first timer that is not due is programmed.\<close>

definition finish_alarm ::
  "esp_timer_dispatch_t \<Rightarrow> bool \<times> handle option \<times> timer_sys \<Rightarrow> bool \<times> timer_sys" where
  "finish_alarm d r = (case r of (processed, it, st1) \<Rightarrow> (processed,
     (case it of
        Some i \<Rightarrow> if d = ESP_TIMER_TASK \<or> processed
                  then esp_timer_impl_set_alarm_id (alarm_of st1 i) d st1 else st1
      | None \<Rightarrow> if processed then esp_timer_impl_set_alarm_id UINT64_MAX d st1 else st1)))"

lemma process_alarm_finish:
  "timer_process_alarm cb d nows st = map_option (finish_alarm d) (process_loop cb d nows False st)"
  by (cases "process_loop cb d nows False st") (auto simp: timer_process_alarm_def finish_alarm_def)

lemma finish_alarm_lists [simp]:
  "s_timers (snd (finish_alarm d (p, it, st1))) = s_timers st1"
  "alarm_of (snd (finish_alarm d (p, it, st1))) = alarm_of st1"
  by (auto simp: finish_alarm_def alarm_of_def fun_eq_iff split: option.splits)

lemma process_alarm_inv:
  assumes cb: "\<And>c a st. tm_api\<^sup>*\<^sup>* st (cb c a st)"
    and inv: "tm_inv st" "hw_min st" and clk: "\<forall>now \<in> set nows. now \<le> INT64_MAX"
    and run: "timer_process_alarm cb d nows st = Some (processed, st')"
  shows "tm_inv st' \<and> hw_min st' \<and> (\<forall>d'. hw_ok st d' \<longrightarrow> hw_ok st' d') \<and>
     (processed \<or> d = ESP_TIMER_TASK \<and> s_timers st' d \<noteq> [] \<longrightarrow> hw_ok st' d) \<and>
     (\<exists>rs now. returns_at (\<lambda>ns. timer_process_alarm cb d ns st) nows (processed, st') rs now \<and>
        (\<forall>h \<in> set (s_timers st' d). now < alarm_of st' h))"
proof -
  obtain it st1 where l: "process_loop cb d nows False st = Some (processed, it, st1)"
      "finish_alarm d (processed, it, st1) = (processed, st')"
    using run by (auto simp: process_alarm_finish finish_alarm_def)
  note f = process_loop_inv [OF cb inv(1) clk l(1)]
  have st': "st' = (if processed \<or> d = ESP_TIMER_TASK \<and> s_timers st1 d \<noteq> []
      then esp_timer_impl_set_alarm_id (first_alarm st1 d) d st1 else st1)"
    using f l(2) by (auto simp: finish_alarm_def first_alarm_def split: list.splits)
  obtain rs now where r: "returns_at (\<lambda>ns. process_loop cb d ns False st) nows (processed, it, st1) rs now"
      "\<forall>h \<in> set (s_timers st1 d). now < alarm_of st1 h" using f by blast
  have "returns_at (\<lambda>ns. timer_process_alarm cb d ns st) nows (processed, st') rs now"
    using r(1) l(2) by (simp add: returns_at_def process_alarm_finish)
  moreover have "\<forall>h \<in> set (s_timers st' d). now < alarm_of st' h"
    using r(2) finish_alarm_lists [of d processed it st1] l(2) by simp
  moreover have "tm_inv st' \<and> hw_min st' \<and> (\<forall>d'. hw_ok st d' \<longrightarrow> hw_ok st' d') \<and>
     (processed \<or> d = ESP_TIMER_TASK \<and> s_timers st' d \<noteq> [] \<longrightarrow> hw_ok st' d)"
    using f inv st' by (auto simp: hw_ok_def)
  ultimately show ?thesis by blast
qed

subsection \<open>Termination of the loop\<close>

text \<open>
  The events that are due until \<open>T\<close>: one for a one-shot timer, one for each period of a periodic
  timer. A pass serves one of them, at any reading up to \<open>T\<close>.
\<close>

definition due_of :: "time \<Rightarrow> esp_timer \<Rightarrow> nat" where
  "due_of T t = (if alarm t > T then 0 else if period t = 0 then 1
     else (unat T - unat (alarm t)) div unat (period t) + 1)"

definition due_events :: "esp_timer_dispatch_t \<Rightarrow> time \<Rightarrow> timer_sys \<Rightarrow> nat" where
  "due_events d T st = (\<Sum>h \<leftarrow> s_timers st d. case store st h of None \<Rightarrow> 0 | Some t \<Rightarrow> due_of T t)"

lemma sum_list_timer_link:
  fixes f :: "handle \<Rightarrow> nat"
  shows "sum_list (map f (timer_link al h hs)) = f h + sum_list (map f hs)"
  by (induction hs) auto

lemma rearm_due:
  assumes "alarm t \<le> now" and "now \<le> T" and "T \<le> INT64_MAX" and "period t < 2 ^ 56" and "0 < period t"
  shows "due_of T (rearm now t) < due_of T t"
proof -
  have T: "alarm t \<le> T" "now \<le> INT64_MAX" using assms(1-3) by auto
  note r = rearm_later [OF assms(1) T(2) assms(4,5)]
  have p: "0 < unat (period t)" using assms(5) by (simp add: word_less_nat_alt)
  have a: "unat (alarm t) \<le> unat now" using assms(1) by (simp add: word_le_nat_alt)
  have cur: "due_of T t = (unat T - unat (alarm t)) div unat (period t) + 1"
    using T assms(5) by (auto simp: due_of_def)
  show ?thesis
  proof (cases "alarm (rearm now t) > T")
    case True
    then show ?thesis using cur by (simp add: due_of_def)
  next
    case False
    let ?n = "unat (alarm (rearm now t))"
    have n: "unat (alarm t) + unat (period t) \<le> ?n" "?n \<le> unat T"
      using r(1) a False by (auto simp: word_le_nat_alt not_less)
    then have "unat T - ?n \<le> unat T - unat (alarm t) - unat (period t)" by simp
    then have "(unat T - ?n) div unat (period t) \<le> (unat T - unat (alarm t) - unat (period t)) div unat (period t)"
      by (rule div_le_mono)
    also have "\<dots> < (unat T - unat (alarm t)) div unat (period t)"
      using n p by (simp add: le_div_geq)
    finally show ?thesis using False cur assms(5) r(4) by (auto simp: due_of_def)
  qed
qed

lemma pass_due:
  assumes inv: "tm_inv st" and l: "s_timers st d = it # rest" and t: "store st it = Some t"
    and due: "alarm t \<le> now" "now \<le> T" "T \<le> INT64_MAX" and p: "pass d it rest now t st = Some st'"
  shows "due_events d T st' < due_events d T st"
proof -
  let ?f = "\<lambda>st h. case store st h of None \<Rightarrow> 0 | Some t \<Rightarrow> due_of T t"
  have nl: "now \<le> INT64_MAX" using due by simp
  obtain st1 r where st1: "pass d it rest now t st = Some st1" "store st1 = (store st)(it := r)"
    "s_timers st1 = (s_timers st)(d := (if r = Some (rearm now t) \<and> 0 < period t
        then timer_link (alarm_of st1) it rest else rest))"
    by (rule pass_ok [OF inv l t due(1) nl])
  have "st1 = st'" using st1(1) p by simp
  note s1 = st1(2,3) [unfolded this]
  have ne: "it \<notin> set rest" using tm_invD(1) [OF inv, of d] l by auto
  have rest: "sum_list (map (?f st') rest) = sum_list (map (?f st) rest)"
    using ne s1(1) by (intro arg_cong [where f = sum_list] map_cong) auto
  have cur: "?f st it = due_of T t" "0 < due_of T t" using due t by (auto simp: due_of_def)
  show ?thesis
  proof (cases "r = Some (rearm now t) \<and> 0 < period t")
    case True
    then have "?f st' it < ?f st it" using rearm_due [OF due tm_invD(3) [OF inv t]] s1(1) cur by simp
    then show ?thesis using True s1(2) l rest by (simp add: due_events_def sum_list_timer_link)
  next
    case False
    then have "s_timers st' d = rest" using s1(2) by auto
    then show ?thesis using l rest cur by (simp add: due_events_def)
  qed
qed

text \<open>
  Callbacks may make any calls that do not make more events due until \<open>T\<close>. Then the loop returns
  after at most one pass for each due event.
\<close>

lemma process_loop_ends:
  assumes cb: "\<And>c a st. tm_api\<^sup>*\<^sup>* st (cb c a st)"
    and fewer: "\<And>c a st. tm_inv st \<Longrightarrow> due_events d T (cb c a st) \<le> due_events d T st"
    and T: "T \<le> INT64_MAX" and inv: "tm_inv st" and clk: "\<forall>now \<in> set nows. now \<le> T"
    and n: "due_events d T st < length nows"
  shows "\<exists>r rs now. process_loop cb d nows p st = Some r \<and>
    returns_at (\<lambda>ns. process_loop cb d ns p st) nows r rs now \<and> length rs \<le> due_events d T st"
  using inv clk n
proof (induction nows arbitrary: p st)
  case Nil
  then show ?case by simp
next
  case (Cons now nows)
  show ?case
  proof (cases "s_timers st d")
    case Nil
    have "returns_at (\<lambda>ns. process_loop cb d ns p st) (now # nows) (p, None, st) [] now"
      by (rule returns_at_first) (use Nil in auto)
    then show ?thesis using Nil by (intro exI [of _ "(p, None, st)"] exI [of _ "[]"] exI [of _ now]) simp
  next
    case l: (Cons i rest)
    obtain t where t: "store st i = Some t" using tm_inv_storeD [OF Cons.prems(1), of i d] l by auto
    show ?thesis
    proof (cases "alarm t \<le> now")
      case False
      note stop = process_loop_stop [OF l t False]
      have "returns_at (\<lambda>ns. process_loop cb d ns p st) (now # nows) (p, Some i, st) [] now"
        by (rule returns_at_first) (use stop in \<open>simp_all del: process_loop.simps(2)\<close>)
      then show ?thesis using stop
        by (intro exI [of _ "(p, Some i, st)"] exI [of _ "[]"] exI [of _ now]) (simp del: process_loop.simps(2))
    next
      case True
      have nl: "now \<le> T" "now \<le> INT64_MAX" using Cons.prems(2) T by auto
      obtain st1 where s1: "pass d i rest now t st = Some st1" "tm_inv st1"
        by (rule pass_ok [OF Cons.prems(1) l t True nl(2)])
      let ?st2 = "if callback t = EVENT_ID_DELETE_TIMER then st1 else cb (callback t) (arg t) st1"
      have go: "process_loop cb d (now # us) p st = process_loop cb d us True ?st2" for us
        using s1(1) unfolding process_loop_pass [OF l t True] by simp
      have i2: "tm_inv ?st2" using tm_api_star_keeps [OF cb] s1(2) by (simp add: keeps_def)
      have less: "due_events d T ?st2 < due_events d T st"
        using pass_due [OF Cons.prems(1) l t True nl(1) T s1(1)] fewer [OF s1(2), of "callback t" "arg t"] by simp
      obtain r rs m where IH: "process_loop cb d nows True ?st2 = Some r"
          "returns_at (\<lambda>ns. process_loop cb d ns True ?st2) nows r rs m" "length rs \<le> due_events d T ?st2"
        using Cons.IH [OF i2, of True] Cons.prems(2,3) less by auto
      have "process_loop cb d (now # nows) p st = Some r" using go IH(1) by metis
      moreover have "returns_at (\<lambda>ns. process_loop cb d ns p st) (now # nows) r (now # rs) m"
        by (rule returns_at_later [OF go IH(2)])
      moreover have "length (now # rs) \<le> due_events d T st" using IH(3) less by simp
      ultimately show ?thesis by blast
    qed
  qed
qed

text \<open>The loop is never stuck: a reading before every alarm makes it return.\<close>

lemma process_loop_not_stuck:
  assumes cb: "\<And>c a st. tm_api\<^sup>*\<^sup>* st (cb c a st)"
    and inv: "tm_inv st" and clk: "\<forall>now \<in> set nows. now \<le> INT64_MAX"
  shows "\<exists>r. process_loop cb d (nows @ [0]) p st = Some r"
  using inv clk
proof (induction nows arbitrary: p st)
  case Nil
  show ?case
  proof (cases "s_timers st d")
    case (Cons i rest)
    then obtain t where "store st i = Some t" "\<not> alarm t \<le> 0" using tm_inv_storeD [OF Nil(1), of i d] by auto
    then show ?thesis using process_loop_stop [OF Cons] by (simp del: process_loop.simps(2))
  qed simp
next
  case (Cons now nows)
  show ?case
  proof (cases "s_timers st d")
    case l: (Cons i rest)
    obtain t where t: "store st i = Some t" using tm_inv_storeD [OF Cons.prems(1), of i d] l by auto
    show ?thesis
    proof (cases "alarm t \<le> now")
      case True
      have nl: "now \<le> INT64_MAX" using Cons.prems(2) by simp
      obtain st1 where s1: "pass d i rest now t st = Some st1" "tm_inv st1"
        by (rule pass_ok [OF Cons.prems(1) l t True nl])
      let ?st2 = "if callback t = EVENT_ID_DELETE_TIMER then st1 else cb (callback t) (arg t) st1"
      have "tm_inv ?st2" using tm_api_star_keeps [OF cb] s1(2) by (simp add: keeps_def)
      then show ?thesis
        using Cons.IH [of ?st2 True] Cons.prems(2) s1(1)
        unfolding append_Cons process_loop_pass [OF l t True] by simp
    qed (use process_loop_stop [OF l t] in \<open>simp del: process_loop.simps(2)\<close>)
  qed simp
qed

subsection \<open>Deletion\<close>

definition doomed :: "handle \<Rightarrow> time \<Rightarrow> timer_sys \<Rightarrow> bool" where
  "doomed h a st \<longleftrightarrow> (\<forall>t. store st h = Some t \<longrightarrow> callback t = EVENT_ID_DELETE_TIMER \<and> alarm t = a \<and>
     dispatch_of t = ESP_TIMER_TASK)"

lemma process_loop_doomed:
  assumes "tm_inv st" "\<forall>now \<in> set nows. a \<le> now \<and> now \<le> INT64_MAX" "doomed h a st" "a \<noteq> 0"
    "process_loop (\<lambda>c a st. st) ESP_TIMER_TASK nows p st = Some (p', it, st')"
  shows "doomed h a st'"
  using assms
proof (induction nows arbitrary: p st)
  case Nil
  then show ?case by simp
next
  case (Cons now nows)
  show ?case
  proof (cases "s_timers st ESP_TIMER_TASK")
    case l: (Cons i rest)
    obtain t where t: "store st i = Some t" using tm_inv_storeD [OF Cons.prems(1), of i ESP_TIMER_TASK] l by auto
    show ?thesis
    proof (cases "alarm t \<le> now")
      case True
      have nl: "now \<le> INT64_MAX" using Cons.prems(2) by simp
      obtain st1 r where s1: "pass ESP_TIMER_TASK i rest now t st = Some st1" "tm_inv st1"
        "store st1 = (store st)(i := r)" "callback t = EVENT_ID_DELETE_TIMER \<longleftrightarrow> r = None"
        by (rule pass_ok [OF Cons.prems(1) l t True nl])
      have "doomed h a st1" using Cons.prems(3) s1(3,4) t by (auto simp: doomed_def)
      moreover have "process_loop (\<lambda>c a st. st) ESP_TIMER_TASK nows True st1 = Some (p', it, st')"
        using Cons.prems(5) s1(1) unfolding process_loop_pass [OF l t True] by simp
      ultimately show ?thesis using Cons.IH [OF s1(2)] Cons.prems(2,4) by simp
    qed (use Cons.prems(3,5) process_loop_stop [OF l t] in \<open>simp del: process_loop.simps\<close>)
  qed (use Cons.prems in auto)
qed

subsection \<open>Properties\<close>

definition tm_empty :: timer_sys where
  "tm_empty = \<lparr>store = Map.empty, s_timers = (\<lambda>_. []), timestamp_id = (\<lambda>_. UINT64_MAX),
     hw_alarm = UINT64_MAX, s_timer_task = True, s_isr_dispatch_need_yield = False,
     s_timer_interrupt_handle = True, s_alarm_handler = True\<rparr>"

lemma tm_empty_ok: "tm_inv tm_empty" "hw_min tm_empty" "hw_ok tm_empty d"
  by (simp_all add: tm_empty_def tm_defs hw_min_def hw_ok_def first_alarm_def)

text \<open>
  Claim C4. After any sequence of timer calls (create, start, restart, stop, delete) on an initialised
  system: each list holds exactly the armed timers of its dispatch method, in the order of their
  alarms; the alarm table entry of each list is the alarm of its first timer; and the hardware
  alarm is not later than the alarm of any armed timer.
\<close>

theorem timer_calls_keep_lists:
  assumes "tm_api\<^sup>*\<^sup>* tm_empty st"
  shows "tm_inv st \<and> hw_min st \<and> (\<forall>d. hw_ok st d) \<and>
     (\<forall>h t. store st h = Some t \<and> timer_armed t \<longrightarrow> hw_alarm st \<le> alarm t)"
proof -
  have "tm_inv st \<and> hw_min st \<and> (\<forall>d. hw_ok st d)"
    using tm_api_star_keeps [OF assms] tm_empty_ok by (simp add: keeps_def)
  then show ?thesis using hw_alarm_not_late by blast
qed

theorem timer_calls_keep_lists_witness:
  "\<exists>st. tm_api\<^sup>*\<^sup>* tm_empty st \<and> s_timers st ESP_TIMER_TASK = [1] \<and> tm_inv st \<and> hw_min st \<and> hw_ok st ESP_TIMER_TASK"
proof -
  let ?args = "\<lparr>acallback = 16, aarg = 0, adispatch_method = 0, askip_unhandled_events = False\<rparr>"
  obtain st1 where c: "esp_timer_create (Some 1) (Some ?args) True tm_empty = (ESP_OK, Some 1, st1)"
      and st1: "st1 = tm_empty\<lparr>store := [1 \<mapsto> \<lparr>alarm = 0, period = 0, tflags = 0, callback = 16, arg = 0\<rparr>]\<rparr>"
    by (simp add: esp_timer_create_def is_initialized_def tm_empty_def put_def set_flag_def)
  obtain st2 where s: "esp_timer_start_once (Some 1) 50 7 st1 = Some (ESP_OK, st2)" "s_timers st2 ESP_TIMER_TASK = [1]"
    by (simp add: st1 esp_timer_start_once_def is_initialized_def timer_armed_def timer_insert_def put_def set_list_def
        dispatch_of_def flag_set_def FL_ISR_DISPATCH_METHOD_def esp_timer_impl_set_alarm_id_def Let_def tm_empty_def)
  have "tm_api tm_empty st1" using tm_api.create [OF c] by (simp add: tm_empty_def)
  moreover have "tm_api st1 st2" by (rule tm_api.start_once [OF s(1)]) simp
  ultimately have r: "tm_api\<^sup>*\<^sup>* tm_empty st2" by simp
  show ?thesis using timer_calls_keep_lists [OF r] r s(2) by blast
qed

text \<open>
  Claim C5. Processing an alarm, with callbacks that make any timer calls and a clock that stays a
  non-negative \<open>int64_t\<close>. When the call returns, it has done so at the last of the readings it made,
  \<open>now\<close>: with the readings \<open>rs\<close> before it the loop was still running, later readings do not matter, and
  no timer that is due at this reading is left. The list invariant and the hardware alarm are kept, the
  alarm table stays right for both dispatch methods and is set right for the processed one whenever a
  timer ran or, for the task list, one is armed. As long as the call has not returned, it is not stuck
  either: a reading before every alarm, here 0, makes it return. Callbacks that start timers without
  end may keep it busy for ever (\<open>callback_keeps_loop_busy\<close>); C6 says when it returns.
\<close>

theorem timer_process_alarm_serves_due:
  assumes "\<And>c a st. tm_api\<^sup>*\<^sup>* st (cb c a st)"
    and "tm_inv st" and "hw_min st" and "\<forall>now \<in> set nows. now \<le> INT64_MAX"
  shows "case timer_process_alarm cb d nows st of
      None \<Rightarrow> \<exists>r. timer_process_alarm cb d (nows @ [0]) st = Some r
    | Some (processed, st') \<Rightarrow> tm_inv st' \<and> hw_min st' \<and> (\<forall>d'. hw_ok st d' \<longrightarrow> hw_ok st' d') \<and>
        (processed \<or> d = ESP_TIMER_TASK \<and> s_timers st' d \<noteq> [] \<longrightarrow> hw_ok st' d) \<and>
        (\<exists>rs now us. nows = rs @ now # us \<and> timer_process_alarm cb d rs st = None \<and>
           (\<forall>us'. timer_process_alarm cb d (rs @ now # us') st = Some (processed, st')) \<and>
           (\<forall>h \<in> set (s_timers st' d). now < alarm_of st' h))"
proof (cases "timer_process_alarm cb d nows st")
  case None
  then show ?thesis
    using process_loop_not_stuck [of cb st nows d False] assms(1,2,4) by (auto simp: process_alarm_finish)
next
  case (Some r)
  obtain processed st' where r: "r = (processed, st')" by (cases r)
  have run: "timer_process_alarm cb d nows st = Some (processed, st')" using Some r by simp
  show ?thesis
    using process_alarm_inv [OF assms(1-4) run] unfolding run option.case prod.case returns_at_def by blast
qed

definition one_timer :: "time \<Rightarrow> time \<Rightarrow> timer_sys" where
  "one_timer a p = tm_empty\<lparr>
     store := [1 \<mapsto> \<lparr>alarm = a, period = p, tflags = 0, callback = 16, arg = 0\<rparr>],
     s_timers := (\<lambda>_. [])(ESP_TIMER_TASK := [1]),
     timestamp_id := (\<lambda>_. UINT64_MAX)(ESP_TIMER_TASK := a), hw_alarm := a\<rparr>"

lemma one_timer_ok: "tm_inv (one_timer 100 1000)" "hw_min (one_timer 100 1000)"
  by (auto simp: one_timer_def tm_empty_def tm_defs hw_min_def alarm_of_def dispatch_of_def
      UINT64_MAX_def FL_ISR_DISPATCH_METHOD_def flag_set_def)

lemmas tm_eval = timer_process_alarm_def timer_insert_def rearm_def skipped_events_def Let_def
  put_def set_list_def esp_timer_impl_set_alarm_id_def alarm_of_def dispatch_of_def one_timer_def
  tm_empty_def UINT64_MAX_def FL_ISR_DISPATCH_METHOD_def FL_SKIP_UNHANDLED_EVENTS_def flag_set_def
  EVENT_ID_DELETE_TIMER_def

theorem timer_process_alarm_serves_due_witness:
  "\<exists>st'. timer_process_alarm (\<lambda>c a st. st) ESP_TIMER_TASK [450, 500, 9000] (one_timer 100 1000) = Some (True, st') \<and>
     tm_inv st' \<and> hw_ok st' ESP_TIMER_TASK \<and>
     timer_process_alarm (\<lambda>c a st. st) ESP_TIMER_TASK [450] (one_timer 100 1000) = None \<and> 500 < alarm_of st' 1"
proof -
  let ?run = "\<lambda>ns. timer_process_alarm (\<lambda>c a st. st) ESP_TIMER_TASK ns (one_timer 100 1000)"
  obtain st' where st': "?run [450, 500, 9000] = Some (True, st')" "?run [450] = None" "?run [] = None"
      "alarm_of st' 1 = 1100" by (simp add: tm_eval)
  have "\<forall>now \<in> set [450, 500, 9000]. now \<le> INT64_MAX" by (simp add: INT64_MAX_def)
  from timer_process_alarm_serves_due [OF _ one_timer_ok this, of "\<lambda>c a st. st" ESP_TIMER_TASK]
  have "tm_inv st' \<and> hw_ok st' ESP_TIMER_TASK" unfolding st' by simp
  then show ?thesis using st' by auto
qed

text \<open>
  Claim C6. The processing loop returns, with the clock moving: if the readings stay at or below \<open>T\<close>,
  and the callbacks make only timer calls that do not make more events due until \<open>T\<close> (they may stop
  and delete timers, create them, and start timers that are due later), then the call returns after at
  most as many passes as events are due until \<open>T\<close>, counting one for each period of a periodic timer,
  for any number of timers, periods and missed events; it returns at a reading at which no timer is due.
\<close>

theorem timer_process_alarm_ends:
  assumes cb: "\<And>c a st. tm_api\<^sup>*\<^sup>* st (cb c a st)"
    and fewer: "\<And>c a st. tm_inv st \<Longrightarrow> due_events d T (cb c a st) \<le> due_events d T st"
    and inv: "tm_inv st" "hw_min st" and clk: "\<forall>now \<in> set nows. now \<le> T" "T \<le> INT64_MAX"
    and n: "due_events d T st < length nows"
  shows "\<exists>processed st' rs now us. nows = rs @ now # us \<and> length rs \<le> due_events d T st \<and>
    timer_process_alarm cb d rs st = None \<and>
    (\<forall>us'. timer_process_alarm cb d (rs @ now # us') st = Some (processed, st')) \<and>
    tm_inv st' \<and> hw_min st' \<and> (\<forall>h \<in> set (s_timers st' d). now < alarm_of st' h)"
proof -
  have clk': "\<forall>now \<in> set nows. now \<le> INT64_MAX" using clk by auto
  obtain r rs now where l: "process_loop cb d nows False st = Some r"
      "returns_at (\<lambda>ns. process_loop cb d ns False st) nows r rs now" "length rs \<le> due_events d T st"
    using process_loop_ends [of cb d T st nows False] cb fewer clk inv(1) n by blast
  obtain processed st' where run: "timer_process_alarm cb d nows st = Some (processed, st')"
      "finish_alarm d r = (processed, st')"
    using l(1) by (cases "finish_alarm d r") (simp add: process_alarm_finish)
  have f: "tm_inv st'" "hw_min st'"
      "\<exists>rs now. returns_at (\<lambda>ns. timer_process_alarm cb d ns st) nows (processed, st') rs now \<and>
        (\<forall>h \<in> set (s_timers st' d). now < alarm_of st' h)"
    using process_alarm_inv [OF cb inv clk' run(1)] by auto
  have at: "returns_at (\<lambda>ns. timer_process_alarm cb d ns st) nows (processed, st') rs now"
    using l(2) run(2) by (simp add: returns_at_def process_alarm_finish)
  have "\<forall>h \<in> set (s_timers st' d). now < alarm_of st' h"
    using f(3) returns_at_unique [OF at] by blast
  then show ?thesis using at f(1,2) l(3) unfolding returns_at_def by blast
qed

text \<open>A callback that stops a timer makes no more events due.\<close>

definition stop_it :: "handle \<Rightarrow> timer_sys \<Rightarrow> timer_sys" where
  "stop_it h st = (case esp_timer_stop (Some h) st of Some (e, st') \<Rightarrow> st' | None \<Rightarrow> st)"

lemma stop_it_api: "tm_api\<^sup>*\<^sup>* st (stop_it h st)"
  using tm_api.stop [of h st] by (auto simp: stop_it_def split: option.splits)

lemma sum_list_remove1_le:
  fixes f g :: "handle \<Rightarrow> nat"
  shows "\<forall>x \<in> set xs. x \<noteq> h \<longrightarrow> f x = g x \<Longrightarrow> distinct xs \<Longrightarrow> sum_list (map f (remove1 h xs)) \<le> sum_list (map g xs)"
proof (induction xs)
  case (Cons x xs)
  show ?case
  proof (cases "x = h")
    case True
    then have "map f xs = map g xs" using Cons.prems by (intro map_cong) auto
    then have "sum_list (map f xs) = sum_list (map g xs)" by (rule arg_cong)
    then show ?thesis using True by (simp del: map_eq_conv)
  qed (use Cons in auto)
qed simp

lemma stop_it_due:
  assumes "tm_inv st"
  shows "due_events d T (stop_it h st) \<le> due_events d T st"
proof (cases "\<exists>t. store st h = Some t \<and> is_initialized st \<and> timer_armed t")
  case False
  then have "stop_it h st = st" by (cases "store st h") (auto simp: stop_it_def esp_timer_stop_def)
  then show ?thesis by simp
next
  case True
  then obtain t where t: "store st h = Some t" "is_initialized st" "timer_armed t" by blast
  have li: "h \<in> set (s_timers st (dispatch_of t))"
    using tm_invD(4) [OF assms t(1) _ refl] t(3) by (simp add: timer_armed_def word_gt_0)
  have s: "s_timers (stop_it h st) = (s_timers st)(dispatch_of t := remove1 h (s_timers st (dispatch_of t)))"
      "store (stop_it h st) = (store st)(h \<mapsto> t\<lparr>alarm := 0, period := 0\<rparr>)"
    using t li by (simp_all add: stop_it_def esp_timer_stop_def timer_remove_def Let_def)
  have "h \<notin> set (s_timers st d)" if "d \<noteq> dispatch_of t" using tm_inv_storeD [OF assms, of h d] t that by auto
  then have "s_timers (stop_it h st) d = remove1 h (s_timers st d)"
    using s(1) by (simp add: remove1_idem)
  then show ?thesis
    using s(2) tm_invD(1) [OF assms, of d] unfolding due_events_def by (simp, intro sum_list_remove1_le) auto
qed

theorem timer_process_alarm_ends_witness:
  "\<exists>rs now us processed st'. [2500, 3000, 3200, 3300, 3400] = rs @ now # us \<and>
     timer_process_alarm (\<lambda>c a. stop_it 1) ESP_TIMER_TASK (rs @ [now]) (one_timer 100 1000) = Some (processed, st') \<and>
     length rs \<le> 4 \<and> tm_inv st'"
proof -
  have due: "due_events ESP_TIMER_TASK 3500 (one_timer 100 1000) = 4"
    by (simp add: due_events_def due_of_def one_timer_def)
  obtain processed st' rs now us where r: "[2500, 3000, 3200, 3300, 3400] = rs @ now # us"
      "length rs \<le> due_events ESP_TIMER_TASK 3500 (one_timer 100 1000)"
      "\<forall>us'. timer_process_alarm (\<lambda>c a. stop_it 1) ESP_TIMER_TASK (rs @ now # us') (one_timer 100 1000) = Some (processed, st')"
      "tm_inv st'"
    using timer_process_alarm_ends [of "\<lambda>c a. stop_it 1" ESP_TIMER_TASK 3500 "one_timer 100 1000" "[2500, 3000, 3200, 3300, 3400]"]
      stop_it_api stop_it_due one_timer_ok due by (auto simp: INT64_MAX_def)
  from r(3) have "timer_process_alarm (\<lambda>c a. stop_it 1) ESP_TIMER_TASK (rs @ [now]) (one_timer 100 1000) = Some (processed, st')" by blast
  then show ?thesis using r(1,2,4) unfolding due by blast
qed

text \<open>
  Without the condition on the callbacks there is no bound: a callback that starts its own one-shot
  timer again with a timeout of 0 keeps the loop busy, whatever the readings from then on.
\<close>

definition start_again :: "timer_sys \<Rightarrow> timer_sys" where
  "start_again st = (case esp_timer_start_once (Some 1) 0 100 st of Some (e, st') \<Rightarrow> st' | None \<Rightarrow> st)"

lemma start_again_api: "tm_api\<^sup>*\<^sup>* st (start_again st)"
  using tm_api.start_once [of 1 0 100 st] by (auto simp: start_again_def split: option.splits)

theorem callback_keeps_loop_busy:
  assumes "\<forall>now \<in> set nows. 100 \<le> now"
  shows "timer_process_alarm (\<lambda>c a. start_again) ESP_TIMER_TASK nows (one_timer 100 0) = None"
proof -
  have again: "process_loop (\<lambda>c a. start_again) ESP_TIMER_TASK (now # ns) p (one_timer 100 0) =
      process_loop (\<lambda>c a. start_again) ESP_TIMER_TASK ns True (one_timer 100 0)" if "100 \<le> now" for now ns p
  proof -
    have "\<not> now < 100" using that by simp
    moreover have "start_again (put 1 \<lparr>alarm = 0, period = 0, tflags = 0, callback = 16, arg = 0\<rparr>
        (set_list ESP_TIMER_TASK [] (one_timer 100 0))) = one_timer 100 0"
      by (simp add: start_again_def esp_timer_start_once_def is_initialized_def timer_armed_def tm_eval fun_eq_iff)
    ultimately show ?thesis
      by (simp add: one_timer_def EVENT_ID_DELETE_TIMER_def put_def set_list_def)
  qed
  have "process_loop (\<lambda>c a. start_again) ESP_TIMER_TASK nows p (one_timer 100 0) = None" for p
    using assms by (induction nows arbitrary: p) (simp_all add: again del: process_loop.simps(2))
  then show ?thesis by (simp add: process_alarm_finish)
qed

theorem callback_keeps_loop_busy_witness:
  "timer_process_alarm (\<lambda>c a. start_again) ESP_TIMER_TASK [100, 200, 300] (one_timer 100 0) = None"
  by (rule callback_keeps_loop_busy) simp

text \<open>
  Deleting a timer that is not armed succeeds, and the timer task then frees it: after the
  next processing of the task list (with callbacks that leave the timers alone) the handle is
  gone from the store, so it is freed once and no list refers to it.
\<close>

theorem timer_delete_frees:
  assumes "tm_inv st" and "hw_min st" and "store st h = Some t" and "\<not> timer_armed t" and "now \<noteq> 0"
    and "\<forall>n \<in> set nows. now \<le> n \<and> n \<le> INT64_MAX"
    and "esp_timer_delete (Some h) now st = Some (e, st1)"
    and "timer_process_alarm (\<lambda>c a st. st) ESP_TIMER_TASK nows st1 = Some (processed, st2)"
  shows "e = ESP_OK \<and> store st2 h = None \<and> (\<forall>d. h \<notin> set (s_timers st2 d))"
proof -
  obtain e' st' where d: "esp_timer_delete (Some h) now st = Some (e', st')" "keeps st st'"
    "e' = ESP_OK \<longleftrightarrow> \<not> timer_armed t"
    "e' = ESP_OK \<Longrightarrow> store st' h = Some (t\<lparr>tflags := clr_flag (tflags t) FL_ISR_DISPATCH_METHOD,
        callback := EVENT_ID_DELETE_TIMER, alarm := now, period := 0\<rparr>)"
    using delete_step [OF assms(1,3,5)] by metis
  have st1: "e = ESP_OK" "tm_inv st1" "hw_min st1" "doomed h now st1"
    using d assms(1,2,4,7) by (auto simp: keeps_def doomed_def dispatch_of_def FL_ISR_DISPATCH_METHOD_def flag_simps)
  obtain it st3 where l: "process_loop (\<lambda>c a st. st) ESP_TIMER_TASK nows False st1 = Some (processed, it, st3)"
    "store st2 = store st3"
    using assms(8) by (auto simp: timer_process_alarm_def dest!: bind_eq_SomeD split: option.splits if_splits)
  have dm: "doomed h now st2"
    using process_loop_doomed [OF st1(2) assms(6) st1(4) assms(5) l(1)] l(2) by (simp add: doomed_def)
  have f: "tm_inv st2" "\<exists>n \<in> set nows. \<forall>h \<in> set (s_timers st2 ESP_TIMER_TASK). n < alarm_of st2 h"
    using process_alarm_inv [OF _ st1(2,3) _ assms(8)] assms(6) by (fastforce simp: returns_at_def)+
  have "store st2 h = None"
  proof (rule ccontr)
    assume "store st2 h \<noteq> None"
    then obtain t2 where t2: "store st2 h = Some t2" "alarm t2 = now" "dispatch_of t2 = ESP_TIMER_TASK"
      using dm by (auto simp: doomed_def)
    then have "h \<in> set (s_timers st2 ESP_TIMER_TASK)" using tm_invD(4) [OF f(1) t2(1) _ t2(3)] assms(5) by simp
    then show False using f(2) t2 assms(6) by (fastforce simp: alarm_of_def)
  qed
  then show ?thesis using st1(1) tm_inv_storeD [OF f(1)] by fastforce
qed

theorem timer_delete_frees_witness:
  "\<exists>st1 st2.
     esp_timer_delete (Some 2) 5 (tm_empty
       \<lparr>store := [2 \<mapsto> \<lparr>alarm = 0, period = 0, tflags = 1, callback = 16, arg = 0\<rparr>]\<rparr>) = Some (ESP_OK, st1) \<and>
     timer_process_alarm (\<lambda>c a st. st) ESP_TIMER_TASK [7, 8] st1 = Some (True, st2) \<and> store st2 2 = None"
proof -
  let ?t = "\<lparr>alarm = 0, period = 0, tflags = 1, callback = 16, arg = 0\<rparr>"
  let ?st = "tm_empty\<lparr>store := [2 \<mapsto> ?t]\<rparr>"
  have i: "tm_inv ?st" "hw_min ?st" by (simp_all add: tm_empty_def tm_defs hw_min_def)
  obtain e st1 where d: "esp_timer_delete (Some 2) 5 ?st = Some (e, st1)"
    by (simp add: esp_timer_delete_def timer_armed_def tm_eval)
  obtain p st2 where r: "timer_process_alarm (\<lambda>c a st. st) ESP_TIMER_TASK [7, 8] st1 = Some (p, st2)" "p"
    using d by (auto simp: esp_timer_delete_def timer_armed_def clr_flag_def tm_eval)
  have "e = ESP_OK \<and> store st2 2 = None \<and> (\<forall>d. 2 \<notin> set (s_timers st2 d))"
    by (rule timer_delete_frees [OF i _ _ _ _ d r(1), of ?t])
      (simp_all add: timer_armed_def INT64_MAX_def)
  then show ?thesis using d r by auto
qed

text \<open>
  \<open>esp_timer_get_next_alarm\<close> returns the earliest alarm of all armed timers of both
  dispatch methods (or \<open>INT64_MAX\<close>), and \<open>esp_timer_get_next_alarm_for_wake_up\<close> the earliest
  alarm of the armed timers that do not skip unhandled events.
\<close>

lemma closer_min: "closer a (map_option f x) = (case x of None \<Rightarrow> a | Some i \<Rightarrow> min a (f i))"
  by (auto simp: closer_def min_def split: option.splits)

lemma find_first_Min:
  assumes "sorted (map f hs)"
  shows "(case find P hs of None \<Rightarrow> a | Some i \<Rightarrow> min a (f i :: time)) = Min (insert a (f ` {h \<in> set hs. P h}))"
  using assms
proof (induction hs)
  case (Cons h hs)
  show ?case
  proof (cases "P h")
    case True
    have "Min (insert a (f ` {x \<in> set (h # hs). P x})) = min a (f h)"
    proof (rule Min_eqI)
      show "min a (f h) \<le> y" if "y \<in> insert a (f ` {x \<in> set (h # hs). P x})" for y
        using that Cons.prems by (auto simp: min_le_iff_disj)
    qed (use True in \<open>auto simp: min_def\<close>)
    then show ?thesis using True by simp
  next
    case False
    then have "{x \<in> set (h # hs). P x} = {x \<in> set hs. P x}" by auto
    then show ?thesis using Cons False by simp
  qed
qed simp

definition armed_alarms :: "timer_sys \<Rightarrow> (esp_timer \<Rightarrow> bool) \<Rightarrow> time set" where
  "armed_alarms st P = {alarm t | h t. store st h = Some t \<and> timer_armed t \<and> P t}"

lemma armed_alarms_lists:
  assumes "tm_inv st"
  shows "armed_alarms st P = alarm_of st ` {h \<in> set (s_timers st ESP_TIMER_TASK). \<exists>t. store st h = Some t \<and> P t} \<union>
     alarm_of st ` {h \<in> set (s_timers st ESP_TIMER_ISR). \<exists>t. store st h = Some t \<and> P t}" (is "?L = ?R")
proof
  show "?L \<subseteq> ?R"
  proof
    fix a assume "a \<in> ?L"
    then obtain h t where t: "store st h = Some t" "timer_armed t" "P t" "a = alarm t" by (auto simp: armed_alarms_def)
    then have "h \<in> set (s_timers st (dispatch_of t))" "a = alarm_of st h"
      using armed_iff [OF assms t(1)] by (auto simp: alarm_of_def)
    then show "a \<in> ?R" using t dispatch_cases [of "dispatch_of t"] by auto
  qed
  show "?R \<subseteq> ?L"
    using tm_inv_storeD [OF assms] by (fastforce simp: armed_alarms_def timer_armed_def alarm_of_def word_gt_0)
qed

lemma Min_insert_Min:
  assumes "finite A" "finite B"
  shows "Min (insert (Min (insert (a :: time) A)) B) = Min (insert a (A \<union> B))"
proof (cases "B = {}")
  case False
  then have "Min (insert a A \<union> B) = min (Min (insert a A)) (Min B)" using assms by (intro Min_Un) auto
  then show ?thesis using False assms by simp
qed simp

lemma closest_of_lists:
  assumes "tm_inv st"
  shows "closer (closer a (first_of st P ESP_TIMER_TASK)) (first_of st P ESP_TIMER_ISR) =
     Min (insert a (alarm_of st ` {h \<in> set (s_timers st ESP_TIMER_TASK). P h} \<union>
       alarm_of st ` {h \<in> set (s_timers st ESP_TIMER_ISR). P h}))"
proof -
  have c: "closer x (first_of st P d) = Min (insert x (alarm_of st ` {h \<in> set (s_timers st d). P h}))" for x d
    unfolding first_of_def closer_min by (rule find_first_Min [OF tm_invD(2) [OF assms]])
  let ?A = "alarm_of st ` {h \<in> set (s_timers st ESP_TIMER_TASK). P h}"
  let ?B = "alarm_of st ` {h \<in> set (s_timers st ESP_TIMER_ISR). P h}"
  have "Min (insert (Min (insert a ?A)) ?B) = Min (insert a (?A \<union> ?B))"
    by (rule Min_insert_Min) simp_all
  then show ?thesis unfolding c .
qed

theorem next_alarm_is_earliest:
  assumes "tm_inv st"
  shows "esp_timer_get_next_alarm st = Min (insert INT64_MAX (armed_alarms st (\<lambda>_. True))) \<and>
     esp_timer_get_next_alarm_for_wake_up st =
       Min (insert INT64_MAX (armed_alarms st (\<lambda>t. \<not> flag_set (tflags t) FL_SKIP_UNHANDLED_EVENTS)))"
proof -
  have "{h \<in> set (s_timers st d). True} = {h \<in> set (s_timers st d). \<exists>t. store st h = Some t \<and> True}"
    "{h \<in> set (s_timers st d). wakes_up st h} =
     {h \<in> set (s_timers st d). \<exists>t. store st h = Some t \<and> \<not> flag_set (tflags t) FL_SKIP_UNHANDLED_EVENTS}" for d
    using tm_inv_storeD [OF assms, of _ d] by (fastforce simp: wakes_up_def)+
  then show ?thesis
    unfolding esp_timer_get_next_alarm_def esp_timer_get_next_alarm_for_wake_up_def
      closest_of_lists [OF assms] armed_alarms_lists [OF assms] by simp
qed

theorem next_alarm_is_earliest_witness:
  "esp_timer_get_next_alarm (one_timer 100 1000) = Min (insert INT64_MAX (armed_alarms (one_timer 100 1000) (\<lambda>_. True)))"
  using next_alarm_is_earliest [OF one_timer_ok(1)] by simp

text \<open>
  A second interrupt while no interrupt-dispatched timer is due loses the programmed alarm.
  A task timer is due at 100 and a periodic interrupt timer at 101; the handler runs at 102 for
  both, clears the table entry of the task timer and serves the interrupt timer only. The alarm
  of the second entry, already past when it is programmed, raises the interrupt again: this run
  at 103 finds nothing due, clears the entry of the interrupt timer (next alarm 1101) and
  notifies the timer task, which serves the task timer at 104 and programs the earliest entry
  left: none. The interrupt timer is still armed, and the hardware alarm is disabled.
\<close>

definition two_timers :: timer_sys where
  "two_timers = tm_empty\<lparr>
     store := [1 \<mapsto> \<lparr>alarm = 100, period = 0, tflags = 0, callback = 16, arg = 0\<rparr>,
               2 \<mapsto> \<lparr>alarm = 101, period = 1000, tflags = 1, callback = 32, arg = 0\<rparr>],
     s_timers := (\<lambda>_. [])(ESP_TIMER_TASK := [1], ESP_TIMER_ISR := [2]),
     timestamp_id := (\<lambda>_. 0)(ESP_TIMER_TASK := 100, ESP_TIMER_ISR := 101), hw_alarm := 100\<rparr>"

theorem isr_alarm_lost:
  "tm_inv two_timers \<and> hw_min two_timers \<and>
   (\<exists>st1 st2 st3.
      timer_alarm_handler (\<lambda>c a st. st) False [102, 102] two_timers = Some (False, False, st1) \<and>
      timer_alarm_handler (\<lambda>c a st. st) False [103] st1 = Some (True, False, st2) \<and>
      timer_process_alarm (\<lambda>c a st. st) ESP_TIMER_TASK [104, 104] st2 = Some (True, st3) \<and>
      s_timers st3 ESP_TIMER_ISR = [2] \<and> alarm_of st3 2 = 1101 \<and> hw_alarm st3 = UINT64_MAX)"
proof -
  have "tm_inv two_timers" "hw_min two_timers"
    by (auto simp: two_timers_def tm_empty_def tm_defs hw_min_def alarm_of_def dispatch_of_def
        FL_ISR_DISPATCH_METHOD_def flag_set_def split: if_splits)
  then show ?thesis
    by (simp add: timer_alarm_handler_def esp_timer_impl_try_to_set_next_alarm_def two_timers_def tm_eval)
qed

text \<open>
  The timeout is added to the clock without an overflow check. A timeout that brings the sum
  to exactly \<open>2 ^ 64\<close> arms the timer with the alarm 0: the call reports success and links the
  timer, but the timer does not count as armed, so a second start links it again (which destroys
  the list: the model stops).
\<close>

theorem start_once_wraps_to_unarmed:
  assumes "tm_inv st" and "is_initialized st" and "store st h = Some t" and "\<not> timer_armed t"
  shows "\<exists>st1. esp_timer_start_once (Some h) (0 - now) now st = Some (ESP_OK, st1) \<and>
     h \<in> set (s_timers st1 (dispatch_of t)) \<and> esp_timer_is_active (Some h) st1 = Some False \<and>
     esp_timer_start_once (Some h) timeout_us now' st1 = None"
proof -
  have un: "h \<notin> set (s_timers st d)" for d by (rule not_listed [OF assms(1,3,4)])
  let ?t = "t\<lparr>alarm := 0, period := 0\<rparr>"
  obtain st1 where st1: "timer_insert h False (put h ?t st) = Some st1" "store st1 = (store st)(h \<mapsto> ?t)"
    "h \<in> set (s_timers st1 (dispatch_of t))" "s_timer_task st1 = s_timer_task st"
    using un by (auto simp: timer_insert_def Let_def dispatch_of_def)
  have "timer_insert h False (put h t' st1) = None" for t'
    using st1(3) by (cases "dispatch_of t") (auto simp: timer_insert_def Let_def)
  then show ?thesis using st1 assms(2-4)
    by (auto simp: esp_timer_start_once_def esp_timer_is_active_def timer_armed_def is_initialized_def)
qed

theorem start_once_wraps_to_unarmed_witness:
  "\<exists>st1. esp_timer_start_once (Some 2) (0 - 7) 7 (tm_empty
       \<lparr>store := [2 \<mapsto> \<lparr>alarm = 0, period = 0, tflags = 0, callback = 16, arg = 0\<rparr>]\<rparr>) = Some (ESP_OK, st1) \<and>
     2 \<in> set (s_timers st1 (dispatch_of \<lparr>alarm = 0, period = 0, tflags = 0, callback = 16, arg = 0\<rparr>)) \<and>
     esp_timer_is_active (Some 2) st1 = Some False \<and> esp_timer_start_once (Some 2) 10 20 st1 = None"
  by (rule start_once_wraps_to_unarmed)
    (simp_all add: tm_empty_def tm_defs is_initialized_def timer_armed_def)

end
