(* ===== verification/Log.thy ===== *)
theory Log
  imports Prelude "HOL-Library.Multiset"
begin

section \<open>Log levels per tag and their cache\<close>

text \<open>
  Model of \<open>log/log.c\<close>: the linked list of tags with their levels, and the cache of 31 tags, a
  binary min-heap in an array ordered by the generation of the last use. A tag is a pointer
  (\<^typ>\<open>nat\<close>) to a string; \<open>mem\<close> gives the string. The cache compares pointers, the list
  compares strings. The built-in checks of the debug build are assertions (\<open>None\<close>).
\<close>

subsection \<open>Data\<close>

definition TAG_CACHE_SIZE :: nat where "TAG_CACHE_SIZE = 31"
definition MAX_GENERATION :: nat where "MAX_GENERATION = 2 ^ 29 - 1"

record cached_tag_entry_t =
  ctag :: nat
  clevel :: nat
  generation :: nat

record log_state =
  s_log_tags :: "(string \<times> nat) list"
  esp_log_default_level :: nat
  s_log_cache :: "cached_tag_entry_t list"
  s_log_cache_max_generation :: nat
  s_log_cache_entry_count :: nat
  s_log_cache_misses :: nat

text \<open>The bit-fields \<open>level : 3\<close> and \<open>generation : 29\<close>.\<close>

definition mk_entry :: "nat \<Rightarrow> nat \<Rightarrow> nat \<Rightarrow> cached_tag_entry_t" where
  "mk_entry t l g = \<lparr>ctag = t, clevel = l mod 8, generation = g mod 2 ^ 29\<rparr>"

abbreviation gen :: "cached_tag_entry_t list \<Rightarrow> nat \<Rightarrow> nat" where
  "gen c i \<equiv> generation (c ! i)"

subsection \<open>The heap\<close>

definition heap_swap :: "nat \<Rightarrow> nat \<Rightarrow> 'a list \<Rightarrow> 'a list" where
  "heap_swap i j xs = xs[i := xs ! j, j := xs ! i]"

function heap_bubble_down :: "nat \<Rightarrow> cached_tag_entry_t list \<Rightarrow> cached_tag_entry_t list" where
  "heap_bubble_down index c =
     (if index < TAG_CACHE_SIZE div 2
      then let left_index = index * 2 + 1;
               right_index = left_index + 1;
               next = (if gen c left_index < gen c right_index then left_index else right_index)
           in heap_bubble_down next (heap_swap index next c)
      else c)"
  by pat_completeness auto
termination
  by (relation "measure (\<lambda>(i, c). TAG_CACHE_SIZE - i)") (auto simp: Let_def TAG_CACHE_SIZE_def)

declare heap_bubble_down.simps [simp del]

definition fix_cache_generation_overflow :: "log_state \<Rightarrow> log_state" where
  "fix_cache_generation_overflow st = st\<lparr>
     s_log_cache := map (\<lambda>i. if i < s_log_cache_entry_count st
        then (s_log_cache st ! i)\<lparr>generation := i\<rparr> else s_log_cache st ! i) [0..<length (s_log_cache st)],
     s_log_cache_max_generation := s_log_cache_entry_count st\<rparr>"

definition fix_if_needed :: "log_state \<Rightarrow> log_state" where
  "fix_if_needed st = (if s_log_cache_max_generation st = MAX_GENERATION
     then fix_cache_generation_overflow st else st)"

subsection \<open>Lookup\<close>

text \<open>The scan of the cache from index \<open>i\<close>, with the heap check of each entry it passes.\<close>

function cache_scan :: "(cached_tag_entry_t \<Rightarrow> bool) \<Rightarrow> nat \<Rightarrow> log_state \<Rightarrow> nat option option" where
  "cache_scan P i st =
     (if i < s_log_cache_entry_count st
      then do {
        configASSERT (i = 0 \<or> gen (s_log_cache st) ((i - 1) div 2) < gen (s_log_cache st) i);
        (if P (s_log_cache st ! i) then Some (Some i) else cache_scan P (i + 1) st) }
      else Some None)"
  by pat_completeness auto
termination
  by (relation "measure (\<lambda>(P, i, st). s_log_cache_entry_count st - i)") auto

declare cache_scan.simps [simp del]

definition touch :: "nat \<Rightarrow> log_state \<Rightarrow> log_state" where
  "touch i st = fix_if_needed (st\<lparr>
     s_log_cache := heap_bubble_down i ((s_log_cache st)
       [i := (s_log_cache st ! i)\<lparr>generation := s_log_cache_max_generation st mod 2 ^ 29\<rparr>]),
     s_log_cache_max_generation := s_log_cache_max_generation st + 1\<rparr>)"

definition get_cached_log_level :: "nat \<Rightarrow> log_state \<Rightarrow> (nat option \<times> log_state) option" where
  "get_cached_log_level tag st = do {
     r \<leftarrow> cache_scan (\<lambda>e. ctag e = tag) 0 st;
     (case r of
        None \<Rightarrow> Some (None, st)
      | Some i \<Rightarrow>
          let level = clevel (s_log_cache st ! i)
          in if s_log_cache_entry_count st = TAG_CACHE_SIZE
             then Some (Some level, touch i st) else Some (Some level, st)) }"

definition add_to_cache :: "nat \<Rightarrow> nat \<Rightarrow> log_state \<Rightarrow> log_state" where
  "add_to_cache tag level st =
     (let g = s_log_cache_max_generation st;
          n = s_log_cache_entry_count st;
          st1 = st\<lparr>s_log_cache_max_generation := g + 1\<rparr>
      in fix_if_needed
        (if n < TAG_CACHE_SIZE
         then st1\<lparr>s_log_cache := (s_log_cache st)[n := mk_entry tag level g], s_log_cache_entry_count := n + 1\<rparr>
         else st1\<lparr>s_log_cache := heap_bubble_down 0 ((s_log_cache st)[0 := mk_entry tag level g])\<rparr>))"

definition get_uncached_log_level :: "string \<Rightarrow> log_state \<Rightarrow> nat option" where
  "get_uncached_log_level tag st = map_option snd (find (\<lambda>e. fst e = tag) (s_log_tags st))"

definition esp_log_level_get :: "(nat \<Rightarrow> string) \<Rightarrow> nat \<Rightarrow> log_state \<Rightarrow> (nat \<times> log_state) option" where
  "esp_log_level_get mem tag st = do {
     (r, st1) \<leftarrow> get_cached_log_level tag st;
     (case r of
        Some level \<Rightarrow> Some (level, st1)
      | None \<Rightarrow>
          let level = (case get_uncached_log_level (mem tag) st1 of
                         Some l \<Rightarrow> l | None \<Rightarrow> esp_log_default_level st1);
              st2 = add_to_cache tag level st1
          in Some (level, st2\<lparr>s_log_cache_misses := s_log_cache_misses st2 + 1\<rparr>)) }"

definition should_output :: "nat \<Rightarrow> nat \<Rightarrow> bool" where
  "should_output level_for_message level_for_tag \<longleftrightarrow> level_for_message \<le> level_for_tag"

text \<open>Whether a message is printed; \<open>locked\<close> is the result of taking the lock in time.\<close>

definition esp_log_writev ::
  "bool \<Rightarrow> (nat \<Rightarrow> string) \<Rightarrow> nat \<Rightarrow> nat \<Rightarrow> log_state \<Rightarrow> (bool \<times> log_state) option" where
  "esp_log_writev locked mem level tag st =
     (if \<not> locked then Some (False, st)
      else do {
        (level_for_tag, st1) \<leftarrow> esp_log_level_get mem tag st;
        Some (should_output level level_for_tag, st1) })"

subsection \<open>Setting a level\<close>

definition clear_log_level_list :: "log_state \<Rightarrow> log_state" where
  "clear_log_level_list st = st\<lparr>s_log_tags := [], s_log_cache_entry_count := 0,
     s_log_cache_max_generation := 0, s_log_cache_misses := 0\<rparr>"

fun update_first :: "string \<Rightarrow> nat \<Rightarrow> (string \<times> nat) list \<Rightarrow> (string \<times> nat) list option" where
  "update_first s l [] = None"
| "update_first s l ((s', l') # es) =
     (if s' = s then Some ((s', l) # es) else map_option ((#) (s', l')) (update_first s l es))"

definition esp_log_level_set ::
  "bool \<Rightarrow> (nat \<Rightarrow> string) \<Rightarrow> nat \<Rightarrow> nat \<Rightarrow> log_state \<Rightarrow> log_state option" where
  "esp_log_level_set malloc_ok mem tag level st =
     (if mem tag = ''*'' then Some (clear_log_level_list (st\<lparr>esp_log_default_level := level\<rparr>))
      else
        let found = update_first (mem tag) (level mod 256) (s_log_tags st)
        in if found = None \<and> \<not> malloc_ok then Some st
           else do {
             let st1 = st\<lparr>s_log_tags := (case found of
                 Some es \<Rightarrow> es | None \<Rightarrow> (mem tag, level mod 256) # s_log_tags st)\<rparr>;
             r \<leftarrow> cache_scan (\<lambda>e. mem (ctag e) = mem tag) 0 st1;
             Some (case r of None \<Rightarrow> st1
               | Some i \<Rightarrow> st1\<lparr>s_log_cache := (s_log_cache st1)
                   [i := (s_log_cache st1 ! i)\<lparr>clevel := level mod 8\<rparr>]\<rparr>) })"

end
