(* ===== verification/Log_Spec.thy ===== *)
theory Log_Spec
  imports Log
begin

section \<open>The tag cache is a heap and never changes an answer\<close>

text \<open>
  The array stays a min-heap by generation with distinct generations and tags, so the built-in
  checks never fail and the entry that a full cache gives up is the least recently used one.
  The cached levels agree with the tag list, so a lookup returns the level last set for the tag.
\<close>

subsection \<open>Bubbling down\<close>

definition heap_ok :: "cached_tag_entry_t list \<Rightarrow> nat \<Rightarrow> bool" where
  "heap_ok c n \<longleftrightarrow> (\<forall>j. 0 < j \<longrightarrow> j < n \<longrightarrow> gen c ((j - 1) div 2) < gen c j)"

text \<open>
  A heap but for the entry at \<open>i\<close>, which has the greatest generation.
\<close>

definition hole :: "nat \<Rightarrow> cached_tag_entry_t list \<Rightarrow> bool" where
  "hole i c \<longleftrightarrow> length c = 31 \<and> i < 31 \<and> distinct (map generation c) \<and>
     (\<forall>j. 0 < j \<longrightarrow> j < 31 \<longrightarrow> (j - 1) div 2 \<noteq> i \<longrightarrow> gen c ((j - 1) div 2) < gen c j) \<and>
     (\<forall>k. 0 < i \<longrightarrow> 0 < k \<longrightarrow> k < 31 \<longrightarrow> (k - 1) div 2 = i \<longrightarrow> gen c ((i - 1) div 2) < gen c k) \<and>
     (\<forall>j < 31. j \<noteq> i \<longrightarrow> gen c j < gen c i)"

lemma child_iff: "0 < j \<Longrightarrow> (j - 1) div 2 = i \<longleftrightarrow> j = i * 2 + 1 \<or> j = i * 2 + 2" for i j :: nat
  by presburger

lemma swap_nth:
  "i < length xs \<Longrightarrow> j < length xs \<Longrightarrow>
   heap_swap i j xs ! k = (if k = j then xs ! i else if k = i then xs ! j else xs ! k)"
  by (auto simp: heap_swap_def nth_list_update)

lemma swap_keeps [simp]:
  "length (heap_swap i j xs) = length xs"
  "i < length xs \<Longrightarrow> j < length xs \<Longrightarrow> mset (heap_swap i j xs) = mset xs"
  "i < length xs \<Longrightarrow> j < length xs \<Longrightarrow> distinct (map f (heap_swap i j xs)) = distinct (map f xs)"
  using mset_swap [of j xs i] distinct_swap [of i "map f xs" j] by (simp_all add: heap_swap_def map_update)

lemma hole_step:
  assumes h: "hole i c" and i: "i < 15"
    and n: "n = (if gen c (i * 2 + 1) < gen c (i * 2 + 2) then i * 2 + 1 else i * 2 + 2)"
  shows "hole n (heap_swap i n c)"
proof -
  have len: "length c = 31" and dis: "distinct (map generation c)"
    and ord: "\<And>j. 0 < j \<Longrightarrow> j < 31 \<Longrightarrow> (j - 1) div 2 \<noteq> i \<Longrightarrow> gen c ((j - 1) div 2) < gen c j"
    and up: "\<And>k. 0 < i \<Longrightarrow> 0 < k \<Longrightarrow> k < 31 \<Longrightarrow> (k - 1) div 2 = i \<Longrightarrow> gen c ((i - 1) div 2) < gen c k"
    and mx: "\<And>j. j < 31 \<Longrightarrow> j \<noteq> i \<Longrightarrow> gen c j < gen c i"
    using h by (auto simp: hole_def)
  have n31: "n < 31" "0 < n" "n \<noteq> i" "(n - 1) div 2 = i" using n i by auto
  have sib: "gen c n < gen c k" if "0 < k" "k < 31" "(k - 1) div 2 = i" "k \<noteq> n" for k
  proof -
    have "gen c (i * 2 + 1) \<noteq> gen c (i * 2 + 2)"
      using nth_eq_iff_index_eq [OF dis, of "i * 2 + 1" "i * 2 + 2"] i len by simp
    moreover have "k = i * 2 + 1 \<or> k = i * 2 + 2" using child_iff [OF that(1)] that(3) by blast
    ultimately show ?thesis using that(4) n by (auto split: if_splits)
  qed
  let ?c = "heap_swap i n c"
  have nth: "gen ?c k = (if k = n then gen c i else if k = i then gen c n else gen c k)" for k
    using n31 i len by (simp add: swap_nth)
  have "gen ?c ((j - 1) div 2) < gen ?c j" if "0 < j" "j < 31" "(j - 1) div 2 \<noteq> n" for j
  proof (cases "(j - 1) div 2 = i")
    case True
    have "j \<noteq> i" using True that(1) by presburger
    then show ?thesis using True sib [OF that(1,2) True] mx [OF n31(1,3)] n31(3) nth by simp
  next
    case False
    have pj: "(j - 1) div 2 < 31" using that(2) by auto
    have "j \<noteq> n" using False n31(4) by auto
    show ?thesis
    proof (cases "j = i")
      case True
      then have "gen c ((j - 1) div 2) < gen c n" using up [of n] n31 that(1) by simp
      then show ?thesis using True \<open>j \<noteq> n\<close> False that(3) nth by simp
    next
      case ji: False
      then show ?thesis using ord [OF that(1,2) False] \<open>j \<noteq> n\<close> that(3) False nth by simp
    qed
  qed
  moreover have "gen ?c ((n - 1) div 2) < gen ?c k" if "0 < k" "k < 31" "(k - 1) div 2 = n" for k
  proof -
    have k: "k \<noteq> n" "k \<noteq> i" using that n31 by (auto simp: child_iff)
    have "gen c n < gen c k" using ord [OF that(1,2)] that(3) n31(3) by simp
    then show ?thesis using k n31(3,4) nth by simp
  qed
  moreover have "gen ?c j < gen ?c n" if "j < 31" "j \<noteq> n" for j
    using that mx [OF n31(1,3)] mx [of j] nth by auto
  ultimately show ?thesis unfolding hole_def using n31(1) len dis i by auto
qed

lemma bubble_down_heap:
  assumes "hole i c"
  shows "heap_ok (heap_bubble_down i c) 31 \<and> length (heap_bubble_down i c) = 31 \<and>
     mset (heap_bubble_down i c) = mset c"
  using assms
proof (induction i c rule: heap_bubble_down.induct)
  case (1 i c)
  let ?n = "if gen c (i * 2 + 1) < gen c (i * 2 + 2) then i * 2 + 1 else i * 2 + 2"
  show ?case
  proof (cases "i < 15")
    case True
    have eq: "heap_bubble_down i c = heap_bubble_down ?n (heap_swap i ?n c)"
      using True by (subst heap_bubble_down.simps) (simp add: TAG_CACHE_SIZE_def Let_def)
    have l: "length c = 31" "?n < 31" using "1.prems" True by (auto simp: hole_def)
    have "hole ?n (heap_swap i ?n c)" by (rule hole_step [OF "1.prems" True refl])
    then show ?thesis using "1.IH" [of "i * 2 + 1" "i * 2 + 2" ?n] True l
      unfolding eq by (simp add: TAG_CACHE_SIZE_def)
  next
    case False
    then have "heap_bubble_down i c = c"
      by (subst heap_bubble_down.simps) (simp add: TAG_CACHE_SIZE_def)
    moreover have "heap_ok c 31" unfolding heap_ok_def
      using "1.prems" False by (auto simp: hole_def child_iff)
    ultimately show ?thesis using "1.prems" by (simp add: hole_def)
  qed
qed

lemma heap_root_min:
  assumes "heap_ok c n" "j < n"
  shows "gen c 0 \<le> gen c j"
  using assms(2)
proof (induction j rule: less_induct)
  case (less j)
  show ?case
  proof (cases "j = 0")
    case False
    then have "gen c 0 \<le> gen c ((j - 1) div 2)" using less.IH [of "(j - 1) div 2"] less.prems by auto
    also have "\<dots> < gen c j" using assms(1) less.prems False by (simp add: heap_ok_def)
    finally show ?thesis by simp
  qed simp
qed

subsection \<open>Invariant of the cache\<close>

definition log_inv :: "log_state \<Rightarrow> bool" where
  "log_inv st \<longleftrightarrow>
     (let c = s_log_cache st; n = s_log_cache_entry_count st in
      length c = 31 \<and> n \<le> 31 \<and> heap_ok c n \<and> distinct (map generation (take n c)) \<and>
      (\<forall>e \<in> set (take n c). generation e < s_log_cache_max_generation st) \<and>
      s_log_cache_max_generation st < MAX_GENERATION \<and> distinct (map ctag (take n c)))"

lemma log_invD:
  assumes "log_inv st"
  shows "length (s_log_cache st) = 31" "s_log_cache_entry_count st \<le> 31"
    "heap_ok (s_log_cache st) (s_log_cache_entry_count st)"
    "distinct (map generation (take (s_log_cache_entry_count st) (s_log_cache st)))"
    "\<And>e. e \<in> set (take (s_log_cache_entry_count st) (s_log_cache st)) \<Longrightarrow>
       generation e < s_log_cache_max_generation st"
    "s_log_cache_max_generation st < MAX_GENERATION"
    "distinct (map ctag (take (s_log_cache_entry_count st) (s_log_cache st)))"
  using assms by (auto simp: log_inv_def Let_def)

lemma generation_fits: "log_inv st \<Longrightarrow> s_log_cache_max_generation st mod 2 ^ 29 = s_log_cache_max_generation st"
  using log_invD(6) [of st] by (simp add: MAX_GENERATION_def)

text \<open>The entries in use, without their order and generations.\<close>

definition cached :: "log_state \<Rightarrow> (nat \<times> nat) multiset" where
  "cached st = image_mset (\<lambda>e. (ctag e, clevel e)) (mset (take (s_log_cache_entry_count st) (s_log_cache st)))"

lemma distinct_mset_map:
  "mset xs = mset ys \<Longrightarrow> distinct (map f xs) = distinct (map f ys)"
  using mset_eq_imp_distinct_iff [of "map f xs" "map f ys"] by simp

lemma distinct_map_update:
  assumes "distinct (map f xs)" "\<And>j. j < length xs \<Longrightarrow> j \<noteq> i \<Longrightarrow> f (xs ! j) \<noteq> f e"
  shows "distinct (map f (xs[i := e]))"
proof (cases "i < length xs")
  case True
  show ?thesis unfolding distinct_conv_nth
  proof (intro allI impI)
    fix a b assume ab: "a < length (map f (xs[i := e]))" "b < length (map f (xs[i := e]))" "a \<noteq> b"
    then have "f (xs ! a) \<noteq> f (xs ! b)" using assms(1) by (auto simp: distinct_conv_nth)
    then show "map f (xs[i := e]) ! a \<noteq> map f (xs[i := e]) ! b"
      using ab True assms(2) [of a] assms(2) [of b] by (cases "a = i"; cases "b = i") auto
  qed
qed (use assms in \<open>simp add: list_update_beyond\<close>)

lemma fix_overflow_inv:
  assumes "length (s_log_cache st) = 31" "s_log_cache_entry_count st \<le> 31"
    "distinct (map ctag (take (s_log_cache_entry_count st) (s_log_cache st)))"
  shows "log_inv (fix_cache_generation_overflow st)" "cached (fix_cache_generation_overflow st) = cached st"
proof -
  let ?n = "s_log_cache_entry_count st" and ?c = "s_log_cache st"
  let ?st = "fix_cache_generation_overflow st"
  have tk: "take ?n (s_log_cache ?st) = map (\<lambda>i. (?c ! i)\<lparr>generation := i\<rparr>) [0..<?n]"
    using assms(1,2) by (auto simp: fix_cache_generation_overflow_def take_map intro: nth_equalityI)
  have fst: "map f (take ?n (s_log_cache ?st)) = map f (take ?n ?c)"
    if "\<And>e g. f (e\<lparr>generation := g\<rparr>) = f e" for f :: "cached_tag_entry_t \<Rightarrow> 'b"
    unfolding tk using assms(1,2) that by (auto intro!: nth_equalityI)
  have ct: "map ctag (take ?n (s_log_cache ?st)) = map ctag (take ?n ?c)" by (rule fst) simp
  have "map (\<lambda>e. (ctag e, clevel e)) (take ?n (s_log_cache ?st)) = map (\<lambda>e. (ctag e, clevel e)) (take ?n ?c)"
    by (rule fst) simp
  then show "cached ?st = cached st"
    unfolding cached_def mset_map [symmetric] by (simp add: fix_cache_generation_overflow_def)
  have "heap_ok (s_log_cache ?st) ?n"
    unfolding heap_ok_def using assms(1,2) by (auto simp: fix_cache_generation_overflow_def)
  moreover have "distinct (map generation (take ?n (s_log_cache ?st)))"
    "\<forall>e \<in> set (take ?n (s_log_cache ?st)). generation e < ?n"
    unfolding tk by (auto simp: comp_def)
  moreover have "s_log_cache_entry_count ?st = ?n" "s_log_cache_max_generation ?st = ?n"
    "length (s_log_cache ?st) = 31" using assms(1) by (simp_all add: fix_cache_generation_overflow_def)
  ultimately show "log_inv ?st" using assms ct by (simp add: log_inv_def Let_def MAX_GENERATION_def)
qed

lemma fix_if_needed_inv:
  assumes "length (s_log_cache st) = 31" "s_log_cache_entry_count st \<le> 31"
    "heap_ok (s_log_cache st) (s_log_cache_entry_count st)"
    "distinct (map generation (take (s_log_cache_entry_count st) (s_log_cache st)))"
    "\<forall>e \<in> set (take (s_log_cache_entry_count st) (s_log_cache st)). generation e < s_log_cache_max_generation st"
    "s_log_cache_max_generation st \<le> MAX_GENERATION"
    "distinct (map ctag (take (s_log_cache_entry_count st) (s_log_cache st)))"
  shows "log_inv (fix_if_needed st)" "cached (fix_if_needed st) = cached st"
  using assms fix_overflow_inv [of st] by (auto simp: fix_if_needed_def log_inv_def Let_def)

lemma fix_sel [simp]:
  "s_log_tags (fix_if_needed st) = s_log_tags st"
  "esp_log_default_level (fix_if_needed st) = esp_log_default_level st"
  by (simp_all add: fix_if_needed_def fix_cache_generation_overflow_def)

subsection \<open>A full cache: replacing or refreshing an entry\<close>

lemma hole_new:
  assumes inv: "log_inv st" and n: "s_log_cache_entry_count st = 31" and i: "i < 31"
    and e: "generation e = s_log_cache_max_generation st"
  shows "hole i ((s_log_cache st)[i := e])"
proof -
  let ?c = "s_log_cache st" and ?g = "s_log_cache_max_generation st"
  note d = log_invD [OF inv]
  have len: "length ?c = 31" and tk: "take 31 ?c = ?c" using d(1) by auto
  have lt: "gen ?c j < ?g" if "j < 31" for j using d(5) that n tk len by (metis nth_mem)
  have h: "gen ?c ((j - 1) div 2) < gen ?c j" if "0 < j" "j < 31" for j
    using d(3) n that by (simp add: heap_ok_def)
  have nth: "gen (?c[i := e]) j = (if j = i then ?g else gen ?c j)" if "j < 31" for j
    using e i len that by (simp add: nth_list_update)
  have dis: "distinct (map generation (?c[i := e]))"
    using d(4) n tk e lt len by (intro distinct_map_update) force+
  have up: "gen ?c ((i - 1) div 2) < gen ?c k" if "0 < i" "0 < k" "k < 31" "(k - 1) div 2 = i" for k
    using h [of i] h [of k] that i by auto
  have pj: "(j - 1) div 2 < 31" if "j < 31" for j :: nat using that by auto
  show ?thesis unfolding hole_def
    using len i dis
    by (intro conjI allI impI)
      (use nth lt h pj up e in \<open>auto simp: child_iff\<close>)
qed

lemma full_put:
  assumes inv: "log_inv st" and n: "s_log_cache_entry_count st = 31" and i: "i < 31"
    and e: "generation e = s_log_cache_max_generation st" and t: "\<And>j. j < 31 \<Longrightarrow> j \<noteq> i \<Longrightarrow> ctag (s_log_cache st ! j) \<noteq> ctag e"
  defines "st' \<equiv> fix_if_needed (st\<lparr>s_log_cache := heap_bubble_down i ((s_log_cache st)[i := e]),
     s_log_cache_max_generation := s_log_cache_max_generation st + 1\<rparr>)"
  shows "log_inv st'"
    "cached st' = add_mset (ctag e, clevel e) (cached st - {#(ctag (s_log_cache st ! i), clevel (s_log_cache st ! i))#})"
proof -
  let ?c = "s_log_cache st" and ?c' = "(s_log_cache st)[i := e]" and ?g = "s_log_cache_max_generation st"
  note d = log_invD [OF inv]
  have len: "length ?c = 31" using d(1) .
  have b: "heap_ok (heap_bubble_down i ?c') 31" "length (heap_bubble_down i ?c') = 31"
    "mset (heap_bubble_down i ?c') = mset ?c'"
    using bubble_down_heap [OF hole_new [OF inv n i e]] by auto
  have tk: "take 31 (heap_bubble_down i ?c') = heap_bubble_down i ?c'" "take 31 ?c = ?c" using b(2) len by auto
  have dg: "distinct (map generation ?c')" using hole_new [OF inv n i e] by (simp add: hole_def)
  have dt: "distinct (map ctag ?c')"
    using d(7) n tk(2) t len by (intro distinct_map_update) auto
  have bd: "generation x < ?g + 1" if "x \<in> set (heap_bubble_down i ?c')" for x
  proof -
    have "x \<in> set ?c'" using that b(3) by (metis set_mset_mset)
    then have "x = e \<or> x \<in> set ?c" using set_update_subset_insert by fastforce
    then show ?thesis using e d(5) [of x] n tk(2) by auto
  qed
  let ?st = "st\<lparr>s_log_cache := heap_bubble_down i ?c', s_log_cache_max_generation := ?g + 1\<rparr>"
  have "log_inv (fix_if_needed ?st) \<and> cached (fix_if_needed ?st) = cached ?st"
    using fix_if_needed_inv [of ?st] b dg dt bd n tk d(6)
      distinct_mset_map [OF b(3), of generation] distinct_mset_map [OF b(3), of ctag] by simp
  moreover have "cached ?st = add_mset (ctag e, clevel e) (cached st - {#(ctag (?c ! i), clevel (?c ! i))#})"
    using n tk b(3) i len by (simp add: cached_def mset_update image_mset_Diff)
  ultimately show "log_inv st'"
    "cached st' = add_mset (ctag e, clevel e) (cached st - {#(ctag (?c ! i), clevel (?c ! i))#})"
    by (simp_all add: st'_def)
qed

subsection \<open>The operations\<close>

lemma cache_scan_spec:
  assumes "log_inv st"
  shows "\<exists>r. cache_scan P i st = Some r \<and> (case r of
       None \<Rightarrow> \<forall>j. i \<le> j \<longrightarrow> j < s_log_cache_entry_count st \<longrightarrow> \<not> P (s_log_cache st ! j)
     | Some k \<Rightarrow> i \<le> k \<and> k < s_log_cache_entry_count st \<and> P (s_log_cache st ! k) \<and>
         (\<forall>j. i \<le> j \<longrightarrow> j < k \<longrightarrow> \<not> P (s_log_cache st ! j)))"
  using assms
proof (induction P i st rule: cache_scan.induct)
  case (1 P i st)
  let ?n = "s_log_cache_entry_count st" and ?c = "s_log_cache st"
  show ?case
  proof (cases "i < ?n")
    case lt: True
    have h: "i = 0 \<or> gen ?c ((i - 1) div 2) < gen ?c i" using log_invD(3) [OF "1.prems"] lt by (auto simp: heap_ok_def)
    show ?thesis
    proof (cases "P (?c ! i)")
      case True
      then show ?thesis using lt h by (subst cache_scan.simps) auto
    next
      case False
      have eq: "cache_scan P i st = cache_scan P (i + 1) st" using lt h False by (subst cache_scan.simps) auto
      obtain r where r: "cache_scan P (i + 1) st = Some r" "case r of
          None \<Rightarrow> \<forall>j. i + 1 \<le> j \<longrightarrow> j < ?n \<longrightarrow> \<not> P (?c ! j)
        | Some k \<Rightarrow> i + 1 \<le> k \<and> k < ?n \<and> P (?c ! k) \<and> (\<forall>j. i + 1 \<le> j \<longrightarrow> j < k \<longrightarrow> \<not> P (?c ! j))"
        using "1.IH" [OF lt _ False "1.prems"] h by auto
      have "i + 1 \<le> j \<or> j = i" if "i \<le> j" for j using that by auto
      then show ?thesis using r False eq by (intro exI [of _ r]) (auto split: option.splits)
    qed
  next
    case False
    then show ?thesis by (subst cache_scan.simps) auto
  qed
qed

lemma in_cached:
  assumes "log_inv st" "k < s_log_cache_entry_count st"
  shows "(ctag (s_log_cache st ! k), clevel (s_log_cache st ! k)) \<in># cached st"
  using assms log_invD(1,2) [OF assms(1)] by (force simp: cached_def in_set_conv_nth image_iff)

lemma in_cachedE:
  assumes "x \<in># cached st" "log_inv st"
  obtains k where "k < s_log_cache_entry_count st" "x = (ctag (s_log_cache st ! k), clevel (s_log_cache st ! k))"
  using assms log_invD(1,2) [OF assms(2)] by (auto simp: cached_def in_set_conv_nth)

lemma append_put:
  assumes inv: "log_inv st" and n: "s_log_cache_entry_count st < 31"
    and t: "\<And>j. j < s_log_cache_entry_count st \<Longrightarrow> ctag (s_log_cache st ! j) \<noteq> tag"
  shows "log_inv (add_to_cache tag level st)" "cached (add_to_cache tag level st) = add_mset (tag, level mod 8) (cached st)"
proof -
  let ?n = "s_log_cache_entry_count st" and ?c = "s_log_cache st" and ?g = "s_log_cache_max_generation st"
  let ?e = "mk_entry tag level ?g"
  let ?st = "st\<lparr>s_log_cache_max_generation := ?g + 1, s_log_cache := ?c[?n := ?e], s_log_cache_entry_count := ?n + 1\<rparr>"
  note d = log_invD [OF inv]
  have e: "generation ?e = ?g" "ctag ?e = tag" "clevel ?e = level mod 8"
    using generation_fits [OF inv] by (simp_all add: mk_entry_def)
  have tk: "take (Suc ?n) (?c[?n := ?e]) = take ?n ?c @ [?e]"
    using d(1) n by (simp add: take_Suc_conv_app_nth)
  have "heap_ok (?c[?n := ?e]) (?n + 1)"
    unfolding heap_ok_def
  proof (intro allI impI)
    fix j assume j: "0 < j" "j < ?n + 1"
    then have p: "(j - 1) div 2 < ?n" "(j - 1) div 2 \<noteq> ?n" by auto
    have "?c ! ((j - 1) div 2) \<in> set (take ?n ?c)" using p d(1) n by (auto simp: in_set_conv_nth)
    then show "gen (?c[?n := ?e]) ((j - 1) div 2) < gen (?c[?n := ?e]) j"
      using d(3,5) j p e d(1) n by (cases "j = ?n") (auto simp: heap_ok_def)
  qed
  moreover have "tag \<notin> ctag ` set (take ?n ?c)" using t d(1) n by (fastforce simp: in_set_conv_nth)
  moreover have "?g \<notin> generation ` set (take ?n ?c)" using d(5) by force
  moreover have "\<forall>x \<in> set (take ?n ?c). generation x < ?g + 1" using d(5) by (simp add: less_SucI)
  ultimately have "log_inv (fix_if_needed ?st) \<and> cached (fix_if_needed ?st) = cached ?st"
    using fix_if_needed_inv [of ?st] d n e tk by simp
  moreover have "add_to_cache tag level st = fix_if_needed ?st"
    using n by (simp add: add_to_cache_def Let_def TAG_CACHE_SIZE_def)
  moreover have "cached ?st = add_mset (tag, level mod 8) (cached st)" using tk e by (simp add: cached_def)
  ultimately show "log_inv (add_to_cache tag level st)"
    "cached (add_to_cache tag level st) = add_mset (tag, level mod 8) (cached st)" by simp_all
qed

lemma cache_upd_swap:
  "st\<lparr>s_log_cache_max_generation := g, s_log_cache := c\<rparr> = st\<lparr>s_log_cache := c, s_log_cache_max_generation := g\<rparr>"
  by simp

lemma replace_put:
  assumes inv: "log_inv st" and n: "s_log_cache_entry_count st = 31"
    and t: "\<And>j. j < s_log_cache_entry_count st \<Longrightarrow> ctag (s_log_cache st ! j) \<noteq> tag"
  shows "log_inv (add_to_cache tag level st)"
    "cached (add_to_cache tag level st) = add_mset (tag, level mod 8)
       (cached st - {#(ctag (s_log_cache st ! 0), clevel (s_log_cache st ! 0))#})"
proof -
  let ?g = "s_log_cache_max_generation st"
  let ?e = "mk_entry tag level ?g"
  have e: "generation ?e = ?g" "ctag ?e = tag" "clevel ?e = level mod 8"
    using generation_fits [OF inv] by (simp_all add: mk_entry_def)
  have eq: "add_to_cache tag level st = fix_if_needed (st\<lparr>s_log_cache := heap_bubble_down 0 ((s_log_cache st)[0 := ?e]),
      s_log_cache_max_generation := ?g + 1\<rparr>)"
    using n by (simp add: add_to_cache_def Let_def TAG_CACHE_SIZE_def cache_upd_swap)
  show "log_inv (add_to_cache tag level st)"
    "cached (add_to_cache tag level st) = add_mset (tag, level mod 8)
       (cached st - {#(ctag (s_log_cache st ! 0), clevel (s_log_cache st ! 0))#})"
    unfolding eq using full_put [OF inv n _ e(1), of 0] t n e(2,3) by simp_all
qed

lemma touch_inv:
  assumes inv: "log_inv st" and n: "s_log_cache_entry_count st = 31" and i: "i < 31"
  shows "log_inv (touch i st)" "cached (touch i st) = cached st"
proof -
  let ?g = "s_log_cache_max_generation st" and ?c = "s_log_cache st"
  let ?e = "(?c ! i)\<lparr>generation := ?g mod 2 ^ 29\<rparr>"
  have e: "generation ?e = ?g" using generation_fits [OF inv] by simp
  have t: "ctag (?c ! j) \<noteq> ctag ?e" if "j < 31" "j \<noteq> i" for j
    using log_invD(1,7) [OF inv] n i that nth_eq_iff_index_eq [of "map ctag ?c" j i] by auto
  note f = full_put [OF inv n i e t]
  show "log_inv (touch i st)" using f(1) unfolding touch_def by simp
  show "cached (touch i st) = cached st"
    using f(2) insert_DiffM [OF in_cached [OF inv, of i]] n i unfolding touch_def by simp
qed

subsection \<open>The levels that the tag list gives\<close>

definition level_spec :: "log_state \<Rightarrow> string \<Rightarrow> nat" where
  "level_spec st s = (case map_of (s_log_tags st) s of Some l \<Rightarrow> l | None \<Rightarrow> esp_log_default_level st)"

definition levels_ok :: "log_state \<Rightarrow> bool" where
  "levels_ok st \<longleftrightarrow> esp_log_default_level st < 8 \<and> (\<forall>e \<in> set (s_log_tags st). snd e < 8)"

definition cache_agrees :: "(nat \<Rightarrow> string) \<Rightarrow> log_state \<Rightarrow> bool" where
  "cache_agrees mem st \<longleftrightarrow> (\<forall>(t, l) \<in># cached st. l = level_spec st (mem t))"

definition log_ok :: "(nat \<Rightarrow> string) \<Rightarrow> log_state \<Rightarrow> bool" where
  "log_ok mem st \<longleftrightarrow> log_inv st \<and> levels_ok st \<and> cache_agrees mem st"

lemma get_uncached_map_of: "get_uncached_log_level s st = map_of (s_log_tags st) s"
proof -
  have "map_option snd (find (\<lambda>e. fst e = s) es) = map_of es s" for es :: "(string \<times> nat) list"
    by (induction es) auto
  then show ?thesis by (simp add: get_uncached_log_level_def)
qed

lemma level_spec_lt: "levels_ok st \<Longrightarrow> level_spec st s < 8"
  by (auto simp: levels_ok_def level_spec_def split: option.splits dest!: map_of_SomeD)

lemma level_spec_cong:
  "s_log_tags st' = s_log_tags st \<Longrightarrow> esp_log_default_level st' = esp_log_default_level st \<Longrightarrow>
   level_spec st' = level_spec st \<and> levels_ok st' = levels_ok st"
  by (simp add: level_spec_def levels_ok_def fun_eq_iff split: option.splits)

lemma add_to_cache_sel [simp]:
  "s_log_tags (add_to_cache t l st) = s_log_tags st"
  "esp_log_default_level (add_to_cache t l st) = esp_log_default_level st"
  by (simp_all add: add_to_cache_def Let_def)

lemma touch_sel [simp]:
  "s_log_tags (touch i st) = s_log_tags st" "esp_log_default_level (touch i st) = esp_log_default_level st"
  by (simp_all add: touch_def)

lemma misses_inv [simp]:
  "log_inv (st\<lparr>s_log_cache_misses := k\<rparr>) = log_inv st" "cached (st\<lparr>s_log_cache_misses := k\<rparr>) = cached st"
  by (simp_all add: log_inv_def cached_def)

lemma add_to_cache_cases:
  assumes "log_inv st" "\<And>j. j < s_log_cache_entry_count st \<Longrightarrow> ctag (s_log_cache st ! j) \<noteq> tag"
  shows "log_inv (add_to_cache tag level st)"
    "set_mset (cached (add_to_cache tag level st)) \<subseteq> insert (tag, level mod 8) (set_mset (cached st))"
proof -
  have "log_inv (add_to_cache tag level st) \<and>
    set_mset (cached (add_to_cache tag level st)) \<subseteq> insert (tag, level mod 8) (set_mset (cached st))"
  proof (cases "s_log_cache_entry_count st < 31")
    case True
    then show ?thesis using append_put [OF assms(1) True assms(2)] by simp
  next
    case False
    then have n: "s_log_cache_entry_count st = 31" using log_invD(2) [OF assms(1)] by simp
    show ?thesis using replace_put [OF assms(1) n assms(2)] by (auto dest: in_diffD)
  qed
  then show "log_inv (add_to_cache tag level st)"
    "set_mset (cached (add_to_cache tag level st)) \<subseteq> insert (tag, level mod 8) (set_mset (cached st))" by auto
qed

lemma level_get_ok:
  assumes ok: "log_ok mem st"
  shows "\<exists>st'. esp_log_level_get mem tag st = Some (level_spec st (mem tag), st') \<and> log_ok mem st' \<and>
     level_spec st' = level_spec st"
proof -
  have inv: "log_inv st" "levels_ok st" and ag: "\<And>t l. (t, l) \<in># cached st \<Longrightarrow> l = level_spec st (mem t)"
    using ok by (auto simp: log_ok_def cache_agrees_def)
  let ?n = "s_log_cache_entry_count st" and ?c = "s_log_cache st"
  obtain r where r: "cache_scan (\<lambda>e. ctag e = tag) 0 st = Some r" "case r of
      None \<Rightarrow> \<forall>j. 0 \<le> j \<longrightarrow> j < ?n \<longrightarrow> ctag (?c ! j) \<noteq> tag
    | Some k \<Rightarrow> 0 \<le> k \<and> k < ?n \<and> ctag (?c ! k) = tag \<and> (\<forall>j. 0 \<le> j \<longrightarrow> j < k \<longrightarrow> ctag (?c ! j) \<noteq> tag)"
    using cache_scan_spec [OF inv(1)] by blast
  show ?thesis
  proof (cases r)
    case (Some k)
    then have k: "k < ?n" "clevel (?c ! k) = level_spec st (mem tag)"
      using r(2) ag [OF in_cached [OF inv(1), of k]] by auto
    have "log_inv (touch k st) \<and> cached (touch k st) = cached st" if "?n = 31"
      using touch_inv [OF inv(1) that] k(1) that by simp
    then have "log_ok mem (touch k st) \<and> level_spec (touch k st) = level_spec st" if "?n = 31"
      using ok level_spec_cong [of "touch k st" st] that by (simp add: log_ok_def cache_agrees_def)
    then show ?thesis using r(1) Some k ok
      by (auto simp: esp_log_level_get_def get_cached_log_level_def TAG_CACHE_SIZE_def Let_def)
  next
    case None
    let ?l = "level_spec st (mem tag)"
    let ?st2 = "add_to_cache tag ?l st"
    let ?st' = "?st2\<lparr>s_log_cache_misses := s_log_cache_misses ?st2 + 1\<rparr>"
    have miss: "\<And>j. j < ?n \<Longrightarrow> ctag (?c ! j) \<noteq> tag" using r(2) None by simp
    note a = add_to_cache_cases [OF inv(1) miss, of ?l]
    have sp: "level_spec ?st' = level_spec st" "levels_ok ?st'"
      using level_spec_cong [of ?st' st] inv(2) by auto
    have "?l mod 8 = ?l" using level_spec_lt [OF inv(2)] by simp
    then have "cache_agrees mem ?st'" unfolding cache_agrees_def sp using a(2) ag by auto
    then have "log_ok mem ?st'" using a(1) sp(2) by (simp add: log_ok_def)
    moreover have "esp_log_level_get mem tag st = Some (?l, ?st')"
      using r(1) None by (simp add: esp_log_level_get_def get_cached_log_level_def
          get_uncached_map_of level_spec_def Let_def)
    ultimately show ?thesis using sp(1) by blast
  qed
qed

lemma update_first_spec:
  assumes "update_first s l es = Some es'"
  shows "map_of es' = (map_of es)(s \<mapsto> l) \<and> snd ` set es' \<subseteq> insert l (snd ` set es)"
  using assms
proof (induction es arbitrary: es')
  case (Cons e es)
  obtain s' l' where e: "e = (s', l')" by (cases e)
  show ?case
  proof (cases "s' = s")
    case True
    then have "es' = (s, l) # es" using Cons.prems e by simp
    then show ?thesis using e True by auto
  next
    case False
    then obtain es1 where "update_first s l es = Some es1" "es' = (s', l') # es1" using Cons.prems e by auto
    then show ?thesis using Cons.IH [of es1] e False by (auto simp: fun_upd_twist)
  qed
qed simp

lemma level_set_wildcard:
  assumes "mem tag = ''*''" "log_ok mem st" "level < 8"
  shows "\<exists>st'. esp_log_level_set m mem tag level st = Some st' \<and> log_ok mem st' \<and> level_spec st' = (\<lambda>_. level)"
  using assms
  by (auto simp: esp_log_level_set_def clear_log_level_list_def log_ok_def log_inv_def heap_ok_def
      levels_ok_def cache_agrees_def cached_def level_spec_def fun_eq_iff MAX_GENERATION_def Let_def)

lemma set_level_inv:
  fixes l :: nat
  assumes inv: "log_inv st" and k: "k < s_log_cache_entry_count st"
  defines "st' \<equiv> st\<lparr>s_log_cache := (s_log_cache st)[k := (s_log_cache st ! k)\<lparr>clevel := l\<rparr>]\<rparr>"
  shows "log_inv st'"
    "cached st' = add_mset (ctag (s_log_cache st ! k), l)
       (cached st - {#(ctag (s_log_cache st ! k), clevel (s_log_cache st ! k))#})"
proof -
  let ?c = "s_log_cache st" and ?n = "s_log_cache_entry_count st"
  let ?e = "(?c ! k)\<lparr>clevel := l\<rparr>"
  note d = log_invD [OF inv]
  have tk: "take ?n (?c[k := ?e]) = (take ?n ?c)[k := ?e]" using k by (simp add: take_update_swap)
  have len: "k < length ?c" "k < length (take ?n ?c)" "take ?n ?c ! k = ?c ! k" using d(1,2) k by auto
  have mp: "map f (?c[k := ?e]) = map f ?c" if "f ?e = f (?c ! k)" for f :: "cached_tag_entry_t \<Rightarrow> nat"
    using that len(1) by (simp add: map_update list_update_same_conv)
  have g: "map generation (take m (?c[k := ?e])) = map generation (take m ?c)"
    "map ctag (take m (?c[k := ?e])) = map ctag (take m ?c)" for m
    using mp [of generation] mp [of ctag] by (simp_all flip: take_map)
  have "gen (?c[k := ?e]) j = gen ?c j" for j by (cases "j = k") (use len in auto)
  moreover have "generation x < s_log_cache_max_generation st" if "x \<in> set (take ?n (?c[k := ?e]))" for x
  proof -
    have "generation x \<in> set (map generation (take ?n ?c))" using that unfolding g(1) [symmetric] by simp
    then show ?thesis using d(5) by auto
  qed
  ultimately show "log_inv st'" using d g
    unfolding log_inv_def Let_def st'_def by (simp add: heap_ok_def)
  show "cached st' = add_mset (ctag (?c ! k), l) (cached st - {#(ctag (?c ! k), clevel (?c ! k))#})"
  proof -
    have "?c ! k \<in># mset (take ?n ?c)" using len(2,3) by (metis nth_mem set_mset_mset)
    then show ?thesis unfolding st'_def cached_def using tk len by (simp add: mset_update image_mset_Diff)
  qed
qed

lemma cached_others:
  assumes inv: "log_inv st" and k: "k < s_log_cache_entry_count st"
    and x: "(t, l) \<in># cached st - {#(ctag (s_log_cache st ! k), clevel (s_log_cache st ! k))#}"
  shows "t \<noteq> ctag (s_log_cache st ! k)"
proof
  let ?x = "(ctag (s_log_cache st ! k), clevel (s_log_cache st ! k))"
  let ?ts = "map ctag (take (s_log_cache_entry_count st) (s_log_cache st))"
  assume t: "t = ctag (s_log_cache st ! k)"
  have "image_mset fst (cached st - {#?x#}) = mset ?ts - {#fst ?x#}"
    using in_cached [OF inv k] by (simp add: image_mset_Diff) (simp add: cached_def image_mset.compositionality comp_def)
  moreover have "t \<in># image_mset fst (cached st - {#?x#})" using x by force
  ultimately have "1 < count (mset ?ts) t" using t by (simp add: in_diff_count)
  then show False using log_invD(7) [OF inv] by (simp add: distinct_count_atmost_1 split: if_splits)
qed

lemma tags_upd_inv [simp]:
  "log_inv (st\<lparr>s_log_tags := ts\<rparr>) = log_inv st" "cached (st\<lparr>s_log_tags := ts\<rparr>) = cached st"
  by (simp_all add: log_inv_def cached_def)

lemma level_spec_upd:
  assumes "map_of (s_log_tags st') = (map_of (s_log_tags st))(s \<mapsto> l)"
    "snd ` set (s_log_tags st') \<subseteq> insert l (snd ` set (s_log_tags st))"
    "esp_log_default_level st' = esp_log_default_level st" "levels_ok st" "l < 8"
  shows "level_spec st' = (level_spec st)(s := l)" "levels_ok st'"
proof -
  show "level_spec st' = (level_spec st)(s := l)"
    using assms(1,3) by (simp add: level_spec_def fun_eq_iff split: option.splits)
  have "snd e < 8" if "e \<in> set (s_log_tags st')" for e
  proof -
    have "snd e \<in> insert l (snd ` set (s_log_tags st))" using assms(2) that by blast
    then show ?thesis using assms(4,5) by (auto simp: levels_ok_def)
  qed
  then show "levels_ok st'" using assms(3,4) by (simp add: levels_ok_def)
qed

lemma level_set_ok:
  assumes mem: "inj mem" and ok: "log_ok mem st" and l: "level < 8" and tag: "mem tag \<noteq> ''*''"
  shows "\<exists>st'. esp_log_level_set True mem tag level st = Some st' \<and> log_ok mem st' \<and>
     level_spec st' = (level_spec st)(mem tag := level)"
proof -
  have inv: "log_inv st" "levels_ok st" and ag: "\<And>t l. (t, l) \<in># cached st \<Longrightarrow> l = level_spec st (mem t)"
    using ok by (auto simp: log_ok_def cache_agrees_def)
  let ?s = "mem tag" and ?n = "s_log_cache_entry_count st" and ?c = "s_log_cache st"
  let ?f = "update_first ?s level (s_log_tags st)"
  let ?ts = "case ?f of Some es \<Rightarrow> es | None \<Rightarrow> (?s, level) # s_log_tags st"
  let ?st1 = "st\<lparr>s_log_tags := ?ts\<rparr>"
  have ts: "map_of ?ts = (map_of (s_log_tags st))(?s \<mapsto> level)" "snd ` set ?ts \<subseteq> insert level (snd ` set (s_log_tags st))"
    using update_first_spec [of ?s level "s_log_tags st"] by (auto split: option.splits)
  have sp: "level_spec st' = (level_spec st)(?s := level)" "levels_ok st'"
    if "s_log_tags st' = ?ts" "esp_log_default_level st' = esp_log_default_level st" for st'
    using level_spec_upd [of st' st ?s level] that ts inv(2) l by simp_all
  have i1: "log_inv ?st1" and sel: "s_log_cache_entry_count ?st1 = ?n" "s_log_cache ?st1 = ?c"
    using inv(1) by simp_all
  obtain r where r: "cache_scan (\<lambda>e. mem (ctag e) = ?s) 0 ?st1 = Some r" "case r of
      None \<Rightarrow> \<forall>j. 0 \<le> j \<longrightarrow> j < ?n \<longrightarrow> mem (ctag (?c ! j)) \<noteq> ?s
    | Some k \<Rightarrow> 0 \<le> k \<and> k < ?n \<and> mem (ctag (?c ! k)) = ?s \<and> (\<forall>j. 0 \<le> j \<longrightarrow> j < k \<longrightarrow> mem (ctag (?c ! j)) \<noteq> ?s)"
    using cache_scan_spec [OF i1, of "\<lambda>e. mem (ctag e) = ?s" 0] unfolding sel by blast
  have run: "esp_log_level_set True mem tag level st = Some (case r of None \<Rightarrow> ?st1
      | Some i \<Rightarrow> ?st1\<lparr>s_log_cache := ?c[i := (?c ! i)\<lparr>clevel := level\<rparr>]\<rparr>)"
    using r(1) l tag by (simp add: esp_log_level_set_def Let_def split: option.splits)
  show ?thesis
  proof (cases r)
    case None
    have "mem t \<noteq> ?s" if "(t, l) \<in># cached st" for t l
      using in_cachedE [OF that inv(1)] r(2) None by auto
    then have "cache_agrees mem ?st1" unfolding cache_agrees_def sp(1) [of ?st1, simplified]
      using ag by auto
    then show ?thesis using run None i1 sp [of ?st1] by (auto simp: log_ok_def)
  next
    case (Some k)
    let ?st' = "?st1\<lparr>s_log_cache := ?c[k := (?c ! k)\<lparr>clevel := level\<rparr>]\<rparr>"
    have k: "k < ?n" "mem (ctag (?c ! k)) = ?s" using r(2) Some by auto
    have st': "log_inv ?st'" "cached ?st' = add_mset (ctag (?c ! k), level)
        (cached st - {#(ctag (?c ! k), clevel (?c ! k))#})"
      using set_level_inv [OF i1, of k level] k(1) by simp_all
    have "mem t \<noteq> ?s" if "(t, l) \<in># cached st - {#(ctag (?c ! k), clevel (?c ! k))#}" for t l
      using cached_others [OF inv(1) k(1) that] k(2) mem by (metis injD)
    moreover have "l = level_spec st (mem t)"
      if "(t, l) \<in># cached st - {#(ctag (?c ! k), clevel (?c ! k))#}" for t l
      using ag in_diffD [OF that] by blast
    ultimately have "cache_agrees mem ?st'" unfolding cache_agrees_def st'(2) sp(1) [of ?st', simplified]
      using k(2) by auto
    then show ?thesis using run Some st'(1) sp [of ?st'] by (auto simp: log_ok_def)
  qed
qed

subsection \<open>The interface of a level table\<close>

datatype 'p level_op = GetLevel 'p | SetLevel 'p nat

fun run_levels :: "('p \<Rightarrow> 's \<Rightarrow> (nat \<times> 's) option) \<Rightarrow> ('p \<Rightarrow> nat \<Rightarrow> 's \<Rightarrow> 's option) \<Rightarrow>
    'p level_op list \<Rightarrow> 's \<Rightarrow> (nat list \<times> 's) option" where
  "run_levels get assign [] s = Some ([], s)"
| "run_levels get assign (GetLevel p # ops) s = do {
     (l, s1) \<leftarrow> get p s; (ls, s2) \<leftarrow> run_levels get assign ops s1; Some (l # ls, s2) }"
| "run_levels get assign (SetLevel p l # ops) s = do {
     s1 \<leftarrow> assign p l s; run_levels get assign ops s1 }"

text \<open>The reference: a table of levels, the wildcard resets all of them.\<close>

fun table_run :: "('p \<Rightarrow> string) \<Rightarrow> 'p level_op list \<Rightarrow> (string \<Rightarrow> nat) \<Rightarrow> nat list \<times> (string \<Rightarrow> nat)" where
  "table_run name [] f = ([], f)"
| "table_run name (GetLevel p # ops) f = (let (ls, f') = table_run name ops f in (f (name p) # ls, f'))"
| "table_run name (SetLevel p l # ops) f =
     table_run name ops (if name p = ''*'' then (\<lambda>_. l) else f(name p := l))"

locale level_table =
  fixes inv :: "'s \<Rightarrow> bool"
    and name :: "'s \<Rightarrow> 'p \<Rightarrow> string"
    and spec :: "'s \<Rightarrow> string \<Rightarrow> nat"
    and get :: "'p \<Rightarrow> 's \<Rightarrow> (nat \<times> 's) option"
    and assign :: "'p \<Rightarrow> nat \<Rightarrow> 's \<Rightarrow> 's option"
  assumes get_law: "inv s \<Longrightarrow> \<exists>s'. get p s = Some (spec s (name s p), s') \<and> inv s' \<and>
      name s' = name s \<and> spec s' = spec s"
    and set_law: "inv s \<Longrightarrow> l < 8 \<Longrightarrow> \<exists>s'. assign p l s = Some s' \<and> inv s' \<and> name s' = name s \<and>
      spec s' = (if name s p = ''*'' then (\<lambda>_. l) else (spec s)(name s p := l))"
begin

lemma run_refines:
  assumes "inv s" and "\<forall>p l. SetLevel p l \<in> set ops \<longrightarrow> l < 8"
  shows "\<exists>s'. run_levels get assign ops s = Some (fst (table_run (name s) ops (spec s)), s') \<and> inv s' \<and>
     name s' = name s \<and> spec s' = snd (table_run (name s) ops (spec s))"
  using assms
proof (induction ops arbitrary: s)
  case Nil
  then show ?case by simp
next
  case (Cons op ops)
  show ?case
  proof (cases op)
    case (GetLevel p)
    obtain s1 where s1: "get p s = Some (spec s (name s p), s1)" "inv s1" "name s1 = name s" "spec s1 = spec s"
      using get_law [OF Cons.prems(1)] by blast
    then show ?thesis using Cons.IH [OF s1(2)] Cons.prems(2) GetLevel
      by (auto simp: Let_def split: prod.splits)
  next
    case (SetLevel p l)
    have "l < 8" using Cons.prems(2) SetLevel by auto
    then obtain s1 where s1: "assign p l s = Some s1" "inv s1" "name s1 = name s"
      "spec s1 = (if name s p = ''*'' then (\<lambda>_. l) else (spec s)(name s p := l))"
      using set_law [OF Cons.prems(1)] by blast
    then show ?thesis using Cons.IH [OF s1(2)] Cons.prems(2) SetLevel by (auto simp del: fun_upd_apply)
  qed
qed

end

text \<open>The state of the interpretation carries the memory the tags point into.\<close>

definition log_get :: "nat \<Rightarrow> (nat \<Rightarrow> string) \<times> log_state \<Rightarrow> (nat \<times> ((nat \<Rightarrow> string) \<times> log_state)) option" where
  "log_get p s = map_option (\<lambda>(l, st'). (l, (fst s, st'))) (esp_log_level_get (fst s) p (snd s))"

definition log_set :: "nat \<Rightarrow> nat \<Rightarrow> (nat \<Rightarrow> string) \<times> log_state \<Rightarrow> ((nat \<Rightarrow> string) \<times> log_state) option" where
  "log_set p l s = map_option (Pair (fst s)) (esp_log_level_set True (fst s) p l (snd s))"

interpretation log_levels: level_table "\<lambda>s. inj (fst s) \<and> log_ok (fst s) (snd s)" fst "\<lambda>s. level_spec (snd s)"
  log_get log_set
proof
  fix s :: "(nat \<Rightarrow> string) \<times> log_state" and p
  assume a: "inj (fst s) \<and> log_ok (fst s) (snd s)"
  then show "\<exists>s'. log_get p s = Some (level_spec (snd s) (fst s p), s') \<and> (inj (fst s') \<and> log_ok (fst s') (snd s')) \<and>
      fst s' = fst s \<and> level_spec (snd s') = level_spec (snd s)"
    using level_get_ok [of "fst s" "snd s" p] by (auto simp: log_get_def)
next
  fix s :: "(nat \<Rightarrow> string) \<times> log_state" and p l
  assume a: "inj (fst s) \<and> log_ok (fst s) (snd s)" and l: "l < (8 :: nat)"
  have "\<exists>st'. esp_log_level_set True (fst s) p l (snd s) = Some st' \<and> log_ok (fst s) st' \<and>
      level_spec st' = (if fst s p = ''*'' then (\<lambda>_. l) else (level_spec (snd s))(fst s p := l))"
    using level_set_ok [of "fst s" "snd s" l p] level_set_wildcard [of "fst s" p "snd s" l True] a l by auto
  then show "\<exists>s'. log_set p l s = Some s' \<and> (inj (fst s') \<and> log_ok (fst s') (snd s')) \<and> fst s' = fst s \<and>
      level_spec (snd s') = (if fst s p = ''*'' then (\<lambda>_. l) else (level_spec (snd s))(fst s p := l))"
    using a by (auto simp: log_set_def)
qed

subsection \<open>Properties\<close>

definition log_start :: "nat \<Rightarrow> log_state" where
  "log_start l = \<lparr>s_log_tags = [], esp_log_default_level = l,
     s_log_cache = replicate 31 \<lparr>ctag = 0, clevel = 0, generation = 0\<rparr>,
     s_log_cache_max_generation = 0, s_log_cache_entry_count = 0, s_log_cache_misses = 0\<rparr>"

lemma log_start_ok: "l < 8 \<Longrightarrow> log_ok mem (log_start l)"
  by (simp add: log_start_def log_ok_def log_inv_def levels_ok_def cache_agrees_def cached_def
      heap_ok_def MAX_GENERATION_def Let_def)

text \<open>
  Claim C7. Whatever the sequence of level changes and lookups, with one address per tag string, every
  lookup returns the level last set for its tag (or by the wildcard, or the default level), the
  same as a plain table of levels: neither the cache, nor its eviction, nor the renumbering of
  the generations ever shows, and no built-in check fails.
\<close>

theorem log_levels_refine_table:
  assumes "inj mem" and "l0 < 8" and "\<forall>p l. SetLevel p l \<in> set ops \<longrightarrow> l < 8"
  shows "\<exists>s'. run_levels log_get log_set ops (mem, log_start l0) = Some (fst (table_run mem ops (\<lambda>_. l0)), s') \<and>
     log_inv (snd s')"
proof -
  have "level_spec (log_start l0) = (\<lambda>_. l0)" by (simp add: level_spec_def log_start_def fun_eq_iff)
  then show ?thesis
    using log_levels.run_refines [of "(mem, log_start l0)" ops] assms log_start_ok [OF assms(2), of mem]
    by (auto simp: log_ok_def)
qed

theorem log_levels_refine_table_witness:
  "\<exists>s'. run_levels log_get log_set [SetLevel 3 5, GetLevel 3, GetLevel 4, SetLevel 3 2, GetLevel 3]
     (\<lambda>p. replicate p CHR ''a'', log_start 3) = Some ([5, 3, 2], s') \<and> log_inv (snd s')"
proof -
  have "inj (\<lambda>p. replicate p CHR ''a'')" by (auto intro!: injI dest: arg_cong [where f = length])
  from log_levels_refine_table [OF this, of 3 "[SetLevel 3 5, GetLevel 3, GetLevel 4, SetLevel 3 2, GetLevel 3]"]
  show ?thesis by (simp add: numeral_eq_Suc)
qed

text \<open>
  Claim C8. A full cache gives up the least recently used entry: when a tag is not cached and the cache
  is full, adding it replaces the entry with the smallest generation of all, keeps every other
  entry with its level and keeps the heap.
\<close>

theorem full_cache_evicts_oldest:
  assumes "log_inv st" and "s_log_cache_entry_count st = TAG_CACHE_SIZE"
    and "\<forall>j < TAG_CACHE_SIZE. ctag (s_log_cache st ! j) \<noteq> tag"
  shows "\<exists>k < TAG_CACHE_SIZE. (\<forall>j < TAG_CACHE_SIZE. gen (s_log_cache st) k \<le> gen (s_log_cache st) j) \<and>
     log_inv (add_to_cache tag level st) \<and>
     cached (add_to_cache tag level st) = add_mset (tag, level mod 8)
       (cached st - {#(ctag (s_log_cache st ! k), clevel (s_log_cache st ! k))#})"
  using replace_put [of st tag level] heap_root_min [OF log_invD(3) [OF assms(1)]] assms
  by (intro exI [of _ 0]) (auto simp: TAG_CACHE_SIZE_def)

definition full_log :: log_state where
  "full_log = (log_start 3)\<lparr>s_log_cache := map (\<lambda>i. \<lparr>ctag = i, clevel = 3, generation = i\<rparr>) [0..<31],
     s_log_cache_max_generation := 31, s_log_cache_entry_count := 31\<rparr>"

lemma full_log_inv: "log_inv full_log"
  by (auto simp: full_log_def log_inv_def Let_def heap_ok_def MAX_GENERATION_def comp_def)

theorem full_cache_evicts_oldest_witness:
  "log_inv (add_to_cache 99 2 full_log) \<and>
   cached (add_to_cache 99 2 full_log) = add_mset (99, 2) (cached full_log - {#(0, 3)#})"
proof -
  have g: "gen (s_log_cache full_log) j = j" "ctag (s_log_cache full_log ! j) = j" "clevel (s_log_cache full_log ! j) = 3"
    if "j < 31" for j using that by (simp_all add: full_log_def)
  obtain k where k: "k < TAG_CACHE_SIZE" "\<forall>j < TAG_CACHE_SIZE. gen (s_log_cache full_log) k \<le> gen (s_log_cache full_log) j"
      "log_inv (add_to_cache 99 2 full_log)"
      "cached (add_to_cache 99 2 full_log) = add_mset (99, 2 mod 8)
        (cached full_log - {#(ctag (s_log_cache full_log ! k), clevel (s_log_cache full_log ! k))#})"
    using full_cache_evicts_oldest [OF full_log_inv, of 99 2] by (auto simp: full_log_def TAG_CACHE_SIZE_def)
  have "k = 0" using k(2) [rule_format, of 0] k(1) g by (simp add: TAG_CACHE_SIZE_def)
  then show ?thesis using k(3,4) g by simp
qed

text \<open>
  Setting a level updates only the first cached entry with that tag string. When the same
  string has been looked up through two different addresses, the other cached entry keeps the old
  level: after setting the level of the tag from 3 to 5, a lookup through the second address still
  returns 3.
\<close>

theorem second_address_keeps_stale_level:
  "run_levels log_get log_set [GetLevel 1, GetLevel 2, SetLevel 1 5, GetLevel 1, GetLevel 2]
     (\<lambda>p. ''wifi'', log_start 3) \<bind> (\<lambda>(ls, s'). Some ls) = Some [3, 3, 5, 3]"
  by (simp add: log_get_def log_set_def esp_log_level_get_def esp_log_level_set_def log_start_def
      get_cached_log_level_def cache_scan.simps add_to_cache_def get_uncached_log_level_def
      TAG_CACHE_SIZE_def MAX_GENERATION_def mk_entry_def fix_if_needed_def Let_def)

end
