(* ===== verification/Partition.thy ===== *)
theory Partition
  imports Prelude
begin

section \<open>Flash partitions\<close>

text \<open>
  Model of \<open>esp_partition/partition.c\<close> (the list of partitions, iterators, lookup,
  registration), the bounds checks of \<open>esp_partition/partition_target.c\<close>, and
  \<open>esp_partition_table_verify\<close> of \<open>bootloader_support/src/flash_partitions.c\<close>.
  Below the partition API stands the flash chip: a NOR memory whose erase sets a range to
  \<open>0xFF\<close> and whose program operation clears bits. The chip performs \<open>ops_left\<close> more erase and
  program operations; the next one fails and leaves anything (\<open>garbage\<close>) in the range it worked
  on, which covers driver errors as well as a power failure. There is one such chip, the default
  one (chip 0); accesses beyond its end and partitions on other chips are not modelled. The MD5 function of the ROM is an argument, and the flash encryption hardware
  is the pair of functions \<open>hw_encrypt\<close>, \<open>hw_decrypt\<close> of the chip (address of the access, bytes).
\<close>

subsection \<open>The flash chip\<close>

definition SPI_FLASH_SEC_SIZE :: nat where "SPI_FLASH_SEC_SIZE = 4096"

record flash_dev =
  cells :: "nat \<Rightarrow> byte"
  ops_left :: nat
  garbage :: "nat \<Rightarrow> byte"
  hw_encrypt :: "nat \<Rightarrow> byte list \<Rightarrow> byte list"
  hw_decrypt :: "nat \<Rightarrow> byte list \<Rightarrow> byte list"

definition flash_read :: "nat \<Rightarrow> nat \<Rightarrow> flash_dev \<Rightarrow> byte list" where
  "flash_read a n f = map (cells f) [a..<a + n]"

definition in_range :: "nat \<Rightarrow> nat \<Rightarrow> nat \<Rightarrow> bool" where
  "in_range a n i \<longleftrightarrow> a \<le> i \<and> i < a + n"

definition flash_op :: "nat \<Rightarrow> nat \<Rightarrow> (nat \<Rightarrow> byte) \<Rightarrow> flash_dev \<Rightarrow> esp_err_t \<times> flash_dev" where
  "flash_op a n new f =
     (if n = 0 then (ESP_OK, f)
      else if ops_left f = 0
      then (ESP_FAIL, f\<lparr>cells := \<lambda>i. if in_range a n i then garbage f i else cells f i\<rparr>)
      else (ESP_OK, f\<lparr>cells := \<lambda>i. if in_range a n i then new i else cells f i,
                     ops_left := ops_left f - 1\<rparr>))"

definition flash_erase :: "nat \<Rightarrow> nat \<Rightarrow> flash_dev \<Rightarrow> esp_err_t \<times> flash_dev" where
  "flash_erase a n f = flash_op a n (\<lambda>i. 0xFF) f"

definition flash_write :: "nat \<Rightarrow> byte list \<Rightarrow> flash_dev \<Rightarrow> esp_err_t \<times> flash_dev" where
  "flash_write a xs f = flash_op a (length xs) (\<lambda>i. cells f i AND xs ! (i - a)) f"

definition esp_flash_write_encrypted :: "nat \<Rightarrow> byte list \<Rightarrow> flash_dev \<Rightarrow> esp_err_t \<times> flash_dev" where
  "esp_flash_write_encrypted a xs f =
     (if a mod 16 \<noteq> 0 then (ESP_ERR_INVALID_ARG, f)
      else if xs = [] then (ESP_OK, f)
      else if length xs mod 16 \<noteq> 0 then (ESP_ERR_INVALID_SIZE, f)
      else flash_write a (hw_encrypt f a xs) f)"

text \<open>A read through the cache decrypts where encryption is on.\<close>

definition mapped_read :: "bool \<Rightarrow> nat \<Rightarrow> nat \<Rightarrow> flash_dev \<Rightarrow> byte list" where
  "mapped_read enc a n f = (if enc then hw_decrypt f a (flash_read a n f) else flash_read a n f)"

subsection \<open>Partition descriptions\<close>

definition ESP_PARTITION_TYPE_APP :: nat where "ESP_PARTITION_TYPE_APP = 0"
definition ESP_PARTITION_TYPE_DATA :: nat where "ESP_PARTITION_TYPE_DATA = 1"
definition ESP_PARTITION_TYPE_ANY :: nat where "ESP_PARTITION_TYPE_ANY = 0xff"
definition ESP_PARTITION_SUBTYPE_APP_FACTORY :: nat where "ESP_PARTITION_SUBTYPE_APP_FACTORY = 0"
definition ESP_PARTITION_SUBTYPE_APP_OTA_MIN :: nat where "ESP_PARTITION_SUBTYPE_APP_OTA_MIN = 0x10"
definition ESP_PARTITION_SUBTYPE_APP_OTA_MAX :: nat where "ESP_PARTITION_SUBTYPE_APP_OTA_MAX = 0x20"
definition ESP_PARTITION_SUBTYPE_APP_TEST :: nat where "ESP_PARTITION_SUBTYPE_APP_TEST = 0x20"
definition ESP_PARTITION_SUBTYPE_DATA_OTA :: nat where "ESP_PARTITION_SUBTYPE_DATA_OTA = 0"
definition ESP_PARTITION_SUBTYPE_DATA_NVS_KEYS :: nat where "ESP_PARTITION_SUBTYPE_DATA_NVS_KEYS = 4"
definition ESP_PARTITION_SUBTYPE_ANY :: nat where "ESP_PARTITION_SUBTYPE_ANY = 0xff"

lemmas part_consts = ESP_PARTITION_TYPE_APP_def ESP_PARTITION_TYPE_DATA_def ESP_PARTITION_TYPE_ANY_def
  ESP_PARTITION_SUBTYPE_APP_FACTORY_def ESP_PARTITION_SUBTYPE_APP_OTA_MIN_def
  ESP_PARTITION_SUBTYPE_APP_OTA_MAX_def ESP_PARTITION_SUBTYPE_APP_TEST_def
  ESP_PARTITION_SUBTYPE_DATA_OTA_def ESP_PARTITION_SUBTYPE_DATA_NVS_KEYS_def ESP_PARTITION_SUBTYPE_ANY_def

record esp_partition_t =
  flash_chip :: nat
  ptype :: nat
  psubtype :: nat
  paddress :: nat
  psize :: nat
  erase_size :: nat
  plabel :: string
  encrypted :: bool
  readonly :: bool

text \<open>A list item is known by its address, which is what pointer comparisons compare.\<close>

record partition_list_item_t =
  item_addr :: nat
  info :: esp_partition_t
  user_registered :: bool

record esp_partition_iterator_t =
  it_type :: nat
  it_subtype :: nat
  it_label :: "string option"
  next_items :: "partition_list_item_t list"
  it_info :: "partition_list_item_t option"

subsection \<open>Loading the table\<close>

definition ESP_PARTITION_MAGIC :: nat where "ESP_PARTITION_MAGIC = 0x50AA"
definition ESP_PARTITION_MAGIC_MD5 :: nat where "ESP_PARTITION_MAGIC_MD5 = 0xEBEB"
definition PART_FLAG_ENCRYPTED :: flags where "PART_FLAG_ENCRYPTED = 1"
definition PART_FLAG_READONLY :: flags where "PART_FLAG_READONLY = 2"

record esp_partition_info_t =
  magic :: nat
  etype :: nat
  esubtype :: nat
  eoffset :: nat
  esize :: nat
  elabel :: string
  eflags :: flags

text \<open>The 32 bytes of a table entry.\<close>

definition cstring :: "byte list \<Rightarrow> string" where
  "cstring bs = map (\<lambda>b. char_of (unat b)) (takeWhile (\<lambda>b. b \<noteq> 0) bs)"

definition entry_of_bytes :: "byte list \<Rightarrow> esp_partition_info_t" where
  "entry_of_bytes bs = \<lparr>
     magic = le_val (take 2 bs),
     etype = unat (bs ! 2), esubtype = unat (bs ! 3),
     eoffset = le_val (take 4 (drop 4 bs)), esize = le_val (take 4 (drop 8 bs)),
     elabel = cstring (take 16 (drop 12 bs)),
     eflags = of_nat (le_val (take 4 (drop 28 bs)))\<rparr>"

definition new_item :: "bool \<Rightarrow> nat \<Rightarrow> esp_partition_info_t \<Rightarrow> partition_list_item_t" where
  "new_item flash_encryption a e = \<lparr>item_addr = a,
     info = \<lparr>flash_chip = 0, ptype = etype e, psubtype = esubtype e, paddress = eoffset e,
       psize = esize e, erase_size = SPI_FLASH_SEC_SIZE, plabel = elabel e,
       encrypted = (if \<not> flash_encryption then False
         else if etype e = ESP_PARTITION_TYPE_APP \<or>
           etype e = ESP_PARTITION_TYPE_DATA \<and> esubtype e = ESP_PARTITION_SUBTYPE_DATA_OTA \<or>
           etype e = ESP_PARTITION_TYPE_DATA \<and> esubtype e = ESP_PARTITION_SUBTYPE_DATA_NVS_KEYS
         then True else flag_set (eflags e) PART_FLAG_ENCRYPTED),
       readonly = flag_set (eflags e) PART_FLAG_READONLY\<rparr>,
     user_registered = False\<rparr>"

text \<open>
  The loop over the mapped sector: \<open>callocs\<close> are the answers of the allocator. The result is
  the error so far, the items, the bytes that went into the MD5 and the MD5 entry, if reached.
\<close>

fun load_loop :: "bool \<Rightarrow> nat option list \<Rightarrow> byte list list \<Rightarrow>
    esp_err_t \<times> partition_list_item_t list \<times> byte list \<times> byte list option" where
  "load_loop enc callocs [] = (ESP_OK, [], [], None)"
| "load_loop enc callocs (b # bs) =
     (let e = entry_of_bytes b in
      if magic e = ESP_PARTITION_MAGIC_MD5 then (ESP_OK, [], [], Some b)
      else if magic e \<noteq> ESP_PARTITION_MAGIC then (ESP_OK, [], [], None)
      else case callocs of
          Some a # cs \<Rightarrow>
            let (err, items, hashed, md5) = load_loop enc cs bs
            in (err, new_item enc a e # items, b @ hashed, md5)
        | _ \<Rightarrow> (ESP_ERR_NO_MEM, [], b, None))"

definition load_partitions ::
  "(byte list \<Rightarrow> byte list) \<Rightarrow> bool \<Rightarrow> esp_err_t \<Rightarrow> nat option list \<Rightarrow> byte list list \<Rightarrow>
   partition_list_item_t list \<Rightarrow> esp_err_t \<times> partition_list_item_t list" where
  "load_partitions md5 enc mmap_err callocs tab s_partition_list =
     (if mmap_err \<noteq> ESP_OK then (mmap_err, s_partition_list)
      else
        let (err, items, hashed, md5_part) = load_loop enc callocs tab;
            err2 = (case md5_part of
                      None \<Rightarrow> ESP_ERR_NOT_FOUND
                    | Some b \<Rightarrow> if md5 hashed \<noteq> take 16 (drop 16 b) then ESP_ERR_INVALID_STATE else err)
        in if err2 = ESP_OK then (ESP_OK, items) else (err2, s_partition_list))"

definition esp_partition_unload_all :: "partition_list_item_t list \<Rightarrow> partition_list_item_t list" where
  "esp_partition_unload_all l = []"

definition ensure_partitions_loaded ::
  "(partition_list_item_t list \<Rightarrow> esp_err_t \<times> partition_list_item_t list) \<Rightarrow>
   partition_list_item_t list \<Rightarrow> esp_err_t \<times> partition_list_item_t list" where
  "ensure_partitions_loaded load l = (if l = [] then load l else (ESP_OK, l))"

subsection \<open>Searching\<close>

definition part_matches :: "nat \<Rightarrow> nat \<Rightarrow> string option \<Rightarrow> partition_list_item_t \<Rightarrow> bool" where
  "part_matches t st lab p \<longleftrightarrow>
     \<not> (t \<noteq> ESP_PARTITION_TYPE_ANY \<and> t \<noteq> ptype (info p)) \<and>
     \<not> (st \<noteq> ESP_PARTITION_SUBTYPE_ANY \<and> st \<noteq> psubtype (info p)) \<and>
     (case lab of None \<Rightarrow> True | Some s \<Rightarrow> s = plabel (info p))"

definition iterator_create ::
  "nat \<Rightarrow> nat \<Rightarrow> string option \<Rightarrow> partition_list_item_t list \<Rightarrow> esp_partition_iterator_t" where
  "iterator_create t st lab l =
     \<lparr>it_type = t, it_subtype = st, it_label = lab, next_items = l, it_info = None\<rparr>"

definition esp_partition_next :: "esp_partition_iterator_t \<Rightarrow> esp_partition_iterator_t option" where
  "esp_partition_next it =
     (case dropWhile (\<lambda>p. \<not> part_matches (it_type it) (it_subtype it) (it_label it) p) (next_items it) of
        [] \<Rightarrow> None
      | p # rest \<Rightarrow> Some (it\<lparr>it_info := Some p, next_items := rest\<rparr>))"

text \<open>
  What the search does once the list is loaded; \<open>malloc_ok\<close> tells whether the iterator could be
  allocated. The entry points below load the list first: they take the loader and return the list.
\<close>

definition find_loaded ::
  "bool \<Rightarrow> nat \<Rightarrow> nat \<Rightarrow> string option \<Rightarrow> partition_list_item_t list \<Rightarrow> esp_partition_iterator_t option" where
  "find_loaded malloc_ok t st lab l =
     (if t = ESP_PARTITION_TYPE_ANY \<and> st \<noteq> ESP_PARTITION_SUBTYPE_ANY then None
      else if \<not> malloc_ok then None
      else esp_partition_next (iterator_create t st lab l))"

type_synonym loader = "partition_list_item_t list \<Rightarrow> esp_err_t \<times> partition_list_item_t list"

definition esp_partition_find ::
  "loader \<Rightarrow> bool \<Rightarrow> nat \<Rightarrow> nat \<Rightarrow> string option \<Rightarrow> partition_list_item_t list \<Rightarrow>
   esp_partition_iterator_t option \<times> partition_list_item_t list" where
  "esp_partition_find load malloc_ok t st lab l =
     (let (err, l1) = ensure_partitions_loaded load l
      in if err \<noteq> ESP_OK then (None, l1) else (find_loaded malloc_ok t st lab l1, l1))"

definition esp_partition_get :: "esp_partition_iterator_t \<Rightarrow> partition_list_item_t option" where
  "esp_partition_get it = it_info it"

definition find_first_loaded ::
  "nat \<Rightarrow> nat \<Rightarrow> string option \<Rightarrow> partition_list_item_t list \<Rightarrow> partition_list_item_t option" where
  "find_first_loaded t st lab l =
     (case find_loaded True t st lab l of None \<Rightarrow> None | Some it \<Rightarrow> esp_partition_get it)"

definition esp_partition_find_first ::
  "loader \<Rightarrow> bool \<Rightarrow> nat \<Rightarrow> nat \<Rightarrow> string option \<Rightarrow> partition_list_item_t list \<Rightarrow>
   partition_list_item_t option \<times> partition_list_item_t list" where
  "esp_partition_find_first load malloc_ok t st lab l =
     (let (it, l1) = esp_partition_find load malloc_ok t st lab l
      in (case it of None \<Rightarrow> None | Some i \<Rightarrow> esp_partition_get i, l1))"

definition same_place :: "esp_partition_t \<Rightarrow> esp_partition_t \<Rightarrow> bool" where
  "same_place p q \<longleftrightarrow> flash_chip p = flash_chip q \<and> paddress p = paddress q \<and> psize p = psize q \<and>
     encrypted p = encrypted q"

text \<open>The loop of \<open>esp_partition_verify\<close> over the iterator.\<close>

lemma next_shorter:
  "esp_partition_next it = Some it' \<Longrightarrow> length (next_items it') < length (next_items it)"
proof -
  assume "esp_partition_next it = Some it'"
  then obtain p rest where d: "dropWhile (\<lambda>p. \<not> part_matches (it_type it) (it_subtype it) (it_label it) p) (next_items it) = p # rest"
    and it': "next_items it' = rest"
    by (auto simp: esp_partition_next_def split: list.splits)
  have "length (p # rest) \<le> length (next_items it)" unfolding d [symmetric] by (rule length_dropWhile_le)
  then show ?thesis using it' by simp
qed

function verify_loop ::
  "esp_partition_t \<Rightarrow> esp_partition_iterator_t option \<Rightarrow> partition_list_item_t option" where
  "verify_loop part None = None"
| "verify_loop part (Some it) =
     (case esp_partition_get it of
        None \<Rightarrow> None
      | Some p \<Rightarrow> if same_place (info p) part then Some p
                  else verify_loop part (esp_partition_next it))"
  by pat_completeness auto
termination
  by (relation "measure (\<lambda>(p, it). case it of None \<Rightarrow> 0 | Some i \<Rightarrow> Suc (length (next_items i)))")
    (auto dest: next_shorter split: option.splits)

definition verify_loaded ::
  "esp_partition_t \<Rightarrow> partition_list_item_t list \<Rightarrow> partition_list_item_t option" where
  "verify_loaded part l =
     verify_loop part (find_loaded True (ptype part) (psubtype part)
       (if plabel part \<noteq> [] then Some (plabel part) else None) l)"

definition esp_partition_verify ::
  "loader \<Rightarrow> bool \<Rightarrow> esp_partition_t \<Rightarrow> partition_list_item_t list \<Rightarrow>
   partition_list_item_t option \<times> partition_list_item_t list" where
  "esp_partition_verify load malloc_ok part l =
     (let (it, l1) = esp_partition_find load malloc_ok (ptype part) (psubtype part)
            (if plabel part \<noteq> [] then Some (plabel part) else None) l
      in (verify_loop part it, l1))"

subsection \<open>External partitions\<close>

text \<open>\<open>intptr_t\<close> arguments: the 32-bit value read as signed; the assertions are the inline function's.\<close>

definition sext32 :: "nat \<Rightarrow> int" where
  "sext32 n = (let m = int n mod 2 ^ 32 in if m < 2 ^ 31 then m else m - 2 ^ 32)"

definition bootloader_util_regions_overlap :: "int \<Rightarrow> int \<Rightarrow> int \<Rightarrow> int \<Rightarrow> bool option" where
  "bootloader_util_regions_overlap start1 end1 start2 end2 = do {
     configASSERT (end1 > start1);
     configASSERT (end2 > start2);
     Some (end1 > start2 \<and> end2 > start1) }"

fun overlaps_any :: "nat \<Rightarrow> nat \<Rightarrow> nat \<Rightarrow> partition_list_item_t list \<Rightarrow> bool option" where
  "overlaps_any chip offset sz [] = Some False"
| "overlaps_any chip offset sz (it # l) = do {
     ov \<leftarrow> (if flash_chip (info it) = chip
          then bootloader_util_regions_overlap (sext32 offset) (sext32 (sz_add offset sz))
                 (sext32 (paddress (info it))) (sext32 (sz_add (paddress (info it)) (psize (info it))))
          else Some False);
     (if ov then Some True else overlaps_any chip offset sz l) }"

definition esp_partition_register_external ::
  "loader \<Rightarrow> nat option \<Rightarrow> nat \<Rightarrow> nat \<Rightarrow> nat \<Rightarrow> nat \<Rightarrow> string \<Rightarrow> nat \<Rightarrow> nat \<Rightarrow> partition_list_item_t list \<Rightarrow>
   (esp_err_t \<times> partition_list_item_t option \<times> partition_list_item_t list) option" where
  "esp_partition_register_external load calloc chip chip_size offset sz label t st l =
     (if sz_add offset sz > chip_size then Some (ESP_ERR_INVALID_SIZE, None, l)
      else let (err, l1) = ensure_partitions_loaded load l in
        if err \<noteq> ESP_OK then Some (err, None, l1)
        else case calloc of
          None \<Rightarrow> Some (ESP_ERR_NO_MEM, None, l1)
        | Some a \<Rightarrow> do {
            ov \<leftarrow> overlaps_any chip offset sz l1;
            (if ov then Some (ESP_ERR_INVALID_ARG, None, l1)
             else
               let item = \<lparr>item_addr = a,
                     info = \<lparr>flash_chip = chip, ptype = t, psubtype = st, paddress = offset, psize = sz,
                       erase_size = 0, plabel = take 16 label, encrypted = False, readonly = False\<rparr>,
                     user_registered = True\<rparr>
               in Some (ESP_OK, Some item, l1 @ [item])) })"

fun esp_partition_deregister_external ::
  "nat \<Rightarrow> partition_list_item_t list \<Rightarrow> esp_err_t \<times> partition_list_item_t list" where
  "esp_partition_deregister_external a [] = (ESP_ERR_NOT_FOUND, [])"
| "esp_partition_deregister_external a (it # l) =
     (if item_addr it = a
      then (if \<not> user_registered it then (ESP_ERR_INVALID_ARG, it # l) else (ESP_OK, l))
      else (let (e, l') = esp_partition_deregister_external a l in (e, it # l')))"

subsection \<open>Access to a partition\<close>

text \<open>
  The default chip is chip 0. Reads by the program succeed when they pass the checks. The flash address is the
  32-bit sum of the address of the partition and the offset.
\<close>

definition range_check :: "esp_partition_t \<Rightarrow> nat \<Rightarrow> nat \<Rightarrow> esp_err_t" where
  "range_check p offset sz =
     (if offset > psize p then ESP_ERR_INVALID_ARG
      else if sz_add offset sz > psize p then ESP_ERR_INVALID_SIZE else ESP_OK)"

definition esp_partition_read ::
  "esp_partition_t \<Rightarrow> nat \<Rightarrow> nat \<Rightarrow> flash_dev \<Rightarrow> esp_err_t \<times> byte list" where
  "esp_partition_read p src_offset sz f =
     (if range_check p src_offset sz \<noteq> ESP_OK then (range_check p src_offset sz, [])
      else if \<not> encrypted p then (ESP_OK, flash_read (sz_add (paddress p) src_offset) sz f)
      else if flash_chip p \<noteq> 0 then (ESP_ERR_NOT_SUPPORTED, [])
      else (ESP_OK, mapped_read True (sz_add (paddress p) src_offset) sz f))"

definition esp_partition_write ::
  "esp_partition_t \<Rightarrow> nat \<Rightarrow> byte list \<Rightarrow> flash_dev \<Rightarrow> esp_err_t \<times> flash_dev" where
  "esp_partition_write p dst_offset src f =
     (if readonly p then (ESP_ERR_NOT_ALLOWED, f)
      else if range_check p dst_offset (length src) \<noteq> ESP_OK
      then (range_check p dst_offset (length src), f)
      else if \<not> encrypted p then flash_write (sz_add (paddress p) dst_offset) src f
      else if flash_chip p \<noteq> 0 then (ESP_ERR_NOT_SUPPORTED, f)
      else esp_flash_write_encrypted (sz_add (paddress p) dst_offset) src f)"

definition esp_partition_read_raw ::
  "esp_partition_t \<Rightarrow> nat \<Rightarrow> nat \<Rightarrow> flash_dev \<Rightarrow> esp_err_t \<times> byte list" where
  "esp_partition_read_raw p src_offset sz f =
     (if range_check p src_offset sz \<noteq> ESP_OK then (range_check p src_offset sz, [])
      else (ESP_OK, flash_read (sz_add (paddress p) src_offset) sz f))"

definition esp_partition_write_raw ::
  "esp_partition_t \<Rightarrow> nat \<Rightarrow> byte list \<Rightarrow> flash_dev \<Rightarrow> esp_err_t \<times> flash_dev" where
  "esp_partition_write_raw p dst_offset src f =
     (if readonly p then (ESP_ERR_NOT_ALLOWED, f)
      else if range_check p dst_offset (length src) \<noteq> ESP_OK
      then (range_check p dst_offset (length src), f)
      else flash_write (sz_add (paddress p) dst_offset) src f)"

definition esp_partition_erase_range ::
  "esp_partition_t \<Rightarrow> nat \<Rightarrow> nat \<Rightarrow> flash_dev \<Rightarrow> esp_err_t \<times> flash_dev" where
  "esp_partition_erase_range p offset sz f =
     (if readonly p then (ESP_ERR_NOT_ALLOWED, f)
      else if range_check p offset sz \<noteq> ESP_OK then (range_check p offset sz, f)
      else if sz mod SPI_FLASH_SEC_SIZE \<noteq> 0 then (ESP_ERR_INVALID_SIZE, f)
      else if offset mod SPI_FLASH_SEC_SIZE \<noteq> 0 then (ESP_ERR_INVALID_ARG, f)
      else flash_erase (sz_add (paddress p) offset) sz f)"

fun esp_partition_is_flash_region_writable ::
  "nat \<Rightarrow> nat \<Rightarrow> partition_list_item_t list \<Rightarrow> bool" where
  "esp_partition_is_flash_region_writable addr sz [] = True"
| "esp_partition_is_flash_region_writable addr sz (it # l) =
     (let p = info it in
      if readonly p \<and> (addr \<ge> paddress p \<and> addr < sz_add (paddress p) (psize p) \<or>
                       addr < paddress p \<and> sz_add addr sz > paddress p)
      then False else esp_partition_is_flash_region_writable addr sz l)"

subsection \<open>Verification of the table in the boot loader\<close>

definition ESP_PARTITION_TABLE_MAX_ENTRIES :: nat where "ESP_PARTITION_TABLE_MAX_ENTRIES = 0xC00 div 32"

fun table_verify_loop ::
  "(byte list \<Rightarrow> byte list) \<Rightarrow> nat \<Rightarrow> byte list list \<Rightarrow> nat \<Rightarrow> nat \<Rightarrow> byte list list \<Rightarrow> esp_err_t \<times> nat" where
  "table_verify_loop md5 chip_size seen num_parts md5_found [] = (ESP_ERR_INVALID_STATE, 0)"
| "table_verify_loop md5 chip_size seen num_parts md5_found (b # bs) =
     (let part = entry_of_bytes b in
      if num_parts \<ge> ESP_PARTITION_TABLE_MAX_ENTRIES then (ESP_ERR_INVALID_STATE, 0)
      else if magic part = ESP_PARTITION_MAGIC then
        (if eoffset part > chip_size \<or> sz_add (eoffset part) (esize part) > chip_size
         then (ESP_ERR_INVALID_SIZE, 0)
         else table_verify_loop md5 chip_size (seen @ [b]) (num_parts + 1) md5_found bs)
      else if magic part = ESP_PARTITION_MAGIC_MD5 then
        (if md5_found \<noteq> 0 then (ESP_ERR_INVALID_STATE, 0)
         else if take 16 (drop 16 b) \<noteq> md5 (concat seen) then (ESP_ERR_INVALID_STATE, 0)
         else table_verify_loop md5 chip_size (seen @ [b]) (num_parts + 1) 1 bs)
      else if magic part = 0xFFFF \<and> etype part = 0xff \<and> esubtype part = 0xff
      then (ESP_OK, num_parts - md5_found)
      else (ESP_ERR_INVALID_STATE, 0))"

definition esp_partition_table_verify ::
  "(byte list \<Rightarrow> byte list) \<Rightarrow> nat \<Rightarrow> byte list list \<Rightarrow> esp_err_t \<times> nat" where
  "esp_partition_table_verify md5 chip_size tab = table_verify_loop md5 chip_size [] 0 0 tab"

end
