(* ===== verification/Partition_Spec.thy ===== *)
theory Partition_Spec
  imports Partition
begin

section \<open>Properties of the partition list\<close>

text \<open>
  Iterators visit exactly the matching partitions in list order, registration keeps the
  partitions of a chip disjoint, and writes stay inside their partition.
\<close>

subsection \<open>Searching\<close>

abbreviation it_matches :: "esp_partition_iterator_t \<Rightarrow> partition_list_item_t \<Rightarrow> bool" where
  "it_matches it \<equiv> part_matches (it_type it) (it_subtype it) (it_label it)"

lemma dropWhile_cases:
  obtains "dropWhile (\<lambda>x. \<not> P x) xs = []" "filter P xs = []"
  | x rest where "dropWhile (\<lambda>x. \<not> P x) xs = x # rest" "filter P xs = x # filter P rest" "P x"
proof (induction xs arbitrary: thesis)
  case Nil
  then show ?case by simp
next
  case (Cons y ys)
  show ?case
  proof (cases "P y")
    case True
    then show ?thesis using Cons.prems(2) by simp
  next
    case False
    then show ?thesis using Cons by auto
  qed
qed

lemma next_cases:
  obtains "esp_partition_next it = None" "filter (it_matches it) (next_items it) = []"
  | p rest where "esp_partition_next it = Some (it\<lparr>it_info := Some p, next_items := rest\<rparr>)"
    "filter (it_matches it) (next_items it) = p # filter (it_matches it) rest"
  by (rule dropWhile_cases [of "it_matches it" "next_items it"]) (auto simp: esp_partition_next_def)

text \<open>What a loop over an iterator sees: the items of \<open>find\<close>, \<open>next\<close>, \<open>next\<close>, and so on.\<close>

function visited :: "esp_partition_iterator_t option \<Rightarrow> partition_list_item_t list" where
  "visited None = []"
| "visited (Some it) =
     (case esp_partition_get it of None \<Rightarrow> [] | Some p \<Rightarrow> p # visited (esp_partition_next it))"
  by pat_completeness auto
termination
  by (relation "measure (\<lambda>i. case i of None \<Rightarrow> 0 | Some it \<Rightarrow> Suc (length (next_items it)))")
    (auto dest: next_shorter split: option.splits)

lemma visited_next: "visited (esp_partition_next it) = filter (it_matches it) (next_items it)"
proof (induction "length (next_items it)" arbitrary: it rule: less_induct)
  case less
  show ?case
  proof (cases rule: next_cases [of it])
    case 1
    then show ?thesis by simp
  next
    case (2 p rest)
    let ?it = "it\<lparr>it_info := Some p, next_items := rest\<rparr>"
    have "visited (esp_partition_next ?it) = filter (it_matches ?it) (next_items ?it)"
      by (rule less) (rule next_shorter [OF 2(1)])
    then show ?thesis using 2 by (simp add: esp_partition_get_def)
  qed
qed

lemma visited_find:
  "visited (find_loaded ok t st lab l) =
     (if t = ESP_PARTITION_TYPE_ANY \<and> st \<noteq> ESP_PARTITION_SUBTYPE_ANY \<or> \<not> ok then []
      else filter (part_matches t st lab) l)"
  using visited_next [of "iterator_create t st lab l"]
  by (auto simp: find_loaded_def iterator_create_def)

lemma find_filter: "find P xs = (case filter P xs of [] \<Rightarrow> None | x # _ \<Rightarrow> Some x)"
  by (induction xs) auto

lemma find_first_find:
  assumes "t \<noteq> ESP_PARTITION_TYPE_ANY \<or> st = ESP_PARTITION_SUBTYPE_ANY"
  shows "find_first_loaded t st lab l = find (part_matches t st lab) l"
proof -
  have "find_first_loaded t st lab l =
      (case esp_partition_next (iterator_create t st lab l) of None \<Rightarrow> None | Some it \<Rightarrow> esp_partition_get it)"
    using assms by (auto simp: find_first_loaded_def find_loaded_def)
  then show ?thesis
    by (cases rule: next_cases [of "iterator_create t st lab l"])
      (simp_all add: find_filter iterator_create_def esp_partition_get_def)
qed

lemma verify_loop_visited: "verify_loop part it = find (\<lambda>p. same_place (info p) part) (visited it)"
  by (induction part it rule: verify_loop.induct) (auto split: option.splits)

text \<open>Once the list has an item, the entry points work on it as it is.\<close>

lemma ensure_loaded [simp]: "l \<noteq> [] \<Longrightarrow> ensure_partitions_loaded load l = (ESP_OK, l)"
  by (simp add: ensure_partitions_loaded_def)

lemma find_first_agrees:
  "l \<noteq> [] \<Longrightarrow> esp_partition_find_first load True t st lab l = (find_first_loaded t st lab l, l)"
  by (simp add: esp_partition_find_first_def esp_partition_find_def find_first_loaded_def)

lemma verify_agrees: "l \<noteq> [] \<Longrightarrow> esp_partition_verify load True part l = (verify_loaded part l, l)"
  by (simp add: esp_partition_verify_def esp_partition_find_def verify_loaded_def)

text \<open>
  A loop over an iterator visits the partitions of the loaded list that match the requested
  type, subtype and label, each once and in list order; a search for a subtype of any type and a
  search when the table cannot be loaded find nothing. The search leaves the list as the loader left it.
\<close>

theorem partition_iterator_enumerates:
  "visited (fst (esp_partition_find load True t st lab l)) =
     (if fst (ensure_partitions_loaded load l) = ESP_OK
      then if t = ESP_PARTITION_TYPE_ANY \<and> st \<noteq> ESP_PARTITION_SUBTYPE_ANY then []
           else filter (part_matches t st lab) (snd (ensure_partitions_loaded load l))
      else []) \<and>
   snd (esp_partition_find load True t st lab l) = snd (ensure_partitions_loaded load l)"
  by (auto simp: esp_partition_find_def split_beta visited_find)

subsection \<open>Verification of a caller's copy\<close>

lemma matches_own: "part_matches (ptype (info p)) (psubtype (info p))
    (if plabel (info p) \<noteq> [] then Some (plabel (info p)) else None) p"
  unfolding part_matches_def by (cases "plabel (info p) = []") simp_all

lemma same_place_refl [simp]: "same_place p p"
  by (simp add: same_place_def)

lemma find_unique:
  "x \<in> set xs \<Longrightarrow> P x \<Longrightarrow> \<forall>y \<in> set xs. P y \<longrightarrow> y = x \<Longrightarrow> find P xs = Some x"
proof (induction xs)
  case (Cons a xs)
  show ?case
  proof (cases "P a")
    case True
    with Cons.prems(3) have "a = x" by (meson list.set_intros(1))
    then show ?thesis using True by simp
  next
    case False
    with Cons.prems(1,2) have "x \<in> set xs" by auto
    moreover have "\<forall>y \<in> set xs. P y \<longrightarrow> y = x" using Cons.prems(3) by (meson list.set_intros(2))
    ultimately have "find P xs = Some x" using Cons.IH Cons.prems(2) by blast
    then show ?thesis using False by simp
  qed
qed simp

text \<open>
  For a partition of the loaded list whose place on flash no other partition shares,
  \<open>esp_partition_verify\<close> on a copy of its description returns the list's own item.
\<close>

theorem partition_verify_returns_own_item:
  assumes "p \<in> set l" and "ptype (info p) \<noteq> ESP_PARTITION_TYPE_ANY"
    and load: "ensure_partitions_loaded load l0 = (ESP_OK, l)"
    and uniq: "\<forall>q \<in> set l. same_place (info q) (info p) \<longrightarrow> q = p"
  shows "esp_partition_verify load True (info p) l0 = (Some p, l)"
proof -
  let ?lab = "if plabel (info p) \<noteq> [] then Some (plabel (info p)) else None"
  let ?f = "filter (part_matches (ptype (info p)) (psubtype (info p)) ?lab) l"
  have "p \<in> set ?f" using assms(1) matches_own [of p] by simp
  moreover have "\<forall>q \<in> set ?f. same_place (info q) (info p) \<longrightarrow> q = p" using uniq by (meson filter_is_subset subsetD)
  ultimately have "find (\<lambda>q. same_place (info q) (info p)) ?f = Some p" by (intro find_unique) (simp_all only: same_place_refl)
  then show ?thesis
    using assms(2) load
    unfolding esp_partition_verify_def esp_partition_find_def verify_loop_visited by (simp add: visited_find)
qed

definition ex_part :: "nat \<Rightarrow> nat \<Rightarrow> nat \<Rightarrow> nat \<Rightarrow> partition_list_item_t" where
  "ex_part a chip off sz = \<lparr>item_addr = a,
     info = \<lparr>flash_chip = chip, ptype = 1, psubtype = 2, paddress = off, psize = sz, erase_size = 4096,
       plabel = ''nvs'', encrypted = False, readonly = False\<rparr>, user_registered = False\<rparr>"

theorem partition_verify_witness:
  "esp_partition_verify (\<lambda>l. (ESP_OK, [ex_part 1 0 0x1000 0x1000, ex_part 2 0 0x2000 0x1000])) True
     (info (ex_part 2 0 0x2000 0x1000)) [] =
     (Some (ex_part 2 0 0x2000 0x1000), [ex_part 1 0 0x1000 0x1000, ex_part 2 0 0x2000 0x1000])"
  by (rule partition_verify_returns_own_item)
    (simp_all add: ex_part_def same_place_def part_consts ensure_partitions_loaded_def)

subsection \<open>Registration\<close>

definition apart :: "esp_partition_t \<Rightarrow> esp_partition_t \<Rightarrow> bool" where
  "apart p q \<longleftrightarrow> flash_chip p \<noteq> flash_chip q \<or> paddress p + psize p \<le> paddress q \<or>
     paddress q + psize q \<le> paddress p"

definition placed :: "esp_partition_t \<Rightarrow> bool" where
  "placed p \<longleftrightarrow> 0 < psize p \<and> paddress p + psize p < 2 ^ 31"

definition list_inv :: "partition_list_item_t list \<Rightarrow> bool" where
  "list_inv l \<longleftrightarrow> (\<forall>it \<in> set l. placed (info it)) \<and> sorted_wrt (\<lambda>a b. apart (info a) (info b)) l \<and>
     distinct (map item_addr l)"

lemma sext32_small: "n < 2 ^ 31 \<Longrightarrow> sext32 n = int n"
  by (simp add: sext32_def)

lemma overlaps_any_spec:
  assumes "\<forall>it \<in> set l. placed (info it)" and "0 < sz" and "offset + sz < 2 ^ 31"
  shows "overlaps_any chip offset sz l = Some (\<exists>it \<in> set l. flash_chip (info it) = chip \<and>
    offset < paddress (info it) + psize (info it) \<and> paddress (info it) < offset + sz)"
  using assms(1)
proof (induction l)
  case Nil
  then show ?case by simp
next
  case (Cons it l)
  have "placed (info it)" using Cons.prems by simp
  then have "bootloader_util_regions_overlap (sext32 offset) (sext32 (sz_add offset sz))
       (sext32 (paddress (info it))) (sext32 (sz_add (paddress (info it)) (psize (info it)))) =
     Some (offset < paddress (info it) + psize (info it) \<and> paddress (info it) < offset + sz)"
    using assms(2,3)
    by (auto simp: bootloader_util_regions_overlap_def sz_add_def sext32_small placed_def)
  then show ?case using Cons by auto
qed

lemma list_inv_snoc:
  "list_inv l \<Longrightarrow> placed (info it) \<Longrightarrow> \<forall>a \<in> set l. apart (info a) (info it) \<Longrightarrow>
   item_addr it \<notin> item_addr ` set l \<Longrightarrow> list_inv (l @ [it])"
  by (auto simp: list_inv_def sorted_wrt_append)

text \<open>
  Claim C14. On a list of placed and pairwise disjoint partitions, a request to register a non-empty external
  partition that ends below 2 GiB returns without a failing assertion, and its result is determined: a
  region that does not fit on the chip is refused with \<open>ESP_ERR_INVALID_SIZE\<close>, a failure to load the table is
  passed on, a failed allocation gives \<open>ESP_ERR_NO_MEM\<close>, an overlap with a partition of the same chip
  \<open>ESP_ERR_INVALID_ARG\<close>, each without a new partition; in every other case it succeeds, and the list gains the partition at
  the end and stays disjoint.
\<close>

theorem register_external_keeps_disjoint:
  assumes load: "ensure_partitions_loaded load l0 = (lerr, l)"
    and inv: "list_inv l" and sz: "0 < sz" "offset + sz < 2 ^ 31"
    and a: "\<forall>a. calloc = Some a \<longrightarrow> a \<notin> item_addr ` set l"
  shows "\<exists>err out l'.
    esp_partition_register_external load calloc chip chip_size offset sz label t st l0 = Some (err, out, l') \<and>
    (if chip_size < offset + sz then err = ESP_ERR_INVALID_SIZE \<and> out = None \<and> l' = l0
     else if lerr \<noteq> ESP_OK then err = lerr \<and> out = None \<and> l' = l
     else if calloc = None then err = ESP_ERR_NO_MEM \<and> out = None \<and> l' = l
     else if \<exists>it \<in> set l. flash_chip (info it) = chip \<and> offset < paddress (info it) + psize (info it) \<and>
          paddress (info it) < offset + sz
     then err = ESP_ERR_INVALID_ARG \<and> out = None \<and> l' = l
     else err = ESP_OK \<and> list_inv l' \<and> (\<exists>it. out = Some it \<and> l' = l @ [it] \<and> user_registered it \<and>
       flash_chip (info it) = chip \<and> paddress (info it) = offset \<and> psize (info it) = sz))"
proof -
  define ov where "ov \<longleftrightarrow> (\<exists>it \<in> set l. flash_chip (info it) = chip \<and> offset < paddress (info it) + psize (info it) \<and>
      paddress (info it) < offset + sz)"
  let ?it = "\<lambda>a. \<lparr>item_addr = a, info = \<lparr>flash_chip = chip, ptype = t, psubtype = st, paddress = offset, psize = sz,
      erase_size = 0, plabel = take 16 label, encrypted = False, readonly = False\<rparr>, user_registered = True\<rparr>"
  have any: "overlaps_any chip offset sz l = Some ov"
    using overlaps_any_spec [of l sz offset chip] inv sz by (simp add: list_inv_def ov_def)
  have e: "sz_add offset sz = offset + sz" using sz(2) by (simp add: sz_add_def)
  have new: "list_inv (l @ [?it a])" if "\<not> ov" "calloc = Some a" for a
    using inv sz that assms(5) by (intro list_inv_snoc) (auto simp: placed_def apart_def not_le not_less ov_def)
  have "esp_partition_register_external load calloc chip chip_size offset sz label t st l0 =
    Some (if chip_size < offset + sz then (ESP_ERR_INVALID_SIZE, None, l0)
      else if lerr \<noteq> ESP_OK then (lerr, None, l)
      else case calloc of None \<Rightarrow> (ESP_ERR_NO_MEM, None, l)
        | Some a \<Rightarrow> if ov then (ESP_ERR_INVALID_ARG, None, l) else (ESP_OK, Some (?it a), l @ [?it a]))"
    using load any unfolding esp_partition_register_external_def e by (simp add: Let_def split: option.split)
  then show ?thesis using new by (cases calloc) (auto simp: ov_def)
qed

theorem register_external_witness:
  "\<exists>err out l'. esp_partition_register_external (\<lambda>l. (ESP_OK, l)) (Some 2) 0 0x100000 0x3000 0x1000 ''x'' 1 2 [ex_part 1 0 0x1000 0x1000] =
      Some (err, out, l') \<and> list_inv l' \<and> err = ESP_OK"
proof -
  have "list_inv [ex_part 1 0 0x1000 0x1000]" by (simp add: list_inv_def placed_def ex_part_def)
  from register_external_keeps_disjoint [OF ensure_loaded this, where load = "\<lambda>l. (ESP_OK, l)" and sz = "0x1000"
      and offset = "0x3000" and chip_size = "0x100000" and calloc = "Some 2" and chip = 0 and label = "''x''" and t = 1 and st = 2]
  show ?thesis by (auto simp: ex_part_def)
qed

text \<open>
  The end of a region is computed in 32 bits: a region of 8 KiB that starts 4 KiB before
  the end of the address space passes the size check and the overlap check, and is registered
  although it does not fit on any chip.
\<close>

theorem register_external_wraps:
  "\<exists>it. esp_partition_register_external load (Some 2) 0 0x400000 0xFFFFF000 0x2000 label t st
       [ex_part 1 0 0x1000 0x1000] = Some (ESP_OK, Some it, [ex_part 1 0 0x1000 0x1000, it]) \<and>
     paddress (info it) = 0xFFFFF000 \<and> psize (info it) = 0x2000"
  by (simp add: esp_partition_register_external_def ex_part_def sz_add_def sext32_def
      bootloader_util_regions_overlap_def Let_def)

text \<open>Deregistration undoes registration.\<close>

lemma deregister_snoc:
  "item_addr it \<notin> item_addr ` set l \<Longrightarrow> user_registered it \<Longrightarrow>
   esp_partition_deregister_external (item_addr it) (l @ [it]) = (ESP_OK, l)"
  by (induction l) auto

text \<open>
  A partition that was registered can be deregistered by its address, which gives the list
  back as it was when loaded; a partition that comes from the table cannot be deregistered.
\<close>

theorem deregister_undoes_register:
  assumes reg: "esp_partition_register_external load (Some a) chip chip_size offset sz label t st l0 = Some (ESP_OK, Some it, l')"
    and load: "ensure_partitions_loaded load l0 = (err, l)" and a: "a \<notin> item_addr ` set l"
  shows "esp_partition_deregister_external (item_addr it) l' = (ESP_OK, l) \<and>
    (\<forall>q \<in> set l. \<not> user_registered q \<longrightarrow> distinct (map item_addr l) \<longrightarrow>
       esp_partition_deregister_external (item_addr q) l = (ESP_ERR_INVALID_ARG, l))"
proof (intro conjI ballI impI)
  have "l' = l @ [it] \<and> item_addr it = a \<and> user_registered it"
    using reg load by (auto simp: esp_partition_register_external_def Let_def split: if_splits bind_splits)
  then show "esp_partition_deregister_external (item_addr it) l' = (ESP_OK, l)"
    using a deregister_snoc [of it l] by simp
next
  fix q assume "q \<in> set l" "\<not> user_registered q" "distinct (map item_addr l)"
  then show "esp_partition_deregister_external (item_addr q) l = (ESP_ERR_INVALID_ARG, l)"
    by (induction l) auto
qed

theorem deregister_undoes_register_witness:
  "esp_partition_deregister_external 2 [ex_part 1 0 0x1000 0x1000,
      \<lparr>item_addr = 2, info = \<lparr>flash_chip = 0, ptype = 1, psubtype = 2, paddress = 0x3000, psize = 0x1000,
        erase_size = 0, plabel = ''x'', encrypted = False, readonly = False\<rparr>, user_registered = True\<rparr>] =
     (ESP_OK, [ex_part 1 0 0x1000 0x1000])"
proof -
  let ?it = "\<lparr>item_addr = 2, info = \<lparr>flash_chip = 0, ptype = 1, psubtype = 2, paddress = 0x3000, psize = 0x1000,
        erase_size = 0, plabel = ''x'', encrypted = False, readonly = False\<rparr>, user_registered = True\<rparr>"
  have "esp_partition_register_external (\<lambda>l. (ESP_OK, l)) (Some 2) 0 0x100000 0x3000 0x1000 ''x'' 1 2 [ex_part 1 0 0x1000 0x1000] =
      Some (ESP_OK, Some ?it, [ex_part 1 0 0x1000 0x1000, ?it])"
    by (simp add: esp_partition_register_external_def ex_part_def sz_add_def sext32_def
        bootloader_util_regions_overlap_def Let_def)
  from deregister_undoes_register [OF this ensure_loaded] show ?thesis by (simp add: ex_part_def)
qed

subsection \<open>Writes stay inside\<close>

definition outside :: "esp_partition_t \<Rightarrow> nat \<Rightarrow> bool" where
  "outside p i \<longleftrightarrow> i < paddress p \<or> paddress p + psize p \<le> i"

definition same_hw :: "flash_dev \<Rightarrow> flash_dev \<Rightarrow> bool" where
  "same_hw f g \<longleftrightarrow> hw_encrypt f = hw_encrypt g \<and> hw_decrypt f = hw_decrypt g"

definition hw_len :: "flash_dev \<Rightarrow> bool" where
  "hw_len f \<longleftrightarrow> (\<forall>a xs. length (hw_encrypt f a xs) = length xs)"

text \<open>\<open>f'\<close> differs from \<open>f\<close> at most inside the partition.\<close>

definition confined :: "esp_partition_t \<Rightarrow> flash_dev \<Rightarrow> flash_dev \<Rightarrow> bool" where
  "confined p f f' \<longleftrightarrow> same_hw f' f \<and> (\<forall>i. outside p i \<longrightarrow> cells f' i = cells f i)"

lemma confined_refl [simp]: "confined p f f"
  by (simp add: confined_def same_hw_def)

lemma confined_trans: "confined p f g \<Longrightarrow> confined p g h \<Longrightarrow> confined p f h"
  by (simp add: confined_def same_hw_def)

lemma confined_hw_len: "confined p f f' \<Longrightarrow> hw_len f \<Longrightarrow> hw_len f'"
  by (simp add: confined_def same_hw_def hw_len_def)

lemma range_check_fits:
  "range_check p off n = ESP_OK \<Longrightarrow> off + n < 2 ^ 32 \<Longrightarrow> off + n \<le> psize p"
  by (auto simp: range_check_def sz_add_def split: if_splits)

text \<open>In a partition that does not wrap around, the address of an offset is the plain sum.\<close>

definition unwrapped :: "esp_partition_t \<Rightarrow> bool" where
  "unwrapped p \<longleftrightarrow> paddress p + psize p < 2 ^ 32"

lemma part_addr: "unwrapped p \<Longrightarrow> off \<le> psize p \<Longrightarrow> sz_add (paddress p) off = paddress p + off"
  by (simp add: unwrapped_def sz_add_def)

lemma range_check_le: "range_check p off n = ESP_OK \<Longrightarrow> off \<le> psize p"
  by (auto simp: range_check_def split: if_splits)

lemmas checked_addr = part_addr [OF _ range_check_le]

lemma placed_unwrapped: "placed p \<Longrightarrow> unwrapped p"
  by (simp add: placed_def unwrapped_def)

lemma flash_op_confined:
  assumes "range_check p off n = ESP_OK" and "off + n < 2 ^ 32" and "unwrapped p"
  shows "confined p f (snd (flash_op (sz_add (paddress p) off) n new f))"
  unfolding checked_addr [OF assms(3,1)] using range_check_fits [OF assms(1,2)]
  by (auto simp: confined_def same_hw_def flash_op_def in_range_def outside_def)

lemma flash_write_confined:
  assumes "range_check p off n = ESP_OK" and "off + n < 2 ^ 32" and "unwrapped p" and "length xs = n"
  shows "confined p f (snd (flash_write (sz_add (paddress p) off) xs f))"
  using flash_op_confined [OF assms(1-3)] assms(4) by (simp add: flash_write_def)

lemma partition_write_confined:
  assumes "off + length src < 2 ^ 32" and "hw_len f" and "unwrapped p"
  shows "confined p f (snd (esp_partition_write p off src f))"
  using assms flash_write_confined [of p off "length src"]
  by (simp add: esp_partition_write_def esp_flash_write_encrypted_def hw_len_def)

lemma partition_write_raw_confined:
  "off + length src < 2 ^ 32 \<Longrightarrow> unwrapped p \<Longrightarrow> confined p f (snd (esp_partition_write_raw p off src f))"
  using flash_write_confined [of p off "length src"] by (simp add: esp_partition_write_raw_def)

lemma partition_erase_confined:
  "off + n < 2 ^ 32 \<Longrightarrow> unwrapped p \<Longrightarrow> confined p f (snd (esp_partition_erase_range p off n f))"
  using flash_op_confined [of p off n] by (simp add: esp_partition_erase_range_def flash_erase_def)

text \<open>
  Claim C15. Whatever a write, a raw write or an erase through a partition returns, no byte outside the
  partition changes, as long as neither the partition nor the request wraps around the 32-bit address range
  and the cipher keeps lengths; and an unencrypted write that succeeds has programmed exactly the given bytes.
\<close>

theorem partition_writes_confined:
  assumes u: "paddress p + psize p < 2 ^ 32"
    and out: "i < paddress p \<or> paddress p + psize p \<le> i" and w: "off + length src < 2 ^ 32" "off + n < 2 ^ 32"
    and c: "\<forall>a xs. length (hw_encrypt f a xs) = length xs"
  shows "cells (snd (esp_partition_write p off src f)) i = cells f i \<and>
    cells (snd (esp_partition_write_raw p off src f)) i = cells f i \<and>
    cells (snd (esp_partition_erase_range p off n f)) i = cells f i \<and>
    (\<forall>f' k. esp_partition_write p off src f = (ESP_OK, f') \<and> \<not> encrypted p \<and> k < length src \<longrightarrow>
       cells f' (paddress p + off + k) = cells f (paddress p + off + k) AND src ! k)"
proof (intro conjI allI impI)
  have up: "unwrapped p" using u by (simp add: unwrapped_def)
  note conf = partition_write_confined [OF w(1) _ up, of f] partition_write_raw_confined [OF w(1) up, of f]
    partition_erase_confined [OF w(2) up, of f]
  show "cells (snd (esp_partition_write p off src f)) i = cells f i"
    "cells (snd (esp_partition_write_raw p off src f)) i = cells f i"
    "cells (snd (esp_partition_erase_range p off n f)) i = cells f i"
    using conf out c by (auto simp: confined_def outside_def hw_len_def)
  fix f' k assume a: "esp_partition_write p off src f = (ESP_OK, f') \<and> \<not> encrypted p \<and> k < length src"
  then have "range_check p off (length src) = ESP_OK" by (auto simp: esp_partition_write_def split: if_splits)
  from a checked_addr [OF up this] show "cells f' (paddress p + off + k) = cells f (paddress p + off + k) AND src ! k"
    by (auto simp: esp_partition_write_def flash_write_def flash_op_def in_range_def split: if_splits)
qed

theorem partition_writes_confined_witness:
  "let f = \<lparr>cells = \<lambda>_. 0xFF, ops_left = 5, garbage = \<lambda>_. 0, hw_encrypt = \<lambda>_ xs. xs, hw_decrypt = \<lambda>_ xs. xs\<rparr> in
   cells (snd (esp_partition_write (info (ex_part 1 0 0x1000 0x1000)) 4 [1, 2, 3] f)) 0x2000 = 0xFF"
  using partition_writes_confined [of "info (ex_part 1 0 0x1000 0x1000)" "0x2000" 4 "[1, 2, 3]" 0
      "\<lparr>cells = \<lambda>_. 0xFF, ops_left = 5, garbage = \<lambda>_. 0, hw_encrypt = \<lambda>_ xs. xs, hw_decrypt = \<lambda>_ xs. xs\<rparr>"]
  by (simp add: ex_part_def)

text \<open>
  Without the bound on the partition this fails: through a partition like the one of \<open>register_external_wraps\<close>, a
  write at offset 4096 programs the first byte of the chip.
\<close>

theorem wrapped_partition_writes_elsewhere:
  assumes "0 < ops_left f"
  shows "esp_partition_write (info (ex_part 2 0 0xFFFFF000 0x2000)) 0x1000 [0] f =
     (ESP_OK, f\<lparr>cells := \<lambda>i. if i = 0 then 0 else cells f i, ops_left := ops_left f - 1\<rparr>)"
proof -
  have "(\<lambda>i. if in_range 0 (Suc 0) i then cells f i AND [0] ! i else cells f i) = (\<lambda>i. if i = 0 then 0 else cells f i)"
    by (auto simp: in_range_def fun_eq_iff)
  with assms show ?thesis
    by (simp add: esp_partition_write_def ex_part_def range_check_def sz_add_def flash_write_def flash_op_def)
qed

end
