(* ===== verification/Ota.thy ===== *)
theory Ota
  imports Partition
begin

section \<open>Over-the-air updates and the selection of the boot partition\<close>

text \<open>
  Model of the selection side of \<open>app_update/esp_ota_ops.c\<close> and of the OTA data helpers in
  \<open>bootloader_support/src/bootloader_common_loader.c\<close>. The OTA data partition has two sectors; each
  starts with a 32-byte entry (sequence number, state, checksum of the sequence number). The
  application rewrites the entry that is not active, the boot loader boots the slot of the valid
  entry with the greatest sequence number. The ROM checksum, the image check and the memory map
  are arguments (\<open>ota_cfg\<close>), as are the two configuration options. Anti-rollback is off.
\<close>

subsection \<open>OTA data entries\<close>

definition ESP_OTA_IMG_NEW :: "32 word" where "ESP_OTA_IMG_NEW = 0"
definition ESP_OTA_IMG_PENDING_VERIFY :: "32 word" where "ESP_OTA_IMG_PENDING_VERIFY = 1"
definition ESP_OTA_IMG_VALID :: "32 word" where "ESP_OTA_IMG_VALID = 2"
definition ESP_OTA_IMG_INVALID :: "32 word" where "ESP_OTA_IMG_INVALID = 3"
definition ESP_OTA_IMG_ABORTED :: "32 word" where "ESP_OTA_IMG_ABORTED = 4"
definition ESP_OTA_IMG_UNDEFINED :: "32 word" where "ESP_OTA_IMG_UNDEFINED = 0xFFFFFFFF"
definition UINT32_MAX :: "32 word" where "UINT32_MAX = 0xFFFFFFFF"

lemmas ota_states = ESP_OTA_IMG_NEW_def ESP_OTA_IMG_PENDING_VERIFY_def ESP_OTA_IMG_VALID_def
  ESP_OTA_IMG_INVALID_def ESP_OTA_IMG_ABORTED_def ESP_OTA_IMG_UNDEFINED_def

record esp_ota_select_entry_t =
  ota_seq :: "32 word"
  seq_label :: "byte list"
  ota_state :: "32 word"
  crc :: "32 word"

definition bytes_of_select :: "esp_ota_select_entry_t \<Rightarrow> byte list" where
  "bytes_of_select e = le_bytes 4 (unat (ota_seq e)) @ seq_label e @
     le_bytes 4 (unat (ota_state e)) @ le_bytes 4 (unat (crc e))"

definition select_of_bytes :: "byte list \<Rightarrow> esp_ota_select_entry_t" where
  "select_of_bytes bs = \<lparr>
     ota_seq = of_nat (le_val (take 4 bs)), seq_label = take 20 (drop 4 bs),
     ota_state = of_nat (le_val (take 4 (drop 24 bs))), crc = of_nat (le_val (take 4 (drop 28 bs)))\<rparr>"

record ota_cfg =
  crc32_le :: "32 word \<Rightarrow> byte list \<Rightarrow> 32 word"
  image_verify :: "nat \<Rightarrow> nat \<Rightarrow> flash_dev \<Rightarrow> bool"
  mmap_ok :: bool
  flash_encryption :: bool
  rollback_enable :: bool
  phys_offs :: nat

definition bootloader_common_ota_select_crc :: "ota_cfg \<Rightarrow> esp_ota_select_entry_t \<Rightarrow> 32 word" where
  "bootloader_common_ota_select_crc cfg s = crc32_le cfg UINT32_MAX (le_bytes 4 (unat (ota_seq s)))"

definition bootloader_common_ota_select_invalid :: "esp_ota_select_entry_t \<Rightarrow> bool" where
  "bootloader_common_ota_select_invalid s \<longleftrightarrow>
     ota_seq s = UINT32_MAX \<or> ota_state s = ESP_OTA_IMG_INVALID \<or> ota_state s = ESP_OTA_IMG_ABORTED"

definition bootloader_common_ota_select_valid :: "ota_cfg \<Rightarrow> esp_ota_select_entry_t \<Rightarrow> bool" where
  "bootloader_common_ota_select_valid cfg s \<longleftrightarrow>
     \<not> bootloader_common_ota_select_invalid s \<and> crc s = bootloader_common_ota_select_crc cfg s"

text \<open>\<open>-1\<close>, no entry, is \<open>None\<close>.\<close>

definition bootloader_common_select_otadata ::
  "esp_ota_select_entry_t list \<Rightarrow> bool list \<Rightarrow> bool \<Rightarrow> nat option" where
  "bootloader_common_select_otadata two valid mx =
     (if valid ! 0 \<and> valid ! 1
      then let condition = (if mx then max (ota_seq (two ! 0)) (ota_seq (two ! 1))
                            else min (ota_seq (two ! 0)) (ota_seq (two ! 1)))
           in Some (if condition = ota_seq (two ! 0) then 0 else 1)
      else if valid ! 0 then Some 0 else if valid ! 1 then Some 1 else None)"

definition bootloader_common_get_active_otadata :: "ota_cfg \<Rightarrow> esp_ota_select_entry_t list \<Rightarrow> nat option" where
  "bootloader_common_get_active_otadata cfg two =
     bootloader_common_select_otadata two
       [bootloader_common_ota_select_valid cfg (two ! 0), bootloader_common_ota_select_valid cfg (two ! 1)] True"

text \<open>The slot a sequence number stands for.\<close>

definition ota_slot :: "32 word \<Rightarrow> nat \<Rightarrow> nat" where
  "ota_slot seq n = unat (seq - 1) mod n"

subsection \<open>State of the application side\<close>

record ota_ops_entry_t =
  handle :: nat
  part :: partition_list_item_t
  need_erase :: bool
  wrote_size :: nat
  partial_bytes :: nat
  partial_data :: "byte list"

record ota_sys =
  fl :: flash_dev
  s_partition_list :: "partition_list_item_t list"
  curr_partition :: "partition_list_item_t option"
  s_ota_ops_entries :: "ota_ops_entry_t list"
  s_ota_ops_last_handle :: nat

definition is_ota_partition :: "esp_partition_t \<Rightarrow> bool" where
  "is_ota_partition p \<longleftrightarrow> ptype p = ESP_PARTITION_TYPE_APP \<and>
     psubtype p \<ge> ESP_PARTITION_SUBTYPE_APP_OTA_MIN \<and> psubtype p < ESP_PARTITION_SUBTYPE_APP_OTA_MAX"

definition otadata_partition :: "ota_sys \<Rightarrow> partition_list_item_t option" where
  "otadata_partition sys =
     find_first_loaded ESP_PARTITION_TYPE_DATA ESP_PARTITION_SUBTYPE_DATA_OTA None (s_partition_list sys)"

definition read_two :: "bool \<Rightarrow> nat \<Rightarrow> flash_dev \<Rightarrow> esp_ota_select_entry_t list" where
  "read_two enc a f = [select_of_bytes (mapped_read enc a 32 f),
                       select_of_bytes (mapped_read enc (a + SPI_FLASH_SEC_SIZE) 32 f)]"

definition read_otadata ::
  "ota_cfg \<Rightarrow> ota_sys \<Rightarrow> (esp_partition_t \<times> esp_ota_select_entry_t list) option" where
  "read_otadata cfg sys =
     (case otadata_partition sys of
        None \<Rightarrow> None
      | Some p \<Rightarrow>
          if flash_chip (info p) \<noteq> 0 \<or> \<not> mmap_ok cfg then None
          else Some (info p, read_two (flash_encryption cfg) (paddress (info p)) (fl sys)))"

definition image_validate :: "ota_cfg \<Rightarrow> esp_partition_t \<Rightarrow> ota_sys \<Rightarrow> esp_err_t" where
  "image_validate cfg p sys =
     (if image_verify cfg (paddress p) (psize p) (fl sys) then ESP_OK else ESP_ERR_OTA_VALIDATE_FAILED)"

definition set_new_state_otadata :: "ota_cfg \<Rightarrow> 32 word" where
  "set_new_state_otadata cfg = (if rollback_enable cfg then ESP_OTA_IMG_NEW else ESP_OTA_IMG_UNDEFINED)"

definition find_app :: "nat \<Rightarrow> ota_sys \<Rightarrow> partition_list_item_t option" where
  "find_app st sys = find_first_loaded ESP_PARTITION_TYPE_APP st None (s_partition_list sys)"

text \<open>The assertion on the number of slots stops the program.\<close>

function count_apps :: "ota_sys \<Rightarrow> nat \<Rightarrow> nat option" where
  "count_apps sys n =
     (if find_app (ESP_PARTITION_SUBTYPE_APP_OTA_MIN + n) sys \<noteq> None
      then (if n < 16 then count_apps sys (n + 1) else None)
      else Some n)"
  by pat_completeness auto
termination
  by (relation "measure (\<lambda>(sys, n). 17 - n)") auto

declare count_apps.simps [simp del]

definition esp_ota_get_app_partition_count :: "ota_sys \<Rightarrow> nat option" where
  "esp_ota_get_app_partition_count sys = count_apps sys 0"

definition lift_flash :: "esp_err_t \<times> flash_dev \<Rightarrow> ota_sys \<Rightarrow> esp_err_t \<times> ota_sys" where
  "lift_flash r sys = (fst r, sys\<lparr>fl := snd r\<rparr>)"

subsection \<open>Choosing the boot partition\<close>

definition rewrite_ota_seq ::
  "ota_cfg \<Rightarrow> esp_ota_select_entry_t list \<Rightarrow> 32 word \<Rightarrow> nat \<Rightarrow> esp_partition_t \<Rightarrow> ota_sys \<Rightarrow> esp_err_t \<times> ota_sys" where
  "rewrite_ota_seq cfg two seq sec_id p sys =
     (if sec_id > 1 then (ESP_ERR_INVALID_ARG, sys)
      else
        let e1 = (two ! sec_id)\<lparr>ota_seq := seq\<rparr>;
            e = e1\<lparr>crc := bootloader_common_ota_select_crc cfg e1\<rparr>;
            (ret, sys1) = lift_flash (esp_partition_erase_range p (sec_id * SPI_FLASH_SEC_SIZE) SPI_FLASH_SEC_SIZE (fl sys)) sys
        in if ret \<noteq> ESP_OK then (ret, sys1)
           else lift_flash (esp_partition_write p (SPI_FLASH_SEC_SIZE * sec_id) (bytes_of_select e) (fl sys1)) sys1)"

text \<open>The search for the multiple of the slot count, in 32-bit arithmetic.\<close>

partial_function (option) seq_loop :: "32 word \<Rightarrow> 32 word \<Rightarrow> 32 word \<Rightarrow> 32 word \<Rightarrow> (32 word) option" where
  "seq_loop seq base n i = (if seq > base + i * n then seq_loop seq base n (i + 1) else Some i)"

definition SUB_TYPE_ID :: "nat \<Rightarrow> nat" where
  "SUB_TYPE_ID st = st mod 16"

definition esp_rewrite_ota_data :: "ota_cfg \<Rightarrow> nat \<Rightarrow> ota_sys \<Rightarrow> (esp_err_t \<times> ota_sys) option" where
  "esp_rewrite_ota_data cfg st sys =
     (case read_otadata cfg sys of
        None \<Rightarrow> Some (ESP_ERR_NOT_FOUND, sys)
      | Some (p, otadata) \<Rightarrow> do {
          ota_app_count \<leftarrow> esp_ota_get_app_partition_count sys;
          (if SUB_TYPE_ID st \<ge> ota_app_count then Some (ESP_ERR_INVALID_ARG, sys)
           else case bootloader_common_get_active_otadata cfg otadata of
               Some active_otadata \<Rightarrow> do {
                 let base = of_nat ((SUB_TYPE_ID st + 1) mod ota_app_count);
                 i \<leftarrow> seq_loop (ota_seq (otadata ! active_otadata)) base (of_nat ota_app_count) 0;
                 let next_otadata = 1 - active_otadata;
                 Some (rewrite_ota_seq cfg
                   (otadata[next_otadata := (otadata ! next_otadata)\<lparr>ota_state := set_new_state_otadata cfg\<rparr>])
                   (base + i * of_nat ota_app_count) next_otadata p sys) }
             | None \<Rightarrow>
                 Some (rewrite_ota_seq cfg
                   (otadata[0 := (otadata ! 0)\<lparr>ota_state := set_new_state_otadata cfg\<rparr>])
                   (of_nat (SUB_TYPE_ID st + 1)) 0 p sys)) })"

definition esp_ota_set_boot_partition ::
  "ota_cfg \<Rightarrow> esp_partition_t option \<Rightarrow> ota_sys \<Rightarrow> (esp_err_t \<times> ota_sys) option" where
  "esp_ota_set_boot_partition cfg partn sys =
     (case partn of
        None \<Rightarrow> Some (ESP_ERR_INVALID_ARG, sys)
      | Some p \<Rightarrow>
          if image_validate cfg p sys \<noteq> ESP_OK then Some (ESP_ERR_OTA_VALIDATE_FAILED, sys)
          else if ptype p = ESP_PARTITION_TYPE_APP then
            (if psubtype p = ESP_PARTITION_SUBTYPE_APP_FACTORY then
               (case otadata_partition sys of
                  Some d \<Rightarrow> Some (lift_flash (esp_partition_erase_range (info d) 0 (psize (info d)) (fl sys)) sys)
                | None \<Rightarrow> Some (ESP_ERR_NOT_FOUND, sys))
             else esp_rewrite_ota_data cfg (psubtype p) sys)
          else Some (ESP_ERR_INVALID_ARG, sys))"

definition first_app :: "nat list \<Rightarrow> ota_sys \<Rightarrow> partition_list_item_t option" where
  "first_app sts sys = List.find (\<lambda>_. True) (List.map_filter (\<lambda>s. find_app s sys) sts)"

definition find_default_boot_partition :: "ota_sys \<Rightarrow> partition_list_item_t option" where
  "find_default_boot_partition sys =
     first_app ([ESP_PARTITION_SUBTYPE_APP_FACTORY] @
       [ESP_PARTITION_SUBTYPE_APP_OTA_MIN..<ESP_PARTITION_SUBTYPE_APP_OTA_MAX] @
       [ESP_PARTITION_SUBTYPE_APP_TEST]) sys"

definition esp_ota_get_boot_partition :: "ota_cfg \<Rightarrow> ota_sys \<Rightarrow> partition_list_item_t option option" where
  "esp_ota_get_boot_partition cfg sys =
     (case read_otadata cfg sys of
        None \<Rightarrow> Some None
      | Some (p, otadata) \<Rightarrow> do {
          ota_app_count \<leftarrow> esp_ota_get_app_partition_count sys;
          Some (if bootloader_common_ota_select_invalid (otadata ! 0) \<and>
                   bootloader_common_ota_select_invalid (otadata ! 1) \<or> ota_app_count = 0
                then find_default_boot_partition sys
                else case bootloader_common_get_active_otadata cfg otadata of
                    Some a \<Rightarrow> find_app (ESP_PARTITION_SUBTYPE_APP_OTA_MIN +
                                ota_slot (ota_seq (otadata ! a)) ota_app_count) sys
                  | None \<Rightarrow> find_default_boot_partition sys) })"

text \<open>The search loop over the application partitions; reaching the end aborts the program.\<close>

definition esp_ota_get_running_partition ::
  "ota_cfg \<Rightarrow> ota_sys \<Rightarrow> (partition_list_item_t \<times> ota_sys) option" where
  "esp_ota_get_running_partition cfg sys =
     (case curr_partition sys of
        Some p \<Rightarrow> Some (p, sys)
      | None \<Rightarrow>
          (case find (\<lambda>p. part_matches ESP_PARTITION_TYPE_APP ESP_PARTITION_SUBTYPE_ANY None p \<and>
                   paddress (info p) \<le> phys_offs cfg \<and>
                   sz_add (paddress (info p)) (psize (info p)) > phys_offs cfg) (s_partition_list sys) of
             None \<Rightarrow> None
           | Some p \<Rightarrow> Some (p, sys\<lparr>curr_partition := Some p\<rparr>)))"

fun next_update_loop ::
  "partition_list_item_t list \<Rightarrow> partition_list_item_t \<Rightarrow> partition_list_item_t option \<Rightarrow> bool \<Rightarrow>
   partition_list_item_t option" where
  "next_update_loop [] start_from default_ota next_is_result = default_ota"
| "next_update_loop (p # ps) start_from default_ota next_is_result =
     (let d = (if default_ota = None then Some p else default_ota) in
      if item_addr p = item_addr start_from then next_update_loop ps start_from d True
      else if next_is_result then Some p
      else next_update_loop ps start_from d next_is_result)"

definition ota_partitions :: "ota_sys \<Rightarrow> partition_list_item_t list" where
  "ota_partitions sys = List.map_filter (\<lambda>st. find_app st sys)
     [ESP_PARTITION_SUBTYPE_APP_OTA_MIN..<ESP_PARTITION_SUBTYPE_APP_OTA_MAX]"

definition esp_ota_get_next_update_partition ::
  "ota_cfg \<Rightarrow> esp_partition_t option \<Rightarrow> ota_sys \<Rightarrow> (partition_list_item_t option \<times> ota_sys) option" where
  "esp_ota_get_next_update_partition cfg start_from sys = do {
     (s, sys1) \<leftarrow> (case start_from of
         None \<Rightarrow> esp_ota_get_running_partition cfg sys
       | Some p \<Rightarrow> map_option (\<lambda>v. (v, sys)) (verify_loaded p (s_partition_list sys)));
     Some (next_update_loop (ota_partitions sys1) s None False, sys1) }"

subsection \<open>Rollback\<close>

definition esp_ota_check_rollback_is_possible :: "ota_cfg \<Rightarrow> ota_sys \<Rightarrow> bool option" where
  "esp_ota_check_rollback_is_possible cfg sys =
     (case read_otadata cfg sys of
        None \<Rightarrow> Some False
      | Some (p, otadata) \<Rightarrow> do {
          n \<leftarrow> esp_ota_get_app_partition_count sys;
          (if n = 0 then Some False
           else
             let valid = map (bootloader_common_ota_select_valid cfg) otadata in
             case bootloader_common_select_otadata otadata valid True of
               None \<Rightarrow> Some False
             | Some active \<Rightarrow>
                 let last = 1 - active;
                     ok = (\<lambda>q. case q of None \<Rightarrow> False | Some it \<Rightarrow> image_validate cfg (info it) sys = ESP_OK)
                 in Some (if \<not> valid ! last then ok (find_app ESP_PARTITION_SUBTYPE_APP_FACTORY sys)
                          else ok (find_app (ESP_PARTITION_SUBTYPE_APP_OTA_MIN +
                                 ota_slot (ota_seq (otadata ! last)) n) sys))) })"

datatype ota_result = OtaReturn esp_err_t | OtaRestart

definition esp_ota_current_ota_is_workable ::
  "ota_cfg \<Rightarrow> bool \<Rightarrow> ota_sys \<Rightarrow> (ota_result \<times> ota_sys) option" where
  "esp_ota_current_ota_is_workable cfg valid sys =
     (case read_otadata cfg sys of
        None \<Rightarrow> Some (OtaReturn ESP_ERR_NOT_FOUND, sys)
      | Some (p, otadata) \<Rightarrow>
          (case bootloader_common_get_active_otadata cfg otadata of
             None \<Rightarrow> Some (OtaReturn ESP_FAIL, sys)
           | Some a \<Rightarrow> do {
               n \<leftarrow> esp_ota_get_app_partition_count sys;
               let set = (\<lambda>s. rewrite_ota_seq cfg (otadata[a := (otadata ! a)\<lparr>ota_state := s\<rparr>])
                                (ota_seq (otadata ! a)) a p sys);
               (if n = 0 then Some (OtaReturn ESP_FAIL, sys)
                else if valid \<and> ota_state (otadata ! a) \<noteq> ESP_OTA_IMG_VALID
                then Some (map_prod OtaReturn id (set ESP_OTA_IMG_VALID))
                else if \<not> valid then do {
                  possible \<leftarrow> esp_ota_check_rollback_is_possible cfg sys;
                  (if \<not> possible then Some (OtaReturn ESP_ERR_OTA_ROLLBACK_FAILED, sys)
                   else let (err, sys1) = set ESP_OTA_IMG_INVALID
                        in Some (if err \<noteq> ESP_OK then (OtaReturn err, sys1) else (OtaRestart, sys1))) }
                else Some (OtaReturn ESP_OK, sys)) }))"

definition esp_ota_mark_app_valid_cancel_rollback :: "ota_cfg \<Rightarrow> ota_sys \<Rightarrow> (ota_result \<times> ota_sys) option" where
  "esp_ota_mark_app_valid_cancel_rollback cfg sys = esp_ota_current_ota_is_workable cfg True sys"

definition esp_ota_mark_app_invalid_rollback_and_reboot ::
  "ota_cfg \<Rightarrow> ota_sys \<Rightarrow> (ota_result \<times> ota_sys) option" where
  "esp_ota_mark_app_invalid_rollback_and_reboot cfg sys = esp_ota_current_ota_is_workable cfg False sys"

definition check_invalid_otadata :: "ota_cfg \<Rightarrow> esp_ota_select_entry_t \<Rightarrow> bool" where
  "check_invalid_otadata cfg s \<longleftrightarrow> ota_seq s \<noteq> UINT32_MAX \<and>
     crc s = bootloader_common_ota_select_crc cfg s \<and>
     (ota_state s = ESP_OTA_IMG_INVALID \<or> ota_state s = ESP_OTA_IMG_ABORTED)"

definition get_last_invalid_otadata :: "ota_cfg \<Rightarrow> esp_ota_select_entry_t list \<Rightarrow> nat option" where
  "get_last_invalid_otadata cfg two =
     bootloader_common_select_otadata two (map (check_invalid_otadata cfg) two) False"

definition esp_ota_get_last_invalid_partition :: "ota_cfg \<Rightarrow> ota_sys \<Rightarrow> partition_list_item_t option option" where
  "esp_ota_get_last_invalid_partition cfg sys =
     (case read_otadata cfg sys of
        None \<Rightarrow> Some None
      | Some (p, otadata) \<Rightarrow> do {
          n \<leftarrow> esp_ota_get_app_partition_count sys;
          Some (case get_last_invalid_otadata cfg otadata of
                  None \<Rightarrow> None
                | Some i \<Rightarrow>
                    if n = 0 then None
                    else (case find_app (ESP_PARTITION_SUBTYPE_APP_OTA_MIN +
                                   ota_slot (ota_seq (otadata ! i)) n) sys of
                            None \<Rightarrow> None
                          | Some it \<Rightarrow> if image_validate cfg (info it) sys \<noteq> ESP_OK then None else Some it)) })"

definition esp_ota_get_state_partition ::
  "ota_cfg \<Rightarrow> esp_partition_t option \<Rightarrow> bool \<Rightarrow> ota_sys \<Rightarrow> (esp_err_t \<times> (32 word) option) option" where
  "esp_ota_get_state_partition cfg partn out_ok sys =
     (case partn of
        None \<Rightarrow> Some (ESP_ERR_INVALID_ARG, None)
      | Some p \<Rightarrow>
          if \<not> out_ok then Some (ESP_ERR_INVALID_ARG, None)
          else if \<not> is_ota_partition p then Some (ESP_ERR_NOT_SUPPORTED, None)
          else do {
            n \<leftarrow> esp_ota_get_app_partition_count sys;
            Some (case read_otadata cfg sys of
                    None \<Rightarrow> (ESP_ERR_NOT_FOUND, None)
                  | Some (q, otadata) \<Rightarrow>
                      if n = 0 then (ESP_ERR_NOT_FOUND, None)
                      else (case find (\<lambda>e. ota_slot (ota_seq e) n = psubtype p - ESP_PARTITION_SUBTYPE_APP_OTA_MIN \<and>
                                     crc e = bootloader_common_ota_select_crc cfg e) otadata of
                              None \<Rightarrow> (ESP_ERR_NOT_FOUND, None)
                            | Some e \<Rightarrow> (ESP_OK, Some (ota_state e)))) })"

definition esp_ota_erase_last_boot_app_partition :: "ota_cfg \<Rightarrow> ota_sys \<Rightarrow> (esp_err_t \<times> ota_sys) option" where
  "esp_ota_erase_last_boot_app_partition cfg sys =
     (case read_otadata cfg sys of
        None \<Rightarrow> Some (ESP_FAIL, sys)
      | Some (p, otadata) \<Rightarrow> do {
          n \<leftarrow> esp_ota_get_app_partition_count sys;
          (case bootloader_common_get_active_otadata cfg otadata of
             None \<Rightarrow> Some (ESP_FAIL, sys)
           | Some active \<Rightarrow>
               if n = 0 then Some (ESP_FAIL, sys)
               else
                 let inactive = 1 - active; e = otadata ! inactive in
                 if ota_seq e = UINT32_MAX \<or> crc e \<noteq> bootloader_common_ota_select_crc cfg e
                 then Some (ESP_FAIL, sys)
                 else (case find_app (ESP_PARTITION_SUBTYPE_APP_OTA_MIN + ota_slot (ota_seq e) n) sys of
                         None \<Rightarrow> Some (ESP_FAIL, sys)
                       | Some lst \<Rightarrow> do {
                           (running, sys1) \<leftarrow> esp_ota_get_running_partition cfg sys;
                           (if item_addr lst = item_addr running then Some (ESP_FAIL, sys1)
                            else
                              let (err, sys2) = lift_flash (esp_partition_erase_range (info lst) 0 (psize (info lst)) (fl sys1)) sys1
                              in Some (if err \<noteq> ESP_OK then (err, sys2)
                                 else lift_flash (esp_partition_erase_range p (inactive * SPI_FLASH_SEC_SIZE)
                                        SPI_FLASH_SEC_SIZE (fl sys2)) sys2)) })) })"

end
