(* ===== verification/Boot.thy ===== *)
theory Boot
  imports Ota
begin

section \<open>The boot loader\<close>

text \<open>
  Model of the boot selection in \<open>bootloader_support/src/bootloader_utility.c\<close> and of the label
  search and factory reset helpers of \<open>bootloader_common.c\<close>. The boot loader reads the partition
  table into a \<open>bootloader_state_t\<close>, selects an index from the OTA data (marking new images as
  pending and pending ones as aborted when rollback is configured), and then tries partitions
  until one holds an image that loads. Starting an application and resetting the chip do not
  return: they are the values of \<open>boot_result\<close>. The loading of an image is an argument.
\<close>

definition FACTORY_INDEX :: int where "FACTORY_INDEX = -1"
definition TEST_APP_INDEX :: int where "TEST_APP_INDEX = -2"
definition INVALID_INDEX :: int where "INVALID_INDEX = -99"
definition MAX_OTA_SLOTS :: nat where "MAX_OTA_SLOTS = 16"

lemmas boot_consts = FACTORY_INDEX_def TEST_APP_INDEX_def INVALID_INDEX_def MAX_OTA_SLOTS_def

record esp_partition_pos_t =
  pos_offset :: nat
  pos_size :: nat

record bootloader_state_t =
  ota_info :: esp_partition_pos_t
  factory :: esp_partition_pos_t
  test :: esp_partition_pos_t
  ota :: "esp_partition_pos_t list"
  app_count :: nat
  selected_subtype :: nat

definition no_pos :: esp_partition_pos_t where
  "no_pos = \<lparr>pos_offset = 0, pos_size = 0\<rparr>"

definition bs_zero :: bootloader_state_t where
  "bs_zero = \<lparr>ota_info = no_pos, factory = no_pos, test = no_pos,
     ota = replicate MAX_OTA_SLOTS no_pos, app_count = 0, selected_subtype = 0\<rparr>"

subsection \<open>The partition table\<close>

definition load_entry :: "esp_partition_info_t \<Rightarrow> bootloader_state_t \<Rightarrow> bootloader_state_t" where
  "load_entry e bs =
     (let pos = \<lparr>pos_offset = eoffset e, pos_size = esize e\<rparr> in
      if etype e = ESP_PARTITION_TYPE_APP then
        (if esubtype e = ESP_PARTITION_SUBTYPE_APP_FACTORY then bs\<lparr>factory := pos\<rparr>
         else if esubtype e = ESP_PARTITION_SUBTYPE_APP_TEST then bs\<lparr>test := pos\<rparr>
         else if esubtype e div 16 = 1
         then bs\<lparr>ota := (ota bs)[esubtype e mod 16 := pos], app_count := app_count bs + 1\<rparr>
         else bs)
      else if etype e = ESP_PARTITION_TYPE_DATA \<and> esubtype e = ESP_PARTITION_SUBTYPE_DATA_OTA
      then bs\<lparr>ota_info := pos\<rparr>
      else bs)"

definition bootloader_utility_load_partition_table ::
  "(byte list \<Rightarrow> byte list) \<Rightarrow> nat \<Rightarrow> byte list list option \<Rightarrow> bootloader_state_t \<Rightarrow>
   bool \<times> bootloader_state_t" where
  "bootloader_utility_load_partition_table md5 chip_size mapped bs =
     (case mapped of
        None \<Rightarrow> (False, bs)
      | Some tab \<Rightarrow>
          let (err, num_partitions) = esp_partition_table_verify md5 chip_size tab in
          if err \<noteq> ESP_OK then (False, bs)
          else (True, fold (\<lambda>b. load_entry (entry_of_bytes b)) (take num_partitions tab) bs))"

definition index_to_partition :: "bootloader_state_t \<Rightarrow> int \<Rightarrow> esp_partition_pos_t" where
  "index_to_partition bs index =
     (if index = FACTORY_INDEX then factory bs
      else if index = TEST_APP_INDEX then test bs
      else if index \<ge> 0 \<and> index < int MAX_OTA_SLOTS \<and> index < int (app_count bs)
      then ota bs ! nat index
      else no_pos)"

subsection \<open>The OTA data\<close>

definition bootloader_common_read_otadata ::
  "ota_cfg \<Rightarrow> esp_partition_pos_t \<Rightarrow> flash_dev \<Rightarrow> esp_err_t + esp_ota_select_entry_t list" where
  "bootloader_common_read_otadata cfg oi f =
     (if pos_offset oi = 0 then Inl ESP_ERR_NOT_FOUND
      else if pos_size oi < 2 * SPI_FLASH_SEC_SIZE then Inl ESP_FAIL
      else if \<not> mmap_ok cfg then Inl ESP_FAIL
      else Inr (read_two (flash_encryption cfg) (pos_offset oi) f))"

definition bootloader_flash_write ::
  "nat \<Rightarrow> byte list \<Rightarrow> bool \<Rightarrow> flash_dev \<Rightarrow> esp_err_t \<times> flash_dev" where
  "bootloader_flash_write dest_addr src enc f =
     (let alignment = (if enc then 32 else 4) in
      if dest_addr mod alignment \<noteq> 0 then (ESP_FAIL, f)
      else if length src mod alignment \<noteq> 0 then (ESP_FAIL, f)
      else if enc then flash_write dest_addr (hw_encrypt f dest_addr src) f
      else flash_write dest_addr src f)"

definition write_otadata ::
  "esp_ota_select_entry_t \<Rightarrow> nat \<Rightarrow> bool \<Rightarrow> flash_dev \<Rightarrow> esp_err_t \<times> flash_dev" where
  "write_otadata e offset enc f =
     (let (err, f1) = flash_erase (offset div SPI_FLASH_SEC_SIZE * SPI_FLASH_SEC_SIZE) SPI_FLASH_SEC_SIZE f
      in if err = ESP_OK then bootloader_flash_write offset (bytes_of_select e) enc f1 else (err, f1))"

subsection \<open>Selection of the boot index\<close>

text \<open>One round of the loop that aborts images which were not confirmed before the reset.\<close>

definition abort_pending ::
  "ota_cfg \<Rightarrow> nat \<Rightarrow> nat \<Rightarrow> esp_ota_select_entry_t list \<times> flash_dev \<Rightarrow> esp_ota_select_entry_t list \<times> flash_dev" where
  "abort_pending cfg base i st =
     (case st of (otadata, f) \<Rightarrow>
        if ota_state (otadata ! i) = ESP_OTA_IMG_PENDING_VERIFY
        then let e = (otadata ! i)\<lparr>ota_state := ESP_OTA_IMG_ABORTED\<rparr>
             in (otadata[i := e], snd (write_otadata e (base + SPI_FLASH_SEC_SIZE * i) (flash_encryption cfg) f))
        else (otadata, f))"

text \<open>Initial contents or a wrong checksum: the entry does not name a sequence number.\<close>

definition entry_initial :: "ota_cfg \<Rightarrow> esp_ota_select_entry_t \<Rightarrow> bool" where
  "entry_initial cfg e \<longleftrightarrow> ota_seq e = UINT32_MAX \<or> crc e \<noteq> bootloader_common_ota_select_crc cfg e"

text \<open>The index, the static flag \<open>ota_has_initial_contents\<close> and the flash.\<close>

definition select_index ::
  "ota_cfg \<Rightarrow> bootloader_state_t \<Rightarrow> esp_ota_select_entry_t list \<Rightarrow> flash_dev \<Rightarrow> int \<times> bool \<times> flash_dev" where
  "select_index cfg bs otadata f =
     (if bootloader_common_ota_select_invalid (otadata ! 0) \<and>
         bootloader_common_ota_select_invalid (otadata ! 1) \<or> app_count bs = 0
      then (if pos_offset (factory bs) \<noteq> 0 then (FACTORY_INDEX, False, f)
            else (0, entry_initial cfg (otadata ! 0) \<and> entry_initial cfg (otadata ! 1), f))
      else (case bootloader_common_get_active_otadata cfg otadata of
              None \<Rightarrow> (FACTORY_INDEX, False, f)
            | Some a \<Rightarrow>
                (int (ota_slot (ota_seq (otadata ! a)) (app_count bs)), False,
                 (if rollback_enable cfg \<and> ota_state (otadata ! a) = ESP_OTA_IMG_NEW
                  then snd (write_otadata ((otadata ! a)\<lparr>ota_state := ESP_OTA_IMG_PENDING_VERIFY\<rparr>)
                              (pos_offset (ota_info bs) + SPI_FLASH_SEC_SIZE * a) (flash_encryption cfg) f)
                  else f))))"

definition bootloader_utility_get_selected_boot_partition ::
  "ota_cfg \<Rightarrow> bootloader_state_t \<Rightarrow> bool \<Rightarrow> flash_dev \<Rightarrow> int \<times> bool \<times> flash_dev" where
  "bootloader_utility_get_selected_boot_partition cfg bs initial f =
     (if pos_offset (ota_info bs) = 0 then (FACTORY_INDEX, initial, f)
      else (case bootloader_common_read_otadata cfg (ota_info bs) f of
              Inl e \<Rightarrow> (INVALID_INDEX, initial, f)
            | Inr otadata0 \<Rightarrow>
                let (otadata, f1) =
                  (if rollback_enable cfg
                   then abort_pending cfg (pos_offset (ota_info bs)) 1
                          (abort_pending cfg (pos_offset (ota_info bs)) 0 (otadata0, f))
                   else (otadata0, f))
                in select_index cfg bs otadata f1))"

subsection \<open>Loading an image\<close>

datatype boot_result = BootApp int flash_dev | BootReset flash_dev

definition try_load_partition ::
  "(esp_partition_pos_t \<Rightarrow> flash_dev \<Rightarrow> bool) \<Rightarrow> esp_partition_pos_t \<Rightarrow> flash_dev \<Rightarrow> bool" where
  "try_load_partition load pos f \<longleftrightarrow> (if pos_size pos = 0 then False else load pos f)"

definition set_actual_ota_seq ::
  "ota_cfg \<Rightarrow> bootloader_state_t \<Rightarrow> int \<Rightarrow> bool \<Rightarrow> flash_dev \<Rightarrow> flash_dev" where
  "set_actual_ota_seq cfg bs index initial f =
     (if index > FACTORY_INDEX \<and> initial
      then let e0 = \<lparr>ota_seq = of_int (index + 1), seq_label = replicate 20 0xFF,
                     ota_state = ESP_OTA_IMG_VALID, crc = 0xFFFFFFFF\<rparr>
           in snd (write_otadata (e0\<lparr>crc := bootloader_common_ota_select_crc cfg e0\<rparr>)
                     (pos_offset (ota_info bs)) (flash_encryption cfg) f)
      else f)"

text \<open>The two loops try the indices from the start down to the factory one, then upwards.\<close>

definition down_indices :: "int \<Rightarrow> int list" where
  "down_indices start = rev [FACTORY_INDEX..start]"

definition up_indices :: "int \<Rightarrow> bootloader_state_t \<Rightarrow> int list" where
  "up_indices start bs = [start + 1..int (app_count bs) - 1]"

definition bootloader_utility_load_boot_image ::
  "ota_cfg \<Rightarrow> (esp_partition_pos_t \<Rightarrow> flash_dev \<Rightarrow> bool) \<Rightarrow> bootloader_state_t \<Rightarrow> int \<Rightarrow> bool \<Rightarrow> flash_dev \<Rightarrow>
   boot_result" where
  "bootloader_utility_load_boot_image cfg load bs start_index initial f =
     (if start_index = TEST_APP_INDEX
      then (if try_load_partition load (test bs) f then BootApp TEST_APP_INDEX f else BootReset f)
      else (case find (\<lambda>i. try_load_partition load (index_to_partition bs i) f)
                   (down_indices start_index @ up_indices start_index bs) of
              Some i \<Rightarrow> BootApp i (set_actual_ota_seq cfg bs i initial f)
            | None \<Rightarrow> if try_load_partition load (test bs) f then BootApp TEST_APP_INDEX f else BootReset f))"

subsection \<open>Factory reset\<close>

text \<open>
  \<open>strstr\<close>, as the number of characters before the first occurrence, and the search for a whole
  label in a list whose delimiters are commas and spaces. The argument \<open>before\<close> is the character
  in front of the text still to be searched.
\<close>

fun strstr :: "string \<Rightarrow> string \<Rightarrow> nat option" where
  "strstr [] label = (if label = [] then Some 0 else None)"
| "strstr (c # cs) label =
     (if take (length label) (c # cs) = label then Some 0 else map_option Suc (strstr cs label))"

definition is_delim :: "char \<Rightarrow> bool" where
  "is_delim c \<longleftrightarrow> c = CHR '','' \<or> c = CHR '' ''"

definition strcspn :: "string \<Rightarrow> nat" where
  "strcspn s = length (takeWhile (\<lambda>c. \<not> is_delim c) s)"

fun label_loop :: "nat \<Rightarrow> char option \<Rightarrow> string \<Rightarrow> string \<Rightarrow> bool option" where
  "label_loop 0 before s label = None"
| "label_loop (Suc fuel) before s label =
     (case strstr s label of
        None \<Rightarrow> Some False
      | Some k \<Rightarrow>
          let t = drop k s;
              prev = (if k = 0 then before else Some (s ! (k - 1)));
              after = drop (length label) t
          in if (case prev of None \<Rightarrow> True | Some c \<Rightarrow> is_delim c) \<and>
                (after = [] \<or> is_delim (hd after))
             then Some True
             else if strcspn t = length t then Some False
             else label_loop fuel
                    (if strcspn t = 0 then prev else Some (t ! (strcspn t - 1)))
                    (drop (strcspn t) t) label)"

definition bootloader_common_label_search :: "string option \<Rightarrow> string option \<Rightarrow> bool option" where
  "bootloader_common_label_search lst label =
     (case (lst, label) of
        (Some s, Some l) \<Rightarrow> label_loop (length s + 1) None s l
      | _ \<Rightarrow> Some False)"

definition FLASH_SECTORS_PER_BLOCK :: nat where "FLASH_SECTORS_PER_BLOCK = 16"

function erase_sectors :: "nat \<Rightarrow> nat \<Rightarrow> flash_dev \<Rightarrow> esp_err_t \<times> flash_dev" where
  "erase_sectors sector lst f =
     (if sector \<ge> lst then (ESP_OK, f)
      else
        let n = (if sector mod FLASH_SECTORS_PER_BLOCK = 0 \<and> lst - sector \<ge> FLASH_SECTORS_PER_BLOCK
                 then FLASH_SECTORS_PER_BLOCK else 1);
            (err, f1) = flash_erase (sector * SPI_FLASH_SEC_SIZE) (n * SPI_FLASH_SEC_SIZE) f
        in if err \<noteq> ESP_OK then (err, f1) else erase_sectors (sector + n) lst f1)"
  by pat_completeness auto
termination
  by (relation "measure (\<lambda>(sector, lst, f). lst - sector)") (auto simp: FLASH_SECTORS_PER_BLOCK_def)

declare erase_sectors.simps [simp del]

definition bootloader_flash_erase_range :: "nat \<Rightarrow> nat \<Rightarrow> flash_dev \<Rightarrow> esp_err_t \<times> flash_dev" where
  "bootloader_flash_erase_range start_addr sz f =
     (if start_addr mod SPI_FLASH_SEC_SIZE \<noteq> 0 then (ESP_ERR_INVALID_ARG, f)
      else if sz mod SPI_FLASH_SEC_SIZE \<noteq> 0 then (ESP_ERR_INVALID_SIZE, f)
      else erase_sectors (start_addr div SPI_FLASH_SEC_SIZE)
             (start_addr div SPI_FLASH_SEC_SIZE + sz div SPI_FLASH_SEC_SIZE) f)"

text \<open>\<open>None\<close> is a run that does not end.\<close>

fun erase_entries ::
  "string \<Rightarrow> bool \<Rightarrow> esp_partition_info_t list \<Rightarrow> bool \<Rightarrow> flash_dev \<Rightarrow> (bool \<times> flash_dev) option" where
  "erase_entries list_erase ota_data_erase [] ret f = Some (ret, f)"
| "erase_entries list_erase ota_data_erase (e # es) ret f =
     (if etype e \<noteq> ESP_PARTITION_TYPE_DATA then erase_entries list_erase ota_data_erase es ret f
      else do {
        hit \<leftarrow> (if ota_data_erase \<and> esubtype e = ESP_PARTITION_SUBTYPE_DATA_OTA then Some True
               else bootloader_common_label_search (Some list_erase) (Some (elabel e)));
        (if hit
         then let (err, f1) = bootloader_flash_erase_range (eoffset e) (esize e) f
              in erase_entries list_erase ota_data_erase es (ret \<and> err = ESP_OK) f1
         else erase_entries list_erase ota_data_erase es ret f) })"

definition bootloader_common_erase_part_type_data ::
  "(byte list \<Rightarrow> byte list) \<Rightarrow> nat \<Rightarrow> byte list list option \<Rightarrow> string \<Rightarrow> bool \<Rightarrow> flash_dev \<Rightarrow>
   (bool \<times> flash_dev) option" where
  "bootloader_common_erase_part_type_data md5 chip_size mapped list_erase ota_data_erase f =
     (case mapped of
        None \<Rightarrow> Some (False, f)
      | Some tab \<Rightarrow>
          let (err, num_partitions) = esp_partition_table_verify md5 chip_size tab in
          if err \<noteq> ESP_OK then Some (False, f)
          else erase_entries list_erase ota_data_erase (map entry_of_bytes (take num_partitions tab)) True f)"

subsection \<open>The start of the boot loader\<close>

text \<open>
  The pins and options: the reset reason, a long hold of the factory reset and of the test pin
  (false when the option is off), and what a factory reset erases.
\<close>

record boot_env =
  deep_sleep :: bool
  factory_hold :: bool
  test_hold :: bool
  list_erase :: string
  ota_data_erase :: bool
  table_md5 :: "byte list \<Rightarrow> byte list"
  chip_size :: nat
  mapped_table :: "byte list list option"
  load_image_ok :: "esp_partition_pos_t \<Rightarrow> flash_dev \<Rightarrow> bool"

definition selected_boot_partition ::
  "ota_cfg \<Rightarrow> boot_env \<Rightarrow> bootloader_state_t \<Rightarrow> flash_dev \<Rightarrow> (int \<times> bool \<times> flash_dev) option" where
  "selected_boot_partition cfg env bs f =
     (case bootloader_utility_get_selected_boot_partition cfg bs False f of
        (i, initial, f1) \<Rightarrow>
          if i = INVALID_INDEX \<or> deep_sleep env then Some (i, initial, f1)
          else if factory_hold env then do {
            (done_all, f2) \<leftarrow> bootloader_common_erase_part_type_data (table_md5 env) (chip_size env)
                (mapped_table env) (list_erase env) (ota_data_erase env) f1;
            Some (bootloader_utility_get_selected_boot_partition cfg bs initial f2) }
          else if test_hold env
          then Some (if pos_offset (test bs) \<noteq> 0 then TEST_APP_INDEX else INVALID_INDEX, initial, f1)
          else Some (i, initial, f1))"

definition select_partition_number ::
  "ota_cfg \<Rightarrow> boot_env \<Rightarrow> flash_dev \<Rightarrow> (int \<times> bool \<times> bootloader_state_t \<times> flash_dev) option" where
  "select_partition_number cfg env f =
     (let (ok, bs) = bootloader_utility_load_partition_table (table_md5 env) (chip_size env) (mapped_table env) bs_zero
      in if \<not> ok then Some (INVALID_INDEX, False, bs, f)
         else map_option (\<lambda>(i, initial, f1). (i, initial, bs, f1)) (selected_boot_partition cfg env bs f))"

definition call_start_cpu0 :: "ota_cfg \<Rightarrow> boot_env \<Rightarrow> flash_dev \<Rightarrow> boot_result option" where
  "call_start_cpu0 cfg env f =
     map_option (\<lambda>(i, initial, bs, f1).
       if i = INVALID_INDEX then BootReset f1
       else bootloader_utility_load_boot_image cfg (load_image_ok env) bs i initial f1)
       (select_partition_number cfg env f)"

end
