(* ===== verification/Ota_Store.thy ===== *)
theory Ota_Store
  imports Ota Boot Partition_Spec
begin

section \<open>The OTA data as a store of two entries\<close>

text \<open>
  The application (\<open>rewrite_ota_seq\<close>) and the boot loader (\<open>write_otadata\<close>) both keep the two
  entries of the OTA data. The locale \<open>otadata_store\<close> states what both rely on: a successful write
  replaces one entry, and whatever happens the other entry stays. Its lemmas say which entry is
  active after a write. It is interpreted on the flash operations of each side.
\<close>

subsection \<open>The flash under a sector write\<close>

lemma flash_op_cases:
  assumes "flash_op a n new f = (err, f')"
  obtains "n = 0" "err = ESP_OK" "f' = f"
  | "n \<noteq> 0" "err = ESP_FAIL"
    "f' = f\<lparr>cells := \<lambda>i. if in_range a n i then garbage f i else cells f i\<rparr>"
  | "n \<noteq> 0" "err = ESP_OK"
    "f' = f\<lparr>cells := \<lambda>i. if in_range a n i then new i else cells f i, ops_left := ops_left f - 1\<rparr>"
  using assms by (auto simp: flash_op_def split: if_splits)

lemma flash_op_frame:
  assumes "flash_op a n new f = (err, f')"
  shows "same_hw f' f" and "\<not> in_range a n i \<Longrightarrow> cells f' i = cells f i"
  using assms by (auto elim!: flash_op_cases simp: same_hw_def)

lemma flash_op_ok:
  assumes "flash_op a n new f = (ESP_OK, f')" and "in_range a n i"
  shows "cells f' i = new i"
  using assms by (auto elim!: flash_op_cases simp: in_range_def)

lemma flash_read_cong:
  "(\<And>i. a \<le> i \<Longrightarrow> i < a + n \<Longrightarrow> cells f i = cells g i) \<Longrightarrow> flash_read a n f = flash_read a n g"
  by (auto simp: flash_read_def)

lemma mapped_read_cong:
  "same_hw f g \<Longrightarrow> (\<And>i. a \<le> i \<Longrightarrow> i < a + n \<Longrightarrow> cells f i = cells g i) \<Longrightarrow>
   mapped_read enc a n f = mapped_read enc a n g"
  using flash_read_cong [of a n f g] by (auto simp: mapped_read_def same_hw_def)

text \<open>The cipher undoes itself on the 32 bytes of an entry.\<close>

definition cipher_ok :: "bool \<Rightarrow> flash_dev \<Rightarrow> bool" where
  "cipher_ok enc f \<longleftrightarrow> (enc \<longrightarrow> (\<forall>a xs. length xs = 32 \<longrightarrow>
     length (hw_encrypt f a xs) = 32 \<and> length (hw_decrypt f a xs) = 32 \<and> hw_decrypt f a (hw_encrypt f a xs) = xs))"

lemma cipher_ok_same_hw: "same_hw f g \<Longrightarrow> cipher_ok enc f = cipher_ok enc g"
  by (simp add: cipher_ok_def same_hw_def)

text \<open>Erase a sector, then program the bytes at its start.\<close>

definition sector_write :: "bool \<Rightarrow> nat \<Rightarrow> byte list \<Rightarrow> flash_dev \<Rightarrow> esp_err_t \<times> flash_dev" where
  "sector_write enc a bs f =
     (let (err, f1) = flash_erase a SPI_FLASH_SEC_SIZE f
      in if err \<noteq> ESP_OK then (err, f1)
         else flash_write a (if enc then hw_encrypt f1 a bs else bs) f1)"

lemma sector_write_frame:
  assumes w: "sector_write enc a bs f = (err, f')" and c: "cipher_ok enc f" and l: "length bs = 32"
  shows "same_hw f' f" and "\<not> in_range a SPI_FLASH_SEC_SIZE i \<Longrightarrow> cells f' i = cells f i"
proof -
  obtain e1 f1 where e: "flash_erase a SPI_FLASH_SEC_SIZE f = (e1, f1)" by fastforce
  note fr = flash_op_frame [OF e [unfolded flash_erase_def]]
  have len: "length (if enc then hw_encrypt f1 a bs else bs) = 32"
    using c l fr(1) by (simp add: cipher_ok_def same_hw_def)
  have "same_hw f' f \<and> (\<not> in_range a SPI_FLASH_SEC_SIZE i \<longrightarrow> cells f' i = cells f i)"
  proof (cases "e1 = ESP_OK")
    case True
    then have w2: "flash_write a (if enc then hw_encrypt f1 a bs else bs) f1 = (err, f')"
      using w e by (simp add: sector_write_def)
    note fr2 = flash_op_frame [OF w2 [unfolded flash_write_def len]]
    show ?thesis
      using fr fr2 by (auto simp: same_hw_def in_range_def SPI_FLASH_SEC_SIZE_def)
  next
    case False
    then show ?thesis using w e fr by (auto simp: sector_write_def)
  qed
  then show "same_hw f' f" and "\<not> in_range a SPI_FLASH_SEC_SIZE i \<Longrightarrow> cells f' i = cells f i" by auto
qed

lemma and_ff: "(0xFF :: byte) AND x = x"
proof -
  have "(0xFF :: byte) = NOT 0" by simp
  then show ?thesis by (metis and.left_neutral bit.compl_zero)
qed

lemma sector_write_read:
  assumes w: "sector_write enc a bs f = (ESP_OK, f')" and c: "cipher_ok enc f" and l: "length bs = 32"
  shows "mapped_read enc a 32 f' = bs"
proof -
  obtain e1 f1 where e: "flash_erase a SPI_FLASH_SEC_SIZE f = (e1, f1)" by fastforce
  with w have e1: "e1 = ESP_OK" by (auto simp: sector_write_def split: if_splits)
  define raw where "raw = (if enc then hw_encrypt f1 a bs else bs)"
  have w2: "flash_write a raw f1 = (ESP_OK, f')" using w e e1 by (simp add: sector_write_def raw_def)
  have hw: "same_hw f1 f" using flash_op_frame(1) [OF e [unfolded flash_erase_def]] .
  then have len: "length raw = 32" using c l by (simp add: raw_def cipher_ok_def same_hw_def)
  have "cells f' i = raw ! (i - a)" if "a \<le> i" "i < a + 32" for i
  proof -
    have "cells f1 i = 0xFF"
      using flash_op_ok [OF e [unfolded flash_erase_def e1]] that by (simp add: in_range_def SPI_FLASH_SEC_SIZE_def)
    then show ?thesis
      using flash_op_ok [OF w2 [unfolded flash_write_def len], of i] that by (simp add: in_range_def and_ff)
  qed
  then have "flash_read a 32 f' = raw"
    using len by (auto simp: flash_read_def intro!: nth_equalityI)
  moreover have "same_hw f' f1" using flash_op_frame(1) [OF w2 [unfolded flash_write_def]] .
  ultimately show ?thesis
    using c l hw by (simp add: mapped_read_def raw_def cipher_ok_def same_hw_def)
qed

subsection \<open>Entries and bytes\<close>

definition wf_entry :: "esp_ota_select_entry_t \<Rightarrow> bool" where
  "wf_entry e \<longleftrightarrow> length (seq_label e) = 20"

lemma wf_entry_state [simp]: "wf_entry (e\<lparr>ota_state := s\<rparr>) = wf_entry e"
  by (simp add: wf_entry_def)

lemma length_bytes_of_select [simp]: "wf_entry e \<Longrightarrow> length (bytes_of_select e) = 32"
  by (simp add: wf_entry_def bytes_of_select_def)

lemma le_word: "of_nat (le_val (le_bytes 4 (unat w))) = (w :: 32 word)"
proof -
  have "unat w < 256 ^ 4" using unsigned_less [of w] by simp
  then show ?thesis by (simp add: le_val_le_bytes)
qed

lemma select_bytes_roundtrip: "wf_entry e \<Longrightarrow> select_of_bytes (bytes_of_select e) = e"
  by (cases e) (simp add: select_of_bytes_def bytes_of_select_def wf_entry_def le_word drop_Cons')

lemma wf_select_of_bytes: "length bs = 32 \<Longrightarrow> wf_entry (select_of_bytes bs)"
  by (simp add: wf_entry_def select_of_bytes_def)

subsection \<open>Which entry is active\<close>

abbreviation "entry_valid \<equiv> bootloader_common_ota_select_valid"

lemma active_two:
  "bootloader_common_get_active_otadata cfg [e0, e1] =
     (if entry_valid cfg e0 \<and> entry_valid cfg e1
      then Some (if ota_seq e1 \<le> ota_seq e0 then 0 else 1)
      else if entry_valid cfg e0 then Some 0 else if entry_valid cfg e1 then Some 1 else None)"
  using linear [of "ota_seq e0" "ota_seq e1"]
  by (auto simp: bootloader_common_get_active_otadata_def bootloader_common_select_otadata_def max_def Let_def)

text \<open>The slot that the entries select among \<open>n\<close> slots.\<close>

definition selected_slot :: "ota_cfg \<Rightarrow> nat \<Rightarrow> esp_ota_select_entry_t list \<Rightarrow> nat option" where
  "selected_slot cfg n two =
     map_option (\<lambda>a. ota_slot (ota_seq (two ! a)) n) (bootloader_common_get_active_otadata cfg two)"

lemma length2: "length two = 2 \<longleftrightarrow> (\<exists>a b. two = [a, b])"
  by (auto simp: length_Suc_conv numeral_2_eq_2)

lemma active_less: "length two = 2 \<Longrightarrow> bootloader_common_get_active_otadata cfg two = Some a \<Longrightarrow> a < 2"
  by (auto simp: length2 active_two split: if_splits)

lemma active_valid:
  "length two = 2 \<Longrightarrow> bootloader_common_get_active_otadata cfg two = Some a \<Longrightarrow> entry_valid cfg (two ! a)"
  by (auto simp: length2 active_two split: if_splits)

lemma active_none:
  "length two = 2 \<Longrightarrow> bootloader_common_get_active_otadata cfg two = None \<longleftrightarrow>
     \<not> entry_valid cfg (two ! 0) \<and> \<not> entry_valid cfg (two ! 1)"
  by (auto simp: length2 active_two split: if_splits)

text \<open>
  With rollback the boot loader first aborts the images that were pending when it starts. A valid
  entry with a sequence number that is not smaller wins the selection of the slot.
\<close>

definition abort_entry :: "esp_ota_select_entry_t \<Rightarrow> esp_ota_select_entry_t" where
  "abort_entry e =
     (if ota_state e = ESP_OTA_IMG_PENDING_VERIFY then e\<lparr>ota_state := ESP_OTA_IMG_ABORTED\<rparr> else e)"

definition seen_entries :: "ota_cfg \<Rightarrow> esp_ota_select_entry_t list \<Rightarrow> esp_ota_select_entry_t list" where
  "seen_entries cfg two = (if rollback_enable cfg then map abort_entry two else two)"

lemma aborted_invalid: "ota_state e = ESP_OTA_IMG_ABORTED \<Longrightarrow> \<not> entry_valid cfg e"
  by (simp add: bootloader_common_ota_select_valid_def bootloader_common_ota_select_invalid_def)

lemma valid_not_invalid: "entry_valid cfg e \<Longrightarrow> \<not> bootloader_common_ota_select_invalid e"
  by (simp add: bootloader_common_ota_select_valid_def)

lemma abort_entry_valid:
  "entry_valid cfg (abort_entry e) \<longleftrightarrow> entry_valid cfg e \<and> ota_state e \<noteq> ESP_OTA_IMG_PENDING_VERIFY"
  by (auto simp: abort_entry_def aborted_invalid)

lemma abort_entry_seq [simp]: "ota_seq (abort_entry e) = ota_seq e"
  by (simp add: abort_entry_def)

lemma abort_entry_id: "ota_state e \<noteq> ESP_OTA_IMG_PENDING_VERIFY \<Longrightarrow> abort_entry e = e"
  by (simp add: abort_entry_def)

lemma slot_after_put_seen:
  assumes "length two = 2" and "bootloader_common_get_active_otadata cfg two = Some a"
    and "entry_valid cfg e" and "ota_seq (two ! a) \<le> ota_seq e" and "ota_state e \<noteq> ESP_OTA_IMG_PENDING_VERIFY"
  shows "selected_slot cfg n (seen_entries cfg (two[1 - a := e])) = Some (ota_slot (ota_seq e) n)"
proof -
  obtain e0 e1 where two: "two = [e0, e1]" using assms(1) by (auto simp: length2)
  show ?thesis using assms(2-5) unfolding two
    by (auto simp: active_two selected_slot_def seen_entries_def abort_entry_valid abort_entry_id split: if_splits)
qed

lemma slot_after_first_put_seen:
  assumes "length two = 2" and "bootloader_common_get_active_otadata cfg two = None"
    and "entry_valid cfg e" and "ota_state e \<noteq> ESP_OTA_IMG_PENDING_VERIFY"
  shows "selected_slot cfg n (seen_entries cfg (two[0 := e])) = Some (ota_slot (ota_seq e) n)"
proof -
  obtain e0 e1 where two: "two = [e0, e1]" using assms(1) by (auto simp: length2)
  show ?thesis using assms(2-4) unfolding two
    by (auto simp: active_two selected_slot_def seen_entries_def abort_entry_valid abort_entry_id split: if_splits)
qed

text \<open>An entry that is not valid does not change the selection.\<close>

lemma active_kept:
  assumes "length two = 2" and "length two' = 2"
    and "bootloader_common_get_active_otadata cfg two = Some a"
    and "two' ! a = two ! a" and "\<not> entry_valid cfg (two' ! (1 - a))"
  shows "bootloader_common_get_active_otadata cfg two' = Some a"
proof -
  obtain e0 e1 where two: "two = [e0, e1]" using assms(1) by (auto simp: length2)
  obtain d0 d1 where two': "two' = [d0, d1]" using assms(2) by (auto simp: length2)
  show ?thesis using assms(3-5) unfolding two two'
    by (auto simp: active_two split: if_splits)
qed

text \<open>Without the active entry the other one is selected, if it is valid.\<close>

lemma active_after_drop:
  assumes "length two = 2" and "bootloader_common_get_active_otadata cfg two = Some a"
    and "\<not> entry_valid cfg e"
  shows "bootloader_common_get_active_otadata cfg (two[a := e]) =
    (if entry_valid cfg (two ! (1 - a)) then Some (1 - a) else None)"
proof -
  obtain e0 e1 where two: "two = [e0, e1]" using assms(1) by (auto simp: length2)
  show ?thesis using assms(2-3) unfolding two
    by (auto simp: active_two split: if_splits)
qed

lemma active_same_seq:
  assumes "length two = 2" and "bootloader_common_get_active_otadata cfg two = Some a"
    and "entry_valid cfg e" and "ota_seq e = ota_seq (two ! a)"
  shows "bootloader_common_get_active_otadata cfg (two[a := e]) = Some a"
proof -
  obtain e0 e1 where two: "two = [e0, e1]" using assms(1) by (auto simp: length2)
  show ?thesis using assms(2-4) unfolding two
    by (auto simp: active_two split: if_splits)
qed

subsection \<open>The interface\<close>

locale otadata_store =
  fixes inv :: "'p \<Rightarrow> 's \<Rightarrow> bool"
    and rd :: "'p \<Rightarrow> 's \<Rightarrow> esp_ota_select_entry_t list"
    and wr :: "'p \<Rightarrow> nat \<Rightarrow> esp_ota_select_entry_t \<Rightarrow> 's \<Rightarrow> esp_err_t \<times> 's"
  assumes rd_two: "inv p s \<Longrightarrow> length (rd p s) = 2 \<and> (\<forall>e \<in> set (rd p s). wf_entry e)"
    and wr_inv: "inv p s \<Longrightarrow> i < 2 \<Longrightarrow> wf_entry e \<Longrightarrow> wr p i e s = (err, s') \<Longrightarrow> inv p s'"
    and wr_ok: "inv p s \<Longrightarrow> i < 2 \<Longrightarrow> wf_entry e \<Longrightarrow> wr p i e s = (ESP_OK, s') \<Longrightarrow> rd p s' = (rd p s)[i := e]"
    and wr_other: "inv p s \<Longrightarrow> i < 2 \<Longrightarrow> wf_entry e \<Longrightarrow> wr p i e s = (err, s') \<Longrightarrow>
      rd p s' ! (1 - i) = rd p s ! (1 - i)"
begin

lemma switch_slot:
  assumes "inv p s" and "bootloader_common_get_active_otadata cfg (rd p s) = Some a"
    and "entry_valid cfg e" and "wf_entry e" and "ota_seq (rd p s ! a) \<le> ota_seq e"
    and "ota_state e \<noteq> ESP_OTA_IMG_PENDING_VERIFY" and "wr p (1 - a) e s = (ESP_OK, s')"
  shows "selected_slot cfg n (seen_entries cfg (rd p s')) = Some (ota_slot (ota_seq e) n)"
  using slot_after_put_seen [of "rd p s" cfg a e n] wr_ok [of p s "1 - a" e s'] rd_two [of p s] assms
  by auto

lemma first_slot:
  assumes "inv p s" and "bootloader_common_get_active_otadata cfg (rd p s) = None"
    and "entry_valid cfg e" and "wf_entry e"
    and "ota_state e \<noteq> ESP_OTA_IMG_PENDING_VERIFY" and "wr p 0 e s = (ESP_OK, s')"
  shows "selected_slot cfg n (seen_entries cfg (rd p s')) = Some (ota_slot (ota_seq e) n)"
  using slot_after_first_put_seen [of "rd p s" cfg e n] wr_ok [of p s 0 e s'] rd_two [of p s] assms
  by auto

lemma interrupted_write_keeps:
  assumes i: "inv p s" and a: "bootloader_common_get_active_otadata cfg (rd p s) = Some a"
    and "wf_entry e" and w: "wr p (1 - a) e s = (err, s')"
    and "\<not> entry_valid cfg (rd p s' ! (1 - a))"
  shows "bootloader_common_get_active_otadata cfg (rd p s') = Some a" and "rd p s' ! a = rd p s ! a"
proof -
  have a2: "a < 2" using active_less [OF conjunct1 [OF rd_two [OF i]] a] .
  have i': "inv p s'" using wr_inv [OF i _ assms(3) w] by simp
  show same: "rd p s' ! a = rd p s ! a"
    using wr_other [OF i _ assms(3) w] a2 by (cases "a = 0") (auto simp: less_2_cases_iff)
  show "bootloader_common_get_active_otadata cfg (rd p s') = Some a"
    using active_kept [OF conjunct1 [OF rd_two [OF i]] conjunct1 [OF rd_two [OF i']] a same] assms(5) by simp
qed

lemma drop_active:
  assumes i: "inv p s" and a: "bootloader_common_get_active_otadata cfg (rd p s) = Some a"
    and "wf_entry e" and w: "wr p a e s = (ESP_OK, s')" and "\<not> entry_valid cfg e"
  shows "bootloader_common_get_active_otadata cfg (rd p s') =
    (if entry_valid cfg (rd p s ! (1 - a)) then Some (1 - a) else None)"
  using active_after_drop [OF conjunct1 [OF rd_two [OF i]] a assms(5)]
    wr_ok [OF i active_less [OF conjunct1 [OF rd_two [OF i]] a] assms(3) w] by simp

lemma confirm_active:
  assumes i: "inv p s" and a: "bootloader_common_get_active_otadata cfg (rd p s) = Some a"
    and "wf_entry e" and w: "wr p a e s = (ESP_OK, s')" and "entry_valid cfg e"
    and "ota_seq e = ota_seq (rd p s ! a)"
  shows "bootloader_common_get_active_otadata cfg (rd p s') = Some a" and "rd p s' ! a = e"
  using active_same_seq [OF conjunct1 [OF rd_two [OF i]] a assms(5,6)]
    wr_ok [OF i active_less [OF conjunct1 [OF rd_two [OF i]] a] assms(3) w]
    active_less [OF conjunct1 [OF rd_two [OF i]] a] rd_two [OF i] by auto

end

subsection \<open>The two providers\<close>

text \<open>The application writes through the partition, the boot loader at flash addresses.\<close>

definition app_inv :: "ota_cfg \<times> esp_partition_t \<Rightarrow> flash_dev \<Rightarrow> bool" where
  "app_inv cp f \<longleftrightarrow> (case cp of (cfg, p) \<Rightarrow>
     cipher_ok (flash_encryption cfg) f \<and> flash_chip p = 0 \<and> \<not> readonly p \<and>
     encrypted p = flash_encryption cfg \<and> paddress p mod SPI_FLASH_SEC_SIZE = 0 \<and>
     2 * SPI_FLASH_SEC_SIZE \<le> psize p \<and> unwrapped p)"

definition app_rd :: "ota_cfg \<times> esp_partition_t \<Rightarrow> flash_dev \<Rightarrow> esp_ota_select_entry_t list" where
  "app_rd cp f = (case cp of (cfg, p) \<Rightarrow> read_two (flash_encryption cfg) (paddress p) f)"

definition app_wr :: "ota_cfg \<times> esp_partition_t \<Rightarrow> nat \<Rightarrow> esp_ota_select_entry_t \<Rightarrow> flash_dev \<Rightarrow> esp_err_t \<times> flash_dev" where
  "app_wr cp i e f = (case cp of (cfg, p) \<Rightarrow>
     let (ret, f1) = esp_partition_erase_range p (i * SPI_FLASH_SEC_SIZE) SPI_FLASH_SEC_SIZE f
     in if ret \<noteq> ESP_OK then (ret, f1)
        else esp_partition_write p (SPI_FLASH_SEC_SIZE * i) (bytes_of_select e) f1)"

definition boot_inv :: "ota_cfg \<times> nat \<Rightarrow> flash_dev \<Rightarrow> bool" where
  "boot_inv cb f \<longleftrightarrow> (case cb of (cfg, base) \<Rightarrow>
     cipher_ok (flash_encryption cfg) f \<and> base mod SPI_FLASH_SEC_SIZE = 0)"

definition boot_rd :: "ota_cfg \<times> nat \<Rightarrow> flash_dev \<Rightarrow> esp_ota_select_entry_t list" where
  "boot_rd cb f = (case cb of (cfg, base) \<Rightarrow> read_two (flash_encryption cfg) base f)"

definition boot_wr :: "ota_cfg \<times> nat \<Rightarrow> nat \<Rightarrow> esp_ota_select_entry_t \<Rightarrow> flash_dev \<Rightarrow> esp_err_t \<times> flash_dev" where
  "boot_wr cb i e f = (case cb of (cfg, base) \<Rightarrow>
     write_otadata e (base + SPI_FLASH_SEC_SIZE * i) (flash_encryption cfg) f)"

lemma app_wr_sector:
  assumes "app_inv (cfg, p) f" and "i < 2" and "wf_entry e"
  shows "app_wr (cfg, p) i e f =
    sector_write (flash_encryption cfg) (paddress p + SPI_FLASH_SEC_SIZE * i) (bytes_of_select e) f"
proof -
  have al: "(paddress p + 4096 * i) mod 16 = 0"
    using assms(1) by (auto simp: app_inv_def SPI_FLASH_SEC_SIZE_def mod_eq_0_iff_dvd intro: dvd_trans [of 16 4096])
  have ne: "bytes_of_select e \<noteq> []" using length_bytes_of_select [OF assms(3)] by fastforce
  have rc: "range_check p (4096 * i) n = ESP_OK" if "n \<le> 4096" for n
    using assms(1,2) that by (auto simp: app_inv_def SPI_FLASH_SEC_SIZE_def range_check_def sz_add_def less_2_cases_iff)
  have ad: "sz_add (paddress p) (4096 * i) = paddress p + 4096 * i"
    using assms(1,2) by (intro part_addr) (auto simp: app_inv_def SPI_FLASH_SEC_SIZE_def)
  show ?thesis
    using assms al ne rc ad
    by (simp add: app_wr_def sector_write_def esp_partition_erase_range_def esp_partition_write_def
        esp_flash_write_encrypted_def app_inv_def SPI_FLASH_SEC_SIZE_def mult.commute split: prod.splits)
qed

lemma write_otadata_sector:
  assumes d: "SPI_FLASH_SEC_SIZE dvd a" and "wf_entry e"
  shows "write_otadata e a enc f = sector_write enc a (bytes_of_select e) f"
proof -
  have "a mod 32 = 0" "a mod 4 = 0"
    using d by (auto simp: SPI_FLASH_SEC_SIZE_def mod_eq_0_iff_dvd intro: dvd_trans [of _ 4096])
  then show ?thesis
    using length_bytes_of_select [OF assms(2)]
    by (simp add: write_otadata_def sector_write_def bootloader_flash_write_def dvd_div_mult_self [OF d]
        split: prod.splits)
qed

lemma boot_wr_sector:
  assumes "boot_inv (cfg, base) f" and "wf_entry e"
  shows "boot_wr (cfg, base) i e f =
    sector_write (flash_encryption cfg) (base + SPI_FLASH_SEC_SIZE * i) (bytes_of_select e) f"
  using assms write_otadata_sector [of "base + SPI_FLASH_SEC_SIZE * i" e]
  by (simp add: boot_wr_def boot_inv_def mod_eq_0_iff_dvd)

lemma read_two_sector_write:
  assumes w: "sector_write enc (base + SPI_FLASH_SEC_SIZE * i) (bytes_of_select e) f = (err, f')"
    and c: "cipher_ok enc f" and wf: "wf_entry e" and i: "i < 2"
  shows "cipher_ok enc f'"
    and "read_two enc base f' ! (1 - i) = read_two enc base f ! (1 - i)"
    and "err = ESP_OK \<Longrightarrow> read_two enc base f' = (read_two enc base f)[i := e]"
proof -
  note fr = sector_write_frame [OF w c length_bytes_of_select [OF wf]]
  have other: "mapped_read enc (base + SPI_FLASH_SEC_SIZE * j) 32 f' = mapped_read enc (base + SPI_FLASH_SEC_SIZE * j) 32 f"
    if "j < 2" "j \<noteq> i" for j
    by (rule mapped_read_cong [OF fr(1) fr(2)])
      (use that i in \<open>auto simp: in_range_def SPI_FLASH_SEC_SIZE_def less_2_cases_iff\<close>)
  show "cipher_ok enc f'" using c cipher_ok_same_hw [OF fr(1)] by simp
  show "read_two enc base f' ! (1 - i) = read_two enc base f ! (1 - i)"
    using other [of "1 - i"] i by (auto simp: read_two_def less_2_cases_iff)
  assume ok: "err = ESP_OK"
  have "mapped_read enc (base + SPI_FLASH_SEC_SIZE * i) 32 f' = bytes_of_select e"
    using sector_write_read [OF w [unfolded ok] c length_bytes_of_select [OF wf]] .
  then show "read_two enc base f' = (read_two enc base f)[i := e]"
    using other [of "1 - i"] i select_bytes_roundtrip [OF wf]
    by (auto simp: read_two_def less_2_cases_iff)
qed

lemma read_two_wf:
  "cipher_ok enc f \<Longrightarrow> length (read_two enc base f) = 2 \<and> (\<forall>e \<in> set (read_two enc base f). wf_entry e)"
  by (auto simp: read_two_def cipher_ok_def mapped_read_def flash_read_def intro!: wf_select_of_bytes)

interpretation app_store: otadata_store app_inv app_rd app_wr
proof (unfold_locales, goal_cases)
  case (1 cp f)
  then show ?case by (cases cp) (auto simp: app_inv_def app_rd_def read_two_wf)
next
  case (2 cp f i e err f')
  then show ?case
    by (cases cp) (auto simp: app_wr_sector, auto simp: app_inv_def dest: read_two_sector_write(1))
next
  case (3 cp f i e f')
  then show ?case
    by (cases cp) (auto simp: app_wr_sector app_rd_def, auto simp: app_inv_def dest: read_two_sector_write(3))
next
  case (4 cp f i e err f')
  then show ?case
    by (cases cp) (auto simp: app_wr_sector app_rd_def, auto simp: app_inv_def dest: read_two_sector_write(2))
qed

interpretation boot_store: otadata_store boot_inv boot_rd boot_wr
proof (unfold_locales, goal_cases)
  case (1 cp f)
  then show ?case by (cases cp) (auto simp: boot_inv_def boot_rd_def read_two_wf)
next
  case (2 cp f i e err f')
  then show ?case
    by (cases cp) (auto simp: boot_wr_sector, auto simp: boot_inv_def dest: read_two_sector_write(1))
next
  case (3 cp f i e f')
  then show ?case
    by (cases cp) (auto simp: boot_wr_sector boot_rd_def, auto simp: boot_inv_def dest: read_two_sector_write(3))
next
  case (4 cp f i e err f')
  then show ?case
    by (cases cp) (auto simp: boot_wr_sector boot_rd_def, auto simp: boot_inv_def dest: read_two_sector_write(2))
qed

end
