(* ===== verification/Ota_Select.thy ===== *)
theory Ota_Select
  imports Ota_Store
begin

section \<open>Sequence numbers and the selection by the boot loader\<close>

text \<open>
  The search for the next sequence number ends and yields a number of the wanted slot, and the
  boot loader's selection as a function of the two entries it reads.
\<close>

subsection \<open>The search for a sequence number\<close>

lemma unat_seq:
  assumes "b + k * n < 2 ^ 32"
  shows "unat (of_nat b + of_nat k * of_nat n :: 32 word) = b + k * n"
proof -
  have "(of_nat b + of_nat k * of_nat n :: 32 word) = of_nat (b + k * n)" by simp
  then show ?thesis using assms by (simp only: unat_of_nat) simp
qed

lemma seq_loop_from:
  assumes "unat seq + n < 2 ^ 32" and "0 < n" and "b < n" and "b + k * n < unat seq + n"
  shows "\<exists>i. seq_loop seq (of_nat b) (of_nat n) (of_nat k) = Some (of_nat i) \<and>
    unat seq \<le> b + i * n \<and> b + i * n < unat seq + n"
  using assms(4)
proof (induction "unat seq - (b + k * n)" arbitrary: k rule: less_induct)
  case less
  have u: "unat (of_nat b + of_nat k * of_nat n :: 32 word) = b + k * n"
    by (rule unat_seq) (use less.prems assms(1) in linarith)
  show ?case
  proof (cases "seq > of_nat b + of_nat k * of_nat n")
    case True
    then have lt: "b + k * n < unat seq" by (simp add: word_less_nat_alt u)
    have "\<exists>i. seq_loop seq (of_nat b) (of_nat n) (of_nat (Suc k)) = Some (of_nat i) \<and>
        unat seq \<le> b + i * n \<and> b + i * n < unat seq + n"
      by (rule less.hyps) (use lt assms(2) in auto)
    moreover have "seq_loop seq (of_nat b) (of_nat n) (of_nat k) =
        seq_loop seq (of_nat b) (of_nat n) (of_nat (Suc k))"
      using True by (subst seq_loop.simps) (simp add: add.commute)
    ultimately show ?thesis by simp
  next
    case False
    then have "unat seq \<le> b + k * n" by (simp add: word_less_nat_alt u)
    moreover have "seq_loop seq (of_nat b) (of_nat n) (of_nat k) = Some (of_nat k)"
      using False by (subst seq_loop.simps) simp
    ultimately show ?thesis using less.prems by blast
  qed
qed

text \<open>The number found: of the slot \<open>x\<close>, and not smaller than the active one.\<close>

lemma seq_loop_slot:
  assumes "unat seq + n < 2 ^ 32" and "x < n" and "0 < unat seq"
  obtains i where "seq_loop seq (of_nat ((x + 1) mod n)) (of_nat n) 0 = Some i"
    and "seq \<le> of_nat ((x + 1) mod n) + i * of_nat n"
    and "ota_slot (of_nat ((x + 1) mod n) + i * of_nat n) n = x"
    and "of_nat ((x + 1) mod n) + i * of_nat n \<noteq> UINT32_MAX"
proof -
  define b where "b = (x + 1) mod n"
  have b: "b < n" using assms(2) by (simp add: b_def)
  obtain i where i: "seq_loop seq (of_nat b) (of_nat n) (of_nat 0) = Some (of_nat i)"
      "unat seq \<le> b + i * n" "b + i * n < unat seq + n"
    using seq_loop_from [OF assms(1) _ b, of 0] assms(2,3) b by auto
  let ?w = "of_nat b + of_nat i * of_nat n :: 32 word"
  have u: "unat ?w = b + i * n" by (rule unat_seq) (use i assms(1) in linarith)
  have pos: "1 \<le> ?w" using u i(2) assms(3) by (simp add: word_le_nat_alt)
  have "ota_slot ?w n = (b + i * n - 1) mod n"
    by (simp add: ota_slot_def unat_sub [OF pos] u)
  also have "\<dots> = x"
  proof (cases "x + 1 = n")
    case True
    then have b0: "b = 0" by (simp add: b_def)
    then obtain j where j: "i = Suc j" using i(2) assms(3) by (cases i) auto
    have "b + i * n - 1 = x + j * n" using b0 j True by simp
    then show ?thesis using assms(2) by simp
  next
    case False
    then have "b = x + 1" using assms(2) by (simp add: b_def)
    then show ?thesis using assms(2) by simp
  qed
  finally have slot: "ota_slot ?w n = x" .
  have "unat ?w < 2 ^ 32 - 1" using u i(3) assms(1) by simp
  then have ne: "?w \<noteq> UINT32_MAX" by (auto simp: UINT32_MAX_def)
  show ?thesis
    by (rule that [of "of_nat i"]) (use i(1,2) u slot ne in \<open>simp_all add: b_def word_le_nat_alt\<close>)
qed

subsection \<open>What the boot loader selects\<close>

definition boot_index_of :: "ota_cfg \<Rightarrow> bootloader_state_t \<Rightarrow> esp_ota_select_entry_t list \<Rightarrow> int" where
  "boot_index_of cfg bs two = fst (select_index cfg bs two (undefined :: flash_dev))"

lemma fst_select_index: "fst (select_index cfg bs two f) = boot_index_of cfg bs two"
  by (simp add: boot_index_of_def select_index_def split: option.splits)

lemma fst_abort_pending:
  "fst (abort_pending cfg b i (two, f)) = two[i := abort_entry (two ! i)]"
  by (auto simp: abort_pending_def abort_entry_def Let_def)

lemma boot_index_selected:
  "length two = 2 \<Longrightarrow> 0 < app_count bs \<Longrightarrow> selected_slot cfg (app_count bs) two = Some x \<Longrightarrow>
   boot_index_of cfg bs two = int x"
  by (auto simp: boot_index_of_def select_index_def selected_slot_def length2 active_two valid_not_invalid
      split: if_splits)

lemma boot_index_default:
  "length two = 2 \<Longrightarrow> pos_offset (factory bs) \<noteq> 0 \<Longrightarrow>
   bootloader_common_get_active_otadata cfg two = None \<Longrightarrow> boot_index_of cfg bs two = FACTORY_INDEX"
  by (auto simp: boot_index_of_def select_index_def)

text \<open>The OTA data partition as the boot loader knows it.\<close>

definition bs_ok :: "ota_cfg \<Rightarrow> bootloader_state_t \<Rightarrow> bool" where
  "bs_ok cfg bs \<longleftrightarrow> pos_offset (ota_info bs) \<noteq> 0 \<and> 2 * SPI_FLASH_SEC_SIZE \<le> pos_size (ota_info bs) \<and>
     mmap_ok cfg \<and> 0 < app_count bs"

lemma selected_index:
  assumes "bs_ok cfg bs"
  shows "fst (bootloader_utility_get_selected_boot_partition cfg bs initial f) =
    boot_index_of cfg bs (seen_entries cfg (boot_rd (cfg, pos_offset (ota_info bs)) f))"
proof -
  let ?b = "pos_offset (ota_info bs)"
  let ?two = "read_two (flash_encryption cfg) ?b f"
  have l: "length ?two = 2" by (simp add: read_two_def)
  obtain t1 g1 where 1: "abort_pending cfg ?b 0 (?two, f) = (t1, g1)" by fastforce
  obtain t2 g2 where 2: "abort_pending cfg ?b 1 (t1, g1) = (t2, g2)" by fastforce
  have t1: "t1 = ?two[0 := abort_entry (?two ! 0)]" using fst_abort_pending [of cfg ?b 0 ?two f] 1 l by simp
  have "t2 = t1[1 := abort_entry (t1 ! 1)]" using fst_abort_pending [of cfg ?b 1 t1 g1] 2 l t1 by simp
  then have "t2 = map abort_entry ?two" using t1 by (simp add: read_two_def)
  then show ?thesis
    using assms 1 2
    by (simp add: bootloader_utility_get_selected_boot_partition_def bootloader_common_read_otadata_def bs_ok_def
        boot_rd_def seen_entries_def fst_select_index)
qed


end
