(* ===== verification/Ota_Spec.thy ===== *)
theory Ota_Spec
  imports Ota_Select
begin

section \<open>Properties of the choice of the boot partition\<close>

text \<open>
  The application and the boot loader agree on the OTA data through the store of
  \<open>Ota_Store\<close>. The layout both rely on: an OTA data partition of two sectors or more on the main
  chip, at the same place in the application's partition list and in the boot loader's state, and
  the same number of slots.
\<close>

definition ota_layout :: "ota_cfg \<Rightarrow> ota_sys \<Rightarrow> esp_partition_t \<Rightarrow> bootloader_state_t \<Rightarrow> bool" where
  "ota_layout cfg sys p bs \<longleftrightarrow>
     map_option info (otadata_partition sys) = Some p \<and> mmap_ok cfg \<and> app_inv (cfg, p) (fl sys) \<and>
     esp_ota_get_app_partition_count sys = Some (app_count bs) \<and> 0 < app_count bs \<and>
     paddress p \<noteq> 0 \<and> pos_offset (ota_info bs) = paddress p \<and> pos_size (ota_info bs) = psize p"

definition otadata_of :: "ota_cfg \<Rightarrow> esp_partition_t \<Rightarrow> ota_sys \<Rightarrow> esp_ota_select_entry_t list" where
  "otadata_of cfg p sys = app_rd (cfg, p) (fl sys)"

lemma layout_bs: "ota_layout cfg sys p bs \<Longrightarrow> bs_ok cfg bs"
  by (simp add: ota_layout_def bs_ok_def app_inv_def)

lemma layout_inv: "ota_layout cfg sys p bs \<Longrightarrow> app_inv (cfg, p) (fl sys)"
  by (simp add: ota_layout_def)

lemma layout_read: "ota_layout cfg sys p bs \<Longrightarrow> read_otadata cfg sys = Some (p, otadata_of cfg p sys)"
  by (auto simp: ota_layout_def read_otadata_def otadata_of_def app_rd_def app_inv_def)

lemma layout_two:
  "ota_layout cfg sys p bs \<Longrightarrow> length (otadata_of cfg p sys) = 2 \<and> (\<forall>e \<in> set (otadata_of cfg p sys). wf_entry e)"
  using app_store.rd_two [of "(cfg, p)" "fl sys"] by (simp add: ota_layout_def otadata_of_def)

lemma layout_boot:
  "ota_layout cfg sys p bs \<Longrightarrow>
   fst (bootloader_utility_get_selected_boot_partition cfg bs initial f) =
   boot_index_of cfg bs (seen_entries cfg (app_rd (cfg, p) f))"
  using selected_index [OF layout_bs] by (simp add: ota_layout_def boot_rd_def app_rd_def)

lemma layout_boot_slot:
  assumes "ota_layout cfg sys p bs"
    and "selected_slot cfg (app_count bs) (seen_entries cfg (app_rd (cfg, p) f)) = Some x"
  shows "fst (bootloader_utility_get_selected_boot_partition cfg bs initial f) = int x"
proof -
  have "length (seen_entries cfg (app_rd (cfg, p) f)) = 2"
    by (simp add: seen_entries_def app_rd_def read_two_def)
  then show ?thesis
    using assms layout_boot [OF assms(1)] boot_index_selected by (simp add: ota_layout_def)
qed

lemma count_le_16: "count_apps sys m = Some n \<Longrightarrow> m \<le> 16 \<Longrightarrow> n \<le> 16"
proof (induction sys m rule: count_apps.induct)
  case (1 sys m)
  then show ?case using count_apps.simps [of sys m] by (auto split: if_splits)
qed

lemma layout_count: "ota_layout cfg sys p bs \<Longrightarrow> app_count bs \<le> 16"
  using count_le_16 [of sys 0 "app_count bs"] by (simp add: ota_layout_def esp_ota_get_app_partition_count_def)

subsection \<open>Writing an entry\<close>

definition seq_entry :: "ota_cfg \<Rightarrow> 32 word \<Rightarrow> esp_ota_select_entry_t \<Rightarrow> esp_ota_select_entry_t" where
  "seq_entry cfg s e = e\<lparr>ota_seq := s, crc := bootloader_common_ota_select_crc cfg (e\<lparr>ota_seq := s\<rparr>)\<rparr>"

lemma seq_entry_simps [simp]:
  "ota_seq (seq_entry cfg s e) = s" "ota_state (seq_entry cfg s e) = ota_state e"
  "wf_entry (seq_entry cfg s e) = wf_entry e"
  "crc (seq_entry cfg s e) = bootloader_common_ota_select_crc cfg (seq_entry cfg s e)"
  by (simp_all add: seq_entry_def wf_entry_def bootloader_common_ota_select_crc_def)

lemma seq_entry_valid:
  "entry_valid cfg (seq_entry cfg s e) \<longleftrightarrow>
     s \<noteq> UINT32_MAX \<and> ota_state e \<noteq> ESP_OTA_IMG_INVALID \<and> ota_state e \<noteq> ESP_OTA_IMG_ABORTED"
  unfolding bootloader_common_ota_select_valid_def bootloader_common_ota_select_invalid_def
  by (simp only: seq_entry_simps) simp

lemma rewrite_ota_seq_wr:
  assumes "i < 2"
  shows "rewrite_ota_seq cfg two s i p sys =
    lift_flash (app_wr (cfg, p) i (seq_entry cfg s (two ! i)) (fl sys)) sys"
proof -
  have e: "(two ! i)\<lparr>ota_seq := s, crc := bootloader_common_ota_select_crc cfg ((two ! i)\<lparr>ota_seq := s\<rparr>)\<rparr>
      = seq_entry cfg s (two ! i)" by (simp add: seq_entry_def)
  show ?thesis
    using assms
    by (auto simp: rewrite_ota_seq_def lift_flash_def app_wr_def Let_def e split: prod.splits)
qed

lemma new_state_ok:
  "set_new_state_otadata cfg \<noteq> ESP_OTA_IMG_INVALID" "set_new_state_otadata cfg \<noteq> ESP_OTA_IMG_ABORTED"
  "set_new_state_otadata cfg \<noteq> ESP_OTA_IMG_PENDING_VERIFY"
  by (simp_all add: set_new_state_otadata_def ota_states)

text \<open>The entry that a request for slot \<open>x\<close> writes, and where.\<close>

definition asks_for :: "ota_cfg \<Rightarrow> nat \<Rightarrow> nat \<Rightarrow> esp_ota_select_entry_t \<Rightarrow> bool" where
  "asks_for cfg n x e \<longleftrightarrow> entry_valid cfg e \<and> wf_entry e \<and> ota_slot (ota_seq e) n = x \<and>
     ota_state e = set_new_state_otadata cfg"

lemma asks_for_wf: "asks_for cfg n x e \<Longrightarrow> wf_entry e"
  by (simp add: asks_for_def)

lemma wf_two: "length two = 2 \<Longrightarrow> \<forall>e \<in> set two. wf_entry e \<Longrightarrow> i < 2 \<Longrightarrow> wf_entry (two ! i)"
  by simp

lemma rewrite_active:
  assumes lay: "ota_layout cfg sys p bs" and x: "SUB_TYPE_ID st < app_count bs"
    and a: "bootloader_common_get_active_otadata cfg (otadata_of cfg p sys) = Some a"
    and s: "0 < unat (ota_seq (otadata_of cfg p sys ! a))"
      "unat (ota_seq (otadata_of cfg p sys ! a)) + app_count bs < 2 ^ 32"
  obtains e where "asks_for cfg (app_count bs) (SUB_TYPE_ID st) e"
    and "ota_seq (otadata_of cfg p sys ! a) \<le> ota_seq e"
    and "esp_rewrite_ota_data cfg st sys = Some (lift_flash (app_wr (cfg, p) (1 - a) e (fl sys)) sys)"
proof -
  let ?two = "otadata_of cfg p sys" and ?n = "app_count bs" and ?x = "SUB_TYPE_ID st"
  have a2: "a < 2" using active_less [OF _ a] layout_two [OF lay] by simp
  obtain i where i: "seq_loop (ota_seq (?two ! a)) (of_nat ((?x + 1) mod ?n)) (of_nat ?n) 0 = Some i"
      "ota_seq (?two ! a) \<le> of_nat ((?x + 1) mod ?n) + i * of_nat ?n"
      "ota_slot (of_nat ((?x + 1) mod ?n) + i * of_nat ?n) ?n = ?x"
      "of_nat ((?x + 1) mod ?n) + i * of_nat ?n \<noteq> UINT32_MAX"
    using seq_loop_slot [OF s(2) x s(1)] by blast
  define e where "e = seq_entry cfg (of_nat ((?x + 1) mod ?n) + i * of_nat ?n)
      ((?two ! (1 - a))\<lparr>ota_state := set_new_state_otadata cfg\<rparr>)"
  have wf: "wf_entry ((?two ! (1 - a))\<lparr>ota_state := set_new_state_otadata cfg\<rparr>)"
    using layout_two [OF lay] by (simp add: wf_entry_def)
  have "asks_for cfg ?n ?x e"
    unfolding asks_for_def e_def using i(3,4) wf new_state_ok by (simp add: seq_entry_valid)
  moreover have "ota_seq (?two ! a) \<le> ota_seq e" using i(2) by (simp add: e_def)
  moreover have "esp_rewrite_ota_data cfg st sys = Some (lift_flash (app_wr (cfg, p) (1 - a) e (fl sys)) sys)"
    using lay x a i(1) layout_two [OF lay]
    by (simp add: esp_rewrite_ota_data_def layout_read [OF lay] ota_layout_def rewrite_ota_seq_wr e_def Let_def)
  ultimately show ?thesis by (rule that)
qed

lemma rewrite_first:
  assumes lay: "ota_layout cfg sys p bs" and x: "SUB_TYPE_ID st < app_count bs"
    and a: "bootloader_common_get_active_otadata cfg (otadata_of cfg p sys) = None"
  obtains e where "asks_for cfg (app_count bs) (SUB_TYPE_ID st) e"
    and "esp_rewrite_ota_data cfg st sys = Some (lift_flash (app_wr (cfg, p) 0 e (fl sys)) sys)"
proof -
  let ?two = "otadata_of cfg p sys" and ?n = "app_count bs" and ?x = "SUB_TYPE_ID st"
  define w :: "32 word" where "w = of_nat (?x + 1)"
  have x16: "?x < 16" by (simp add: SUB_TYPE_ID_def)
  have u: "unat w = ?x + 1" using x16 unfolding w_def by (simp only: unat_of_nat) simp
  then have w1: "1 \<le> w" and wM: "w \<noteq> UINT32_MAX"
    using x16 by (auto simp: word_le_nat_alt UINT32_MAX_def)
  define e where "e = seq_entry cfg w ((?two ! 0)\<lparr>ota_state := set_new_state_otadata cfg\<rparr>)"
  have wf: "wf_entry ((?two ! 0)\<lparr>ota_state := set_new_state_otadata cfg\<rparr>)"
    using layout_two [OF lay] by (simp add: wf_entry_def)
  have "ota_slot w ?n = ?x" using x by (simp add: ota_slot_def unat_sub [OF w1] u)
  then have "asks_for cfg ?n ?x e"
    unfolding asks_for_def e_def using wM wf new_state_ok by (simp add: seq_entry_valid)
  moreover have "esp_rewrite_ota_data cfg st sys = Some (lift_flash (app_wr (cfg, p) 0 e (fl sys)) sys)"
    using lay x a layout_two [OF lay]
    by (simp add: esp_rewrite_ota_data_def layout_read [OF lay] ota_layout_def rewrite_ota_seq_wr e_def w_def)
  ultimately show ?thesis by (rule that)
qed

subsection \<open>Requests for a slot\<close>

definition seq_room :: "ota_cfg \<Rightarrow> nat \<Rightarrow> esp_ota_select_entry_t list \<Rightarrow> bool" where
  "seq_room cfg n two \<longleftrightarrow> (case bootloader_common_get_active_otadata cfg two of None \<Rightarrow> True
     | Some a \<Rightarrow> 0 < unat (ota_seq (two ! a)) \<and> unat (ota_seq (two ! a)) + n < 2 ^ 32)"

lemma set_boot_slot:
  assumes lay: "ota_layout cfg sys p bs" and q: "ptype q = ESP_PARTITION_TYPE_APP"
    "psubtype q = ESP_PARTITION_SUBTYPE_APP_OTA_MIN + x" and x: "x < app_count bs"
    and v: "image_verify cfg (paddress q) (psize q) (fl sys)"
  shows "esp_ota_set_boot_partition cfg (Some q) sys = esp_rewrite_ota_data cfg (psubtype q) sys"
    and "SUB_TYPE_ID (psubtype q) = x"
  using assms layout_count [OF lay]
  by (simp_all add: esp_ota_set_boot_partition_def image_validate_def part_consts SUB_TYPE_ID_def)

lemma app_wr_succeeds:
  assumes inv: "app_inv (cfg, p) f" and "i < 2" and wf: "wf_entry e" and "2 \<le> ops_left f"
  shows "\<exists>f'. app_wr (cfg, p) i e f = (ESP_OK, f')"
proof -
  have "fst (sector_write (flash_encryption cfg) (paddress p + SPI_FLASH_SEC_SIZE * i) (bytes_of_select e) f) = ESP_OK"
    using assms by (simp add: sector_write_def flash_erase_def flash_write_def flash_op_def)
  then show ?thesis using app_wr_sector [OF inv assms(2) wf] by (metis eq_fst_iff)
qed

text \<open>
  Every request for a slot is one write of an entry that asks for this slot, into the entry that
  is not active.
\<close>

lemma set_boot_writes:
  assumes lay: "ota_layout cfg sys p bs" and q: "ptype q = ESP_PARTITION_TYPE_APP"
    "psubtype q = ESP_PARTITION_SUBTYPE_APP_OTA_MIN + x" and x: "x < app_count bs"
    and v: "image_verify cfg (paddress q) (psize q) (fl sys)"
    and room: "seq_room cfg (app_count bs) (otadata_of cfg p sys)"
  obtains e i where "asks_for cfg (app_count bs) x e" and "i < 2"
    and "esp_ota_set_boot_partition cfg (Some q) sys = Some (lift_flash (app_wr (cfg, p) i e (fl sys)) sys)"
    and "\<forall>a. bootloader_common_get_active_otadata cfg (otadata_of cfg p sys) = Some a \<longrightarrow>
      i = 1 - a \<and> ota_seq (otadata_of cfg p sys ! a) \<le> ota_seq e"
    and "bootloader_common_get_active_otadata cfg (otadata_of cfg p sys) = None \<longrightarrow> i = 0"
proof (cases "bootloader_common_get_active_otadata cfg (otadata_of cfg p sys)")
  case None
  obtain e where "asks_for cfg (app_count bs) x e"
      "esp_rewrite_ota_data cfg (psubtype q) sys = Some (lift_flash (app_wr (cfg, p) 0 e (fl sys)) sys)"
    using rewrite_first [OF lay _ None, of "psubtype q"] set_boot_slot [OF lay q x v] x by metis
  with None show ?thesis using set_boot_slot [OF lay q x v] by (intro that [of e 0]) simp_all
next
  case (Some a)
  obtain e where "asks_for cfg (app_count bs) x e" "ota_seq (otadata_of cfg p sys ! a) \<le> ota_seq e"
      "esp_rewrite_ota_data cfg (psubtype q) sys = Some (lift_flash (app_wr (cfg, p) (1 - a) e (fl sys)) sys)"
    using rewrite_active [OF lay _ Some, of "psubtype q"] set_boot_slot [OF lay q x v] x room Some
    by (auto simp: seq_room_def)
  with Some show ?thesis using set_boot_slot [OF lay q x v] by (intro that [of e "1 - a"]) simp_all
qed

lemma written_slot_boots:
  assumes lay: "ota_layout cfg sys p bs" and e: "asks_for cfg (app_count bs) x e"
    and w: "app_wr (cfg, p) i e (fl sys) = (ESP_OK, f')"
    and s: "\<forall>a. bootloader_common_get_active_otadata cfg (otadata_of cfg p sys) = Some a \<longrightarrow>
      i = 1 - a \<and> ota_seq (otadata_of cfg p sys ! a) \<le> ota_seq e"
    and n: "bootloader_common_get_active_otadata cfg (otadata_of cfg p sys) = None \<longrightarrow> i = 0"
  shows "fst (bootloader_utility_get_selected_boot_partition cfg bs initial f') = int x"
proof (rule layout_boot_slot [OF lay])
  have inv: "app_inv (cfg, p) (fl sys)" using lay by (simp add: ota_layout_def)
  have ne: "ota_state e \<noteq> ESP_OTA_IMG_PENDING_VERIFY" using e new_state_ok(3) by (simp add: asks_for_def)
  show "selected_slot cfg (app_count bs) (seen_entries cfg (app_rd (cfg, p) f')) = Some x"
  proof (cases "bootloader_common_get_active_otadata cfg (otadata_of cfg p sys)")
    case None
    show ?thesis
      using app_store.first_slot [OF inv None [unfolded otadata_of_def] _ _ ne, of f' "app_count bs"] e w n None
      by (simp add: asks_for_def)
  next
    case (Some a)
    show ?thesis
      using app_store.switch_slot [OF inv Some [unfolded otadata_of_def] _ _ _ ne, of f' "app_count bs"] e w s Some
      by (simp add: asks_for_def otadata_of_def)
  qed
qed

subsection \<open>A concrete device\<close>

text \<open>A factory image and two slots; the entries and the number of flash operations are arguments.\<close>

definition ex_item :: "nat \<Rightarrow> nat \<Rightarrow> nat \<Rightarrow> nat \<Rightarrow> nat \<Rightarrow> partition_list_item_t" where
  "ex_item addr t st off sz = \<lparr>item_addr = addr,
     info = \<lparr>flash_chip = 0, ptype = t, psubtype = st, paddress = off, psize = sz, erase_size = 4096,
       plabel = ''p'', encrypted = False, readonly = False\<rparr>, user_registered = False\<rparr>"

definition ex_otaitem :: partition_list_item_t where "ex_otaitem = ex_item 1 1 0 0x2000 0x2000"
definition ex_otapart :: esp_partition_t where "ex_otapart = info ex_otaitem"
definition ex_slot1 :: esp_partition_t where "ex_slot1 = info (ex_item 4 0 0x11 0x30000 0x10000)"

definition ex_list :: "partition_list_item_t list" where
  "ex_list = [ex_otaitem, ex_item 2 0 0 0x10000 0x10000,
     ex_item 3 0 0x10 0x20000 0x10000, ex_item 4 0 0x11 0x30000 0x10000]"

definition ex_cfg :: "bool \<Rightarrow> ota_cfg" where
  "ex_cfg rollback = \<lparr>crc32_le = \<lambda>_ _. 0xABCD, image_verify = \<lambda>_ _ _. True, mmap_ok = True,
     flash_encryption = False, rollback_enable = rollback, phys_offs = 0x20000\<rparr>"

definition ex_flash :: "esp_ota_select_entry_t \<Rightarrow> esp_ota_select_entry_t \<Rightarrow> nat \<Rightarrow> flash_dev" where
  "ex_flash e0 e1 ops = \<lparr>cells = \<lambda>i. if in_range 0x2000 32 i then bytes_of_select e0 ! (i - 0x2000)
       else if in_range 0x3000 32 i then bytes_of_select e1 ! (i - 0x3000) else 0xFF,
     ops_left = ops, garbage = \<lambda>_. 0, hw_encrypt = \<lambda>_ xs. xs, hw_decrypt = \<lambda>_ xs. xs\<rparr>"

definition ex_sys :: "esp_ota_select_entry_t \<Rightarrow> esp_ota_select_entry_t \<Rightarrow> nat \<Rightarrow> ota_sys" where
  "ex_sys e0 e1 ops = \<lparr>fl = ex_flash e0 e1 ops, s_partition_list = ex_list, curr_partition = None,
     s_ota_ops_entries = [], s_ota_ops_last_handle = 0\<rparr>"

definition ex_entry :: "32 word \<Rightarrow> 32 word \<Rightarrow> esp_ota_select_entry_t" where
  "ex_entry s st = \<lparr>ota_seq = s, seq_label = replicate 20 0xFF, ota_state = st, crc = 0xABCD\<rparr>"

definition ex_bs :: bootloader_state_t where
  "ex_bs = \<lparr>ota_info = \<lparr>pos_offset = 0x2000, pos_size = 0x2000\<rparr>,
     factory = \<lparr>pos_offset = 0x10000, pos_size = 0x10000\<rparr>, test = no_pos,
     ota = [\<lparr>pos_offset = 0x20000, pos_size = 0x10000\<rparr>, \<lparr>pos_offset = 0x30000, pos_size = 0x10000\<rparr>] @
       replicate 14 no_pos, app_count = 2, selected_subtype = 0\<rparr>"

lemma wf_ex_entry [simp]: "wf_entry (ex_entry s st)"
  by (simp add: wf_entry_def ex_entry_def)

lemma read_ex_flash:
  assumes "wf_entry e0" "wf_entry e1"
  shows "read_two False 0x2000 (ex_flash e0 e1 ops) = [e0, e1]"
proof -
  have r: "flash_read b 32 (ex_flash e0 e1 ops) = bytes_of_select e"
    if "\<And>i. i < 32 \<Longrightarrow> cells (ex_flash e0 e1 ops) (b + i) = bytes_of_select e ! i" "wf_entry e" for b e
    using that by (auto simp: flash_read_def intro!: nth_equalityI)
  have "flash_read 0x2000 32 (ex_flash e0 e1 ops) = bytes_of_select e0"
    by (rule r [OF _ assms(1)]) (simp add: ex_flash_def in_range_def)
  moreover have "flash_read 0x3000 32 (ex_flash e0 e1 ops) = bytes_of_select e1"
    by (rule r [OF _ assms(2)]) (simp add: ex_flash_def in_range_def)
  ultimately show ?thesis
    by (simp add: read_two_def mapped_read_def SPI_FLASH_SEC_SIZE_def select_bytes_roundtrip assms)
qed

lemma find_app_find: "find_app st sys = find (part_matches ESP_PARTITION_TYPE_APP st None) (s_partition_list sys)"
  by (simp add: find_app_def find_first_find part_consts)

lemma ex_count: "esp_ota_get_app_partition_count (ex_sys e0 e1 ops) = Some 2"
proof -
  have f: "find_app (ESP_PARTITION_SUBTYPE_APP_OTA_MIN + 0) (ex_sys e0 e1 ops) \<noteq> None"
    "find_app (ESP_PARTITION_SUBTYPE_APP_OTA_MIN + 1) (ex_sys e0 e1 ops) \<noteq> None"
    "find_app (ESP_PARTITION_SUBTYPE_APP_OTA_MIN + 2) (ex_sys e0 e1 ops) = None"
    by (simp_all add: find_app_find part_consts ex_sys_def ex_list_def ex_otaitem_def ex_item_def part_matches_def)
  have "count_apps (ex_sys e0 e1 ops) 2 = Some 2"
    using f(3) by (subst count_apps.simps) simp
  then have "count_apps (ex_sys e0 e1 ops) 1 = Some 2"
    using f(2) by (subst count_apps.simps) (simp add: numeral_2_eq_2)
  then show ?thesis
    using f(1) unfolding esp_ota_get_app_partition_count_def by (subst count_apps.simps) simp
qed

lemma ex_layout: "ota_layout (ex_cfg rb) (ex_sys e0 e1 ops) ex_otapart ex_bs"
proof -
  have "otadata_partition (ex_sys e0 e1 ops) = Some ex_otaitem"
    by (simp add: otadata_partition_def find_first_find part_consts ex_sys_def ex_list_def part_matches_def ex_otaitem_def)
      (simp add: ex_item_def part_matches_def part_consts)
  then show ?thesis
    by (simp add: ota_layout_def ex_count ex_otapart_def)
      (simp add: ex_cfg_def ex_sys_def ex_bs_def ex_otaitem_def ex_item_def app_inv_def unwrapped_def cipher_ok_def SPI_FLASH_SEC_SIZE_def)
qed

lemma ex_otadata:
  "wf_entry e0 \<Longrightarrow> wf_entry e1 \<Longrightarrow>
   otadata_of (ex_cfg rb) ex_otapart (ex_sys e0 e1 ops) = [e0, e1]"
  by (simp add: otadata_of_def app_rd_def ex_cfg_def ex_sys_def ex_otapart_def ex_otaitem_def ex_item_def read_ex_flash)

lemma ex_valid:
  "entry_valid (ex_cfg rb) (ex_entry s st) \<longleftrightarrow>
     s \<noteq> UINT32_MAX \<and> st \<noteq> ESP_OTA_IMG_INVALID \<and> st \<noteq> ESP_OTA_IMG_ABORTED"
  by (simp add: bootloader_common_ota_select_valid_def bootloader_common_ota_select_invalid_def
      bootloader_common_ota_select_crc_def ex_cfg_def ex_entry_def)

lemmas ex_simps = ex_layout ex_otadata ex_valid active_two UINT32_MAX_def ota_states

end
