(* ===== verification/Ota_Boot_Spec.thy ===== *)
theory Ota_Boot_Spec
  imports Ota_Spec
begin

section \<open>Updates across resets\<close>

text \<open>
  What the application asks for is what the boot loader boots; an interrupted request leaves the
  previous choice in place; a new image that is not confirmed before the next reset is given up,
  a confirmed one stays.
\<close>

subsection \<open>Requests\<close>

lemma set_boot_ok_verified:
  "esp_ota_set_boot_partition cfg (Some q) sys = Some (ESP_OK, sys') \<Longrightarrow>
   image_verify cfg (paddress q) (psize q) (fl sys)"
  by (auto simp: esp_ota_set_boot_partition_def image_validate_def split: if_splits)

lemma map_OtaReturn: "map_prod OtaReturn id r = (OtaReturn err, s) \<longleftrightarrow> r = (err, s)"
  by (cases r) simp

lemma lift_flash_OK: "lift_flash r sys = (err, sys') \<Longrightarrow> r = (err, fl sys')"
  by (cases r) (auto simp: lift_flash_def)

text \<open>
  Claim C9. When \<open>esp_ota_set_boot_partition\<close> succeeds for an OTA slot, the boot loader selects this
  slot at the next reset, whatever the OTA data held before, provided the active sequence number is
  positive and more than the number of slots away from the end of its range.
\<close>

theorem set_boot_partition_boots:
  assumes lay: "ota_layout cfg sys p bs" and q: "ptype q = ESP_PARTITION_TYPE_APP"
    "psubtype q = ESP_PARTITION_SUBTYPE_APP_OTA_MIN + x" and x: "x < app_count bs"
    and room: "seq_room cfg (app_count bs) (otadata_of cfg p sys)"
    and ok: "esp_ota_set_boot_partition cfg (Some q) sys = Some (ESP_OK, sys')"
  shows "fst (bootloader_utility_get_selected_boot_partition cfg bs initial (fl sys')) = int x"
proof -
  obtain e i where e: "asks_for cfg (app_count bs) x e"
      "esp_ota_set_boot_partition cfg (Some q) sys = Some (lift_flash (app_wr (cfg, p) i e (fl sys)) sys)"
      "\<forall>a. bootloader_common_get_active_otadata cfg (otadata_of cfg p sys) = Some a \<longrightarrow>
        i = 1 - a \<and> ota_seq (otadata_of cfg p sys ! a) \<le> ota_seq e"
      "bootloader_common_get_active_otadata cfg (otadata_of cfg p sys) = None \<longrightarrow> i = 0"
    using set_boot_writes [OF lay q x set_boot_ok_verified [OF ok] room] by metis
  have "app_wr (cfg, p) i e (fl sys) = (ESP_OK, fl sys')"
    using e(2) ok by (intro lift_flash_OK) simp
  then show ?thesis using written_slot_boots [OF lay e(1) _ e(3,4)] by simp
qed

lemma set_boot_returns:
  assumes lay: "ota_layout cfg sys p bs" and q: "ptype q = ESP_PARTITION_TYPE_APP"
    "psubtype q = ESP_PARTITION_SUBTYPE_APP_OTA_MIN + x" and x: "x < app_count bs"
    and room: "seq_room cfg (app_count bs) (otadata_of cfg p sys)"
    and v: "image_verify cfg (paddress q) (psize q) (fl sys)" and ops: "2 \<le> ops_left (fl sys)"
  shows "\<exists>sys'. esp_ota_set_boot_partition cfg (Some q) sys = Some (ESP_OK, sys') \<and>
    fst (bootloader_utility_get_selected_boot_partition cfg bs initial (fl sys')) = int x"
proof -
  obtain e i where e: "asks_for cfg (app_count bs) x e" "i < 2"
      "esp_ota_set_boot_partition cfg (Some q) sys = Some (lift_flash (app_wr (cfg, p) i e (fl sys)) sys)"
      "\<forall>a. bootloader_common_get_active_otadata cfg (otadata_of cfg p sys) = Some a \<longrightarrow>
        i = 1 - a \<and> ota_seq (otadata_of cfg p sys ! a) \<le> ota_seq e"
      "bootloader_common_get_active_otadata cfg (otadata_of cfg p sys) = None \<longrightarrow> i = 0"
    using set_boot_writes [OF lay q x v room] by metis
  obtain f' where f': "app_wr (cfg, p) i e (fl sys) = (ESP_OK, f')"
    using app_wr_succeeds [OF layout_inv [OF lay] e(2) asks_for_wf [OF e(1)] ops] by blast
  show ?thesis
    using written_slot_boots [OF lay e(1) f' e(4,5)] e(3) f' by (simp add: lift_flash_def)
qed

lemma ex_slot1: "ptype ex_slot1 = ESP_PARTITION_TYPE_APP"
    "psubtype ex_slot1 = ESP_PARTITION_SUBTYPE_APP_OTA_MIN + 1" "1 < app_count ex_bs"
    "image_verify (ex_cfg rb) (paddress ex_slot1) (psize ex_slot1) (fl (ex_sys e0 e1 ops))"
    "ops_left (fl (ex_sys e0 e1 ops)) = ops" "rollback_enable (ex_cfg rb) = rb"
  by (simp_all add: ex_slot1_def ex_item_def part_consts ex_bs_def ex_cfg_def ex_sys_def ex_flash_def)

lemma ex_slot1_room:
  "seq_room (ex_cfg rb) (app_count ex_bs)
     (otadata_of (ex_cfg rb) ex_otapart (ex_sys (ex_entry 1 ESP_OTA_IMG_VALID) (ex_entry UINT32_MAX ESP_OTA_IMG_UNDEFINED) ops))"
  by (simp add: seq_room_def ex_otadata active_two ex_valid UINT32_MAX_def ota_states)
    (simp add: ex_entry_def ex_bs_def)

theorem set_boot_partition_boots_witness:
  "\<exists>sys'. esp_ota_set_boot_partition (ex_cfg False) (Some ex_slot1)
      (ex_sys (ex_entry 1 ESP_OTA_IMG_VALID) (ex_entry UINT32_MAX ESP_OTA_IMG_UNDEFINED) 2) = Some (ESP_OK, sys') \<and>
    fst (bootloader_utility_get_selected_boot_partition (ex_cfg False) ex_bs False (fl sys')) = int 1"
proof -
  let ?sys = "ex_sys (ex_entry 1 ESP_OTA_IMG_VALID) (ex_entry UINT32_MAX ESP_OTA_IMG_UNDEFINED) 2"
  obtain sys' where r: "esp_ota_set_boot_partition (ex_cfg False) (Some ex_slot1) ?sys = Some (ESP_OK, sys')"
    using set_boot_returns [OF ex_layout ex_slot1(1-3) ex_slot1_room ex_slot1(4), of 2 False False]
    by (auto simp: ex_slot1(5))
  show ?thesis
    using set_boot_partition_boots [OF ex_layout ex_slot1(1-3) ex_slot1_room r] r by blast
qed

text \<open>
  Claim C10. The request returns: with an image that verifies and two working flash operations it
  succeeds, and the boot loader then selects the slot. In particular the search for a sequence
  number ends.
\<close>

theorem set_boot_partition_succeeds:
  assumes "ota_layout cfg sys p bs" and "ptype q = ESP_PARTITION_TYPE_APP"
    and "psubtype q = ESP_PARTITION_SUBTYPE_APP_OTA_MIN + x" and "x < app_count bs"
    and "seq_room cfg (app_count bs) (otadata_of cfg p sys)"
    and "image_verify cfg (paddress q) (psize q) (fl sys)" and "2 \<le> ops_left (fl sys)"
  shows "\<exists>sys'. esp_ota_set_boot_partition cfg (Some q) sys = Some (ESP_OK, sys') \<and>
    fst (bootloader_utility_get_selected_boot_partition cfg bs initial (fl sys')) = int x"
  using set_boot_returns [OF assms] .

theorem set_boot_partition_succeeds_witness:
  "\<exists>sys'. esp_ota_set_boot_partition (ex_cfg True) (Some ex_slot1)
      (ex_sys (ex_entry 1 ESP_OTA_IMG_VALID) (ex_entry UINT32_MAX ESP_OTA_IMG_UNDEFINED) 2) = Some (ESP_OK, sys') \<and>
    fst (bootloader_utility_get_selected_boot_partition (ex_cfg True) ex_bs False (fl sys')) = int 1"
  by (rule set_boot_partition_succeeds [OF ex_layout ex_slot1(1-3) ex_slot1_room ex_slot1(4)])
    (simp add: ex_slot1(5))

subsection \<open>Interrupted requests\<close>

lemma seen_length: "length (seen_entries cfg two) = length two"
  by (simp add: seen_entries_def)

lemma active_seen:
  assumes "length two = 2" and "bootloader_common_get_active_otadata cfg two = Some a"
    and "rollback_enable cfg \<Longrightarrow> ota_state (two ! a) \<noteq> ESP_OTA_IMG_PENDING_VERIFY"
  shows "selected_slot cfg n (seen_entries cfg two) = Some (ota_slot (ota_seq (two ! a)) n)"
proof -
  obtain e0 e1 where two: "two = [e0, e1]" using assms(1) by (auto simp: length2)
  show ?thesis using assms(2,3) unfolding two
    by (auto simp: active_two selected_slot_def seen_entries_def abort_entry_valid abort_entry_id split: if_splits)
qed




subsection \<open>Rollback\<close>







text \<open>
  When the running image confirms itself with \<open>esp_ota_mark_app_valid_cancel_rollback\<close> and the
  call returns \<open>ESP_OK\<close>, the boot loader selects its slot again.
\<close>

theorem confirmed_image_stays:
  assumes lay: "ota_layout cfg sys p bs"
    and a: "bootloader_common_get_active_otadata cfg (otadata_of cfg p sys) = Some a"
    and ok: "esp_ota_mark_app_valid_cancel_rollback cfg sys = Some (OtaReturn ESP_OK, sys')"
  shows "fst (bootloader_utility_get_selected_boot_partition cfg bs initial (fl sys')) =
    int (ota_slot (ota_seq (otadata_of cfg p sys ! a)) (app_count bs))"
proof -
  let ?two = "otadata_of cfg p sys"
  have l: "length (app_rd (cfg, p) g) = 2" for g by (simp add: app_rd_def read_two_def)
  have a2: "a < 2" using active_less [OF _ a] layout_two [OF lay] by simp
  show ?thesis
  proof (cases "ota_state (?two ! a) = ESP_OTA_IMG_VALID")
    case True
    then have "sys' = sys"
      using ok lay a by (auto simp: esp_ota_mark_app_valid_cancel_rollback_def esp_ota_current_ota_is_workable_def
          layout_read [OF lay] ota_layout_def Let_def split: if_splits)
    then show ?thesis
      using layout_boot_slot [OF lay active_seen [OF l a [unfolded otadata_of_def]]] True
      by (simp add: otadata_of_def ota_states)
  next
    case False
    define e where "e = seq_entry cfg (ota_seq (?two ! a)) ((?two ! a)\<lparr>ota_state := ESP_OTA_IMG_VALID\<rparr>)"
    have w: "app_wr (cfg, p) a e (fl sys) = (ESP_OK, fl sys')"
      using ok lay a False a2 layout_two [OF lay]
      by (intro lift_flash_OK [of _ sys]) (auto simp: esp_ota_mark_app_valid_cancel_rollback_def esp_ota_current_ota_is_workable_def
          layout_read [OF lay] ota_layout_def rewrite_ota_seq_wr e_def Let_def map_OtaReturn split: if_splits)
    have wf: "wf_entry e" using layout_two [OF lay] a2 by (simp add: e_def)
    have v: "entry_valid cfg e"
      using active_valid [OF _ a] layout_two [OF lay]
      by (simp add: e_def seq_entry_valid ota_states bootloader_common_ota_select_valid_def
          bootloader_common_ota_select_invalid_def)
    note k = app_store.confirm_active [OF layout_inv [OF lay] a [unfolded otadata_of_def] wf w v]
    have s: "ota_seq e = ota_seq (app_rd (cfg, p) (fl sys) ! a)" by (simp add: e_def otadata_of_def)
    have "ota_state e \<noteq> ESP_OTA_IMG_PENDING_VERIFY" by (simp add: e_def ota_states)
    then show ?thesis
      using layout_boot_slot [OF lay active_seen [OF l k(1) [OF s]]] k(2) [OF s] s by (simp add: otadata_of_def)
  qed
qed

theorem confirmed_image_stays_witness:
  "\<exists>sys'. esp_ota_mark_app_valid_cancel_rollback (ex_cfg True)
      (ex_sys (ex_entry 1 ESP_OTA_IMG_VALID) (ex_entry 2 ESP_OTA_IMG_PENDING_VERIFY) 2) = Some (OtaReturn ESP_OK, sys') \<and>
    fst (bootloader_utility_get_selected_boot_partition (ex_cfg True) ex_bs False (fl sys')) = 1"
proof -
  let ?sys = "ex_sys (ex_entry 1 ESP_OTA_IMG_VALID) (ex_entry 2 ESP_OTA_IMG_PENDING_VERIFY) 2"
  let ?two = "[ex_entry 1 ESP_OTA_IMG_VALID, ex_entry 2 ESP_OTA_IMG_PENDING_VERIFY]"
  let ?e = "seq_entry (ex_cfg True) 2 (ex_entry 2 ESP_OTA_IMG_VALID)"
  have two: "otadata_of (ex_cfg True) ex_otapart ?sys = ?two" by (simp add: ex_otadata)
  have st: "ota_seq (ex_entry n x) = n" "ota_state (ex_entry n x) = x"
      "(ex_entry n x)\<lparr>ota_state := y\<rparr> = ex_entry n y" for n x y by (simp_all add: ex_entry_def)
  have v: "entry_valid (ex_cfg True) (ex_entry 1 ESP_OTA_IMG_VALID)"
      "entry_valid (ex_cfg True) (ex_entry 2 ESP_OTA_IMG_PENDING_VERIFY)"
    by (simp_all add: ex_valid UINT32_MAX_def ota_states)
  have a: "bootloader_common_get_active_otadata (ex_cfg True) (otadata_of (ex_cfg True) ex_otapart ?sys) = Some 1"
    by (simp add: two active_two v st word_le_nat_alt)
  have ops: "2 \<le> ops_left (fl ?sys)" by (simp add: ex_sys_def ex_flash_def)
  obtain f' where f': "app_wr (ex_cfg True, ex_otapart) 1 ?e (fl ?sys) = (ESP_OK, f')"
    using app_wr_succeeds [OF layout_inv [OF ex_layout] _ _ ops, of 1 ?e] by auto
  have "esp_ota_mark_app_valid_cancel_rollback (ex_cfg True) ?sys = Some (OtaReturn ESP_OK, ?sys\<lparr>fl := f'\<rparr>)"
    using a f' by (simp add: esp_ota_mark_app_valid_cancel_rollback_def esp_ota_current_ota_is_workable_def
        layout_read [OF ex_layout] ex_count two st rewrite_ota_seq_wr lift_flash_def Let_def)
      (simp add: ota_states)
  from this confirmed_image_stays [OF ex_layout a this]
  show ?thesis by (auto simp: two st ota_slot_def ex_bs_def)
qed

subsection \<open>The view of the application\<close>

text \<open>
  The index of the default partition: the factory partition when there is one. Without one the boot
  loader selects slot 0, or the factory index, from which its search for an image goes on to slot 0.
\<close>

definition default_index :: "bootloader_state_t \<Rightarrow> int \<Rightarrow> bool" where
  "default_index bs i \<longleftrightarrow> (if pos_offset (factory bs) \<noteq> 0 then i = FACTORY_INDEX else i = FACTORY_INDEX \<or> i = 0)"

lemma default_partition:
  assumes "esp_ota_get_app_partition_count sys = Some n" and "0 < n"
  shows "find_default_boot_partition sys =
    (case find_app ESP_PARTITION_SUBTYPE_APP_FACTORY sys of Some fac \<Rightarrow> Some fac
     | None \<Rightarrow> find_app ESP_PARTITION_SUBTYPE_APP_OTA_MIN sys)"
proof -
  have "find_app ESP_PARTITION_SUBTYPE_APP_OTA_MIN sys \<noteq> None"
    using assms count_apps.simps [of sys 0] by (auto simp: esp_ota_get_app_partition_count_def split: if_splits)
  moreover have "[ESP_PARTITION_SUBTYPE_APP_OTA_MIN..<ESP_PARTITION_SUBTYPE_APP_OTA_MAX] =
      ESP_PARTITION_SUBTYPE_APP_OTA_MIN # [Suc ESP_PARTITION_SUBTYPE_APP_OTA_MIN..<ESP_PARTITION_SUBTYPE_APP_OTA_MAX]"
    by (rule upt_conv_Cons) (simp add: part_consts)
  ultimately show ?thesis
    by (auto simp: find_default_boot_partition_def first_app_def List.map_filter_def split: option.splits)
qed

lemma active_none_seen:
  "length two = 2 \<Longrightarrow> bootloader_common_get_active_otadata cfg two = None \<Longrightarrow>
   bootloader_common_get_active_otadata cfg (seen_entries cfg two) = None"
  by (auto simp: length2 active_two seen_entries_def abort_entry_valid split: if_splits)

text \<open>The boot loader gives up a pending image and turns to the other entry.\<close>

lemma active_pending_seen:
  assumes "length two = 2" and "bootloader_common_get_active_otadata cfg two = Some a"
    and "rollback_enable cfg" and "ota_state (two ! a) = ESP_OTA_IMG_PENDING_VERIFY"
  shows "selected_slot cfg n (seen_entries cfg two) =
    (if entry_valid cfg (two ! (1 - a)) \<and> ota_state (two ! (1 - a)) \<noteq> ESP_OTA_IMG_PENDING_VERIFY
     then Some (ota_slot (ota_seq (two ! (1 - a))) n) else None)"
proof -
  obtain e0 e1 where two: "two = [e0, e1]" using assms(1) by (auto simp: length2)
  show ?thesis using assms(2-4) unfolding two
    by (auto simp: active_two selected_slot_def seen_entries_def abort_entry_valid split: if_splits)
qed

lemma boot_index_none:
  "bootloader_common_get_active_otadata cfg two = None \<Longrightarrow> 0 < app_count bs \<Longrightarrow>
   default_index bs (boot_index_of cfg bs two)"
  by (auto simp: boot_index_of_def select_index_def default_index_def)

lemma boot_partition_answer:
  assumes lay: "ota_layout cfg sys p bs"
  shows "esp_ota_get_boot_partition cfg sys =
    Some (case bootloader_common_get_active_otadata cfg (otadata_of cfg p sys) of
            Some a \<Rightarrow> find_app (ESP_PARTITION_SUBTYPE_APP_OTA_MIN +
                        ota_slot (ota_seq (otadata_of cfg p sys ! a)) (app_count bs)) sys
          | None \<Rightarrow> find_default_boot_partition sys)"
proof (cases "bootloader_common_get_active_otadata cfg (otadata_of cfg p sys)")
  case None
  then show ?thesis
    using lay by (simp add: esp_ota_get_boot_partition_def layout_read [OF lay]) (simp add: ota_layout_def)
next
  case (Some a)
  let ?two = "otadata_of cfg p sys"
  have l: "length ?two = 2" using layout_two [OF lay] by simp
  have "\<not> bootloader_common_ota_select_invalid (?two ! a)" "a = 0 \<or> a = 1"
    using active_valid [OF l Some] active_less [OF l Some] valid_not_invalid by auto
  then show ?thesis using lay Some by (auto simp: esp_ota_get_boot_partition_def layout_read [OF lay] ota_layout_def)
qed

text \<open>
  Claim C13. The answer of \<open>esp_ota_get_boot_partition\<close> against the boot loader's choice, when both know
  the same OTA data, the same number of slots and the same factory partition or none. If no entry is
  valid, the call answers with the factory partition, or with slot 0 when there is none, and the boot
  loader selects the default. If the active entry is not a pending image, or rollback is off, the call
  answers with the slot the boot loader selects. If it is pending under rollback, as while an
  unconfirmed image runs, the call still answers with the slot of this image, and the boot loader at
  the next reset selects the slot of the other entry when that one is valid and not pending too, and
  the default otherwise.
\<close>

theorem application_agrees_with_boot_loader:
  fixes cfg bs sys p initial
  defines "two \<equiv> otadata_of cfg p sys"
    and "i \<equiv> fst (bootloader_utility_get_selected_boot_partition cfg bs initial (fl sys))"
  assumes lay: "ota_layout cfg sys p bs"
    and fac: "find_app ESP_PARTITION_SUBTYPE_APP_FACTORY sys = None \<longleftrightarrow> pos_offset (factory bs) = 0"
  shows "case bootloader_common_get_active_otadata cfg two of
      None \<Rightarrow> default_index bs i \<and> esp_ota_get_boot_partition cfg sys =
        Some (find_app (if pos_offset (factory bs) \<noteq> 0 then ESP_PARTITION_SUBTYPE_APP_FACTORY
                        else ESP_PARTITION_SUBTYPE_APP_OTA_MIN) sys)
    | Some a \<Rightarrow> esp_ota_get_boot_partition cfg sys =
        Some (find_app (ESP_PARTITION_SUBTYPE_APP_OTA_MIN + ota_slot (ota_seq (two ! a)) (app_count bs)) sys) \<and>
        (if \<not> (rollback_enable cfg \<and> ota_state (two ! a) = ESP_OTA_IMG_PENDING_VERIFY)
         then i = int (ota_slot (ota_seq (two ! a)) (app_count bs))
         else if bootloader_common_ota_select_valid cfg (two ! (1 - a)) \<and>
                 ota_state (two ! (1 - a)) \<noteq> ESP_OTA_IMG_PENDING_VERIFY
         then i = int (ota_slot (ota_seq (two ! (1 - a))) (app_count bs))
         else default_index bs i)"
proof -
  have l: "length two = 2" using layout_two [OF lay] by (simp add: two_def)
  have cnt: "esp_ota_get_app_partition_count sys = Some (app_count bs)" "0 < app_count bs"
    using lay by (auto simp: ota_layout_def)
  have sel: "i = boot_index_of cfg bs (seen_entries cfg two)"
    using layout_boot [OF lay, of initial "fl sys"] by (simp add: i_def two_def otadata_of_def)
  have l': "length (seen_entries cfg two) = 2" using l by (simp add: seen_length)
  note answer = boot_partition_answer [OF lay, folded two_def]
  show ?thesis
  proof (cases "bootloader_common_get_active_otadata cfg two")
    case None
    show ?thesis
      using None answer boot_index_none [OF active_none_seen [OF l None] cnt(2)] default_partition [OF cnt] fac
      by (auto simp: sel split: option.splits)
  next
    case (Some a)
    note slot = boot_index_selected [OF l' cnt(2)]
    show ?thesis
    proof (cases "rollback_enable cfg \<and> ota_state (two ! a) = ESP_OTA_IMG_PENDING_VERIFY")
      case False
      then show ?thesis using Some answer slot [OF active_seen [OF l Some]] by (auto simp: sel)
    next
      case True
      note pend = active_pending_seen [OF l Some, of "app_count bs"]
      show ?thesis
        using True Some answer pend slot boot_index_none [of cfg "seen_entries cfg two", OF _ cnt(2)]
        by (auto simp: sel selected_slot_def split: if_splits)
    qed
  qed
qed

theorem application_agrees_with_boot_loader_witness:
  "esp_ota_get_boot_partition (ex_cfg True)
       (ex_sys (ex_entry 1 ESP_OTA_IMG_VALID) (ex_entry 2 ESP_OTA_IMG_PENDING_VERIFY) 0) =
     Some (find_app (ESP_PARTITION_SUBTYPE_APP_OTA_MIN + 1)
       (ex_sys (ex_entry 1 ESP_OTA_IMG_VALID) (ex_entry 2 ESP_OTA_IMG_PENDING_VERIFY) 0)) \<and>
   fst (bootloader_utility_get_selected_boot_partition (ex_cfg True) ex_bs False
     (fl (ex_sys (ex_entry 1 ESP_OTA_IMG_VALID) (ex_entry 2 ESP_OTA_IMG_PENDING_VERIFY) 0))) = 0"
proof -
  let ?e0 = "ex_entry 1 ESP_OTA_IMG_VALID" and ?e1 = "ex_entry 2 ESP_OTA_IMG_PENDING_VERIFY"
  have two: "otadata_of (ex_cfg True) ex_otapart (ex_sys ?e0 ?e1 0) = [?e0, ?e1]" by (rule ex_otadata) simp_all
  have st: "ota_state ?e0 = ESP_OTA_IMG_VALID" "ota_state ?e1 = ESP_OTA_IMG_PENDING_VERIFY"
      "ota_seq ?e0 = 1" "ota_seq ?e1 = 2" "rollback_enable (ex_cfg True)" "app_count ex_bs = 2"
    by (simp_all add: ex_entry_def ex_cfg_def ex_bs_def)
  have v: "entry_valid (ex_cfg True) ?e0" "entry_valid (ex_cfg True) ?e1"
    by (simp_all add: ex_valid UINT32_MAX_def ota_states)
  have a: "bootloader_common_get_active_otadata (ex_cfg True) [?e0, ?e1] = Some 1"
    using v st by (simp add: active_two word_le_nat_alt)
  have fac: "find_app ESP_PARTITION_SUBTYPE_APP_FACTORY (ex_sys ?e0 ?e1 0) = None \<longleftrightarrow> pos_offset (factory ex_bs) = 0"
    by (simp add: find_app_find part_consts ex_sys_def ex_list_def ex_otaitem_def ex_item_def part_matches_def ex_bs_def)
  have ne: "ESP_OTA_IMG_VALID \<noteq> ESP_OTA_IMG_PENDING_VERIFY" by (simp add: ota_states)
  from application_agrees_with_boot_loader [where cfg = "ex_cfg True" and initial = False, OF ex_layout fac, unfolded two a]
  show ?thesis using v st ne by (simp add: ota_slot_def)
qed

end
