(* ===== verification/Ota_Write.thy ===== *)
theory Ota_Write
  imports Ota
begin

section \<open>Writing an update image\<close>

text \<open>
  The session side of \<open>app_update/esp_ota_ops.c\<close>: \<open>esp_ota_begin\<close>, \<open>esp_ota_write\<close>,
  \<open>esp_ota_write_with_offset\<close>, \<open>esp_ota_abort\<close> and \<open>esp_ota_end\<close> on the list of open sessions.
  The partition is erased at the start, or sector by sector as the writes reach it; with flash
  encryption the bytes of an incomplete 16-byte block wait in the session.
\<close>

definition OTA_SIZE_UNKNOWN :: nat where "OTA_SIZE_UNKNOWN = 0xffffffff"
definition OTA_WITH_SEQUENTIAL_WRITES :: nat where "OTA_WITH_SEQUENTIAL_WRITES = 0xfffffffe"
definition ESP_IMAGE_HEADER_MAGIC :: byte where "ESP_IMAGE_HEADER_MAGIC = 0xE9"

lemmas ota_sizes = OTA_SIZE_UNKNOWN_def OTA_WITH_SEQUENTIAL_WRITES_def

definition begin_erase :: "esp_partition_t \<Rightarrow> nat \<Rightarrow> flash_dev \<Rightarrow> esp_err_t \<times> flash_dev" where
  "begin_erase p image_size f =
     (if image_size = OTA_WITH_SEQUENTIAL_WRITES then (ESP_OK, f)
      else if image_size = 0 \<or> image_size = OTA_SIZE_UNKNOWN
      then esp_partition_erase_range p 0 (psize p) f
      else esp_partition_erase_range p 0
             (sz_add image_size (SPI_FLASH_SEC_SIZE - 1) div SPI_FLASH_SEC_SIZE * SPI_FLASH_SEC_SIZE) f)"

text \<open>
  The outer \<open>None\<close> is a stopped program. \<open>out_ok\<close> and \<open>calloc_ok\<close>: the handle pointer is not
  null, the session could be allocated.
\<close>

definition esp_ota_begin ::
  "ota_cfg \<Rightarrow> esp_partition_t option \<Rightarrow> nat \<Rightarrow> bool \<Rightarrow> bool \<Rightarrow> ota_sys \<Rightarrow>
   (esp_err_t \<times> nat option \<times> ota_sys) option" where
  "esp_ota_begin cfg partn image_size out_ok calloc_ok sys =
     (case partn of
        None \<Rightarrow> Some (ESP_ERR_INVALID_ARG, None, sys)
      | Some p0 \<Rightarrow>
          if \<not> out_ok then Some (ESP_ERR_INVALID_ARG, None, sys)
          else (case verify_loaded p0 (s_partition_list sys) of
              None \<Rightarrow> Some (ESP_ERR_NOT_FOUND, None, sys)
            | Some p \<Rightarrow>
                if \<not> is_ota_partition (info p) then Some (ESP_ERR_INVALID_ARG, None, sys)
                else do {
                  (running, sys1) \<leftarrow> esp_ota_get_running_partition cfg sys;
                  (if item_addr p = item_addr running
                   then Some (ESP_ERR_OTA_PARTITION_CONFLICT, None, sys1)
                   else do {
                     st \<leftarrow> (if rollback_enable cfg
                            then esp_ota_get_state_partition cfg (Some (info running)) True sys1
                            else Some (ESP_FAIL, None));
                     (if st = (ESP_OK, Some ESP_OTA_IMG_PENDING_VERIFY)
                      then Some (ESP_ERR_OTA_ROLLBACK_INVALID_STATE, None, sys1)
                      else
                        let (ret, sys2) = lift_flash (begin_erase (info p) image_size (fl sys1)) sys1 in
                        if ret \<noteq> ESP_OK then Some (ret, None, sys2)
                        else if \<not> calloc_ok then Some (ESP_ERR_NO_MEM, None, sys2)
                        else
                          let h = sz_add (s_ota_ops_last_handle sys2) 1;
                              it = \<lparr>handle = h, part = p,
                                need_erase = (image_size = OTA_WITH_SEQUENTIAL_WRITES),
                                wrote_size = 0, partial_bytes = 0, partial_data = replicate 16 0\<rparr>
                          in Some (ESP_OK, Some h,
                               sys2\<lparr>s_ota_ops_entries := it # s_ota_ops_entries sys2,
                                    s_ota_ops_last_handle := h\<rparr>)) }) }))"

subsection \<open>Writing\<close>

definition write_erase :: "ota_ops_entry_t \<Rightarrow> nat \<Rightarrow> flash_dev \<Rightarrow> esp_err_t \<times> flash_dev" where
  "write_erase it sz f =
     (if \<not> need_erase it then (ESP_OK, f)
      else
        let first_sector = wrote_size it div SPI_FLASH_SEC_SIZE;
            last_sector = sz_sub (sz_add (wrote_size it) sz) 1 div SPI_FLASH_SEC_SIZE
        in if wrote_size it mod SPI_FLASH_SEC_SIZE = 0
           then esp_partition_erase_range (info (part it)) (wrote_size it)
                  (sz_mul (sz_add (sz_sub last_sector first_sector) 1) SPI_FLASH_SEC_SIZE) f
           else if first_sector \<noteq> last_sector
           then esp_partition_erase_range (info (part it)) (sz_mul (first_sector + 1) SPI_FLASH_SEC_SIZE)
                  (sz_mul (sz_sub last_sector first_sector) SPI_FLASH_SEC_SIZE) f
           else (ESP_OK, f))"

text \<open>The write of what is ready, with which both paths end.\<close>

definition write_rest :: "ota_ops_entry_t \<Rightarrow> byte list \<Rightarrow> flash_dev \<Rightarrow>
    esp_err_t \<times> ota_ops_entry_t \<times> flash_dev" where
  "write_rest it data f =
     (let (ret, f1) = esp_partition_write (info (part it)) (wrote_size it) data f
      in (ret, (if ret = ESP_OK then it\<lparr>wrote_size := sz_add (wrote_size it) (length data)\<rparr> else it), f1))"

text \<open>Keep the bytes after the last complete block.\<close>

definition save_trailing :: "ota_ops_entry_t \<Rightarrow> byte list \<Rightarrow> flash_dev \<Rightarrow>
    esp_err_t \<times> ota_ops_entry_t \<times> flash_dev" where
  "save_trailing it data f =
     (let r = length data mod 16; n = length data - r
      in write_rest (it\<lparr>partial_bytes := r,
                        partial_data := (if r = 0 then partial_data it
                                         else drop n data @ drop r (partial_data it))\<rparr>)
           (take n data) f)"

definition write_encrypted :: "ota_ops_entry_t \<Rightarrow> byte list \<Rightarrow> flash_dev \<Rightarrow>
    esp_err_t \<times> ota_ops_entry_t \<times> flash_dev" where
  "write_encrypted it data f =
     (if partial_bytes it = 0 then save_trailing it data f
      else
        let copy_len = min (16 - partial_bytes it) (length data);
            it1 = it\<lparr>partial_data := take (partial_bytes it) (partial_data it) @ take copy_len data @
                        drop (partial_bytes it + copy_len) (partial_data it),
                     partial_bytes := partial_bytes it + copy_len\<rparr>
        in if partial_bytes it1 \<noteq> 16 then (ESP_OK, it1, f)
           else
             let (ret, f1) = esp_partition_write (info (part it1)) (wrote_size it1) (partial_data it1) f
             in if ret \<noteq> ESP_OK then (ret, it1, f1)
                else save_trailing (it1\<lparr>partial_bytes := 0, partial_data := replicate 16 0xFF,
                                        wrote_size := sz_add (wrote_size it1) 16\<rparr>)
                       (drop copy_len data) f1)"

definition write_body :: "ota_cfg \<Rightarrow> ota_ops_entry_t \<Rightarrow> byte list \<Rightarrow> flash_dev \<Rightarrow>
    esp_err_t \<times> ota_ops_entry_t \<times> flash_dev" where
  "write_body cfg it data f =
     (let (ret, f1) = write_erase it (length data) f in
      if ret \<noteq> ESP_OK then (ret, it, f1)
      else if wrote_size it = 0 \<and> partial_bytes it = 0 \<and> hd data \<noteq> ESP_IMAGE_HEADER_MAGIC
      then (ESP_ERR_OTA_VALIDATE_FAILED, it, f1)
      else if flash_encryption cfg then write_encrypted it data f1
      else write_rest it data f1)"

text \<open>The session with a handle: the first one of the list.\<close>

definition get_ota_ops_entry :: "nat \<Rightarrow> ota_sys \<Rightarrow> ota_ops_entry_t option" where
  "get_ota_ops_entry h sys = find (\<lambda>it. handle it = h) (s_ota_ops_entries sys)"

fun put_entry :: "ota_ops_entry_t \<Rightarrow> ota_ops_entry_t list \<Rightarrow> ota_ops_entry_t list" where
  "put_entry it [] = []"
| "put_entry it (x # xs) = (if handle x = handle it then it # xs else x # put_entry it xs)"

fun remove_entry :: "nat \<Rightarrow> ota_ops_entry_t list \<Rightarrow> ota_ops_entry_t list" where
  "remove_entry h [] = []"
| "remove_entry h (x # xs) = (if handle x = h then xs else x # remove_entry h xs)"

definition finish :: "esp_err_t \<times> ota_ops_entry_t \<times> flash_dev \<Rightarrow> ota_sys \<Rightarrow> esp_err_t \<times> ota_sys" where
  "finish r sys =
     (case r of (ret, it, f) \<Rightarrow>
        (ret, sys\<lparr>fl := f, s_ota_ops_entries := put_entry it (s_ota_ops_entries sys)\<rparr>))"

definition esp_ota_write :: "ota_cfg \<Rightarrow> nat \<Rightarrow> byte list option \<Rightarrow> ota_sys \<Rightarrow> esp_err_t \<times> ota_sys" where
  "esp_ota_write cfg h data sys =
     (case data of
        None \<Rightarrow> (ESP_ERR_INVALID_ARG, sys)
      | Some bs \<Rightarrow>
          if bs = [] then (ESP_OK, sys)
          else (case get_ota_ops_entry h sys of
              None \<Rightarrow> (ESP_ERR_INVALID_ARG, sys)
            | Some it \<Rightarrow> finish (write_body cfg it bs (fl sys)) sys))"

definition esp_ota_write_with_offset ::
  "ota_cfg \<Rightarrow> nat \<Rightarrow> byte list option \<Rightarrow> nat \<Rightarrow> ota_sys \<Rightarrow> (esp_err_t \<times> ota_sys) option" where
  "esp_ota_write_with_offset cfg h data offset sys =
     (case data of
        None \<Rightarrow> Some (ESP_ERR_INVALID_ARG, sys)
      | Some bs \<Rightarrow>
          (case get_ota_ops_entry h sys of
             None \<Rightarrow> Some (ESP_ERR_INVALID_ARG, sys)
           | Some it \<Rightarrow> do {
               configASSERT (\<not> need_erase it);
               (if flash_encryption cfg \<and> length bs mod 16 \<noteq> 0 then Some (ESP_ERR_INVALID_ARG, sys)
                else
                  let (ret, f1) = esp_partition_write (info (part it)) offset bs (fl sys)
                  in Some (finish (ret, (if ret = ESP_OK
                                         then it\<lparr>wrote_size := sz_add (wrote_size it) (length bs)\<rparr>
                                         else it), f1) sys)) }))"

subsection \<open>Ending a session\<close>

definition close_entry :: "nat \<Rightarrow> ota_sys \<Rightarrow> ota_sys" where
  "close_entry h sys = sys\<lparr>s_ota_ops_entries := remove_entry h (s_ota_ops_entries sys)\<rparr>"

definition esp_ota_abort :: "nat \<Rightarrow> ota_sys \<Rightarrow> esp_err_t \<times> ota_sys" where
  "esp_ota_abort h sys =
     (case get_ota_ops_entry h sys of
        None \<Rightarrow> (ESP_ERR_NOT_FOUND, sys)
      | Some it \<Rightarrow> (ESP_OK, close_entry h sys))"

definition esp_ota_end :: "ota_cfg \<Rightarrow> nat \<Rightarrow> ota_sys \<Rightarrow> esp_err_t \<times> ota_sys" where
  "esp_ota_end cfg h sys =
     (case get_ota_ops_entry h sys of
        None \<Rightarrow> (ESP_ERR_NOT_FOUND, sys)
      | Some it \<Rightarrow>
          if wrote_size it = 0 then (ESP_ERR_INVALID_ARG, close_entry h sys)
          else
            let (ret, f1) = (if partial_bytes it > 0
                  then esp_partition_write (info (part it)) (wrote_size it) (partial_data it) (fl sys)
                  else (ESP_OK, fl sys));
                sys1 = close_entry h (sys\<lparr>fl := f1\<rparr>)
            in if ret \<noteq> ESP_OK then (ESP_ERR_INVALID_STATE, sys1)
               else if \<not> image_verify cfg (paddress (info (part it))) (psize (info (part it))) f1
               then (ESP_ERR_OTA_VALIDATE_FAILED, sys1)
               else (ESP_OK, sys1))"

end
