(* ===== verification/Ota_Write_Spec.thy ===== *)
theory Ota_Write_Spec
  imports Ota_Write Ota_Boot_Spec
begin

section \<open>Properties of update sessions\<close>

text \<open>
  On unencrypted flash a session stores exactly the bytes it was given, in any division into
  writes: the invariant \<open>session_ok\<close> says that the bytes so far are on flash and that what is
  needed next is erased.
\<close>

subsection \<open>The invariant of a session\<close>

definition sector_up :: "nat \<Rightarrow> nat" where
  "sector_up n = (n + 4095) div 4096 * 4096"

text \<open>\<open>E\<close> bytes were erased when a session without sequential erase began.\<close>

definition erased_to :: "nat \<Rightarrow> ota_ops_entry_t \<Rightarrow> nat" where
  "erased_to E it = (if need_erase it then sector_up (wrote_size it) else E)"

definition good_part :: "esp_partition_t \<Rightarrow> bool" where
  "good_part p \<longleftrightarrow> \<not> encrypted p \<and> \<not> readonly p \<and> psize p mod 4096 = 0 \<and> unwrapped p"

definition session_ok :: "nat \<Rightarrow> ota_ops_entry_t \<Rightarrow> byte list \<Rightarrow> flash_dev \<Rightarrow> bool" where
  "session_ok E it data f \<longleftrightarrow>
     (let p = info (part it) in
      good_part p \<and> E \<le> psize p \<and> wrote_size it = length data \<and> partial_bytes it = 0 \<and> length data \<le> psize p \<and>
      (\<forall>k < length data. cells f (paddress p + k) = data ! k) \<and>
      (\<forall>k. length data \<le> k \<and> k < erased_to E it \<longrightarrow> cells f (paddress p + k) = 0xFF))"

text \<open>Room for \<open>n\<close> more bytes.\<close>

definition has_room :: "nat \<Rightarrow> ota_ops_entry_t \<Rightarrow> nat \<Rightarrow> bool" where
  "has_room E it n \<longleftrightarrow> wrote_size it + n \<le> (if need_erase it then psize (info (part it)) else E)"

lemma sector_up_pos: "0 < n \<Longrightarrow> sector_up n = ((n - 1) div 4096 + 1) * 4096"
proof -
  assume "0 < n"
  then obtain m where n: "n = Suc m" by (cases n) auto
  have "(n + 4095) div 4096 = (m + 4096) div 4096" by (simp add: n)
  also have "\<dots> = m div 4096 + 1" by simp
  finally show ?thesis by (simp add: sector_up_def n)
qed

lemma sector_up_ge: "n \<le> sector_up n"
proof (cases "n = 0")
  case False
  define q r where "q = (n - 1) div 4096" and "r = (n - 1) mod 4096"
  have "n - 1 = q * 4096 + r" unfolding q_def r_def by (rule div_mult_mod_eq [symmetric])
  moreover have "r < 4096" unfolding r_def by (intro mod_less_divisor) simp
  moreover have "sector_up n = q * 4096 + 4096" using False sector_up_pos [of n] by (simp add: q_def)
  ultimately show ?thesis by linarith
qed (simp add: sector_up_def)

lemma sector_up_le:
  assumes "n \<le> s" "s mod 4096 = 0"
  shows "sector_up n \<le> s"
proof -
  obtain q where q: "s = q * 4096" using div_mult_mod_eq [of s 4096] assms(2) by (metis add_0_right)
  then have "n + 4095 < (q + 1) * 4096" using assms(1) by simp
  then have "(n + 4095) div 4096 < q + 1" by (rule less_mult_imp_div_less)
  then show ?thesis by (simp add: sector_up_def q)
qed

lemma sector_up_inside:
  assumes "w mod 4096 \<noteq> (0 :: nat)"
  shows "sector_up w = (w div 4096 + 1) * 4096" and "w \<le> (w div 4096 + 1) * 4096"
proof -
  define q r where "q = w div 4096" and "r = w mod 4096"
  have w: "w = q * 4096 + r" unfolding q_def r_def by (rule div_mult_mod_eq [symmetric])
  have r: "r < 4096" "0 < r" using assms unfolding r_def by (auto intro: mod_less_divisor)
  have "w - 1 < 4096 * Suc q" unfolding mult_Suc_right using w r by linarith
  moreover have "4096 * q \<le> w - 1" using w r by linarith
  ultimately have "(w - 1) div 4096 = q" by (intro div_nat_eqI)
  then show "sector_up w = (w div 4096 + 1) * 4096" 
    using sector_up_pos [of w] w r(2) by (metis add_pos_pos gr0I not_add_less2 q_def)
  show "w \<le> (w div 4096 + 1) * 4096" using w r(1) unfolding add_mult_distrib q_def by linarith
qed

lemma erase_range_ok:
  assumes "good_part p" and "off + n \<le> psize p" and "off mod 4096 = 0" and "n mod 4096 = 0" and "0 < ops_left f"
  shows "\<exists>f1. esp_partition_erase_range p off n f = (ESP_OK, f1) \<and> ops_left f \<le> ops_left f1 + 1 \<and>
    (\<forall>i. cells f1 i = (if in_range (paddress p + off) n i then 0xFF else cells f i))"
  using assms part_addr [of p off]
  by (auto simp: esp_partition_erase_range_def good_part_def unwrapped_def range_check_def sz_add_exact SPI_FLASH_SEC_SIZE_def
      flash_erase_def flash_op_def in_range_def)

lemma good_part_size: "good_part p \<Longrightarrow> psize p < 2 ^ 32"
  by (simp add: good_part_def unwrapped_def)

text \<open>The erase before a write of \<open>n\<close> bytes makes the room for them and keeps the bytes before.\<close>

lemma write_erase_ok:
  assumes s: "session_ok E it data f" and n: "0 < n" and room: "has_room E it n" and ops: "0 < ops_left f"
  shows "\<exists>f1. write_erase it n f = (ESP_OK, f1) \<and> ops_left f \<le> ops_left f1 + 1 \<and>
    session_ok E it data f1 \<and>
    (\<forall>k. length data \<le> k \<and> k < (if need_erase it then sector_up (length data + n) else E) \<longrightarrow>
       cells f1 (paddress (info (part it)) + k) = 0xFF)"
proof (cases "need_erase it")
  case False
  then show ?thesis using s by (auto simp: write_erase_def session_ok_def Let_def erased_to_def)
next
  case True
  let ?p = "info (part it)" and ?w = "length data"
  have p: "good_part ?p" "wrote_size it = ?w" using s by (auto simp: session_ok_def Let_def)
  have fit: "?w + n \<le> psize ?p" using room True p(2) by (simp add: has_room_def)
  have lim: "psize ?p < 2 ^ 32" "psize ?p mod 4096 = 0" using p(1) good_part_size by (auto simp: good_part_def)
  define first where "first = ?w div 4096"
  define lst where "lst = (?w + n - 1) div 4096"
  have ls: "sz_sub (sz_add ?w n) 1 div 4096 = lst"
    using fit lim n by (simp add: sz_add_exact sz_sub_exact lst_def)
  have fl: "first \<le> lst" unfolding first_def lst_def using n by (intro div_le_mono) simp
  have up: "sector_up (?w + n) = (lst + 1) * 4096" using n by (simp add: sector_up_pos lst_def)
  have le: "(lst + 1) * 4096 \<le> psize ?p" using sector_up_le [OF fit lim(2)] up by simp
  consider (al) "?w mod 4096 = 0" | (cross) "?w mod 4096 \<noteq> 0" "first \<noteq> lst" | (in_sector) "?w mod 4096 \<noteq> 0" "first = lst"
    by blast
  then show ?thesis
  proof cases
    case al
    have w: "?w = first * 4096" using al div_mult_mod_eq [of ?w 4096] by (simp add: first_def)
    have "sz_mul (sz_add (sz_sub lst first) 1) 4096 = (lst - first + 1) * 4096"
      using fl le lim by (simp add: sz_sub_exact sz_add_exact sz_mul_def)
    then have we: "write_erase it n f = esp_partition_erase_range ?p ?w ((lst - first + 1) * 4096) f"
      using True al p(2) ls by (simp add: write_erase_def SPI_FLASH_SEC_SIZE_def first_def)
    have "?w + (lst - first + 1) * 4096 = (lst + 1) * 4096" using w fl by (simp add: algebra_simps)
    with erase_range_ok [OF p(1), of ?w "(lst - first + 1) * 4096" f] obtain f1 where
      f1: "write_erase it n f = (ESP_OK, f1)" "ops_left f \<le> ops_left f1 + 1"
        "\<forall>i. cells f1 i = (if in_range (paddress ?p + ?w) ((lst - first + 1) * 4096) i then 0xFF else cells f i)"
      using le al ops we by auto
    then show ?thesis
      using s True up \<open>?w + (lst - first + 1) * 4096 = (lst + 1) * 4096\<close>
      by (auto simp: session_ok_def Let_def in_range_def erased_to_def)
  next
    case cross
    have m: "sz_mul (first + 1) 4096 = (first + 1) * 4096" "sz_mul (sz_sub lst first) 4096 = (lst - first) * 4096"
      using fl le lim cross by (auto simp: sz_sub_exact sz_mul_def)
    then have we: "write_erase it n f = esp_partition_erase_range ?p ((first + 1) * 4096) ((lst - first) * 4096) f"
      using True cross p(2) ls by (simp add: write_erase_def SPI_FLASH_SEC_SIZE_def first_def Let_def)
    have sum: "(first + 1) * 4096 + (lst - first) * 4096 = (lst + 1) * 4096" using fl by (simp add: algebra_simps)
    have upw: "sector_up ?w = (first + 1) * 4096" using sector_up_inside(1) [OF cross(1)] by (simp add: first_def)
    have wl: "?w \<le> (first + 1) * 4096" using sector_up_inside(2) [OF cross(1)] by (simp add: first_def)
    from erase_range_ok [OF p(1), of "(first + 1) * 4096" "(lst - first) * 4096" f] obtain f1 where
      f1: "write_erase it n f = (ESP_OK, f1)" "ops_left f \<le> ops_left f1 + 1"
        "\<forall>i. cells f1 i = (if in_range (paddress ?p + (first + 1) * 4096) ((lst - first) * 4096) i then 0xFF else cells f i)"
      using le sum ops we by auto
    then show ?thesis
      using s True up upw wl sum p(2)
      by (auto simp: session_ok_def Let_def in_range_def erased_to_def)
  next
    case in_sector
    have "write_erase it n f = (ESP_OK, f)"
      using True in_sector p(2) ls by (simp add: write_erase_def SPI_FLASH_SEC_SIZE_def first_def Let_def)
    moreover have "sector_up ?w = (first + 1) * 4096" using sector_up_inside(1) [OF in_sector(1)] by (simp add: first_def)
    ultimately show ?thesis
      using s True up in_sector p(2) by (auto simp: session_ok_def Let_def erased_to_def)
  qed
qed

lemma partition_write_ok:
  assumes "good_part p" and "off + length xs \<le> psize p" and "xs \<noteq> []" and "0 < ops_left f"
  shows "\<exists>f1. esp_partition_write p off xs f = (ESP_OK, f1) \<and> ops_left f \<le> ops_left f1 + 1 \<and>
    (\<forall>i. cells f1 i = (if in_range (paddress p + off) (length xs) i
       then cells f i AND xs ! (i - (paddress p + off)) else cells f i))"
  using assms part_addr [of p off]
  by (auto simp: esp_partition_write_def good_part_def unwrapped_def range_check_def sz_add_exact flash_write_def flash_op_def)

lemma write_body_step:
  assumes s: "session_ok E it data f" and c: "c \<noteq> []" and m: "data = [] \<longrightarrow> hd c = ESP_IMAGE_HEADER_MAGIC"
    and room: "has_room E it (length c)" and ops: "2 \<le> ops_left f" and ne: "\<not> flash_encryption cfg"
  shows "\<exists>f'. write_body cfg it c f = (ESP_OK, it\<lparr>wrote_size := length (data @ c)\<rparr>, f') \<and>
    ops_left f \<le> ops_left f' + 2 \<and> session_ok E (it\<lparr>wrote_size := length (data @ c)\<rparr>) (data @ c) f'"
proof -
  let ?p = "info (part it)" and ?w = "length data"
  obtain f1 where f1: "write_erase it (length c) f = (ESP_OK, f1)" "ops_left f \<le> ops_left f1 + 1"
      "session_ok E it data f1"
      "\<forall>k. ?w \<le> k \<and> k < (if need_erase it then sector_up (?w + length c) else E) \<longrightarrow> cells f1 (paddress ?p + k) = 0xFF"
    using write_erase_ok [OF s _ room] c ops by auto
  have p: "good_part ?p" "wrote_size it = ?w" "partial_bytes it = 0" "E \<le> psize ?p"
    using s by (auto simp: session_ok_def Let_def)
  have fit: "?w + length c \<le> psize ?p" using room p by (auto simp: has_room_def split: if_splits)
  have up: "?w + length c \<le> (if need_erase it then sector_up (?w + length c) else E)"
    using room p(2) sector_up_ge [of "?w + length c"] by (auto simp: has_room_def split: if_splits)
  obtain f2 where f2: "esp_partition_write ?p ?w c f1 = (ESP_OK, f2)" "ops_left f1 \<le> ops_left f2 + 1"
      "\<forall>i. cells f2 i = (if in_range (paddress ?p + ?w) (length c) i
         then cells f1 i AND c ! (i - (paddress ?p + ?w)) else cells f1 i)"
    using partition_write_ok [OF p(1) fit c, of f1] f1(2) ops by auto
  have "write_rest it c f1 = (ESP_OK, it\<lparr>wrote_size := length (data @ c)\<rparr>, f2)"
    using f2(1) p fit good_part_size [OF p(1)] by (simp add: write_rest_def sz_add_exact)
  moreover have "\<not> (wrote_size it = 0 \<and> partial_bytes it = 0 \<and> hd c \<noteq> ESP_IMAGE_HEADER_MAGIC)"
    using m p(2) by auto
  ultimately have "write_body cfg it c f = (ESP_OK, it\<lparr>wrote_size := length (data @ c)\<rparr>, f2)"
    using f1(1) ne by (auto simp: write_body_def)
  moreover have "session_ok E (it\<lparr>wrote_size := length (data @ c)\<rparr>) (data @ c) f2"
    using f1(3,4) f2(3) p fit up
    by (auto simp: session_ok_def Let_def erased_to_def in_range_def nth_append and_ff)
  ultimately show ?thesis using f1(2) f2(2) by auto
qed

subsection \<open>A sequence of writes\<close>

text \<open>A client that writes chunk after chunk and stops at the first error.\<close>

fun write_all :: "ota_cfg \<Rightarrow> nat \<Rightarrow> byte list list \<Rightarrow> ota_sys \<Rightarrow> esp_err_t \<times> ota_sys" where
  "write_all cfg h [] sys = (ESP_OK, sys)"
| "write_all cfg h (c # cs) sys =
     (let (err, sys1) = esp_ota_write cfg h (Some c) sys
      in if err \<noteq> ESP_OK then (err, sys1) else write_all cfg h cs sys1)"

lemma find_put_entry:
  "find (\<lambda>x. handle x = h) xs = Some it \<Longrightarrow> handle it' = h \<Longrightarrow>
   find (\<lambda>x. handle x = h) (put_entry it' xs) = Some it'"
  by (induction xs) (auto split: if_splits)

lemma write_all_ok:
  assumes "get_ota_ops_entry h sys = Some it" and "session_ok E it data (fl sys)"
    and "data = [] \<and> concat cs \<noteq> [] \<longrightarrow> hd (concat cs) = ESP_IMAGE_HEADER_MAGIC"
    and "has_room E it (length (concat cs))" and "2 * length cs \<le> ops_left (fl sys)"
    and ne: "\<not> flash_encryption cfg"
  shows "\<exists>sys' it'. write_all cfg h cs sys = (ESP_OK, sys') \<and> get_ota_ops_entry h sys' = Some it' \<and>
    part it' = part it \<and> session_ok E it' (data @ concat cs) (fl sys')"
  using assms(1-5)
proof (induction cs arbitrary: sys it data)
  case Nil
  then show ?case by auto
next
  case (Cons c cs)
  show ?case
  proof (cases "c = []")
    case True
    then show ?thesis using Cons by (simp add: esp_ota_write_def)
  next
    case False
    let ?it = "it\<lparr>wrote_size := length (data @ c)\<rparr>"
    have h: "handle it = h" using Cons.prems(1) by (auto simp: get_ota_ops_entry_def find_Some_iff)
    have w: "wrote_size it = length data" using Cons.prems(2) by (simp add: session_ok_def Let_def)
    have room: "has_room E it (length c)" using Cons.prems(4) by (simp add: has_room_def split: if_splits)
    obtain f' where f': "write_body cfg it c (fl sys) = (ESP_OK, ?it, f')"
        "ops_left (fl sys) \<le> ops_left f' + 2" "session_ok E ?it (data @ c) f'"
      using write_body_step [OF Cons.prems(2) False _ room _ ne] Cons.prems(3,5) False by auto
    let ?sys = "sys\<lparr>fl := f', s_ota_ops_entries := put_entry ?it (s_ota_ops_entries sys)\<rparr>"
    have wr: "esp_ota_write cfg h (Some c) sys = (ESP_OK, ?sys)"
      using False Cons.prems(1) f'(1) by (simp add: esp_ota_write_def finish_def)
    have "get_ota_ops_entry h ?sys = Some ?it"
      using Cons.prems(1) h find_put_entry [of h "s_ota_ops_entries sys" it ?it] by (simp add: get_ota_ops_entry_def)
    moreover have "has_room E ?it (length (concat cs))"
      using Cons.prems(4) w by (simp add: has_room_def split: if_splits)
    ultimately have "\<exists>sys' it'. write_all cfg h cs ?sys = (ESP_OK, sys') \<and> get_ota_ops_entry h sys' = Some it' \<and>
        part it' = part ?it \<and> session_ok E it' ((data @ c) @ concat cs) (fl sys')"
      using Cons.IH [of ?sys ?it "data @ c"] False f'(2,3) Cons.prems(5) by simp
    then show ?thesis using wr by simp
  qed
qed

subsection \<open>From begin to end\<close>

lemma erase_range_result:
  assumes "esp_partition_erase_range p off n f = (ESP_OK, f1)" and "k < n" and "good_part p"
  shows "cells f1 (paddress p + off + k) = 0xFF"
  using assms checked_addr [of p off n] by (auto simp: good_part_def esp_partition_erase_range_def flash_erase_def flash_op_def in_range_def split: if_splits)

lemma erase_range_fits:
  assumes "esp_partition_erase_range p 0 n f = (ESP_OK, f1)" and "n < 2 ^ 32"
  shows "n \<le> psize p"
  using assms by (auto simp: esp_partition_erase_range_def range_check_def sz_add_def split: if_splits)

text \<open>How many bytes a session may take.\<close>

definition session_limit :: "esp_partition_t \<Rightarrow> nat \<Rightarrow> nat" where
  "session_limit p image_size =
     (if image_size = OTA_WITH_SEQUENTIAL_WRITES \<or> image_size = 0 \<or> image_size = OTA_SIZE_UNKNOWN
      then psize p else image_size)"

lemma begin_erase_result:
  assumes "begin_erase p image_size f = (ESP_OK, f1)" and "good_part p" and "session_limit p image_size \<le> psize p"
    and "image_size \<noteq> OTA_WITH_SEQUENTIAL_WRITES"
  shows "\<exists>E. session_limit p image_size \<le> E \<and> E \<le> psize p \<and> (\<forall>k < E. cells f1 (paddress p + k) = 0xFF)"
proof (cases "image_size = 0 \<or> image_size = OTA_SIZE_UNKNOWN")
  case True
  then have "esp_partition_erase_range p 0 (psize p) f = (ESP_OK, f1)"
    using assms(1,4) by (auto simp: begin_erase_def)
  from erase_range_result [OF this _ assms(2)] True show ?thesis
    by (intro exI [of _ "psize p"]) (auto simp: session_limit_def)
next
  case False
  have lim: "image_size \<le> psize p" using assms(3,4) False by (simp add: session_limit_def)
  have "psize p < 2 ^ 32" "psize p mod 4096 = 0" using assms(2) good_part_size by (auto simp: good_part_def)
  then have "psize p + 4095 < 2 ^ 32" by (auto elim!: dvdE simp: mod_eq_0_iff_dvd)
  then have up: "sz_add image_size 4095 div 4096 * 4096 = sector_up image_size"
    using lim by (simp add: sz_add_exact sector_up_def)
  have er: "esp_partition_erase_range p 0 (sector_up image_size) f = (ESP_OK, f1)"
    using assms(1,4) False up by (simp add: begin_erase_def SPI_FLASH_SEC_SIZE_def)
  have "sector_up image_size \<le> psize p"
    using sector_up_le [OF lim] assms(2) by (simp add: good_part_def)
  with erase_range_result [OF er _ assms(2)] sector_up_ge [of image_size] assms(4) False show ?thesis
    by (intro exI [of _ "sector_up image_size"]) (auto simp: session_limit_def)
qed

lemma begin_cases:
  assumes "esp_ota_begin cfg (Some q) image_size True True sys = Some (ESP_OK, Some h, sys1)"
    and "verify_loaded q (s_partition_list sys) = Some p"
  obtains f0 f1 it where "begin_erase (info p) image_size f0 = (ESP_OK, f1)" and "fl sys1 = f1"
    and "get_ota_ops_entry h sys1 = Some it" and "part it = p" and "wrote_size it = 0" and "partial_bytes it = 0"
    and "need_erase it \<longleftrightarrow> image_size = OTA_WITH_SEQUENTIAL_WRITES"
proof -
  from assms obtain running sys0 where "esp_ota_get_running_partition cfg sys = Some (running, sys0)"
    by (auto simp: esp_ota_begin_def split: if_splits dest!: bind_eq_SomeD)
  moreover obtain ret f1 where "begin_erase (info p) image_size (fl sys0) = (ret, f1)" by fastforce
  ultimately show ?thesis using assms
    by (intro that [of "fl sys0" f1 "hd (s_ota_ops_entries sys1)"])
      (auto simp: esp_ota_begin_def lift_flash_def get_ota_ops_entry_def Let_def
        split: if_splits prod.splits dest!: bind_eq_SomeD)
qed

lemma begin_session:
  assumes b: "esp_ota_begin cfg (Some q) image_size True True sys = Some (ESP_OK, Some h, sys1)"
    and v: "verify_loaded q (s_partition_list sys) = Some p"
    and g: "good_part (info p)" and lim: "session_limit (info p) image_size \<le> psize (info p)"
    and n: "n \<le> session_limit (info p) image_size"
  obtains E it where "get_ota_ops_entry h sys1 = Some it" and "part it = p"
    and "session_ok E it [] (fl sys1)" and "has_room E it n"
proof (rule begin_cases [OF b v])
  fix f0 f1 it
  assume it: "begin_erase (info p) image_size f0 = (ESP_OK, f1)" "fl sys1 = f1" "get_ota_ops_entry h sys1 = Some it"
    "part it = p" "wrote_size it = 0" "partial_bytes it = 0" "need_erase it \<longleftrightarrow> image_size = OTA_WITH_SEQUENTIAL_WRITES"
  show thesis
  proof (cases "image_size = OTA_WITH_SEQUENTIAL_WRITES")
    case True
    have "session_ok 0 it [] (fl sys1)" "has_room 0 it n"
      using it g n True by (simp_all add: session_ok_def erased_to_def sector_up_def has_room_def session_limit_def)
    then show ?thesis using that it by blast
  next
    case False
    obtain E where E: "session_limit (info p) image_size \<le> E" "E \<le> psize (info p)"
        "\<forall>k < E. cells f1 (paddress (info p) + k) = 0xFF"
      using begin_erase_result [OF it(1) g lim False] by auto
    have "session_ok E it [] (fl sys1)" "has_room E it n"
      using it g n E False by (simp_all add: session_ok_def erased_to_def has_room_def)
    then show ?thesis using that it by blast
  qed
qed

text \<open>
  Claim C16. On unencrypted flash, an update session on a writable partition of whole sectors that does not
  wrap around the 32-bit address range stores the image, whether the sectors are erased at the start or one by one:
  for any division of an image that starts with the magic byte and fits, with enough working flash
  operations, every write succeeds, the partition then starts with exactly the bytes of the image,
  and \<open>esp_ota_end\<close> closes the session with the verdict of the image check on this flash.
\<close>

theorem ota_session_stores_image:
  assumes b: "esp_ota_begin cfg (Some q) image_size True True sys = Some (ESP_OK, Some h, sys1)"
    and v: "verify_loaded q (s_partition_list sys) = Some p"
    and g: "good_part (info p)" "session_limit (info p) image_size \<le> psize (info p)"
    and ne: "\<not> flash_encryption cfg"
    and img: "concat cs \<noteq> []" "hd (concat cs) = ESP_IMAGE_HEADER_MAGIC"
      "length (concat cs) \<le> session_limit (info p) image_size"
    and ops: "2 * length cs \<le> ops_left (fl sys1)"
  shows "\<exists>sys2. write_all cfg h cs sys1 = (ESP_OK, sys2) \<and>
    flash_read (paddress (info p)) (length (concat cs)) (fl sys2) = concat cs \<and>
    fst (esp_ota_end cfg h sys2) =
      (if image_verify cfg (paddress (info p)) (psize (info p)) (fl sys2) then ESP_OK else ESP_ERR_OTA_VALIDATE_FAILED) \<and>
    fl (snd (esp_ota_end cfg h sys2)) = fl sys2"
proof -
  obtain E it where it: "get_ota_ops_entry h sys1 = Some it" "part it = p"
      "session_ok E it [] (fl sys1)" "has_room E it (length (concat cs))"
    using begin_session [OF b v g img(3)] by metis
  obtain sys2 it' where w: "write_all cfg h cs sys1 = (ESP_OK, sys2)" "get_ota_ops_entry h sys2 = Some it'"
      "part it' = p" "session_ok E it' (concat cs) (fl sys2)"
    using write_all_ok [OF it(1,3) _ it(4) ops ne] img(2) it(2) by auto
  have "flash_read (paddress (info p)) (length (concat cs)) (fl sys2) = concat cs"
    using w(3,4) by (auto simp: session_ok_def Let_def flash_read_def intro!: nth_equalityI)
  moreover have "wrote_size it' \<noteq> 0" "partial_bytes it' = 0"
    using w(4) img(1) by (auto simp: session_ok_def Let_def simp del: concat_eq_Nil_conv)
  ultimately show ?thesis
    using w by (auto simp: esp_ota_end_def close_entry_def)
qed

definition ex_slot1_item :: partition_list_item_t where "ex_slot1_item = ex_item 4 0 0x11 0x30000 0x10000"

lemma ex_verify: "verify_loaded ex_slot1 (s_partition_list (ex_sys e0 e1 ops)) = Some ex_slot1_item"
  by (simp add: verify_loaded_def verify_loop_visited visited_find ex_slot1_def ex_slot1_item_def
      ex_sys_def ex_list_def ex_otaitem_def ex_item_def part_matches_def part_consts same_place_def)

lemma ex_running:
  "esp_ota_get_running_partition (ex_cfg rb) (ex_sys e0 e1 ops) =
     Some (ex_item 3 0 0x10 0x20000 0x10000,
       (ex_sys e0 e1 ops)\<lparr>curr_partition := Some (ex_item 3 0 0x10 0x20000 0x10000)\<rparr>)"
  by (simp add: esp_ota_get_running_partition_def ex_sys_def ex_cfg_def ex_list_def ex_otaitem_def ex_item_def
      part_matches_def part_consts sz_add_def)

lemma ex_begin:
  "\<exists>h sys1. esp_ota_begin (ex_cfg False) (Some ex_slot1) OTA_WITH_SEQUENTIAL_WRITES True True (ex_sys e0 e1 ops) =
     Some (ESP_OK, Some h, sys1) \<and> ops_left (fl sys1) = ops"
proof -
  have "is_ota_partition (info ex_slot1_item)" "item_addr ex_slot1_item = 4"
    by (simp_all add: is_ota_partition_def ex_slot1_item_def ex_item_def part_consts)
  moreover have "item_addr (ex_item 3 0 0x10 0x20000 0x10000) = 3" "\<not> rollback_enable (ex_cfg False)"
    by (simp_all add: ex_item_def ex_cfg_def)
  ultimately show ?thesis
    by (simp add: esp_ota_begin_def ex_verify ex_running begin_erase_def lift_flash_def Let_def)
      (simp add: ex_sys_def ex_flash_def)
qed

theorem ota_session_stores_image_witness:
  "\<exists>h sys1 sys2. esp_ota_begin (ex_cfg False) (Some ex_slot1) OTA_WITH_SEQUENTIAL_WRITES True True
      (ex_sys (ex_entry 1 ESP_OTA_IMG_VALID) (ex_entry 2 ESP_OTA_IMG_VALID) 4) = Some (ESP_OK, Some h, sys1) \<and>
    write_all (ex_cfg False) h [[0xE9, 1, 2], [3, 4]] sys1 = (ESP_OK, sys2) \<and>
    flash_read 0x30000 5 (fl sys2) = [0xE9, 1, 2, 3, 4]"
proof -
  obtain h sys1 where b: "esp_ota_begin (ex_cfg False) (Some ex_slot1) OTA_WITH_SEQUENTIAL_WRITES True True
      (ex_sys (ex_entry 1 ESP_OTA_IMG_VALID) (ex_entry 2 ESP_OTA_IMG_VALID) 4) = Some (ESP_OK, Some h, sys1)"
      "ops_left (fl sys1) = 4"
    using ex_begin by blast
  let ?cs = "[[0xE9, 1, 2], [3, 4]] :: byte list list"
  have cs: "concat ?cs = [0xE9, 1, 2, 3, 4]" "length (concat ?cs) = 5" by simp_all
  have prem: "good_part (info ex_slot1_item)"
      "session_limit (info ex_slot1_item) OTA_WITH_SEQUENTIAL_WRITES \<le> psize (info ex_slot1_item)"
      "\<not> flash_encryption (ex_cfg False)" "concat ?cs \<noteq> []" "hd (concat ?cs) = ESP_IMAGE_HEADER_MAGIC"
      "length (concat ?cs) \<le> session_limit (info ex_slot1_item) OTA_WITH_SEQUENTIAL_WRITES"
      "2 * length ?cs \<le> ops_left (fl sys1)"
    using b(2)
    by (simp_all add: good_part_def unwrapped_def session_limit_def ex_slot1_item_def ex_item_def ex_cfg_def ESP_IMAGE_HEADER_MAGIC_def)
  have a: "paddress (info ex_slot1_item) = 0x30000" by (simp add: ex_slot1_item_def ex_item_def)
  show ?thesis
    using ota_session_stores_image [OF b(1) ex_verify prem] b(1) unfolding cs(2) a unfolding cs(1) by blast
qed

subsection \<open>Encrypted flash\<close>

definition enc_part :: "esp_partition_t \<Rightarrow> flash_dev \<Rightarrow> bool" where
  "enc_part p f \<longleftrightarrow> encrypted p \<and> \<not> readonly p \<and> flash_chip p = 0 \<and> paddress p mod 16 = 0 \<and>
     8192 \<le> psize p \<and> unwrapped p \<and> (\<forall>a xs. length (hw_encrypt f a xs) = length xs)"

lemma enc_write_ok:
  assumes "enc_part p f" and "off mod 16 = 0" and "off + 16 \<le> 8192" and "length xs = 16" and "0 < ops_left f"
  shows "\<exists>f1 blk. esp_partition_write p off xs f = (ESP_OK, f1) \<and> ops_left f \<le> ops_left f1 + 1 \<and> enc_part p f1 \<and>
    length blk = 16 \<and>
    (\<forall>i. cells f1 i = (if in_range (paddress p + off) 16 i then cells f i AND blk ! (i - (paddress p + off)) else cells f i))"
proof -
  have "(paddress p + off) mod 16 = 0" using assms(1,2) by (auto simp: enc_part_def mod_add_eq [symmetric])
  moreover have "range_check p off 16 = ESP_OK" using assms(1,3) by (auto simp: enc_part_def range_check_def sz_add_def)
  moreover have "sz_add (paddress p) off = paddress p + off" using assms(1,3) by (intro part_addr) (auto simp: enc_part_def)
  moreover have "xs \<noteq> []" using assms(4) by auto
  ultimately have w: "esp_partition_write p off xs f = flash_write (paddress p + off) (hw_encrypt f (paddress p + off) xs) f"
    using assms(1,4) by (simp add: esp_partition_write_def esp_flash_write_encrypted_def enc_part_def)
  show ?thesis
    unfolding w using assms(1,4,5)
    by (intro exI [of _ "snd (flash_write (paddress p + off) (hw_encrypt f (paddress p + off) xs) f)"]
        exI [of _ "hw_encrypt f (paddress p + off) xs"])
      (auto simp: flash_write_def flash_op_def enc_part_def)
qed

lemma enc_write_empty: "enc_part p f \<Longrightarrow> off \<le> 8192 \<Longrightarrow> off mod 16 = 0 \<Longrightarrow> esp_partition_write p off [] f = (ESP_OK, f)"
  using part_addr [of p off]
  by (auto simp: esp_partition_write_def esp_flash_write_encrypted_def enc_part_def range_check_def sz_add_exact
      mod_add_eq [symmetric])

text \<open>
  On encrypted flash with sequential erase, a write that fills a sector and leaves bytes over
  does not erase the next sector (the check counts from the bytes written, not from the bytes
  waiting), and \<open>esp_ota_end\<close> then programs the remaining block into that sector: the old contents are
  not erased, the cells hold their bitwise conjunction with the new block.
\<close>

theorem encrypted_end_programs_unerased_sector:
  assumes it: "get_ota_ops_entry h sys = Some it" "need_erase it" "wrote_size it = 4080" "partial_bytes it = 15"
      "length (partial_data it) = 16"
    and p: "enc_part (info (part it)) (fl sys)" and enc: "flash_encryption cfg" and c: "length c = 16"
    and ops: "2 \<le> ops_left (fl sys)"
  shows "\<exists>sys1 blk. esp_ota_write cfg h (Some c) sys = (ESP_OK, sys1) \<and> length blk = 16 \<and>
    (\<forall>k < 16. cells (fl (snd (esp_ota_end cfg h sys1))) (paddress (info (part it)) + 4096 + k) =
       cells (fl sys) (paddress (info (part it)) + 4096 + k) AND blk ! k)"
proof -
  let ?p = "info (part it)"
  let ?buf = "take 15 (partial_data it) @ take 1 c @ drop 16 (partial_data it)"
  obtain f1 b1 where f1: "esp_partition_write ?p 4080 ?buf (fl sys) = (ESP_OK, f1)" "ops_left (fl sys) \<le> ops_left f1 + 1"
      "enc_part ?p f1" "\<forall>i. cells f1 i = (if in_range (paddress ?p + 4080) 16 i then cells (fl sys) i AND b1 ! (i - (paddress ?p + 4080)) else cells (fl sys) i)"
    using enc_write_ok [OF p, of 4080 ?buf] it(5) c ops by auto
  define it2 where "it2 = it\<lparr>partial_bytes := 15, partial_data := drop 1 c @ drop 15 (replicate 16 0xFF), wrote_size := 4096\<rparr>"
  have len2: "length (partial_data it2) = 16" using c by (simp add: it2_def)
  have "write_erase it (length c) (fl sys) = (ESP_OK, fl sys)"
    using it c by (simp add: write_erase_def SPI_FLASH_SEC_SIZE_def sz_add_def sz_sub_def)
  moreover have "write_encrypted it c (fl sys) = (ESP_OK, it2, f1)"
    using it c f1(1) enc_write_empty [OF f1(3), of 4096]
    by (simp add: write_encrypted_def save_trailing_def write_rest_def sz_add_def it2_def)
  ultimately have w: "esp_ota_write cfg h (Some c) sys = finish (ESP_OK, it2, f1) sys"
    using it enc c by (auto simp: esp_ota_write_def write_body_def)
  define sys1 where "sys1 = snd (finish (ESP_OK, it2, f1) sys)"
  have h: "handle it = h" using it(1) by (auto simp: get_ota_ops_entry_def find_Some_iff)
  have e: "get_ota_ops_entry h sys1 = Some it2" "fl sys1 = f1"
    using it(1) h find_put_entry [of h "s_ota_ops_entries sys" it it2]
    by (simp_all add: sys1_def finish_def get_ota_ops_entry_def it2_def)
  obtain f2 b2 where f2: "esp_partition_write ?p 4096 (partial_data it2) f1 = (ESP_OK, f2)" "length b2 = 16"
      "\<forall>i. cells f2 i = (if in_range (paddress ?p + 4096) 16 i then cells f1 i AND b2 ! (i - (paddress ?p + 4096)) else cells f1 i)"
    using enc_write_ok [OF f1(3), of 4096 "partial_data it2"] len2 f1(2) ops by auto
  have "fl (snd (esp_ota_end cfg h sys1)) = f2"
    using e f2(1) by (simp add: esp_ota_end_def it2_def close_entry_def Let_def)
  then have "cells (fl (snd (esp_ota_end cfg h sys1))) (paddress ?p + 4096 + k) =
      cells (fl sys) (paddress ?p + 4096 + k) AND b2 ! k" if "k < 16" for k
    using f1(4) f2(3) that by (simp add: in_range_def)
  then show ?thesis using w f2(2) by (intro exI [of _ sys1] exI [of _ b2]) (simp add: sys1_def finish_def)
qed

definition ex_enc_entry :: ota_ops_entry_t where
  "ex_enc_entry = \<lparr>handle = 1, part = ex_slot1_item\<lparr>info := (info ex_slot1_item)\<lparr>encrypted := True\<rparr>\<rparr>,
     need_erase = True, wrote_size = 4080, partial_bytes = 15, partial_data = replicate 16 0\<rparr>"

theorem encrypted_end_programs_unerased_sector_witness:
  "\<exists>sys1. esp_ota_write ((ex_cfg False)\<lparr>flash_encryption := True\<rparr>) 1 (Some (replicate 16 7))
      ((ex_sys (ex_entry 1 0) (ex_entry 2 0) 2)\<lparr>s_ota_ops_entries := [ex_enc_entry],
        fl := (ex_flash (ex_entry 1 0) (ex_entry 2 0) 2)\<lparr>cells := \<lambda>_. 0\<rparr>\<rparr>) = (ESP_OK, sys1) \<and>
    cells (fl (snd (esp_ota_end ((ex_cfg False)\<lparr>flash_encryption := True\<rparr>) 1 sys1))) 0x31003 = 0"
proof -
  let ?sys = "(ex_sys (ex_entry 1 0) (ex_entry 2 0) 2)\<lparr>s_ota_ops_entries := [ex_enc_entry],
        fl := (ex_flash (ex_entry 1 0) (ex_entry 2 0) 2)\<lparr>cells := \<lambda>_. 0\<rparr>\<rparr>"
  let ?cfg = "(ex_cfg False)\<lparr>flash_encryption := True\<rparr>"
  have prem: "get_ota_ops_entry 1 ?sys = Some ex_enc_entry" "need_erase ex_enc_entry" "wrote_size ex_enc_entry = 4080"
      "partial_bytes ex_enc_entry = 15" "length (partial_data ex_enc_entry) = 16"
      "enc_part (info (part ex_enc_entry)) (fl ?sys)" "flash_encryption ?cfg" "length (replicate 16 (7 :: byte)) = 16"
      "2 \<le> ops_left (fl ?sys)"
    by (simp_all add: get_ota_ops_entry_def ex_enc_entry_def enc_part_def unwrapped_def ex_slot1_item_def ex_item_def ex_flash_def)
  have a: "paddress (info (part ex_enc_entry)) + 4096 + 3 = 0x31003"
    by (simp add: ex_enc_entry_def ex_slot1_item_def ex_item_def)
  obtain sys1 blk where r: "esp_ota_write ?cfg 1 (Some (replicate 16 7)) ?sys = (ESP_OK, sys1)" "length blk = 16"
      "\<forall>k < 16. cells (fl (snd (esp_ota_end ?cfg 1 sys1))) (paddress (info (part ex_enc_entry)) + 4096 + k) =
        cells (fl ?sys) (paddress (info (part ex_enc_entry)) + 4096 + k) AND blk ! k"
    using encrypted_end_programs_unerased_sector [OF prem] by blast
  have "cells (fl (snd (esp_ota_end ?cfg 1 sys1))) 0x31003 = cells (fl ?sys) 0x31003 AND blk ! 3"
    using r(3) [rule_format, of 3] unfolding a by simp
  then show ?thesis using r(1) by (intro exI [of _ sys1]) simp
qed

end
