(* ===== verification/Ota_Session.thy ===== *)
theory Ota_Session
  imports Ota_Write_Spec
begin

section \<open>Update sessions never touch the running image\<close>

text \<open>
  The calls on sessions as a step relation. In every reachable state each open session works on a
  partition of the list other than the running one, so that no sequence of calls changes a byte of
  the running partition.
\<close>

inductive ota_step :: "ota_cfg \<Rightarrow> ota_sys \<Rightarrow> ota_sys \<Rightarrow> bool" for cfg where
  step_begin: "esp_ota_begin cfg q image_size out_ok calloc_ok sys = Some (err, h, sys') \<Longrightarrow>
    image_size < 2 ^ 32 \<Longrightarrow> ota_step cfg sys sys'"
| step_write: "esp_ota_write cfg h (Some bs) sys = (err, sys') \<Longrightarrow> length bs < 2 ^ 31 - 8192 \<Longrightarrow> ota_step cfg sys sys'"
| step_write_with_offset: "esp_ota_write_with_offset cfg h (Some bs) off sys = Some (err, sys') \<Longrightarrow>
    length bs < 2 ^ 31 - 8192 \<Longrightarrow> ota_step cfg sys sys'"
| step_abort: "esp_ota_abort h sys = (err, sys') \<Longrightarrow> ota_step cfg sys sys'"
| step_end: "esp_ota_end cfg h sys = (err, sys') \<Longrightarrow> ota_step cfg sys sys'"

inductive_cases ota_stepE: "ota_step cfg sys sys'"

subsection \<open>The invariant\<close>

definition entry_ok :: "partition_list_item_t \<Rightarrow> partition_list_item_t list \<Rightarrow> ota_ops_entry_t \<Rightarrow> bool" where
  "entry_ok r l it \<longleftrightarrow> part it \<in> set l \<and> item_addr (part it) \<noteq> item_addr r \<and>
     (need_erase it \<longrightarrow> wrote_size it \<le> psize (info (part it))) \<and> length (partial_data it) = 16 \<and> partial_bytes it \<le> 16"

definition sys_inv :: "ota_cfg \<Rightarrow> partition_list_item_t \<Rightarrow> ota_sys \<Rightarrow> bool" where
  "sys_inv cfg r sys \<longleftrightarrow> list_inv (s_partition_list sys) \<and> (\<forall>p \<in> set (s_partition_list sys). flash_chip (info p) = 0) \<and>
     r \<in> set (s_partition_list sys) \<and> map_option fst (esp_ota_get_running_partition cfg sys) = Some r \<and>
     hw_len (fl sys) \<and> (\<forall>it \<in> set (s_ota_ops_entries sys). entry_ok r (s_partition_list sys) it)"

text \<open>What one session may do: work inside its partition and stay as it is otherwise.\<close>

definition entry_step :: "ota_ops_entry_t \<Rightarrow> flash_dev \<Rightarrow> ota_ops_entry_t \<times> flash_dev \<Rightarrow> bool" where
  "entry_step it f r \<longleftrightarrow> confined (info (part it)) f (snd r) \<and> part (fst r) = part it \<and> need_erase (fst r) = need_erase it \<and>
     handle (fst r) = handle it \<and>
     (length (partial_data it) = 16 \<and> partial_bytes it \<le> 16 \<longrightarrow>
        length (partial_data (fst r)) = 16 \<and> partial_bytes (fst r) \<le> 16) \<and>
     (need_erase it \<and> wrote_size it \<le> psize (info (part it)) \<longrightarrow> wrote_size (fst r) \<le> psize (info (part it)))"

lemma entry_step_trans:
  "entry_step it f (it1, f1) \<Longrightarrow> entry_step it1 f1 r \<Longrightarrow> entry_step it f r"
  by (auto simp: entry_step_def intro: confined_trans)

text \<open>A write at an offset beyond the partition does nothing, so its end does not wrap around.\<close>

lemma write_confined:
  assumes "placed p" and "length src < 2 ^ 31" and "hw_len f"
  shows "confined p f (snd (esp_partition_write p off src f))"
proof (cases "off \<le> psize p")
  case True
  then have "off + length src < 2 ^ 32" using assms(1,2) by (simp add: placed_def)
  then show ?thesis using partition_write_confined [of off src f p] assms(3) placed_unwrapped [OF assms(1)] by simp
next
  case False
  then show ?thesis by (simp add: esp_partition_write_def range_check_def)
qed

lemma write_fits:
  assumes "esp_partition_write p off src f = (ESP_OK, f')" and "placed p" and "length src < 2 ^ 31"
  shows "sz_add off (length src) \<le> psize p"
  using assms by (auto simp: esp_partition_write_def range_check_def split: if_splits)

lemma write_rest_step:
  assumes "placed (info (part it))" and "length data < 2 ^ 31" and "hw_len f" and "write_rest it data f = (err, r)"
  shows "entry_step it f r"
proof -
  obtain ret f1 where w: "esp_partition_write (info (part it)) (wrote_size it) data f = (ret, f1)" by fastforce
  have "confined (info (part it)) f f1" using write_confined [OF assms(1-3), of "wrote_size it"] w by simp
  moreover have "sz_add (wrote_size it) (length data) \<le> psize (info (part it))" if "ret = ESP_OK"
    using write_fits [OF w [unfolded that] assms(1,2)] .
  ultimately show ?thesis
    using assms(4) w by (cases "ret = ESP_OK") (auto simp: write_rest_def entry_step_def)
qed

lemma save_trailing_step:
  assumes "placed (info (part it))" and "length data < 2 ^ 31" and "hw_len f" and "save_trailing it data f = (err, r)"
  shows "entry_step it f r"
proof -
  let ?r = "length data mod 16" and ?n = "length data - length data mod 16"
  let ?it = "it\<lparr>partial_bytes := ?r, partial_data := (if ?r = 0 then partial_data it else drop ?n data @ drop ?r (partial_data it))\<rparr>"
  have r: "?r < 16" "?r \<le> length data" by (simp_all add: mod_less_eq_dividend)
  have "entry_step it f (?it, f)"
    using r by (auto simp: entry_step_def)
  moreover have "entry_step ?it f r"
    using write_rest_step [of ?it "take ?n data" f err r] assms by (simp add: save_trailing_def Let_def)
  ultimately show ?thesis by (rule entry_step_trans)
qed

lemma write_encrypted_step:
  assumes p: "placed (info (part it))" and l: "length data < 2 ^ 31" and hw: "hw_len f"
    and b: "length (partial_data it) = 16" "partial_bytes it \<le> 16" and w: "write_encrypted it data f = (err, r)"
  shows "entry_step it f r"
proof (cases "partial_bytes it = 0")
  case True
  then show ?thesis using save_trailing_step [OF p l hw] w by (simp add: write_encrypted_def)
next
  case False
  define n where "n = min (16 - partial_bytes it) (length data)"
  define it1 where "it1 = it\<lparr>partial_data := take (partial_bytes it) (partial_data it) @ take n data @
      drop (partial_bytes it + n) (partial_data it), partial_bytes := partial_bytes it + n\<rparr>"
  have s1: "entry_step it f (it1, f)" using b by (auto simp: entry_step_def it1_def n_def)
  have b1: "length (partial_data it1) = 16" using s1 b by (simp add: entry_step_def)
  obtain ret f1 where wr: "esp_partition_write (info (part it1)) (wrote_size it1) (partial_data it1) f = (ret, f1)" by fastforce
  have c1: "confined (info (part it1)) f f1"
    using write_confined [of "info (part it1)" "partial_data it1" f "wrote_size it1"] p hw wr b1 by (simp add: it1_def)
  define it2 where "it2 = it1\<lparr>partial_bytes := 0, partial_data := replicate 16 0xFF, wrote_size := sz_add (wrote_size it1) 16\<rparr>"
  have s2: "entry_step it1 f (it2, f1)" if "ret = ESP_OK"
    using c1 write_fits [OF wr [unfolded that]] p b1 by (simp add: entry_step_def it2_def it1_def)
  have s2': "entry_step it1 f (it1, f1)" using c1 by (simp add: entry_step_def)
  have hw1: "hw_len f1" using confined_hw_len [OF c1 hw] .
  have p2: "placed (info (part it2))" using p by (simp add: it2_def it1_def)
  have "write_encrypted it data f =
      (if partial_bytes it1 \<noteq> 16 then (ESP_OK, it1, f)
       else if ret \<noteq> ESP_OK then (ret, it1, f1) else save_trailing it2 (drop n data) f1)"
    unfolding write_encrypted_def Let_def unfolding n_def [symmetric] unfolding it1_def [symmetric]
    unfolding wr prod.case unfolding it2_def [symmetric] using False by (simp only: if_False)
  then consider "partial_bytes it1 \<noteq> 16" "r = (it1, f)" | "ret \<noteq> ESP_OK" "r = (it1, f1)"
    | "ret = ESP_OK" "save_trailing it2 (drop n data) f1 = (err, r)"
    using w by (auto split: if_splits)
  then show ?thesis
  proof cases
    case 1
    then show ?thesis using s1 by simp
  next
    case 2
    then show ?thesis using entry_step_trans [OF s1 s2'] by simp
  next
    case 3
    then show ?thesis
      using entry_step_trans [OF entry_step_trans [OF s1 s2]] save_trailing_step [OF p2 _ hw1 3(2)] l by simp
  qed
qed

lemma sz_mul_le: "sz_mul a b \<le> a * b"
  by (simp add: sz_mul_def)

lemma sz_add_le: "sz_add a b \<le> a + b"
  by (simp add: sz_add_def)

lemma write_erase_confined:
  assumes p: "placed (info (part it))" and w: "need_erase it \<longrightarrow> wrote_size it \<le> psize (info (part it))"
    and n: "0 < n" "n < 2 ^ 31 - 8192"
  shows "confined (info (part it)) f (snd (write_erase it n f))"
proof (cases "need_erase it")
  case False
  then show ?thesis by (simp add: write_erase_def)
next
  case True
  let ?w = "wrote_size it"
  define a where "a = ?w div 4096"
  define b where "b = sz_sub (sz_add ?w n) 1 div 4096"
  have w31: "?w < 2 ^ 31" using w True p by (auto simp: placed_def)
  have "sz_sub (sz_add ?w n) 1 = ?w + n - 1" using w31 n by (simp add: sz_add_exact sz_sub_exact)
  then have bd: "b = (?w + n - 1) div 4096" by (simp add: b_def)
  have ab: "a \<le> b" unfolding a_def bd using n by (intro div_le_mono) simp
  have bw: "b * 4096 \<le> ?w + n - 1" unfolding bd by (rule div_times_less_eq_dividend)
  have aw: "a * 4096 \<le> ?w" unfolding a_def by (rule div_times_less_eq_dividend)
  have s: "sz_sub b a = b - a" using ab bw w31 n by (intro sz_sub_exact) simp_all
  have m1: "sz_mul (sz_add (b - a) 1) 4096 \<le> (b - a + 1) * 4096"
    using sz_mul_le [of "sz_add (b - a) 1" 4096] mult_le_mono1 [OF sz_add_le [of "b - a" 1], of 4096] by (rule order_trans)
  have m2: "sz_mul (a + 1) 4096 \<le> (a + 1) * 4096" "sz_mul (b - a) 4096 \<le> (b - a) * 4096" by (rule sz_mul_le)+
  have "?w + sz_mul (sz_add (b - a) 1) 4096 < 2 ^ 32" if "?w mod 4096 = 0"
  proof -
    have "?w = a * 4096" using that div_mult_mod_eq [of ?w 4096] by (simp add: a_def)
    then show ?thesis using m1 bw w31 n by (simp add: algebra_simps)
  qed
  moreover have "sz_mul (a + 1) 4096 + sz_mul (b - a) 4096 < 2 ^ 32"
    using m2 ab bw aw w31 n by (simp add: algebra_simps)
  ultimately show ?thesis
    unfolding write_erase_def SPI_FLASH_SEC_SIZE_def Let_def unfolding a_def [symmetric] b_def [symmetric] s
    using True placed_unwrapped [OF p] by (simp add: partition_erase_confined)
qed

lemma write_body_step_ok:
  assumes p: "placed (info (part it))" and c: "c \<noteq> []" "length c < 2 ^ 31 - 8192" and hw: "hw_len f"
    and w: "need_erase it \<longrightarrow> wrote_size it \<le> psize (info (part it))"
    and b: "length (partial_data it) = 16" "partial_bytes it \<le> 16" and wb: "write_body cfg it c f = (err, r)"
  shows "entry_step it f r"
proof -
  obtain ret f1 where e: "write_erase it (length c) f = (ret, f1)" by fastforce
  have cf: "confined (info (part it)) f f1" using write_erase_confined [OF p w, of "length c" f] c e by simp
  have s1: "entry_step it f (it, f1)" using cf by (simp add: entry_step_def)
  have "r = (it, f1) \<or> write_encrypted it c f1 = (err, r) \<or> write_rest it c f1 = (err, r)"
    using wb e by (auto simp: write_body_def split: if_splits)
  moreover have "entry_step it f1 r" if "write_encrypted it c f1 = (err, r)"
    using write_encrypted_step [OF p _ confined_hw_len [OF cf hw] b that] c by simp
  moreover have "entry_step it f1 r" if "write_rest it c f1 = (err, r)"
    using write_rest_step [OF p _ confined_hw_len [OF cf hw] that] c by simp
  ultimately show ?thesis using s1 entry_step_trans [OF s1] by blast
qed

subsection \<open>The calls keep the invariant\<close>

lemma running_fixed:
  assumes "map_option fst (esp_ota_get_running_partition cfg sys) = Some r"
  obtains sys1 where "esp_ota_get_running_partition cfg sys = Some (r, sys1)"
    and "sys1 = sys \<or> sys1 = sys\<lparr>curr_partition := Some r\<rparr>"
  using assms by (auto simp: esp_ota_get_running_partition_def split: option.splits)

lemma running_same:
  "s_partition_list sys' = s_partition_list sys \<Longrightarrow> curr_partition sys' = curr_partition sys \<Longrightarrow>
   map_option fst (esp_ota_get_running_partition cfg sys') = map_option fst (esp_ota_get_running_partition cfg sys)"
  by (simp add: esp_ota_get_running_partition_def split: option.splits)

lemma sys_inv_update:
  assumes "sys_inv cfg r sys" and "hw_len f" and "\<forall>it \<in> set es. entry_ok r (s_partition_list sys) it"
  shows "sys_inv cfg r (sys\<lparr>fl := f, s_ota_ops_entries := es\<rparr>)"
  using assms running_same [of "sys\<lparr>fl := f, s_ota_ops_entries := es\<rparr>" sys cfg] by (simp add: sys_inv_def)

lemma set_put_entry: "set (put_entry it xs) \<subseteq> insert it (set xs)"
  by (induction xs) auto

lemma set_remove_entry: "set (remove_entry h xs) \<subseteq> set xs"
  by (induction xs) auto

text \<open>The running partition lies outside every other one.\<close>

lemma sorted_wrt_pair:
  assumes "sorted_wrt R xs" and "x \<in> set xs" "y \<in> set xs" "x \<noteq> y"
  shows "R x y \<or> R y x"
  using assms by (induction xs) auto

lemma apart_outside:
  assumes inv: "list_inv l" and "\<forall>p \<in> set l. flash_chip (info p) = 0" and "p \<in> set l" "r \<in> set l"
    and "item_addr p \<noteq> item_addr r" and i: "paddress (info r) \<le> i" "i < paddress (info r) + psize (info r)"
  shows "outside (info p) i"
proof -
  have "p \<noteq> r" using assms(5) by auto
  then have "apart (info p) (info r) \<or> apart (info r) (info p)"
    using sorted_wrt_pair [of "\<lambda>a b. apart (info a) (info b)" l p r] inv assms(3,4) by (simp add: list_inv_def)
  then show ?thesis using assms(2-4) i by (auto simp: apart_def outside_def)
qed

text \<open>A step of one session from a state with the invariant.\<close>

definition keeps :: "ota_cfg \<Rightarrow> partition_list_item_t \<Rightarrow> ota_sys \<Rightarrow> ota_sys \<Rightarrow> bool" where
  "keeps cfg r sys sys' \<longleftrightarrow> sys_inv cfg r sys' \<and>
     (\<forall>i. paddress (info r) \<le> i \<and> i < paddress (info r) + psize (info r) \<longrightarrow> cells (fl sys') i = cells (fl sys) i)"

lemma entry_step_keeps:
  assumes inv: "sys_inv cfg r sys" and it: "it \<in> set (s_ota_ops_entries sys)" and s: "entry_step it (fl sys) (it', f')"
    and es: "set es \<subseteq> insert it' (set (s_ota_ops_entries sys))"
  shows "keeps cfg r sys (sys\<lparr>fl := f', s_ota_ops_entries := es\<rparr>)"
proof -
  have ok: "entry_ok r (s_partition_list sys) it" using inv it by (simp add: sys_inv_def)
  then have ok': "entry_ok r (s_partition_list sys) it'" using s by (auto simp: entry_ok_def entry_step_def)
  have "hw_len f'" using s inv confined_hw_len by (auto simp: entry_step_def sys_inv_def)
  moreover have "\<forall>x \<in> set es. entry_ok r (s_partition_list sys) x"
    using es ok' inv by (auto simp: sys_inv_def)
  ultimately have "sys_inv cfg r (sys\<lparr>fl := f', s_ota_ops_entries := es\<rparr>)" using sys_inv_update [OF inv] by blast
  moreover have "outside (info (part it)) i" if "paddress (info r) \<le> i" "i < paddress (info r) + psize (info r)" for i
    using apart_outside [OF _ _ _ _ _ that, of "s_partition_list sys"] ok inv by (auto simp: sys_inv_def entry_ok_def)
  ultimately show ?thesis using s by (auto simp: keeps_def entry_step_def confined_def)
qed

lemma find_in_set: "get_ota_ops_entry h sys = Some it \<Longrightarrow> it \<in> set (s_ota_ops_entries sys)"
  by (auto simp: get_ota_ops_entry_def find_Some_iff)

lemma entry_facts:
  assumes "sys_inv cfg r sys" and "it \<in> set (s_ota_ops_entries sys)"
  shows "placed (info (part it))" and "need_erase it \<longrightarrow> wrote_size it \<le> psize (info (part it))"
    and "length (partial_data it) = 16" and "partial_bytes it \<le> 16" and "hw_len (fl sys)"
  using assms by (auto simp: sys_inv_def entry_ok_def list_inv_def)

lemma keeps_running_refl: "sys_inv cfg r sys \<Longrightarrow> keeps cfg r sys sys"
  by (simp add: keeps_def)

lemma write_keeps:
  assumes inv: "sys_inv cfg r sys" and w: "esp_ota_write cfg h (Some bs) sys = (err, sys')" and l: "length bs < 2 ^ 31 - 8192"
  shows "keeps cfg r sys sys'"
proof (cases "bs = [] \<or> get_ota_ops_entry h sys = None")
  case True
  then have "sys' = sys" using w by (auto simp: esp_ota_write_def split: if_splits)
  then show ?thesis using inv by (simp add: keeps_running_refl)
next
  case False
  then obtain it where it: "get_ota_ops_entry h sys = Some it" by auto
  obtain e it' f' where wb: "write_body cfg it bs (fl sys) = (e, it', f')" by (metis prod_cases3)
  note f = entry_facts [OF inv find_in_set [OF it]]
  have "entry_step it (fl sys) (it', f')"
    using write_body_step_ok [OF f(1) _ l f(5) f(2-4) wb] False by simp
  moreover have "sys' = sys\<lparr>fl := f', s_ota_ops_entries := put_entry it' (s_ota_ops_entries sys)\<rparr>"
    using w False it wb by (simp add: esp_ota_write_def finish_def)
  ultimately show ?thesis using entry_step_keeps [OF inv find_in_set [OF it]] set_put_entry by simp
qed

lemma write_with_offset_keeps:
  assumes inv: "sys_inv cfg r sys" and w: "esp_ota_write_with_offset cfg h (Some bs) off sys = Some (err, sys')"
    and l: "length bs < 2 ^ 31 - 8192"
  shows "keeps cfg r sys sys'"
proof (cases "get_ota_ops_entry h sys")
  case None
  then have "sys' = sys" using w by (simp add: esp_ota_write_with_offset_def)
  then show ?thesis using inv by (simp add: keeps_running_refl)
next
  case (Some it)
  note f = entry_facts [OF inv find_in_set [OF Some]]
  obtain ret f1 where pw: "esp_partition_write (info (part it)) off bs (fl sys) = (ret, f1)" by fastforce
  have cf: "confined (info (part it)) (fl sys) f1" using write_confined [OF f(1) _ f(5), of bs off] l pw by simp
  have ne: "\<not> need_erase it" using w Some by (auto simp: esp_ota_write_with_offset_def split: if_splits)
  let ?it = "if ret = ESP_OK then it\<lparr>wrote_size := sz_add (wrote_size it) (length bs)\<rparr> else it"
  have "sys' = sys \<or> sys' = sys\<lparr>fl := f1, s_ota_ops_entries := put_entry ?it (s_ota_ops_entries sys)\<rparr>"
    using w Some pw by (auto simp: esp_ota_write_with_offset_def finish_def split: if_splits)
  moreover have "entry_step it (fl sys) (?it, f1)" using cf ne by (simp add: entry_step_def)
  ultimately show ?thesis
    using entry_step_keeps [OF inv find_in_set [OF Some] _ set_put_entry] keeps_running_refl [OF inv] by blast
qed

lemma close_keeps:
  assumes inv: "sys_inv cfg r sys" and it: "get_ota_ops_entry h sys = Some it" and c: "confined (info (part it)) (fl sys) f"
  shows "keeps cfg r sys (close_entry h (sys\<lparr>fl := f\<rparr>))"
  using entry_step_keeps [OF inv find_in_set [OF it], of it f "remove_entry h (s_ota_ops_entries sys)"] c
    set_remove_entry [of h "s_ota_ops_entries sys"]
  by (auto simp: close_entry_def entry_step_def)

lemma abort_keeps:
  assumes inv: "sys_inv cfg r sys" and "esp_ota_abort h sys = (err, sys')"
  shows "keeps cfg r sys sys'"
  using assms keeps_running_refl [OF inv] close_keeps [OF inv, of h _ "fl sys"]
  by (auto simp: esp_ota_abort_def split: option.splits)

lemma end_keeps:
  assumes inv: "sys_inv cfg r sys" and e: "esp_ota_end cfg h sys = (err, sys')"
  shows "keeps cfg r sys sys'"
proof (cases "get_ota_ops_entry h sys")
  case None
  then show ?thesis using e keeps_running_refl [OF inv] by (simp add: esp_ota_end_def)
next
  case (Some it)
  note f = entry_facts [OF inv find_in_set [OF Some]]
  obtain ret f1 where w: "esp_partition_write (info (part it)) (wrote_size it) (partial_data it) (fl sys) = (ret, f1)" by fastforce
  have "confined (info (part it)) (fl sys) f1"
    using write_confined [OF f(1) _ f(5), of "partial_data it" "wrote_size it"] f(3) w by simp
  moreover have "sys' = close_entry h (sys\<lparr>fl := fl sys\<rparr>) \<or> sys' = close_entry h (sys\<lparr>fl := f1\<rparr>)"
    using e Some w by (auto simp: esp_ota_end_def Let_def split: if_splits)
  ultimately show ?thesis
    using close_keeps [OF inv Some] confined_refl by metis
qed

text \<open>Opening a session erases at most the verified partition, which is not the running one.\<close>

lemma verify_in_list:
  "verify_loaded q l = Some p \<Longrightarrow> p \<in> set l"
  by (auto simp: verify_loaded_def verify_loop_visited visited_find find_Some_iff in_set_conv_nth
      dest!: nth_mem split: if_splits)

lemma begin_result:
  assumes "esp_ota_begin cfg q n out_ok calloc_ok sys = Some (err, h, sys')"
    and "esp_ota_get_running_partition cfg sys = Some (r, sys1)"
  obtains "sys' = sys" | "sys' = sys1"
  | p where "p \<in> set (s_partition_list sys)" and "item_addr p \<noteq> item_addr r"
    and "sys' = sys1\<lparr>fl := snd (begin_erase (info p) n (fl sys1))\<rparr>"
  | p h0 where "p \<in> set (s_partition_list sys)" and "item_addr p \<noteq> item_addr r"
    and "sys' = sys1\<lparr>fl := snd (begin_erase (info p) n (fl sys1)),
      s_ota_ops_entries := \<lparr>handle = h0, part = p, need_erase = (n = OTA_WITH_SEQUENTIAL_WRITES),
        wrote_size = 0, partial_bytes = 0, partial_data = replicate 16 0\<rparr> # s_ota_ops_entries sys1,
      s_ota_ops_last_handle := h0\<rparr>"
  using assms
  by (auto simp: esp_ota_begin_def lift_flash_def Let_def split: option.splits if_splits
      dest!: bind_eq_SomeD verify_in_list)

lemma begin_erase_confined: "placed p \<Longrightarrow> n < 2 ^ 32 \<Longrightarrow> confined p f (snd (begin_erase p n f))"
proof -
  assume p: "placed p" and n: "n < 2 ^ 32"
  have "0 + sz_add n (SPI_FLASH_SEC_SIZE - 1) div SPI_FLASH_SEC_SIZE * SPI_FLASH_SEC_SIZE < 2 ^ 32"
    using sz_add_less [of n "SPI_FLASH_SEC_SIZE - 1"]
      div_times_less_eq_dividend [of "sz_add n (SPI_FLASH_SEC_SIZE - 1)" SPI_FLASH_SEC_SIZE] by linarith
  moreover have "0 + psize p < 2 ^ 32" using p by (simp add: placed_def)
  ultimately show ?thesis using placed_unwrapped [OF p] by (simp add: begin_erase_def partition_erase_confined)
qed

lemma begin_keeps:
  assumes inv: "sys_inv cfg r sys" and b: "esp_ota_begin cfg q n out_ok calloc_ok sys = Some (err, h, sys')"
    and n: "n < 2 ^ 32"
  shows "keeps cfg r sys sys'"
proof -
  obtain sys1 where s1: "esp_ota_get_running_partition cfg sys = Some (r, sys1)"
      "sys1 = sys \<or> sys1 = sys\<lparr>curr_partition := Some r\<rparr>"
    using inv running_fixed [of cfg sys r] by (auto simp: sys_inv_def)
  have inv1: "sys_inv cfg r sys1"
    using inv s1(2) by (auto simp: sys_inv_def esp_ota_get_running_partition_def)
  have same: "fl sys1 = fl sys" "s_partition_list sys1 = s_partition_list sys" using s1(2) by auto
  have part: "confined (info p) (fl sys1) (snd (begin_erase (info p) n (fl sys1))) \<and>
      (\<forall>i. paddress (info r) \<le> i \<and> i < paddress (info r) + psize (info r) \<longrightarrow> outside (info p) i)"
    if "p \<in> set (s_partition_list sys)" "item_addr p \<noteq> item_addr r" for p
    using begin_erase_confined [of "info p" n "fl sys1"] apart_outside [of "s_partition_list sys" p r] that inv n
    by (auto simp: sys_inv_def list_inv_def)
  have lh: "sys_inv cfg r (s\<lparr>s_ota_ops_last_handle := k\<rparr>) = sys_inv cfg r s" for s k
    using running_same [of "s\<lparr>s_ota_ops_last_handle := k\<rparr>" s cfg] by (simp add: sys_inv_def)
  from b s1(1) show ?thesis
  proof (cases rule: begin_result)
    case 1
    then show ?thesis using keeps_running_refl [OF inv] by simp
  next
    case 2
    then show ?thesis using inv1 same by (simp add: keeps_def)
  next
    case (3 p)
    then show ?thesis
      using part [OF 3(1,2)] sys_inv_update [OF inv1, of "snd (begin_erase (info p) n (fl sys1))" "s_ota_ops_entries sys1"]
        inv1 same confined_hw_len
      by (auto simp: keeps_def confined_def sys_inv_def)
  next
    case (4 p h0)
    let ?it = "\<lparr>handle = h0, part = p, need_erase = (n = OTA_WITH_SEQUENTIAL_WRITES), wrote_size = 0,
        partial_bytes = 0, partial_data = replicate 16 0\<rparr>"
    have "hw_len (snd (begin_erase (info p) n (fl sys1)))"
      using part [OF 4(1,2)] confined_hw_len inv1 by (auto simp: sys_inv_def)
    moreover have "\<forall>it \<in> set (?it # s_ota_ops_entries sys1). entry_ok r (s_partition_list sys1) it"
      using inv1 4(1,2) same by (simp add: sys_inv_def entry_ok_def)
    ultimately have "sys_inv cfg r sys'" unfolding 4(3) lh by (rule sys_inv_update [OF inv1])
    then show ?thesis using part [OF 4(1,2)] 4(3) same by (auto simp: keeps_def confined_def)
  qed
qed

lemma step_keeps: "ota_step cfg sys sys' \<Longrightarrow> sys_inv cfg r sys \<Longrightarrow> keeps cfg r sys sys'"
  by (induction rule: ota_step.induct)
    (blast intro: begin_keeps write_keeps write_with_offset_keeps abort_keeps end_keeps)+

text \<open>
  Claim C17. No sequence of session calls (begin, write, write with offset, abort, end; successful or
  not, with power failures of the flash in between) changes a byte of the running partition, when the
  partitions of the table are disjoint.
\<close>

theorem sessions_never_touch_running_image:
  assumes "sys_inv cfg r sys" and "(ota_step cfg)\<^sup>*\<^sup>* sys sys'"
    and "paddress (info r) \<le> i" and "i < paddress (info r) + psize (info r)"
  shows "cells (fl sys') i = cells (fl sys) i \<and> sys_inv cfg r sys'"
  using assms(2)
proof (induction rule: rtranclp_induct)
  case base
  then show ?case using assms(1) by simp
next
  case (step y z)
  then show ?case using step_keeps [OF step.hyps(2), of r] assms(3,4) by (simp add: keeps_def)
qed

theorem sessions_never_touch_running_image_witness:
  "\<exists>h sys1. esp_ota_begin (ex_cfg False) (Some ex_slot1) OTA_WITH_SEQUENTIAL_WRITES True True
      (ex_sys (ex_entry 1 ESP_OTA_IMG_VALID) (ex_entry 2 ESP_OTA_IMG_VALID) 4) = Some (ESP_OK, Some h, sys1) \<and>
    cells (fl sys1) 0x20000 = 0xFF"
proof -
  let ?sys = "ex_sys (ex_entry 1 ESP_OTA_IMG_VALID) (ex_entry 2 ESP_OTA_IMG_VALID) 4"
  let ?r = "ex_item 3 0 0x10 0x20000 0x10000"
  obtain h sys1 where b: "esp_ota_begin (ex_cfg False) (Some ex_slot1) OTA_WITH_SEQUENTIAL_WRITES True True ?sys =
      Some (ESP_OK, Some h, sys1)" using ex_begin by blast
  have l: "s_partition_list ?sys = ex_list" "s_ota_ops_entries ?sys = []" "hw_len (fl ?sys)" "cells (fl ?sys) 0x20000 = 0xFF"
    by (simp_all add: ex_sys_def ex_flash_def hw_len_def in_range_def)
  have li: "list_inv ex_list" "\<forall>p \<in> set ex_list. flash_chip (info p) = 0"
    by (simp_all add: list_inv_def ex_list_def ex_otaitem_def ex_item_def placed_def apart_def)
  have "sys_inv (ex_cfg False) ?r ?sys"
    unfolding sys_inv_def l(1,2) using l(3) li by (simp add: ex_running) (simp add: ex_list_def)
  moreover have "(ota_step (ex_cfg False))\<^sup>*\<^sup>* ?sys sys1"
    using step_begin [OF b] by (simp add: ota_sizes r_into_rtranclp)
  moreover have "paddress (info ?r) \<le> 0x20000" "0x20000 < paddress (info ?r) + psize (info ?r)"
    by (simp_all add: ex_item_def)
  ultimately have "cells (fl sys1) 0x20000 = cells (fl ?sys) 0x20000"
    using sessions_never_touch_running_image [of "ex_cfg False" ?r ?sys sys1 "0x20000"] by blast
  then show ?thesis using b l(4) by auto
qed

end
