(* ===== verification/Boot_Spec.thy ===== *)
theory Boot_Spec
  imports Ota_Write_Spec
begin

section \<open>Properties of the boot loader and of slot bookkeeping\<close>

text \<open>
  The next slot to update, the fallback order of the boot loader, the label list of a factory reset
  and the count of OTA partitions.
\<close>

subsection \<open>The next slot to update\<close>

lemma next_update_default:
  "\<forall>x \<in> set ps. item_addr x \<noteq> item_addr s \<Longrightarrow>
   next_update_loop ps s d False = (if d = None then (case ps of [] \<Rightarrow> None | p # _ \<Rightarrow> Some p) else d)"
  by (induction ps arbitrary: d) (auto simp: Let_def split: list.splits)

lemma next_update_after:
  assumes "\<forall>x \<in> set xs. item_addr x \<noteq> item_addr s" and "item_addr y = item_addr s"
    and "\<forall>z \<in> set zs. item_addr z \<noteq> item_addr s"
  shows "next_update_loop (xs @ y # zs) s d False =
    (case zs of z # _ \<Rightarrow> Some z | [] \<Rightarrow> if d = None then Some (hd (xs @ [y])) else d)"
  using assms(1)
proof (induction xs arbitrary: d)
  case Nil
  then show ?case using assms(2,3) by (cases zs) (auto simp: Let_def)
next
  case (Cons x xs)
  then show ?case by (auto simp: Let_def split: list.splits)
qed

lemma next_update_nth:
  assumes "distinct (map item_addr ps)" and k: "k < length ps" "item_addr s = item_addr (ps ! k)"
  shows "next_update_loop ps s None False = Some (ps ! (Suc k mod length ps))"
proof -
  have ps: "ps = take k ps @ ps ! k # drop (Suc k) ps" using k(1) by (rule id_take_nth_drop)
  have d: "distinct (map item_addr (take k ps @ ps ! k # drop (Suc k) ps))" using assms(1) ps by simp
  have "next_update_loop (take k ps @ ps ! k # drop (Suc k) ps) s None False =
      (case drop (Suc k) ps of z # _ \<Rightarrow> Some z | [] \<Rightarrow> Some (hd (take k ps @ [ps ! k])))"
  proof (subst next_update_after)
    show "\<forall>x \<in> set (take k ps). item_addr x \<noteq> item_addr s" "\<forall>z \<in> set (drop (Suc k) ps). item_addr z \<noteq> item_addr s"
      using d k(2) by (force simp: image_iff)+
  qed (use k(2) in \<open>auto split: list.splits\<close>)
  also have "\<dots> = Some (ps ! (Suc k mod length ps))"
  proof (cases "Suc k < length ps")
    case True
    then show ?thesis by (simp add: Cons_nth_drop_Suc [symmetric])
  next
    case False
    then have "Suc k = length ps" using k(1) by simp
    then show ?thesis by (cases ps) (auto simp: hd_append take_Cons')
  qed
  finally show ?thesis using ps by simp
qed

text \<open>
  From a running OTA slot, the next update partition is the cyclic successor of the running
  one among the OTA partitions; so with two or more slots it is never the running partition.
\<close>

theorem next_update_partition_is_successor:
  assumes run: "esp_ota_get_running_partition cfg sys = Some (r, sys1)" and "s_partition_list sys1 = s_partition_list sys"
    and d: "distinct (map item_addr (ota_partitions sys))"
    and k: "k < length (ota_partitions sys)" "item_addr r = item_addr (ota_partitions sys ! k)"
    and two: "2 \<le> length (ota_partitions sys)"
  shows "\<exists>p. esp_ota_get_next_update_partition cfg None sys = Some (Some p, sys1) \<and>
    p = ota_partitions sys ! (Suc k mod length (ota_partitions sys)) \<and> item_addr p \<noteq> item_addr r"
proof -
  let ?ps = "ota_partitions sys" and ?m = "Suc k mod length (ota_partitions sys)"
  have "ota_partitions sys1 = ?ps" using assms(2) by (simp add: ota_partitions_def find_app_def)
  then have "esp_ota_get_next_update_partition cfg None sys = Some (Some (?ps ! ?m), sys1)"
    using run next_update_nth [OF d k] by (simp add: esp_ota_get_next_update_partition_def)
  moreover have m: "?m < length ?ps" "?m \<noteq> k" using k(1) two by (auto simp: mod_Suc)
  moreover have "map item_addr ?ps ! ?m \<noteq> map item_addr ?ps ! k"
    using d k(1) m nth_eq_iff_index_eq by (metis length_map)
  ultimately show ?thesis using k by simp
qed

lemma ex_ota_partitions:
  "ota_partitions (ex_sys e0 e1 ops) = [ex_item 3 0 0x10 0x20000 0x10000, ex_item 4 0 0x11 0x30000 0x10000]"
proof -
  have u: "[16..<32] = [16, 17] @ [18..<32::nat]" by (simp add: upt_rec)
  have "find_app st (ex_sys e0 e1 ops) = None" if "18 \<le> st" "st < 32" for st
    using that by (simp add: find_app_find part_consts ex_sys_def ex_list_def ex_otaitem_def ex_item_def part_matches_def)
  then have "List.map_filter (\<lambda>st. find_app st (ex_sys e0 e1 ops)) [18..<32] = []"
    by (auto simp: List.map_filter_def filter_empty_conv)
  moreover have "find_app 16 (ex_sys e0 e1 ops) = Some (ex_item 3 0 0x10 0x20000 0x10000)"
    "find_app 17 (ex_sys e0 e1 ops) = Some (ex_item 4 0 0x11 0x30000 0x10000)"
    by (simp_all add: find_app_find part_consts ex_sys_def ex_list_def ex_otaitem_def ex_item_def part_matches_def)
  ultimately show ?thesis
    unfolding ota_partitions_def ESP_PARTITION_SUBTYPE_APP_OTA_MIN_def ESP_PARTITION_SUBTYPE_APP_OTA_MAX_def u
    by (simp add: List.map_filter_def)
qed

theorem next_update_partition_is_successor_witness:
  "\<exists>p sys1. esp_ota_get_next_update_partition (ex_cfg False) None (ex_sys (ex_entry 1 0) (ex_entry 2 0) 0) = Some (Some p, sys1) \<and>
     p = ex_item 4 0 0x11 0x30000 0x10000"
proof -
  let ?sys = "ex_sys (ex_entry 1 0) (ex_entry 2 0) 0"
  have a: "item_addr (ex_item n t st b z) = n" for n t st b z by (simp add: ex_item_def)
  have prem: "s_partition_list (?sys\<lparr>curr_partition := Some (ex_item 3 0 0x10 0x20000 0x10000)\<rparr>) = s_partition_list ?sys"
      "distinct (map item_addr (ota_partitions ?sys))" "0 < length (ota_partitions ?sys)"
      "item_addr (ex_item 3 0 0x10 0x20000 0x10000) = item_addr (ota_partitions ?sys ! 0)" "2 \<le> length (ota_partitions ?sys)"
    by (simp_all add: ex_ota_partitions a)
  show ?thesis
    using next_update_partition_is_successor [OF ex_running prem] by (auto simp: ex_ota_partitions)
qed

subsection \<open>Fallback order\<close>

lemma try_no_pos: "\<not> try_load_partition load no_pos f"
  by (simp add: try_load_partition_def no_pos_def)

lemma tried_indices:
  assumes "FACTORY_INDEX \<le> s" and "s < int (app_count bs)"
  shows "set (down_indices s @ up_indices s bs) = {FACTORY_INDEX..int (app_count bs) - 1}"
  using assms by (auto simp: down_indices_def up_indices_def)

text \<open>
  Claim C18. Starting from the factory index or a slot, the boot loader boots an application exactly when
  the factory partition, a slot or the test partition holds a loadable image, and what it boots is
  loadable; the selected partition itself is booted if it loads. Otherwise it resets.
\<close>

theorem boot_loader_boots_if_possible:
  assumes s: "FACTORY_INDEX \<le> start" "start < int (app_count bs)"
  shows "(\<exists>i f'. bootloader_utility_load_boot_image cfg load bs start initial f = BootApp i f' \<and>
      try_load_partition load (index_to_partition bs i) f \<and>
      (try_load_partition load (index_to_partition bs start) f \<longrightarrow> i = start)) \<or>
    bootloader_utility_load_boot_image cfg load bs start initial f = BootReset f \<and>
      (\<forall>i. TEST_APP_INDEX \<le> i \<longrightarrow> \<not> try_load_partition load (index_to_partition bs i) f)"
proof -
  let ?ok = "\<lambda>i. try_load_partition load (index_to_partition bs i) f"
  let ?l = "down_indices start @ up_indices start bs"
  have ns: "start \<noteq> TEST_APP_INDEX" using s(1) by (simp add: boot_consts)
  have test: "index_to_partition bs TEST_APP_INDEX = test bs" by (simp add: index_to_partition_def boot_consts)
  have hd: "?l = start # tl ?l"
  proof -
    have "[FACTORY_INDEX..start] = [FACTORY_INDEX..start - 1] @ [start]" using s(1) by (simp add: upto_rec2)
    then show ?thesis by (simp add: down_indices_def)
  qed
  show ?thesis
  proof (cases "find ?ok ?l")
    case (Some i)
    then have "?ok i" by (auto simp: find_Some_iff)
    moreover have "?ok start \<longrightarrow> i = start"
    proof
      assume "?ok start"
      then have "find ?ok (start # tl ?l) = Some start" by simp
      then show "i = start" using Some hd by simp
    qed
    ultimately show ?thesis using Some ns by (auto simp: bootloader_utility_load_boot_image_def)
  next
    case None
    then have no: "\<forall>i \<in> {FACTORY_INDEX..int (app_count bs) - 1}. \<not> ?ok i"
      unfolding find_None_iff tried_indices [OF s, symmetric] by blast
    have far: "\<not> ?ok i" if "int (app_count bs) \<le> i" for i
      using that s by (simp add: index_to_partition_def boot_consts try_no_pos)
    show ?thesis
    proof (cases "?ok TEST_APP_INDEX")
      case True
      moreover have "\<not> ?ok start" using no s by simp
      ultimately show ?thesis using None ns test by (auto simp: bootloader_utility_load_boot_image_def)
    next
      case False
      have "\<not> ?ok i" if "TEST_APP_INDEX \<le> i" for i
      proof -
        consider "i = TEST_APP_INDEX" | "FACTORY_INDEX \<le> i" "i < int (app_count bs)" | "int (app_count bs) \<le> i"
          using \<open>TEST_APP_INDEX \<le> i\<close> by (fastforce simp: boot_consts)
        then show ?thesis using False no far by cases auto
      qed
      then show ?thesis using None ns test False by (auto simp: bootloader_utility_load_boot_image_def)
    qed
  qed
qed

theorem boot_loader_boots_if_possible_witness:
  "\<exists>f'. bootloader_utility_load_boot_image (ex_cfg False) (\<lambda>pos f. pos_offset pos = 0x30000) ex_bs 0 False
     (ex_flash (ex_entry 1 0) (ex_entry 2 0) 0) = BootApp 1 f'"
proof -
  let ?load = "\<lambda>pos (f :: flash_dev). pos_offset pos = 0x30000" and ?f = "ex_flash (ex_entry 1 0) (ex_entry 2 0) 0"
  have ok: "try_load_partition ?load (index_to_partition ex_bs i) ?f \<longleftrightarrow> i = 1" for i
  proof -
    consider "i = -1" | "i = -2" | "i = 0" | "i = 1" | "i \<noteq> -1" "i \<noteq> -2" "\<not> (0 \<le> i \<and> i < 2)" by fastforce
    then show ?thesis by cases (auto simp: try_load_partition_def index_to_partition_def boot_consts ex_bs_def no_pos_def)
  qed
  have "TEST_APP_INDEX \<le> 1" "FACTORY_INDEX \<le> 0" "0 < int (app_count ex_bs)" by (simp_all add: boot_consts ex_bs_def)
  then show ?thesis
    using boot_loader_boots_if_possible [of 0 ex_bs "ex_cfg False" ?load False ?f] unfolding ok by blast
qed

subsection \<open>The label list\<close>

text \<open>A whole label at a position of the list.\<close>

definition word_at :: "string \<Rightarrow> string \<Rightarrow> nat \<Rightarrow> bool" where
  "word_at s label i \<longleftrightarrow> i + length label \<le> length s \<and> take (length label) (drop i s) = label \<and>
     (i = 0 \<or> is_delim (s ! (i - 1))) \<and> (i + length label = length s \<or> is_delim (s ! (i + length label)))"

lemma strstr_None: "strstr s label = None \<Longrightarrow> i \<le> length s \<Longrightarrow> take (length label) (drop i s) \<noteq> label"
proof (induction s arbitrary: i)
  case Nil
  then show ?case by (auto split: if_splits)
next
  case (Cons c s)
  then show ?case by (cases i) (auto split: if_splits)
qed

lemma strstr_Some:
  "strstr s label = Some k \<Longrightarrow> k \<le> length s \<and> take (length label) (drop k s) = label \<and>
     (\<forall>i < k. take (length label) (drop i s) \<noteq> label)"
proof (induction s arbitrary: k)
  case Nil
  then show ?case by (auto split: if_splits)
next
  case (Cons c s)
  show ?case
  proof (cases "take (length label) (c # s) = label")
    case True
    then show ?thesis using Cons.prems by auto
  next
    case False
    then obtain j where j: "strstr s label = Some j" "k = Suc j" using Cons.prems by auto
    have "take (length label) (drop i (c # s)) \<noteq> label" if "i < k" for i
      using Cons.IH [OF j(1)] that j(2) False by (cases i) auto
    then show ?thesis using Cons.IH [OF j(1)] j(2) by auto
  qed
qed

lemma strcspn_spec:
  "strcspn t \<le> length t" "j < strcspn t \<Longrightarrow> \<not> is_delim (t ! j)" "strcspn t < length t \<Longrightarrow> is_delim (t ! strcspn t)"
proof -
  show "strcspn t \<le> length t" by (simp add: strcspn_def length_takeWhile_le)
  show "\<not> is_delim (t ! j)" if "j < strcspn t"
    using that nth_mem [of j "takeWhile (\<lambda>c. \<not> is_delim c) t"] set_takeWhileD
    by (fastforce simp: strcspn_def takeWhile_nth)
  show "is_delim (t ! strcspn t)" if "strcspn t < length t"
    using that nth_length_takeWhile [of "\<lambda>c. \<not> is_delim c" t] by (simp add: strcspn_def)
qed

definition before_at :: "string \<Rightarrow> nat \<Rightarrow> char option" where
  "before_at s i = (if i = 0 then None else Some (s ! (i - 1)))"

lemma before_delim: "(case before_at s i of None \<Rightarrow> True | Some c \<Rightarrow> is_delim c) \<longleftrightarrow> i = 0 \<or> is_delim (s ! (i - 1))"
  by (simp add: before_at_def)

text \<open>The loop at position \<open>pos\<close> finds a whole label at or after it.\<close>

lemma label_loop_spec:
  assumes lab: "label \<noteq> []" "\<forall>c \<in> set label. \<not> is_delim c"
  shows "pos \<le> length s \<Longrightarrow> length s - pos < fuel \<Longrightarrow>
    label_loop fuel (before_at s pos) (drop pos s) label = Some (\<exists>i \<ge> pos. word_at s label i)"
proof (induction fuel arbitrary: pos)
  case 0
  then show ?case by simp
next
  case (Suc fuel)
  show ?case
  proof (cases "strstr (drop pos s) label")
    case None
    have "\<not> word_at s label i" if "pos \<le> i" for i
    proof
      assume w: "word_at s label i"
      then have "i - pos \<le> length (drop pos s)" using that by (auto simp: word_at_def)
      from strstr_None [OF None this] show False using w that by (simp add: word_at_def)
    qed
    then show ?thesis using None by auto
  next
    case (Some k)
    define i0 where "i0 = pos + k"
    define t where "t = drop i0 s"
    define m where "m = strcspn t"
    have dk: "drop k (drop pos s) = t" by (simp add: t_def i0_def add.commute)
    note st = strstr_Some [OF Some]
    have i0: "i0 \<le> length s" "take (length label) t = label" using st Suc.prems(1) by (auto simp: i0_def t_def add.commute)
    have fit: "i0 + length label \<le> length s"
      using i0 by (metis add_le_cancel_left le_add_diff_inverse length_drop length_take min.absorb_iff2 min.commute t_def)
    have none: "\<not> word_at s label i" if "pos \<le> i" "i < i0" for i
    proof -
      have "i - pos < k" using that by (simp add: i0_def)
      then have "take (length label) (drop (i - pos) (drop pos s)) \<noteq> label" using st by blast
      then show ?thesis using that by (simp add: word_at_def)
    qed
    have prev: "(if k = 0 then before_at s pos else Some (drop pos s ! (k - 1))) = before_at s i0"
      using Suc.prems(1) st by (auto simp: before_at_def i0_def)
    have after: "(drop (length label) t = [] \<or> is_delim (hd (drop (length label) t))) \<longleftrightarrow>
        (i0 + length label = length s \<or> is_delim (s ! (i0 + length label)))"
    proof (cases "i0 + length label = length s")
      case False
      then have "hd (drop (length label) t) = s ! (i0 + length label)" "drop (length label) t \<noteq> []"
        using fit hd_drop_conv_nth [of "i0 + length label" s] by (simp_all add: t_def add.commute)
      then show ?thesis using False by simp
    qed (simp add: t_def)
    have hit: "(case before_at s i0 of None \<Rightarrow> True | Some c \<Rightarrow> is_delim c) \<and>
        (drop (length label) t = [] \<or> is_delim (hd (drop (length label) t))) \<longleftrightarrow> word_at s label i0"
      unfolding before_delim after using fit i0 by (auto simp: word_at_def t_def)
    have m1: "0 < m"
    proof (rule ccontr)
      assume "\<not> 0 < m"
      moreover have "t \<noteq> []" "t ! 0 = label ! 0" using i0(2) lab(1) by (metis take_eq_Nil2, metis length_greater_0_conv nth_take)
      ultimately have "is_delim (label ! 0)" using strcspn_spec(3) [of t] by (simp add: m_def)
      then show False using lab by simp
    qed
    have gap: "\<not> word_at s label i" if "i0 < i" "i \<le> i0 + m" for i
    proof
      assume "word_at s label i"
      then have "is_delim (s ! (i - 1))" "i \<le> length s" using that by (auto simp: word_at_def)
      moreover have "\<not> is_delim (t ! (i - 1 - i0))" using strcspn_spec(2) [of "i - 1 - i0" t] that by (simp add: m_def)
      moreover have "t ! (i - 1 - i0) = s ! (i - 1)" using that i0 by (simp add: t_def)
      ultimately show False by simp
    qed
    have loop: "label_loop (Suc fuel) (before_at s pos) (drop pos s) label =
        (if word_at s label i0 then Some True
         else if m = length t then Some False
         else label_loop fuel (Some (t ! (m - 1))) (drop m t) label)"
      unfolding label_loop.simps(2) Some option.case Let_def dk prev hit m_def [symmetric] using m1 by (simp only: neq0_conv [symmetric] if_False)
    show ?thesis
    proof (cases "word_at s label i0")
      case True
      moreover have "pos \<le> i0" by (simp add: i0_def)
      ultimately show ?thesis unfolding loop by auto
    next
      case False
      have ex: "(\<exists>i \<ge> pos. word_at s label i) \<longleftrightarrow> (\<exists>i \<ge> i0 + m. word_at s label i)"
        using none gap False by (metis le_add1 le_trans linorder_not_less i0_def nat_less_le)
      show ?thesis
      proof (cases "m = length t")
        case True
        have "\<not> word_at s label i" if "i0 + m \<le> i" for i
          using gap [of i] that True m1 lab(1) by (auto simp: word_at_def t_def)
        then show ?thesis using loop False True ex by auto
      next
        case ne: False
        have le: "i0 + m < length s" using ne strcspn_spec(1) [of t] i0 by (simp add: m_def t_def)
        have "Some (t ! (m - 1)) = before_at s (i0 + m)" using m1 le by (simp add: before_at_def t_def)
        moreover have "drop m t = drop (i0 + m) s" by (simp add: t_def add.commute)
        ultimately show ?thesis
          using loop False ne ex Suc.IH [of "i0 + m"] le m1 Suc.prems by (simp add: i0_def)
      qed
    qed
  qed
qed

text \<open>
  For a label that is not empty and has no comma or space, the search ends and finds the label
  exactly when the list has it as a whole word, delimited by commas, spaces or the ends.
\<close>

theorem label_search_finds_whole_words:
  assumes "label \<noteq> []" and "\<forall>c \<in> set label. \<not> is_delim c"
  shows "bootloader_common_label_search (Some s) (Some label) = Some (\<exists>i. word_at s label i)"
  using label_loop_spec [OF assms, of 0 s "length s + 1"]
  by (simp add: bootloader_common_label_search_def before_at_def)

theorem label_search_finds_whole_words_witness:
  "bootloader_common_label_search (Some ''nvs1, nvs'') (Some ''nvs'') = Some (\<exists>i. word_at ''nvs1, nvs'' ''nvs'' i) \<and>
   word_at ''nvs1, nvs'' ''nvs'' 6"
  using label_search_finds_whole_words [of "''nvs''" "''nvs1, nvs''"]
  by (simp add: is_delim_def word_at_def)

lemma empty_label_stuck: "label_loop fuel (Some (CHR ''s'')) '', otadata'' [] = None"
  by (induction fuel) (simp_all add: is_delim_def strcspn_def)

text \<open>
  With an empty label the loop stays at the first delimiter that does not follow another one:
  on the list \<open>nvs, otadata\<close> it never ends, whatever the number of rounds.
\<close>

theorem empty_label_search_does_not_end:
  "label_loop fuel None ''nvs, otadata'' [] = None \<and>
   bootloader_common_label_search (Some ''nvs, otadata'') (Some []) = None"
proof -
  have "label_loop fuel None ''nvs, otadata'' [] = None" for fuel
    using empty_label_stuck by (cases fuel) (simp_all add: is_delim_def strcspn_def)
  then show ?thesis by (simp add: bootloader_common_label_search_def)
qed

subsection \<open>Counting the OTA partitions\<close>

lemma count_apps_none:
  assumes "\<forall>n \<le> 16. find_app (ESP_PARTITION_SUBTYPE_APP_OTA_MIN + n) sys \<noteq> None" and "m \<le> 16"
  shows "count_apps sys m = None"
  using assms(2)
proof (induction "16 - m" arbitrary: m rule: less_induct)
  case less
  have "find_app (ESP_PARTITION_SUBTYPE_APP_OTA_MIN + m) sys \<noteq> None" using assms(1) less.prems by blast
  then show ?case using less.hyps [of "m + 1"] less.prems count_apps.simps [of sys m] by auto
qed

text \<open>
  With all sixteen OTA partitions and a test partition, whose subtype follows the last OTA
  subtype, counting the OTA partitions runs into its assertion, and with it every call that counts
  them, such as choosing a boot partition.
\<close>

theorem sixteen_slots_and_test_app_abort:
  assumes "\<forall>n < 16. find_app (ESP_PARTITION_SUBTYPE_APP_OTA_MIN + n) sys \<noteq> None"
    and "find_app ESP_PARTITION_SUBTYPE_APP_TEST sys \<noteq> None"
    and "read_otadata cfg sys \<noteq> None"
  shows "esp_ota_get_app_partition_count sys = None \<and> esp_ota_get_boot_partition cfg sys = None \<and>
    esp_rewrite_ota_data cfg st sys = None"
proof -
  have "find_app (ESP_PARTITION_SUBTYPE_APP_OTA_MIN + n) sys \<noteq> None" if "n \<le> 16" for n
    using assms(1,2) that by (cases "n = 16") (auto simp: part_consts)
  then have "esp_ota_get_app_partition_count sys = None"
    by (simp add: esp_ota_get_app_partition_count_def count_apps_none)
  then show ?thesis
    using assms(3) by (auto simp: esp_ota_get_boot_partition_def esp_rewrite_ota_data_def split: prod.splits)
qed

definition ex_full :: ota_sys where
  "ex_full = (ex_sys (ex_entry 1 0) (ex_entry 2 0) 0)\<lparr>s_partition_list :=
     ex_otaitem # map (\<lambda>n. ex_item (n + 2) 0 (0x10 + n) 0 0x1000) [0..<17]\<rparr>"

theorem sixteen_slots_and_test_app_abort_witness:
  "esp_ota_get_app_partition_count ex_full = None"
proof -
  have f: "find_app (ESP_PARTITION_SUBTYPE_APP_OTA_MIN + n) ex_full \<noteq> None" if "n < 17" for n
  proof -
    have "ex_item (n + 2) 0 (0x10 + n) 0 0x1000 \<in> set (s_partition_list ex_full)" using that by (auto simp: ex_full_def)
    moreover have "part_matches ESP_PARTITION_TYPE_APP (ESP_PARTITION_SUBTYPE_APP_OTA_MIN + n) None
        (ex_item (n + 2) 0 (0x10 + n) 0 0x1000)"
      by (simp add: part_matches_def ex_item_def part_consts)
    ultimately show ?thesis unfolding find_app_find find_None_iff by blast
  qed
  have t: "find_app ESP_PARTITION_SUBTYPE_APP_TEST ex_full \<noteq> None"
    using f [of 16] by (simp add: part_consts)
  have "otadata_partition ex_full = Some ex_otaitem"
    by (simp add: otadata_partition_def find_first_find part_consts ex_full_def)
      (simp add: ex_otaitem_def ex_item_def part_matches_def part_consts)
  then have "read_otadata (ex_cfg False) ex_full \<noteq> None"
    by (simp add: read_otadata_def ex_cfg_def ex_otaitem_def ex_item_def)
  then show ?thesis using sixteen_slots_and_test_app_abort [of ex_full "ex_cfg False" 0] f t by simp
qed

end
