(* ===== verification/Event.thy ===== *)
theory Event
  imports Prelude
begin

section \<open>Event loops\<close>

text \<open>
  Model of \<open>esp_event/esp_event.c\<close> and \<open>esp_event/default_event_loop.c\<close>, in the default configuration
  (\<open>CONFIG_ESP_EVENT_POST_FROM_ISR\<close> on, profiling off).
  \<^item> Event bases and handler functions are compared as pointers: they are addresses (\<^typ>\<open>nat\<close>);
    \<open>ESP_EVENT_ANY_BASE\<close> is \<open>NULL\<close>. Event ids are \<^typ>\<open>int\<close>.
  \<^item> The linked lists of nodes are lists of records, each with the address of its node; the answers
    of \<open>calloc\<close> are a list (\<open>None\<close> when out of memory), consumed in the order of the calls.
  \<^item> Dispatching walks the lists while handlers run, and handlers may change the lists: the walk is
    modelled on addresses, each step reads the node from the loop as it is then, and reading a
    node that is gone is the outcome \<open>UseAfterFree\<close>.
  \<^item> Handlers are an argument: what the code of a handler does to the loop and to its environment.
  \<^item> Waiting on the queue is explicit: what other tasks and interrupts do to the loop during a wait is an
    argument, and a receive without a time limit on a queue that stays empty blocks the task for good.
  \<^item> \<open>data_copies\<close> counts the heap copies of event data that are allocated.
\<close>

subsection \<open>Nodes\<close>

definition ESP_EVENT_ANY_BASE :: nat where "ESP_EVENT_ANY_BASE = 0"
definition ESP_EVENT_ANY_ID :: int where "ESP_EVENT_ANY_ID = -1"

text \<open>The address of the string that stands for any base inside the lists.\<close>

definition esp_event_any_base :: nat where "esp_event_any_base = 1"

record esp_event_handler_node_t =
  hn_addr :: nat
  handler_ctx :: nat
  hn_handler :: nat
  hn_arg :: nat

record esp_event_id_node_t =
  in_addr :: nat
  in_id :: int
  in_handlers :: "esp_event_handler_node_t list"

record esp_event_base_node_t =
  bn_addr :: nat
  bn_base :: nat
  bn_handlers :: "esp_event_handler_node_t list"
  id_nodes :: "esp_event_id_node_t list"

record esp_event_loop_node_t =
  ln_addr :: nat
  ln_handlers :: "esp_event_handler_node_t list"
  base_nodes :: "esp_event_base_node_t list"

record esp_event_post_instance_t =
  data_allocated :: bool
  data_set :: bool
  post_base :: nat
  post_id :: int
  post_data :: "byte list"

record 'w esp_event_loop_instance_t =
  loop_name :: string
  queue_length :: nat
  queue :: "esp_event_post_instance_t list"
  task :: "nat option"
  running_task :: "nat option"
  loop_nodes :: "esp_event_loop_node_t list"
  data_copies :: nat
  env :: 'w

subsection \<open>Adding a handler\<close>

text \<open>The last element of a list with a property, as the search loops that do not stop find it.\<close>

fun last_index :: "('a \<Rightarrow> bool) \<Rightarrow> 'a list \<Rightarrow> nat option" where
  "last_index P [] = None"
| "last_index P (x # xs) =
     (case last_index P xs of Some i \<Rightarrow> Some (Suc i) | None \<Rightarrow> if P x then Some 0 else None)"

fun overwrite_arg :: "nat \<Rightarrow> nat \<Rightarrow> esp_event_handler_node_t list \<Rightarrow> esp_event_handler_node_t list option" where
  "overwrite_arg h arg [] = None"
| "overwrite_arg h arg (n # ns) =
     (if hn_handler n = h then Some (n\<lparr>hn_arg := arg\<rparr> # ns) else map_option ((#) n) (overwrite_arg h arg ns))"

definition handler_instances_add ::
  "nat option list \<Rightarrow> esp_event_handler_node_t list \<Rightarrow> nat \<Rightarrow> nat \<Rightarrow> bool \<Rightarrow>
   esp_err_t \<times> esp_event_handler_node_t list \<times> nat option" where
  "handler_instances_add callocs handlers h arg legacy =
     (case callocs of
        Some a # Some c # _ \<Rightarrow>
          let handler_instance = \<lparr>hn_addr = a, handler_ctx = c, hn_handler = h, hn_arg = arg\<rparr> in
          (case (if legacy then overwrite_arg h arg handlers else None) of
             Some handlers' \<Rightarrow> (ESP_OK, handlers', None)
           | None \<Rightarrow> (ESP_OK, handlers @ [handler_instance], Some c))
      | _ \<Rightarrow> (ESP_ERR_NO_MEM, handlers, None))"

definition base_node_add_handler ::
  "nat option list \<Rightarrow> esp_event_base_node_t \<Rightarrow> int \<Rightarrow> nat \<Rightarrow> nat \<Rightarrow> bool \<Rightarrow>
   esp_err_t \<times> esp_event_base_node_t \<times> nat option" where
  "base_node_add_handler callocs base_node i h arg legacy =
     (if i = ESP_EVENT_ANY_ID
      then let (err, hs, ctx) = handler_instances_add callocs (bn_handlers base_node) h arg legacy
           in (err, base_node\<lparr>bn_handlers := hs\<rparr>, ctx)
      else case last_index (\<lambda>it. in_id it = i) (id_nodes base_node) of
          Some k \<Rightarrow>
            let id_node = id_nodes base_node ! k;
                (err, hs, ctx) = handler_instances_add callocs (in_handlers id_node) h arg legacy
            in (err, base_node\<lparr>id_nodes := (id_nodes base_node)[k := id_node\<lparr>in_handlers := hs\<rparr>]\<rparr>, ctx)
        | None \<Rightarrow>
            (case callocs of
               Some a # cs \<Rightarrow>
                 let (err, hs, ctx) = handler_instances_add cs [] h arg legacy
                 in if err = ESP_OK
                    then (ESP_OK, base_node\<lparr>id_nodes := id_nodes base_node @
                            [\<lparr>in_addr = a, in_id = i, in_handlers = hs\<rparr>]\<rparr>, ctx)
                    else (err, base_node, ctx)
             | _ \<Rightarrow> (ESP_ERR_NO_MEM, base_node, None)))"

definition loop_node_add_handler ::
  "nat option list \<Rightarrow> esp_event_loop_node_t \<Rightarrow> nat \<Rightarrow> int \<Rightarrow> nat \<Rightarrow> nat \<Rightarrow> bool \<Rightarrow>
   esp_err_t \<times> esp_event_loop_node_t \<times> nat option" where
  "loop_node_add_handler callocs loop_node b i h arg legacy =
     (if b = esp_event_any_base \<and> i = ESP_EVENT_ANY_ID
      then let (err, hs, ctx) = handler_instances_add callocs (ln_handlers loop_node) h arg legacy
           in (err, loop_node\<lparr>ln_handlers := hs\<rparr>, ctx)
      else
        let bs = base_nodes loop_node;
            found = last_index (\<lambda>it. bn_base it = b) bs
        in case (if bs \<noteq> [] \<and> bn_base (last bs) \<noteq> b \<and> id_nodes (last bs) \<noteq> [] \<and> i = ESP_EVENT_ANY_ID
                 then None
                 else case found of
                     None \<Rightarrow> None
                   | Some k \<Rightarrow> if id_nodes (bs ! k) \<noteq> [] \<and> i = ESP_EVENT_ANY_ID then None else Some k) of
             Some k \<Rightarrow>
               let (err, base_node, ctx) = base_node_add_handler callocs (bs ! k) i h arg legacy
               in (err, loop_node\<lparr>base_nodes := bs[k := base_node]\<rparr>, ctx)
           | None \<Rightarrow>
               (case callocs of
                  Some a # cs \<Rightarrow>
                    let (err, base_node, ctx) = base_node_add_handler cs
                          \<lparr>bn_addr = a, bn_base = b, bn_handlers = [], id_nodes = []\<rparr> i h arg legacy
                    in if err = ESP_OK then (ESP_OK, loop_node\<lparr>base_nodes := bs @ [base_node]\<rparr>, ctx)
                       else (err, loop_node, ctx)
                | _ \<Rightarrow> (ESP_ERR_NO_MEM, loop_node, None)))"

text \<open>The list part of a registration, under the mutex.\<close>

definition add_to_nodes ::
  "nat option list \<Rightarrow> nat \<Rightarrow> int \<Rightarrow> nat \<Rightarrow> nat \<Rightarrow> bool \<Rightarrow> esp_event_loop_node_t list \<Rightarrow>
   esp_err_t \<times> esp_event_loop_node_t list \<times> nat option" where
  "add_to_nodes callocs b i h arg legacy nodes =
     (let is_loop_level_handler = (b = esp_event_any_base \<and> i = ESP_EVENT_ANY_ID) in
      if nodes = [] \<or> base_nodes (last nodes) \<noteq> [] \<and> is_loop_level_handler
      then (case callocs of
              Some a # cs \<Rightarrow>
                let (err, loop_node, ctx) = loop_node_add_handler cs
                      \<lparr>ln_addr = a, ln_handlers = [], base_nodes = []\<rparr> b i h arg legacy
                in if err = ESP_OK then (ESP_OK, nodes @ [loop_node], ctx) else (err, nodes, ctx)
            | _ \<Rightarrow> (ESP_ERR_NO_MEM, nodes, None))
      else let (err, loop_node, ctx) = loop_node_add_handler callocs (last nodes) b i h arg legacy
           in (err, butlast nodes @ [loop_node], ctx))"

definition esp_event_handler_register_with_internal ::
  "nat option list \<Rightarrow> nat \<Rightarrow> int \<Rightarrow> nat \<Rightarrow> nat \<Rightarrow> bool \<Rightarrow> 'w esp_event_loop_instance_t \<Rightarrow>
   (esp_err_t \<times> nat option \<times> 'w esp_event_loop_instance_t) option" where
  "esp_event_handler_register_with_internal callocs b i h arg legacy lp = do {
     configASSERT (h \<noteq> 0);
     (if b = ESP_EVENT_ANY_BASE \<and> i \<noteq> ESP_EVENT_ANY_ID then Some (ESP_ERR_INVALID_ARG, None, lp)
      else
        let event_base = (if b = ESP_EVENT_ANY_BASE then esp_event_any_base else b);
            (err, nodes, ctx) = add_to_nodes callocs event_base i h arg legacy (loop_nodes lp)
        in Some (err, ctx, lp\<lparr>loop_nodes := nodes\<rparr>)) }"

definition esp_event_handler_register_with ::
  "nat option list \<Rightarrow> nat \<Rightarrow> int \<Rightarrow> nat \<Rightarrow> nat \<Rightarrow> 'w esp_event_loop_instance_t \<Rightarrow>
   (esp_err_t \<times> 'w esp_event_loop_instance_t) option" where
  "esp_event_handler_register_with callocs b i h arg lp =
     map_option (\<lambda>(err, ctx, lp'). (err, lp'))
       (esp_event_handler_register_with_internal callocs b i h arg True lp)"

definition esp_event_handler_instance_register_with ::
  "nat option list \<Rightarrow> nat \<Rightarrow> int \<Rightarrow> nat \<Rightarrow> nat \<Rightarrow> 'w esp_event_loop_instance_t \<Rightarrow>
   (esp_err_t \<times> nat option \<times> 'w esp_event_loop_instance_t) option" where
  "esp_event_handler_instance_register_with callocs b i h arg lp =
     esp_event_handler_register_with_internal callocs b i h arg False lp"

subsection \<open>Removing handlers\<close>

text \<open>
  \<open>tgt\<close> is the handler function of the caller's context (legacy) or the address of the context.
\<close>

definition is_target :: "bool \<Rightarrow> nat \<Rightarrow> esp_event_handler_node_t \<Rightarrow> bool" where
  "is_target legacy tgt n \<longleftrightarrow> (if legacy then hn_handler n = tgt else handler_ctx n = tgt)"

fun handler_instances_remove ::
  "bool \<Rightarrow> nat \<Rightarrow> esp_event_handler_node_t list \<Rightarrow> esp_err_t \<times> esp_event_handler_node_t list" where
  "handler_instances_remove legacy tgt [] = (ESP_ERR_NOT_FOUND, [])"
| "handler_instances_remove legacy tgt (n # ns) =
     (if is_target legacy tgt n then (ESP_OK, ns)
      else let (err, ns') = handler_instances_remove legacy tgt ns in (err, n # ns'))"

fun remove_from_ids ::
  "int \<Rightarrow> bool \<Rightarrow> nat \<Rightarrow> esp_event_id_node_t list \<Rightarrow> esp_err_t \<times> esp_event_id_node_t list" where
  "remove_from_ids i legacy tgt [] = (ESP_ERR_NOT_FOUND, [])"
| "remove_from_ids i legacy tgt (it # its) =
     (if in_id it = i
      then let (res, hs) = handler_instances_remove legacy tgt (in_handlers it)
           in if res = ESP_OK \<and> hs = [] then (ESP_OK, its)
              else let (err, its') = remove_from_ids i legacy tgt its in (err, it\<lparr>in_handlers := hs\<rparr> # its')
      else let (err, its') = remove_from_ids i legacy tgt its in (err, it # its'))"

definition base_node_remove_handler ::
  "int \<Rightarrow> bool \<Rightarrow> nat \<Rightarrow> esp_event_base_node_t \<Rightarrow> esp_err_t \<times> esp_event_base_node_t" where
  "base_node_remove_handler i legacy tgt base_node =
     (if i = ESP_EVENT_ANY_ID
      then let (err, hs) = handler_instances_remove legacy tgt (bn_handlers base_node)
           in (err, base_node\<lparr>bn_handlers := hs\<rparr>)
      else let (err, its) = remove_from_ids i legacy tgt (id_nodes base_node)
           in (err, base_node\<lparr>id_nodes := its\<rparr>))"

fun remove_from_bases ::
  "nat \<Rightarrow> int \<Rightarrow> bool \<Rightarrow> nat \<Rightarrow> esp_event_base_node_t list \<Rightarrow> esp_err_t \<times> esp_event_base_node_t list" where
  "remove_from_bases b i legacy tgt [] = (ESP_ERR_NOT_FOUND, [])"
| "remove_from_bases b i legacy tgt (it # its) =
     (if bn_base it = b
      then let (res, it') = base_node_remove_handler i legacy tgt it
           in if res = ESP_OK \<and> bn_handlers it' = [] \<and> id_nodes it' = [] then (ESP_OK, its)
              else let (err, its') = remove_from_bases b i legacy tgt its in (err, it' # its')
      else let (err, its') = remove_from_bases b i legacy tgt its in (err, it # its'))"

definition loop_node_remove_handler ::
  "nat \<Rightarrow> int \<Rightarrow> bool \<Rightarrow> nat \<Rightarrow> esp_event_loop_node_t \<Rightarrow> esp_err_t \<times> esp_event_loop_node_t" where
  "loop_node_remove_handler b i legacy tgt loop_node =
     (if b = esp_event_any_base \<and> i = ESP_EVENT_ANY_ID
      then let (err, hs) = handler_instances_remove legacy tgt (ln_handlers loop_node)
           in (err, loop_node\<lparr>ln_handlers := hs\<rparr>)
      else let (err, bs) = remove_from_bases b i legacy tgt (base_nodes loop_node)
           in (err, loop_node\<lparr>base_nodes := bs\<rparr>))"

fun remove_from_nodes ::
  "nat \<Rightarrow> int \<Rightarrow> bool \<Rightarrow> nat \<Rightarrow> esp_event_loop_node_t list \<Rightarrow> esp_event_loop_node_t list" where
  "remove_from_nodes b i legacy tgt [] = []"
| "remove_from_nodes b i legacy tgt (it # its) =
     (let (res, it') = loop_node_remove_handler b i legacy tgt it
      in if res = ESP_OK \<and> base_nodes it' = [] \<and> ln_handlers it' = [] then its
         else it' # remove_from_nodes b i legacy tgt its)"

definition esp_event_handler_unregister_with_internal ::
  "nat \<Rightarrow> int \<Rightarrow> nat \<Rightarrow> bool \<Rightarrow> 'w esp_event_loop_instance_t \<Rightarrow> esp_err_t \<times> 'w esp_event_loop_instance_t" where
  "esp_event_handler_unregister_with_internal b i tgt legacy lp =
     (if b = ESP_EVENT_ANY_BASE \<and> i \<noteq> ESP_EVENT_ANY_ID then (ESP_ERR_INVALID_ARG, lp)
      else
        let event_base = (if b = ESP_EVENT_ANY_BASE then esp_event_any_base else b)
        in (ESP_OK, lp\<lparr>loop_nodes := remove_from_nodes event_base i legacy tgt (loop_nodes lp)\<rparr>))"

definition esp_event_handler_unregister_with ::
  "nat \<Rightarrow> int \<Rightarrow> nat \<Rightarrow> 'w esp_event_loop_instance_t \<Rightarrow> esp_err_t \<times> 'w esp_event_loop_instance_t" where
  "esp_event_handler_unregister_with b i h lp = esp_event_handler_unregister_with_internal b i h True lp"

definition esp_event_handler_instance_unregister_with ::
  "nat \<Rightarrow> int \<Rightarrow> nat option \<Rightarrow> 'w esp_event_loop_instance_t \<Rightarrow> esp_err_t \<times> 'w esp_event_loop_instance_t" where
  "esp_event_handler_instance_unregister_with b i ctx lp =
     (case ctx of
        None \<Rightarrow> (ESP_ERR_INVALID_ARG, lp)
      | Some c \<Rightarrow> esp_event_handler_unregister_with_internal b i c False lp)"

subsection \<open>Posting\<close>

text \<open>
  A task that waits for room lets the other tasks run: \<open>others\<close> is what they do to the loop until there
  is room or the time is up. A task that waits without a limit for room that never comes does not go
  on; the model then takes the branch of the timeout.
\<close>

definition xQueueSendToBack ::
  "('w esp_event_loop_instance_t \<Rightarrow> 'w esp_event_loop_instance_t) \<Rightarrow> 32 word \<Rightarrow>
   esp_event_post_instance_t \<Rightarrow> 'w esp_event_loop_instance_t \<Rightarrow> bool \<times> 'w esp_event_loop_instance_t" where
  "xQueueSendToBack others ticks post lp =
     (let lp1 = (if length (queue lp) < queue_length lp \<or> ticks = 0 then lp else others lp)
      in if length (queue lp1) < queue_length lp1 then (True, lp1\<lparr>queue := queue lp1 @ [post]\<rparr>) else (False, lp1))"

definition post_instance_delete ::
  "esp_event_post_instance_t \<Rightarrow> 'w esp_event_loop_instance_t \<Rightarrow> 'w esp_event_loop_instance_t" where
  "post_instance_delete post lp =
     (if data_allocated post then lp\<lparr>data_copies := data_copies lp - 1\<rparr> else lp)"

text \<open>
  \<open>cur\<close> is the calling task, \<open>mutex_ok\<close> tells whether the mutex could be taken in the time to wait.
  The caller's buffer holds at least \<open>event_data_size\<close> bytes.
\<close>

definition esp_event_post_to ::
  "nat \<Rightarrow> bool \<Rightarrow> bool \<Rightarrow> ('w esp_event_loop_instance_t \<Rightarrow> 'w esp_event_loop_instance_t) \<Rightarrow>
   nat \<Rightarrow> int \<Rightarrow> byte list option \<Rightarrow> nat \<Rightarrow> 32 word \<Rightarrow> 'w esp_event_loop_instance_t \<Rightarrow>
   esp_err_t \<times> 'w esp_event_loop_instance_t" where
  "esp_event_post_to cur calloc_ok mutex_ok others b i event_data event_data_size ticks lp =
     (if b = ESP_EVENT_ANY_BASE \<or> i = ESP_EVENT_ANY_ID then (ESP_ERR_INVALID_ARG, lp)
      else
        let copy = (event_data \<noteq> None \<and> event_data_size \<noteq> 0) in
        if copy \<and> \<not> calloc_ok then (ESP_ERR_NO_MEM, lp)
        else
          let post = \<lparr>data_allocated = copy, data_set = copy, post_base = b, post_id = i,
                post_data = (if copy then take event_data_size (the event_data) else [])\<rparr>;
              lp1 = (if copy then lp\<lparr>data_copies := data_copies lp + 1\<rparr> else lp);
              (result, lp2) =
                (case task lp of
                   None \<Rightarrow>
                     if mutex_ok
                     then xQueueSendToBack others (if running_task lp \<noteq> Some cur then ticks else 0) post lp1
                     else (False, lp1)
                 | Some t \<Rightarrow> xQueueSendToBack others (if t \<noteq> cur then ticks else 0) post lp1)
          in if \<not> result then (ESP_ERR_TIMEOUT, post_instance_delete post lp2) else (ESP_OK, lp2))"

definition esp_event_isr_post_to ::
  "nat \<Rightarrow> int \<Rightarrow> byte list option \<Rightarrow> nat \<Rightarrow> 'w esp_event_loop_instance_t \<Rightarrow>
   esp_err_t \<times> 'w esp_event_loop_instance_t" where
  "esp_event_isr_post_to b i event_data event_data_size lp =
     (if b = ESP_EVENT_ANY_BASE \<or> i = ESP_EVENT_ANY_ID then (ESP_ERR_INVALID_ARG, lp)
      else if event_data_size > 4 then (ESP_ERR_INVALID_ARG, lp)
      else
        let set = (event_data \<noteq> None \<and> event_data_size \<noteq> 0);
            post = \<lparr>data_allocated = False, data_set = set, post_base = b, post_id = i,
              post_data = (if set then take event_data_size (the event_data) @ replicate (4 - event_data_size) 0 else [0, 0, 0, 0])\<rparr>;
            (result, lp1) = xQueueSendToBack id 0 post lp
        in if \<not> result then (ESP_FAIL, post_instance_delete post lp1) else (ESP_OK, lp1))"

subsection \<open>Walking the lists while handlers run\<close>

text \<open>
  \<open>Next\<close> goes on, \<open>Break\<close> leaves the innermost loop, \<open>UseAfterFree\<close> is a read of a freed node.
\<close>

datatype 's flow = Next 's | Break 's | UseAfterFree

definition flow_bind :: "'s flow option \<Rightarrow> ('s \<Rightarrow> 's flow option) \<Rightarrow> 's flow option" where
  "flow_bind m f = (case m of Some (Next s) \<Rightarrow> f s | _ \<Rightarrow> m)"

text \<open>The successor of a node in a list of addresses: \<open>None\<close> when the node is not there.\<close>

fun slist_next :: "nat \<Rightarrow> nat list \<Rightarrow> nat option option" where
  "slist_next a [] = None"
| "slist_next a (x # xs) =
     (if x = a then Some (case xs of [] \<Rightarrow> None | y # _ \<Rightarrow> Some y) else slist_next a xs)"

text \<open>
  \<open>SLIST_FOREACH_SAFE\<close> from a node on: \<open>live\<close> gives the addresses of the list as it is in a state.
\<close>

partial_function (option) foreach_from ::
  "('s \<Rightarrow> nat list option) \<Rightarrow> (nat \<Rightarrow> 's \<Rightarrow> 's flow option) \<Rightarrow> nat option \<Rightarrow> 's \<Rightarrow> 's flow option" where
  "foreach_from live body cur s =
     (case cur of
        None \<Rightarrow> Some (Next s)
      | Some a \<Rightarrow>
          (case Option.bind (live s) (slist_next a) of
             None \<Rightarrow> Some UseAfterFree
           | Some temp \<Rightarrow>
               (case body a s of
                  None \<Rightarrow> None
                | Some UseAfterFree \<Rightarrow> Some UseAfterFree
                | Some (Break s') \<Rightarrow> Some (Next s')
                | Some (Next s') \<Rightarrow> foreach_from live body temp s')))"

declare foreach_from.simps [code]

definition slist_foreach_safe ::
  "('s \<Rightarrow> nat list option) \<Rightarrow> (nat \<Rightarrow> 's \<Rightarrow> 's flow option) \<Rightarrow> 's \<Rightarrow> 's flow option" where
  "slist_foreach_safe live body s =
     (case live s of
        None \<Rightarrow> Some UseAfterFree
      | Some as \<Rightarrow> foreach_from live body (case as of [] \<Rightarrow> None | a # _ \<Rightarrow> Some a) s)"

text \<open>The nodes of a loop by address.\<close>

definition find_addr :: "('n \<Rightarrow> nat) \<Rightarrow> nat \<Rightarrow> 'n list \<Rightarrow> 'n option" where
  "find_addr addr a ns = find (\<lambda>n. addr n = a) ns"

definition loop_node_at :: "nat \<Rightarrow> 'w esp_event_loop_instance_t \<Rightarrow> esp_event_loop_node_t option" where
  "loop_node_at l lp = find_addr ln_addr l (loop_nodes lp)"

definition base_node_at :: "nat \<Rightarrow> nat \<Rightarrow> 'w esp_event_loop_instance_t \<Rightarrow> esp_event_base_node_t option" where
  "base_node_at l b lp = Option.bind (loop_node_at l lp) (\<lambda>n. find_addr bn_addr b (base_nodes n))"

definition id_node_at :: "nat \<Rightarrow> nat \<Rightarrow> nat \<Rightarrow> 'w esp_event_loop_instance_t \<Rightarrow> esp_event_id_node_t option" where
  "id_node_at l b i lp = Option.bind (base_node_at l b lp) (\<lambda>n. find_addr in_addr i (id_nodes n))"

type_synonym 'w handler_code =
  "nat \<Rightarrow> nat \<Rightarrow> nat \<Rightarrow> int \<Rightarrow> byte list option \<Rightarrow> 'w esp_event_loop_instance_t \<Rightarrow> 'w esp_event_loop_instance_t"

text \<open>The code of a handler gets its argument, the base, the id and the data of the event.\<close>

definition handler_execute ::
  "'w handler_code \<Rightarrow> esp_event_post_instance_t \<Rightarrow> esp_event_handler_node_t \<Rightarrow>
   'w esp_event_loop_instance_t \<Rightarrow> 'w esp_event_loop_instance_t" where
  "handler_execute code post n lp =
     code (hn_handler n) (hn_arg n) (post_base post) (post_id post)
       (if data_set post then Some (post_data post) else None) lp"

text \<open>The loop over a list of handlers, which \<open>live\<close> gives in a state of the loop.\<close>

definition run_handlers ::
  "'w handler_code \<Rightarrow> esp_event_post_instance_t \<Rightarrow>
   ('w esp_event_loop_instance_t \<Rightarrow> esp_event_handler_node_t list option) \<Rightarrow>
   'w esp_event_loop_instance_t \<Rightarrow> 'w esp_event_loop_instance_t flow option" where
  "run_handlers code post live lp =
     slist_foreach_safe (\<lambda>s. map_option (map hn_addr) (live s))
       (\<lambda>a s. case Option.bind (live s) (find_addr hn_addr a) of
          None \<Rightarrow> Some UseAfterFree
        | Some n \<Rightarrow> Some (Next (handler_execute code post n s))) lp"

definition run_id_node ::
  "'w handler_code \<Rightarrow> esp_event_post_instance_t \<Rightarrow> nat \<Rightarrow> nat \<Rightarrow> nat \<Rightarrow>
   'w esp_event_loop_instance_t \<Rightarrow> 'w esp_event_loop_instance_t flow option" where
  "run_id_node code post l b i lp =
     (case id_node_at l b i lp of
        None \<Rightarrow> Some UseAfterFree
      | Some id_node \<Rightarrow>
          if in_id id_node = post_id post
          then flow_bind (run_handlers code post (\<lambda>s. map_option in_handlers (id_node_at l b i s)) lp)
                 (\<lambda>s. Some (Break s))
          else Some (Next lp))"

definition run_base_node ::
  "'w handler_code \<Rightarrow> esp_event_post_instance_t \<Rightarrow> nat \<Rightarrow> nat \<Rightarrow>
   'w esp_event_loop_instance_t \<Rightarrow> 'w esp_event_loop_instance_t flow option" where
  "run_base_node code post l b lp =
     (case base_node_at l b lp of
        None \<Rightarrow> Some UseAfterFree
      | Some base_node \<Rightarrow>
          if bn_base base_node = post_base post
          then flow_bind (run_handlers code post (\<lambda>s. map_option bn_handlers (base_node_at l b s)) lp)
                 (slist_foreach_safe (\<lambda>s. map_option (map in_addr \<circ> id_nodes) (base_node_at l b s))
                    (run_id_node code post l b))
          else Some (Next lp))"

definition run_loop_node ::
  "'w handler_code \<Rightarrow> esp_event_post_instance_t \<Rightarrow> nat \<Rightarrow>
   'w esp_event_loop_instance_t \<Rightarrow> 'w esp_event_loop_instance_t flow option" where
  "run_loop_node code post l lp =
     flow_bind (run_handlers code post (\<lambda>s. map_option ln_handlers (loop_node_at l s)) lp)
       (slist_foreach_safe (\<lambda>s. map_option (map bn_addr \<circ> base_nodes) (loop_node_at l s))
          (run_base_node code post l))"

definition dispatch ::
  "'w handler_code \<Rightarrow> esp_event_post_instance_t \<Rightarrow>
   'w esp_event_loop_instance_t \<Rightarrow> 'w esp_event_loop_instance_t flow option" where
  "dispatch code post lp =
     slist_foreach_safe (\<lambda>s. Some (map ln_addr (loop_nodes s))) (run_loop_node code post) lp"

subsection \<open>Running the loop\<close>

definition portMAX_DELAY :: "32 word" where "portMAX_DELAY = -1"

text \<open>
  A receive from an empty queue with a time limit other than 0 lets the other tasks and the interrupts
  run: \<open>others\<close> is what they do to the loop until there is a post or the time is up, and, when the
  receive has no time limit and no post ever comes, from then on.
\<close>

datatype 's receive = Received esp_event_post_instance_t 's | TimedOut 's | WaitsForever 's

definition xQueueReceive ::
  "('w esp_event_loop_instance_t \<Rightarrow> 'w esp_event_loop_instance_t) \<Rightarrow> 32 word \<Rightarrow>
   'w esp_event_loop_instance_t \<Rightarrow> 'w esp_event_loop_instance_t receive" where
  "xQueueReceive others ticks lp =
     (let lp1 = (if queue lp \<noteq> [] \<or> ticks = 0 then lp else others lp)
      in case queue lp1 of
           post # q \<Rightarrow> Received post (lp1\<lparr>queue := q\<rparr>)
         | [] \<Rightarrow> if ticks = portMAX_DELAY then WaitsForever lp1 else TimedOut lp1)"

text \<open>
  How a run of the loop ends: it returns \<open>ESP_OK\<close>, the calling task waits for ever, or a handler has
  freed a node the walk still needs.
\<close>

datatype 's run_result = Returned 's | Blocked 's | Crashed

definition flow_state :: "'s flow \<Rightarrow> 's option" where
  "flow_state r = (case r of Next s \<Rightarrow> Some s | Break s \<Rightarrow> Some s | UseAfterFree \<Rightarrow> None)"

text \<open>
  \<open>clock k\<close> is the \<open>k\<close>-th reading of the tick counter, \<open>waits k\<close> what the others do during the \<open>k\<close>-th
  receive if that one waits, and \<open>cur\<close> the calling task. Every receive waits for up to all of
  \<open>ticks_to_run\<close>, not for the ticks that are left.
\<close>

partial_function (option) run_loop ::
  "'w handler_code \<Rightarrow> (nat \<Rightarrow> 'w esp_event_loop_instance_t \<Rightarrow> 'w esp_event_loop_instance_t) \<Rightarrow>
   (nat \<Rightarrow> 32 word) \<Rightarrow> nat \<Rightarrow> 32 word \<Rightarrow> nat \<Rightarrow> int \<Rightarrow> 32 word \<Rightarrow>
   'w esp_event_loop_instance_t \<Rightarrow> 'w esp_event_loop_instance_t run_result option" where
  "run_loop code waits clock cur ticks_to_run k remaining_ticks marker lp =
     (case xQueueReceive (waits k) ticks_to_run lp of
        TimedOut lp1 \<Rightarrow> Some (Returned lp1)
      | WaitsForever lp1 \<Rightarrow> Some (Blocked lp1)
      | Received post lp1 \<Rightarrow>
          (case dispatch code post (lp1\<lparr>running_task := Some cur\<rparr>) of
             None \<Rightarrow> None
           | Some r \<Rightarrow>
               (case flow_state r of
                  None \<Rightarrow> Some Crashed
                | Some s \<Rightarrow>
                    let lp2 = post_instance_delete post s;
                        end_ticks = clock k;
                        remaining = (if ticks_to_run \<noteq> portMAX_DELAY
                                     then remaining_ticks - uint (end_ticks - marker) else remaining_ticks)
                    in if ticks_to_run \<noteq> portMAX_DELAY \<and> remaining \<le> 0 then Some (Returned lp2)
                       else run_loop code waits clock cur ticks_to_run (k + 1) remaining
                              (if ticks_to_run \<noteq> portMAX_DELAY then end_ticks else marker)
                              (lp2\<lparr>running_task := None\<rparr>))))"

declare run_loop.simps [code]

definition esp_event_loop_run ::
  "'w handler_code \<Rightarrow> (nat \<Rightarrow> 'w esp_event_loop_instance_t \<Rightarrow> 'w esp_event_loop_instance_t) \<Rightarrow>
   (nat \<Rightarrow> 32 word) \<Rightarrow> nat \<Rightarrow> 32 word \<Rightarrow>
   'w esp_event_loop_instance_t \<Rightarrow> 'w esp_event_loop_instance_t run_result option" where
  "esp_event_loop_run code waits clock cur ticks_to_run lp =
     run_loop code waits clock cur ticks_to_run 1 (uint ticks_to_run) (clock 0) lp"

subsection \<open>Creating and deleting loops\<close>

record esp_event_loop_args_t =
  queue_size :: int
  task_name :: "string option"
  task_priority :: nat
  task_stack_size :: nat
  task_core_id :: int

text \<open>The answers of the allocator, the queue, the mutex and the task creation are arguments.\<close>

definition esp_event_loop_create ::
  "bool \<Rightarrow> bool \<Rightarrow> bool \<Rightarrow> nat option \<Rightarrow> 'w \<Rightarrow> esp_event_loop_args_t option \<Rightarrow> bool \<Rightarrow>
   esp_err_t \<times> 'w esp_event_loop_instance_t option" where
  "esp_event_loop_create calloc_ok queue_ok mutex_ok task_created w event_loop_args has_out =
     (case event_loop_args of
        None \<Rightarrow> (ESP_ERR_INVALID_ARG, None)
      | Some args \<Rightarrow>
          if \<not> has_out then (ESP_ERR_INVALID_ARG, None)
          else if \<not> calloc_ok \<or> \<not> queue_ok \<or> \<not> mutex_ok then (ESP_ERR_NO_MEM, None)
          else
            let lp = (\<lambda>name t. \<lparr>loop_name = name, queue_length = nat (queue_size args), queue = [], task = t,
                  running_task = None, loop_nodes = [], data_copies = 0, env = w\<rparr>)
            in case task_name args of
                None \<Rightarrow> (ESP_OK, Some (lp [] None))
              | Some name \<Rightarrow>
                  (case task_created of
                     None \<Rightarrow> (ESP_FAIL, None)
                   | Some t \<Rightarrow> (ESP_OK, Some (lp name (Some t)))))"

fun drop_posts :: "esp_event_post_instance_t list \<Rightarrow> 'w esp_event_loop_instance_t \<Rightarrow> 'w esp_event_loop_instance_t" where
  "drop_posts [] lp = lp"
| "drop_posts (post # ps) lp = drop_posts ps (post_instance_delete post lp)"

text \<open>The addresses a removal of everything frees, in order.\<close>

definition handler_instances_remove_all :: "esp_event_handler_node_t list \<Rightarrow> nat list" where
  "handler_instances_remove_all handlers = concat (map (\<lambda>it. [handler_ctx it, hn_addr it]) handlers)"

definition base_node_remove_all_handler :: "esp_event_base_node_t \<Rightarrow> nat list" where
  "base_node_remove_all_handler base_node =
     handler_instances_remove_all (bn_handlers base_node) @
     concat (map (\<lambda>it. handler_instances_remove_all (in_handlers it) @ [in_addr it]) (id_nodes base_node))"

definition loop_node_remove_all_handler :: "esp_event_loop_node_t \<Rightarrow> nat list" where
  "loop_node_remove_all_handler loop_node =
     handler_instances_remove_all (ln_handlers loop_node) @
     concat (map (\<lambda>it. base_node_remove_all_handler it @ [bn_addr it]) (base_nodes loop_node))"

text \<open>The result has the freed nodes, and what is left in the loop when its own memory goes back.\<close>

definition esp_event_loop_delete ::
  "'w esp_event_loop_instance_t \<Rightarrow> esp_err_t \<times> nat list \<times> 'w esp_event_loop_instance_t" where
  "esp_event_loop_delete lp =
     (ESP_OK, concat (map (\<lambda>it. loop_node_remove_all_handler it @ [ln_addr it]) (loop_nodes lp)),
      (drop_posts (queue lp) lp)\<lparr>loop_nodes := [], queue := []\<rparr>)"

subsection \<open>Asking for a registration\<close>

definition esp_event_is_handler_registered ::
  "nat \<Rightarrow> int \<Rightarrow> nat \<Rightarrow> 'w esp_event_loop_instance_t \<Rightarrow> bool" where
  "esp_event_is_handler_registered b i h lp =
     list_ex (\<lambda>loop_node.
       list_ex (\<lambda>n. b = ESP_EVENT_ANY_BASE \<and> i = ESP_EVENT_ANY_ID \<and> hn_handler n = h) (ln_handlers loop_node) \<or>
       list_ex (\<lambda>base_node. bn_base base_node = b \<and>
         (list_ex (\<lambda>n. i = ESP_EVENT_ANY_ID \<and> hn_handler n = h) (bn_handlers base_node) \<or>
          list_ex (\<lambda>id_node. in_id id_node = i \<and> list_ex (\<lambda>n. hn_handler n = h) (in_handlers id_node))
            (id_nodes base_node)))
         (base_nodes loop_node)) (loop_nodes lp)"

subsection \<open>The default loop\<close>

text \<open>\<open>s_default_loop\<close> is \<open>None\<close> until it is created.\<close>

definition with_default ::
  "('w esp_event_loop_instance_t \<Rightarrow> esp_err_t \<times> 'w esp_event_loop_instance_t) \<Rightarrow>
   'w esp_event_loop_instance_t option \<Rightarrow> esp_err_t \<times> 'w esp_event_loop_instance_t option" where
  "with_default f s_default_loop =
     (case s_default_loop of
        None \<Rightarrow> (ESP_ERR_INVALID_STATE, None)
      | Some lp \<Rightarrow> map_prod id Some (f lp))"

definition esp_event_handler_register ::
  "nat option list \<Rightarrow> nat \<Rightarrow> int \<Rightarrow> nat \<Rightarrow> nat \<Rightarrow> 'w esp_event_loop_instance_t option \<Rightarrow>
   (esp_err_t \<times> 'w esp_event_loop_instance_t option) option" where
  "esp_event_handler_register callocs b i h arg s_default_loop =
     (case s_default_loop of
        None \<Rightarrow> Some (ESP_ERR_INVALID_STATE, None)
      | Some lp \<Rightarrow> map_option (map_prod id Some) (esp_event_handler_register_with callocs b i h arg lp))"

definition esp_event_handler_instance_register ::
  "nat option list \<Rightarrow> nat \<Rightarrow> int \<Rightarrow> nat \<Rightarrow> nat \<Rightarrow> 'w esp_event_loop_instance_t option \<Rightarrow>
   (esp_err_t \<times> nat option \<times> 'w esp_event_loop_instance_t option) option" where
  "esp_event_handler_instance_register callocs b i h arg s_default_loop =
     (case s_default_loop of
        None \<Rightarrow> Some (ESP_ERR_INVALID_STATE, None, None)
      | Some lp \<Rightarrow> map_option (map_prod id (map_prod id Some))
                     (esp_event_handler_instance_register_with callocs b i h arg lp))"

definition esp_event_handler_unregister ::
  "nat \<Rightarrow> int \<Rightarrow> nat \<Rightarrow> 'w esp_event_loop_instance_t option \<Rightarrow> esp_err_t \<times> 'w esp_event_loop_instance_t option" where
  "esp_event_handler_unregister b i h = with_default (esp_event_handler_unregister_with b i h)"

definition esp_event_handler_instance_unregister ::
  "nat \<Rightarrow> int \<Rightarrow> nat option \<Rightarrow> 'w esp_event_loop_instance_t option \<Rightarrow> esp_err_t \<times> 'w esp_event_loop_instance_t option" where
  "esp_event_handler_instance_unregister b i ctx = with_default (esp_event_handler_instance_unregister_with b i ctx)"

definition esp_event_post ::
  "nat \<Rightarrow> bool \<Rightarrow> bool \<Rightarrow> ('w esp_event_loop_instance_t \<Rightarrow> 'w esp_event_loop_instance_t) \<Rightarrow>
   nat \<Rightarrow> int \<Rightarrow> byte list option \<Rightarrow> nat \<Rightarrow> 32 word \<Rightarrow> 'w esp_event_loop_instance_t option \<Rightarrow>
   esp_err_t \<times> 'w esp_event_loop_instance_t option" where
  "esp_event_post cur calloc_ok mutex_ok others b i event_data event_data_size ticks =
     with_default (esp_event_post_to cur calloc_ok mutex_ok others b i event_data event_data_size ticks)"

definition esp_event_isr_post ::
  "nat \<Rightarrow> int \<Rightarrow> byte list option \<Rightarrow> nat \<Rightarrow> 'w esp_event_loop_instance_t option \<Rightarrow>
   esp_err_t \<times> 'w esp_event_loop_instance_t option" where
  "esp_event_isr_post b i event_data event_data_size =
     with_default (esp_event_isr_post_to b i event_data event_data_size)"

definition esp_event_loop_create_default ::
  "bool \<Rightarrow> bool \<Rightarrow> bool \<Rightarrow> nat option \<Rightarrow> 'w \<Rightarrow> int \<Rightarrow> nat \<Rightarrow> nat \<Rightarrow> 'w esp_event_loop_instance_t option \<Rightarrow>
   esp_err_t \<times> 'w esp_event_loop_instance_t option" where
  "esp_event_loop_create_default calloc_ok queue_ok mutex_ok task_created w config_queue_size prio stack s_default_loop =
     (if s_default_loop \<noteq> None then (ESP_ERR_INVALID_STATE, s_default_loop)
      else esp_event_loop_create calloc_ok queue_ok mutex_ok task_created w
             (Some \<lparr>queue_size = config_queue_size, task_name = Some ''sys_evt'', task_priority = prio,
                task_stack_size = stack, task_core_id = 0\<rparr>) True)"

definition esp_event_loop_delete_default ::
  "'w esp_event_loop_instance_t option \<Rightarrow> esp_err_t \<times> 'w esp_event_loop_instance_t option" where
  "esp_event_loop_delete_default s_default_loop =
     (case s_default_loop of
        None \<Rightarrow> (ESP_ERR_INVALID_STATE, None)
      | Some lp \<Rightarrow>
          let (err, freed, lp') = esp_event_loop_delete lp
          in if err \<noteq> ESP_OK then (err, Some lp') else (ESP_OK, None))"

end
