(* ===== verification/Event_Registry.thy ===== *)
theory Event_Registry
  imports Event "HOL-Library.Multiset"
begin

section \<open>The registrations of an event loop\<close>

text \<open>
  The nested lists of nodes as one list of registrations, each with the base and id it was made for,
  the well-formedness of the lists and what adding and removing do to both. The library specifies
  that the handlers of an event run in the order of their registration: \<open>handlers_of\<close> is that
  sequence, and a new registration comes last in it for every event it matches.
\<close>

subsection \<open>Registrations\<close>

type_synonym event_key = "nat \<times> int"
type_synonym registration = "event_key \<times> esp_event_handler_node_t"

definition regs_ids :: "nat \<Rightarrow> esp_event_id_node_t list \<Rightarrow> registration list" where
  "regs_ids b its = concat (map (\<lambda>it. map (Pair (b, in_id it)) (in_handlers it)) its)"

definition regs_base :: "esp_event_base_node_t \<Rightarrow> registration list" where
  "regs_base bn = map (Pair (bn_base bn, ESP_EVENT_ANY_ID)) (bn_handlers bn) @ regs_ids (bn_base bn) (id_nodes bn)"

definition regs_bases :: "esp_event_base_node_t list \<Rightarrow> registration list" where
  "regs_bases bs = concat (map regs_base bs)"

definition regs_loop :: "esp_event_loop_node_t \<Rightarrow> registration list" where
  "regs_loop ln = map (Pair (esp_event_any_base, ESP_EVENT_ANY_ID)) (ln_handlers ln) @ regs_bases (base_nodes ln)"

definition regs :: "esp_event_loop_node_t list \<Rightarrow> registration list" where
  "regs nodes = concat (map regs_loop nodes)"

lemma regs_ids_simps [simp]:
  "regs_ids b [] = []"
  "regs_ids b (it # its) = map (Pair (b, in_id it)) (in_handlers it) @ regs_ids b its"
  "regs_ids b (xs @ ys) = regs_ids b xs @ regs_ids b ys"
  by (simp_all add: regs_ids_def)

lemma regs_bases_simps [simp]:
  "regs_bases [] = []"
  "regs_bases (bn # bs) = regs_base bn @ regs_bases bs"
  "regs_bases (xs @ ys) = regs_bases xs @ regs_bases ys"
  by (simp_all add: regs_bases_def)

lemma regs_simps [simp]:
  "regs [] = []"
  "regs (ln # ns) = regs_loop ln @ regs ns"
  "regs (xs @ ys) = regs xs @ regs ys"
  by (simp_all add: regs_def)

text \<open>The registrations an event with base \<open>fst ev\<close> and id \<open>snd ev\<close> concerns.\<close>

definition key_matches :: "event_key \<Rightarrow> event_key \<Rightarrow> bool" where
  "key_matches ev k \<longleftrightarrow> k = (esp_event_any_base, ESP_EVENT_ANY_ID) \<or>
     fst k = fst ev \<and> (snd k = ESP_EVENT_ANY_ID \<or> snd k = snd ev)"

definition relevant :: "event_key \<Rightarrow> registration list \<Rightarrow> registration list" where
  "relevant ev rs = filter (\<lambda>r. key_matches ev (fst r)) rs"

definition handlers_of :: "event_key \<Rightarrow> esp_event_loop_node_t list \<Rightarrow> esp_event_handler_node_t list" where
  "handlers_of ev nodes = map snd (relevant ev (regs nodes))"

lemma relevant_simps [simp]:
  "relevant ev [] = []"
  "relevant ev (xs @ ys) = relevant ev xs @ relevant ev ys"
  "relevant ev (map (Pair k) hs) = (if key_matches ev k then map (Pair k) hs else [])"
  "relevant ev (r # rs) = (if key_matches ev (fst r) then [r] else []) @ relevant ev rs"
  by (simp_all add: relevant_def filter_map comp_def)

subsection \<open>Well-formed lists\<close>

text \<open>No node is empty, the ids of a base node are distinct and specific, no base node stands for any base.\<close>

definition id_ok :: "esp_event_id_node_t \<Rightarrow> bool" where
  "id_ok it \<longleftrightarrow> in_handlers it \<noteq> [] \<and> in_id it \<noteq> ESP_EVENT_ANY_ID"

definition base_wf :: "esp_event_base_node_t \<Rightarrow> bool" where
  "base_wf bn \<longleftrightarrow> bn_base bn \<noteq> esp_event_any_base \<and> distinct (map in_id (id_nodes bn)) \<and>
     list_all id_ok (id_nodes bn)"

definition base_ok :: "esp_event_base_node_t \<Rightarrow> bool" where
  "base_ok bn \<longleftrightarrow> (bn_handlers bn \<noteq> [] \<or> id_nodes bn \<noteq> []) \<and> base_wf bn"

definition loop_ok :: "esp_event_loop_node_t \<Rightarrow> bool" where
  "loop_ok ln \<longleftrightarrow> (ln_handlers ln \<noteq> [] \<or> base_nodes ln \<noteq> []) \<and> list_all base_ok (base_nodes ln)"

text \<open>Every node and context has a block of memory of its own.\<close>

definition blocks_hs :: "esp_event_handler_node_t list \<Rightarrow> nat list" where
  "blocks_hs hs = map handler_ctx hs @ map hn_addr hs"

definition blocks_ids :: "esp_event_id_node_t list \<Rightarrow> nat list" where
  "blocks_ids its = concat (map (\<lambda>it. in_addr it # blocks_hs (in_handlers it)) its)"

definition blocks_bases :: "esp_event_base_node_t list \<Rightarrow> nat list" where
  "blocks_bases bs = concat (map (\<lambda>bn. bn_addr bn # blocks_hs (bn_handlers bn) @ blocks_ids (id_nodes bn)) bs)"

definition blocks :: "esp_event_loop_node_t list \<Rightarrow> nat list" where
  "blocks nodes = concat (map (\<lambda>ln. ln_addr ln # blocks_hs (ln_handlers ln) @ blocks_bases (base_nodes ln)) nodes)"

definition nodes_inv :: "esp_event_loop_node_t list \<Rightarrow> bool" where
  "nodes_inv nodes \<longleftrightarrow> list_all loop_ok nodes \<and> distinct (blocks nodes)"

lemma blocks_simps [simp]:
  "blocks_hs [] = []" "blocks_ids [] = []" "blocks_bases [] = []" "blocks [] = []"
  "blocks_ids (it # its) = in_addr it # blocks_hs (in_handlers it) @ blocks_ids its"
  "blocks_ids (its @ its') = blocks_ids its @ blocks_ids its'"
  "blocks_bases (bn # bs) = bn_addr bn # blocks_hs (bn_handlers bn) @ blocks_ids (id_nodes bn) @ blocks_bases bs"
  "blocks_bases (bs @ bs') = blocks_bases bs @ blocks_bases bs'"
  "blocks (ln # ns) = ln_addr ln # blocks_hs (ln_handlers ln) @ blocks_bases (base_nodes ln) @ blocks ns"
  "blocks (ns @ ns') = blocks ns @ blocks ns'"
  by (simp_all add: blocks_hs_def blocks_ids_def blocks_bases_def blocks_def)

subsection \<open>Searching backwards\<close>

lemma last_index_None: "last_index P xs = None \<longleftrightarrow> (\<forall>x \<in> set xs. \<not> P x)"
  by (induction xs) (auto split: option.splits)

lemma last_index_split:
  assumes "last_index P xs = Some k"
  obtains ys x zs where "xs = ys @ x # zs" "k = length ys" "P x" "\<forall>z \<in> set zs. \<not> P z"
  using assms
proof (induction xs arbitrary: k thesis)
  case (Cons x xs)
  show ?case
  proof (cases "last_index P xs")
    case None
    then have "k = 0" "P x" using Cons.prems(2) by (auto split: if_splits)
    moreover have "\<forall>z \<in> set xs. \<not> P z" using None by (simp add: last_index_None)
    ultimately show ?thesis using Cons.prems(1) [of "[]" x xs] by simp
  next
    case (Some j)
    then obtain ys y zs where "xs = ys @ y # zs" "j = length ys" "P y" "\<forall>z \<in> set zs. \<not> P z"
      using Cons.IH by blast
    moreover have "k = Suc j" using Some Cons.prems(2) by simp
    ultimately show ?thesis using Cons.prems(1) [of "x # ys" y zs] by simp
  qed
qed simp

lemma list_update_split [simp]: "(ys @ x # zs)[length ys := v] = ys @ v # zs"
  by (simp add: list_update_append)

subsection \<open>Memory of the added nodes\<close>

text \<open>The blocks \<open>new\<close> are the blocks \<open>old\<close> and some of the first answers of the allocator.\<close>

definition grows :: "nat option list \<Rightarrow> nat list \<Rightarrow> nat list \<Rightarrow> bool" where
  "grows cs old new \<longleftrightarrow> (\<exists>used rest. cs = map Some used @ rest \<and> mset new = mset old + mset used)"

lemma grows_same: "mset new = mset old \<Longrightarrow> grows cs old new"
  unfolding grows_def by (intro exI [of _ "[]"] exI [of _ cs]) simp

lemma grows_refl [simp]: "grows cs xs xs"
  by (rule grows_same) simp

lemma grows_frame:
  "grows cs old new \<Longrightarrow> mset old' = mset old + C \<Longrightarrow> mset new' = mset new + C \<Longrightarrow> grows cs old' new'"
  unfolding grows_def by auto

lemma grows_Some:
  assumes "grows cs old new" and "mset new' = add_mset a (mset new)" and "mset old' = mset old"
  shows "grows (Some a # cs) old' new'"
proof -
  obtain used rest where "cs = map Some used @ rest" "mset new = mset old + mset used"
    using assms(1) by (auto simp: grows_def)
  then show ?thesis
    unfolding grows_def using assms(2,3) by (intro exI [of _ "a # used"] exI [of _ rest]) simp
qed

lemma grows_distinct:
  assumes "grows cs old new" and "distinct (old @ List.map_filter id cs)"
  shows "distinct new"
proof -
  obtain used rest where u: "cs = map Some used @ rest" "mset new = mset old + mset used"
    using assms(1) by (auto simp: grows_def)
  have "List.map_filter id (map Some used) = used" by (induction used) (simp_all add: List.map_filter_def)
  then have "distinct (old @ used)" using assms(2) u(1) by (auto simp: List.map_filter_def)
  moreover have "mset new = mset (old @ used)" using u(2) by simp
  ultimately show ?thesis using mset_eq_imp_distinct_iff by blast
qed

subsection \<open>Adding keeps the lists well-formed\<close>

lemma overwrite_arg_nodes:
  "overwrite_arg h arg hs = Some hs' \<Longrightarrow> map handler_ctx hs' = map handler_ctx hs \<and> map hn_addr hs' = map hn_addr hs \<and> hs' \<noteq> []"
  by (induction hs arbitrary: hs') (auto split: if_splits)

lemma overwrite_arg_blocks:
  assumes "overwrite_arg h arg hs = Some hs'"
  shows "blocks_hs hs' = blocks_hs hs" "hs' \<noteq> []"
  using overwrite_arg_nodes [OF assms] by (simp_all add: blocks_hs_def)

lemma handler_add_grows:
  assumes "handler_instances_add cs hs h arg legacy = (err, hs', ctx)"
  shows "grows cs (blocks_hs hs) (blocks_hs hs') \<and> (if err = ESP_OK then hs' \<noteq> [] else hs' = hs)"
proof -
  have new: "grows (Some a # Some c # rest) (blocks_hs hs)
      (blocks_hs (hs @ [\<lparr>hn_addr = a, handler_ctx = c, hn_handler = h, hn_arg = arg\<rparr>]))" for a c rest
    unfolding grows_def by (intro exI [of _ "[a, c]"] exI [of _ rest]) (simp add: blocks_hs_def)
  show ?thesis
    using assms new
    by (auto simp: handler_instances_add_def Let_def overwrite_arg_blocks split: list.splits option.splits if_splits)
qed

lemma id_node_add_wf:
  assumes "base_wf bn" and "id_nodes bn = xs @ it # ys" and "hs \<noteq> []"
  shows "base_wf (bn\<lparr>id_nodes := xs @ it\<lparr>in_handlers := hs\<rparr> # ys\<rparr>)"
  using assms by (auto simp: base_wf_def id_ok_def)

text \<open>The outcome of an addition to a node: on success the node is well-formed and not empty.\<close>

definition base_added ::
  "nat option list \<Rightarrow> esp_err_t \<Rightarrow> esp_event_base_node_t \<Rightarrow> esp_event_base_node_t \<Rightarrow> bool" where
  "base_added cs err bn bn' \<longleftrightarrow> grows cs (blocks_bases [bn]) (blocks_bases [bn']) \<and> bn_base bn' = bn_base bn \<and>
     (if err = ESP_OK then base_ok bn' else bn' = bn)"

lemma base_add_cases:
  assumes add: "base_node_add_handler cs bn i h arg legacy = (err, bn', ctx)"
  obtains
    (any) hs where "i = ESP_EVENT_ANY_ID" "handler_instances_add cs (bn_handlers bn) h arg legacy = (err, hs, ctx)"
      "bn' = bn\<lparr>bn_handlers := hs\<rparr>"
  | (old) xs it ys hs where "i \<noteq> ESP_EVENT_ANY_ID" "id_nodes bn = xs @ it # ys" "in_id it = i" "\<forall>z \<in> set ys. in_id z \<noteq> i"
      "handler_instances_add cs (in_handlers it) h arg legacy = (err, hs, ctx)"
      "bn' = bn\<lparr>id_nodes := xs @ it\<lparr>in_handlers := hs\<rparr> # ys\<rparr>"
  | (new) a cs' hs where "i \<noteq> ESP_EVENT_ANY_ID" "\<forall>z \<in> set (id_nodes bn). in_id z \<noteq> i" "cs = Some a # cs'" "err = ESP_OK"
      "handler_instances_add cs' [] h arg legacy = (ESP_OK, hs, ctx)"
      "bn' = bn\<lparr>id_nodes := id_nodes bn @ [\<lparr>in_addr = a, in_id = i, in_handlers = hs\<rparr>]\<rparr>"
  | (fail) "err \<noteq> ESP_OK" "bn' = bn"
proof (cases "i = ESP_EVENT_ANY_ID")
  case True
  then show ?thesis using add any by (auto simp: base_node_add_handler_def split: prod.splits)
next
  case False
  show ?thesis
  proof (cases "last_index (\<lambda>it. in_id it = i) (id_nodes bn)")
    case None
    show ?thesis
    proof (cases "\<exists>a cs'. cs = Some a # cs'")
      case True
      then obtain a cs' where cs: "cs = Some a # cs'" by blast
      obtain e hs c where e: "handler_instances_add cs' [] h arg legacy = (e, hs, c)"
        by (cases "handler_instances_add cs' [] h arg legacy") auto
      have ids: "\<forall>z \<in> set (id_nodes bn). in_id z \<noteq> i" using None by (simp add: last_index_None)
      have "(err, bn', ctx) = (if e = ESP_OK then (ESP_OK, bn\<lparr>id_nodes := id_nodes bn @
          [\<lparr>in_addr = a, in_id = i, in_handlers = hs\<rparr>]\<rparr>, c) else (e, bn, c))"
        using add False None cs e by (simp add: base_node_add_handler_def)
      then show ?thesis using new [OF False ids cs] fail e by (cases "e = ESP_OK") auto
    next
      case no: False
      have "(err, bn') = (ESP_ERR_NO_MEM, bn)"
        using add False None no by (auto simp: base_node_add_handler_def split: list.splits option.splits)
      then show ?thesis using fail by simp
    qed
  next
    case (Some k)
    obtain xs it ys where sp: "id_nodes bn = xs @ it # ys" "k = length xs" "in_id it = i" "\<forall>z \<in> set ys. in_id z \<noteq> i"
      using last_index_split [OF Some] by metis
    obtain e hs c where e: "handler_instances_add cs (in_handlers it) h arg legacy = (e, hs, c)"
      by (cases "handler_instances_add cs (in_handlers it) h arg legacy") auto
    have "(err, bn', ctx) = (e, bn\<lparr>id_nodes := xs @ it\<lparr>in_handlers := hs\<rparr> # ys\<rparr>, c)"
      using add False Some sp e by (simp add: base_node_add_handler_def Let_def)
    then show ?thesis using old [OF False sp(1,3,4)] e by simp
  qed
qed

lemma base_add_wf:
  assumes add: "base_node_add_handler cs bn i h arg legacy = (err, bn', ctx)" and wf: "base_wf bn"
  shows "base_added cs err bn bn'"
  using add
proof (cases rule: base_add_cases)
  case (any hs)
  from handler_add_grows [OF any(2)] wf show ?thesis
    unfolding base_added_def any(3) by (auto simp: base_ok_def base_wf_def elim!: grows_frame split: if_splits)
next
  case (old xs it ys hs)
  from handler_add_grows [OF old(5)]
  have "grows cs (blocks_bases [bn]) (blocks_bases [bn'])" and "if err = ESP_OK then hs \<noteq> [] else hs = in_handlers it"
    unfolding old(6) by (auto simp: old(2) elim!: grows_frame)
  then show ?thesis using id_node_add_wf [OF wf old(2), of hs] old(6)
    by (auto simp: base_added_def base_ok_def old(2) split: if_splits)
next
  case (new a cs' hs)
  have g: "grows cs' [] (blocks_hs hs)" and ne: "hs \<noteq> []"
    using handler_add_grows [OF new(5)] by auto
  have "grows cs [] (a # blocks_hs hs)" unfolding new(3) using g by (rule grows_Some) simp_all
  then have "grows cs (blocks_bases [bn]) (blocks_bases [bn'])"
    unfolding new(6) by (rule grows_frame) simp_all
  then show ?thesis using wf ne new
    by (auto simp: base_added_def base_ok_def base_wf_def id_ok_def)
next
  case fail
  then show ?thesis by (simp add: base_added_def)
qed

lemma loop_add_cases:
  assumes add: "loop_node_add_handler cs ln b i h arg legacy = (err, ln', ctx)"
  obtains
    (any) hs where "b = esp_event_any_base" "i = ESP_EVENT_ANY_ID"
      "handler_instances_add cs (ln_handlers ln) h arg legacy = (err, hs, ctx)" "ln' = ln\<lparr>ln_handlers := hs\<rparr>"
  | (old) xs bn ys bn' where "\<not> (b = esp_event_any_base \<and> i = ESP_EVENT_ANY_ID)" "base_nodes ln = xs @ bn # ys"
      "bn_base bn = b" "\<forall>z \<in> set ys. bn_base z \<noteq> b" "i = ESP_EVENT_ANY_ID \<longrightarrow> id_nodes bn = []"
      "base_node_add_handler cs bn i h arg legacy = (err, bn', ctx)"
      "ln' = ln\<lparr>base_nodes := xs @ bn' # ys\<rparr>"
  | (new) a cs' bn' where "\<not> (b = esp_event_any_base \<and> i = ESP_EVENT_ANY_ID)" "cs = Some a # cs'" "err = ESP_OK"
      "base_node_add_handler cs' \<lparr>bn_addr = a, bn_base = b, bn_handlers = [], id_nodes = []\<rparr> i h arg legacy = (ESP_OK, bn', ctx)"
      "ln' = ln\<lparr>base_nodes := base_nodes ln @ [bn']\<rparr>"
  | (fail) "err \<noteq> ESP_OK" "ln' = ln"
proof (cases "b = esp_event_any_base \<and> i = ESP_EVENT_ANY_ID")
  case True
  then show ?thesis using add any by (auto simp: loop_node_add_handler_def split: prod.splits)
next
  case False
  let ?bs = "base_nodes ln"
  define choice where "choice = (if ?bs \<noteq> [] \<and> bn_base (last ?bs) \<noteq> b \<and> id_nodes (last ?bs) \<noteq> [] \<and> i = ESP_EVENT_ANY_ID
    then None else case last_index (\<lambda>it. bn_base it = b) ?bs of None \<Rightarrow> None
      | Some k \<Rightarrow> if id_nodes (?bs ! k) \<noteq> [] \<and> i = ESP_EVENT_ANY_ID then None else Some k)"
  show ?thesis
  proof (cases choice)
    case None
    show ?thesis
    proof (cases "\<exists>a cs'. cs = Some a # cs'")
      case True
      then obtain a cs' where cs: "cs = Some a # cs'" by blast
      let ?bn = "\<lparr>bn_addr = a, bn_base = b, bn_handlers = [], id_nodes = []\<rparr>"
      obtain e bn' c where e: "base_node_add_handler cs' ?bn i h arg legacy = (e, bn', c)"
        by (cases "base_node_add_handler cs' ?bn i h arg legacy") auto
      have "(err, ln', ctx) = (if e = ESP_OK then (ESP_OK, ln\<lparr>base_nodes := ?bs @ [bn']\<rparr>, c) else (e, ln, c))"
        using add False None cs e unfolding loop_node_add_handler_def Let_def choice_def [symmetric] by simp
      then show ?thesis using new [OF False cs] fail e by (cases "e = ESP_OK") auto
    next
      case no: False
      have "(err, ln') = (ESP_ERR_NO_MEM, ln)"
        using add False None no unfolding loop_node_add_handler_def Let_def choice_def [symmetric]
        by (auto split: list.splits option.splits)
      then show ?thesis using fail by simp
    qed
  next
    case (Some k)
    then have k: "last_index (\<lambda>it. bn_base it = b) ?bs = Some k" and e: "i = ESP_EVENT_ANY_ID \<longrightarrow> id_nodes (?bs ! k) = []"
      by (auto simp: choice_def split: if_splits option.splits)
    obtain xs bn ys where sp: "?bs = xs @ bn # ys" "k = length xs" "bn_base bn = b" "\<forall>z \<in> set ys. bn_base z \<noteq> b"
      using last_index_split [OF k] by metis
    obtain e1 bn' c where b: "base_node_add_handler cs bn i h arg legacy = (e1, bn', c)"
      by (cases "base_node_add_handler cs bn i h arg legacy") auto
    have "(err, ln', ctx) = (e1, ln\<lparr>base_nodes := xs @ bn' # ys\<rparr>, c)"
      using add False Some sp b unfolding loop_node_add_handler_def Let_def choice_def [symmetric] by simp
    then show ?thesis using old [OF False sp(1,3,4)] e sp b by simp
  qed
qed

lemma loop_add_wf:
  assumes add: "loop_node_add_handler cs ln b i h arg legacy = (err, ln', ctx)"
    and ok: "list_all base_ok (base_nodes ln)" and key: "b = esp_event_any_base \<Longrightarrow> i = ESP_EVENT_ANY_ID"
  shows "grows cs (blocks [ln]) (blocks [ln']) \<and> (if err = ESP_OK then loop_ok ln' else ln' = ln)"
  using add
proof (cases rule: loop_add_cases)
  case (any hs)
  from handler_add_grows [OF any(3)] ok show ?thesis
    unfolding any(4) by (auto simp: loop_ok_def elim!: grows_frame split: if_splits)
next
  case (old xs bn ys bn')
  have "base_wf bn" using ok old(2) by (simp add: base_ok_def)
  then have "base_added cs err bn bn'" using base_add_wf [OF old(6)] by simp
  then show ?thesis using ok
    unfolding old(7) by (auto simp: base_added_def loop_ok_def old(2) elim!: grows_frame split: if_splits)
next
  case (new a cs' bn')
  have "base_wf \<lparr>bn_addr = a, bn_base = b, bn_handlers = [], id_nodes = []\<rparr>"
    using new(1) key by (auto simp: base_wf_def)
  from base_add_wf [OF new(4) this]
  have b: "grows cs' [a] (blocks_bases [bn'])" "base_ok bn'" by (simp_all add: base_added_def)
  then have "grows cs [] (blocks_bases [bn'])"
  proof -
    obtain used rest where "cs' = map Some used @ rest" "mset (blocks_bases [bn']) = mset [a] + mset used"
      using b(1) by (auto simp: grows_def)
    then show ?thesis unfolding grows_def new(2) by (intro exI [of _ "a # used"] exI [of _ rest]) simp
  qed
  then have "grows cs (blocks [ln]) (blocks [ln'])" unfolding new(5) by (rule grows_frame) simp_all
  then show ?thesis using b(2) ok new by (simp add: loop_ok_def)
next
  case fail
  then show ?thesis by simp
qed

lemma add_cases:
  assumes add: "add_to_nodes cs b i h arg legacy nodes = (err, nodes', ctx)"
  obtains
    (new) a cs' ln' where "cs = Some a # cs'" "err = ESP_OK"
      "loop_node_add_handler cs' \<lparr>ln_addr = a, ln_handlers = [], base_nodes = []\<rparr> b i h arg legacy = (ESP_OK, ln', ctx)"
      "nodes' = nodes @ [ln']"
  | (old) xs ln ln' where "nodes = xs @ [ln]" "loop_node_add_handler cs ln b i h arg legacy = (err, ln', ctx)"
      "nodes' = xs @ [ln']" "b = esp_event_any_base \<and> i = ESP_EVENT_ANY_ID \<longrightarrow> base_nodes ln = []"
  | (fail) "err \<noteq> ESP_OK" "nodes' = nodes"
proof (cases "nodes = [] \<or> base_nodes (last nodes) \<noteq> [] \<and> b = esp_event_any_base \<and> i = ESP_EVENT_ANY_ID")
  case True
  show ?thesis
  proof (cases "\<exists>a cs'. cs = Some a # cs'")
    case ex: True
    then obtain a cs' where cs: "cs = Some a # cs'" by blast
    let ?ln = "\<lparr>ln_addr = a, ln_handlers = [], base_nodes = []\<rparr>"
    obtain e ln' c where e: "loop_node_add_handler cs' ?ln b i h arg legacy = (e, ln', c)"
      by (cases "loop_node_add_handler cs' ?ln b i h arg legacy") auto
    have "(err, nodes', ctx) = (if e = ESP_OK then (ESP_OK, nodes @ [ln'], c) else (e, nodes, c))"
      using add True cs e by (simp add: add_to_nodes_def Let_def)
    then show ?thesis using new [OF cs] fail e by (cases "e = ESP_OK") auto
  next
    case no: False
    have "(err, nodes') = (ESP_ERR_NO_MEM, nodes)"
      using add True no by (auto simp: add_to_nodes_def Let_def split: list.splits option.splits)
    then show ?thesis using fail by simp
  qed
next
  case False
  then have sp: "nodes = butlast nodes @ [last nodes]" by simp
  obtain e ln' c where e: "loop_node_add_handler cs (last nodes) b i h arg legacy = (e, ln', c)"
    by (cases "loop_node_add_handler cs (last nodes) b i h arg legacy") auto
  have "(err, nodes', ctx) = (e, butlast nodes @ [ln'], c)"
    using add False e by (simp add: add_to_nodes_def Let_def)
  then show ?thesis using old [OF sp] e False by auto
qed

lemma add_keeps_inv:
  assumes add: "add_to_nodes cs b i h arg legacy nodes = (err, nodes', ctx)"
    and inv: "nodes_inv nodes" and fresh: "distinct (blocks nodes @ List.map_filter id cs)"
    and key: "b = esp_event_any_base \<Longrightarrow> i = ESP_EVENT_ANY_ID"
  shows "nodes_inv nodes' \<and> (err \<noteq> ESP_OK \<longrightarrow> nodes' = nodes)"
proof -
  have "grows cs (blocks nodes) (blocks nodes') \<and> list_all loop_ok nodes' \<and> (err \<noteq> ESP_OK \<longrightarrow> nodes' = nodes)"
    using add
  proof (cases rule: add_cases)
    case (new a cs' ln')
    from loop_add_wf [OF new(3) _ key]
    obtain used rest where "cs' = map Some used @ rest" "mset (blocks [ln']) = mset [a] + mset used" and ok: "loop_ok ln'"
      by (auto simp: grows_def)
    then have "grows cs (blocks nodes) (blocks nodes')"
      unfolding grows_def new by (intro exI [of _ "a # used"] exI [of _ rest]) simp
    then show ?thesis using inv ok new by (simp add: nodes_inv_def)
  next
    case (old xs ln ln')
    have "list_all base_ok (base_nodes ln)" using inv old(1) by (simp add: nodes_inv_def loop_ok_def)
    from loop_add_wf [OF old(2) this key] inv show ?thesis
      by (auto simp: old(1,3) nodes_inv_def elim!: grows_frame split: if_splits)
  next
    case fail
    then show ?thesis using inv by (simp add: nodes_inv_def)
  qed
  then show ?thesis using grows_distinct [OF _ fresh] by (simp add: nodes_inv_def)
qed

subsection \<open>A new registration comes last\<close>

definition is_instance :: "nat \<Rightarrow> nat \<Rightarrow> nat option \<Rightarrow> esp_event_handler_node_t \<Rightarrow> bool" where
  "is_instance h arg ctx n \<longleftrightarrow> hn_handler n = h \<and> hn_arg n = arg \<and> ctx = Some (handler_ctx n)"

definition comes_last :: "event_key \<Rightarrow> esp_event_handler_node_t \<Rightarrow> registration list \<Rightarrow> registration list \<Rightarrow> bool" where
  "comes_last k n rs rs' \<longleftrightarrow> (\<forall>ev. relevant ev rs' = relevant ev rs @ relevant ev [(k, n)])"

lemma comes_lastI:
  assumes "comes_last k n rs rs'" and "\<And>ev. key_matches ev k \<Longrightarrow> relevant ev ys = []"
  shows "comes_last k n (xs @ rs @ ys) (xs @ rs' @ ys)"
  using assms unfolding comes_last_def by (auto simp: relevant_simps(4))

lemma comes_last_append [simp]: "comes_last k n rs (rs @ [(k, n)])"
  by (simp add: comes_last_def)

lemma handler_add_instance:
  assumes "handler_instances_add cs hs h arg False = (ESP_OK, hs', ctx)"
  shows "\<exists>n. is_instance h arg ctx n \<and> hs' = hs @ [n]"
  using assms by (auto simp: handler_instances_add_def is_instance_def split: list.splits option.splits)

lemma other_ids_irrelevant:
  assumes "list_all id_ok ys" and "\<forall>z \<in> set ys. in_id z \<noteq> i" and "i \<noteq> ESP_EVENT_ANY_ID" and "key_matches ev (b, i)"
  shows "relevant ev (regs_ids b ys) = []"
  using assms by (induction ys) (auto simp: key_matches_def id_ok_def)

lemma other_bases_irrelevant:
  assumes "list_all base_ok ys" and "\<forall>z \<in> set ys. bn_base z \<noteq> b"
    and "\<not> (b = esp_event_any_base \<and> i = ESP_EVENT_ANY_ID)" and "key_matches ev (b, i)"
  shows "relevant ev (regs_bases ys) = []"
proof -
  have "\<not> key_matches ev (bn_base z, j)" if "z \<in> set ys" for z j
    using that assms by (auto simp: key_matches_def list_all_iff base_ok_def base_wf_def)
  moreover have "fst r \<in> (\<lambda>z. (bn_base z, snd (fst r))) ` set ys" if "r \<in> set (regs_bases ys)" for r
    using that by (auto simp: regs_bases_def regs_base_def regs_ids_def)
  ultimately show ?thesis unfolding relevant_def filter_empty_conv by (metis (no_types, lifting) imageE)
qed

lemma base_add_order:
  assumes add: "base_node_add_handler cs bn i h arg False = (ESP_OK, bn', ctx)" and wf: "base_wf bn"
    and any_id: "i = ESP_EVENT_ANY_ID \<longrightarrow> id_nodes bn = []"
  shows "\<exists>n. is_instance h arg ctx n \<and> comes_last (bn_base bn, i) n (regs_base bn) (regs_base bn')"
  using add
proof (cases rule: base_add_cases)
  case (any hs)
  obtain n where n: "is_instance h arg ctx n" "hs = bn_handlers bn @ [n]"
    using handler_add_instance [OF any(2)] by blast
  have "regs_base bn' = regs_base bn @ [((bn_base bn, i), n)]"
    using any n any_id by (simp add: regs_base_def)
  then show ?thesis using n(1) by auto
next
  case (old xs it ys hs)
  obtain n where n: "is_instance h arg ctx n" "hs = in_handlers it @ [n]"
    using handler_add_instance [OF old(5)] by blast
  let ?k = "(bn_base bn, i)" and ?p = "map (Pair (bn_base bn, ESP_EVENT_ANY_ID)) (bn_handlers bn) @ regs_ids (bn_base bn) xs"
  have "comes_last ?k n (?p @ map (Pair ?k) (in_handlers it) @ regs_ids (bn_base bn) ys)
     (?p @ (map (Pair ?k) (in_handlers it) @ [(?k, n)]) @ regs_ids (bn_base bn) ys)"
    using wf old by (intro comes_lastI other_ids_irrelevant) (auto simp: base_wf_def)
  then have "comes_last ?k n (regs_base bn) (regs_base bn')"
    using old n by (simp add: regs_base_def)
  then show ?thesis using n(1) by blast
next
  case (new a cs' hs)
  obtain n where n: "is_instance h arg ctx n" "hs = [n]"
    using handler_add_instance [OF new(5)] by auto
  have "regs_base bn' = regs_base bn @ [((bn_base bn, i), n)]"
    using new n by (simp add: regs_base_def)
  then show ?thesis using n(1) by auto
qed simp

lemma loop_add_order:
  assumes add: "loop_node_add_handler cs ln b i h arg False = (ESP_OK, ln', ctx)"
    and ok: "list_all base_ok (base_nodes ln)" and key: "b = esp_event_any_base \<Longrightarrow> i = ESP_EVENT_ANY_ID"
    and any_key: "b = esp_event_any_base \<and> i = ESP_EVENT_ANY_ID \<longrightarrow> base_nodes ln = []"
  shows "\<exists>n. is_instance h arg ctx n \<and> comes_last (b, i) n (regs_loop ln) (regs_loop ln')"
  using add
proof (cases rule: loop_add_cases)
  case (any hs)
  obtain n where n: "is_instance h arg ctx n" "hs = ln_handlers ln @ [n]"
    using handler_add_instance [OF any(3)] by blast
  have "regs_loop ln' = regs_loop ln @ [((b, i), n)]"
    using any n any_key by (simp add: regs_loop_def)
  then show ?thesis using n(1) by auto
next
  case (old xs bn ys bn')
  have wf: "base_wf bn" and ys: "list_all base_ok ys" using ok old(2) by (simp_all add: base_ok_def)
  obtain n where n: "is_instance h arg ctx n" and cl: "comes_last (b, i) n (regs_base bn) (regs_base bn')"
    using base_add_order [OF old(6) wf old(5)] old(3) by blast
  let ?p = "map (Pair (esp_event_any_base, ESP_EVENT_ANY_ID)) (ln_handlers ln) @ regs_bases xs"
  have "comes_last (b, i) n (?p @ regs_base bn @ regs_bases ys) (?p @ regs_base bn' @ regs_bases ys)"
    using cl other_bases_irrelevant [OF ys old(4,1)] by (rule comes_lastI)
  then have "comes_last (b, i) n (regs_loop ln) (regs_loop ln')"
    using old by (simp add: regs_loop_def)
  then show ?thesis using n by blast
next
  case (new a cs' bn')
  let ?bn = "\<lparr>bn_addr = a, bn_base = b, bn_handlers = [], id_nodes = []\<rparr>"
  have "base_wf ?bn" using new(1) key by (auto simp: base_wf_def)
  from base_add_order [OF new(4) this]
  obtain n where n: "is_instance h arg ctx n" and cl: "comes_last (b, i) n (regs_base ?bn) (regs_base bn')" by auto
  have "comes_last (b, i) n (regs_loop ln @ regs_base ?bn @ []) (regs_loop ln @ regs_base bn' @ [])"
    using cl by (rule comes_lastI) simp
  then show ?thesis using n new(5) by (auto simp: regs_loop_def regs_base_def)
qed simp

lemma add_order:
  assumes add: "add_to_nodes cs b i h arg False nodes = (ESP_OK, nodes', ctx)" and inv: "nodes_inv nodes"
    and key: "b = esp_event_any_base \<Longrightarrow> i = ESP_EVENT_ANY_ID"
  shows "\<exists>n. is_instance h arg ctx n \<and> comes_last (b, i) n (regs nodes) (regs nodes')"
  using add
proof (cases rule: add_cases)
  case (new a cs' ln')
  let ?ln = "\<lparr>ln_addr = a, ln_handlers = [], base_nodes = []\<rparr>"
  obtain n where n: "is_instance h arg ctx n" and cl: "comes_last (b, i) n (regs_loop ?ln) (regs_loop ln')"
    using loop_add_order [OF new(3) _ key] by auto
  have "comes_last (b, i) n (regs nodes @ regs_loop ?ln @ []) (regs nodes @ regs_loop ln' @ [])"
    using cl by (rule comes_lastI) simp
  then show ?thesis using n new(4) by (auto simp: regs_loop_def)
next
  case (old xs ln ln')
  have "list_all base_ok (base_nodes ln)" using inv old(1) by (simp add: nodes_inv_def loop_ok_def)
  from loop_add_order [OF old(2) this key old(4)]
  obtain n where n: "is_instance h arg ctx n" and cl: "comes_last (b, i) n (regs_loop ln) (regs_loop ln')" by blast
  have "comes_last (b, i) n (regs xs @ regs_loop ln @ []) (regs xs @ regs_loop ln' @ [])"
    using cl by (rule comes_lastI) simp
  then show ?thesis using n old by auto
qed simp

subsection \<open>Removing keeps the lists well-formed\<close>

lemma mset_subset_distinct: "mset xs \<subseteq># mset ys \<Longrightarrow> distinct ys \<Longrightarrow> distinct xs"
  by (metis distinct_append mset_append mset_eq_imp_distinct_iff mset_subset_eq_exists_conv ex_mset)

lemma handler_remove_wf:
  assumes "handler_instances_remove legacy tgt hs = (err, hs')"
  shows "mset (blocks_hs hs') \<subseteq># mset (blocks_hs hs) \<and> (err \<noteq> ESP_OK \<longrightarrow> hs' = hs)"
  using assms
proof (induction hs arbitrary: err hs')
  case (Cons n ns)
  have s: "mset (blocks_hs (x # xs)) = {#handler_ctx x, hn_addr x#} + mset (blocks_hs xs)" for x xs
    by (simp add: blocks_hs_def)
  obtain e r where r: "handler_instances_remove legacy tgt ns = (e, r)" by force
  show ?case using Cons r by (auto simp: s split: if_splits intro: subset_mset.add_mono)
qed simp

lemma remove_ids_wf:
  assumes "remove_from_ids i legacy tgt its = (err, its')" and "list_all id_ok its" and "distinct (map in_id its)"
  shows "mset (blocks_ids its') \<subseteq># mset (blocks_ids its) \<and> list_all id_ok its' \<and> distinct (map in_id its') \<and>
    set (map in_id its') \<subseteq> set (map in_id its) \<and> (err \<noteq> ESP_OK \<longrightarrow> length its' = length its)"
  using assms
proof (induction its arbitrary: err its')
  case (Cons it its)
  obtain res hs where hs: "handler_instances_remove legacy tgt (in_handlers it) = (res, hs)" by force
  obtain e r where r: "remove_from_ids i legacy tgt its = (e, r)" by force
  have IH: "mset (blocks_ids r) \<subseteq># mset (blocks_ids its)" "list_all id_ok r" "distinct (map in_id r)"
    "set (map in_id r) \<subseteq> set (map in_id its)" "e \<noteq> ESP_OK \<longrightarrow> length r = length its"
    using Cons.IH [OF r] Cons.prems by auto
  from handler_remove_wf [OF hs] have h: "mset (blocks_hs hs) \<subseteq># mset (blocks_hs (in_handlers it))"
    "res \<noteq> ESP_OK \<longrightarrow> hs = in_handlers it" by auto
  consider "in_id it = i" "res = ESP_OK" "hs = []" "err = ESP_OK" "its' = its"
    | "in_id it = i" "\<not> (res = ESP_OK \<and> hs = [])" "err = e" "its' = it\<lparr>in_handlers := hs\<rparr> # r"
    | "in_id it \<noteq> i" "err = e" "its' = it # r"
    using Cons.prems(1) hs r by (auto split: if_splits)
  then show ?case
  proof cases
    case 1
    have "mset (blocks_ids its) \<subseteq># mset (blocks_ids (it # its))" by (simp add: subset_mset.add_increasing)
    then show ?thesis using 1 Cons.prems by auto
  next
    case 2
    have "mset (blocks_hs hs) + mset (blocks_ids r) \<subseteq># mset (blocks_hs (in_handlers it)) + mset (blocks_ids its)"
      using h(1) IH(1) by (rule subset_mset.add_mono)
    moreover have "id_ok (it\<lparr>in_handlers := hs\<rparr>)" using 2 h(2) Cons.prems(2) by (auto simp: id_ok_def)
    ultimately show ?thesis using 2 IH Cons.prems by auto
  next
    case 3
    then show ?thesis using IH Cons.prems by (auto intro: subset_mset.add_mono)
  qed
qed simp

lemma base_remove_wf:
  assumes "base_node_remove_handler i legacy tgt bn = (err, bn')" and "base_ok bn"
  shows "mset (blocks_bases [bn']) \<subseteq># mset (blocks_bases [bn]) \<and> base_wf bn' \<and> bn_base bn' = bn_base bn \<and>
    (err \<noteq> ESP_OK \<longrightarrow> base_ok bn')"
proof (cases "i = ESP_EVENT_ANY_ID")
  case True
  then obtain hs where hs: "handler_instances_remove legacy tgt (bn_handlers bn) = (err, hs)" "bn' = bn\<lparr>bn_handlers := hs\<rparr>"
    using assms(1) by (auto simp: base_node_remove_handler_def split: prod.splits)
  from handler_remove_wf [OF hs(1)] assms(2) show ?thesis
    unfolding hs(2) by (auto simp: base_ok_def base_wf_def intro: subset_mset.add_mono)
next
  case False
  then obtain its where its: "remove_from_ids i legacy tgt (id_nodes bn) = (err, its)" "bn' = bn\<lparr>id_nodes := its\<rparr>"
    using assms(1) by (auto simp: base_node_remove_handler_def split: prod.splits)
  from remove_ids_wf [OF its(1)] assms(2) show ?thesis
    unfolding its(2) by (auto simp: base_ok_def base_wf_def intro: subset_mset.add_mono)
qed

lemma remove_bases_wf:
  assumes "remove_from_bases b i legacy tgt bs = (err, bs')" and "list_all base_ok bs"
  shows "mset (blocks_bases bs') \<subseteq># mset (blocks_bases bs) \<and> list_all base_ok bs' \<and>
    (err \<noteq> ESP_OK \<longrightarrow> length bs' = length bs)"
  using assms
proof (induction bs arbitrary: err bs')
  case (Cons bn bs)
  have split: "mset (blocks_bases (x # xs)) = mset (blocks_bases [x]) + mset (blocks_bases xs)" for x xs by simp
  obtain res bn1 where b: "base_node_remove_handler i legacy tgt bn = (res, bn1)" by force
  obtain e r where r: "remove_from_bases b i legacy tgt bs = (e, r)" by force
  have IH: "mset (blocks_bases r) \<subseteq># mset (blocks_bases bs)" "list_all base_ok r" "e \<noteq> ESP_OK \<longrightarrow> length r = length bs"
    using Cons.IH [OF r] Cons.prems by auto
  have h: "mset (blocks_bases [bn1]) \<subseteq># mset (blocks_bases [bn])" "base_wf bn1" "res \<noteq> ESP_OK \<longrightarrow> base_ok bn1"
    using base_remove_wf [OF b] Cons.prems(2) by auto
  consider "bn_base bn = b" "err = ESP_OK" "bs' = bs"
    | "bn_base bn = b" "\<not> (res = ESP_OK \<and> bn_handlers bn1 = [] \<and> id_nodes bn1 = [])" "err = e" "bs' = bn1 # r"
    | "bn_base bn \<noteq> b" "err = e" "bs' = bn # r"
    using Cons.prems(1) b r by (auto split: if_splits)
  then show ?case
  proof cases
    case 1
    have "mset (blocks_bases bs) \<subseteq># mset (blocks_bases (bn # bs))" unfolding split [of bn bs] by (simp add: subset_mset.add_increasing)
    then show ?thesis using 1 Cons.prems by auto
  next
    case 2
    have "mset (blocks_bases (bn1 # r)) \<subseteq># mset (blocks_bases (bn # bs))"
      unfolding split [of bn bs] split [of bn1 r] using h(1) IH(1) by (rule subset_mset.add_mono)
    moreover have "base_ok bn1" using 2(2) h(2,3) by (auto simp: base_ok_def)
    ultimately show ?thesis using 2 IH by auto
  next
    case 3
    have "mset (blocks_bases (bn # r)) \<subseteq># mset (blocks_bases (bn # bs))"
      unfolding split [of bn bs] split [of bn r] using subset_mset.order_refl IH(1) by (rule subset_mset.add_mono)
    then show ?thesis using 3 IH Cons.prems by auto
  qed
qed simp

lemma loop_remove_wf:
  assumes "loop_node_remove_handler b i legacy tgt ln = (err, ln')" and "loop_ok ln"
  shows "mset (blocks [ln']) \<subseteq># mset (blocks [ln]) \<and> list_all base_ok (base_nodes ln') \<and> (err \<noteq> ESP_OK \<longrightarrow> loop_ok ln')"
proof (cases "b = esp_event_any_base \<and> i = ESP_EVENT_ANY_ID")
  case True
  then obtain hs where hs: "handler_instances_remove legacy tgt (ln_handlers ln) = (err, hs)" "ln' = ln\<lparr>ln_handlers := hs\<rparr>"
    using assms(1) by (auto simp: loop_node_remove_handler_def split: prod.splits)
  from handler_remove_wf [OF hs(1)] assms(2) show ?thesis
    unfolding hs(2) by (auto simp: loop_ok_def intro: subset_mset.add_mono)
next
  case False
  then obtain bs where bs: "remove_from_bases b i legacy tgt (base_nodes ln) = (err, bs)" "ln' = ln\<lparr>base_nodes := bs\<rparr>"
    using assms(1) by (auto simp: loop_node_remove_handler_def split: prod.splits)
  from remove_bases_wf [OF bs(1)] assms(2) show ?thesis
    unfolding bs(2) by (auto simp: loop_ok_def intro: subset_mset.add_mono)
qed

lemma remove_nodes_wf:
  assumes "list_all loop_ok nodes"
  shows "mset (blocks (remove_from_nodes b i legacy tgt nodes)) \<subseteq># mset (blocks nodes) \<and>
    list_all loop_ok (remove_from_nodes b i legacy tgt nodes)"
  using assms
proof (induction nodes)
  case (Cons ln ns)
  have split: "mset (blocks (x # xs)) = mset (blocks [x]) + mset (blocks xs)" for x xs by simp
  obtain res ln1 where l: "loop_node_remove_handler b i legacy tgt ln = (res, ln1)" by force
  have h: "mset (blocks [ln1]) \<subseteq># mset (blocks [ln])" "list_all base_ok (base_nodes ln1)" "res \<noteq> ESP_OK \<longrightarrow> loop_ok ln1"
    using loop_remove_wf [OF l] Cons.prems by auto
  let ?r = "remove_from_nodes b i legacy tgt ns"
  have IH: "mset (blocks ?r) \<subseteq># mset (blocks ns)" "list_all loop_ok ?r" using Cons by auto
  show ?case
  proof (cases "res = ESP_OK \<and> base_nodes ln1 = [] \<and> ln_handlers ln1 = []")
    case True
    have "mset (blocks ns) \<subseteq># mset (blocks (ln # ns))" unfolding split [of ln ns] by (simp add: subset_mset.add_increasing)
    then show ?thesis using True l Cons.prems by simp
  next
    case False
    have "mset (blocks (ln1 # ?r)) \<subseteq># mset (blocks (ln # ns))"
      unfolding split [of ln ns] split [of ln1 ?r] using h(1) IH(1) by (rule subset_mset.add_mono)
    moreover have "loop_ok ln1" using False h(2,3) by (auto simp: loop_ok_def)
    moreover have "remove_from_nodes b i legacy tgt (ln # ns) = ln1 # ?r" using False l by auto
    ultimately show ?thesis using IH(2) by simp
  qed
qed simp

lemma remove_keeps_inv: "nodes_inv nodes \<Longrightarrow> nodes_inv (remove_from_nodes b i legacy tgt nodes)"
  unfolding nodes_inv_def using remove_nodes_wf mset_subset_distinct by blast

subsection \<open>Removing an instance removes exactly its registration\<close>

definition ctxs :: "registration list \<Rightarrow> nat list" where
  "ctxs rs = map (\<lambda>r. handler_ctx (snd r)) rs"

definition without :: "event_key \<Rightarrow> nat \<Rightarrow> registration list \<Rightarrow> registration list" where
  "without k c rs = filter (\<lambda>r. \<not> (fst r = k \<and> handler_ctx (snd r) = c)) rs"

lemma ctxs_simps [simp]:
  "ctxs [] = []" "ctxs (xs @ ys) = ctxs xs @ ctxs ys" "ctxs (map (Pair k) hs) = map handler_ctx hs"
  by (simp_all add: ctxs_def)

lemma without_simps [simp]:
  "without k c [] = []"
  "without k c (xs @ ys) = without k c xs @ without k c ys"
  "without k c (map (Pair k') hs) =
     map (Pair k') (if k' = k then filter (\<lambda>n. handler_ctx n \<noteq> c) hs else hs)"
  by (simp_all add: without_def filter_map comp_def)

lemma without_other: "c \<notin> set (ctxs rs) \<Longrightarrow> without k c rs = rs"
  by (induction rs) (auto simp: without_def ctxs_def)

lemma without_keys: "\<forall>r \<in> set rs. fst r \<noteq> k \<Longrightarrow> without k c rs = rs"
  by (simp add: without_def)

lemma handler_remove_exact:
  assumes "handler_instances_remove False c hs = (err, hs')" and "distinct (map handler_ctx hs)"
  shows "hs' = filter (\<lambda>n. handler_ctx n \<noteq> c) hs \<and> (err = ESP_OK \<longrightarrow> c \<in> handler_ctx ` set hs)"
  using assms
proof (induction hs arbitrary: err hs')
  case (Cons n ns)
  have "filter (\<lambda>m. handler_ctx m \<noteq> handler_ctx n) ns = ns"
    using Cons.prems(2) unfolding filter_id_conv by (metis distinct.simps(2) image_eqI list.set_map list.simps(9))
  then show ?case using Cons by (auto simp: is_target_def split: if_splits prod.splits)
qed simp

lemma remove_ids_exact:
  assumes "remove_from_ids i False c its = (err, its')" and "distinct (ctxs (regs_ids b its))"
  shows "regs_ids b its' = without (b, i) c (regs_ids b its) \<and> (err = ESP_OK \<longrightarrow> c \<in> set (ctxs (regs_ids b its)))"
  using assms
proof (induction its arbitrary: err its')
  case (Cons it its)
  obtain res hs where hs: "handler_instances_remove False c (in_handlers it) = (res, hs)" by force
  obtain e r where r: "remove_from_ids i False c its = (e, r)" by force
  have IH: "regs_ids b r = without (b, i) c (regs_ids b its)" "e = ESP_OK \<longrightarrow> c \<in> set (ctxs (regs_ids b its))"
    using Cons.IH [OF r] Cons.prems(2) by auto
  have h: "hs = filter (\<lambda>n. handler_ctx n \<noteq> c) (in_handlers it)" "res = ESP_OK \<longrightarrow> c \<in> handler_ctx ` set (in_handlers it)"
    using handler_remove_exact [OF hs] Cons.prems(2) by auto
  have stop: "regs_ids b its = without (b, i) c (regs_ids b its)" if "res = ESP_OK"
    using Cons.prems(2) h(2) that by (subst without_other) auto
  show ?case using Cons.prems(1) hs r IH h stop by (auto split: if_splits)
qed simp

lemma base_remove_exact:
  assumes rm: "base_node_remove_handler i False c bn = (err, bn')" and "base_wf bn" and d: "distinct (ctxs (regs_base bn))"
  shows "regs_base bn' = without (bn_base bn, i) c (regs_base bn) \<and> (err = ESP_OK \<longrightarrow> c \<in> set (ctxs (regs_base bn)))"
proof (cases "i = ESP_EVENT_ANY_ID")
  case True
  then obtain hs where hs: "handler_instances_remove False c (bn_handlers bn) = (err, hs)" "bn' = bn\<lparr>bn_handlers := hs\<rparr>"
    using rm by (auto simp: base_node_remove_handler_def split: prod.splits)
  have "without (bn_base bn, i) c (regs_ids (bn_base bn) (id_nodes bn)) = regs_ids (bn_base bn) (id_nodes bn)"
    using assms(2) True by (intro without_keys) (auto simp: regs_ids_def base_wf_def list_all_iff id_ok_def)
  then show ?thesis using handler_remove_exact [OF hs(1)] d hs(2) True by (auto simp: regs_base_def)
next
  case False
  then obtain its where its: "remove_from_ids i False c (id_nodes bn) = (err, its)" "bn' = bn\<lparr>id_nodes := its\<rparr>"
    using rm by (auto simp: base_node_remove_handler_def split: prod.splits)
  then show ?thesis using remove_ids_exact [OF its(1), of "bn_base bn"] d False by (auto simp: regs_base_def)
qed

lemma fst_regs_base: "r \<in> set (regs_base bn) \<Longrightarrow> fst (fst r) = bn_base bn"
  by (auto simp: regs_base_def regs_ids_def)

lemma remove_bases_exact:
  assumes "remove_from_bases b i False c bs = (err, bs')" and "list_all base_ok bs" and "distinct (ctxs (regs_bases bs))"
  shows "regs_bases bs' = without (b, i) c (regs_bases bs) \<and> (err = ESP_OK \<longrightarrow> c \<in> set (ctxs (regs_bases bs)))"
  using assms
proof (induction bs arbitrary: err bs')
  case (Cons bn bs)
  obtain res bn1 where b: "base_node_remove_handler i False c bn = (res, bn1)" by force
  obtain e r where r: "remove_from_bases b i False c bs = (e, r)" by force
  have IH: "regs_bases r = without (b, i) c (regs_bases bs)" "e = ESP_OK \<longrightarrow> c \<in> set (ctxs (regs_bases bs))"
    using Cons.IH [OF r] Cons.prems by auto
  have h: "regs_base bn1 = without (bn_base bn, i) c (regs_base bn)" "res = ESP_OK \<longrightarrow> c \<in> set (ctxs (regs_base bn))"
    using base_remove_exact [OF b] Cons.prems by (auto simp: base_ok_def)
  have stop: "regs_bases bs = without (b, i) c (regs_bases bs)" if "res = ESP_OK"
    using Cons.prems(3) h(2) that by (subst without_other) auto
  have empty: "regs_base bn1 = []" if "bn_handlers bn1 = []" "id_nodes bn1 = []" using that by (simp add: regs_base_def)
  have other: "without (b, i) c (regs_base bn) = regs_base bn" if "bn_base bn \<noteq> b"
    using that fst_regs_base by (intro without_keys) auto
  show ?case using Cons.prems(1) b r IH h stop empty other by (auto split: if_splits)
qed simp

lemma loop_remove_exact:
  assumes rm: "loop_node_remove_handler b i False c ln = (err, ln')" and ok: "loop_ok ln" and d: "distinct (ctxs (regs_loop ln))"
  shows "regs_loop ln' = without (b, i) c (regs_loop ln) \<and> (err = ESP_OK \<longrightarrow> c \<in> set (ctxs (regs_loop ln)))"
proof (cases "b = esp_event_any_base \<and> i = ESP_EVENT_ANY_ID")
  case True
  then obtain hs where hs: "handler_instances_remove False c (ln_handlers ln) = (err, hs)" "ln' = ln\<lparr>ln_handlers := hs\<rparr>"
    using rm by (auto simp: loop_node_remove_handler_def split: prod.splits)
  have "\<forall>r \<in> set (regs_bases (base_nodes ln)). fst r \<noteq> (b, i)"
    using ok True fst_regs_base by (fastforce simp: regs_bases_def loop_ok_def list_all_iff base_ok_def base_wf_def)
  then have "without (b, i) c (regs_bases (base_nodes ln)) = regs_bases (base_nodes ln)" by (rule without_keys)
  then show ?thesis using handler_remove_exact [OF hs(1)] d hs(2) True by (auto simp: regs_loop_def)
next
  case False
  then obtain bs where bs: "remove_from_bases b i False c (base_nodes ln) = (err, bs)" "ln' = ln\<lparr>base_nodes := bs\<rparr>"
    using rm by (auto simp: loop_node_remove_handler_def split: prod.splits)
  then show ?thesis using remove_bases_exact [OF bs(1)] d ok False by (auto simp: regs_loop_def loop_ok_def)
qed

lemma remove_nodes_exact:
  assumes "list_all loop_ok nodes" and "distinct (ctxs (regs nodes))"
  shows "regs (remove_from_nodes b i False c nodes) = without (b, i) c (regs nodes)"
  using assms
proof (induction nodes)
  case (Cons ln ns)
  obtain res ln1 where l: "loop_node_remove_handler b i False c ln = (res, ln1)" by force
  have h: "regs_loop ln1 = without (b, i) c (regs_loop ln)" "res = ESP_OK \<longrightarrow> c \<in> set (ctxs (regs_loop ln))"
    using loop_remove_exact [OF l] Cons.prems by auto
  have stop: "regs ns = without (b, i) c (regs ns)" if "res = ESP_OK"
    using Cons.prems(2) h(2) that by (subst without_other) auto
  have empty: "regs_loop ln1 = []" if "base_nodes ln1 = []" "ln_handlers ln1 = []" using that by (simp add: regs_loop_def)
  have IH: "regs (remove_from_nodes b i False c ns) = without (b, i) c (regs ns)" using Cons by simp
  show ?case using l h IH stop empty by (auto split: if_splits)
qed simp

text \<open>The contexts are among the blocks, so that no two registrations share one.\<close>

lemma ctxs_blocks: "mset (ctxs (regs nodes)) \<subseteq># mset (blocks nodes)"
proof -
  have more: "A \<subseteq># B \<Longrightarrow> A' \<subseteq># B' \<Longrightarrow> A + A' \<subseteq># add_mset x (B + B')" for A A' B B' and x :: nat
    by (metis add_mset_add_single mset_subset_eq_add_left subset_mset.add_mono subset_mset.order_trans)
  have hs: "mset (map handler_ctx hs) \<subseteq># mset (blocks_hs hs)" for hs by (simp add: blocks_hs_def)
  have ids: "mset (ctxs (regs_ids b its)) \<subseteq># mset (blocks_ids its)" for b its
    using hs by (induction its) (auto intro!: more)
  have base: "mset (ctxs (regs_base bn)) \<subseteq># mset (blocks_bases [bn])" for bn
    using more [OF hs ids] by (simp add: regs_base_def)
  have bases: "mset (ctxs (regs_bases bs)) \<subseteq># mset (blocks_bases bs)" for bs
  proof (induction bs)
    case (Cons bn bs)
    then show ?case using subset_mset.add_mono [OF base [of bn] Cons.IH] by (simp add: add.assoc)
  qed simp
  have lp: "mset (ctxs (regs_loop ln)) \<subseteq># mset (blocks [ln])" for ln
    using more [OF hs bases] by (simp add: regs_loop_def)
  show ?thesis
  proof (induction nodes)
    case (Cons ln ns)
    then show ?case using subset_mset.add_mono [OF lp [of ln] Cons.IH] by (simp add: add.assoc)
  qed simp
qed

lemma remove_exact:
  "nodes_inv nodes \<Longrightarrow> regs (remove_from_nodes b i False c nodes) = without (b, i) c (regs nodes)"
  using remove_nodes_exact mset_subset_distinct [OF ctxs_blocks] unfolding nodes_inv_def by blast

end
