(* ===== verification/Event_Dispatch.thy ===== *)
theory Event_Dispatch
  imports Event_Registry
begin

section \<open>Dispatching an event\<close>

text \<open>
  The walk over the live lists, read node by node while handlers run, comes down to running the
  handlers of the event one after the other, when the handlers leave the registrations alone.
\<close>

subsection \<open>A walk over a list that stays\<close>

fun seq_flow :: "(nat \<Rightarrow> 's \<Rightarrow> 's flow option) \<Rightarrow> nat list \<Rightarrow> 's \<Rightarrow> 's flow option" where
  "seq_flow body [] s = Some (Next s)"
| "seq_flow body (a # as) s =
     (case body a s of
        None \<Rightarrow> None
      | Some UseAfterFree \<Rightarrow> Some UseAfterFree
      | Some (Break s') \<Rightarrow> Some (Next s')
      | Some (Next s') \<Rightarrow> seq_flow body as s')"

lemma slist_next_split: "a \<notin> set pre \<Longrightarrow> slist_next a (pre @ a # as) = Some (case as of [] \<Rightarrow> None | y # _ \<Rightarrow> Some y)"
  by (induction pre) auto

lemma foreach_from_seq:
  assumes live: "\<And>s. R s \<Longrightarrow> live s = Some (pre @ as)" and d: "distinct (pre @ as)"
    and keep: "\<And>a s s'. a \<in> set as \<Longrightarrow> R s \<Longrightarrow> body a s = Some (Next s') \<Longrightarrow> R s'" and "R s"
  shows "foreach_from live body (case as of [] \<Rightarrow> None | a # _ \<Rightarrow> Some a) s = seq_flow body as s"
  using live d keep \<open>R s\<close>
proof (induction as arbitrary: pre s)
  case Nil
  then show ?case by (simp add: foreach_from.simps)
next
  case (Cons a as)
  have nx: "Option.bind (live s) (slist_next a) = Some (case as of [] \<Rightarrow> None | y # _ \<Rightarrow> Some y)"
    using Cons.prems by (simp add: slist_next_split)
  have IH: "foreach_from live body (case as of [] \<Rightarrow> None | y # _ \<Rightarrow> Some y) s' = seq_flow body as s'"
    if "body a s = Some (Next s')" for s'
  proof (rule Cons.IH [of "pre @ [a]"])
    show "live s = Some ((pre @ [a]) @ as)" if "R s" for s using Cons.prems(1) [OF that] by simp
    show "distinct ((pre @ [a]) @ as)" using Cons.prems(2) by simp
    show "R s2" if "c \<in> set as" "R s1" "body c s1 = Some (Next s2)" for c s1 s2
      using Cons.prems(3) [OF _ that(2,3)] that(1) by simp
    show "R s'" using Cons.prems(3) [OF _ Cons.prems(4) that] by simp
  qed
  show ?case
    by (subst foreach_from.simps) (auto simp: nx IH split: option.splits flow.splits)
qed

lemma foreach_seq_on:
  assumes "\<And>s. R s \<Longrightarrow> live s = Some as" and "distinct as"
    and "\<And>a s s'. a \<in> set as \<Longrightarrow> R s \<Longrightarrow> body a s = Some (Next s') \<Longrightarrow> R s'" and "R s"
  shows "slist_foreach_safe live body s = seq_flow body as s"
  using foreach_from_seq [of R live "[]" as body s] assms by (simp add: slist_foreach_safe_def)

lemma seq_flow_fold:
  assumes "\<And>x s. x \<in> set xs \<Longrightarrow> R s \<Longrightarrow> body (addr x) s = Some (Next (f x s))"
    and "\<And>x s. x \<in> set xs \<Longrightarrow> R s \<Longrightarrow> R (f x s)" and "R s"
  shows "seq_flow body (map addr xs) s = Some (Next (fold f xs s))"
  using assms by (induction xs arbitrary: s) auto

lemma find_addr_own:
  assumes "distinct (map addr ns)" and "n \<in> set ns"
  shows "find_addr addr (addr n) ns = Some n"
  using assms unfolding find_addr_def by (induction ns) force+

subsection \<open>Distinct addresses on every level\<close>

lemma distinct_loop_addrs: "distinct (blocks nodes) \<Longrightarrow> distinct (map ln_addr nodes)"
  by (induction nodes) (auto simp: blocks_def)

lemma distinct_base_addrs: "distinct (blocks_bases bs) \<Longrightarrow> distinct (map bn_addr bs)"
  by (induction bs) (auto simp: blocks_bases_def)

lemma distinct_id_addrs: "distinct (blocks_ids its) \<Longrightarrow> distinct (map in_addr its)"
  by (induction its) (auto simp: blocks_ids_def)

lemma distinct_handler_addrs: "distinct (blocks_hs hs) \<Longrightarrow> distinct (map hn_addr hs)"
  by (simp add: blocks_hs_def)

lemma distinct_in_loop:
  "distinct (blocks nodes) \<Longrightarrow> ln \<in> set nodes \<Longrightarrow> distinct (blocks_hs (ln_handlers ln)) \<and> distinct (blocks_bases (base_nodes ln))"
  by (induction nodes) auto

lemma distinct_in_base:
  "distinct (blocks_bases bs) \<Longrightarrow> bn \<in> set bs \<Longrightarrow> distinct (blocks_hs (bn_handlers bn)) \<and> distinct (blocks_ids (id_nodes bn))"
  by (induction bs) auto

lemma distinct_in_ids: "distinct (blocks_ids its) \<Longrightarrow> it \<in> set its \<Longrightarrow> distinct (blocks_hs (in_handlers it))"
  by (induction its) auto

subsection \<open>Handlers that leave the registrations alone\<close>

definition keeps_nodes :: "'w handler_code \<Rightarrow> bool" where
  "keeps_nodes code \<longleftrightarrow> (\<forall>h arg b i d lp. loop_nodes (code h arg b i d lp) = loop_nodes lp)"

abbreviation run_seq ::
  "'w handler_code \<Rightarrow> esp_event_post_instance_t \<Rightarrow> esp_event_handler_node_t list \<Rightarrow>
   'w esp_event_loop_instance_t \<Rightarrow> 'w esp_event_loop_instance_t" where
  "run_seq code post ns lp \<equiv> fold (handler_execute code post) ns lp"

lemma run_seq_nodes [simp]: "keeps_nodes code \<Longrightarrow> loop_nodes (run_seq code post ns lp) = loop_nodes lp"
  by (induction ns arbitrary: lp) (simp_all add: handler_execute_def keeps_nodes_def)

lemma run_handlers_seq:
  fixes code :: "'w handler_code"
  assumes k: "keeps_nodes code" and live: "\<And>s :: 'w esp_event_loop_instance_t. loop_nodes s = N \<Longrightarrow> live s = Some hs"
    and d: "distinct (map hn_addr hs)" and lp: "loop_nodes lp = N"
  shows "run_handlers code post live lp = Some (Next (run_seq code post hs lp))"
proof -
  let ?R = "\<lambda>s. loop_nodes s = N"
  let ?body = "\<lambda>a s. case Option.bind (live s) (find_addr hn_addr a) of
      None \<Rightarrow> Some UseAfterFree | Some n \<Rightarrow> Some (Next (handler_execute code post n s))"
  have keep: "?R (handler_execute code post n s)" if "?R s" for n s
    using k that by (simp add: handler_execute_def keeps_nodes_def)
  have "run_handlers code post live lp = seq_flow ?body (map hn_addr hs) lp"
    unfolding run_handlers_def
    by (rule foreach_seq_on [of ?R]) (use live d lp keep in \<open>auto split: option.splits\<close>)
  also have "\<dots> = Some (Next (run_seq code post hs lp))"
    by (rule seq_flow_fold [of hs ?R]) (use live find_addr_own [OF d] lp keep in auto)
  finally show ?thesis .
qed

subsection \<open>The levels of the walk\<close>

definition post_key :: "esp_event_post_instance_t \<Rightarrow> event_key" where
  "post_key post = (post_base post, post_id post)"

lemma relevant_ids:
  assumes "list_all id_ok its"
  shows "map snd (relevant ev (regs_ids b its)) =
    (if b = fst ev then concat (map (\<lambda>it. if in_id it = snd ev then in_handlers it else []) its) else [])"
  using assms by (induction its) (auto simp: key_matches_def id_ok_def comp_def)

lemma no_matching_ids:
  "\<forall>it \<in> set its. in_id it \<noteq> i \<Longrightarrow> concat (map (\<lambda>it. if in_id it = i then in_handlers it else []) its) = []"
  by simp

lemma run_ids_seq:
  fixes code :: "'w handler_code"
  assumes k: "keeps_nodes code" and N: "\<And>s :: 'w esp_event_loop_instance_t. loop_nodes s = N \<Longrightarrow> base_node_at l b s = Some bn"
    and d: "distinct (blocks_ids (id_nodes bn))" and ids: "distinct (map in_id its)" and sub: "set its \<subseteq> set (id_nodes bn)"
    and lp: "loop_nodes lp = N"
  shows "seq_flow (run_id_node code post l b) (map in_addr its) lp =
    Some (Next (run_seq code post (concat (map (\<lambda>it. if in_id it = post_id post then in_handlers it else []) its)) lp))"
  using ids sub
proof (induction its)
  case (Cons it its)
  have at: "id_node_at l b (in_addr it) s = Some it" if "loop_nodes s = N" for s :: "'w esp_event_loop_instance_t"
    using N [OF that] Cons.prems(2) find_addr_own [OF distinct_id_addrs [OF d]] by (simp add: id_node_at_def)
  show ?case
  proof (cases "in_id it = post_id post")
    case True
    have "run_handlers code post (\<lambda>s. map_option in_handlers (id_node_at l b (in_addr it) s)) lp =
        Some (Next (run_seq code post (in_handlers it) lp))"
      using k _ _ lp
    proof (rule run_handlers_seq)
      show "map_option in_handlers (id_node_at l b (in_addr it) s) = Some (in_handlers it)"
        if "loop_nodes s = N" for s :: "'w esp_event_loop_instance_t"
        using at [OF that] by simp
      show "distinct (map hn_addr (in_handlers it))"
        using distinct_in_ids [OF d] Cons.prems(2) distinct_handler_addrs by simp
    qed
    moreover have "concat (map (\<lambda>it. if in_id it = post_id post then in_handlers it else []) its) = []"
      using True Cons.prems(1) by (intro no_matching_ids) force
    ultimately show ?thesis
      using at [OF lp] True by (simp add: run_id_node_def flow_bind_def del: concat_eq_Nil_conv)
  next
    case False
    then show ?thesis using at [OF lp] Cons by (simp add: run_id_node_def)
  qed
qed simp

lemma run_id_node_keeps:
  assumes "run_id_node code post l b i s = Some (Next s')"
  shows "s' = s"
  using assms by (auto simp: run_id_node_def flow_bind_def split: option.splits flow.splits if_splits)

lemma run_base_seq:
  fixes code :: "'w handler_code"
  assumes k: "keeps_nodes code" and N: "\<And>s :: 'w esp_event_loop_instance_t. loop_nodes s = N \<Longrightarrow> base_node_at l (bn_addr bn) s = Some bn"
    and wf: "base_wf bn" and d: "distinct (blocks_hs (bn_handlers bn))" "distinct (blocks_ids (id_nodes bn))"
    and lp: "loop_nodes lp = N"
  shows "run_base_node code post l (bn_addr bn) lp =
    Some (Next (run_seq code post (map snd (relevant (post_key post) (regs_base bn))) lp))"
proof (cases "bn_base bn = post_base post")
  case True
  let ?lp = "run_seq code post (bn_handlers bn) lp"
  let ?ids = "concat (map (\<lambda>it. if in_id it = post_id post then in_handlers it else []) (id_nodes bn))"
  have lp': "loop_nodes ?lp = N" using k lp by simp
  have 1: "run_handlers code post (\<lambda>s. map_option bn_handlers (base_node_at l (bn_addr bn) s)) lp = Some (Next ?lp)"
    by (rule run_handlers_seq [OF k _ distinct_handler_addrs [OF d(1)] lp]) (simp add: N)
  have "slist_foreach_safe (\<lambda>s. map_option (map in_addr \<circ> id_nodes) (base_node_at l (bn_addr bn) s))
      (run_id_node code post l (bn_addr bn)) ?lp = seq_flow (run_id_node code post l (bn_addr bn)) (map in_addr (id_nodes bn)) ?lp"
    by (rule foreach_seq_on [of "\<lambda>s. loop_nodes s = N"])
      (use N distinct_id_addrs [OF d(2)] lp' in \<open>auto dest: run_id_node_keeps\<close>)
  also have "\<dots> = Some (Next (run_seq code post ?ids ?lp))"
    by (rule run_ids_seq [OF k N d(2) _ subset_refl lp']) (use wf in \<open>simp_all add: base_wf_def\<close>)
  finally have 2: "run_base_node code post l (bn_addr bn) lp = Some (Next (run_seq code post ?ids ?lp))"
    using True N [OF lp] 1 by (simp add: run_base_node_def flow_bind_def)
  have "map snd (relevant (post_key post) (regs_base bn)) = bn_handlers bn @ ?ids"
    using wf True relevant_ids [of "id_nodes bn" "post_key post" "bn_base bn"]
    by (simp add: regs_base_def base_wf_def post_key_def key_matches_def comp_def)
  then show ?thesis using 2 by simp
next
  case False
  have "relevant (post_key post) (regs_base bn) = []"
    using False wf fst_regs_base [of _ bn] by (fastforce simp: relevant_def filter_empty_conv key_matches_def post_key_def base_wf_def)
  then show ?thesis using False N [OF lp] by (simp add: run_base_node_def)
qed

lemma run_bases_seq:
  assumes "\<And>bn s. bn \<in> set bs \<Longrightarrow> loop_nodes s = N \<Longrightarrow> run_base_node code post l (bn_addr bn) s =
      Some (Next (run_seq code post (map snd (relevant ev (regs_base bn))) s))"
    and k: "keeps_nodes code" and lp: "loop_nodes lp = N"
  shows "seq_flow (run_base_node code post l) (map bn_addr bs) lp =
    Some (Next (run_seq code post (map snd (relevant ev (regs_bases bs))) lp))"
  using assms(1) lp by (induction bs arbitrary: lp) (simp_all add: k)

lemma run_loop_node_seq:
  fixes code :: "'w handler_code"
  assumes k: "keeps_nodes code" and N: "\<And>s :: 'w esp_event_loop_instance_t. loop_nodes s = N \<Longrightarrow> loop_node_at (ln_addr ln) s = Some ln"
    and ok: "loop_ok ln" and d: "distinct (blocks_hs (ln_handlers ln))" "distinct (blocks_bases (base_nodes ln))"
    and lp: "loop_nodes lp = N"
  shows "run_loop_node code post (ln_addr ln) lp =
    Some (Next (run_seq code post (map snd (relevant (post_key post) (regs_loop ln))) lp))"
proof -
  let ?lp = "run_seq code post (ln_handlers ln) lp"
  have lp': "loop_nodes ?lp = N" using k lp by simp
  have 1: "run_handlers code post (\<lambda>s. map_option ln_handlers (loop_node_at (ln_addr ln) s)) lp = Some (Next ?lp)"
    by (rule run_handlers_seq [OF k _ distinct_handler_addrs [OF d(1)] lp]) (simp add: N)
  have at: "base_node_at (ln_addr ln) (bn_addr bn) s = Some bn"
    if "bn \<in> set (base_nodes ln)" "loop_nodes s = N" for bn and s :: "'w esp_event_loop_instance_t"
    using N [OF that(2)] find_addr_own [OF distinct_base_addrs [OF d(2)] that(1)] by (simp add: base_node_at_def)
  have base: "run_base_node code post (ln_addr ln) (bn_addr bn) s =
      Some (Next (run_seq code post (map snd (relevant (post_key post) (regs_base bn))) s))"
    if "bn \<in> set (base_nodes ln)" "loop_nodes s = N" for bn s
  proof (rule run_base_seq [OF k _ _ _ _ that(2)])
    show "base_node_at (ln_addr ln) (bn_addr bn) s = Some bn" if "loop_nodes s = N" for s :: "'w esp_event_loop_instance_t"
      using at [OF \<open>bn \<in> set (base_nodes ln)\<close> that] .
    show "base_wf bn" using ok that(1) by (simp add: loop_ok_def list_all_iff base_ok_def)
    show "distinct (blocks_hs (bn_handlers bn))" "distinct (blocks_ids (id_nodes bn))"
      using distinct_in_base [OF d(2) that(1)] by simp_all
  qed
  let ?R = "\<lambda>s. loop_nodes s = N"
  have "slist_foreach_safe (\<lambda>s. map_option (map bn_addr \<circ> base_nodes) (loop_node_at (ln_addr ln) s))
      (run_base_node code post (ln_addr ln)) ?lp = seq_flow (run_base_node code post (ln_addr ln)) (map bn_addr (base_nodes ln)) ?lp"
  proof (rule foreach_seq_on [of ?R])
    show "map_option (map bn_addr \<circ> base_nodes) (loop_node_at (ln_addr ln) s) = Some (map bn_addr (base_nodes ln))"
      if "?R s" for s :: "'w esp_event_loop_instance_t" using N [OF that] by simp
    show "distinct (map bn_addr (base_nodes ln))" using d(2) by (rule distinct_base_addrs)
    show "?R s'" if "a \<in> set (map bn_addr (base_nodes ln))" "?R s" "run_base_node code post (ln_addr ln) a s = Some (Next s')" for a s s'
      using that base k by auto
    show "?R ?lp" by (rule lp')
  qed
  also have "\<dots> = Some (Next (run_seq code post (map snd (relevant (post_key post) (regs_bases (base_nodes ln)))) ?lp))"
    using base k lp' by (rule run_bases_seq)
  finally show ?thesis
    using 1 by (simp add: run_loop_node_def flow_bind_def regs_loop_def key_matches_def comp_def)
qed

lemma run_loops_seq:
  assumes "\<And>ln s. ln \<in> set ns \<Longrightarrow> loop_nodes s = N \<Longrightarrow> run_loop_node code post (ln_addr ln) s =
      Some (Next (run_seq code post (map snd (relevant ev (regs_loop ln))) s))"
    and k: "keeps_nodes code" and lp: "loop_nodes lp = N"
  shows "seq_flow (run_loop_node code post) (map ln_addr ns) lp =
    Some (Next (run_seq code post (map snd (relevant ev (regs ns))) lp))"
  using assms(1) lp by (induction ns arbitrary: lp) (simp_all add: k)

lemma dispatch_seq:
  fixes code :: "'w handler_code"
  assumes k: "keeps_nodes code" and inv: "nodes_inv (loop_nodes lp)"
  shows "dispatch code post lp = Some (Next (run_seq code post (handlers_of (post_key post) (loop_nodes lp)) lp))"
proof -
  let ?N = "loop_nodes lp" and ?R = "\<lambda>s. loop_nodes s = loop_nodes lp"
  have d: "distinct (blocks ?N)" and ok: "list_all loop_ok ?N" using inv by (simp_all add: nodes_inv_def)
  have one: "run_loop_node code post (ln_addr ln) s =
      Some (Next (run_seq code post (map snd (relevant (post_key post) (regs_loop ln))) s))"
    if ln: "ln \<in> set ?N" and "?R s" for ln s
  proof (rule run_loop_node_seq [OF k _ _ _ _ that(2)])
    show "loop_node_at (ln_addr ln) s = Some ln" if "?R s" for s :: "'w esp_event_loop_instance_t"
      using find_addr_own [OF distinct_loop_addrs [OF d] ln] that by (simp add: loop_node_at_def)
    show "loop_ok ln" using ok ln by (simp add: list_all_iff)
    show "distinct (blocks_hs (ln_handlers ln))" "distinct (blocks_bases (base_nodes ln))"
      using distinct_in_loop [OF d ln] by simp_all
  qed
  have "dispatch code post lp = seq_flow (run_loop_node code post) (map ln_addr ?N) lp"
    unfolding dispatch_def
  proof (rule foreach_seq_on [of ?R])
    show "distinct (map ln_addr ?N)" using d by (rule distinct_loop_addrs)
    show "?R s'" if "a \<in> set (map ln_addr ?N)" "?R s" "run_loop_node code post a s = Some (Next s')" for a s s'
      using that one k by auto
  qed simp_all
  also have "\<dots> = Some (Next (run_seq code post (map snd (relevant (post_key post) (regs ?N))) lp))"
    using one k by (rule run_loops_seq) simp_all
  finally show ?thesis by (simp add: handlers_of_def)
qed

end
