(* ===== verification/Event_Spec.thy ===== *)
theory Event_Spec
  imports Event_Dispatch
begin

section \<open>Properties of event loops\<close>

text \<open>
  The interface between registration and dispatch is a registry: \<open>ordered_registry\<close> states it, the
  event loop provides it, and the documented order of execution follows. Further: what a run of the
  loop dispatches, and how it ends, while posts keep coming; what holds of every loop in use, and the places where the
  code departs from its documentation.
\<close>

subsection \<open>Registries\<close>

type_synonym entry = "nat \<times> nat \<times> nat"

text \<open>
  The registrations in effect after a sequence of operations, in the order in which they were made:
  an entry has the handler, its argument and the instance; \<open>other\<close> is any other operation.
\<close>

inductive history ::
  "(event_key \<Rightarrow> entry \<Rightarrow> 's \<Rightarrow> 's \<Rightarrow> bool) \<Rightarrow> (event_key \<Rightarrow> nat \<Rightarrow> 's \<Rightarrow> 's \<Rightarrow> bool) \<Rightarrow> ('s \<Rightarrow> 's \<Rightarrow> bool) \<Rightarrow>
   's \<Rightarrow> 's \<Rightarrow> (event_key \<times> entry) list \<Rightarrow> bool" for add del other s0 where
  history_init: "history add del other s0 s0 []"
| history_add: "history add del other s0 s R \<Longrightarrow> add k e s s' \<Longrightarrow> history add del other s0 s' (R @ [(k, e)])"
| history_del: "history add del other s0 s R \<Longrightarrow> del k c s s' \<Longrightarrow>
    history add del other s0 s' (filter (\<lambda>r. \<not> (fst r = k \<and> snd (snd (snd r)) = c)) R)"
| history_other: "history add del other s0 s R \<Longrightarrow> other s s' \<Longrightarrow> history add del other s0 s' R"

locale ordered_registry =
  fixes inv :: "'s \<Rightarrow> bool" and view :: "event_key \<Rightarrow> 's \<Rightarrow> (event_key \<times> entry) list"
    and add :: "event_key \<Rightarrow> entry \<Rightarrow> 's \<Rightarrow> 's \<Rightarrow> bool" and del :: "event_key \<Rightarrow> nat \<Rightarrow> 's \<Rightarrow> 's \<Rightarrow> bool"
    and other :: "'s \<Rightarrow> 's \<Rightarrow> bool"
  assumes add_inv: "inv s \<Longrightarrow> add k e s s' \<Longrightarrow> inv s'"
    and add_view: "inv s \<Longrightarrow> add k e s s' \<Longrightarrow> view ev s' = view ev s @ (if key_matches ev k then [(k, e)] else [])"
    and del_inv: "inv s \<Longrightarrow> del k c s s' \<Longrightarrow> inv s'"
    and del_view: "inv s \<Longrightarrow> del k c s s' \<Longrightarrow>
      view ev s' = filter (\<lambda>r. \<not> (fst r = k \<and> snd (snd (snd r)) = c)) (view ev s)"
    and other_inv: "inv s \<Longrightarrow> other s s' \<Longrightarrow> inv s'"
    and other_view: "inv s \<Longrightarrow> other s s' \<Longrightarrow> view ev s' = view ev s"
begin

lemma history_view:
  assumes "history add del other s0 s R" and "inv s0" and "\<And>ev. view ev s0 = []"
  shows "inv s \<and> view ev s = filter (\<lambda>r. key_matches ev (fst r)) R"
  using assms(1)
proof (induction rule: history.induct)
  case history_init
  then show ?case using assms(2,3) by simp
next
  case (history_add s R k e s')
  then show ?case using add_inv [of s k e s'] add_view [of s k e s' ev] by simp
next
  case (history_del s R k c s')
  have "filter P (filter Q R) = filter Q (filter P R)" for P Q by (simp add: filter_filter conj_commute)
  then show ?case using history_del del_inv [of s k c s'] del_view [of s k c s' ev] by simp
next
  case (history_other s R s')
  then show ?case using other_inv [of s s'] other_view [of s s' ev] by simp
qed

end

subsection \<open>The event loop as a registry\<close>

definition entry_of :: "esp_event_handler_node_t \<Rightarrow> entry" where
  "entry_of n = (hn_handler n, hn_arg n, handler_ctx n)"

definition key_of :: "nat \<Rightarrow> int \<Rightarrow> event_key" where
  "key_of b i = (if b = ESP_EVENT_ANY_BASE then esp_event_any_base else b, i)"

definition loop_view :: "event_key \<Rightarrow> 'w esp_event_loop_instance_t \<Rightarrow> (event_key \<times> entry) list" where
  "loop_view ev lp = map (map_prod id entry_of) (relevant ev (regs (loop_nodes lp)))"

text \<open>The allocator hands out blocks that are not in use; a caller's base is not the library's own string.\<close>

definition fresh :: "nat option list \<Rightarrow> 'w esp_event_loop_instance_t \<Rightarrow> bool" where
  "fresh cs lp \<longleftrightarrow> distinct (blocks (loop_nodes lp) @ List.map_filter id cs)"

definition registers :: "event_key \<Rightarrow> entry \<Rightarrow> 'w esp_event_loop_instance_t \<Rightarrow> 'w esp_event_loop_instance_t \<Rightarrow> bool" where
  "registers k e lp lp' \<longleftrightarrow> (\<exists>cs b i. fresh cs lp \<and> b \<noteq> esp_event_any_base \<and> k = key_of b i \<and>
     esp_event_handler_instance_register_with cs b i (fst e) (fst (snd e)) lp = Some (ESP_OK, Some (snd (snd e)), lp'))"

definition unregisters :: "event_key \<Rightarrow> nat \<Rightarrow> 'w esp_event_loop_instance_t \<Rightarrow> 'w esp_event_loop_instance_t \<Rightarrow> bool" where
  "unregisters k c lp lp' \<longleftrightarrow> (\<exists>b i. b \<noteq> esp_event_any_base \<and> k = key_of b i \<and>
     esp_event_handler_instance_unregister_with b i (Some c) lp = (ESP_OK, lp'))"

definition same_nodes :: "'w esp_event_loop_instance_t \<Rightarrow> 'w esp_event_loop_instance_t \<Rightarrow> bool" where
  "same_nodes lp lp' \<longleftrightarrow> loop_nodes lp' = loop_nodes lp"

lemma registersI:
  "esp_event_handler_instance_register_with cs b i h arg lp = Some (ESP_OK, Some c, lp') \<Longrightarrow> fresh cs lp \<Longrightarrow>
   b \<noteq> esp_event_any_base \<Longrightarrow> registers (key_of b i) (h, arg, c) lp lp'"
  unfolding registers_def by fastforce

lemma registersE:
  assumes "registers k e lp lp'"
  obtains cs nodes' where "add_to_nodes cs (fst k) (snd k) (fst e) (fst (snd e)) False (loop_nodes lp) = (ESP_OK, nodes', Some (snd (snd e)))"
    "lp' = lp\<lparr>loop_nodes := nodes'\<rparr>" "fresh cs lp" "fst k = esp_event_any_base \<longrightarrow> snd k = ESP_EVENT_ANY_ID"
proof -
  obtain cs b i where f: "fresh cs lp" and b: "b \<noteq> esp_event_any_base" and k: "k = key_of b i"
    and r: "esp_event_handler_instance_register_with cs b i (fst e) (fst (snd e)) lp = Some (ESP_OK, Some (snd (snd e)), lp')"
    using assms by (auto simp: registers_def)
  obtain err nodes' ctx where a: "add_to_nodes cs (fst k) (snd k) (fst e) (fst (snd e)) False (loop_nodes lp) = (err, nodes', ctx)"
    using prod_cases3 by blast
  show ?thesis
    using that [OF _ _ f] a r b k
    by (auto simp: esp_event_handler_instance_register_with_def esp_event_handler_register_with_internal_def key_of_def
        split: if_splits)
qed

lemma unregistersE:
  assumes "unregisters k c lp lp'"
  shows "lp' = lp\<lparr>loop_nodes := remove_from_nodes (fst k) (snd k) False c (loop_nodes lp)\<rparr>"
  using assms unfolding unregisters_def
  by (auto simp: esp_event_handler_instance_unregister_with_def esp_event_handler_unregister_with_internal_def
      key_of_def split: if_splits)

lemma registers_view:
  assumes inv: "nodes_inv (loop_nodes lp)" and reg: "registers k e lp lp'"
  shows "nodes_inv (loop_nodes lp') \<and> loop_view ev lp' = loop_view ev lp @ (if key_matches ev k then [(k, e)] else [])"
proof -
  obtain cs nodes' where a: "add_to_nodes cs (fst k) (snd k) (fst e) (fst (snd e)) False (loop_nodes lp) =
      (ESP_OK, nodes', Some (snd (snd e)))" and lp': "lp' = lp\<lparr>loop_nodes := nodes'\<rparr>" and f: "fresh cs lp"
    and key': "fst k = esp_event_any_base \<longrightarrow> snd k = ESP_EVENT_ANY_ID"
    using reg by (rule registersE)
  have key: "fst k = esp_event_any_base \<Longrightarrow> snd k = ESP_EVENT_ANY_ID" using key' by simp
  obtain n where n: "is_instance (fst e) (fst (snd e)) (Some (snd (snd e))) n"
    and cl: "comes_last k n (regs (loop_nodes lp)) (regs nodes')"
    using add_order [OF a inv key] by auto
  have "entry_of n = e" using n by (cases e) (simp add: entry_of_def is_instance_def)
  then have "loop_view ev lp' = loop_view ev lp @ (if key_matches ev k then [(k, e)] else [])"
    using cl [unfolded comes_last_def, rule_format, of ev] by (simp add: loop_view_def lp')
  moreover have "nodes_inv nodes'" using add_keeps_inv [OF a inv _ key] f by (simp add: fresh_def)
  ultimately show ?thesis by (simp add: lp')
qed

lemma unregisters_view:
  assumes inv: "nodes_inv (loop_nodes lp)" and un: "unregisters k c lp lp'"
  shows "nodes_inv (loop_nodes lp') \<and>
    loop_view ev lp' = filter (\<lambda>r. \<not> (fst r = k \<and> snd (snd (snd r)) = c)) (loop_view ev lp)"
proof -
  have "regs (loop_nodes lp') = without k c (regs (loop_nodes lp))"
    using unregistersE [OF un] remove_exact [OF inv, of "fst k" "snd k" c] by simp
  moreover have "relevant ev (without k c rs) = without k c (relevant ev rs)" for rs
    by (simp add: without_def relevant_def filter_filter conj_commute)
  moreover have "map (map_prod id entry_of) (without k c rs) =
      filter (\<lambda>r. \<not> (fst r = k \<and> snd (snd (snd r)) = c)) (map (map_prod id entry_of) rs)" for rs
    by (simp add: without_def filter_map comp_def entry_of_def)
  ultimately have "loop_view ev lp' = filter (\<lambda>r. \<not> (fst r = k \<and> snd (snd (snd r)) = c)) (loop_view ev lp)"
    by (simp only: loop_view_def)
  then show ?thesis using unregistersE [OF un] remove_keeps_inv [OF inv] by simp
qed

interpretation event_registry: ordered_registry "\<lambda>lp. nodes_inv (loop_nodes lp)" loop_view registers unregisters same_nodes
proof unfold_locales
  show "nodes_inv (loop_nodes lp')" if "nodes_inv (loop_nodes lp)" "registers k e lp lp'" for lp lp' :: "'a esp_event_loop_instance_t" and k e
    using registers_view [OF that] by simp
  show "loop_view ev lp' = loop_view ev lp @ (if key_matches ev k then [(k, e)] else [])"
    if "nodes_inv (loop_nodes lp)" "registers k e lp lp'" for lp lp' :: "'a esp_event_loop_instance_t" and k e ev
    using registers_view [OF that] by simp
  show "nodes_inv (loop_nodes lp')" if "nodes_inv (loop_nodes lp)" "unregisters k c lp lp'" for lp lp' :: "'a esp_event_loop_instance_t" and k c
    using unregisters_view [OF that] by simp
  show "loop_view ev lp' = filter (\<lambda>r. \<not> (fst r = k \<and> snd (snd (snd r)) = c)) (loop_view ev lp)"
    if "nodes_inv (loop_nodes lp)" "unregisters k c lp lp'" for lp lp' :: "'a esp_event_loop_instance_t" and k c ev
    using unregisters_view [OF that] by simp
qed (simp_all add: same_nodes_def loop_view_def)

subsection \<open>Order of execution\<close>

definition exec_entry ::
  "'w handler_code \<Rightarrow> esp_event_post_instance_t \<Rightarrow> entry \<Rightarrow> 'w esp_event_loop_instance_t \<Rightarrow> 'w esp_event_loop_instance_t" where
  "exec_entry code post e lp =
     code (fst e) (fst (snd e)) (post_base post) (post_id post) (if data_set post then Some (post_data post) else None) lp"

lemma handler_execute_entry: "handler_execute code post n = exec_entry code post (entry_of n)"
  by (simp add: fun_eq_iff handler_execute_def exec_entry_def entry_of_def)

lemma run_seq_view:
  "run_seq code post (handlers_of ev (loop_nodes lp)) s = fold (\<lambda>r. exec_entry code post (snd r)) (loop_view ev lp) s"
  by (simp add: handlers_of_def loop_view_def fold_map comp_def handler_execute_entry)

text \<open>
  Claim C19. For every sequence of registrations and unregistrations of handler instances (and of
  operations that leave the registrations alone) on a new loop, dispatching an event runs exactly
  the handlers whose registration is in effect and concerns the event, in the order of their
  registration, whichever lists they are in; no freed node is read.
\<close>

theorem handlers_run_in_registration_order:
  assumes hist: "history registers unregisters same_nodes lp0 lp R" and init: "loop_nodes lp0 = []"
    and code: "keeps_nodes code"
  shows "dispatch code post lp = Some (Next (fold (\<lambda>r. exec_entry code post (snd r))
    (filter (\<lambda>r. key_matches (post_key post) (fst r)) R) lp))"
proof -
  have "nodes_inv (loop_nodes lp) \<and> loop_view (post_key post) lp = filter (\<lambda>r. key_matches (post_key post) (fst r)) R"
    using hist by (rule event_registry.history_view) (simp_all add: init nodes_inv_def loop_view_def)
  then show ?thesis using dispatch_seq [OF code, of lp post] run_seq_view [of code post "post_key post" lp lp] by simp
qed

definition ex_loop :: "nat list esp_event_loop_instance_t" where
  "ex_loop = \<lparr>loop_name = [], queue_length = 2, queue = [], task = None, running_task = None, loop_nodes = [],
     data_copies = 0, env = []\<rparr>"

definition ex_node :: "nat \<Rightarrow> nat \<Rightarrow> esp_event_handler_node_t" where
  "ex_node h c = \<lparr>hn_addr = c + 50, handler_ctx = c, hn_handler = h, hn_arg = 0\<rparr>"

definition ex_post :: esp_event_post_instance_t where
  "ex_post = \<lparr>data_allocated = False, data_set = False, post_base = 5, post_id = 1, post_data = []\<rparr>"

definition log_code :: "nat list handler_code" where
  "log_code h arg b i d lp = lp\<lparr>env := env lp @ [h]\<rparr>"

definition ex_nodes1 :: "esp_event_loop_node_t list" where
  "ex_nodes1 = [\<lparr>ln_addr = 20, ln_handlers = [], base_nodes =
     [\<lparr>bn_addr = 21, bn_base = 5, bn_handlers = [], id_nodes =
        [\<lparr>in_addr = 22, in_id = 1, in_handlers = [ex_node 10 31]\<rparr>]\<rparr>]\<rparr>]"

definition ex_nodes2 :: "esp_event_loop_node_t list" where
  "ex_nodes2 = ex_nodes1 @ [\<lparr>ln_addr = 23, ln_handlers = [ex_node 11 32], base_nodes = []\<rparr>]"

lemma log_code_keeps [simp]: "keeps_nodes log_code"
  by (simp add: keeps_nodes_def log_code_def)

lemma ex_registers1: "registers (5, 1) (10, 0, 31) ex_loop (ex_loop\<lparr>loop_nodes := ex_nodes1\<rparr>)"
proof -
  have "esp_event_handler_instance_register_with (map Some [20, 21, 22, 81, 31]) 5 1 10 0 ex_loop =
      Some (ESP_OK, Some 31, ex_loop\<lparr>loop_nodes := ex_nodes1\<rparr>)" by code_simp
  moreover have "fresh (map Some [20, 21, 22, 81, 31]) ex_loop" by code_simp
  moreover have "(5::nat) \<noteq> esp_event_any_base" by code_simp
  ultimately have "registers (key_of 5 1) (10, 0, 31) ex_loop (ex_loop\<lparr>loop_nodes := ex_nodes1\<rparr>)" by (rule registersI)
  moreover have "key_of 5 1 = (5, 1)" by code_simp
  ultimately show ?thesis by simp
qed

lemma ex_registers2:
  "registers (esp_event_any_base, ESP_EVENT_ANY_ID) (11, 0, 32) (ex_loop\<lparr>loop_nodes := ex_nodes1\<rparr>)
     (ex_loop\<lparr>loop_nodes := ex_nodes2\<rparr>)"
proof -
  have "esp_event_handler_instance_register_with (map Some [23, 82, 32]) ESP_EVENT_ANY_BASE ESP_EVENT_ANY_ID 11 0
      (ex_loop\<lparr>loop_nodes := ex_nodes1\<rparr>) = Some (ESP_OK, Some 32, ex_loop\<lparr>loop_nodes := ex_nodes2\<rparr>)" by code_simp
  moreover have "fresh (map Some [23, 82, 32]) (ex_loop\<lparr>loop_nodes := ex_nodes1\<rparr>)" by code_simp
  moreover have "ESP_EVENT_ANY_BASE \<noteq> esp_event_any_base" by code_simp
  ultimately have "registers (key_of ESP_EVENT_ANY_BASE ESP_EVENT_ANY_ID) (11, 0, 32) (ex_loop\<lparr>loop_nodes := ex_nodes1\<rparr>)
     (ex_loop\<lparr>loop_nodes := ex_nodes2\<rparr>)" by (rule registersI)
  then show ?thesis by (simp add: key_of_def)
qed

theorem handlers_run_in_registration_order_witness:
  "dispatch log_code ex_post (ex_loop\<lparr>loop_nodes := ex_nodes2\<rparr>) =
     Some (Next (ex_loop\<lparr>loop_nodes := ex_nodes2, env := [10, 11]\<rparr>))"
proof -
  have "history registers unregisters same_nodes ex_loop (ex_loop\<lparr>loop_nodes := ex_nodes2\<rparr>)
      (([] @ [((5, 1), 10, 0, 31)]) @ [((esp_event_any_base, ESP_EVENT_ANY_ID), 11, 0, 32)])"
    by (rule history_add, rule history_add, rule history_init, rule ex_registers1, rule ex_registers2)
  from handlers_run_in_registration_order [OF this _ log_code_keeps, of ex_post]
  show ?thesis
    by (simp add: ex_loop_def ex_post_def post_key_def key_matches_def exec_entry_def log_code_def
        esp_event_any_base_def ESP_EVENT_ANY_ID_def)
qed

subsection \<open>Running a loop\<close>

text \<open>Handlers that work on their environment only, and what the handlers of an event make of it.\<close>

definition env_code :: "(nat \<Rightarrow> nat \<Rightarrow> nat \<Rightarrow> int \<Rightarrow> byte list option \<Rightarrow> 'w \<Rightarrow> 'w) \<Rightarrow> 'w handler_code" where
  "env_code f h arg b i d lp = lp\<lparr>env := f h arg b i d (env lp)\<rparr>"

definition handle_post ::
  "(nat \<Rightarrow> nat \<Rightarrow> nat \<Rightarrow> int \<Rightarrow> byte list option \<Rightarrow> 'w \<Rightarrow> 'w) \<Rightarrow> esp_event_loop_node_t list \<Rightarrow>
   esp_event_post_instance_t \<Rightarrow> 'w \<Rightarrow> 'w" where
  "handle_post f nodes post w =
     fold (\<lambda>n. f (hn_handler n) (hn_arg n) (post_base post) (post_id post)
             (if data_set post then Some (post_data post) else None)) (handlers_of (post_key post) nodes) w"

lemma env_code_keeps [simp]: "keeps_nodes (env_code f)"
  by (simp add: keeps_nodes_def env_code_def)

lemma run_seq_env:
  "run_seq (env_code f) post ns lp = lp\<lparr>env := fold (\<lambda>n. f (hn_handler n) (hn_arg n) (post_base post) (post_id post)
     (if data_set post then Some (post_data post) else None)) ns (env lp)\<rparr>"
  by (induction ns arbitrary: lp) (simp_all add: handler_execute_def env_code_def)

lemma dispatch_env:
  "nodes_inv (loop_nodes lp) \<Longrightarrow>
   dispatch (env_code f) post lp = Some (Next (lp\<lparr>env := handle_post f (loop_nodes lp) post (env lp)\<rparr>))"
  by (simp add: dispatch_seq run_seq_env handle_post_def)

text \<open>
  The posts that other tasks and interrupts send while the running task waits, \<open>ws k\<close> during its
  \<open>k\<close>-th receive, with the copies of their data.
\<close>

definition copies :: "esp_event_post_instance_t list \<Rightarrow> nat" where
  "copies ps = length (filter data_allocated ps)"

definition arrive ::
  "(nat \<Rightarrow> esp_event_post_instance_t list) \<Rightarrow> nat \<Rightarrow> 'w esp_event_loop_instance_t \<Rightarrow> 'w esp_event_loop_instance_t" where
  "arrive ws k lp = lp\<lparr>queue := queue lp @ ws k, data_copies := data_copies lp + copies (ws k)\<rparr>"

text \<open>
  The posts \<open>ps\<close> have been handled, in order: of the posts that were queued and those that came during
  the waits \<open>js\<close>, they are the first ones, and the others are queued now.
\<close>

definition handled ::
  "(nat \<Rightarrow> nat \<Rightarrow> nat \<Rightarrow> int \<Rightarrow> byte list option \<Rightarrow> 'w \<Rightarrow> 'w) \<Rightarrow> (nat \<Rightarrow> esp_event_post_instance_t list) \<Rightarrow>
   esp_event_post_instance_t list \<Rightarrow> nat list \<Rightarrow>
   'w esp_event_loop_instance_t \<Rightarrow> 'w esp_event_loop_instance_t \<Rightarrow> bool" where
  "handled f ws ps js lp lp' \<longleftrightarrow> ps @ queue lp' = queue lp @ concat (map ws js) \<and>
     env lp' = fold (handle_post f (loop_nodes lp)) ps (env lp) \<and> loop_nodes lp' = loop_nodes lp \<and>
     data_copies lp' + copies ps = data_copies lp + copies (concat (map ws js))"

text \<open>The ticks that pass from reading \<open>k\<close> of the counter on, over \<open>n\<close> readings.\<close>

definition spent :: "(nat \<Rightarrow> 32 word) \<Rightarrow> nat \<Rightarrow> nat \<Rightarrow> int" where
  "spent clock k n = (\<Sum>j<n. uint (clock (Suc (k + j)) - clock (k + j)))"

lemma spent_Suc: "spent clock k (Suc n) = uint (clock (Suc k) - clock k) + spent clock (Suc k) n"
  unfolding spent_def by (subst sum.lessThan_Suc_shift) simp

lemma spent_0 [simp]: "spent clock k 0 = 0"
  by (simp add: spent_def)

lemma copies_simps [simp]:
  "copies [] = 0" "copies (p # ps) = (if data_allocated p then 1 else 0) + copies ps" "copies (ps @ qs) = copies ps + copies qs"
  by (simp_all add: copies_def)

lemma post_delete_simps [simp]:
  "queue (post_instance_delete post lp) = queue lp" "env (post_instance_delete post lp) = env lp"
  "loop_nodes (post_instance_delete post lp) = loop_nodes lp" "queue_length (post_instance_delete post lp) = queue_length lp"
  "running_task (post_instance_delete post lp) = running_task lp"
  "data_copies (post_instance_delete post lp) = data_copies lp - (if data_allocated post then 1 else 0)"
  by (simp_all add: post_instance_delete_def)

lemma receive_cases:
  obtains (got) post lp1 js where "xQueueReceive (arrive ws k) ticks lp = Received post lp1"
      "post # queue lp1 = queue lp @ concat (map ws js)" "js = [] \<or> js = [k] \<and> ticks \<noteq> 0 \<and> queue lp = []"
      "lp1 = lp\<lparr>queue := queue lp1, data_copies := data_copies lp + copies (concat (map ws js))\<rparr>"
  | (ended) js where "xQueueReceive (arrive ws k) ticks lp =
      (if ticks = portMAX_DELAY then WaitsForever lp else TimedOut lp)" "queue lp = []"
      "js = [] \<or> js = [k] \<and> ticks \<noteq> 0" "concat (map ws js) = []" "ticks = 0 \<or> ws k = []"
proof (cases "queue lp \<noteq> [] \<or> ticks = 0")
  case True
  show ?thesis
  proof (cases "queue lp")
    case Nil
    then show ?thesis using True by (intro ended [of "[]"]) (simp_all add: xQueueReceive_def)
  next
    case (Cons post q)
    then show ?thesis by (intro got [of post "lp\<lparr>queue := q\<rparr>" "[]"]) (simp_all add: xQueueReceive_def)
  qed
next
  case False
  show ?thesis
  proof (cases "ws k")
    case Nil
    then show ?thesis using False by (intro ended [of "[k]"]) (simp_all add: xQueueReceive_def arrive_def)
  next
    case (Cons post q)
    then show ?thesis using False
      by (intro got [of post "lp\<lparr>queue := q, data_copies := data_copies lp + copies (ws k)\<rparr>" "[k]"])
        (simp_all add: xQueueReceive_def arrive_def)
  qed
qed

text \<open>One more post is handled first.\<close>

lemma handled_step:
  fixes lp1 post f t t'
  defines "s \<equiv> post_instance_delete post
      (lp1\<lparr>running_task := t, env := handle_post f (loop_nodes lp1) post (env lp1)\<rparr>)\<lparr>running_task := t'\<rparr>"
  assumes q: "post # queue lp1 = queue lp @ concat (map ws js)"
    and lp1: "lp1 = lp\<lparr>queue := queue lp1, data_copies := data_copies lp + copies (concat (map ws js))\<rparr>"
    and c: "copies (queue lp) \<le> data_copies lp"
  shows "queue s = queue lp1" and "loop_nodes s = loop_nodes lp" and "copies (queue s) \<le> data_copies s"
    and "handled f ws ps js' s lp' \<Longrightarrow> handled f ws (post # ps) (js @ js') lp lp'"
proof -
  have e: "loop_nodes lp1 = loop_nodes lp" "env lp1 = env lp"
      "data_copies lp1 = data_copies lp + copies (concat (map ws js))"
    by (subst lp1, simp)+
  have cq: "(if data_allocated post then 1 else 0) + copies (queue lp1) = copies (queue lp) + copies (concat (map ws js))"
    using arg_cong [OF q, of copies] by simp
  have s: "queue s = queue lp1" "loop_nodes s = loop_nodes lp" "env s = handle_post f (loop_nodes lp) post (env lp)"
      "data_copies s = data_copies lp + copies (concat (map ws js)) - (if data_allocated post then 1 else 0)"
    by (simp_all add: s_def e)
  show "queue s = queue lp1" "loop_nodes s = loop_nodes lp" by (fact s)+
  show "copies (queue s) \<le> data_copies s" using s cq c by simp
  assume h: "handled f ws ps js' s lp'"
  have "post # ps @ queue lp' = queue lp @ concat (map ws js) @ concat (map ws js')"
    using h s(1) q by (metis append.assoc append_Cons handled_def)
  moreover have "data_copies lp' + copies (post # ps) =
      data_copies lp + copies (concat (map ws js)) + copies (concat (map ws js'))"
    using h s(4) cq c by (auto simp: handled_def)
  ultimately show "handled f ws (post # ps) (js @ js') lp lp'"
    using h s by (simp add: handled_def)
qed

text \<open>What a run that ends has done.\<close>

definition run_done ::
  "(nat \<Rightarrow> nat \<Rightarrow> nat \<Rightarrow> int \<Rightarrow> byte list option \<Rightarrow> 'w \<Rightarrow> 'w) \<Rightarrow> (nat \<Rightarrow> esp_event_post_instance_t list) \<Rightarrow>
   (nat \<Rightarrow> 32 word) \<Rightarrow> 32 word \<Rightarrow> nat \<Rightarrow> int \<Rightarrow> esp_event_post_instance_t list \<Rightarrow> nat list \<Rightarrow>
   'w esp_event_loop_instance_t \<Rightarrow> 'w esp_event_loop_instance_t \<Rightarrow> bool" where
  "run_done f ws clock ticks k rem ps js lp lp' \<longleftrightarrow>
     handled f ws ps js lp lp' \<and> sorted_wrt (<) js \<and> (\<forall>j \<in> set js. k < j) \<and> (ticks = 0 \<longrightarrow> js = []) \<and>
     (queue lp \<noteq> [] \<longrightarrow> ps \<noteq> []) \<and>
     (queue lp' = [] \<or> ticks \<noteq> portMAX_DELAY \<and> rem \<le> spent clock k (length ps)) \<and>
     (ticks \<noteq> portMAX_DELAY \<longrightarrow> (\<forall>m. 0 < m \<and> m < length ps \<longrightarrow> spent clock k m < rem))"

lemma run_done_step:
  assumes d: "run_done f ws clock ticks (Suc k) rem' ps js' s lp'"
    and h: "handled f ws ps js' s lp' \<Longrightarrow> handled f ws (post # ps) (js @ js') lp lp'"
    and js: "js = [] \<or> js = [Suc k] \<and> ticks \<noteq> 0"
    and rem: "ticks \<noteq> portMAX_DELAY \<longrightarrow> rem' = rem - uint (clock (Suc k) - clock k) \<and> 0 < rem'"
  shows "run_done f ws clock ticks k rem (post # ps) (js @ js') lp lp'"
proof -
  have "spent clock k m < rem" if "ticks \<noteq> portMAX_DELAY" "0 < m" "m < length (post # ps)" for m
  proof -
    obtain m' where m: "m = Suc m'" using \<open>0 < m\<close> by (cases m) auto
    show ?thesis
      using d rem that by (cases "m' = 0") (auto simp: m spent_Suc run_done_def)
  qed
  then show ?thesis
    using d h js rem by (auto simp: run_done_def spent_Suc sorted_wrt_append)
qed

definition outcome :: "32 word \<Rightarrow> 's \<Rightarrow> 's run_result" where
  "outcome ticks s = (if ticks = portMAX_DELAY then Blocked s else Returned s)"

text \<open>
  One turn of the loop: it ends, or it handles a post and goes on.
\<close>

lemma run_loop_turn:
  fixes lp :: "'w esp_event_loop_instance_t"
  assumes inv: "nodes_inv (loop_nodes lp)" and c: "copies (queue lp) \<le> data_copies lp"
    and mk: "ticks \<noteq> portMAX_DELAY \<longrightarrow> marker = clock k"
  obtains (ended) lp' ps js where
      "run_loop (env_code f) (arrive ws) clock cur ticks (Suc k) rem marker lp = Some (outcome ticks lp')"
      "run_done f ws clock ticks k rem ps js lp lp'"
  | (again) post js rem' marker' lp2 where
      "run_loop (env_code f) (arrive ws) clock cur ticks (Suc k) rem marker lp =
       run_loop (env_code f) (arrive ws) clock cur ticks (Suc (Suc k)) rem' marker' lp2"
      "nodes_inv (loop_nodes lp2)" "copies (queue lp2) \<le> data_copies lp2"
      "ticks \<noteq> portMAX_DELAY \<longrightarrow> marker' = clock (Suc k)"
      "post # queue lp2 = queue lp @ concat (map ws js)" "js = [] \<or> js = [Suc k] \<and> ticks \<noteq> 0 \<and> queue lp = []"
      "ticks \<noteq> portMAX_DELAY \<longrightarrow> rem' = rem - uint (clock (Suc k) - clock k) \<and> 0 < rem'"
      "\<And>ps js' lp'. handled f ws ps js' lp2 lp' \<Longrightarrow> handled f ws (post # ps) (js @ js') lp lp'"
proof (cases rule: receive_cases [of ws "Suc k" ticks lp])
  case (ended js)
  have "run_loop (env_code f) (arrive ws) clock cur ticks (Suc k) rem marker lp = Some (outcome ticks lp)"
    using ended(1) by (subst run_loop.simps) (simp add: outcome_def)
  moreover have "run_done f ws clock ticks k rem [] js lp lp"
    using ended by (auto simp: run_done_def handled_def)
  ultimately show ?thesis by (rule that(1))
next
  case (got post lp1 js)
  let ?s = "lp1\<lparr>running_task := Some cur, env := handle_post f (loop_nodes lp1) post (env lp1)\<rparr>"
  let ?rem = "if ticks \<noteq> portMAX_DELAY then rem - uint (clock (Suc k) - marker) else rem"
  have n1: "loop_nodes lp1 = loop_nodes lp" by (subst got(4)) simp
  have d: "dispatch (env_code f) post (lp1\<lparr>running_task := Some cur\<rparr>) = Some (Next ?s)"
    using inv n1 by (simp add: dispatch_env)
  have run: "run_loop (env_code f) (arrive ws) clock cur ticks (Suc k) rem marker lp =
      (if ticks \<noteq> portMAX_DELAY \<and> ?rem \<le> 0 then Some (Returned (post_instance_delete post ?s))
       else run_loop (env_code f) (arrive ws) clock cur ticks (Suc (Suc k)) ?rem
              (if ticks \<noteq> portMAX_DELAY then clock (Suc k) else marker)
              ((post_instance_delete post ?s)\<lparr>running_task := None\<rparr>))"
    by (subst run_loop.simps) (simp add: got(1) d Let_def flow_state_def)
  note step = handled_step [OF got(2,4) c, where f = f and t = "Some cur"]
  show ?thesis
  proof (cases "ticks \<noteq> portMAX_DELAY \<and> ?rem \<le> 0")
    case True
    let ?lp' = "(post_instance_delete post ?s)\<lparr>running_task := Some cur\<rparr>"
    have same: "?lp' = post_instance_delete post ?s" by (simp add: post_instance_delete_def)
    have "handled f ws [post] (js @ []) lp ?lp'" by (rule step(4)) (simp add: handled_def)
    then have "run_done f ws clock ticks k rem [post] js lp ?lp'"
      using got(3) True mk by (auto simp: run_done_def spent_Suc)
    then show ?thesis using run True same by (intro that(1)) (auto simp: outcome_def)
  next
    case False
    show ?thesis
      by (rule that(2) [of ?rem "if ticks \<noteq> portMAX_DELAY then clock (Suc k) else marker"
            "(post_instance_delete post ?s)\<lparr>running_task := None\<rparr>" post js])
        (use run False step(1-3) [where t' = None] step(4) [where t' = None] inv got(2,3) mk in auto)
  qed
qed

text \<open>
  The run ends if from some wait on no more posts come, or if it has a time limit and the tick counter
  moves from each reading to the next.
\<close>

lemma run_loop_quiet:
  assumes "nodes_inv (loop_nodes lp)" and "copies (queue lp) \<le> data_copies lp"
    and "ticks \<noteq> portMAX_DELAY \<longrightarrow> marker = clock k" and quiet: "\<forall>j \<ge> K. ws j = []"
  shows "\<exists>lp' ps js. run_loop (env_code f) (arrive ws) clock cur ticks (Suc k) rem marker lp = Some (outcome ticks lp') \<and>
    run_done f ws clock ticks k rem ps js lp lp'"
  using assms(1-3)
proof (induction "length (queue lp) + (\<Sum>j \<in> {Suc k..<K}. length (ws j))" arbitrary: lp k rem marker rule: less_induct)
  case less
  show ?case
  proof (cases rule: run_loop_turn [where lp = lp and ticks = ticks and marker = marker and clock = clock and k = k
        and f = f and ws = ws and cur = cur and rem = rem, OF less.prems])
    case (1 lp' ps js)
    then show ?thesis by blast
  next
    case again: (2 post js rem' marker' lp2)
    have "length (queue lp2) + (\<Sum>j \<in> {Suc (Suc k)..<K}. length (ws j)) <
        length (queue lp) + (\<Sum>j \<in> {Suc k..<K}. length (ws j))"
    proof (cases "Suc k < K")
      case True
      have "length (post # queue lp2) = length (queue lp @ concat (map ws js))" using again(5) by (rule arg_cong)
      moreover have "(\<Sum>j \<in> {Suc k..<K}. length (ws j)) = length (ws (Suc k)) + (\<Sum>j \<in> {Suc (Suc k)..<K}. length (ws j))"
        using True by (rule sum.atLeast_Suc_lessThan)
      ultimately show ?thesis using again(6) by auto
    next
      case False
      then have "ws (Suc k) = []" using quiet by simp
      then have "post # queue lp2 = queue lp" using again(5,6) by auto
      then show ?thesis using False by (metis (no_types, lifting) add_strict_right_mono atLeastLessThan_empty
            le_Suc_eq length_Cons lessI linorder_not_less)
    qed
    then obtain lp' ps js' where r: "run_loop (env_code f) (arrive ws) clock cur ticks (Suc (Suc k)) rem' marker' lp2 =
        Some (outcome ticks lp')" "run_done f ws clock ticks (Suc k) rem' ps js' lp2 lp'"
      using less.hyps [of lp2 "Suc k" marker' rem'] again(2-4) by blast
    have "run_done f ws clock ticks k rem (post # ps) (js @ js') lp lp'"
      using run_done_step [OF r(2) again(8)] again(6,7) by blast
    then show ?thesis using r(1) again(1) by metis
  qed
qed

lemma uint_diff_pos: "(a :: 32 word) \<noteq> b \<Longrightarrow> 0 < uint (a - b)"
  using word_gt_0 [of "a - b"] by (simp add: word_less_def)

lemma run_loop_expires:
  assumes "nodes_inv (loop_nodes lp)" and "copies (queue lp) \<le> data_copies lp"
    and "ticks \<noteq> portMAX_DELAY \<longrightarrow> marker = clock k" and lim: "ticks \<noteq> portMAX_DELAY"
    and moves: "\<forall>j. clock (Suc j) \<noteq> clock j"
  shows "\<exists>lp' ps js. run_loop (env_code f) (arrive ws) clock cur ticks (Suc k) rem marker lp = Some (outcome ticks lp') \<and>
    run_done f ws clock ticks k rem ps js lp lp'"
  using assms(1-3)
proof (induction "nat rem" arbitrary: lp k rem marker rule: less_induct)
  case less
  show ?case
  proof (cases rule: run_loop_turn [where lp = lp and ticks = ticks and marker = marker and clock = clock and k = k
        and f = f and ws = ws and cur = cur and rem = rem, OF less.prems])
    case (1 lp' ps js)
    then show ?thesis by blast
  next
    case again: (2 post js rem' marker' lp2)
    have "nat rem' < nat rem" using again(7) lim uint_diff_pos [OF moves [rule_format, of k]] by simp
    then obtain lp' ps js' where r: "run_loop (env_code f) (arrive ws) clock cur ticks (Suc (Suc k)) rem' marker' lp2 =
        Some (outcome ticks lp')" "run_done f ws clock ticks (Suc k) rem' ps js' lp2 lp'"
      using less.hyps [of rem' lp2 marker' "Suc k"] again(2-4) by blast
    have "run_done f ws clock ticks k rem (post # ps) (js @ js') lp lp'"
      using run_done_step [OF r(2) again(8)] again(6,7) by blast
    then show ?thesis using r(1) again(1) by metis
  qed
qed

text \<open>
  Claim C20. Running a loop whose handlers work on their own data only (they do not post, register or
  unregister), while other tasks and interrupts post during the waits. If from some wait on no more posts
  come, or if the run has a time limit and the tick counter moves between its readings, then the run ends:
  a run with a time limit returns, and a run with \<open>portMAX_DELAY\<close> blocks for ever in its last receive,
  with all posts handled. Until then it has handed the posts \<open>ps\<close> to the handlers in the order in which
  they were queued, first those of the queue, then those that came during the waits \<open>js\<close>, each to its
  handlers in the order of registration; the posts that are left are queued as they were, the copies of
  the handled data are freed, and the nodes are unchanged. At least one post is handled if there is one.
  Posts are left only when the ticks have been spent, and it goes on as long as they have not been.
\<close>

theorem loop_run_handles_queue:
  assumes "nodes_inv (loop_nodes lp)" and "copies (queue lp) \<le> data_copies lp"
    and "(\<forall>k \<ge> K. ws k = []) \<or> ticks \<noteq> portMAX_DELAY \<and> (\<forall>k. clock (Suc k) \<noteq> clock k)"
  shows "\<exists>lp' ps js. esp_event_loop_run (env_code f) (arrive ws) clock cur ticks lp =
      Some (if ticks = portMAX_DELAY then Blocked lp' else Returned lp') \<and>
    handled f ws ps js lp lp' \<and> sorted_wrt (<) js \<and> (ticks = 0 \<longrightarrow> js = []) \<and> (queue lp \<noteq> [] \<longrightarrow> ps \<noteq> []) \<and>
    (queue lp' = [] \<or> ticks \<noteq> portMAX_DELAY \<and> uint ticks \<le> spent clock 0 (length ps)) \<and>
    (ticks \<noteq> portMAX_DELAY \<longrightarrow> (\<forall>m. 0 < m \<and> m < length ps \<longrightarrow> spent clock 0 m < uint ticks))"
proof -
  have "\<exists>lp' ps js. run_loop (env_code f) (arrive ws) clock cur ticks (Suc 0) (uint ticks) (clock 0) lp =
      Some (outcome ticks lp') \<and> run_done f ws clock ticks 0 (uint ticks) ps js lp lp'"
    using assms(3)
  proof
    assume "\<forall>k \<ge> K. ws k = []"
    then show ?thesis by (intro run_loop_quiet [OF assms(1,2)]) simp_all
  next
    assume "ticks \<noteq> portMAX_DELAY \<and> (\<forall>k. clock (Suc k) \<noteq> clock k)"
    then show ?thesis by (intro run_loop_expires [OF assms(1,2)]) simp_all
  qed
  then show ?thesis unfolding esp_event_loop_run_def outcome_def run_done_def One_nat_def by blast
qed

text \<open>Two posts are queued, a third one comes while the task waits, then no more.\<close>

definition ex_arrivals :: "nat \<Rightarrow> esp_event_post_instance_t list" where
  "ex_arrivals k = (if k = 3 then [ex_post] else [])"

theorem loop_run_handles_queue_witness:
  "\<exists>lp' ps js. esp_event_loop_run (env_code (\<lambda>h arg b i d w. w @ [h])) (arrive ex_arrivals) (\<lambda>k. 0) 7
       portMAX_DELAY (ex_loop\<lparr>loop_nodes := ex_nodes2, queue := [ex_post, ex_post]\<rparr>) = Some (Blocked lp') \<and>
     queue lp' = [] \<and> ps = [ex_post, ex_post] @ concat (map ex_arrivals js) \<and>
     env lp' = concat (replicate (length ps) [10, 11])"
proof -
  let ?lp = "ex_loop\<lparr>loop_nodes := ex_nodes2, queue := [ex_post, ex_post]\<rparr>"
  have "nodes_inv (loop_nodes ?lp)" "copies (queue ?lp) \<le> data_copies ?lp" by code_simp+
  moreover have "(\<forall>k \<ge> 4. ex_arrivals k = []) \<or> portMAX_DELAY \<noteq> portMAX_DELAY \<and> (\<forall>k. (0 :: 32 word) \<noteq> 0)" by (auto simp: ex_arrivals_def)
  ultimately obtain lp' ps js where r: "esp_event_loop_run (env_code (\<lambda>h arg b i d w. w @ [h])) (arrive ex_arrivals) (\<lambda>k. 0) 7
       portMAX_DELAY ?lp = Some (Blocked lp')" "handled (\<lambda>h arg b i d w. w @ [h]) ex_arrivals ps js ?lp lp'" "queue lp' = []"
    using loop_run_handles_queue [of ?lp 4 ex_arrivals portMAX_DELAY "\<lambda>k. 0" "\<lambda>h arg b i d w. w @ [h]" 7] by auto
  have ps: "ps = [ex_post, ex_post] @ concat (map ex_arrivals js)" using r(2,3) by (simp add: handled_def)
  have "handlers_of (post_key ex_post) ex_nodes2 = [ex_node 10 31, ex_node 11 32]" by code_simp
  then have one: "handle_post (\<lambda>h arg b i d w. w @ [h]) ex_nodes2 ex_post w = w @ [10, 11]" for w
    by (simp add: handle_post_def ex_node_def)
  have "\<forall>p \<in> set ps. p = ex_post" unfolding ps by (auto simp: ex_arrivals_def split: if_splits)
  then have "fold (handle_post (\<lambda>h arg b i d w. w @ [h]) ex_nodes2) ps w = w @ concat (replicate (length ps) [10, 11])" for w
    by (induction ps arbitrary: w) (simp_all add: one)
  then have "env lp' = concat (replicate (length ps) [10, 11])" using r(2) by (simp add: handled_def ex_loop_def)
  with r(1,3) ps show ?thesis by (intro exI [of _ lp'] exI [of _ ps] exI [of _ js] conjI)
qed

subsection \<open>What holds of every loop in use\<close>

text \<open>
  The lists are well-formed, the queue is within its bound, and the copies of event data that are
  allocated are those of the queued posts and \<open>n\<close> more, which calls in progress hold.
\<close>

definition loop_inv :: "nat \<Rightarrow> 'w esp_event_loop_instance_t \<Rightarrow> bool" where
  "loop_inv n lp \<longleftrightarrow> nodes_inv (loop_nodes lp) \<and> length (queue lp) \<le> queue_length lp \<and>
     data_copies lp = length (filter data_allocated (queue lp)) + n"

text \<open>What other tasks, and handlers, do to a loop: they keep the invariant.\<close>

definition steady :: "('w esp_event_loop_instance_t \<Rightarrow> 'w esp_event_loop_instance_t) \<Rightarrow> bool" where
  "steady g \<longleftrightarrow> (\<forall>n lp. loop_inv n lp \<longrightarrow> loop_inv n (g lp))"

inductive loop_reach :: "'w esp_event_loop_instance_t \<Rightarrow> bool" where
  reach_create: "esp_event_loop_create c q m t w args out = (ESP_OK, Some lp) \<Longrightarrow> loop_reach lp"
| reach_register: "loop_reach lp \<Longrightarrow> fresh cs lp \<Longrightarrow> b \<noteq> esp_event_any_base \<Longrightarrow>
    esp_event_handler_register_with_internal cs b i h arg legacy lp = Some (err, ctx, lp') \<Longrightarrow> loop_reach lp'"
| reach_unregister: "loop_reach lp \<Longrightarrow>
    esp_event_handler_unregister_with_internal b i tgt legacy lp = (err, lp') \<Longrightarrow> loop_reach lp'"
| reach_post: "loop_reach lp \<Longrightarrow> steady others \<Longrightarrow>
    esp_event_post_to cur c m others b i d sz ticks lp = (err, lp') \<Longrightarrow> loop_reach lp'"
| reach_isr_post: "loop_reach lp \<Longrightarrow> esp_event_isr_post_to b i d sz lp = (err, lp') \<Longrightarrow> loop_reach lp'"
| reach_run: "loop_reach lp \<Longrightarrow> keeps_nodes code \<Longrightarrow> \<forall>h arg b i d. steady (code h arg b i d) \<Longrightarrow>
    \<forall>k. steady (waits k) \<Longrightarrow> esp_event_loop_run code waits clock cur ticks lp = Some res \<Longrightarrow>
    res = Returned lp' \<or> res = Blocked lp' \<Longrightarrow> loop_reach lp'"

lemma create_inv: "esp_event_loop_create c q m t w args out = (ESP_OK, Some lp) \<Longrightarrow> loop_inv 0 lp"
  by (auto simp: esp_event_loop_create_def loop_inv_def nodes_inv_def Let_def split: option.splits if_splits)

lemma register_inv:
  assumes "esp_event_handler_register_with_internal cs b i h arg legacy lp = Some (err, ctx, lp')"
    and "loop_inv n lp" and "fresh cs lp" and "b \<noteq> esp_event_any_base"
  shows "loop_inv n lp'"
proof (cases "b = ESP_EVENT_ANY_BASE \<and> i \<noteq> ESP_EVENT_ANY_ID")
  case True
  then show ?thesis using assms(1,2) by (auto simp: esp_event_handler_register_with_internal_def split: if_splits)
next
  case False
  let ?b = "if b = ESP_EVENT_ANY_BASE then esp_event_any_base else b"
  obtain e nodes' c where a: "add_to_nodes cs ?b i h arg legacy (loop_nodes lp) = (e, nodes', c)"
    using prod_cases3 by blast
  have "lp' = lp\<lparr>loop_nodes := nodes'\<rparr>"
    using assms(1) False a by (auto simp: esp_event_handler_register_with_internal_def split: if_splits)
  moreover have "nodes_inv nodes'"
    using add_keeps_inv [OF a] assms(2-4) False by (auto simp: loop_inv_def fresh_def split: if_splits)
  ultimately show ?thesis using assms(2) by (simp add: loop_inv_def)
qed

lemma unregister_inv:
  "esp_event_handler_unregister_with_internal b i tgt legacy lp = (err, lp') \<Longrightarrow> loop_inv n lp \<Longrightarrow> loop_inv n lp'"
  by (auto simp: esp_event_handler_unregister_with_internal_def loop_inv_def remove_keeps_inv split: if_splits)

text \<open>A post that is sent moves its copy from the caller to the queue.\<close>

lemma send_inv:
  assumes "xQueueSendToBack others ticks post lp = (sent, lp')" and "steady others \<or> ticks = 0"
    and "loop_inv (n + (if data_allocated post then 1 else 0)) lp"
  shows "loop_inv (if sent then n else n + (if data_allocated post then 1 else 0)) lp'"
proof -
  let ?lp1 = "if length (queue lp) < queue_length lp \<or> ticks = 0 then lp else others lp"
  have "loop_inv (n + (if data_allocated post then 1 else 0)) ?lp1" using assms(2,3) by (auto simp: steady_def)
  moreover have "(sent, lp') = (if length (queue ?lp1) < queue_length ?lp1 then (True, ?lp1\<lparr>queue := queue ?lp1 @ [post]\<rparr>)
      else (False, ?lp1))" using assms(1) unfolding xQueueSendToBack_def Let_def by simp
  ultimately show ?thesis by (auto simp: loop_inv_def split: if_splits)
qed

lemma delete_inv:
  "loop_inv (n + (if data_allocated post then 1 else 0)) lp \<Longrightarrow> loop_inv n (post_instance_delete post lp)"
  by (auto simp: loop_inv_def)

lemma send_or_delete_inv:
  assumes "xQueueSendToBack others ticks post lp = (sent, lp')" and "steady others \<or> ticks = 0"
    and "loop_inv (n + (if data_allocated post then 1 else 0)) lp"
  shows "loop_inv n (if sent then lp' else post_instance_delete post lp')"
  using send_inv [OF assms] delete_inv by (cases sent) auto

lemma post_inv:
  assumes post: "esp_event_post_to cur c m others b i d sz ticks lp = (err, lp')" and "steady others" and inv: "loop_inv n lp"
  shows "loop_inv n lp'"
proof (cases "b = ESP_EVENT_ANY_BASE \<or> i = ESP_EVENT_ANY_ID \<or> d \<noteq> None \<and> sz \<noteq> 0 \<and> \<not> c")
  case True
  then have "lp' = lp" using post by (auto simp: esp_event_post_to_def split: if_splits)
  then show ?thesis using inv by simp
next
  case False
  define copy where "copy = (d \<noteq> None \<and> sz \<noteq> 0)"
  define p where "p = \<lparr>data_allocated = copy, data_set = copy, post_base = b, post_id = i,
      post_data = (if copy then take sz (the d) else [])\<rparr>"
  define lp1 where "lp1 = (if copy then lp\<lparr>data_copies := data_copies lp + 1\<rparr> else lp)"
  define r where "r = (case task lp of
      None \<Rightarrow> if m then xQueueSendToBack others (if running_task lp \<noteq> Some cur then ticks else 0) p lp1 else (False, lp1)
    | Some t \<Rightarrow> xQueueSendToBack others (if t \<noteq> cur then ticks else 0) p lp1)"
  have i1: "loop_inv (n + (if data_allocated p then 1 else 0)) lp1" using inv by (auto simp: loop_inv_def lp1_def p_def)
  have "(\<exists>t. r = xQueueSendToBack others t p lp1) \<or> r = (False, lp1)" unfolding r_def by (auto split: option.splits)
  then have "loop_inv n (if fst r then snd r else post_instance_delete p (snd r))"
    using send_or_delete_inv [OF _ _ i1, of others _ "fst r" "snd r"] assms(2) delete_inv [OF i1] by auto
  moreover have "lp' = (if fst r then snd r else post_instance_delete p (snd r))"
    using post False unfolding esp_event_post_to_def copy_def [symmetric] Let_def p_def [symmetric] lp1_def [symmetric]
      r_def [symmetric] by (auto simp: copy_def split: if_splits prod.splits)
  ultimately show ?thesis by simp
qed

lemma isr_post_inv:
  assumes "esp_event_isr_post_to b i d sz lp = (err, lp')" and inv: "loop_inv n lp"
  shows "loop_inv n lp'"
proof (cases "b = ESP_EVENT_ANY_BASE \<or> i = ESP_EVENT_ANY_ID \<or> sz > 4")
  case True
  then have "lp' = lp" using assms(1) by (auto simp: esp_event_isr_post_to_def split: if_splits)
  then show ?thesis using inv by simp
next
  case False
  define p where "p = \<lparr>data_allocated = False, data_set = (d \<noteq> None \<and> sz \<noteq> 0), post_base = b, post_id = i,
      post_data = (if d \<noteq> None \<and> sz \<noteq> 0 then take sz (the d) @ replicate (4 - sz) 0 else [0, 0, 0, 0])\<rparr>"
  obtain sent lp1 where s: "xQueueSendToBack id 0 p lp = (sent, lp1)" by force
  have "lp' = (if sent then lp1 else post_instance_delete p lp1)"
    using assms(1) False s unfolding esp_event_isr_post_to_def Let_def p_def [symmetric] by (auto split: if_splits)
  moreover have "loop_inv (n + (if data_allocated p then 1 else 0)) lp" using inv by (simp add: p_def)
  ultimately show ?thesis using send_or_delete_inv [OF s] by simp
qed

lemma run_seq_inv:
  assumes "\<forall>h arg b i d. steady (code h arg b i d)" and "loop_inv n lp"
  shows "loop_inv n (run_seq code post ns lp)"
  using assms(2) by (induction ns arbitrary: lp) (use assms(1) in \<open>auto simp: steady_def handler_execute_def\<close>)

lemma receive_inv:
  assumes "steady others" and "loop_inv n lp"
  shows "case xQueueReceive others ticks lp of
      Received post lp1 \<Rightarrow> loop_inv (n + (if data_allocated post then 1 else 0)) lp1
    | TimedOut lp1 \<Rightarrow> loop_inv n lp1 | WaitsForever lp1 \<Rightarrow> loop_inv n lp1"
proof -
  let ?lp1 = "if queue lp \<noteq> [] \<or> ticks = 0 then lp else others lp"
  have "loop_inv n ?lp1" using assms by (auto simp: steady_def)
  then show ?thesis unfolding xQueueReceive_def Let_def by (auto simp: loop_inv_def split: list.splits)
qed

lemma run_loop_inv:
  assumes k: "keeps_nodes code" and st: "\<forall>h arg b i d. steady (code h arg b i d)" and wt: "\<forall>k. steady (waits k)"
    and run: "run_loop code waits clock cur ticks k rem marker lp = Some res" and inv: "loop_inv n lp"
  shows "\<forall>lp'. res = Returned lp' \<or> res = Blocked lp' \<longrightarrow> loop_inv n lp'"
  using k st wt inv
proof (induction rule: run_loop.raw_induct [OF _ run])
  case (1 run_loop code waits clock cur ticks k rem marker lp res)
  note rc = receive_inv [OF "1.prems"(3) [rule_format, of k] "1.prems"(4), of ticks]
  show ?case
  proof (cases "xQueueReceive (waits k) ticks lp")
    case (Received post lp1)
    let ?lp1 = "lp1\<lparr>running_task := Some cur\<rparr>"
    let ?s = "run_seq code post (handlers_of (post_key post) (loop_nodes ?lp1)) ?lp1"
    let ?lp2 = "post_instance_delete post ?s"
    have i1: "loop_inv (n + (if data_allocated post then 1 else 0)) ?lp1"
      using rc Received by (simp add: loop_inv_def)
    have "nodes_inv (loop_nodes ?lp1)" using i1 by (simp add: loop_inv_def)
    then have d: "dispatch code post ?lp1 = Some (Next ?s)" using "1.prems"(1) by (intro dispatch_seq)
    have i2: "loop_inv n ?lp2" using run_seq_inv [OF "1.prems"(2) i1] by (rule delete_inv)
    have i3: "loop_inv n (?lp2\<lparr>running_task := None\<rparr>)" using i2 by (simp add: loop_inv_def)
    show ?thesis
      using 1(2) 1(1) [OF _ "1.prems"(1-3) i3] i2 by (auto simp: Received d Let_def flow_state_def split: if_splits)
  qed (use 1(2) rc in auto)
qed

lemma reach_inv: "loop_reach lp \<Longrightarrow> loop_inv 0 lp"
proof (induction rule: loop_reach.induct)
  case (reach_run lp code waits clock cur ticks res lp')
  then show ?case unfolding esp_event_loop_run_def using run_loop_inv by blast
qed (auto intro: create_inv register_inv unregister_inv post_inv isr_post_inv)

lemma drop_posts_simps [simp]:
  "queue (drop_posts ps lp) = queue lp"
  "data_copies (drop_posts ps lp) = data_copies lp - length (filter data_allocated ps)"
  by (induction ps arbitrary: lp) simp_all

lemma freed_handlers: "mset (handler_instances_remove_all hs) = mset (blocks_hs hs)"
  by (induction hs) (simp_all add: handler_instances_remove_all_def blocks_hs_def)

lemma freed_base: "mset (base_node_remove_all_handler bn @ [bn_addr bn]) = mset (blocks_bases [bn])"
proof -
  have "mset (concat (map (\<lambda>it. handler_instances_remove_all (in_handlers it) @ [in_addr it]) its)) = mset (blocks_ids its)" for its
    by (induction its) (simp_all add: freed_handlers)
  then show ?thesis by (simp add: base_node_remove_all_handler_def freed_handlers)
qed

lemma freed_loop: "mset (loop_node_remove_all_handler ln @ [ln_addr ln]) = mset (blocks [ln])"
proof -
  have "mset (concat (map (\<lambda>it. base_node_remove_all_handler it @ [bn_addr it]) bs)) = mset (blocks_bases bs)" for bs
  proof (induction bs)
    case (Cons bn bs)
    then show ?case using freed_base [of bn] by simp
  qed simp
  then show ?thesis by (simp add: loop_node_remove_all_handler_def freed_handlers)
qed

lemma freed_all: "mset (concat (map (\<lambda>it. loop_node_remove_all_handler it @ [ln_addr it]) ns)) = mset (blocks ns)"
proof (induction ns)
  case (Cons ln ns)
  then show ?case using freed_loop [of ln] by simp
qed simp

text \<open>
  Claim C21. In every loop that create, register and unregister (of both kinds), post, post from an
  interrupt and run lead to, the node lists are well-formed (no empty node, distinct ids under a base,
  no two nodes or contexts in the same memory), the queue is within its bound, and the copies of event
  data that are allocated are exactly those of the queued posts. Deleting the loop frees every node and
  context exactly once and leaves no copy behind.
\<close>

theorem reachable_loop_invariant:
  assumes "loop_reach lp" and "esp_event_loop_delete lp = (err, freed, lp')"
  shows "nodes_inv (loop_nodes lp) \<and> length (queue lp) \<le> queue_length lp \<and>
    data_copies lp = length (filter data_allocated (queue lp)) \<and>
    err = ESP_OK \<and> distinct freed \<and> set freed = set (blocks (loop_nodes lp)) \<and> data_copies lp' = 0"
proof -
  have inv: "loop_inv 0 lp" using assms(1) by (rule reach_inv)
  have m: "mset freed = mset (blocks (loop_nodes lp))" using assms(2) freed_all by (auto simp: esp_event_loop_delete_def)
  then have "distinct freed" using inv mset_eq_imp_distinct_iff by (auto simp: loop_inv_def nodes_inv_def)
  moreover have "set freed = set (blocks (loop_nodes lp))" using m by (rule mset_eq_setD)
  ultimately show ?thesis using inv assms(2) by (auto simp: loop_inv_def esp_event_loop_delete_def)
qed

definition ex_created :: "nat list esp_event_loop_instance_t" where
  "ex_created = ex_loop\<lparr>loop_nodes := ex_nodes1\<rparr>"

theorem reachable_loop_invariant_witness:
  "loop_reach ex_created \<and> distinct (fst (snd (esp_event_loop_delete ex_created))) \<and>
   data_copies (snd (snd (esp_event_loop_delete ex_created))) = 0"
proof -
  have "esp_event_loop_create True True True None [] (Some \<lparr>queue_size = 2, task_name = None, task_priority = 1, task_stack_size = 2048, task_core_id = 0\<rparr>) True = (ESP_OK, Some ex_loop)"
    by (simp add: esp_event_loop_create_def ex_loop_def)
  then have "loop_reach ex_loop" by (rule reach_create)
  moreover have "fresh (map Some [20, 21, 22, 81, 31]) ex_loop" "(5::nat) \<noteq> esp_event_any_base" by code_simp+
  moreover have "esp_event_handler_register_with_internal (map Some [20, 21, 22, 81, 31]) 5 1 10 0 False ex_loop =
      Some (ESP_OK, Some 31, ex_created)" by code_simp
  ultimately have r: "loop_reach ex_created" by (rule reach_register)
  obtain err freed lp' where "esp_event_loop_delete ex_created = (err, freed, lp')" using prod_cases3 by blast
  then show ?thesis using r reachable_loop_invariant [OF r] by auto
qed

subsection \<open>Asking for a registration\<close>

text \<open>For a specific base, the answer of the query is whether a registration with this key and handler is in effect.\<close>

theorem is_handler_registered_iff:
  assumes "b \<noteq> ESP_EVENT_ANY_BASE" and "b \<noteq> esp_event_any_base"
  shows "esp_event_is_handler_registered b i h lp \<longleftrightarrow>
    (\<exists>r \<in> set (regs (loop_nodes lp)). fst r = (b, i) \<and> hn_handler (snd r) = h)"
proof -
  have ids: "(\<exists>r \<in> set (regs_ids c its). fst r = (b, i) \<and> hn_handler (snd r) = h) \<longleftrightarrow>
      c = b \<and> list_ex (\<lambda>it. in_id it = i \<and> list_ex (\<lambda>n. hn_handler n = h) (in_handlers it)) its" for c its
    by (induction its) (auto simp: bex_Un list_ex_iff)
  have base: "(\<exists>r \<in> set (regs_base bn). fst r = (b, i) \<and> hn_handler (snd r) = h) \<longleftrightarrow> bn_base bn = b \<and>
      (list_ex (\<lambda>n. i = ESP_EVENT_ANY_ID \<and> hn_handler n = h) (bn_handlers bn) \<or>
       list_ex (\<lambda>it. in_id it = i \<and> list_ex (\<lambda>n. hn_handler n = h) (in_handlers it)) (id_nodes bn))" for bn
    unfolding regs_base_def set_append bex_Un ids by (auto simp: list_ex_iff)
  show ?thesis
    using assms unfolding esp_event_is_handler_registered_def base [symmetric]
    by (auto simp: list_ex_iff regs_def regs_loop_def regs_bases_def bex_Un)
qed

subsection \<open>Handlers that unregister themselves\<close>

text \<open>
  The documentation allows a handler to unregister itself. The code of handler 10 does, and records that it ran.
\<close>

definition self_unregister :: "nat \<Rightarrow> int \<Rightarrow> nat list handler_code" where
  "self_unregister kb ki h arg b i d lp =
     (if h = 10 then (snd (esp_event_handler_unregister_with kb ki 10 lp))\<lparr>env := env lp @ [h]\<rparr>
      else lp\<lparr>env := env lp @ [h]\<rparr>)"

text \<open>
  A handler of a specific event may unregister itself while it runs. A handler for all events
  of a base may not when it is the last one of its base: the call frees the base node, and the walk then
  reads the list of ids from the freed node. The same happens with the last handler of all events.
\<close>

theorem self_unregistration_reads_freed_node:
  "(\<exists>lp lp'. esp_event_handler_register_with (map Some [20, 21, 22, 23, 24]) 5 1 10 0 ex_loop = Some (ESP_OK, lp) \<and>
     dispatch (self_unregister 5 1) ex_post lp = Some (Next lp') \<and> env lp' = [10] \<and> loop_nodes lp' = []) \<and>
   (\<exists>lp. esp_event_handler_register_with (map Some [20, 21, 22, 23]) 5 ESP_EVENT_ANY_ID 10 0 ex_loop = Some (ESP_OK, lp) \<and>
     dispatch (self_unregister 5 ESP_EVENT_ANY_ID) ex_post lp = Some UseAfterFree) \<and>
   (\<exists>lp. esp_event_handler_register_with (map Some [20, 21, 22]) ESP_EVENT_ANY_BASE ESP_EVENT_ANY_ID 10 0 ex_loop = Some (ESP_OK, lp) \<and>
     dispatch (self_unregister ESP_EVENT_ANY_BASE ESP_EVENT_ANY_ID) ex_post lp = Some UseAfterFree)"
proof -
  let ?hs = "[\<lparr>hn_addr = 23, handler_ctx = 24, hn_handler = 10, hn_arg = 0\<rparr>]"
  let ?lp = "ex_loop\<lparr>loop_nodes := [\<lparr>ln_addr = 20, ln_handlers = [], base_nodes = [\<lparr>bn_addr = 21, bn_base = 5,
      bn_handlers = [], id_nodes = [\<lparr>in_addr = 22, in_id = 1, in_handlers = ?hs\<rparr>]\<rparr>]\<rparr>]\<rparr>"
  let ?lq = "ex_loop\<lparr>loop_nodes := [\<lparr>ln_addr = 20, ln_handlers = [], base_nodes = [\<lparr>bn_addr = 21, bn_base = 5,
      bn_handlers = [\<lparr>hn_addr = 22, handler_ctx = 23, hn_handler = 10, hn_arg = 0\<rparr>], id_nodes = []\<rparr>]\<rparr>]\<rparr>"
  let ?lr = "ex_loop\<lparr>loop_nodes := [\<lparr>ln_addr = 20,
      ln_handlers = [\<lparr>hn_addr = 21, handler_ctx = 22, hn_handler = 10, hn_arg = 0\<rparr>], base_nodes = []\<rparr>]\<rparr>"
  have "esp_event_handler_register_with (map Some [20, 21, 22, 23, 24]) 5 1 10 0 ex_loop = Some (ESP_OK, ?lp)" by code_simp
  moreover have "dispatch (self_unregister 5 1) ex_post ?lp = Some (Next (ex_loop\<lparr>env := [10]\<rparr>))" by code_simp
  moreover have "env (ex_loop\<lparr>env := [10]\<rparr>) = [10] \<and> loop_nodes (ex_loop\<lparr>env := [10]\<rparr>) = []" by code_simp
  moreover have "esp_event_handler_register_with (map Some [20, 21, 22, 23]) 5 ESP_EVENT_ANY_ID 10 0 ex_loop = Some (ESP_OK, ?lq)" by code_simp
  moreover have "dispatch (self_unregister 5 ESP_EVENT_ANY_ID) ex_post ?lq = Some UseAfterFree" by code_simp
  moreover have "esp_event_handler_register_with (map Some [20, 21, 22]) ESP_EVENT_ANY_BASE ESP_EVENT_ANY_ID 10 0 ex_loop = Some (ESP_OK, ?lr)"
    by code_simp
  moreover have "dispatch (self_unregister ESP_EVENT_ANY_BASE ESP_EVENT_ANY_ID) ex_post ?lr = Some UseAfterFree" by code_simp
  ultimately show ?thesis by blast
qed

subsection \<open>Departures from the documentation\<close>

text \<open>
  The documentation says that a second registration of a handler for an event overwrites the first one, and
  that a handler is no longer called once it is unregistered. A registration for the whole base in between
  makes the library open a second node for the base, and the search for the handler only looks there:
  the handler is then called twice, and one unregistration leaves one of the two in effect.
\<close>

definition ex_twice :: "nat list esp_event_loop_instance_t option" where
  "ex_twice = do {
     (e1, lp1) \<leftarrow> esp_event_handler_register_with (map Some [20, 21, 22, 23, 24]) 5 1 10 0 ex_loop;
     (e2, lp2) \<leftarrow> esp_event_handler_register_with (map Some [30, 31, 32, 33, 34]) 5 ESP_EVENT_ANY_ID 11 0 lp1;
     (e3, lp3) \<leftarrow> esp_event_handler_register_with (map Some [40, 41, 42, 43, 44]) 5 1 10 0 lp2;
     (if [e1, e2, e3] = [ESP_OK, ESP_OK, ESP_OK] then Some lp3 else None) }"

definition dispatched :: "nat list esp_event_loop_instance_t flow option \<Rightarrow> nat list option" where
  "dispatched r = (case r of Some (Next lp) \<Rightarrow> Some (env lp) | _ \<Rightarrow> None)"

theorem legacy_registration_survives_unregister:
  "\<exists>lp. ex_twice = Some lp \<and> dispatched (dispatch log_code ex_post lp) = Some [10, 11, 10] \<and>
     fst (esp_event_handler_unregister_with 5 1 10 lp) = ESP_OK \<and>
     dispatched (dispatch log_code ex_post (snd (esp_event_handler_unregister_with 5 1 10 lp))) = Some [11, 10]"
proof -
  have "\<not> Option.is_none ex_twice" by code_simp
  then have lp: "ex_twice = Some (the ex_twice)" by (simp add: Option.is_none_def)
  have "dispatched (dispatch log_code ex_post (the ex_twice)) = Some [10, 11, 10]" by code_simp
  moreover have "fst (esp_event_handler_unregister_with 5 1 10 (the ex_twice)) = ESP_OK" by code_simp
  moreover have "dispatched (dispatch log_code ex_post (snd (esp_event_handler_unregister_with 5 1 10 (the ex_twice)))) = Some [11, 10]"
    by code_simp
  ultimately show ?thesis using lp by (intro exI [of _ "the ex_twice"]) simp
qed

text \<open>
  A run that ends because its time is up leaves the calling task recorded as the running task. A later post
  by that task to a full queue then fails at once, although it was given time to wait and another task
  makes room; with the record cleared, as it is on the other way out, the post succeeds.
\<close>

theorem expired_run_keeps_running_task:
  "\<exists>lp. esp_event_loop_run log_code (\<lambda>k. id) (\<lambda>k. if k = 0 then 0 else 5) 7 5 (ex_loop\<lparr>queue := [ex_post]\<rparr>) = Some (Returned lp) \<and>
     running_task lp = Some 7 \<and>
     fst (esp_event_post_to 7 True True (\<lambda>s. s\<lparr>queue := []\<rparr>) 5 1 None 0 100 (lp\<lparr>queue := [ex_post, ex_post]\<rparr>)) = ESP_ERR_TIMEOUT \<and>
     fst (esp_event_post_to 7 True True (\<lambda>s. s\<lparr>queue := []\<rparr>) 5 1 None 0 100
       (lp\<lparr>queue := [ex_post, ex_post], running_task := None\<rparr>)) = ESP_OK"
proof -
  let ?lp = "ex_loop\<lparr>running_task := Some 7\<rparr>"
  have "esp_event_loop_run log_code (\<lambda>k. id) (\<lambda>k. if k = 0 then 0 else 5) 7 5 (ex_loop\<lparr>queue := [ex_post]\<rparr>) = Some (Returned ?lp)" by code_simp
  moreover have "fst (esp_event_post_to 7 True True (\<lambda>s. s\<lparr>queue := []\<rparr>) 5 1 None 0 100 (?lp\<lparr>queue := [ex_post, ex_post]\<rparr>)) = ESP_ERR_TIMEOUT"
    by code_simp
  moreover have "fst (esp_event_post_to 7 True True (\<lambda>s. s\<lparr>queue := []\<rparr>) 5 1 None 0 100
       (?lp\<lparr>queue := [ex_post, ex_post], running_task := None\<rparr>)) = ESP_OK" by code_simp
  ultimately show ?thesis by (intro exI [of _ ?lp]) simp
qed

end
