(* ===== verification/Vfs.thy ===== *)
theory Vfs
  imports Prelude
begin

section \<open>The virtual file system\<close>

text \<open>
  Model of \<open>vfs/vfs.c\<close>: the table of registered file systems, the table of descriptors and the
  system calls that dispatch on them (\<open>select\<close> is in the theory \<open>Vfs_Select\<close>).
  \<^item> \<open>VFS_MAX_COUNT\<close> and \<open>MAX_FDS\<close> are the lengths of \<open>s_vfs\<close> and \<open>s_fd_table\<close>; a slot of
    \<open>s_vfs\<close> is \<open>None\<close> for a null pointer, and an entry carries its heap address, because the
    code compares entries as pointers.
  \<^item> \<open>vfs_index_t\<close> is a signed byte and \<open>local_fd_t\<close> an unsigned byte; both keep their width.
  \<^item> A driver is the record of its functions. Each takes the context pointer (when the flag
    \<open>ESP_VFS_FLAG_CONTEXT_PTR\<close> selects the variant with it), its arguments, \<open>errno\<close> and the world
    \<open>'w\<close>, and gives its result, \<open>errno\<close> and the world. The functions of a driver are not code of
    this component: they are data of the state and arbitrary. They do not call back into the VFS.
  \<^item> A pointer result is an address, 0 for \<open>NULL\<close>. The field \<open>dd_vfs_idx\<close> of a \<open>DIR\<close> is kept in a
    map from the address of the \<open>DIR\<close>; an address without a \<open>DIR\<close> stops the run.
  \<^item> A system call is a function to an \<open>option\<close>: \<open>None\<close> is a failed \<open>assert\<close> or an access outside
    an array.
\<close>

subsection \<open>Drivers, entries and descriptors\<close>

datatype vfs_errno = E0 | ENOENT | EBADF | ENOMEM | EXDEV | EROFS | ENOSYS | EINVAL | EINTR | EOTHER int

datatype vfs_method =
    M_write | M_lseek | M_read | M_pread | M_pwrite | M_open | M_close | M_fstat | M_stat | M_link
  | M_unlink | M_rename | M_opendir | M_readdir | M_readdir_r | M_telldir | M_seekdir | M_closedir
  | M_mkdir | M_rmdir | M_fcntl | M_ioctl | M_fsync | M_access | M_truncate | M_ftruncate | M_utime
  | M_tcsetattr | M_tcgetattr | M_tcdrain | M_tcflush | M_tcflow | M_tcgetsid | M_tcsendbreak

datatype vfs_arg = VInt int | VPath string | VPtr nat

type_synonym fd_set = "nat set"
type_synonym fd_sets3 = "fd_set \<times> fd_set \<times> fd_set"

record user_fds =
  readfds :: "fd_set option"
  writefds :: "fd_set option"
  errorfds :: "fd_set option"

record esp_vfs_select_sem_t =
  is_sem_local :: bool
  sem :: nat

type_synonym timeval = "int \<times> int"

type_synonym 'w vfs_fn = "nat option \<Rightarrow> vfs_arg list \<Rightarrow> vfs_errno \<Rightarrow> 'w \<Rightarrow> int \<times> vfs_errno \<times> 'w"

record 'w esp_vfs_t =
  vfs_flags :: flags
  vfs_fn :: "vfs_method \<Rightarrow> 'w vfs_fn option"
  start_select :: "(int \<Rightarrow> fd_sets3 \<Rightarrow> esp_vfs_select_sem_t \<Rightarrow> 'w \<Rightarrow> esp_err_t \<times> fd_sets3 \<times> nat \<times> 'w) option"
  socket_select :: "(int \<Rightarrow> user_fds \<Rightarrow> timeval option \<Rightarrow> 'w \<Rightarrow> int \<times> user_fds \<times> 'w) option"
  stop_socket_select :: "(nat \<Rightarrow> 'w \<Rightarrow> 'w) option"
  stop_socket_select_isr :: "(nat \<Rightarrow> 'w \<Rightarrow> bool \<times> 'w) option"
  get_socket_select_semaphore :: "('w \<Rightarrow> nat \<times> 'w) option"
  end_select :: "(nat \<Rightarrow> fd_sets3 \<Rightarrow> 'w \<Rightarrow> esp_err_t \<times> fd_sets3 \<times> 'w) option"

record 'w vfs_entry_t =
  vfs_addr :: nat
  vfs :: "'w esp_vfs_t"
  path_prefix :: string
  path_prefix_len :: nat
  vfs_ctx :: nat
  offset :: nat

record fd_table_t =
  permanent :: bool
  has_pending_close :: bool
  has_pending_select :: bool
  vfs_index :: int
  local_fd :: "8 word"

record 'w vfs_state =
  s_vfs :: "'w vfs_entry_t option list"
  s_vfs_count :: nat
  s_fd_table :: "fd_table_t list"
  vfs_errno :: vfs_errno
  dd_vfs_idx :: "int \<rightharpoonup> nat"
  semaphores :: "nat list"
  vfs_env :: 'w

definition ESP_VFS_PATH_MAX :: nat where "ESP_VFS_PATH_MAX = 15"
definition ESP_VFS_FLAG_CONTEXT_PTR :: flags where "ESP_VFS_FLAG_CONTEXT_PTR = 1"
definition ESP_VFS_FLAG_READONLY_FS :: flags where "ESP_VFS_FLAG_READONLY_FS = 2"
definition LEN_PATH_PREFIX_IGNORED :: nat where "LEN_PATH_PREFIX_IGNORED = 2 ^ 32 - 1"

definition FD_TABLE_ENTRY_UNUSED :: fd_table_t where
  "FD_TABLE_ENTRY_UNUSED =
     \<lparr>permanent = False, has_pending_close = False, has_pending_select = False,
      vfs_index = -1, local_fd = -1\<rparr>"

abbreviation VFS_MAX_COUNT :: "'w vfs_state \<Rightarrow> nat" where "VFS_MAX_COUNT s \<equiv> length (s_vfs s)"
abbreviation MAX_FDS :: "'w vfs_state \<Rightarrow> nat" where "MAX_FDS s \<equiv> length (s_fd_table s)"

text \<open>Assignment to a \<open>vfs_index_t\<close>: truncation to a signed byte.\<close>

definition to_vfs_index_t :: "int \<Rightarrow> int" where
  "to_vfs_index_t i = sint (word_of_int i :: 8 word)"

subsection \<open>Registration of file systems\<close>

fun first_free :: "'a option list \<Rightarrow> nat" where
  "first_free [] = 0"
| "first_free (None # xs) = 0"
| "first_free (Some x # xs) = Suc (first_free xs)"

definition esp_vfs_register_common ::
  "nat option \<Rightarrow> string \<Rightarrow> nat \<Rightarrow> 'w esp_vfs_t \<Rightarrow> nat \<Rightarrow> 'w vfs_state \<Rightarrow>
   esp_err_t \<times> nat option \<times> 'w vfs_state" where
  "esp_vfs_register_common malloc base_path len v ctx s =
     (if len \<noteq> LEN_PATH_PREFIX_IGNORED \<and> (len = 1 \<or> len > ESP_VFS_PATH_MAX)
      then (ESP_ERR_INVALID_ARG, None, s)
      else if len \<noteq> LEN_PATH_PREFIX_IGNORED \<and> len \<ge> 2 \<and>
              (base_path ! 0 \<noteq> CHR ''/'' \<or> base_path ! (len - 1) = CHR ''/'')
      then (ESP_ERR_INVALID_ARG, None, s)
      else case malloc of
          None \<Rightarrow> (ESP_ERR_NO_MEM, None, s)
        | Some entry \<Rightarrow>
            let index = first_free (take (s_vfs_count s) (s_vfs s)) in
            if index = s_vfs_count s \<and> s_vfs_count s \<ge> VFS_MAX_COUNT s
            then (ESP_ERR_NO_MEM, None, s)
            else
              let count = (if index = s_vfs_count s then s_vfs_count s + 1 else s_vfs_count s);
                  e = \<lparr>vfs_addr = entry, vfs = v,
                       path_prefix = (if len \<noteq> LEN_PATH_PREFIX_IGNORED then base_path else []),
                       path_prefix_len = len, vfs_ctx = ctx, offset = index\<rparr>
              in (ESP_OK, Some index, s\<lparr>s_vfs := (s_vfs s)[index := Some e], s_vfs_count := count\<rparr>))"

definition esp_vfs_register ::
  "nat option \<Rightarrow> string \<Rightarrow> 'w esp_vfs_t \<Rightarrow> nat \<Rightarrow> 'w vfs_state \<Rightarrow> esp_err_t \<times> 'w vfs_state" where
  "esp_vfs_register malloc base_path v ctx s =
     (let (err, _, s') = esp_vfs_register_common malloc base_path (length base_path) v ctx s in (err, s'))"

text \<open>
  The loop of \<open>esp_vfs_register_fd_range\<close> from descriptor \<open>i\<close> on, \<open>n\<close> descriptors left; \<open>Inl i\<close>
  when descriptor \<open>i\<close> is taken. \<open>fd_range_undo\<close> is the loop that takes back what was set.
\<close>

fun fd_range_set :: "nat \<Rightarrow> nat \<Rightarrow> nat \<Rightarrow> fd_table_t list \<Rightarrow> nat \<times> fd_table_t list + fd_table_t list" where
  "fd_range_set 0 i index t = Inr t"
| "fd_range_set (Suc n) i index t =
     (if vfs_index (t ! i) \<noteq> -1 then Inl (i, t)
      else fd_range_set n (Suc i) index
             (t[i := (t ! i)\<lparr>permanent := True, vfs_index := to_vfs_index_t (int index),
                            local_fd := of_nat i\<rparr>]))"

definition fd_clear_if :: "int \<Rightarrow> fd_table_t \<Rightarrow> fd_table_t" where
  "fd_clear_if index e = (if vfs_index e = index then FD_TABLE_ENTRY_UNUSED else e)"

fun fd_range_undo :: "nat \<Rightarrow> nat \<Rightarrow> nat \<Rightarrow> fd_table_t list \<Rightarrow> fd_table_t list" where
  "fd_range_undo 0 j index t = t"
| "fd_range_undo (Suc n) j index t =
     fd_range_undo n (Suc j) index (t[j := fd_clear_if (int index) (t ! j)])"

definition esp_vfs_register_fd_range ::
  "nat option \<Rightarrow> 'w esp_vfs_t \<Rightarrow> nat \<Rightarrow> int \<Rightarrow> int \<Rightarrow> 'w vfs_state \<Rightarrow> esp_err_t \<times> 'w vfs_state" where
  "esp_vfs_register_fd_range malloc v ctx min_fd max_fd s =
     (if min_fd < 0 \<or> max_fd < 0 \<or> min_fd > int (MAX_FDS s) \<or> max_fd > int (MAX_FDS s) \<or> min_fd > max_fd
      then (ESP_ERR_INVALID_ARG, s)
      else case esp_vfs_register_common malloc [] LEN_PATH_PREFIX_IGNORED v ctx s of
          (ESP_OK, Some index, s') \<Rightarrow>
            (case fd_range_set (nat (max_fd - min_fd)) (nat min_fd) index (s_fd_table s') of
               Inl (i, t) \<Rightarrow>
                 (ESP_ERR_INVALID_ARG,
                  s'\<lparr>s_vfs := (s_vfs s')[index := None],
                     s_fd_table := fd_range_undo (i - nat min_fd) (nat min_fd) index t\<rparr>)
             | Inr t \<Rightarrow> (ESP_OK, s'\<lparr>s_fd_table := t\<rparr>))
        | (err, _, s') \<Rightarrow> (err, s'))"

text \<open>The result also gives \<open>*vfs_id\<close> (\<open>-1\<close> unless the call succeeds); \<open>vfs_id\<close> is null when
  \<open>id_ptr\<close> is false.\<close>

definition esp_vfs_register_with_id ::
  "nat option \<Rightarrow> 'w esp_vfs_t \<Rightarrow> nat \<Rightarrow> bool \<Rightarrow> 'w vfs_state \<Rightarrow> esp_err_t \<times> int \<times> 'w vfs_state" where
  "esp_vfs_register_with_id malloc v ctx id_ptr s =
     (if \<not> id_ptr then (ESP_ERR_INVALID_ARG, -1, s)
      else let (err, id, s') = esp_vfs_register_common malloc [] LEN_PATH_PREFIX_IGNORED v ctx s
           in (err, case id of Some i \<Rightarrow> int i | None \<Rightarrow> -1, s'))"

text \<open>The loop that deletes the references runs \<open>j\<close> from 0 to \<open>VFS_MAX_COUNT - 1\<close>.\<close>

definition esp_vfs_unregister_with_id :: "int \<Rightarrow> 'w vfs_state \<Rightarrow> esp_err_t \<times> 'w vfs_state" where
  "esp_vfs_unregister_with_id vfs_id s =
     (if vfs_id < 0 \<or> vfs_id \<ge> int (VFS_MAX_COUNT s) \<or> Option.is_none (s_vfs s ! nat vfs_id)
      then (ESP_ERR_INVALID_ARG, s)
      else (ESP_OK, s\<lparr>s_vfs := (s_vfs s)[nat vfs_id := None],
                      s_fd_table := map (fd_clear_if vfs_id) (take (VFS_MAX_COUNT s) (s_fd_table s)) @
                                    drop (VFS_MAX_COUNT s) (s_fd_table s)\<rparr>))"

definition same_prefix :: "string \<Rightarrow> 'w vfs_entry_t option \<Rightarrow> bool" where
  "same_prefix base_path slot =
     (case slot of None \<Rightarrow> False
      | Some e \<Rightarrow> length base_path = path_prefix_len e \<and>
                  take (path_prefix_len e) base_path = take (path_prefix_len e) (path_prefix e))"

text \<open>The first of the \<open>s_vfs_count\<close> slots that \<open>P\<close> accepts.\<close>

definition first_slot :: "('w vfs_entry_t option \<Rightarrow> bool) \<Rightarrow> 'w vfs_state \<Rightarrow> nat option" where
  "first_slot P s = List.find (\<lambda>i. P (s_vfs s ! i)) [0..<s_vfs_count s]"

definition esp_vfs_unregister :: "string \<Rightarrow> 'w vfs_state \<Rightarrow> esp_err_t \<times> 'w vfs_state" where
  "esp_vfs_unregister base_path s =
     (case first_slot (same_prefix base_path) s of
        Some i \<Rightarrow> esp_vfs_unregister_with_id (int i) s
      | None \<Rightarrow> (ESP_ERR_INVALID_STATE, s))"

text \<open>The first descriptor whose \<open>vfs_index\<close> is \<open>-1\<close>.\<close>

fun free_fd :: "fd_table_t list \<Rightarrow> nat option" where
  "free_fd [] = None"
| "free_fd (e # es) = (if vfs_index e = -1 then Some 0 else map_option Suc (free_fd es))"

text \<open>The result also gives \<open>*fd\<close> when the call stores it; \<open>fd\<close> is null when \<open>fd_ptr\<close> is false.\<close>

definition esp_vfs_register_fd_with_local_fd ::
  "int \<Rightarrow> int \<Rightarrow> bool \<Rightarrow> bool \<Rightarrow> 'w vfs_state \<Rightarrow> esp_err_t \<times> nat option \<times> 'w vfs_state" where
  "esp_vfs_register_fd_with_local_fd vfs_id lfd perm fd_ptr s =
     (if vfs_id < 0 \<or> vfs_id \<ge> int (s_vfs_count s) \<or> \<not> fd_ptr then (ESP_ERR_INVALID_ARG, None, s)
      else case free_fd (s_fd_table s) of
          None \<Rightarrow> (ESP_ERR_NO_MEM, None, s)
        | Some i \<Rightarrow>
            (ESP_OK, Some i,
             s\<lparr>s_fd_table := (s_fd_table s)
                 [i := (s_fd_table s ! i)\<lparr>permanent := perm, vfs_index := to_vfs_index_t vfs_id,
                          local_fd := (if lfd \<ge> 0 then word_of_int lfd else of_nat i)\<rparr>]\<rparr>))"

definition esp_vfs_register_fd :: "int \<Rightarrow> bool \<Rightarrow> 'w vfs_state \<Rightarrow> esp_err_t \<times> nat option \<times> 'w vfs_state" where
  "esp_vfs_register_fd vfs_id fd_ptr s = esp_vfs_register_fd_with_local_fd vfs_id (-1) True fd_ptr s"

definition esp_vfs_unregister_fd :: "int \<Rightarrow> int \<Rightarrow> 'w vfs_state \<Rightarrow> esp_err_t \<times> 'w vfs_state" where
  "esp_vfs_unregister_fd vfs_id fd s =
     (if vfs_id < 0 \<or> vfs_id \<ge> int (s_vfs_count s) \<or> fd < 0 \<or> fd \<ge> int (MAX_FDS s)
      then (ESP_ERR_INVALID_ARG, s)
      else let item = s_fd_table s ! nat fd in
           if permanent item \<and> vfs_index item = vfs_id \<and> uint (local_fd item) = fd
           then (ESP_OK, s\<lparr>s_fd_table := (s_fd_table s)[nat fd := FD_TABLE_ENTRY_UNUSED]\<rparr>)
           else (ESP_ERR_INVALID_ARG, s))"

definition esp_vfs_set_readonly_flag :: "string \<Rightarrow> 'w vfs_state \<Rightarrow> esp_err_t \<times> 'w vfs_state" where
  "esp_vfs_set_readonly_flag base_path s =
     (case first_slot (same_prefix base_path) s of
        Some i \<Rightarrow>
          (ESP_OK, s\<lparr>s_vfs := (s_vfs s)
             [i := map_option (\<lambda>e. e\<lparr>vfs := (vfs e)\<lparr>vfs_flags :=
                                        set_flag (vfs_flags (vfs e)) ESP_VFS_FLAG_READONLY_FS\<rparr>\<rparr>)
                              (s_vfs s ! i)]\<rparr>)
      | None \<Rightarrow> (ESP_ERR_INVALID_STATE, s))"

subsection \<open>Lookup\<close>

definition get_vfs_for_index :: "int \<Rightarrow> 'w vfs_state \<Rightarrow> 'w vfs_entry_t option" where
  "get_vfs_for_index index s =
     (if index < 0 \<or> index \<ge> int (s_vfs_count s) then None else s_vfs s ! nat index)"

definition fd_valid :: "int \<Rightarrow> 'w vfs_state \<Rightarrow> bool" where
  "fd_valid fd s \<longleftrightarrow> fd < int (MAX_FDS s) \<and> fd \<ge> 0"

definition get_vfs_for_fd :: "int \<Rightarrow> 'w vfs_state \<Rightarrow> 'w vfs_entry_t option" where
  "get_vfs_for_fd fd s =
     (if fd_valid fd s then get_vfs_for_index (vfs_index (s_fd_table s ! nat fd)) s else None)"

definition get_local_fd :: "'w vfs_entry_t option \<Rightarrow> int \<Rightarrow> 'w vfs_state \<Rightarrow> int" where
  "get_local_fd v fd s =
     (if \<not> Option.is_none v \<and> fd_valid fd s then uint (local_fd (s_fd_table s ! nat fd)) else -1)"

definition translate_path :: "'w vfs_entry_t \<Rightarrow> string \<Rightarrow> string option" where
  "translate_path v src_path =
     do { configASSERT (take (path_prefix_len v) src_path = take (path_prefix_len v) (path_prefix v));
          Some (if length src_path = path_prefix_len v then ''/'' else drop (path_prefix_len v) src_path) }"

text \<open>
  One turn of the loop of \<open>get_vfs_for_path\<close>: the slot against the best match so far and its
  prefix length.
\<close>

definition path_turn ::
  "string \<Rightarrow> 'w vfs_entry_t option \<Rightarrow> 'w vfs_entry_t option \<times> int \<Rightarrow> 'w vfs_entry_t option \<times> int" where
  "path_turn path slot b =
     (let (best_match, best_len) = b; len = length path in
      case slot of
        None \<Rightarrow> b
      | Some v \<Rightarrow>
          let plen = path_prefix_len v in
          if plen = LEN_PATH_PREFIX_IGNORED then b
          else if len < plen \<or> take plen path \<noteq> take plen (path_prefix v) then b
          else if plen = 0 \<and> Option.is_none best_match then (Some v, best_len)
          else if len > plen \<and> path ! plen \<noteq> CHR ''/'' then b
          else if best_len < int plen then (Some v, int plen)
          else b)"

definition get_vfs_for_path :: "string \<Rightarrow> 'w vfs_state \<Rightarrow> 'w vfs_entry_t option" where
  "get_vfs_for_path path s = fst (fold (path_turn path) (take (s_vfs_count s) (s_vfs s)) (None, -1))"

subsection \<open>Calling a driver\<close>

abbreviation vfs_result :: "'a \<Rightarrow> vfs_errno \<Rightarrow> 'w vfs_state \<Rightarrow> ('a \<times> 'w vfs_state) option" where
  "vfs_result r e s \<equiv> Some (r, s\<lparr>vfs_errno := e\<rparr>)"

definition call_driver ::
  "'w vfs_entry_t \<Rightarrow> 'w vfs_fn \<Rightarrow> vfs_arg list \<Rightarrow> 'w vfs_state \<Rightarrow> int \<times> 'w vfs_state" where
  "call_driver v f args s =
     (let ctx = (if flag_set (vfs_flags (vfs v)) ESP_VFS_FLAG_CONTEXT_PTR then Some (vfs_ctx v) else None);
          (ret, err, w) = f ctx args (vfs_errno s) (vfs_env s)
      in (ret, s\<lparr>vfs_errno := err, vfs_env := w\<rparr>))"

text \<open>
  The macros \<open>CHECK_AND_CALL\<close>, \<open>CHECK_AND_CALLP\<close> and \<open>CHECK_AND_CALLV\<close> return from the function
  that uses them when the driver has no such method: with \<open>-1\<close>, with \<open>NULL\<close>, with nothing. The
  rest of the function is the continuation \<open>k\<close>.
\<close>

definition CHECK_AND_CALL ::
  "'w vfs_entry_t \<Rightarrow> vfs_method \<Rightarrow> vfs_arg list \<Rightarrow> (int \<Rightarrow> 'w vfs_state \<Rightarrow> (int \<times> 'w vfs_state) option) \<Rightarrow>
   'w vfs_state \<Rightarrow> (int \<times> 'w vfs_state) option" where
  "CHECK_AND_CALL v func args k s =
     (case vfs_fn (vfs v) func of
        None \<Rightarrow> vfs_result (-1) ENOSYS s
      | Some f \<Rightarrow> let (ret, s') = call_driver v f args s in k ret s')"

definition CHECK_AND_CALLP ::
  "'w vfs_entry_t \<Rightarrow> vfs_method \<Rightarrow> vfs_arg list \<Rightarrow> (int \<Rightarrow> 'w vfs_state \<Rightarrow> (int \<times> 'w vfs_state) option) \<Rightarrow>
   'w vfs_state \<Rightarrow> (int \<times> 'w vfs_state) option" where
  "CHECK_AND_CALLP v func args k s =
     (case vfs_fn (vfs v) func of
        None \<Rightarrow> vfs_result 0 ENOSYS s
      | Some f \<Rightarrow> let (ret, s') = call_driver v f args s in k ret s')"

definition CHECK_AND_CALLV ::
  "'w vfs_entry_t \<Rightarrow> vfs_method \<Rightarrow> vfs_arg list \<Rightarrow> 'w vfs_state \<Rightarrow> 'w vfs_state option" where
  "CHECK_AND_CALLV v func args s =
     (case vfs_fn (vfs v) func of
        None \<Rightarrow> Some (s\<lparr>vfs_errno := ENOSYS\<rparr>)
      | Some f \<Rightarrow> Some (snd (call_driver v f args s)))"

definition return_ret :: "int \<Rightarrow> 'w vfs_state \<Rightarrow> (int \<times> 'w vfs_state) option" where
  "return_ret ret s = Some (ret, s)"

text \<open>\<open>CHECK_VFS_READONLY_FLAG\<close>: the function goes on with \<open>k\<close> on a writable file system.\<close>

definition CHECK_VFS_READONLY_FLAG ::
  "flags \<Rightarrow> ('w vfs_state \<Rightarrow> (int \<times> 'w vfs_state) option) \<Rightarrow> 'w vfs_state \<Rightarrow> (int \<times> 'w vfs_state) option" where
  "CHECK_VFS_READONLY_FLAG fl k s =
     (if flag_set fl ESP_VFS_FLAG_READONLY_FS then vfs_result (-1) EROFS s else k s)"

text \<open>
  The opening lines of every call on a descriptor: the file system and the local descriptor, or
  \<open>EBADF\<close>.
\<close>

definition with_fd ::
  "int \<Rightarrow> ('w vfs_entry_t \<Rightarrow> int \<Rightarrow> 'w vfs_state \<Rightarrow> (int \<times> 'w vfs_state) option) \<Rightarrow>
   'w vfs_state \<Rightarrow> (int \<times> 'w vfs_state) option" where
  "with_fd fd k s =
     (let v = get_vfs_for_fd fd s; lfd = get_local_fd v fd s in
      case v of
        None \<Rightarrow> vfs_result (-1) EBADF s
      | Some e \<Rightarrow> if lfd < 0 then vfs_result (-1) EBADF s else k e lfd s)"

text \<open>The opening lines of every call on a path: the file system, or \<open>ENOENT\<close>.\<close>

definition with_path ::
  "string \<Rightarrow> ('w vfs_entry_t \<Rightarrow> 'w vfs_state \<Rightarrow> (int \<times> 'w vfs_state) option) \<Rightarrow>
   int \<Rightarrow> 'w vfs_state \<Rightarrow> (int \<times> 'w vfs_state) option" where
  "with_path path k fail s =
     (case get_vfs_for_path path s of
        None \<Rightarrow> vfs_result fail ENOENT s
      | Some e \<Rightarrow> k e s)"

subsection \<open>Calls on descriptors\<close>

definition O_ACCMODE :: int where "O_ACCMODE = 3"
definition O_RDONLY :: int where "O_RDONLY = 0"

text \<open>\<open>errno\<close> and \<open>__errno_r(r)\<close> are the same variable: \<open>r\<close> belongs to the calling task.\<close>

definition esp_vfs_open :: "string \<Rightarrow> int \<Rightarrow> int \<Rightarrow> 'w vfs_state \<Rightarrow> (int \<times> 'w vfs_state) option" where
  "esp_vfs_open path flgs mode =
     with_path path (\<lambda>v s.
       if flgs AND O_ACCMODE \<noteq> O_RDONLY \<and> flag_set (vfs_flags (vfs v)) ESP_VFS_FLAG_READONLY_FS
       then vfs_result (-1) EROFS s
       else do {
         path_within_vfs \<leftarrow> translate_path v path;
         CHECK_AND_CALL v M_open [VPath path_within_vfs, VInt flgs, VInt mode] (\<lambda>fd_within_vfs s.
           if fd_within_vfs \<ge> 0
           then case free_fd (s_fd_table s) of
               Some i \<Rightarrow>
                 Some (int i, s\<lparr>s_fd_table := (s_fd_table s)
                   [i := (s_fd_table s ! i)\<lparr>permanent := False, vfs_index := to_vfs_index_t (int (offset v)),
                            local_fd := word_of_int fd_within_vfs\<rparr>]\<rparr>)
             | None \<Rightarrow>
                 CHECK_AND_CALL v M_close [VInt fd_within_vfs] (\<lambda>_. vfs_result (-1) ENOMEM) s
           else Some (-1, s)) s }) (-1)"

definition esp_vfs_write :: "int \<Rightarrow> nat \<Rightarrow> nat \<Rightarrow> 'w vfs_state \<Rightarrow> (int \<times> 'w vfs_state) option" where
  "esp_vfs_write fd data sz =
     with_fd fd (\<lambda>v lfd. CHECK_AND_CALL v M_write [VInt lfd, VPtr data, VInt (int sz)] return_ret)"

definition esp_vfs_lseek :: "int \<Rightarrow> int \<Rightarrow> int \<Rightarrow> 'w vfs_state \<Rightarrow> (int \<times> 'w vfs_state) option" where
  "esp_vfs_lseek fd sz mode =
     with_fd fd (\<lambda>v lfd. CHECK_AND_CALL v M_lseek [VInt lfd, VInt sz, VInt mode] return_ret)"

definition esp_vfs_read :: "int \<Rightarrow> nat \<Rightarrow> nat \<Rightarrow> 'w vfs_state \<Rightarrow> (int \<times> 'w vfs_state) option" where
  "esp_vfs_read fd dst sz =
     with_fd fd (\<lambda>v lfd. CHECK_AND_CALL v M_read [VInt lfd, VPtr dst, VInt (int sz)] return_ret)"

definition esp_vfs_pread :: "int \<Rightarrow> nat \<Rightarrow> nat \<Rightarrow> int \<Rightarrow> 'w vfs_state \<Rightarrow> (int \<times> 'w vfs_state) option" where
  "esp_vfs_pread fd dst sz off =
     with_fd fd (\<lambda>v lfd. CHECK_AND_CALL v M_pread [VInt lfd, VPtr dst, VInt (int sz), VInt off] return_ret)"

definition esp_vfs_pwrite :: "int \<Rightarrow> nat \<Rightarrow> nat \<Rightarrow> int \<Rightarrow> 'w vfs_state \<Rightarrow> (int \<times> 'w vfs_state) option" where
  "esp_vfs_pwrite fd src sz off =
     with_fd fd (\<lambda>v lfd. CHECK_AND_CALL v M_pwrite [VInt lfd, VPtr src, VInt (int sz), VInt off] return_ret)"

definition esp_vfs_close :: "int \<Rightarrow> 'w vfs_state \<Rightarrow> (int \<times> 'w vfs_state) option" where
  "esp_vfs_close fd =
     with_fd fd (\<lambda>v lfd. CHECK_AND_CALL v M_close [VInt lfd] (\<lambda>ret s.
       let e = s_fd_table s ! nat fd in
       if permanent e then Some (ret, s)
       else if has_pending_select e
       then Some (ret, s\<lparr>s_fd_table := (s_fd_table s)[nat fd := e\<lparr>has_pending_close := True\<rparr>]\<rparr>)
       else Some (ret, s\<lparr>s_fd_table := (s_fd_table s)[nat fd := FD_TABLE_ENTRY_UNUSED]\<rparr>)))"

definition esp_vfs_fstat :: "int \<Rightarrow> nat \<Rightarrow> 'w vfs_state \<Rightarrow> (int \<times> 'w vfs_state) option" where
  "esp_vfs_fstat fd st =
     with_fd fd (\<lambda>v lfd. CHECK_AND_CALL v M_fstat [VInt lfd, VPtr st] return_ret)"

definition esp_vfs_fcntl_r :: "int \<Rightarrow> int \<Rightarrow> int \<Rightarrow> 'w vfs_state \<Rightarrow> (int \<times> 'w vfs_state) option" where
  "esp_vfs_fcntl_r fd cmd arg =
     with_fd fd (\<lambda>v lfd. CHECK_AND_CALL v M_fcntl [VInt lfd, VInt cmd, VInt arg] return_ret)"

text \<open>The variable arguments of \<open>ioctl\<close> are the address of their list.\<close>

definition esp_vfs_ioctl :: "int \<Rightarrow> int \<Rightarrow> nat \<Rightarrow> 'w vfs_state \<Rightarrow> (int \<times> 'w vfs_state) option" where
  "esp_vfs_ioctl fd cmd args =
     with_fd fd (\<lambda>v lfd. CHECK_AND_CALL v M_ioctl [VInt lfd, VInt cmd, VPtr args] return_ret)"

definition esp_vfs_fsync :: "int \<Rightarrow> 'w vfs_state \<Rightarrow> (int \<times> 'w vfs_state) option" where
  "esp_vfs_fsync fd = with_fd fd (\<lambda>v lfd. CHECK_AND_CALL v M_fsync [VInt lfd] return_ret)"

definition esp_vfs_ftruncate :: "int \<Rightarrow> int \<Rightarrow> 'w vfs_state \<Rightarrow> (int \<times> 'w vfs_state) option" where
  "esp_vfs_ftruncate fd len =
     with_fd fd (\<lambda>v lfd. CHECK_VFS_READONLY_FLAG (vfs_flags (vfs v))
       (CHECK_AND_CALL v M_ftruncate [VInt lfd, VInt len] return_ret))"

definition tcgetattr :: "int \<Rightarrow> nat \<Rightarrow> 'w vfs_state \<Rightarrow> (int \<times> 'w vfs_state) option" where
  "tcgetattr fd p = with_fd fd (\<lambda>v lfd. CHECK_AND_CALL v M_tcgetattr [VInt lfd, VPtr p] return_ret)"

definition tcsetattr :: "int \<Rightarrow> int \<Rightarrow> nat \<Rightarrow> 'w vfs_state \<Rightarrow> (int \<times> 'w vfs_state) option" where
  "tcsetattr fd optional_actions p =
     with_fd fd (\<lambda>v lfd. CHECK_AND_CALL v M_tcsetattr [VInt lfd, VInt optional_actions, VPtr p] return_ret)"

definition tcdrain :: "int \<Rightarrow> 'w vfs_state \<Rightarrow> (int \<times> 'w vfs_state) option" where
  "tcdrain fd = with_fd fd (\<lambda>v lfd. CHECK_AND_CALL v M_tcdrain [VInt lfd] return_ret)"

definition tcflush :: "int \<Rightarrow> int \<Rightarrow> 'w vfs_state \<Rightarrow> (int \<times> 'w vfs_state) option" where
  "tcflush fd sel = with_fd fd (\<lambda>v lfd. CHECK_AND_CALL v M_tcflush [VInt lfd, VInt sel] return_ret)"

definition tcflow :: "int \<Rightarrow> int \<Rightarrow> 'w vfs_state \<Rightarrow> (int \<times> 'w vfs_state) option" where
  "tcflow fd action = with_fd fd (\<lambda>v lfd. CHECK_AND_CALL v M_tcflow [VInt lfd, VInt action] return_ret)"

definition tcgetsid :: "int \<Rightarrow> 'w vfs_state \<Rightarrow> (int \<times> 'w vfs_state) option" where
  "tcgetsid fd = with_fd fd (\<lambda>v lfd. CHECK_AND_CALL v M_tcgetsid [VInt lfd] return_ret)"

definition tcsendbreak :: "int \<Rightarrow> int \<Rightarrow> 'w vfs_state \<Rightarrow> (int \<times> 'w vfs_state) option" where
  "tcsendbreak fd duration =
     with_fd fd (\<lambda>v lfd. CHECK_AND_CALL v M_tcsendbreak [VInt lfd, VInt duration] return_ret)"

subsection \<open>Calls on paths\<close>

definition esp_vfs_stat :: "string \<Rightarrow> nat \<Rightarrow> 'w vfs_state \<Rightarrow> (int \<times> 'w vfs_state) option" where
  "esp_vfs_stat path st =
     with_path path (\<lambda>v s. do {
       p \<leftarrow> translate_path v path;
       CHECK_AND_CALL v M_stat [VPath p, VPtr st] return_ret s }) (-1)"

definition esp_vfs_utime :: "string \<Rightarrow> nat \<Rightarrow> 'w vfs_state \<Rightarrow> (int \<times> 'w vfs_state) option" where
  "esp_vfs_utime path tms =
     with_path path (\<lambda>v s. do {
       p \<leftarrow> translate_path v path;
       CHECK_AND_CALL v M_utime [VPath p, VPtr tms] return_ret s }) (-1)"

definition esp_vfs_link :: "string \<Rightarrow> string \<Rightarrow> 'w vfs_state \<Rightarrow> (int \<times> 'w vfs_state) option" where
  "esp_vfs_link n1 n2 =
     with_path n1 (\<lambda>v s.
       case get_vfs_for_path n2 s of
         None \<Rightarrow> vfs_result (-1) EXDEV s
       | Some v2 \<Rightarrow>
           if vfs_addr v \<noteq> vfs_addr v2 then vfs_result (-1) EXDEV s
           else CHECK_VFS_READONLY_FLAG (vfs_flags (vfs v2)) (\<lambda>s. do {
             p1 \<leftarrow> translate_path v n1;
             p2 \<leftarrow> translate_path v n2;
             CHECK_AND_CALL v M_link [VPath p1, VPath p2] return_ret s }) s) (-1)"

definition esp_vfs_unlink :: "string \<Rightarrow> 'w vfs_state \<Rightarrow> (int \<times> 'w vfs_state) option" where
  "esp_vfs_unlink path =
     with_path path (\<lambda>v. CHECK_VFS_READONLY_FLAG (vfs_flags (vfs v)) (\<lambda>s. do {
       p \<leftarrow> translate_path v path;
       CHECK_AND_CALL v M_unlink [VPath p] return_ret s })) (-1)"

definition esp_vfs_rename :: "string \<Rightarrow> string \<Rightarrow> 'w vfs_state \<Rightarrow> (int \<times> 'w vfs_state) option" where
  "esp_vfs_rename src dst =
     with_path src (\<lambda>v. CHECK_VFS_READONLY_FLAG (vfs_flags (vfs v)) (\<lambda>s.
       case get_vfs_for_path dst s of
         None \<Rightarrow> vfs_result (-1) EXDEV s
       | Some vfs_dst \<Rightarrow>
           if vfs_addr v \<noteq> vfs_addr vfs_dst then vfs_result (-1) EXDEV s
           else CHECK_VFS_READONLY_FLAG (vfs_flags (vfs vfs_dst)) (\<lambda>s. do {
             p1 \<leftarrow> translate_path v src;
             p2 \<leftarrow> translate_path v dst;
             CHECK_AND_CALL v M_rename [VPath p1, VPath p2] return_ret s }) s)) (-1)"

definition esp_vfs_mkdir :: "string \<Rightarrow> int \<Rightarrow> 'w vfs_state \<Rightarrow> (int \<times> 'w vfs_state) option" where
  "esp_vfs_mkdir name mode =
     with_path name (\<lambda>v. CHECK_VFS_READONLY_FLAG (vfs_flags (vfs v)) (\<lambda>s. do {
       p \<leftarrow> translate_path v name;
       CHECK_AND_CALL v M_mkdir [VPath p, VInt mode] return_ret s })) (-1)"

definition esp_vfs_rmdir :: "string \<Rightarrow> 'w vfs_state \<Rightarrow> (int \<times> 'w vfs_state) option" where
  "esp_vfs_rmdir name =
     with_path name (\<lambda>v. CHECK_VFS_READONLY_FLAG (vfs_flags (vfs v)) (\<lambda>s. do {
       p \<leftarrow> translate_path v name;
       CHECK_AND_CALL v M_rmdir [VPath p] return_ret s })) (-1)"

definition esp_vfs_access :: "string \<Rightarrow> int \<Rightarrow> 'w vfs_state \<Rightarrow> (int \<times> 'w vfs_state) option" where
  "esp_vfs_access path amode =
     with_path path (\<lambda>v s. do {
       p \<leftarrow> translate_path v path;
       CHECK_AND_CALL v M_access [VPath p, VInt amode] return_ret s }) (-1)"

definition esp_vfs_truncate :: "string \<Rightarrow> int \<Rightarrow> 'w vfs_state \<Rightarrow> (int \<times> 'w vfs_state) option" where
  "esp_vfs_truncate path len =
     with_path path (\<lambda>v. CHECK_VFS_READONLY_FLAG (vfs_flags (vfs v)) (\<lambda>s. do {
       p \<leftarrow> translate_path v path;
       CHECK_AND_CALL v M_truncate [VPath p, VInt len] return_ret s })) (-1)"

subsection \<open>Directory streams\<close>

definition esp_vfs_opendir :: "string \<Rightarrow> 'w vfs_state \<Rightarrow> (int \<times> 'w vfs_state) option" where
  "esp_vfs_opendir name =
     with_path name (\<lambda>v s. do {
       p \<leftarrow> translate_path v name;
       CHECK_AND_CALLP v M_opendir [VPath p] (\<lambda>ret s.
         if ret \<noteq> 0 then Some (ret, s\<lparr>dd_vfs_idx := (dd_vfs_idx s)(ret \<mapsto> offset v mod 65536)\<rparr>)
         else Some (ret, s)) s }) 0"

text \<open>The opening lines of every call on a directory stream.\<close>

definition with_dir ::
  "int \<Rightarrow> ('w vfs_entry_t \<Rightarrow> 'w vfs_state \<Rightarrow> (int \<times> 'w vfs_state) option) \<Rightarrow>
   int \<Rightarrow> 'w vfs_state \<Rightarrow> (int \<times> 'w vfs_state) option" where
  "with_dir pdir k fail s =
     do { idx \<leftarrow> dd_vfs_idx s pdir;
          case get_vfs_for_index (int idx) s of
            None \<Rightarrow> vfs_result fail EBADF s
          | Some v \<Rightarrow> k v s }"

definition esp_vfs_readdir :: "int \<Rightarrow> 'w vfs_state \<Rightarrow> (int \<times> 'w vfs_state) option" where
  "esp_vfs_readdir pdir =
     with_dir pdir (\<lambda>v. CHECK_AND_CALLP v M_readdir [VPtr (nat pdir)] return_ret) 0"

definition esp_vfs_readdir_r :: "int \<Rightarrow> nat \<Rightarrow> nat \<Rightarrow> 'w vfs_state \<Rightarrow> (int \<times> 'w vfs_state) option" where
  "esp_vfs_readdir_r pdir entry out_dirent =
     with_dir pdir (\<lambda>v. CHECK_AND_CALL v M_readdir_r [VPtr (nat pdir), VPtr entry, VPtr out_dirent] return_ret) (-1)"

definition esp_vfs_telldir :: "int \<Rightarrow> 'w vfs_state \<Rightarrow> (int \<times> 'w vfs_state) option" where
  "esp_vfs_telldir pdir =
     with_dir pdir (\<lambda>v. CHECK_AND_CALL v M_telldir [VPtr (nat pdir)] return_ret) (-1)"

definition esp_vfs_seekdir :: "int \<Rightarrow> int \<Rightarrow> 'w vfs_state \<Rightarrow> 'w vfs_state option" where
  "esp_vfs_seekdir pdir loc s =
     do { idx \<leftarrow> dd_vfs_idx s pdir;
          case get_vfs_for_index (int idx) s of
            None \<Rightarrow> Some (s\<lparr>vfs_errno := EBADF\<rparr>)
          | Some v \<Rightarrow> CHECK_AND_CALLV v M_seekdir [VPtr (nat pdir), VInt loc] s }"

definition esp_vfs_rewinddir :: "int \<Rightarrow> 'w vfs_state \<Rightarrow> 'w vfs_state option" where
  "esp_vfs_rewinddir pdir s = esp_vfs_seekdir pdir 0 s"

definition esp_vfs_closedir :: "int \<Rightarrow> 'w vfs_state \<Rightarrow> (int \<times> 'w vfs_state) option" where
  "esp_vfs_closedir pdir =
     with_dir pdir (\<lambda>v. CHECK_AND_CALL v M_closedir [VPtr (nat pdir)] return_ret) (-1)"

end
