(* ===== verification/Vfs_Select.thy ===== *)
theory Vfs_Select
  imports Vfs
begin

section \<open>select over virtual file systems\<close>

text \<open>
  Model of the part of \<open>vfs/vfs.c\<close> under \<open>CONFIG_VFS_SUPPORT_SELECT\<close>.
  \<^item> An \<open>fd_set\<close> is the set of its members; a descriptor outside \<open>FD_SETSIZE\<close> stops the run, for
    the macros index an array with it. A null pointer to a set is \<open>None\<close>.
  \<^item> The drivers keep the pointers to the sets they are given in \<open>start_select\<close> and write the sets
    while the caller waits. What happens during the wait is the argument \<open>others\<close>: the sets as the
    drivers leave them, and the state as other tasks leave it. It is told how many ticks the
    caller waits for the semaphore, or that the caller is in \<open>socket_select\<close>.
  \<^item> The answers of the allocator come with the call; \<open>semaphores\<close> lists the binary semaphores that
    exist, so that a lost one can be seen.
\<close>

record fds_triple_t =
  isset :: bool
  t_sets :: fd_sets3

definition FD_SETSIZE :: nat where "FD_SETSIZE = 64"

definition FD_SET :: "nat \<Rightarrow> fd_set \<Rightarrow> fd_set option" where
  "FD_SET fd fds = (if fd < FD_SETSIZE then Some (insert fd fds) else None)"

definition FD_ISSET :: "nat \<Rightarrow> fd_set \<Rightarrow> bool option" where
  "FD_ISSET fd fds = (if fd < FD_SETSIZE then Some (fd \<in> fds) else None)"

definition FD_CLR :: "nat \<Rightarrow> fd_set \<Rightarrow> fd_set option" where
  "FD_CLR fd fds = (if fd < FD_SETSIZE then Some (fds - {fd}) else None)"

text \<open>A null set has no members.\<close>

definition esp_vfs_safe_fd_isset :: "nat \<Rightarrow> fd_set option \<Rightarrow> bool option" where
  "esp_vfs_safe_fd_isset fd fds = (case fds of None \<Rightarrow> Some False | Some f \<Rightarrow> FD_ISSET fd f)"

subsection \<open>The three sets, one at a time\<close>

text \<open>
  The code treats \<open>readfds\<close>, \<open>writefds\<close> and \<open>errorfds\<close> alike, in this order. \<open>move_bit\<close> is one of
  the three blocks that move a descriptor from a global set to the set of its file system: the
  global set and the local set after it, and whether it was set.
\<close>

definition move_bit :: "nat \<Rightarrow> nat \<Rightarrow> fd_set option \<Rightarrow> fd_set \<Rightarrow> (fd_set option \<times> fd_set \<times> bool) option" where
  "move_bit fd lfd g l =
     do { b \<leftarrow> esp_vfs_safe_fd_isset fd g;
          if b then do { l' \<leftarrow> FD_SET lfd l; g' \<leftarrow> FD_CLR fd (the g); Some (Some g', l', True) }
          else Some (g, l, False) }"

definition move_bits :: "nat \<Rightarrow> nat \<Rightarrow> user_fds \<Rightarrow> fds_triple_t \<Rightarrow> (user_fds \<times> fds_triple_t) option" where
  "move_bits fd lfd u item =
     (case t_sets item of (r, w, e) \<Rightarrow>
      do { (gr, lr, br) \<leftarrow> move_bit fd lfd (readfds u) r;
           (gw, lw, bw) \<leftarrow> move_bit fd lfd (writefds u) w;
           (ge, le, be) \<leftarrow> move_bit fd lfd (errorfds u) e;
           Some (\<lparr>readfds = gr, writefds = gw, errorfds = ge\<rparr>,
                 \<lparr>isset = isset item \<or> br \<or> bw \<or> be, t_sets = (lr, lw, le)\<rparr>) })"

text \<open>One of the three blocks of \<open>set_global_fd_sets\<close>: the global set and the count after it.\<close>

definition give_bit :: "nat \<Rightarrow> nat \<Rightarrow> fd_set option \<Rightarrow> fd_set \<Rightarrow> (fd_set option \<times> int) option" where
  "give_bit fd lfd g l =
     (case g of
        None \<Rightarrow> Some (None, 0)
      | Some gs \<Rightarrow>
          do { b \<leftarrow> esp_vfs_safe_fd_isset lfd (Some l);
               if b then do { g' \<leftarrow> FD_SET fd gs; Some (Some g', 1) } else Some (g, 0) })"

definition give_bits :: "nat \<Rightarrow> nat \<Rightarrow> fd_sets3 \<Rightarrow> user_fds \<Rightarrow> (user_fds \<times> int) option" where
  "give_bits fd lfd ts u =
     (case ts of (r, w, e) \<Rightarrow>
      do { (gr, nr) \<leftarrow> give_bit fd lfd (readfds u) r;
           (gw, nw) \<leftarrow> give_bit fd lfd (writefds u) w;
           (ge, ne) \<leftarrow> give_bit fd lfd (errorfds u) e;
           Some (\<lparr>readfds = gr, writefds = gw, errorfds = ge\<rparr>, nr + nw + ne) })"

fun give_fds :: "int \<Rightarrow> fd_sets3 \<Rightarrow> nat \<Rightarrow> fd_table_t list \<Rightarrow> user_fds \<times> int \<Rightarrow> (user_fds \<times> int) option" where
  "give_fds i ts fd [] (u, ret) = Some (u, ret)"
| "give_fds i ts fd (e # es) (u, ret) =
     (if vfs_index e = i
      then do { (u', n) \<leftarrow> give_bits fd (unat (local_fd e)) ts u; give_fds i ts (Suc fd) es (u', ret + n) }
      else give_fds i ts (Suc fd) es (u, ret))"

text \<open>The outer loop, from file system \<open>i\<close> on.\<close>

fun set_global_fd_sets_from ::
  "fd_table_t list \<Rightarrow> int \<Rightarrow> fds_triple_t list \<Rightarrow> user_fds \<times> int \<Rightarrow> (user_fds \<times> int) option" where
  "set_global_fd_sets_from t i [] a = Some a"
| "set_global_fd_sets_from t i (item # items) a =
     do { a' \<leftarrow> (if isset item then give_fds i (t_sets item) 0 t a else Some a);
          set_global_fd_sets_from t (i + 1) items a' }"

definition set_global_fd_sets ::
  "fds_triple_t list \<Rightarrow> user_fds \<Rightarrow> 'w vfs_state \<Rightarrow> (int \<times> user_fds) option" where
  "set_global_fd_sets triples u s =
     do { (u', ret) \<leftarrow> set_global_fd_sets_from (s_fd_table s) 0 triples (u, 0); Some (ret, u') }"

text \<open>
  \<open>end_select\<close> of file system \<open>i\<close>; the driver can write its sets a last time. An error is only
  logged.
\<close>

definition call_end_select ::
  "nat \<Rightarrow> nat \<Rightarrow> fds_triple_t \<Rightarrow> 'w vfs_state \<Rightarrow> fds_triple_t \<times> 'w vfs_state" where
  "call_end_select i arg item s =
     (case get_vfs_for_index (int i) s of
        None \<Rightarrow> (item, s)
      | Some v \<Rightarrow>
          (case end_select (vfs v) of
             None \<Rightarrow> (item, s)
           | Some f \<Rightarrow>
               if isset item
               then let (err, ts, w) = f arg (t_sets item) (vfs_env s)
                    in (item\<lparr>t_sets := ts\<rparr>, s\<lparr>vfs_env := w\<rparr>)
               else (item, s)))"

fun call_end_selects_from ::
  "nat \<Rightarrow> nat list \<Rightarrow> fds_triple_t list \<Rightarrow> 'w vfs_state \<Rightarrow> fds_triple_t list \<times> 'w vfs_state" where
  "call_end_selects_from i (arg # args) (item # items) s =
     (let (item', s') = call_end_select i arg item s;
          (items', s'') = call_end_selects_from (Suc i) args items s'
      in (item' # items', s''))"
| "call_end_selects_from i _ items s = (items, s)"

definition call_end_selects ::
  "nat \<Rightarrow> fds_triple_t list \<Rightarrow> nat list \<Rightarrow> 'w vfs_state \<Rightarrow> fds_triple_t list \<times> 'w vfs_state" where
  "call_end_selects end_index triples driver_args s =
     (let (ts, s') = call_end_selects_from 0 driver_args (take end_index triples) s
      in (ts @ drop end_index triples, s'))"

subsection \<open>The scan of the descriptors\<close>

record 'w sel_scan =
  sc_state :: "'w vfs_state"
  sc_user :: user_fds
  sc_triples :: "fds_triple_t list"
  sc_socket :: "(int \<Rightarrow> user_fds \<Rightarrow> timeval option \<Rightarrow> 'w \<Rightarrow> int \<times> user_fds \<times> 'w) option"
  sc_sem :: nat

definition is_requested :: "nat \<Rightarrow> user_fds \<Rightarrow> bool option" where
  "is_requested fd u =
     do { a \<leftarrow> esp_vfs_safe_fd_isset fd (readfds u);
          if a then Some True
          else do { b \<leftarrow> esp_vfs_safe_fd_isset fd (writefds u);
                    if b then Some True else esp_vfs_safe_fd_isset fd (errorfds u) } }"

definition mark_pending_select :: "nat \<Rightarrow> 'w vfs_state \<Rightarrow> 'w vfs_state" where
  "mark_pending_select fd s =
     s\<lparr>s_fd_table := (s_fd_table s)[fd := (s_fd_table s ! fd)\<lparr>has_pending_select := True\<rparr>]\<rparr>"

text \<open>
  The turn for a socket descriptor: the first requested one gives \<open>socket_select\<close> and the
  semaphore. The entry of the file system is read without a check, and
  \<open>get_socket_select_semaphore\<close> is called without one.
\<close>

definition scan_socket :: "nat \<Rightarrow> int \<Rightarrow> 'w sel_scan \<Rightarrow> 'w sel_scan option" where
  "scan_socket fd idx c =
     (case sc_socket c of
        Some _ \<Rightarrow> Some c
      | None \<Rightarrow>
          do { b \<leftarrow> is_requested fd (sc_user c);
               if \<not> b then Some c
               else do {
                 slot \<leftarrow> (if nat idx < length (s_vfs (sc_state c)) then Some (s_vfs (sc_state c) ! nat idx) else None);
                 v \<leftarrow> slot;
                 get_sem \<leftarrow> get_socket_select_semaphore (vfs v);
                 let (sm, w) = get_sem (vfs_env (sc_state c)) in
                 Some (c\<lparr>sc_socket := socket_select (vfs v), sc_sem := sm,
                         sc_state := (sc_state c)\<lparr>vfs_env := w\<rparr>\<rparr>) } })"

text \<open>
  The turn for descriptor \<open>fd\<close>: the entry \<open>e\<close> is read before the mark is set. \<open>scan_entry\<close> is the
  turn from the test of \<open>vfs_index\<close> on.
\<close>

definition scan_entry :: "nat \<Rightarrow> fd_table_t \<Rightarrow> 'w sel_scan \<Rightarrow> 'w sel_scan option" where
  "scan_entry fd e c =
     (if vfs_index e < 0 then Some c
      else if permanent e then scan_socket fd (vfs_index e) c
      else if nat (vfs_index e) < length (sc_triples c)
      then do { (u, item) \<leftarrow> move_bits fd (unat (local_fd e)) (sc_user c) (sc_triples c ! nat (vfs_index e));
                Some (c\<lparr>sc_user := u, sc_triples := (sc_triples c)[nat (vfs_index e) := item]\<rparr>) }
      else None)"

definition scan_fd :: "nat \<Rightarrow> 'w sel_scan \<Rightarrow> 'w sel_scan option" where
  "scan_fd fd c =
     do { err \<leftarrow> esp_vfs_safe_fd_isset fd (errorfds (sc_user c));
          scan_entry fd (s_fd_table (sc_state c) ! fd)
            (if err then c\<lparr>sc_state := mark_pending_select fd (sc_state c)\<rparr> else c) }"

fun scan_fds :: "nat list \<Rightarrow> 'w sel_scan \<Rightarrow> 'w sel_scan option" where
  "scan_fds [] c = Some c"
| "scan_fds (fd # fds) c = do { c' \<leftarrow> scan_fd fd c; scan_fds fds c' }"

subsection \<open>Starting the drivers\<close>

text \<open>
  The loop over the file systems from \<open>i\<close> on: the failure, if there is one, with the index of the
  file system that failed; the sets and the driver arguments as the calls left them.
\<close>

definition call_start_select ::
  "int \<Rightarrow> esp_vfs_select_sem_t \<Rightarrow> nat \<Rightarrow> fds_triple_t \<Rightarrow> 'w vfs_state \<Rightarrow>
   esp_err_t \<times> fds_triple_t \<times> nat \<times> 'w vfs_state" where
  "call_start_select nfds sel_sem i item s =
     (case get_vfs_for_index (int i) s of
        None \<Rightarrow> (ESP_OK, item, 0, s)
      | Some v \<Rightarrow>
          (case start_select (vfs v) of
             None \<Rightarrow> (ESP_OK, item, 0, s)
           | Some f \<Rightarrow>
               if isset item
               then let (err, ts, arg, w) = f nfds (t_sets item) sel_sem (vfs_env s)
                    in (err, item\<lparr>t_sets := ts\<rparr>, arg, s\<lparr>vfs_env := w\<rparr>)
               else (ESP_OK, item, 0, s)))"

fun start_selects ::
  "int \<Rightarrow> esp_vfs_select_sem_t \<Rightarrow> nat \<Rightarrow> fds_triple_t list \<Rightarrow> 'w vfs_state \<Rightarrow>
   (nat \<times> esp_err_t) option \<times> fds_triple_t list \<times> nat list \<times> 'w vfs_state" where
  "start_selects nfds sel_sem i [] s = (None, [], [], s)"
| "start_selects nfds sel_sem i (item # items) s =
     (let (err, item', arg, s') = call_start_select nfds sel_sem i item s in
      if err \<noteq> ESP_OK then (Some (i, err), item' # items, arg # replicate (length items) 0, s')
      else let (failed, items', args, s'') = start_selects nfds sel_sem (Suc i) items s'
           in (failed, item' # items', arg # args, s''))"

subsection \<open>The wait\<close>

text \<open>\<open>portMAX_DELAY\<close>.\<close>

definition WAIT_FOREVER :: nat where "WAIT_FOREVER = 2 ^ 32 - 1"

text \<open>Division of C on signed numbers, by a positive divisor.\<close>

definition c_div :: "int \<Rightarrow> int \<Rightarrow> int" where
  "c_div a b = (if a < 0 then - ((- a) div b) else a div b)"

definition timeout_ms :: "timeval \<Rightarrow> nat" where
  "timeout_ms tv = nat ((fst tv * 1000 + c_div (snd tv) 1000) mod 2 ^ 32)"

definition ticks_to_wait :: "nat \<Rightarrow> timeval option \<Rightarrow> nat" where
  "ticks_to_wait portTICK_PERIOD_MS timeout =
     (case timeout of
        None \<Rightarrow> WAIT_FOREVER
      | Some tv \<Rightarrow>
          sz_add (sz_sub (sz_add (timeout_ms tv) portTICK_PERIOD_MS) 1 div portTICK_PERIOD_MS) 1)"

definition zero_fds :: "user_fds \<Rightarrow> user_fds" where
  "zero_fds u =
     \<lparr>readfds = map_option (\<lambda>_. {}) (readfds u), writefds = map_option (\<lambda>_. {}) (writefds u),
      errorfds = map_option (\<lambda>_. {}) (errorfds u)\<rparr>"

text \<open>The sets of the file systems as the drivers have left them; \<open>isset\<close> is the caller's own.\<close>

definition written_sets :: "(nat \<Rightarrow> fd_sets3) \<Rightarrow> fds_triple_t list \<Rightarrow> fds_triple_t list" where
  "written_sets f ts = map (\<lambda>(i, t). t\<lparr>t_sets := f i\<rparr>) (enumerate 0 ts)"

record sel_alloc =
  triples_ok :: bool
  sem_new :: "nat option"
  args_ok :: bool

text \<open>What the rest of the system does: during the wait, and to the semaphore of the sockets.\<close>

record 'w sel_kernel =
  others :: "nat option \<Rightarrow> fds_triple_t list \<Rightarrow> 'w vfs_state \<Rightarrow> (nat \<Rightarrow> fd_sets3) \<times> 'w vfs_state"
  drain_sem :: "nat \<Rightarrow> 'w \<Rightarrow> 'w"
  give_sem :: "nat \<Rightarrow> 'w \<Rightarrow> 'w"
  give_sem_isr :: "nat \<Rightarrow> 'w \<Rightarrow> bool \<times> 'w"
  tick_ms :: nat

definition delete_sem :: "esp_vfs_select_sem_t \<Rightarrow> 'w vfs_state \<Rightarrow> 'w vfs_state" where
  "delete_sem sm s =
     (if is_sem_local sm \<and> sem sm \<noteq> 0 then s\<lparr>semaphores := remove1 (sem sm) (semaphores s)\<rparr> else s)"

definition close_pending :: "nat \<Rightarrow> fd_table_t list \<Rightarrow> fd_table_t list" where
  "close_pending nfds t =
     map (\<lambda>e. if has_pending_close e then FD_TABLE_ENTRY_UNUSED else e) (take nfds t) @ drop nfds t"

text \<open>
  From the wait to the return: \<open>socket_select\<close> or the semaphore, the end of the drivers, the
  results into the global sets, the semaphore and the descriptors whose close was waiting.
\<close>

definition select_wait ::
  "'w sel_kernel \<Rightarrow> int \<Rightarrow> timeval option \<Rightarrow> 'w sel_scan \<Rightarrow> fds_triple_t list \<Rightarrow> 'w vfs_state \<Rightarrow>
   int \<times> user_fds \<times> fds_triple_t list \<times> 'w vfs_state" where
  "select_wait k nfds timeout c triples s =
     (case sc_socket c of
        Some f \<Rightarrow>
          let (ret, u, w) = f nfds (sc_user c) timeout (vfs_env s);
              (g, s') = others k None triples (s\<lparr>vfs_env := w\<rparr>)
          in (ret, u, written_sets g triples, s')
      | None \<Rightarrow>
          let (g, s') = others k (Some (ticks_to_wait (tick_ms k) timeout)) triples s
          in (0, zero_fds (sc_user c), written_sets g triples, s'))"

definition select_finish ::
  "'w sel_kernel \<Rightarrow> int \<Rightarrow> timeval option \<Rightarrow> esp_vfs_select_sem_t \<Rightarrow> 'w sel_scan \<Rightarrow> fds_triple_t list \<Rightarrow>
   nat list \<Rightarrow> 'w vfs_state \<Rightarrow> (int \<times> user_fds \<times> 'w vfs_state) option" where
  "select_finish k nfds timeout sel_sem c triples driver_args s =
     (let (ret, u, triples, s) = select_wait k nfds timeout c triples s;
          (triples, s) = call_end_selects (length triples) triples driver_args s
      in do {
        (n, u) \<leftarrow> (if ret \<ge> 0 then set_global_fd_sets triples u s else Some (0, u));
        let s = (if is_sem_local sel_sem then delete_sem sel_sem s
                 else if sem sel_sem \<noteq> 0 \<and> \<not> Option.is_none (sc_socket c)
                 then s\<lparr>vfs_env := drain_sem k (sem sel_sem) (vfs_env s)\<rparr> else s);
            s = s\<lparr>s_fd_table := close_pending (nat nfds) (s_fd_table s)\<rparr>
        in Some (ret + n, u, s) })"

definition esp_vfs_select ::
  "'w sel_kernel \<Rightarrow> sel_alloc \<Rightarrow> int \<Rightarrow> user_fds \<Rightarrow> timeval option \<Rightarrow> 'w vfs_state \<Rightarrow>
   (int \<times> user_fds \<times> 'w vfs_state) option" where
  "esp_vfs_select k al nfds u timeout s =
     (if nfds > int (MAX_FDS s) \<or> nfds < 0 then Some (-1, u, s\<lparr>vfs_errno := EINVAL\<rparr>)
      else if \<not> triples_ok al then Some (-1, u, s\<lparr>vfs_errno := ENOMEM\<rparr>)
      else do {
        c \<leftarrow> scan_fds [0..<nat nfds]
               \<lparr>sc_state = s, sc_user = u,
                sc_triples = replicate (s_vfs_count s) \<lparr>isset = False, t_sets = ({}, {}, {})\<rparr>,
                sc_socket = None, sc_sem = 0\<rparr>;
        let s = sc_state c; u = sc_user c; local_sem = Option.is_none (sc_socket c) in
        case (if local_sem then sem_new al else Some (sc_sem c)) of
          None \<Rightarrow> Some (-1, u, s\<lparr>vfs_errno := ENOMEM\<rparr>)
        | Some sm \<Rightarrow>
            let sel_sem = \<lparr>is_sem_local = local_sem, sem = sm\<rparr>;
                s = (if local_sem then s\<lparr>semaphores := sm # semaphores s\<rparr> else s) in
            if \<not> args_ok al then Some (-1, u, s\<lparr>vfs_errno := ENOMEM\<rparr>)
            else
              let (failed, triples, driver_args, s) = start_selects nfds sel_sem 0 (sc_triples c) s in
              case failed of
                Some (i, err) \<Rightarrow>
                  let (triples, s) = (if err \<noteq> ESP_ERR_NOT_SUPPORTED
                                      then call_end_selects i triples driver_args s else (triples, s))
                  in do { (_, u) \<leftarrow> set_global_fd_sets triples u s;
                          Some (-1, u, (delete_sem sel_sem s)\<lparr>vfs_errno := EINTR\<rparr>) }
              | None \<Rightarrow> select_finish k nfds timeout sel_sem c triples driver_args s })"

subsection \<open>Waking a select\<close>

definition has_stop :: "('w esp_vfs_t \<Rightarrow> 'a option) \<Rightarrow> 'w vfs_entry_t option \<Rightarrow> bool" where
  "has_stop f slot = (case slot of None \<Rightarrow> False | Some v \<Rightarrow> \<not> Option.is_none (f (vfs v)))"

definition esp_vfs_select_triggered ::
  "'w sel_kernel \<Rightarrow> esp_vfs_select_sem_t \<Rightarrow> 'w vfs_state \<Rightarrow> 'w vfs_state" where
  "esp_vfs_select_triggered k sm s =
     (if is_sem_local sm then s\<lparr>vfs_env := give_sem k (sem sm) (vfs_env s)\<rparr>
      else case first_slot (has_stop stop_socket_select) s of
          None \<Rightarrow> s
        | Some i \<Rightarrow> s\<lparr>vfs_env := the (stop_socket_select (vfs (the (s_vfs s ! i)))) (sem sm) (vfs_env s)\<rparr>)"

text \<open>The result also says what is stored in \<open>*woken\<close>, when something is.\<close>

definition esp_vfs_select_triggered_isr ::
  "'w sel_kernel \<Rightarrow> esp_vfs_select_sem_t \<Rightarrow> 'w vfs_state \<Rightarrow> bool option \<times> 'w vfs_state" where
  "esp_vfs_select_triggered_isr k sm s =
     (if is_sem_local sm
      then let (woken, w) = give_sem_isr k (sem sm) (vfs_env s) in (Some woken, s\<lparr>vfs_env := w\<rparr>)
      else case first_slot (has_stop stop_socket_select_isr) s of
          None \<Rightarrow> (None, s)
        | Some i \<Rightarrow>
            let (woken, w) = the (stop_socket_select_isr (vfs (the (s_vfs s ! i)))) (sem sm) (vfs_env s)
            in (Some woken, s\<lparr>vfs_env := w\<rparr>))"

end
