(* ===== verification/Slots.thy ===== *)
theory Slots
  imports Prelude
begin

section \<open>Tables of slots\<close>

text \<open>
  Several components keep an array whose elements are either in use or free, hand out the first
  free position as a handle and mark it free again later: the descriptor table of the virtual file
  system, its table of file systems, the handler table of the HTTP server. The locale states what
  the search for a free position promises; what follows from it is proved once.
\<close>

locale slot_table =
  fixes used :: "'e \<Rightarrow> bool"
    and free_slot :: "'e list \<Rightarrow> nat option"
  assumes free_slot_Some: "free_slot t = Some i \<Longrightarrow> i < length t \<and> \<not> used (t ! i) \<and> (\<forall>j<i. used (t ! j))"
    and free_slot_None: "free_slot t = None \<Longrightarrow> e \<in> set t \<Longrightarrow> used e"
begin

lemma free_slot_iff:
  "free_slot t = Some i \<longleftrightarrow> i < length t \<and> \<not> used (t ! i) \<and> (\<forall>j<i. used (t ! j))"
proof
  assume r: "i < length t \<and> \<not> used (t ! i) \<and> (\<forall>j<i. used (t ! j))"
  then obtain j where j: "free_slot t = Some j"
    using free_slot_None [of t "t ! i"] by (cases "free_slot t") auto
  with r free_slot_Some [OF j] have "j = i" by (metis nat_neq_iff)
  with j show "free_slot t = Some i" by simp
qed (rule free_slot_Some)

lemma claim_bound: "free_slot t = Some i \<Longrightarrow> i < length t"
  by (simp add: free_slot_iff)

lemma claim_other:
  assumes "free_slot t = Some i" and "j \<noteq> i"
  shows "t[i := e] ! j = t ! j"
  using assms by simp

lemma claim_keeps_used:
  assumes "free_slot t = Some i" and "used (t ! j)"
  shows "t[i := e] ! j = t ! j"
  using assms by (cases "j = i") (simp_all add: free_slot_iff)

lemma claims_distinct:
  assumes "free_slot t = Some i" and "used e" and "free_slot (t[i := e]) = Some j"
  shows "i < j"
proof (rule ccontr)
  assume "\<not> i < j"
  then consider "j = i" | "j < i" by linarith
  then show False
    using assms by cases (auto simp: free_slot_iff)
qed

lemma claim_release:
  assumes "free_slot t = Some i" and "\<not> used e'"
  shows "free_slot (t[i := e, i := e']) = Some i"
  using assms by (auto simp: free_slot_iff)

lemma full_iff: "free_slot t = None \<longleftrightarrow> (\<forall>e\<in>set t. used e)"
proof
  assume all: "\<forall>e\<in>set t. used e"
  show "free_slot t = None"
  proof (rule ccontr)
    assume "free_slot t \<noteq> None"
    then obtain i where "free_slot t = Some i" by auto
    with all show False by (auto simp: free_slot_iff)
  qed
qed (auto intro: free_slot_None)

end

end
