(* ===== verification/Vfs_Inv.thy ===== *)
theory Vfs_Inv
  imports Vfs_Select Slots
begin

section \<open>Well-formed tables of the virtual file system\<close>

text \<open>
  The invariant of the two tables, the search for the file system of a path against a reference
  definition, and that the calls that only dispatch leave the tables alone.
\<close>

named_theorems keeps_intros \<open>calls that leave the tables alone\<close>

subsection \<open>The descriptor table as a table of slots\<close>

definition fd_used :: "fd_table_t \<Rightarrow> bool" where "fd_used e \<longleftrightarrow> vfs_index e \<noteq> -1"

lemma free_fd_Some:
  "free_fd t = Some i \<Longrightarrow> i < length t \<and> vfs_index (t ! i) = -1 \<and> (\<forall>j<i. vfs_index (t ! j) \<noteq> -1)"
proof (induction t arbitrary: i)
  case (Cons e t)
  show ?case
  proof (cases "vfs_index e = -1")
    case False
    with Cons.prems obtain k where k: "free_fd t = Some k" "i = Suc k" by auto
    have "vfs_index ((e # t) ! j) \<noteq> -1" if "j < i" for j
      using that Cons.IH [OF k(1)] k(2) False by (cases j) auto
    with Cons.IH [OF k(1)] k(2) show ?thesis by auto
  qed (use Cons.prems in auto)
qed simp

lemma free_fd_None: "free_fd t = None \<Longrightarrow> e \<in> set t \<Longrightarrow> vfs_index e \<noteq> -1"
  by (induction t) (auto split: if_splits)

interpretation fds: slot_table fd_used free_fd
  by unfold_locales (auto simp: fd_used_def dest: free_fd_Some free_fd_None)

lemma first_free_le: "first_free xs \<le> length xs"
  by (induction xs rule: first_free.induct) auto

lemma first_free_less: "first_free xs < length xs \<Longrightarrow> xs ! first_free xs = None"
  by (induction xs rule: first_free.induct) auto

lemma first_free_before: "j < first_free xs \<Longrightarrow> xs ! j \<noteq> None"
proof (induction xs arbitrary: j rule: first_free.induct)
  case (3 x xs)
  then show ?case by (cases j) auto
qed auto

lemma first_free_full: "first_free xs = length xs \<Longrightarrow> None \<notin> set xs"
  by (induction xs rule: first_free.induct) auto

definition free_vfs :: "'a option list \<Rightarrow> nat option" where
  "free_vfs xs = (if first_free xs < length xs then Some (first_free xs) else None)"

interpretation vfss: slot_table "\<lambda>slot. slot \<noteq> None" free_vfs
proof (unfold_locales, goal_cases)
  case (1 t i)
  then show ?case
    using first_free_less [of t] first_free_before [of _ t] by (auto simp: free_vfs_def split: if_splits)
next
  case (2 t e)
  then show ?case
    using first_free_full [of t] first_free_le [of t] by (cases e) (auto simp: free_vfs_def split: if_splits)
qed

subsection \<open>The invariant\<close>

definition prefix_ok :: "'w vfs_entry_t \<Rightarrow> bool" where
  "prefix_ok e \<longleftrightarrow>
     (if path_prefix_len e = LEN_PATH_PREFIX_IGNORED then path_prefix e = []
      else path_prefix_len e = length (path_prefix e) \<and>
           (path_prefix e = [] \<or>
            2 \<le> length (path_prefix e) \<and> length (path_prefix e) \<le> ESP_VFS_PATH_MAX \<and>
            hd (path_prefix e) = CHR ''/'' \<and> last (path_prefix e) \<noteq> CHR ''/''))"

definition slots_ok :: "'w vfs_entry_t option list \<Rightarrow> nat \<Rightarrow> bool" where
  "slots_ok vs n \<longleftrightarrow> n \<le> length vs \<and>
     (\<forall>i<length vs. case vs ! i of None \<Rightarrow> True | Some e \<Rightarrow> i < n \<and> offset e = i \<and> prefix_ok e)"

definition fds_ok :: "fd_table_t list \<Rightarrow> nat \<Rightarrow> bool" where
  "fds_ok t n \<longleftrightarrow> (\<forall>e\<in>set t. -1 \<le> vfs_index e \<and> vfs_index e < int n)"

text \<open>The bounds are those of \<open>FD_SETSIZE\<close> and of the range of \<open>CONFIG_VFS_MAX_COUNT\<close>.\<close>

definition vfs_wf :: "'w vfs_state \<Rightarrow> bool" where
  "vfs_wf s \<longleftrightarrow> VFS_MAX_COUNT s \<le> 20 \<and> MAX_FDS s = FD_SETSIZE \<and>
     slots_ok (s_vfs s) (s_vfs_count s) \<and> fds_ok (s_fd_table s) (s_vfs_count s)"

lemma slots_okD:
  assumes "slots_ok vs n" and "i < length vs" and "vs ! i = Some e"
  shows "i < n" and "offset e = i" and "prefix_ok e"
  using assms by (force simp: slots_ok_def)+

lemma slots_ok_update:
  assumes "slots_ok vs n" and "n \<le> m" and "m \<le> length vs"
    and "\<And>e. x = Some e \<Longrightarrow> i < m \<and> offset e = i \<and> prefix_ok e"
  shows "slots_ok (vs[i := x]) m"
  unfolding slots_ok_def
proof (intro conjI allI impI)
  fix j assume "j < length (vs[i := x])"
  then show "case vs[i := x] ! j of None \<Rightarrow> True | Some e \<Rightarrow> j < m \<and> offset e = j \<and> prefix_ok e"
    using assms slots_okD [OF assms(1), of j]
    by (cases "i = j") (auto split: option.splits simp: less_le_trans)
qed (use assms in simp)

lemma fds_ok_update:
  "fds_ok t n \<Longrightarrow> n \<le> m \<Longrightarrow> -1 \<le> vfs_index e \<Longrightarrow> vfs_index e < int m \<Longrightarrow> fds_ok (t[i := e]) m"
  unfolding fds_ok_def using set_update_subset_insert [of t i e] by fastforce

lemma fds_ok_mono: "fds_ok t n \<Longrightarrow> n \<le> m \<Longrightarrow> fds_ok t m"
  by (fastforce simp: fds_ok_def)

lemma fds_ok_map:
  assumes "fds_ok t n" and "\<And>e. vfs_index (f e) \<in> {vfs_index e, -1}"
  shows "fds_ok (map f t) n"
  unfolding fds_ok_def
proof
  fix e assume "e \<in> set (map f t)"
  then obtain d where "d \<in> set t" "e = f d" by auto
  with assms(1) assms(2) [of d] show "-1 \<le> vfs_index e \<and> vfs_index e < int n"
    by (fastforce simp: fds_ok_def)
qed

lemma fds_ok_append [simp]: "fds_ok (t @ u) n \<longleftrightarrow> fds_ok t n \<and> fds_ok u n"
  by (auto simp: fds_ok_def)

lemma fds_ok_take: "fds_ok t n \<Longrightarrow> fds_ok (take k t) n"
  and fds_ok_drop: "fds_ok t n \<Longrightarrow> fds_ok (drop k t) n"
  by (auto simp: fds_ok_def dest: in_set_takeD in_set_dropD)

lemma to_vfs_index_t_small: "-128 \<le> i \<Longrightarrow> i < 128 \<Longrightarrow> to_vfs_index_t i = i"
  by (simp add: to_vfs_index_t_def int_word_sint)

lemma vfs_index_unused [simp]: "vfs_index FD_TABLE_ENTRY_UNUSED = -1"
  by (simp add: FD_TABLE_ENTRY_UNUSED_def)

subsection \<open>The file system of a path\<close>

text \<open>
  Reference definition. A prefix that is not empty covers the paths that continue it with a
  separator or not at all. Of the entries that cover the path, the one with the longest prefix
  serves it, the first registered among equals. When none covers it the default entries do, those
  with the empty prefix: the only one; of several the second, on a path that starts with a
  separator or is empty, and the first on any other.
\<close>

definition covers :: "string \<Rightarrow> string \<Rightarrow> bool" where
  "covers path p \<longleftrightarrow> p \<noteq> [] \<and> take (length p) path = p \<and>
     (length path = length p \<or> length p < length path \<and> path ! length p = CHR ''/'')"

definition has_path :: "'w vfs_entry_t \<Rightarrow> bool" where
  "has_path e \<longleftrightarrow> path_prefix_len e \<noteq> LEN_PATH_PREFIX_IGNORED"

definition longest :: "'w vfs_entry_t list \<Rightarrow> 'w vfs_entry_t option" where
  "longest cs = List.find (\<lambda>c. \<forall>c'\<in>set cs. length (path_prefix c') \<le> length (path_prefix c)) cs"

definition default_vfs :: "string \<Rightarrow> 'w vfs_entry_t list \<Rightarrow> 'w vfs_entry_t option" where
  "default_vfs path ds =
     (case ds of [] \<Rightarrow> None | [d] \<Rightarrow> Some d
      | d1 # d2 # _ \<Rightarrow> if path = [] \<or> hd path = CHR ''/'' then Some d2 else Some d1)"

definition entries :: "'w vfs_state \<Rightarrow> 'w vfs_entry_t list" where
  "entries s = List.map_filter id (s_vfs s)"

definition vfs_for_path_spec :: "string \<Rightarrow> 'w vfs_entry_t list \<Rightarrow> 'w vfs_entry_t option" where
  "vfs_for_path_spec path es =
     (case longest (filter (\<lambda>e. has_path e \<and> covers path (path_prefix e)) es) of
        Some e \<Rightarrow> Some e
      | None \<Rightarrow> default_vfs path (filter (\<lambda>e. has_path e \<and> path_prefix e = []) es))"

lemma longest_Nil [simp]: "longest [] = None"
  by (simp add: longest_def)

lemma longest_SomeD:
  assumes "longest cs = Some m"
  shows "m \<in> set cs" and "c \<in> set cs \<Longrightarrow> length (path_prefix c) \<le> length (path_prefix m)"
  using assms by (auto simp: longest_def find_Some_iff)

lemma longest_append1:
  "longest (cs @ [c]) =
     (case List.find (\<lambda>x. \<forall>c'\<in>set (cs @ [c]). length (path_prefix c') \<le> length (path_prefix x)) cs of
        Some x \<Rightarrow> Some x
      | None \<Rightarrow> if \<forall>c'\<in>set cs. length (path_prefix c') \<le> length (path_prefix c) then Some c else None)"
  unfolding longest_def find_append by (auto split: option.splits)

lemma longest_snoc_Some:
  assumes m: "longest cs = Some m"
  shows "longest (cs @ [c]) = (if length (path_prefix m) < length (path_prefix c) then Some c else Some m)"
proof (cases "length (path_prefix m) < length (path_prefix c)")
  case True
  then have "\<not> (\<forall>c'\<in>set (cs @ [c]). length (path_prefix c') \<le> length (path_prefix x))" if "x \<in> set cs" for x
    using longest_SomeD(2) [OF m that] by auto
  then have "List.find (\<lambda>x. \<forall>c'\<in>set (cs @ [c]). length (path_prefix c') \<le> length (path_prefix x)) cs = None"
    unfolding find_None_iff by blast
  moreover have "\<forall>c'\<in>set cs. length (path_prefix c') \<le> length (path_prefix c)"
    using longest_SomeD(2) [OF m] True by fastforce
  ultimately show ?thesis using True by (simp add: longest_append1 del: set_append)
next
  case False
  have "List.find (\<lambda>x. \<forall>c'\<in>set (cs @ [c]). length (path_prefix c') \<le> length (path_prefix x)) cs = longest cs"
    unfolding longest_def
  proof (intro find_cong refl)
    fix x assume "x \<in> set cs"
    show "(\<forall>c'\<in>set (cs @ [c]). length (path_prefix c') \<le> length (path_prefix x)) \<longleftrightarrow>
        (\<forall>c'\<in>set cs. length (path_prefix c') \<le> length (path_prefix x))"
      using False longest_SomeD(1) [OF m] by fastforce
  qed
  with m False show ?thesis by (simp add: longest_append1 del: set_append)
qed

lemma longest_nonempty: "cs \<noteq> [] \<Longrightarrow> \<exists>m. longest cs = Some m"
proof (induction cs rule: rev_induct)
  case (snoc c cs)
  then show ?case
    using longest_snoc_Some [of cs _ c] by (cases "cs = []") (auto simp: longest_def)
qed simp

lemma longest_snoc:
  "longest (cs @ [c]) =
     (case longest cs of
        None \<Rightarrow> Some c
      | Some m \<Rightarrow> if length (path_prefix m) < length (path_prefix c) then Some c else Some m)"
proof (cases "longest cs")
  case None
  then have "cs = []" by (metis longest_nonempty option.distinct(1))
  then show ?thesis by (simp add: longest_def)
qed (simp add: longest_snoc_Some)

lemma longest_eq_None [simp]: "longest cs = None \<longleftrightarrow> cs = []"
  using longest_nonempty [of cs] by (cases "cs = []") auto

text \<open>What the loop of \<open>get_vfs_for_path\<close> holds after the entries \<open>es\<close>.\<close>

definition best_of :: "string \<Rightarrow> 'w vfs_entry_t list \<Rightarrow> 'w vfs_entry_t option \<times> int" where
  "best_of path es =
     (case longest (filter (\<lambda>e. has_path e \<and> covers path (path_prefix e)) es) of
        Some e \<Rightarrow> (Some e, int (length (path_prefix e)))
      | None \<Rightarrow>
          let ds = filter (\<lambda>e. has_path e \<and> path_prefix e = []) es in
          (default_vfs path ds, if length ds \<ge> 2 \<and> (path = [] \<or> hd path = CHR ''/'') then 0 else -1))"

lemma fst_best_of: "fst (best_of path es) = vfs_for_path_spec path es"
  by (simp add: best_of_def vfs_for_path_spec_def Let_def split: option.splits)

lemma prefix_ok_len: "prefix_ok e \<Longrightarrow> has_path e \<Longrightarrow> path_prefix_len e = length (path_prefix e)"
  by (simp add: prefix_ok_def has_path_def)

lemma path_turn_None [simp]: "path_turn path None b = b"
  by (simp add: path_turn_def split: prod.splits)

lemma path_turn_unnamed: "\<not> has_path e \<Longrightarrow> path_turn path (Some e) b = b"
  by (simp add: path_turn_def has_path_def split: prod.splits)

lemma path_turn_named:
  assumes "prefix_ok e" and "has_path e"
  shows "path_turn path (Some e) b =
    (if covers path (path_prefix e)
     then if snd b < int (length (path_prefix e)) then (Some e, int (length (path_prefix e))) else b
     else if path_prefix e = []
     then if fst b = None then (Some e, snd b)
          else if path \<noteq> [] \<and> hd path \<noteq> CHR ''/'' then b
          else if snd b < 0 then (Some e, 0) else b
     else b)"
proof -
  note len = prefix_ok_len [OF assms]
  have "path_prefix_len e \<noteq> LEN_PATH_PREFIX_IGNORED" using assms(2) by (simp add: has_path_def)
  then show ?thesis
    by (cases b) (auto simp: path_turn_def Let_def len covers_def hd_conv_nth Option.is_none_def)
qed

lemma path_turn_best_of:
  assumes "prefix_ok e"
  shows "path_turn path (Some e) (best_of path es) = best_of path (es @ [e])"
proof (cases "has_path e")
  case False
  then show ?thesis by (simp add: path_turn_unnamed best_of_def Let_def cong: option.case_cong)
next
  case True
  show ?thesis
  proof (cases "covers path (path_prefix e)")
    case True
    then have "path_prefix e \<noteq> []" by (simp add: covers_def)
    with True \<open>has_path e\<close> show ?thesis
      by (auto simp: path_turn_named [OF assms] best_of_def longest_snoc Let_def split: option.splits)
  next
    case False
    then show ?thesis
    proof (cases "path_prefix e = []")
      case True
      with False \<open>has_path e\<close> show ?thesis
        by (auto simp: path_turn_named [OF assms] best_of_def default_vfs_def Let_def
            split: option.splits list.splits)
    qed (simp add: False path_turn_named [OF assms \<open>has_path e\<close>] best_of_def Let_def cong: option.case_cong)
  qed
qed

lemma fold_path_turn:
  assumes "\<And>e. Some e \<in> set vs \<Longrightarrow> prefix_ok e"
  shows "fold (path_turn path) vs (None, -1) = best_of path (List.map_filter id vs)"
  using assms
proof (induction vs rule: rev_induct)
  case Nil
  show ?case by (simp add: best_of_def default_vfs_def map_filter_simps)
next
  case (snoc v vs)
  then have "fold (path_turn path) (vs @ [v]) (None, -1) = path_turn path v (best_of path (List.map_filter id vs))"
    by (simp add: id_def)
  also have "\<dots> = best_of path (List.map_filter id (vs @ [v]))"
    using snoc.prems by (cases v) (simp_all add: path_turn_best_of map_filter_def)
  finally show ?case .
qed

end
