(* ===== verification/Vfs_Steps.thy ===== *)
theory Vfs_Steps
  imports Vfs_Inv
begin

section \<open>Operations of the virtual file system as steps\<close>

text \<open>
  Every operation on the tables as a step, and that each keeps the invariant. The calls that only
  dispatch to a driver are shown to leave both tables alone by rules that follow the way the calls
  are composed.
\<close>

subsection \<open>Calls that only dispatch\<close>

definition same_tables :: "'w vfs_state \<Rightarrow> 'w vfs_state \<Rightarrow> bool" where
  "same_tables s s' \<longleftrightarrow> s_vfs s' = s_vfs s \<and> s_vfs_count s' = s_vfs_count s \<and> s_fd_table s' = s_fd_table s"

definition keeps_tables :: "('w vfs_state \<Rightarrow> ('a \<times> 'w vfs_state) option) \<Rightarrow> bool" where
  "keeps_tables f \<longleftrightarrow> (\<forall>s r s'. f s = Some (r, s') \<longrightarrow> same_tables s s')"

lemma keeps_tablesD: "keeps_tables f \<Longrightarrow> f s = Some (r, s') \<Longrightarrow> same_tables s s'"
  by (simp add: keeps_tables_def)

lemma same_tables_refl [simp]: "same_tables s s"
  by (simp add: same_tables_def)

lemma same_tables_trans: "same_tables s s' \<Longrightarrow> same_tables s' s'' \<Longrightarrow> same_tables s s''"
  by (simp add: same_tables_def)

lemma call_driver_tables: "call_driver v f args s = (ret, s') \<Longrightarrow> same_tables s s'"
  by (auto simp: call_driver_def same_tables_def Let_def split: prod.splits)

lemma keeps_return_ret [keeps_intros]: "keeps_tables (return_ret ret)"
  by (simp add: keeps_tables_def return_ret_def)

lemma keeps_result [keeps_intros]: "keeps_tables (vfs_result r e)"
  by (auto simp: keeps_tables_def same_tables_def)

lemma keeps_CHECK_AND_CALL [keeps_intros]:
  assumes "\<And>ret. keeps_tables (k ret)"
  shows "keeps_tables (CHECK_AND_CALL v func args k)"
  unfolding keeps_tables_def
proof (intro allI impI)
  fix s r s' assume c: "CHECK_AND_CALL v func args k s = Some (r, s')"
  show "same_tables s s'"
  proof (cases "vfs_fn (vfs v) func")
    case (Some f)
    obtain ret t where t: "call_driver v f args s = (ret, t)" by fastforce
    with c Some have "k ret t = Some (r, s')" by (simp add: CHECK_AND_CALL_def)
    then show ?thesis
      using keeps_tablesD [OF assms] call_driver_tables [OF t] same_tables_trans by blast
  qed (use c in \<open>auto simp: CHECK_AND_CALL_def same_tables_def\<close>)
qed

lemma keeps_CHECK_AND_CALLP [keeps_intros]:
  assumes "\<And>ret. keeps_tables (k ret)"
  shows "keeps_tables (CHECK_AND_CALLP v func args k)"
  unfolding keeps_tables_def
proof (intro allI impI)
  fix s r s' assume c: "CHECK_AND_CALLP v func args k s = Some (r, s')"
  show "same_tables s s'"
  proof (cases "vfs_fn (vfs v) func")
    case (Some f)
    obtain ret t where t: "call_driver v f args s = (ret, t)" by fastforce
    with c Some have "k ret t = Some (r, s')" by (simp add: CHECK_AND_CALLP_def)
    then show ?thesis
      using keeps_tablesD [OF assms] call_driver_tables [OF t] same_tables_trans by blast
  qed (use c in \<open>auto simp: CHECK_AND_CALLP_def same_tables_def\<close>)
qed

lemma keeps_READONLY [keeps_intros]:
  "keeps_tables k \<Longrightarrow> keeps_tables (CHECK_VFS_READONLY_FLAG fl k)"
  by (auto simp: keeps_tables_def CHECK_VFS_READONLY_FLAG_def same_tables_def split: if_splits)

lemma keeps_with_fd [keeps_intros]:
  "(\<And>v lfd. keeps_tables (k v lfd)) \<Longrightarrow> keeps_tables (with_fd fd k)"
  by (auto simp: keeps_tables_def with_fd_def same_tables_def Let_def split: option.splits if_splits)

lemma keeps_with_path [keeps_intros]:
  "(\<And>v. keeps_tables (k v)) \<Longrightarrow> keeps_tables (with_path path k fail)"
  by (auto simp: keeps_tables_def with_path_def same_tables_def split: option.splits)

lemma keeps_with_dir [keeps_intros]:
  "(\<And>v. keeps_tables (k v)) \<Longrightarrow> keeps_tables (with_dir pdir k fail)"
  by (auto simp: keeps_tables_def with_dir_def same_tables_def bind_eq_Some_conv split: option.splits)

lemma keeps_bind [keeps_intros]:
  "(\<And>p. keeps_tables (k p)) \<Longrightarrow> keeps_tables (\<lambda>s. Option.bind (m :: 'a option) (\<lambda>p. k p s))"
  by (cases m) (auto simp: keeps_tables_def)

lemma keeps_if [keeps_intros]:
  "keeps_tables f \<Longrightarrow> keeps_tables g \<Longrightarrow> keeps_tables (\<lambda>s. if b then f s else g s)"
  by (simp add: keeps_tables_def)

lemma keeps_dir_note [keeps_intros]:
  "keeps_tables (\<lambda>s. Some (ret, s\<lparr>dd_vfs_idx := f s\<rparr>))" "keeps_tables (\<lambda>s. Some (ret, s))"
  by (simp_all add: keeps_tables_def same_tables_def)

lemma keeps_case_path [keeps_intros]:
  "keeps_tables f \<Longrightarrow> (\<And>v. keeps_tables (g v)) \<Longrightarrow>
   keeps_tables (\<lambda>s. case get_vfs_for_path p s of None \<Rightarrow> f s | Some v \<Rightarrow> g v s)"
  by (auto simp: keeps_tables_def split: option.splits)

lemma keeps_fd_calls:
  "keeps_tables (esp_vfs_write fd a n)" "keeps_tables (esp_vfs_lseek fd i j)"
  "keeps_tables (esp_vfs_read fd a n)" "keeps_tables (esp_vfs_pread fd a n i)"
  "keeps_tables (esp_vfs_pwrite fd a n i)" "keeps_tables (esp_vfs_fstat fd a)"
  "keeps_tables (esp_vfs_fcntl_r fd i j)" "keeps_tables (esp_vfs_ioctl fd i a)"
  "keeps_tables (esp_vfs_fsync fd)" "keeps_tables (esp_vfs_ftruncate fd i)"
  "keeps_tables (tcgetattr fd a)" "keeps_tables (tcsetattr fd i a)" "keeps_tables (tcdrain fd)"
  "keeps_tables (tcflush fd i)" "keeps_tables (tcflow fd i)" "keeps_tables (tcgetsid fd)"
  "keeps_tables (tcsendbreak fd i)"
  unfolding esp_vfs_write_def esp_vfs_lseek_def esp_vfs_read_def esp_vfs_pread_def esp_vfs_pwrite_def
    esp_vfs_fstat_def esp_vfs_fcntl_r_def esp_vfs_ioctl_def esp_vfs_fsync_def esp_vfs_ftruncate_def
    tcgetattr_def tcsetattr_def tcdrain_def tcflush_def tcflow_def tcgetsid_def tcsendbreak_def
  by (intro keeps_intros)+

lemma keeps_path_calls:
  "keeps_tables (esp_vfs_stat p a)" "keeps_tables (esp_vfs_utime p a)" "keeps_tables (esp_vfs_link p q)"
  "keeps_tables (esp_vfs_unlink p)" "keeps_tables (esp_vfs_rename p q)" "keeps_tables (esp_vfs_mkdir p i)"
  "keeps_tables (esp_vfs_rmdir p)" "keeps_tables (esp_vfs_access p i)" "keeps_tables (esp_vfs_truncate p i)"
  "keeps_tables (esp_vfs_opendir p)"
  unfolding esp_vfs_stat_def esp_vfs_utime_def esp_vfs_link_def esp_vfs_unlink_def esp_vfs_rename_def
    esp_vfs_mkdir_def esp_vfs_rmdir_def esp_vfs_access_def esp_vfs_truncate_def esp_vfs_opendir_def
  by (intro keeps_intros)+

lemma keeps_dir_calls:
  "keeps_tables (esp_vfs_readdir d)" "keeps_tables (esp_vfs_readdir_r d a b)"
  "keeps_tables (esp_vfs_telldir d)" "keeps_tables (esp_vfs_closedir d)"
  unfolding esp_vfs_readdir_def esp_vfs_readdir_r_def esp_vfs_telldir_def esp_vfs_closedir_def
  by (intro keeps_intros)+

lemma snd_call_driver_tables: "same_tables s (snd (call_driver v f args s))"
  using call_driver_tables [of v f args s] by (metis prod.collapse)

lemma seekdir_tables:
  assumes "esp_vfs_seekdir d loc s = Some s'"
  shows "same_tables s s'"
proof -
  obtain idx where idx: "dd_vfs_idx s d = Some idx"
    using assms by (auto simp: esp_vfs_seekdir_def bind_eq_Some_conv)
  show ?thesis
  proof (cases "get_vfs_for_index (int idx) s")
    case (Some v)
    then show ?thesis
      using assms idx snd_call_driver_tables [of s v]
      by (cases "vfs_fn (vfs v) M_seekdir")
        (auto simp: esp_vfs_seekdir_def CHECK_AND_CALLV_def same_tables_def)
  qed (use assms idx in \<open>auto simp: esp_vfs_seekdir_def same_tables_def\<close>)
qed

lemmas keeps_calls = keeps_fd_calls keeps_path_calls keeps_dir_calls

lemma vfs_wf_tables: "same_tables s s' \<Longrightarrow> vfs_wf s' = vfs_wf s"
  by (simp add: same_tables_def vfs_wf_def)

subsection \<open>Operations that change the tables\<close>

lemma vfs_wfI:
  assumes "vfs_wf s" and "length (s_vfs s') = length (s_vfs s)"
    and "length (s_fd_table s') = length (s_fd_table s)"
    and "slots_ok (s_vfs s') (s_vfs_count s')" and "fds_ok (s_fd_table s') (s_vfs_count s')"
  shows "vfs_wf s'"
  using assms by (simp add: vfs_wf_def)

lemma vfs_wfD:
  assumes "vfs_wf s"
  shows "slots_ok (s_vfs s) (s_vfs_count s)" and "fds_ok (s_fd_table s) (s_vfs_count s)"
    and "s_vfs_count s \<le> length (s_vfs s)" and "length (s_vfs s) \<le> 20" and "length (s_fd_table s) = 64"
  using assms by (simp_all add: vfs_wf_def slots_ok_def FD_SETSIZE_def)

text \<open>What a registration stores.\<close>

definition new_prefix_ok :: "string \<Rightarrow> nat \<Rightarrow> bool" where
  "new_prefix_ok base_path len \<longleftrightarrow> len = LEN_PATH_PREFIX_IGNORED \<or> len = length base_path"

lemma register_common_cases:
  assumes "esp_vfs_register_common malloc base_path len v ctx s = (err, vid, s')"
  obtains (failed) "err \<noteq> ESP_OK" "vid = None" "s' = s"
  | (stored) entry index e where "err = ESP_OK" "vid = Some index" "malloc = Some entry"
      "index = first_free (take (s_vfs_count s) (s_vfs s))"
      "index < s_vfs_count s \<or> index = s_vfs_count s \<and> s_vfs_count s < length (s_vfs s)"
      "e = \<lparr>vfs_addr = entry, vfs = v,
            path_prefix = (if len \<noteq> LEN_PATH_PREFIX_IGNORED then base_path else []),
            path_prefix_len = len, vfs_ctx = ctx, offset = index\<rparr>"
      "len = LEN_PATH_PREFIX_IGNORED \<or> len = 0 \<or>
       2 \<le> len \<and> len \<le> ESP_VFS_PATH_MAX \<and> base_path ! 0 = CHR ''/'' \<and> base_path ! (len - 1) \<noteq> CHR ''/''"
      "s' = s\<lparr>s_vfs := (s_vfs s)[index := Some e], s_vfs_count := max (s_vfs_count s) (Suc index)\<rparr>"
proof -
  define index where "index = first_free (take (s_vfs_count s) (s_vfs s))"
  define arg_bad where "arg_bad \<longleftrightarrow>
    len \<noteq> LEN_PATH_PREFIX_IGNORED \<and> (len = 1 \<or> len > ESP_VFS_PATH_MAX) \<or>
    len \<noteq> LEN_PATH_PREFIX_IGNORED \<and> len \<ge> 2 \<and> (base_path ! 0 \<noteq> CHR ''/'' \<or> base_path ! (len - 1) = CHR ''/'')"
  have le: "index \<le> s_vfs_count s"
    using first_free_le [of "take (s_vfs_count s) (s_vfs s)"] by (simp add: index_def)
  consider "arg_bad \<or> malloc = None \<or> index = s_vfs_count s \<and> s_vfs_count s \<ge> length (s_vfs s)"
    | entry where "\<not> arg_bad" "malloc = Some entry" "\<not> (index = s_vfs_count s \<and> s_vfs_count s \<ge> length (s_vfs s))"
    by (cases malloc) auto
  then show ?thesis
  proof cases
    case 1
    then have "err \<noteq> ESP_OK \<and> vid = None \<and> s' = s"
      using assms by (auto simp: esp_vfs_register_common_def arg_bad_def index_def Let_def split: if_splits option.splits)
    then show ?thesis by (rule_tac failed) auto
  next
    case 2
    have "esp_vfs_register_common malloc base_path len v ctx s =
        (ESP_OK, Some index, s\<lparr>s_vfs := (s_vfs s)[index := Some \<lparr>vfs_addr = entry, vfs = v,
            path_prefix = (if len \<noteq> LEN_PATH_PREFIX_IGNORED then base_path else []),
            path_prefix_len = len, vfs_ctx = ctx, offset = index\<rparr>],
          s_vfs_count := max (s_vfs_count s) (Suc index)\<rparr>)"
      using 2 le unfolding esp_vfs_register_common_def index_def [symmetric] arg_bad_def
      by (auto simp: Let_def max_def)
    with assms 2 le show ?thesis
      by (intro stored [OF _ _ \<open>malloc = Some entry\<close> index_def _ refl])
        (auto simp: arg_bad_def not_less)
  qed
qed

lemma register_common_wf:
  assumes "esp_vfs_register_common malloc base_path len v ctx s = (err, vid, s')"
    and "vfs_wf s" and "new_prefix_ok base_path len"
  shows "vfs_wf s'"
  using assms(1)
proof (cases rule: register_common_cases)
  case (stored entry index e)
  note wf = vfs_wfD [OF assms(2)]
  have "prefix_ok e"
    using stored assms(3)
    by (auto simp: prefix_ok_def new_prefix_ok_def hd_conv_nth last_conv_nth)
  moreover have "offset e = index" by (simp add: stored(6))
  ultimately have "slots_ok ((s_vfs s)[index := Some e]) (max (s_vfs_count s) (Suc index))"
    using stored(5) wf(3) by (intro slots_ok_update [OF wf(1)]) auto
  then have "slots_ok (s_vfs s') (s_vfs_count s')" by (simp add: stored(8))
  moreover have "fds_ok (s_fd_table s') (s_vfs_count s')"
    by (simp add: stored(8) fds_ok_mono [OF wf(2)])
  ultimately show ?thesis
    by (intro vfs_wfI [OF assms(2)]) (simp_all add: stored(8))
qed (use assms in simp)

lemma fds_ok_nth: "fds_ok t c \<Longrightarrow> i < length t \<Longrightarrow> -1 \<le> vfs_index (t ! i) \<and> vfs_index (t ! i) < int c"
  by (simp add: fds_ok_def)

lemma fd_range_set_ok:
  assumes "fd_range_set n i index t = Inl (j, t') \<or> fd_range_set n i index t = Inr t'"
    and "fds_ok t c" and "index < c" and "c \<le> 127"
  shows "fds_ok t' c \<and> length t' = length t"
  using assms(1,2)
proof (induction n arbitrary: i t)
  case (Suc n)
  let ?t = "t[i := (t ! i)\<lparr>permanent := True, vfs_index := to_vfs_index_t (int index), local_fd := of_nat i\<rparr>]"
  have "fds_ok ?t c"
    using assms(3,4) by (intro fds_ok_update [OF Suc.prems(2)]) (simp_all add: to_vfs_index_t_small)
  with Suc.prems Suc.IH [of "Suc i" ?t] show ?case by (cases "vfs_index (t ! i) = -1") auto
qed auto

lemma fd_range_undo_ok:
  "fds_ok t c \<Longrightarrow> fds_ok (fd_range_undo n j index t) c \<and> length (fd_range_undo n j index t) = length t"
proof (induction n arbitrary: j t)
  case (Suc n)
  have "fds_ok (t[j := fd_clear_if (int index) (t ! j)]) c"
  proof (cases "j < length t")
    case True
    from fds_ok_nth [OF Suc.prems True] show ?thesis
      by (intro fds_ok_update [OF Suc.prems order_refl]) (auto simp: fd_clear_if_def)
  next
    case False
    then show ?thesis using Suc.prems by (simp add: list_update_beyond)
  qed
  from Suc.IH [OF this, of "Suc j"] show ?case by simp
qed simp

lemma register_wf:
  "esp_vfs_register malloc p v ctx s = (err, s') \<Longrightarrow> vfs_wf s \<Longrightarrow> vfs_wf s'"
  using register_common_wf [where base_path = p and len = "length p" and s' = s']
  by (auto simp: esp_vfs_register_def new_prefix_ok_def Let_def split: prod.splits)

lemma register_with_id_wf:
  "esp_vfs_register_with_id malloc v ctx b s = (err, vid, s') \<Longrightarrow> vfs_wf s \<Longrightarrow> vfs_wf s'"
  using register_common_wf [where base_path = "[]" and len = LEN_PATH_PREFIX_IGNORED and s' = s']
  by (auto simp: esp_vfs_register_with_id_def new_prefix_ok_def Let_def split: prod.splits if_splits)

lemma register_fd_range_wf:
  assumes r: "esp_vfs_register_fd_range malloc v ctx lo hi s = (err, s')" and wf: "vfs_wf s"
  shows "vfs_wf s'"
proof -
  obtain e i t where c: "esp_vfs_register_common malloc [] LEN_PATH_PREFIX_IGNORED v ctx s = (e, i, t)"
    by (rule prod_cases3)
  have wt: "vfs_wf t" using register_common_wf [OF c wf] by (simp add: new_prefix_ok_def)
  note wft = vfs_wfD [OF wt]
  from c show ?thesis
  proof (cases rule: register_common_cases)
    case failed
    then show ?thesis
      using r c wf by (auto simp: esp_vfs_register_fd_range_def split: if_splits esp_err_t.splits)
  next
    case (stored entry index en)
    have index: "index < s_vfs_count t" by (simp add: stored(8))
    let ?run = "fd_range_set (nat (hi - lo)) (nat lo) index (s_fd_table t)"
    have ok: "fds_ok u (s_vfs_count t) \<and> length u = length (s_fd_table t)"
      if "?run = Inl (j, u) \<or> ?run = Inr u" for j u
      using fd_range_set_ok [OF that wft(2) index] wft(3,4) by simp
    have free: "slots_ok ((s_vfs t)[index := None]) (s_vfs_count t)"
      using wft(3) by (intro slots_ok_update [OF wft(1)]) auto
    have undo: "vfs_wf (t\<lparr>s_vfs := (s_vfs t)[index := None],
        s_fd_table := fd_range_undo (j - nat lo) (nat lo) index u\<rparr>)" if "?run = Inl (j, u)" for j u
      using ok [of j u] that free fd_range_undo_ok [of u "s_vfs_count t"] by (intro vfs_wfI [OF wt]) auto
    have keep: "vfs_wf (t\<lparr>s_fd_table := u\<rparr>)" if "?run = Inr u" for u
      using ok [of 0 u] that wft(1) by (intro vfs_wfI [OF wt]) auto
    have "e = ESP_OK" and "i = Some index" using stored by auto
    then consider "s' = s" | j u where "?run = Inl (j, u)" "s' = t\<lparr>s_vfs := (s_vfs t)[index := None],
        s_fd_table := fd_range_undo (j - nat lo) (nat lo) index u\<rparr>"
      | u where "?run = Inr u" "s' = t\<lparr>s_fd_table := u\<rparr>"
      using r c unfolding esp_vfs_register_fd_range_def
      by (cases ?run) (auto split: if_splits)
    then show ?thesis using wf undo keep by cases auto
  qed
qed

lemma unregister_with_id_wf:
  assumes "esp_vfs_unregister_with_id i s = (err, s')" and "vfs_wf s"
  shows "vfs_wf s'"
proof -
  note wf = vfs_wfD [OF assms(2)]
  have "slots_ok ((s_vfs s)[k := None]) (s_vfs_count s)" for k
    using wf(3) by (intro slots_ok_update [OF wf(1)]) auto
  moreover have "fds_ok (map (fd_clear_if i) (take n (s_fd_table s)) @ drop n (s_fd_table s)) (s_vfs_count s)" for n
    using fds_ok_map [OF fds_ok_take [OF wf(2)], of "fd_clear_if i"] fds_ok_drop [OF wf(2)]
    by (auto simp: fd_clear_if_def)
  ultimately show ?thesis
    using assms by (auto simp: esp_vfs_unregister_with_id_def split: if_splits intro!: vfs_wfI [OF assms(2)])
qed

lemma unregister_wf: "esp_vfs_unregister p s = (err, s') \<Longrightarrow> vfs_wf s \<Longrightarrow> vfs_wf s'"
  by (auto simp: esp_vfs_unregister_def split: option.splits intro: unregister_with_id_wf)

lemma register_fd_with_local_fd_wf:
  assumes "esp_vfs_register_fd_with_local_fd i l b p s = (err, fd, s')" and "vfs_wf s"
  shows "vfs_wf s'"
proof -
  note wf = vfs_wfD [OF assms(2)]
  have "fds_ok ((s_fd_table s)[k := (s_fd_table s ! k)\<lparr>permanent := b, vfs_index := to_vfs_index_t i,
      local_fd := x\<rparr>]) (s_vfs_count s)" if "0 \<le> i" "i < int (s_vfs_count s)" for k x
    using that wf(3,4) by (intro fds_ok_update [OF wf(2)]) (simp_all add: to_vfs_index_t_small)
  then show ?thesis
    using assms wf(1) unfolding esp_vfs_register_fd_with_local_fd_def
    by (auto split: if_splits option.splits intro!: vfs_wfI [OF assms(2)])
qed

lemma set_fd_wf:
  assumes "vfs_wf s" and "-1 \<le> vfs_index e" and "vfs_index e < int (s_vfs_count s)"
  shows "vfs_wf (s\<lparr>s_fd_table := (s_fd_table s)[i := e]\<rparr>)"
  using vfs_wfD [OF assms(1)] assms(2,3) by (intro vfs_wfI [OF assms(1)]) (simp_all add: fds_ok_update)

lemma clear_fd_wf: "vfs_wf s \<Longrightarrow> vfs_wf (s\<lparr>s_fd_table := (s_fd_table s)[i := FD_TABLE_ENTRY_UNUSED]\<rparr>)"
  by (simp add: set_fd_wf)

lemma unregister_fd_wf: "esp_vfs_unregister_fd i fd s = (err, s') \<Longrightarrow> vfs_wf s \<Longrightarrow> vfs_wf s'"
  by (auto simp: esp_vfs_unregister_fd_def Let_def clear_fd_wf split: if_splits)

lemma set_readonly_wf:
  assumes "esp_vfs_set_readonly_flag p s = (err, s')" and "vfs_wf s"
  shows "vfs_wf s'"
proof -
  note wf = vfs_wfD [OF assms(2)]
  have "slots_ok ((s_vfs s)[i := map_option (\<lambda>e. e\<lparr>vfs := f e\<rparr>) (s_vfs s ! i)]) (s_vfs_count s)" for i f
  proof (cases "i < length (s_vfs s)")
    case True
    show ?thesis
      using slots_okD [OF wf(1) True] wf(3)
      by (intro slots_ok_update [OF wf(1)]) (auto simp: prefix_ok_def)
  qed (use wf(1) in \<open>simp add: list_update_beyond\<close>)
  then show ?thesis
    using assms wf unfolding esp_vfs_set_readonly_flag_def
    by (auto split: option.splits intro!: vfs_wfI [OF assms(2)])
qed

subsection \<open>The search for a path, and open and close\<close>

lemma entries_prefix_ok: "vfs_wf s \<Longrightarrow> Some e \<in> set (s_vfs s) \<Longrightarrow> prefix_ok e"
  using vfs_wfD(1) [of s] by (auto simp: in_set_conv_nth dest: slots_okD)

lemma unregistered_tail:
  assumes "slots_ok vs n"
  shows "List.map_filter id vs = List.map_filter id (take n vs)"
proof -
  have "List.map_filter id (drop n vs) = []"
  proof -
    have "x = None" if "x \<in> set (drop n vs)" for x
    proof (cases x)
      case (Some e)
      from that obtain i where "i < length (drop n vs)" "drop n vs ! i = x" by (meson in_set_conv_nth)
      with Some slots_okD(1) [OF assms, of "n + i" e] show ?thesis by (simp add: less_diff_conv add.commute)
    qed
    then show ?thesis by (auto simp: map_filter_def filter_empty_conv)
  qed
  then show ?thesis by (metis append_Nil2 append_take_drop_id map_append filter_append map_filter_def)
qed

lemma get_vfs_for_path_spec:
  assumes "vfs_wf s"
  shows "get_vfs_for_path path s = vfs_for_path_spec path (entries s)"
proof -
  have "fold (path_turn path) (take (s_vfs_count s) (s_vfs s)) (None, -1) =
      best_of path (List.map_filter id (take (s_vfs_count s) (s_vfs s)))"
    using entries_prefix_ok [OF assms] by (intro fold_path_turn) (auto dest: in_set_takeD)
  then show ?thesis
    using unregistered_tail [OF vfs_wfD(1) [OF assms]]
    by (simp add: get_vfs_for_path_def entries_def fst_best_of)
qed

lemma vfs_for_path_spec_SomeD:
  assumes "vfs_for_path_spec path es = Some e"
  shows "e \<in> set es" and "has_path e" and "covers path (path_prefix e) \<or> path_prefix e = []"
proof -
  have "e \<in> set es \<and> has_path e \<and> (covers path (path_prefix e) \<or> path_prefix e = [])"
    using assms longest_SomeD(1) [of "filter (\<lambda>e. has_path e \<and> covers path (path_prefix e)) es" e]
      list.set_intros filter_is_subset [of "\<lambda>e. has_path e \<and> path_prefix e = []" es]
    by (auto simp: vfs_for_path_spec_def default_vfs_def filter_eq_Cons_iff split: option.splits list.splits if_splits)
  then show "e \<in> set es" and "has_path e" and "covers path (path_prefix e) \<or> path_prefix e = []" by auto
qed

lemma entries_nth:
  assumes "vfs_wf s" and "e \<in> set (entries s)"
  shows "offset e < s_vfs_count s" and "s_vfs s ! offset e = Some e" and "prefix_ok e"
proof -
  obtain i where "i < length (s_vfs s)" "s_vfs s ! i = Some e"
    using assms(2) by (auto simp: entries_def map_filter_def in_set_conv_nth)
  with slots_okD [OF vfs_wfD(1) [OF assms(1)]]
  show "offset e < s_vfs_count s" and "s_vfs s ! offset e = Some e" and "prefix_ok e" by auto
qed

lemma found_vfs:
  assumes "vfs_wf s" and "get_vfs_for_path path s = Some v"
  shows "offset v < s_vfs_count s" and "s_vfs s ! offset v = Some v" and "prefix_ok v" and "has_path v"
    and "covers path (path_prefix v) \<or> path_prefix v = []"
  using vfs_for_path_spec_SomeD [of path "entries s" v] entries_nth [OF assms(1)] assms(2)
  by (simp_all add: get_vfs_for_path_spec [OF assms(1)])

lemma translate_path_found:
  assumes "vfs_wf s" and "get_vfs_for_path path s = Some v"
  shows "translate_path v path =
    Some (if path = path_prefix v then ''/'' else drop (length (path_prefix v)) path)"
proof -
  note f = found_vfs [OF assms]
  have "take (length (path_prefix v)) path = path_prefix v" using f(5) by (auto simp: covers_def)
  moreover from this have "length path = length (path_prefix v) \<longleftrightarrow> path = path_prefix v" by force
  ultimately show ?thesis
    by (simp add: translate_path_def prefix_ok_len [OF f(3,4)])
qed

lemma call_driver_wf: "call_driver v f args s = (r, s') \<Longrightarrow> vfs_wf s' = vfs_wf s"
  using call_driver_tables vfs_wf_tables by blast

definition path_in :: "'w vfs_entry_t \<Rightarrow> string \<Rightarrow> string" where
  "path_in v path = (if path = path_prefix v then ''/'' else drop (length (path_prefix v)) path)"

definition open_denied :: "int \<Rightarrow> 'w vfs_entry_t \<Rightarrow> bool" where
  "open_denied fl v \<longleftrightarrow> fl AND O_ACCMODE \<noteq> O_RDONLY \<and> flag_set (vfs_flags (vfs v)) ESP_VFS_FLAG_READONLY_FS"

definition claim_fd :: "nat \<Rightarrow> int \<Rightarrow> 'w vfs_entry_t \<Rightarrow> 'w vfs_state \<Rightarrow> 'w vfs_state" where
  "claim_fd i l v s = s\<lparr>s_fd_table := (s_fd_table s)[i := (s_fd_table s ! i)\<lparr>permanent := False,
      vfs_index := to_vfs_index_t (int (offset v)), local_fd := word_of_int l\<rparr>]\<rparr>"

lemma open_called:
  assumes "vfs_wf s" and "get_vfs_for_path path s = Some v"
    and "\<not> open_denied fl v"
    and "vfs_fn (vfs v) M_open = Some op"
    and "call_driver v op [VPath (path_in v path), VInt fl, VInt mode] s = (l, t)"
  shows "esp_vfs_open path fl mode s =
    (if l \<ge> 0
     then case free_fd (s_fd_table t) of
         Some i \<Rightarrow> Some (int i, claim_fd i l v t)
       | None \<Rightarrow> CHECK_AND_CALL v M_close [VInt l] (\<lambda>_. vfs_result (-1) ENOMEM) t
     else Some (-1, t))"
  using assms translate_path_found [OF assms(1,2)]
  unfolding esp_vfs_open_def with_path_def open_denied_def [symmetric]
  by (simp add: CHECK_AND_CALL_def [of v M_open] path_in_def claim_fd_def split: option.split)

lemma open_not_called:
  assumes "vfs_wf s"
    and "case get_vfs_for_path path s of None \<Rightarrow> True | Some v \<Rightarrow>
      open_denied fl v \<or> vfs_fn (vfs v) M_open = None"
  shows "\<exists>e. esp_vfs_open path fl mode s = vfs_result (-1) e s"
  using assms(2) translate_path_found [OF assms(1)]
  unfolding esp_vfs_open_def with_path_def open_denied_def [symmetric]
  by (auto simp: CHECK_AND_CALL_def split: option.splits)

lemma claim_fd_wf:
  assumes "vfs_wf s" and "offset v < s_vfs_count s"
  shows "vfs_wf (claim_fd i l v s)"
  using assms vfs_wfD(3,4) [OF assms(1)] unfolding claim_fd_def
  by (intro set_fd_wf) (simp_all add: to_vfs_index_t_small)

lemma open_wf:
  assumes o: "esp_vfs_open path fl mode s = Some (fd, s')" and wf: "vfs_wf s"
  shows "vfs_wf s'"
proof (cases "case get_vfs_for_path path s of None \<Rightarrow> True | Some v \<Rightarrow>
      open_denied fl v \<or> vfs_fn (vfs v) M_open = None")
  case True
  from open_not_called [OF wf True, of mode] o wf show ?thesis by (auto simp: vfs_wf_def)
next
  case False
  then obtain v op where v: "get_vfs_for_path path s = Some v" and op: "vfs_fn (vfs v) M_open = Some op"
    and ro: "\<not> open_denied fl v"
    by (auto split: option.splits)
  obtain l t where t: "call_driver v op [VPath (path_in v path), VInt fl, VInt mode] s = (l, t)" by fastforce
  have wt: "vfs_wf t" and n: "offset v < s_vfs_count t"
    using wf call_driver_wf [OF t] call_driver_tables [OF t] found_vfs(1) [OF wf v] by (auto simp: same_tables_def)
  have close: "keeps_tables (CHECK_AND_CALL v M_close [VInt l] (\<lambda>_. vfs_result (-1) ENOMEM))"
    by (intro keeps_intros)
  from o [unfolded open_called [OF wf v ro op t]] show ?thesis
    using wt claim_fd_wf [OF wt n] vfs_wf_tables [OF keeps_tablesD [OF close, of t fd s']]
    by (cases "l \<ge> 0"; cases "free_fd (s_fd_table t)") auto
qed

text \<open>The descriptor table after the driver's \<open>close\<close>.\<close>

definition release_fd :: "nat \<Rightarrow> 'w vfs_state \<Rightarrow> 'w vfs_state" where
  "release_fd i s =
     (let e = s_fd_table s ! i in
      if permanent e then s
      else if has_pending_select e then s\<lparr>s_fd_table := (s_fd_table s)[i := e\<lparr>has_pending_close := True\<rparr>]\<rparr>
      else s\<lparr>s_fd_table := (s_fd_table s)[i := FD_TABLE_ENTRY_UNUSED]\<rparr>)"

lemma close_called:
  assumes "get_vfs_for_fd fd s = Some v" and "vfs_fn (vfs v) M_close = Some cl"
    and "call_driver v cl [VInt (uint (local_fd (s_fd_table s ! nat fd)))] s = (l, t)"
  shows "esp_vfs_close fd s = Some (l, release_fd (nat fd) t)"
proof -
  have "fd_valid fd s" using assms(1) by (auto simp: get_vfs_for_fd_def split: if_splits)
  with assms show ?thesis
    by (simp add: esp_vfs_close_def with_fd_def CHECK_AND_CALL_def get_local_fd_def release_fd_def Let_def)
qed

lemma release_fd_wf:
  assumes "vfs_wf s" and "i < length (s_fd_table s)"
  shows "vfs_wf (release_fd i s)"
  using assms clear_fd_wf [OF assms(1)] fds_ok_nth [OF vfs_wfD(2) [OF assms(1)] assms(2)]
  by (auto simp: release_fd_def Let_def intro!: set_fd_wf)

lemma close_wf:
  assumes c: "esp_vfs_close fd s = Some (r, s')" and wf: "vfs_wf s"
  shows "vfs_wf s'"
proof (cases "\<exists>v cl. get_vfs_for_fd fd s = Some v \<and> vfs_fn (vfs v) M_close = Some cl")
  case False
  then have "\<exists>e. esp_vfs_close fd s = vfs_result (-1) e s"
    by (auto simp: esp_vfs_close_def with_fd_def CHECK_AND_CALL_def Let_def split: option.splits)
  then show ?thesis using c wf by (auto simp: vfs_wf_def)
next
  case True
  then obtain v cl where v: "get_vfs_for_fd fd s = Some v" "vfs_fn (vfs v) M_close = Some cl" by blast
  obtain l t where t: "call_driver v cl [VInt (uint (local_fd (s_fd_table s ! nat fd)))] s = (l, t)" by fastforce
  have "nat fd < length (s_fd_table t)"
    using v(1) call_driver_tables [OF t]
    by (auto simp: get_vfs_for_fd_def fd_valid_def same_tables_def split: if_splits)
  with release_fd_wf [of t "nat fd"] show ?thesis
    using c close_called [OF v t] wf call_driver_wf [OF t] by simp
qed

end
