(* ===== verification/Vfs_Select_Inv.thy ===== *)
theory Vfs_Select_Inv
  imports Vfs_Steps
begin

section \<open>select keeps the tables well formed\<close>

text \<open>
  The pieces of \<open>esp_vfs_select\<close>: which of them touch the tables, that they keep the invariant, and
  what the two translations between global and local descriptor sets compute.
\<close>

subsection \<open>The scan\<close>

lemma mark_pending_select_wf:
  assumes "vfs_wf s" and "fd < length (s_fd_table s)"
  shows "vfs_wf (mark_pending_select fd s)"
  using fds_ok_nth [OF vfs_wfD(2) [OF assms(1)] assms(2)] unfolding mark_pending_select_def
  by (intro set_fd_wf [OF assms(1)]) simp_all

lemma mark_pending_select_fields [simp]:
  "s_vfs (mark_pending_select fd s) = s_vfs s"
  "s_vfs_count (mark_pending_select fd s) = s_vfs_count s"
  "length (s_fd_table (mark_pending_select fd s)) = length (s_fd_table s)"
  "semaphores (mark_pending_select fd s) = semaphores s"
  by (simp_all add: mark_pending_select_def)

lemma scan_socket_tables:
  assumes "scan_socket fd idx c = Some c'"
  shows "same_tables (sc_state c) (sc_state c')" and "semaphores (sc_state c') = semaphores (sc_state c)"
    and "sc_user c' = sc_user c" and "sc_triples c' = sc_triples c"
proof -
  have "same_tables (sc_state c) (sc_state c') \<and> semaphores (sc_state c') = semaphores (sc_state c) \<and>
      sc_user c' = sc_user c \<and> sc_triples c' = sc_triples c"
    using assms by (auto simp: scan_socket_def same_tables_def bind_eq_Some_conv Let_def case_prod_beta
        split: option.splits if_splits)
  then show "same_tables (sc_state c) (sc_state c')" and "semaphores (sc_state c') = semaphores (sc_state c)"
    and "sc_user c' = sc_user c" and "sc_triples c' = sc_triples c" by auto
qed

text \<open>How a turn of the scan changes the state: at most the mark and the world.\<close>

lemma scan_entry_state:
  "scan_entry fd e c = Some c' \<Longrightarrow>
   same_tables (sc_state c) (sc_state c') \<and> semaphores (sc_state c') = semaphores (sc_state c)"
  using scan_socket_tables [of fd "vfs_index e" c c']
  by (auto simp: scan_entry_def bind_eq_Some_conv split: if_splits prod.splits)

lemma scan_fd_state:
  assumes "scan_fd fd c = Some c'"
  shows "same_tables (sc_state c) (sc_state c') \<or> same_tables (mark_pending_select fd (sc_state c)) (sc_state c')"
    and "semaphores (sc_state c') = semaphores (sc_state c)"
  using assms
  by (auto simp: scan_fd_def bind_eq_Some_conv dest!: scan_entry_state split: if_splits)

lemma scan_fds_state:
  assumes "scan_fds fds c = Some c'" and "vfs_wf (sc_state c)" and "\<forall>fd\<in>set fds. fd < 64"
  shows "vfs_wf (sc_state c') \<and> s_vfs (sc_state c') = s_vfs (sc_state c) \<and>
    s_vfs_count (sc_state c') = s_vfs_count (sc_state c) \<and> semaphores (sc_state c') = semaphores (sc_state c)"
  using assms
proof (induction fds arbitrary: c)
  case (Cons fd fds)
  then obtain d where d: "scan_fd fd c = Some d" "scan_fds fds d = Some c'" by (auto simp: bind_eq_Some_conv)
  have "vfs_wf (mark_pending_select fd (sc_state c))"
    using Cons.prems(2,3) vfs_wfD(5) [OF Cons.prems(2)] by (intro mark_pending_select_wf) auto
  then have "vfs_wf (sc_state d)"
    using scan_fd_state(1) [OF d(1)] Cons.prems(2) vfs_wf_tables by blast
  moreover have "s_vfs (sc_state d) = s_vfs (sc_state c) \<and> s_vfs_count (sc_state d) = s_vfs_count (sc_state c)"
    using scan_fd_state(1) [OF d(1)] by (auto simp: same_tables_def)
  ultimately show ?case
    using Cons.IH [OF d(2)] Cons.prems(3) scan_fd_state(2) [OF d(1)] by auto
qed auto

subsection \<open>The drivers\<close>

lemma call_end_select_tables:
  "call_end_select i arg item s = (item', s') \<Longrightarrow>
   same_tables s s' \<and> semaphores s' = semaphores s \<and> isset item' = isset item"
  by (auto simp: call_end_select_def same_tables_def Let_def split: option.splits if_splits prod.splits)

lemma call_end_selects_from_tables:
  "call_end_selects_from i args items s = (items', s') \<Longrightarrow>
   same_tables s s' \<and> semaphores s' = semaphores s \<and> map isset items' = map isset items"
proof (induction i args items s arbitrary: items' s' rule: call_end_selects_from.induct)
  case (1 i arg args item items s)
  obtain it t where t: "call_end_select i arg item s = (it, t)" by fastforce
  obtain its u where u: "call_end_selects_from (Suc i) args items t = (its, u)" by fastforce
  show ?case
    using 1(1) [OF t [symmetric] refl u] 1(2) t u call_end_select_tables [OF t] same_tables_trans by auto
qed auto

lemma call_end_selects_tables:
  assumes "call_end_selects n items args s = (items', s')"
  shows "same_tables s s'" and "semaphores s' = semaphores s" and "map isset items' = map isset items"
proof -
  obtain its u where u: "call_end_selects_from 0 args (take n items) s = (its, u)" by fastforce
  have "map isset its @ map isset (drop n items) = map isset items"
    using call_end_selects_from_tables [OF u] by (metis append_take_drop_id map_append)
  then show "same_tables s s'" and "semaphores s' = semaphores s" and "map isset items' = map isset items"
    using assms u call_end_selects_from_tables [OF u] by (auto simp: call_end_selects_def)
qed

lemma call_start_select_tables:
  "call_start_select n sm i item s = (err, item', arg, s') \<Longrightarrow>
   same_tables s s' \<and> semaphores s' = semaphores s \<and> isset item' = isset item"
  by (auto simp: call_start_select_def same_tables_def Let_def split: option.splits if_splits prod.splits)

lemma start_selects_tables:
  "start_selects n sm i items s = (failed, items', args, s') \<Longrightarrow>
   same_tables s s' \<and> semaphores s' = semaphores s \<and> map isset items' = map isset items \<and> length args = length items"
proof (induction items arbitrary: i s failed items' args s')
  case (Cons item items)
  obtain err it arg t where t: "call_start_select n sm i item s = (err, it, arg, t)" by (rule prod_cases4)
  obtain f its ags u where u: "start_selects n sm (Suc i) items t = (f, its, ags, u)" by (rule prod_cases4)
  show ?case
    using Cons.prems t u Cons.IH [OF u] call_start_select_tables [OF t] same_tables_trans
    by (auto split: if_splits)
qed auto

lemma close_pending_ok:
  assumes "fds_ok t c"
  shows "fds_ok (close_pending n t) c" and "length (close_pending n t) = length t"
  using fds_ok_map [OF fds_ok_take [OF assms], of "\<lambda>e. if has_pending_close e then FD_TABLE_ENTRY_UNUSED else e"]
    fds_ok_drop [OF assms]
  by (auto simp: close_pending_def)

lemma delete_sem_tables [simp]: "same_tables s (delete_sem sm s)"
  by (simp add: delete_sem_def same_tables_def)

subsection \<open>The whole call\<close>

text \<open>What the rest of the system does during the wait is legal: it keeps the invariant.\<close>

definition others_wf :: "'w sel_kernel \<Rightarrow> bool" where
  "others_wf k \<longleftrightarrow> (\<forall>w ts t. vfs_wf t \<longrightarrow> vfs_wf (snd (others k w ts t)))"

lemma select_wait_wf:
  assumes "select_wait k nfds timeout c ts s = (ret, u, ts', s')" and "vfs_wf s" and "others_wf k"
  shows "vfs_wf s'"
proof -
  have env: "vfs_wf (s\<lparr>vfs_env := w\<rparr>)" for w using assms(2) by (simp add: vfs_wf_def)
  show ?thesis
  proof (cases "sc_socket c")
    case None
    then show ?thesis
      using assms by (auto simp: select_wait_def others_wf_def case_prod_beta)
  next
    case (Some f)
    then show ?thesis
      using assms env by (auto simp: select_wait_def others_wf_def case_prod_beta)
  qed
qed

lemma select_finish_wf:
  assumes f: "select_finish k nfds timeout sm c ts args s = Some (ret, u, s')" and "vfs_wf s" and "others_wf k"
  shows "vfs_wf s'"
proof -
  obtain r1 u1 ts1 s1 where w: "select_wait k nfds timeout c ts s = (r1, u1, ts1, s1)" by (rule prod_cases4)
  obtain ts2 s2 where e: "call_end_selects (length ts1) ts1 args s1 = (ts2, s2)" by fastforce
  have w2: "vfs_wf s2"
    using select_wait_wf [OF w assms(2,3)] vfs_wf_tables [OF call_end_selects_tables(1) [OF e]] by simp
  define s3 where "s3 = (if is_sem_local sm then delete_sem sm s2
      else if sem sm \<noteq> 0 \<and> \<not> Option.is_none (sc_socket c)
      then s2\<lparr>vfs_env := drain_sem k (sem sm) (vfs_env s2)\<rparr> else s2)"
  have "same_tables s2 s3" by (simp add: s3_def same_tables_def delete_sem_def)
  then have w3: "vfs_wf s3" using w2 vfs_wf_tables by blast
  have "s' = s3\<lparr>s_fd_table := close_pending (nat nfds) (s_fd_table s3)\<rparr>"
    using f w e by (auto simp: select_finish_def s3_def bind_eq_Some_conv Let_def split: if_splits)
  then show ?thesis
    using vfs_wfD [OF w3] close_pending_ok [OF vfs_wfD(2) [OF w3]] by (auto intro!: vfs_wfI [OF w3])
qed

lemma select_wf:
  assumes sel: "esp_vfs_select k al nfds u timeout s = Some (ret, u', s')" and wf: "vfs_wf s" and "others_wf k"
  shows "vfs_wf s'"
proof (cases "nfds > int (MAX_FDS s) \<or> nfds < 0 \<or> \<not> triples_ok al")
  case True
  then show ?thesis using sel wf by (auto simp: esp_vfs_select_def vfs_wf_def split: if_splits)
next
  case False
  define c0 where "c0 = \<lparr>sc_state = s, sc_user = u,
      sc_triples = replicate (s_vfs_count s) \<lparr>isset = False, t_sets = ({}, {}, {})\<rparr>,
      sc_socket = None, sc_sem = 0\<rparr>"
  from sel False obtain c where c: "scan_fds [0..<nat nfds] c0 = Some c"
    by (auto simp: esp_vfs_select_def c0_def bind_eq_Some_conv)
  define loc where "loc = Option.is_none (sc_socket c)"
  define sm where "sm = (if loc then sem_new al else Some (sc_sem c))"
  define s1 where "s1 = (if loc then (sc_state c)\<lparr>semaphores := the sm # semaphores (sc_state c)\<rparr> else sc_state c)"
  define ss where "ss = \<lparr>is_sem_local = loc, sem = the sm\<rparr>"
  obtain fl ts args s2 where st: "start_selects nfds ss 0 (sc_triples c) s1 = (fl, ts, args, s2)" by (rule prod_cases4)
  have "\<forall>fd\<in>set [0..<nat nfds]. fd < 64" using False vfs_wfD(5) [OF wf] by auto
  then have wc: "vfs_wf (sc_state c)" using scan_fds_state [OF c] wf by (auto simp: c0_def)
  have w1: "vfs_wf s1" using wc by (simp add: s1_def vfs_wf_def)
  have w2: "vfs_wf s2" using w1 start_selects_tables [OF st] vfs_wf_tables by blast
  have errno: "vfs_wf (t\<lparr>vfs_errno := e\<rparr>)" if "vfs_wf t" for t :: "'a vfs_state" and e
    using that by (simp add: vfs_wf_def)
  show ?thesis
  proof (cases "sm = None \<or> \<not> args_ok al")
    case True
    then have "s' = (sc_state c)\<lparr>vfs_errno := ENOMEM\<rparr> \<or> s' = s1\<lparr>vfs_errno := ENOMEM\<rparr>"
      using sel False c by (auto simp: esp_vfs_select_def c0_def [symmetric] Let_def sm_def s1_def loc_def split: if_splits option.splits)
    then show ?thesis using errno wc w1 by blast
  next
    case sem: False
    have run: "(case fl of
        Some (i, err) \<Rightarrow>
          let (triples, s) = (if err \<noteq> ESP_ERR_NOT_SUPPORTED then call_end_selects i ts args s2 else (ts, s2))
          in do { (_, u) \<leftarrow> set_global_fd_sets triples (sc_user c) s;
                  Some (-1, u, (delete_sem ss s)\<lparr>vfs_errno := EINTR\<rparr>) }
      | None \<Rightarrow> select_finish k nfds timeout ss c ts args s2) = Some (ret, u', s')"
      using sel False sem c st
      by (auto simp: esp_vfs_select_def c0_def [symmetric] Let_def sm_def s1_def loc_def ss_def split: option.splits if_splits)
    show ?thesis
    proof (cases fl)
      case None
      with run select_finish_wf [OF _ w2 assms(3)] show ?thesis by simp
    next
      case (Some f)
      obtain i err where f: "f = (i, err)" by fastforce
      define ends where "ends = (if err \<noteq> ESP_ERR_NOT_SUPPORTED then call_end_selects i ts args s2 else (ts, s2))"
      have "same_tables s2 (snd ends)"
        using call_end_selects_tables(1) [of i ts args s2] by (auto simp: ends_def) (metis prod.collapse)
      moreover have "s' = (delete_sem ss (snd ends))\<lparr>vfs_errno := EINTR\<rparr>"
        using run Some f by (auto simp: ends_def case_prod_beta bind_eq_Some_conv)
      ultimately show ?thesis
        using errno w2 vfs_wf_tables delete_sem_tables by metis
    qed
  qed
qed

subsection \<open>Steps\<close>

text \<open>
  The initial state of the static tables, and the operations as steps. A call on a path or a
  descriptor that stops in the middle has no successor.
\<close>

definition vfs_initial :: "nat \<Rightarrow> 'w \<Rightarrow> 'w vfs_state" where
  "vfs_initial n w =
     \<lparr>s_vfs = replicate n None, s_vfs_count = 0, s_fd_table = replicate FD_SETSIZE FD_TABLE_ENTRY_UNUSED,
      vfs_errno = E0, dd_vfs_idx = Map.empty, semaphores = [], vfs_env = w\<rparr>"

inductive vfs_step :: "'w vfs_state \<Rightarrow> 'w vfs_state \<Rightarrow> bool" where
  register: "esp_vfs_register m p v ctx s = (err, s') \<Longrightarrow> vfs_step s s'"
| register_fd_range: "esp_vfs_register_fd_range m v ctx lo hi s = (err, s') \<Longrightarrow> vfs_step s s'"
| register_with_id: "esp_vfs_register_with_id m v ctx b s = (err, i, s') \<Longrightarrow> vfs_step s s'"
| unregister_with_id: "esp_vfs_unregister_with_id i s = (err, s') \<Longrightarrow> vfs_step s s'"
| unregister: "esp_vfs_unregister p s = (err, s') \<Longrightarrow> vfs_step s s'"
| register_fd: "esp_vfs_register_fd i b s = (err, fd', s') \<Longrightarrow> vfs_step s s'"
| register_local_fd: "esp_vfs_register_fd_with_local_fd i l b c s = (err, fd', s') \<Longrightarrow> vfs_step s s'"
| unregister_fd: "esp_vfs_unregister_fd i fd s = (err, s') \<Longrightarrow> vfs_step s s'"
| set_readonly: "esp_vfs_set_readonly_flag p s = (err, s') \<Longrightarrow> vfs_step s s'"
| "open": "esp_vfs_open p fl mode s = Some (r, s') \<Longrightarrow> vfs_step s s'"
| close: "esp_vfs_close fd s = Some (r, s') \<Longrightarrow> vfs_step s s'"
| fd_call:
    "f \<in> {esp_vfs_write fd a n, esp_vfs_lseek fd i j, esp_vfs_read fd a n, esp_vfs_pread fd a n i,
          esp_vfs_pwrite fd a n i, esp_vfs_fstat fd a, esp_vfs_fcntl_r fd i j, esp_vfs_ioctl fd i a,
          esp_vfs_fsync fd, esp_vfs_ftruncate fd i, tcgetattr fd a, tcsetattr fd i a, tcdrain fd,
          tcflush fd i, tcflow fd i, tcgetsid fd, tcsendbreak fd i} \<Longrightarrow>
     f s = Some (r, s') \<Longrightarrow> vfs_step s s'"
| path_call:
    "f \<in> {esp_vfs_stat p a, esp_vfs_utime p a, esp_vfs_link p q, esp_vfs_unlink p, esp_vfs_rename p q,
          esp_vfs_mkdir p i, esp_vfs_rmdir p, esp_vfs_access p i, esp_vfs_truncate p i, esp_vfs_opendir p} \<Longrightarrow>
     f s = Some (r, s') \<Longrightarrow> vfs_step s s'"
| dir_call:
    "f \<in> {esp_vfs_readdir d, esp_vfs_readdir_r d a b, esp_vfs_telldir d, esp_vfs_closedir d} \<Longrightarrow>
     f s = Some (r, s') \<Longrightarrow> vfs_step s s'"
| seekdir: "esp_vfs_seekdir d loc s = Some s' \<Longrightarrow> vfs_step s s'"
| rewinddir: "esp_vfs_rewinddir d s = Some s' \<Longrightarrow> vfs_step s s'"
| select: "esp_vfs_select k al nfds u timeout s = Some (r, u', s') \<Longrightarrow> others_wf k \<Longrightarrow> vfs_step s s'"
| triggered: "s' = esp_vfs_select_triggered k sm s \<Longrightarrow> vfs_step s s'"
| triggered_isr: "(woken, s') = esp_vfs_select_triggered_isr k sm s \<Longrightarrow> vfs_step s s'"

inductive vfs_reach :: "'w vfs_state \<Rightarrow> bool" where
  start: "n \<le> 20 \<Longrightarrow> vfs_reach (vfs_initial n w)"
| step: "vfs_reach s \<Longrightarrow> vfs_step s s' \<Longrightarrow> vfs_reach s'"

lemma vfs_initial_wf: "n \<le> 20 \<Longrightarrow> vfs_wf (vfs_initial n w)"
  by (auto simp: vfs_wf_def vfs_initial_def slots_ok_def fds_ok_def)

lemma triggered_tables:
  "same_tables s (esp_vfs_select_triggered k sm s)"
  "same_tables s (snd (esp_vfs_select_triggered_isr k sm s))"
  by (auto simp: esp_vfs_select_triggered_def esp_vfs_select_triggered_isr_def same_tables_def case_prod_beta
      split: option.split)

lemma vfs_step_wf: "vfs_step s s' \<Longrightarrow> vfs_wf s \<Longrightarrow> vfs_wf s'"
proof (induction rule: vfs_step.induct)
  case (register_fd i b s err fd' s')
  then show ?case by (auto simp: esp_vfs_register_fd_def intro: register_fd_with_local_fd_wf)
next
  case (fd_call f fd a n i j s r s')
  from fd_call.hyps(1) have "keeps_tables f" by (elim insertE emptyE) (simp_all only: keeps_fd_calls)
  then have "same_tables s s'" using fd_call.hyps(2) by (rule keeps_tablesD)
  then show ?case using fd_call.prems by (simp add: vfs_wf_tables)
next
  case (path_call f p a q i s r s')
  from path_call.hyps(1) have "keeps_tables f" by (elim insertE emptyE) (simp_all only: keeps_path_calls)
  then have "same_tables s s'" using path_call.hyps(2) by (rule keeps_tablesD)
  then show ?case using path_call.prems by (simp add: vfs_wf_tables)
next
  case (dir_call f d a b s r s')
  from dir_call.hyps(1) have "keeps_tables f" by (elim insertE emptyE) (simp_all only: keeps_dir_calls)
  then have "same_tables s s'" using dir_call.hyps(2) by (rule keeps_tablesD)
  then show ?case using dir_call.prems by (simp add: vfs_wf_tables)
next
  case (seekdir d loc s s')
  then show ?case using seekdir_tables vfs_wf_tables by blast
next
  case (rewinddir d s s')
  then show ?case using seekdir_tables vfs_wf_tables unfolding esp_vfs_rewinddir_def by blast
next
  case (triggered s' k sm s)
  then show ?case using triggered_tables(1) vfs_wf_tables by blast
next
  case (triggered_isr woken s' k sm s)
  then show ?case using triggered_tables(2) vfs_wf_tables by (metis snd_conv)
qed (auto intro: register_wf register_fd_range_wf register_with_id_wf unregister_with_id_wf unregister_wf
    register_fd_with_local_fd_wf unregister_fd_wf set_readonly_wf open_wf close_wf select_wf)

lemma vfs_reach_wf: "vfs_reach s \<Longrightarrow> vfs_wf s"
  by (induction rule: vfs_reach.induct) (auto intro: vfs_initial_wf vfs_step_wf)

end
