(* ===== verification/Vfs_Select_Sets.thy ===== *)
theory Vfs_Select_Sets
  imports Vfs_Select_Inv
begin

section \<open>The descriptor sets of select\<close>

text \<open>
  Closed forms of the two translations of \<open>esp_vfs_select\<close>: the scan, which moves the requested
  descriptors of the caller into the sets of the file systems, and \<open>set_global_fd_sets\<close>, which
  brings the results back.
\<close>

subsection \<open>From the caller's sets to the sets of the file systems\<close>

definition member :: "nat \<Rightarrow> fd_set option \<Rightarrow> bool" where
  "member fd g = (case g of None \<Rightarrow> False | Some s \<Rightarrow> fd \<in> s)"

definition lfd :: "fd_table_t list \<Rightarrow> nat \<Rightarrow> nat" where "lfd t fd = unat (local_fd (t ! fd))"

text \<open>The descriptors below \<open>n\<close> of file system \<open>i\<close> that the scan looks at, and the local set.\<close>

definition of_vfs :: "fd_table_t list \<Rightarrow> nat \<Rightarrow> int \<Rightarrow> nat set" where
  "of_vfs t n i = {fd. fd < n \<and> vfs_index (t ! fd) = i \<and> \<not> permanent (t ! fd)}"

definition local_req :: "fd_table_t list \<Rightarrow> nat \<Rightarrow> fd_set option \<Rightarrow> int \<Rightarrow> fd_set" where
  "local_req t n g i = lfd t ` {fd \<in> of_vfs t n i. member fd g}"

definition local_req3 :: "fd_table_t list \<Rightarrow> nat \<Rightarrow> user_fds \<Rightarrow> int \<Rightarrow> fd_sets3" where
  "local_req3 t n u i = (local_req t n (readfds u) i, local_req t n (writefds u) i, local_req t n (errorfds u) i)"

definition minus_fds :: "nat set \<Rightarrow> user_fds \<Rightarrow> user_fds" where
  "minus_fds X u = \<lparr>readfds = map_option (\<lambda>s. s - X) (readfds u), writefds = map_option (\<lambda>s. s - X) (writefds u),
                  errorfds = map_option (\<lambda>s. s - X) (errorfds u)\<rparr>"

definition moved :: "fd_table_t list \<Rightarrow> nat \<Rightarrow> nat set" where
  "moved t n = {fd. fd < n \<and> 0 \<le> vfs_index (t ! fd) \<and> \<not> permanent (t ! fd)}"

definition req_triple :: "fd_sets3 \<Rightarrow> fds_triple_t" where
  "req_triple ts = \<lparr>isset = (ts \<noteq> ({}, {}, {})), t_sets = ts\<rparr>"

lemma esp_vfs_safe_fd_isset_member: "fd < 64 \<Longrightarrow> esp_vfs_safe_fd_isset fd g = Some (member fd g)"
  by (simp add: esp_vfs_safe_fd_isset_def member_def FD_ISSET_def FD_SETSIZE_def split: option.split)

lemma move_bit_eq:
  assumes "fd < 64" and "l < 64"
  shows "move_bit fd l g ls =
    Some (map_option (\<lambda>s. s - {fd}) g, if member fd g then insert l ls else ls, member fd g)"
  using assms
  by (auto simp: move_bit_def esp_vfs_safe_fd_isset_member member_def FD_SET_def FD_CLR_def FD_SETSIZE_def
      split: option.splits)

lemma local_req_Suc:
  "local_req t (Suc n) g i =
     (if vfs_index (t ! n) = i \<and> \<not> permanent (t ! n) \<and> member n g
      then insert (lfd t n) (local_req t n g i) else local_req t n g i)"
  by (auto simp: local_req_def of_vfs_def less_Suc_eq)

lemma member_without: "fd \<notin> X \<Longrightarrow> member fd (map_option (\<lambda>s. s - X) g) = member fd g"
  by (simp add: member_def split: option.split)

lemma member_without_fields:
  assumes "fd \<notin> X"
  shows "member fd (readfds (minus_fds X u)) = member fd (readfds u)"
    and "member fd (writefds (minus_fds X u)) = member fd (writefds u)"
    and "member fd (errorfds (minus_fds X u)) = member fd (errorfds u)"
  using assms by (simp_all add: minus_fds_def member_without)

lemma without_insert:
  "\<lparr>readfds = map_option (\<lambda>s. s - {fd}) (readfds (minus_fds X u)),
    writefds = map_option (\<lambda>s. s - {fd}) (writefds (minus_fds X u)),
    errorfds = map_option (\<lambda>s. s - {fd}) (errorfds (minus_fds X u))\<rparr> = minus_fds (insert fd X) u"
  by (auto simp: minus_fds_def option.map_comp comp_def Diff_insert [symmetric] intro!: option.map_cong)

lemma move_bits_req:
  assumes "fd < 64" and "lfd t fd < 64" and "vfs_index (t ! fd) = i" and "\<not> permanent (t ! fd)" and "fd \<notin> X"
  shows "move_bits fd (unat (local_fd (t ! fd))) (minus_fds X u) (req_triple (local_req3 t fd u i)) =
    Some (minus_fds (insert fd X) u, req_triple (local_req3 t (Suc fd) u i))"
  using assms
  by (auto simp: move_bits_def req_triple_def local_req3_def lfd_def [symmetric] move_bit_eq
      member_without_fields local_req_Suc without_insert)

text \<open>What the scan does not look at in the table.\<close>

definition same_keys :: "fd_table_t list \<Rightarrow> fd_table_t list \<Rightarrow> bool" where
  "same_keys t t' \<longleftrightarrow> map (\<lambda>e. (permanent e, vfs_index e, local_fd e)) t = map (\<lambda>e. (permanent e, vfs_index e, local_fd e)) t'"

lemma same_keysD:
  assumes "same_keys t t'"
  shows "length t' = length t"
    and "fd < length t \<Longrightarrow> permanent (t' ! fd) = permanent (t ! fd)"
    and "fd < length t \<Longrightarrow> vfs_index (t' ! fd) = vfs_index (t ! fd)"
    and "fd < length t \<Longrightarrow> local_fd (t' ! fd) = local_fd (t ! fd)"
proof -
  from assms have eq: "map (\<lambda>e. (permanent e, vfs_index e, local_fd e)) t = map (\<lambda>e. (permanent e, vfs_index e, local_fd e)) t'"
    by (simp add: same_keys_def)
  show len: "length t' = length t" using map_eq_imp_length_eq [OF eq] by simp
  assume "fd < length t"
  with arg_cong [OF eq, of "\<lambda>xs. xs ! fd"] len
  have "(permanent (t ! fd), vfs_index (t ! fd), local_fd (t ! fd)) = (permanent (t' ! fd), vfs_index (t' ! fd), local_fd (t' ! fd))"
    by simp
  then show "permanent (t' ! fd) = permanent (t ! fd)" and "vfs_index (t' ! fd) = vfs_index (t ! fd)"
    and "local_fd (t' ! fd) = local_fd (t ! fd)" by auto
qed

lemma same_keys_mark: "same_keys (s_fd_table s) (s_fd_table (mark_pending_select fd s))"
  by (cases "fd < length (s_fd_table s)")
    (auto simp: same_keys_def mark_pending_select_def nth_list_update list_update_beyond intro!: nth_equalityI)

lemma same_keys_trans: "same_keys t u \<Longrightarrow> same_keys u v \<Longrightarrow> same_keys t v"
  by (simp add: same_keys_def)

definition scan_start :: "'w vfs_state \<Rightarrow> user_fds \<Rightarrow> 'w sel_scan" where
  "scan_start s u = \<lparr>sc_state = s, sc_user = u,
     sc_triples = replicate (s_vfs_count s) \<lparr>isset = False, t_sets = ({}, {}, {})\<rparr>,
     sc_socket = None, sc_sem = 0\<rparr>"

text \<open>What the scan of the first \<open>n\<close> descriptors leaves, when none of them is a requested socket.\<close>

definition scanned :: "'w vfs_state \<Rightarrow> user_fds \<Rightarrow> nat \<Rightarrow> 'w sel_scan \<Rightarrow> bool" where
  "scanned s u n c \<longleftrightarrow>
     sc_user c = minus_fds (moved (s_fd_table s) n) u \<and>
     sc_triples c = map (\<lambda>i. req_triple (local_req3 (s_fd_table s) n u (int i))) [0..<s_vfs_count s] \<and>
     sc_socket c = None \<and> sc_sem c = 0 \<and> same_keys (s_fd_table s) (s_fd_table (sc_state c)) \<and>
     s_vfs (sc_state c) = s_vfs s \<and> s_vfs_count (sc_state c) = s_vfs_count s \<and>
     semaphores (sc_state c) = semaphores s \<and> vfs_env (sc_state c) = vfs_env s"

text \<open>
  The conditions of a call without sockets: the local descriptors fit a set, and a socket is not
  requested.
\<close>

definition plain_select :: "'w vfs_state \<Rightarrow> user_fds \<Rightarrow> bool" where
  "plain_select s u \<longleftrightarrow>
     (\<forall>fd<MAX_FDS s. vfs_index (s_fd_table s ! fd) \<noteq> -1 \<longrightarrow>
        lfd (s_fd_table s) fd < 64 \<and>
        (permanent (s_fd_table s ! fd) \<longrightarrow>
           \<not> member fd (readfds u) \<and> \<not> member fd (writefds u) \<and> \<not> member fd (errorfds u)))"

lemma scanned_start: "scanned s u 0 (scan_start s u)"
proof -
  have "map_option (\<lambda>s. s) g = g" for g :: "fd_set option" by (cases g) auto
  then show ?thesis
    by (auto simp: scanned_def scan_start_def minus_fds_def moved_def same_keys_def req_triple_def
        local_req3_def local_req_def of_vfs_def map_replicate_const)
qed

lemma moved_Suc:
  "moved t (Suc n) = (if 0 \<le> vfs_index (t ! n) \<and> \<not> permanent (t ! n) then insert n (moved t n) else moved t n)"
  by (auto simp: moved_def less_Suc_eq)

lemma local_req3_other:
  "vfs_index (t ! n) \<noteq> i \<or> permanent (t ! n) \<Longrightarrow> local_req3 t (Suc n) u i = local_req3 t n u i"
  by (auto simp: local_req3_def local_req_Suc)

lemma scanned_skip:
  assumes "scanned s u n c" and "vfs_index (s_fd_table s ! n) < 0 \<or> permanent (s_fd_table s ! n)"
  shows "scanned s u (Suc n) c"
proof -
  have "local_req3 (s_fd_table s) (Suc n) u (int i) = local_req3 (s_fd_table s) n u (int i)" for i
    using assms(2) by (intro local_req3_other) auto
  with assms show ?thesis by (auto simp: scanned_def moved_Suc)
qed

lemma scanned_move:
  assumes sc: "scanned s u n c" and j: "vfs_index (s_fd_table s ! n) = int j" "\<not> permanent (s_fd_table s ! n)"
    and "j < s_vfs_count s" and "n < 64" and "lfd (s_fd_table s) n < 64"
  shows "\<exists>c'. scan_entry n (s_fd_table s ! n) c = Some c' \<and> scanned s u (Suc n) c'"
proof -
  let ?t = "s_fd_table s"
  have item: "sc_triples c ! j = req_triple (local_req3 ?t n u (int j))" and len: "length (sc_triples c) = s_vfs_count s"
    and user: "sc_user c = minus_fds (moved ?t n) u"
    using sc assms(4) by (simp_all add: scanned_def)
  have "n \<notin> moved ?t n" by (simp add: moved_def)
  with move_bits_req [OF assms(5,6) j(1,2)] have mv: "move_bits n (unat (local_fd (?t ! n))) (sc_user c) (sc_triples c ! j) =
      Some (minus_fds (moved ?t (Suc n)) u, req_triple (local_req3 ?t (Suc n) u (int j)))"
    by (simp add: item user moved_Suc j)
  define c' where "c' = c\<lparr>sc_user := minus_fds (moved ?t (Suc n)) u,
      sc_triples := (sc_triples c)[j := req_triple (local_req3 ?t (Suc n) u (int j))]\<rparr>"
  have "scan_entry n (?t ! n) c = Some c'"
    using mv assms(4) len by (simp add: scan_entry_def j c'_def)
  moreover have "(sc_triples c)[j := req_triple (local_req3 ?t (Suc n) u (int j))] =
      map (\<lambda>i. req_triple (local_req3 ?t (Suc n) u (int i))) [0..<s_vfs_count s]"
  proof (rule nth_equalityI)
    fix i assume "i < length ((sc_triples c)[j := req_triple (local_req3 ?t (Suc n) u (int j))])"
    with len sc show "(sc_triples c)[j := req_triple (local_req3 ?t (Suc n) u (int j))] ! i =
        map (\<lambda>i. req_triple (local_req3 ?t (Suc n) u (int i))) [0..<s_vfs_count s] ! i"
      using local_req3_other [of ?t n "int i" u] j by (cases "i = j") (auto simp: scanned_def)
  qed (simp add: len)
  ultimately show ?thesis using sc by (auto simp: scanned_def c'_def)
qed

lemma scanned_mark:
  assumes "scanned s u n c"
  shows "scanned s u n (c\<lparr>sc_state := mark_pending_select fd (sc_state c)\<rparr>)"
  using assms same_keys_trans [OF _ same_keys_mark] by (auto simp: scanned_def) (simp add: mark_pending_select_def)

lemma scan_entry_key:
  "vfs_index e = vfs_index e' \<Longrightarrow> permanent e = permanent e' \<Longrightarrow> local_fd e = local_fd e' \<Longrightarrow>
   scan_entry fd e c = scan_entry fd e' c"
  by (simp add: scan_entry_def)

lemma is_requested_eq:
  "fd < 64 \<Longrightarrow> is_requested fd u = Some (member fd (readfds u) \<or> member fd (writefds u) \<or> member fd (errorfds u))"
  by (simp add: is_requested_def esp_vfs_safe_fd_isset_member)

lemma scan_fd_scanned:
  assumes wf: "vfs_wf s" and plain: "plain_select s u" and "n < 64" and sc: "scanned s u n c"
  shows "\<exists>c'. scan_fd n c = Some c' \<and> scanned s u (Suc n) c'"
proof -
  let ?t = "s_fd_table s"
  define d where "d = (if member n (errorfds (sc_user c)) then c\<lparr>sc_state := mark_pending_select n (sc_state c)\<rparr> else c)"
  have d: "scanned s u n d" using sc scanned_mark [OF sc, of n] by (simp add: d_def)
  have keys: "same_keys ?t (s_fd_table (sc_state c))" using sc by (simp add: scanned_def)
  have n: "n < length ?t" using assms(3) vfs_wfD(5) [OF wf] by simp
  have run: "scan_fd n c = scan_entry n (?t ! n) d"
    using same_keysD(2-4) [OF keys n] assms(3)
    by (auto simp: scan_fd_def d_def esp_vfs_safe_fd_isset_member intro: scan_entry_key)
  note idx = fds_ok_nth [OF vfs_wfD(2) [OF wf] n]
  consider "vfs_index (?t ! n) < 0" | "0 \<le> vfs_index (?t ! n)" "permanent (?t ! n)"
    | j where "vfs_index (?t ! n) = int j" "\<not> permanent (?t ! n)"
    by (metis linorder_not_le nonneg_int_cases)
  then show ?thesis
  proof cases
    case 1
    then show ?thesis using run scanned_skip [OF d] by (simp add: scan_entry_def)
  next
    case 2
    have "n \<notin> moved ?t n" by (simp add: moved_def)
    with 2 plain n d have "is_requested n (sc_user d) = Some False"
      by (simp add: is_requested_eq assms(3) scanned_def plain_select_def member_without_fields)
    then have "scan_socket n (vfs_index (?t ! n)) d = Some d"
      using d by (simp add: scan_socket_def scanned_def)
    then show ?thesis using run 2 scanned_skip [OF d] by (simp add: scan_entry_def)
  next
    case (3 j)
    then show ?thesis
      using run scanned_move [OF d 3] idx plain n assms(3) by (simp add: plain_select_def)
  qed
qed

lemma scan_fds_append: "scan_fds (xs @ ys) c = Option.bind (scan_fds xs c) (scan_fds ys)"
proof (induction xs arbitrary: c)
  case (Cons x xs)
  then show ?case by (cases "scan_fd x c") simp_all
qed simp

lemma scan_fds_scanned:
  assumes "vfs_wf s" and "plain_select s u" and "n \<le> 64"
  shows "\<exists>c. scan_fds [0..<n] (scan_start s u) = Some c \<and> scanned s u n c"
  using assms(3)
proof (induction n)
  case (Suc n)
  then obtain c where "scan_fds [0..<n] (scan_start s u) = Some c" "scanned s u n c" by auto
  with scan_fd_scanned [OF assms(1,2), of n c] Suc.prems show ?case by (auto simp: scan_fds_append)
qed (simp add: scanned_start)

subsection \<open>From the sets of the file systems to the caller's sets\<close>

definition add_fds :: "user_fds \<Rightarrow> fd_sets3 \<Rightarrow> user_fds" where
  "add_fds u X = (case X of (R, W, E) \<Rightarrow>
     \<lparr>readfds = map_option (\<lambda>s. s \<union> R) (readfds u), writefds = map_option (\<lambda>s. s \<union> W) (writefds u),
      errorfds = map_option (\<lambda>s. s \<union> E) (errorfds u)\<rparr>)"

definition bits :: "fd_set option \<Rightarrow> nat set \<Rightarrow> int" where
  "bits g X = (if g = None then 0 else int (card X))"

definition count_fds :: "user_fds \<Rightarrow> fd_sets3 \<Rightarrow> int" where
  "count_fds u X = (case X of (R, W, E) \<Rightarrow> bits (readfds u) R + bits (writefds u) W + bits (errorfds u) E)"

definition union3 :: "fd_sets3 \<Rightarrow> fd_sets3 \<Rightarrow> fd_sets3" where
  "union3 X Y = (case (X, Y) of ((a, b, c), (d, e, f)) \<Rightarrow> (a \<union> d, b \<union> e, c \<union> f))"

definition disj3 :: "fd_sets3 \<Rightarrow> fd_sets3 \<Rightarrow> bool" where
  "disj3 X Y \<longleftrightarrow> (case (X, Y) of ((a, b, c), (d, e, f)) \<Rightarrow> a \<inter> d = {} \<and> b \<inter> e = {} \<and> c \<inter> f = {} \<and>
     finite a \<and> finite b \<and> finite c \<and> finite d \<and> finite e \<and> finite f)"

lemma add_fds_add_fds: "add_fds (add_fds u X) Y = add_fds u (union3 X Y)"
  by (auto simp: add_fds_def union3_def option.map_comp comp_def Un_assoc split: prod.splits)

lemma count_fds_add: "count_fds (add_fds u X) Y = count_fds u Y"
  by (auto simp: add_fds_def count_fds_def bits_def split: prod.splits)

lemma count_fds_union: "disj3 X Y \<Longrightarrow> count_fds u (union3 X Y) = count_fds u X + count_fds u Y"
  by (auto simp: count_fds_def union3_def bits_def disj3_def card_Un_disjoint split: prod.splits)

lemma map_option_Un_empty: "map_option (\<lambda>s. s \<union> {}) g = g" "map_option (\<lambda>s. s) g = g"
  by (cases g; simp)+

lemma add_fds_empty [simp]: "add_fds u ({}, {}, {}) = u" "count_fds u ({}, {}, {}) = 0"
  by (simp_all add: add_fds_def count_fds_def bits_def map_option_Un_empty)

lemma union3_empty [simp]: "union3 ({}, {}, {}) X = X" "union3 X ({}, {}, {}) = X"
  by (simp_all add: union3_def split: prod.splits)

lemma give_bit_eq:
  assumes "fd < 64" and "l < 64"
  shows "give_bit fd l g ls =
    Some (map_option (\<lambda>s. s \<union> (if l \<in> ls then {fd} else {})) g, bits g (if l \<in> ls then {fd} else {}))"
  using assms
  by (cases g) (auto simp: give_bit_def esp_vfs_safe_fd_isset_def FD_ISSET_def FD_SET_def FD_SETSIZE_def bits_def)

definition one_bit :: "nat \<Rightarrow> nat \<Rightarrow> fd_sets3 \<Rightarrow> fd_sets3" where
  "one_bit fd l ts = (case ts of (r, w, e) \<Rightarrow>
     (if l \<in> r then {fd} else {}, if l \<in> w then {fd} else {}, if l \<in> e then {fd} else {}))"

lemma give_bits_eq:
  "fd < 64 \<Longrightarrow> l < 64 \<Longrightarrow> give_bits fd l ts u = Some (add_fds u (one_bit fd l ts), count_fds u (one_bit fd l ts))"
  by (auto simp: give_bits_def give_bit_eq add_fds_def one_bit_def count_fds_def split: prod.splits)

text \<open>The descriptors that one file system reports, from position \<open>fd\<close> of the table on.\<close>

definition hits :: "int \<Rightarrow> fd_set \<Rightarrow> nat \<Rightarrow> fd_table_t list \<Rightarrow> nat set" where
  "hits i ls fd es = {f. fd \<le> f \<and> f < fd + length es \<and> vfs_index (es ! (f - fd)) = i \<and>
      unat (local_fd (es ! (f - fd))) \<in> ls}"

definition hits3 :: "int \<Rightarrow> fd_sets3 \<Rightarrow> nat \<Rightarrow> fd_table_t list \<Rightarrow> fd_sets3" where
  "hits3 i ts fd es = (case ts of (r, w, e) \<Rightarrow> (hits i r fd es, hits i w fd es, hits i e fd es))"

lemma finite_hits [simp]: "finite (hits i ls fd es)"
  by (rule finite_subset [of _ "{..<fd + length es}"]) (auto simp: hits_def)

lemma hits_Nil [simp]: "hits i ls fd [] = {}"
  by (auto simp: hits_def)

lemma hits_Cons:
  "hits i ls fd (e # es) =
     (if vfs_index e = i \<and> unat (local_fd e) \<in> ls then {fd} else {}) \<union> hits i ls (Suc fd) es" (is "?l = ?r")
proof -
  have "f \<in> ?l \<longleftrightarrow> f \<in> ?r" for f
    by (cases "f = fd") (auto simp: hits_def nth_Cons' Suc_diff_Suc dest!: Suc_leI)
  then show ?thesis by blast
qed

lemma hits3_Cons:
  "hits3 i ts fd (e # es) =
     (if vfs_index e = i then union3 (one_bit fd (unat (local_fd e)) ts) (hits3 i ts (Suc fd) es)
      else hits3 i ts (Suc fd) es)"
  by (simp add: hits3_def hits_Cons union3_def one_bit_def split: prod.splits)

lemma hits3_disj: "disj3 (one_bit fd l ts) (hits3 i ts (Suc fd) es)"
  by (auto simp: disj3_def one_bit_def hits3_def hits_def split: prod.splits)

lemma give_fds_eq:
  assumes "\<forall>e\<in>set es. vfs_index e = i \<longrightarrow> unat (local_fd e) < 64" and "fd + length es \<le> 64"
  shows "give_fds i ts fd es (u, n) = Some (add_fds u (hits3 i ts fd es), n + count_fds u (hits3 i ts fd es))"
  using assms
proof (induction es arbitrary: fd u n)
  case Nil
  show ?case by (simp add: hits3_def split: prod.splits)
next
  case (Cons e es)
  show ?case
  proof (cases "vfs_index e = i")
    case True
    with Cons.prems have "give_bits fd (unat (local_fd e)) ts u =
        Some (add_fds u (one_bit fd (unat (local_fd e)) ts), count_fds u (one_bit fd (unat (local_fd e)) ts))"
      by (intro give_bits_eq) auto
    with True Cons.IH [of "Suc fd"] Cons.prems show ?thesis
      by (simp add: hits3_Cons add_fds_add_fds count_fds_add count_fds_union [OF hits3_disj])
  qed (use Cons in \<open>simp add: hits3_Cons\<close>)
qed

definition sel3 :: "nat \<Rightarrow> fd_sets3 \<Rightarrow> fd_set" where
  "sel3 k ts = (if k = 0 then fst ts else if k = 1 then fst (snd ts) else snd (snd ts))"

text \<open>
  The descriptors reported by the file systems from number \<open>i\<close> on, for the read, write or error
  set.
\<close>

definition reported :: "fd_table_t list \<Rightarrow> int \<Rightarrow> fds_triple_t list \<Rightarrow> nat \<Rightarrow> nat set" where
  "reported t i items k = {fd. fd < length t \<and> i \<le> vfs_index (t ! fd) \<and>
     vfs_index (t ! fd) < i + int (length items) \<and> isset (items ! nat (vfs_index (t ! fd) - i)) \<and>
     lfd t fd \<in> sel3 k (t_sets (items ! nat (vfs_index (t ! fd) - i)))}"

definition reported3 :: "fd_table_t list \<Rightarrow> int \<Rightarrow> fds_triple_t list \<Rightarrow> fd_sets3" where
  "reported3 t i items = (reported t i items 0, reported t i items 1, reported t i items 2)"

lemma reported_Nil: "reported t i [] k = {}"
  by (auto simp: reported_def)

lemma reported_Cons:
  "reported t i (item # items) k =
     (if isset item then hits i (sel3 k (t_sets item)) 0 t else {}) \<union> reported t (i + 1) items k" (is "?l = ?r")
proof -
  have "fd \<in> ?l \<longleftrightarrow> fd \<in> ?r" for fd
  proof (cases "vfs_index (t ! fd) = i")
    case True
    then show ?thesis by (auto simp: reported_def hits_def lfd_def)
  next
    case False
    have "i \<le> x \<longleftrightarrow> i + 1 \<le> x" and "nat (x - i) = Suc (nat (x - (i + 1)))" if "i < x" for x :: int
      using that by auto
    with False show ?thesis
      by (cases "i < vfs_index (t ! fd)") (auto simp: reported_def hits_def)
  qed
  then show ?thesis by blast
qed

lemma finite_reported [simp]: "finite (reported t i items k)"
  by (rule finite_subset [of _ "{..<length t}"]) (auto simp: reported_def)

lemma reported3_Cons:
  "reported3 t i (item # items) =
     (if isset item then union3 (hits3 i (t_sets item) 0 t) (reported3 t (i + 1) items) else reported3 t (i + 1) items)"
  by (cases "t_sets item") (simp add: reported3_def reported_Cons hits3_def union3_def sel3_def)

lemma hits_reported_disj: "hits i ls 0 t \<inter> reported t (i + 1) items k = {}"
  by (auto simp: hits_def reported_def)

lemma hits3_reported3_disj: "disj3 (hits3 i ts 0 t) (reported3 t (i + 1) items)"
  by (simp add: disj3_def hits3_def reported3_def hits_reported_disj split: prod.splits)

lemma set_global_fd_sets_from_eq:
  assumes "\<forall>e\<in>set t. 0 \<le> vfs_index e \<longrightarrow> unat (local_fd e) < 64" and "length t \<le> 64" and "0 \<le> i"
  shows "set_global_fd_sets_from t i items (u, n) =
    Some (add_fds u (reported3 t i items), n + count_fds u (reported3 t i items))"
  using assms(3)
proof (induction items arbitrary: i u n)
  case Nil
  show ?case by (simp add: reported3_def reported_Nil)
next
  case (Cons item items)
  have "give_fds i (t_sets item) 0 t (u, n) =
      Some (add_fds u (hits3 i (t_sets item) 0 t), n + count_fds u (hits3 i (t_sets item) 0 t))"
    using assms(1,2) Cons.prems by (intro give_fds_eq) auto
  with Cons show ?case
    by (simp add: reported3_Cons add_fds_add_fds count_fds_add count_fds_union [OF hits3_reported3_disj])
qed

lemma set_global_fd_sets_eq:
  assumes "\<forall>e\<in>set (s_fd_table s). 0 \<le> vfs_index e \<longrightarrow> unat (local_fd e) < 64" and "MAX_FDS s \<le> 64"
  shows "set_global_fd_sets items u s =
    Some (count_fds u (reported3 (s_fd_table s) 0 items), add_fds u (reported3 (s_fd_table s) 0 items))"
  using set_global_fd_sets_from_eq [OF assms, of 0] by (simp add: set_global_fd_sets_def)

subsection \<open>Drivers that answer\<close>

text \<open>
  Drivers that start without an error and do not write their sets when they end. During the wait
  they store in the set of file system \<open>i\<close> those of the requested local descriptors that are ready.
\<close>

definition drivers_ok :: "'w vfs_state \<Rightarrow> bool" where
  "drivers_ok s \<longleftrightarrow> (\<forall>v. Some v \<in> set (s_vfs s) \<longrightarrow>
     (case start_select (vfs v) of None \<Rightarrow> True | Some f \<Rightarrow> \<forall>n ts sm w. fst (f n ts sm w) = ESP_OK) \<and>
     (case end_select (vfs v) of None \<Rightarrow> True | Some f \<Rightarrow> \<forall>a ts w. fst (snd (f a ts w)) = ts))"

definition inter3 :: "fd_sets3 \<Rightarrow> fd_sets3 \<Rightarrow> fd_sets3" where
  "inter3 X Y = (case (X, Y) of ((a, b, c), (d, e, f)) \<Rightarrow> (a \<inter> d, b \<inter> e, c \<inter> f))"

lemma get_vfs_for_index_mem:
  assumes "slots_ok (s_vfs s) (s_vfs_count s)" and "get_vfs_for_index i s = Some v"
  shows "Some v \<in> set (s_vfs s)"
proof -
  from assms have "nat i < length (s_vfs s)" and "s_vfs s ! nat i = Some v"
    by (auto simp: get_vfs_for_index_def slots_ok_def split: if_splits)
  then show ?thesis by (metis nth_mem)
qed

lemma drivers_ok_start:
  assumes "drivers_ok s" and "vfs_wf s" and "call_start_select n sm i item s = (err, item', arg, s')"
  shows "err = ESP_OK"
proof (cases "get_vfs_for_index (int i) s")
  case (Some v)
  then have "Some v \<in> set (s_vfs s)" using get_vfs_for_index_mem [OF vfs_wfD(1) [OF assms(2)]] by blast
  with assms(1) have st: "case start_select (vfs v) of None \<Rightarrow> True | Some f \<Rightarrow> \<forall>n ts sm w. fst (f n ts sm w) = ESP_OK"
    by (simp add: drivers_ok_def)
  show ?thesis
  proof (cases "start_select (vfs v)")
    case (Some f)
    with st have "fst (f n (t_sets item) sm (vfs_env s)) = ESP_OK" by (cases "t_sets item") simp
    with \<open>get_vfs_for_index (int i) s = Some v\<close> Some assms(3) show ?thesis
      by (auto simp: call_start_select_def case_prod_beta split: if_splits)
  qed (use Some assms(3) in \<open>simp add: call_start_select_def\<close>)
qed (use assms(3) in \<open>simp add: call_start_select_def\<close>)

lemma drivers_ok_tables: "same_tables s s' \<Longrightarrow> drivers_ok s' = drivers_ok s"
  by (simp add: same_tables_def drivers_ok_def)

lemma start_selects_ok:
  "drivers_ok s \<Longrightarrow> vfs_wf s \<Longrightarrow> start_selects n sm i items s = (failed, items', args, s') \<Longrightarrow> failed = None"
proof (induction items arbitrary: i s failed items' args s')
  case (Cons item items)
  obtain err it arg t where t: "call_start_select n sm i item s = (err, it, arg, t)" by (rule prod_cases4)
  obtain f its ags v where v: "start_selects n sm (Suc i) items t = (f, its, ags, v)" by (rule prod_cases4)
  have ok: "err = ESP_OK" using drivers_ok_start [OF Cons.prems(1,2) t] .
  have st: "same_tables s t" using call_start_select_tables [OF t] by blast
  from Cons.prems(1,2) have "f = None"
    by (intro Cons.IH [OF _ _ v]) (simp_all add: drivers_ok_tables [OF st] vfs_wf_tables [OF st])
  with Cons.prems(3) t v ok show ?case by simp
qed simp

lemma drivers_ok_end:
  assumes "drivers_ok s" and "vfs_wf s"
  shows "fst (call_end_select i arg item s) = item"
proof (cases "get_vfs_for_index (int i) s")
  case (Some v)
  then have "Some v \<in> set (s_vfs s)" using get_vfs_for_index_mem [OF vfs_wfD(1) [OF assms(2)]] by blast
  with assms(1) have st: "case end_select (vfs v) of None \<Rightarrow> True | Some f \<Rightarrow> \<forall>a ts w. fst (snd (f a ts w)) = ts"
    by (simp add: drivers_ok_def)
  show ?thesis
  proof (cases "end_select (vfs v)")
    case (Some f)
    with st have "fst (snd (f arg (t_sets item) (vfs_env s))) = t_sets item" by (cases "t_sets item") simp
    with \<open>get_vfs_for_index (int i) s = Some v\<close> Some show ?thesis
      by (cases item) (simp add: call_end_select_def case_prod_beta)
  qed (use Some in \<open>simp add: call_end_select_def\<close>)
qed (simp add: call_end_select_def)

lemma call_end_selects_from_ok:
  "drivers_ok s \<Longrightarrow> vfs_wf s \<Longrightarrow> fst (call_end_selects_from i args items s) = items"
proof (induction i args items s rule: call_end_selects_from.induct)
  case (1 i arg args item items s)
  obtain it t where t: "call_end_select i arg item s = (it, t)" by fastforce
  have "it = item" using drivers_ok_end [OF "1.prems", of i arg item] t by simp
  moreover have "same_tables s t" using call_end_select_tables [OF t] by blast
  then have "fst (call_end_selects_from (Suc i) args items t) = items"
    using "1.prems" by (intro "1.IH" [OF t [symmetric] refl]) (simp_all add: drivers_ok_tables vfs_wf_tables)
  ultimately show ?case using t by (simp add: case_prod_beta)
qed simp_all

lemma call_end_selects_ok:
  "drivers_ok s \<Longrightarrow> vfs_wf s \<Longrightarrow> fst (call_end_selects n items args s) = items"
  by (simp add: call_end_selects_def case_prod_beta call_end_selects_from_ok)

definition distinct_fds :: "'w vfs_state \<Rightarrow> bool" where
  "distinct_fds s \<longleftrightarrow> (\<forall>a<MAX_FDS s. \<forall>b<MAX_FDS s. 0 \<le> vfs_index (s_fd_table s ! a) \<longrightarrow>
     vfs_index (s_fd_table s ! a) = vfs_index (s_fd_table s ! b) \<longrightarrow>
     local_fd (s_fd_table s ! a) = local_fd (s_fd_table s ! b) \<longrightarrow> a = b)"

text \<open>The requested descriptors of a set that are ready.\<close>

definition ready_fds :: "(nat \<Rightarrow> fd_sets3) \<Rightarrow> nat \<Rightarrow> nat \<Rightarrow> fd_set option \<Rightarrow> 'w vfs_state \<Rightarrow> nat set" where
  "ready_fds ready n k g s = {fd. fd < n \<and> member fd g \<and> 0 \<le> vfs_index (s_fd_table s ! fd) \<and>
     \<not> permanent (s_fd_table s ! fd) \<and>
     lfd (s_fd_table s) fd \<in> sel3 k (ready (nat (vfs_index (s_fd_table s ! fd))))}"

text \<open>
  The descriptors that a set reports: also those that stand for the same local descriptor of the same
  file system as a requested descriptor that is ready.
\<close>

definition reported_fds :: "(nat \<Rightarrow> fd_sets3) \<Rightarrow> nat \<Rightarrow> nat \<Rightarrow> fd_set option \<Rightarrow> 'w vfs_state \<Rightarrow> nat set" where
  "reported_fds ready n k g s = {fd. fd < MAX_FDS s \<and> (\<exists>f \<in> ready_fds ready n k g s.
     vfs_index (s_fd_table s ! f) = vfs_index (s_fd_table s ! fd) \<and>
     local_fd (s_fd_table s ! f) = local_fd (s_fd_table s ! fd))}"

definition reported_fds3 :: "(nat \<Rightarrow> fd_sets3) \<Rightarrow> nat \<Rightarrow> user_fds \<Rightarrow> 'w vfs_state \<Rightarrow> fd_sets3" where
  "reported_fds3 ready n u s = (reported_fds ready n 0 (readfds u) s, reported_fds ready n 1 (writefds u) s,
                                reported_fds ready n 2 (errorfds u) s)"

lemma ready_reported: "n \<le> MAX_FDS s \<Longrightarrow> ready_fds ready n k g s \<subseteq> reported_fds ready n k g s"
  by (auto simp: reported_fds_def) (simp add: ready_fds_def)

lemma reported_distinct:
  assumes "distinct_fds s" and "n \<le> MAX_FDS s"
  shows "reported_fds ready n k g s = ready_fds ready n k g s"
proof
  show "reported_fds ready n k g s \<subseteq> ready_fds ready n k g s"
  proof
    fix fd assume "fd \<in> reported_fds ready n k g s"
    then obtain f where f: "f \<in> ready_fds ready n k g s" "fd < MAX_FDS s"
        "vfs_index (s_fd_table s ! f) = vfs_index (s_fd_table s ! fd)"
        "local_fd (s_fd_table s ! f) = local_fd (s_fd_table s ! fd)" by (auto simp: reported_fds_def)
    moreover have "f < MAX_FDS s" "0 \<le> vfs_index (s_fd_table s ! f)" using f(1) assms(2) by (auto simp: ready_fds_def)
    ultimately have "f = fd" using assms(1) unfolding distinct_fds_def by blast
    then show "fd \<in> ready_fds ready n k g s" using f(1) by simp
  qed
qed (rule ready_reported [OF assms(2)])

definition answers :: "(nat \<Rightarrow> fd_sets3) \<Rightarrow> nat \<Rightarrow> user_fds \<Rightarrow> 'w vfs_state \<Rightarrow> nat \<Rightarrow> fd_sets3" where
  "answers ready n u s i = inter3 (ready i) (local_req3 (s_fd_table s) n u (int i))"

lemma local_req_alias:
  "lfd t fd \<in> local_req t n g (vfs_index (t ! fd)) \<longleftrightarrow>
    (\<exists>f < n. vfs_index (t ! f) = vfs_index (t ! fd) \<and> local_fd (t ! f) = local_fd (t ! fd) \<and>
       \<not> permanent (t ! f) \<and> member f g)"
  by (fastforce simp: local_req_def of_vfs_def lfd_def image_iff word_unat_eq_iff)

lemma sel3_simps [simp]: "sel3 0 (a, b, c) = a" "sel3 1 (a, b, c) = b" "sel3 (Suc 0) (a, b, c) = b" "sel3 2 (a, b, c) = c"
  by (simp_all add: sel3_def)

lemma sel3_inter3: "sel3 k (inter3 X Y) = sel3 k X \<inter> sel3 k Y"
  by (simp add: sel3_def inter3_def split: prod.splits)

definition user_set :: "nat \<Rightarrow> user_fds \<Rightarrow> fd_set option" where
  "user_set k u = (if k = 0 then readfds u else if k = 1 then writefds u else errorfds u)"

lemma sel3_local_req3: "sel3 k (local_req3 t n u i) = local_req t n (user_set k u) i"
  by (simp add: sel3_def local_req3_def user_set_def)

lemma sel3_nonempty: "x \<in> sel3 k ts \<Longrightarrow> ts \<noteq> ({}, {}, {})"
  by (auto simp: sel3_def split: if_splits)

text \<open>The sets of the file systems after the wait.\<close>

definition answered :: "(nat \<Rightarrow> fd_sets3) \<Rightarrow> nat \<Rightarrow> user_fds \<Rightarrow> 'w vfs_state \<Rightarrow> fds_triple_t list" where
  "answered ready n u s =
     map (\<lambda>i. \<lparr>isset = (local_req3 (s_fd_table s) n u (int i) \<noteq> ({}, {}, {})), t_sets = answers ready n u s i\<rparr>)
       [0..<s_vfs_count s]"

lemma reported_answered:
  assumes "vfs_wf s"
  shows "reported (s_fd_table s) 0 (answered ready n u s) k = reported_fds ready n k (user_set k u) s" (is "?l = ?r")
proof -
  let ?t = "s_fd_table s"
  have "fd \<in> ?l \<longleftrightarrow> fd \<in> ?r" for fd
  proof (cases "fd < MAX_FDS s \<and> 0 \<le> vfs_index (?t ! fd)")
    case True
    define j where "j = nat (vfs_index (?t ! fd))"
    have j: "vfs_index (?t ! fd) = int j" using True by (simp add: j_def)
    have less: "j < s_vfs_count s"
      using fds_ok_nth [OF vfs_wfD(2) [OF assms(1)], of fd] True j by simp
    have "fd \<in> ?l \<longleftrightarrow> lfd ?t fd \<in> sel3 k (answers ready n u s j) \<and>
        local_req3 ?t n u (int j) \<noteq> ({}, {}, {})"
      using True less by (auto simp: reported_def answered_def j)
    also have "\<dots> \<longleftrightarrow> lfd ?t fd \<in> sel3 k (ready j) \<and> lfd ?t fd \<in> sel3 k (local_req3 ?t n u (int j))"
      using sel3_nonempty [of _ k "local_req3 ?t n u (int j)"]
      by (auto simp: answers_def sel3_inter3)
    also have "\<dots> \<longleftrightarrow> fd \<in> ?r"
      using True local_req_alias [of ?t fd n "user_set k u"]
      by (auto simp: sel3_local_req3 ready_fds_def reported_fds_def lfd_def j)
    finally show ?thesis .
  next
    case False
    then show ?thesis by (auto simp: reported_def reported_fds_def ready_fds_def)
  qed
  then show ?thesis by blast
qed

lemma reported3_answered:
  "vfs_wf s \<Longrightarrow> reported3 (s_fd_table s) 0 (answered ready n u s) = reported_fds3 ready n u s"
  using reported_answered [of s ready n u 0] reported_answered [of s ready n u 1] reported_answered [of s ready n u 2]
  by (simp add: reported3_def reported_fds3_def user_set_def)

lemma written_sets_answered:
  assumes "map isset ts = map isset (map (\<lambda>i. req_triple (local_req3 (s_fd_table s) n u (int i))) [0..<s_vfs_count s])"
  shows "written_sets (answers ready n u s) ts = answered ready n u s"
proof (rule nth_equalityI)
  have len: "length ts = s_vfs_count s" using map_eq_imp_length_eq [OF assms] by simp
  then show "length (written_sets (answers ready n u s) ts) = length (answered ready n u s)"
    by (simp add: written_sets_def answered_def)
  fix i assume "i < length (written_sets (answers ready n u s) ts)"
  then have i: "i < s_vfs_count s" using len by (simp add: written_sets_def)
  from arg_cong [OF assms, of "\<lambda>xs. xs ! i"] len i
  have "isset (ts ! i) = (local_req3 (s_fd_table s) n u (int i) \<noteq> ({}, {}, {}))" by (simp add: req_triple_def)
  with len i show "written_sets (answers ready n u s) ts ! i = answered ready n u s ! i"
    by (cases "ts ! i") (simp add: written_sets_def answered_def nth_enumerate_eq)
qed

lemma reported3_keys:
  assumes "same_keys t t'"
  shows "reported3 t' i items = reported3 t i items"
proof -
  have "reported t' i items k = reported t i items k" for k
    unfolding reported_def lfd_def using same_keysD [OF assms] by (intro Collect_cong) (metis (no_types, lifting))
  then show ?thesis by (simp add: reported3_def)
qed

lemma add_count_zero_fds:
  "add_fds (zero_fds (minus_fds X u)) Y =
     \<lparr>readfds = map_option (\<lambda>_. fst Y) (readfds u), writefds = map_option (\<lambda>_. fst (snd Y)) (writefds u),
      errorfds = map_option (\<lambda>_. snd (snd Y)) (errorfds u)\<rparr>"
  "count_fds (zero_fds (minus_fds X u)) Y = count_fds u Y"
  by (auto simp: add_fds_def zero_fds_def minus_fds_def count_fds_def bits_def option.map_comp comp_def split: prod.splits)

end
