(* ===== verification/Vfs_Spec.thy ===== *)
theory Vfs_Spec
  imports Vfs_Select_Sets
begin

section \<open>Properties of the virtual file system\<close>

text \<open>
  The claims about \<open>vfs/vfs.c\<close>: the tables stay well formed, a path goes to the file system with
  the longest prefix, open and close are inverse on the descriptor table, and \<open>select\<close> reports the
  descriptors that are ready; and the theorems behind the findings.
\<close>

subsection \<open>select\<close>

lemma written_nothing_lost:
  "scanned s u n c \<Longrightarrow> map isset ts = map isset (sc_triples c) \<Longrightarrow>
   written_sets (answers ready n u s) ts = answered ready n u s"
  by (intro written_sets_answered) (simp add: scanned_def)

lemma select_run:
  assumes "\<not> (nfds > int (MAX_FDS s) \<or> nfds < 0)" and "triples_ok al" and "sem_new al = Some sm"
    and "scan_fds [0..<nat nfds] (scan_start s u) = Some c" and "sc_socket c = None"
  shows "esp_vfs_select k al nfds u timeout s =
    (let s1 = (sc_state c)\<lparr>semaphores := sm # semaphores (sc_state c)\<rparr>; ss = \<lparr>is_sem_local = True, sem = sm\<rparr> in
     if \<not> args_ok al then Some (-1, sc_user c, s1\<lparr>vfs_errno := ENOMEM\<rparr>)
     else let (failed, triples, driver_args, s2) = start_selects nfds ss 0 (sc_triples c) s1 in
       case failed of
         Some (i, err) \<Rightarrow>
           let (triples, s3) = (if err \<noteq> ESP_ERR_NOT_SUPPORTED
                                then call_end_selects i triples driver_args s2 else (triples, s2))
           in do { (_, u) \<leftarrow> set_global_fd_sets triples (sc_user c) s3;
                   Some (-1, u, (delete_sem ss s3)\<lparr>vfs_errno := EINTR\<rparr>) }
       | None \<Rightarrow> select_finish k nfds timeout ss c triples driver_args s2)"
  using assms unfolding esp_vfs_select_def scan_start_def [symmetric] by (simp add: Let_def)

lemma plain_select_locals:
  assumes "vfs_wf s" and "plain_select s u" and "same_keys (s_fd_table s) (s_fd_table t)"
  shows "\<forall>e\<in>set (s_fd_table t). 0 \<le> vfs_index e \<longrightarrow> unat (local_fd e) < 64" and "MAX_FDS t = 64"
proof -
  note k = same_keysD [OF assms(3)]
  show "MAX_FDS t = 64" using k(1) vfs_wfD(5) [OF assms(1)] by simp
  show "\<forall>e\<in>set (s_fd_table t). 0 \<le> vfs_index e \<longrightarrow> unat (local_fd e) < 64"
    using assms(2) k unfolding plain_select_def lfd_def by (force simp: in_set_conv_nth)
qed

lemma select_finish_plain:
  assumes wf: "vfs_wf s" and plain: "plain_select s u" and n: "n \<le> 64"
    and sc: "scanned s u n c" and isset: "map isset ts = map isset (sc_triples c)"
    and others: "\<forall>w ts t. others k w ts t = (answers ready n u s, t)"
    and t: "vfs_wf t" "drivers_ok t" "same_keys (s_fd_table s) (s_fd_table t)"
    and sem: "semaphores t = sm # semaphores s" "sm \<noteq> 0"
  shows "\<exists>s'. select_finish k (int n) timeout \<lparr>is_sem_local = True, sem = sm\<rparr> c ts args t =
      Some (count_fds u (reported_fds3 ready n u s),
            \<lparr>readfds = map_option (\<lambda>_. reported_fds ready n 0 (readfds u) s) (readfds u),
             writefds = map_option (\<lambda>_. reported_fds ready n 1 (writefds u) s) (writefds u),
             errorfds = map_option (\<lambda>_. reported_fds ready n 2 (errorfds u) s) (errorfds u)\<rparr>, s') \<and>
      semaphores s' = semaphores s"
proof -
  have wait: "select_wait k (int n) timeout c ts t = (0, zero_fds (sc_user c), answered ready n u s, t)"
    using sc others written_nothing_lost [OF sc isset] by (simp add: select_wait_def scanned_def)
  obtain t2 where e: "call_end_selects (length (answered ready n u s)) (answered ready n u s) args t = (answered ready n u s, t2)"
    using call_end_selects_ok [OF t(2,1), of "length (answered ready n u s)" "answered ready n u s" args]
    by (metis prod.collapse)
  note e2 = call_end_selects_tables [OF e]
  have keys: "same_keys (s_fd_table s) (s_fd_table t2)" using t(3) e2(1) by (simp add: same_tables_def)
  have user: "sc_user c = minus_fds (moved (s_fd_table s) n) u" using sc by (simp add: scanned_def)
  have "reported3 (s_fd_table t2) 0 (answered ready n u s) = reported_fds3 ready n u s"
    using reported3_keys [OF keys] reported3_answered [OF wf] by simp
  then have "set_global_fd_sets (answered ready n u s) (zero_fds (sc_user c)) t2 =
      Some (count_fds u (reported_fds3 ready n u s),
            \<lparr>readfds = map_option (\<lambda>_. fst (reported_fds3 ready n u s)) (readfds u),
             writefds = map_option (\<lambda>_. fst (snd (reported_fds3 ready n u s))) (writefds u),
             errorfds = map_option (\<lambda>_. snd (snd (reported_fds3 ready n u s))) (errorfds u)\<rparr>)"
    using set_global_fd_sets_eq [OF plain_select_locals(1) [OF wf plain keys]] plain_select_locals(2) [OF wf plain keys]
    by (simp add: user add_count_zero_fds)
  then show ?thesis
    using wait e e2(2) sem by (simp add: select_finish_def Let_def delete_sem_def reported_fds3_def)
qed

subsection \<open>A driver and a mounted state for the witnesses\<close>

definition demo_driver :: "unit esp_vfs_t" where
  "demo_driver =
     \<lparr>vfs_flags = 0,
      vfs_fn = (\<lambda>m. if m = M_open then Some (\<lambda>_ _ e w. (3, e, w))
                    else if m = M_close then Some (\<lambda>_ _ e w. (0, e, w)) else None),
      start_select = Some (\<lambda>_ ts _ w. (ESP_OK, ts, 7, w)), socket_select = None,
      stop_socket_select = None, stop_socket_select_isr = None, get_socket_select_semaphore = None,
      end_select = Some (\<lambda>_ ts w. (ESP_OK, ts, w))\<rparr>"

definition demo_entry :: "unit vfs_entry_t" where
  "demo_entry = \<lparr>vfs_addr = 100, vfs = demo_driver, path_prefix = ''/dev'', path_prefix_len = 4, vfs_ctx = 0, offset = 0\<rparr>"

definition demo_mounted :: "unit vfs_state" where
  "demo_mounted = (vfs_initial 2 ())\<lparr>s_vfs := [Some demo_entry, None], s_vfs_count := 1\<rparr>"

definition demo_fd :: fd_table_t where
  "demo_fd = FD_TABLE_ENTRY_UNUSED\<lparr>vfs_index := 0, local_fd := 3\<rparr>"

definition demo_opened :: "unit vfs_state" where
  "demo_opened = demo_mounted\<lparr>s_fd_table := demo_fd # replicate 63 FD_TABLE_ENTRY_UNUSED\<rparr>"

lemma demo_mounted_eq: "esp_vfs_register (Some 100) ''/dev'' demo_driver 0 (vfs_initial 2 ()) = (ESP_OK, demo_mounted)"
  by (simp add: esp_vfs_register_def esp_vfs_register_common_def vfs_initial_def demo_mounted_def demo_entry_def
      LEN_PATH_PREFIX_IGNORED_def ESP_VFS_PATH_MAX_def replicate_numeral)

lemma demo_mounted_reach: "vfs_reach demo_mounted"
  by (rule vfs_reach.step [OF vfs_reach.start vfs_step.register [OF demo_mounted_eq]]) simp

lemma demo_found: "get_vfs_for_path ''/dev/tty'' demo_mounted = Some demo_entry"
  by (simp add: get_vfs_for_path_def path_turn_def demo_mounted_def demo_entry_def vfs_initial_def
      LEN_PATH_PREFIX_IGNORED_def)

lemma demo_opened_eq: "esp_vfs_open ''/dev/tty'' 0 0 demo_mounted = Some (0, demo_opened)"
proof -
  have "esp_vfs_open ''/dev/tty'' 0 0 demo_mounted = Some (int 0, claim_fd 0 3 demo_entry demo_mounted)"
    using open_called [OF vfs_reach_wf [OF demo_mounted_reach] demo_found]
    by (simp add: demo_entry_def demo_driver_def open_denied_def call_driver_def O_RDONLY_def demo_mounted_def
        vfs_initial_def FD_SETSIZE_def replicate_numeral)
  then show ?thesis
    by (simp add: claim_fd_def demo_opened_def demo_mounted_def vfs_initial_def FD_SETSIZE_def demo_entry_def
        to_vfs_index_t_small demo_fd_def replicate_numeral FD_TABLE_ENTRY_UNUSED_def)
qed

lemma demo_opened_reach: "vfs_reach demo_opened"
  using vfs_reach.step [OF demo_mounted_reach vfs_step.open [OF demo_opened_eq]] .

subsection \<open>Claims\<close>

text \<open>
  Claim C22. What \<open>esp_vfs_select\<close> reports. In a reachable state, for a call below 64 descriptors that
  asks for no socket, with local descriptors that fit a set, with working allocations, and with drivers
  that start without an error, answer with the requested local descriptors that are ready and leave
  their sets alone at the end: each set of the caller becomes the set of the descriptors that stand for
  the same local descriptor of the same file system as a requested descriptor that is ready, the result
  is the number of these, and the semaphore of the call is deleted. Every requested descriptor that is
  ready is reported; if no two descriptors of the table share a local descriptor, exactly these are.
  Descriptors that do share one, like the standard streams of the console, are reported together, also
  those that were not asked for.
\<close>

theorem select_reports_ready:
  assumes "vfs_reach s" and "plain_select s u" and "drivers_ok s" and "n \<le> 64"
    and "triples_ok al" and "args_ok al" and "sem_new al = Some sm" and "sm \<noteq> 0"
    and "\<forall>w ts t. others k w ts t = (answers ready n u s, t)"
  shows "(\<exists>s'. esp_vfs_select k al (int n) u timeout s =
      Some (count_fds u (reported_fds3 ready n u s),
            \<lparr>readfds = map_option (\<lambda>_. reported_fds ready n 0 (readfds u) s) (readfds u),
             writefds = map_option (\<lambda>_. reported_fds ready n 1 (writefds u) s) (writefds u),
             errorfds = map_option (\<lambda>_. reported_fds ready n 2 (errorfds u) s) (errorfds u)\<rparr>, s') \<and>
      semaphores s' = semaphores s) \<and>
    (\<forall>j g. ready_fds ready n j g s \<subseteq> reported_fds ready n j g s) \<and>
    (distinct_fds s \<longrightarrow> (\<forall>j g. reported_fds ready n j g s = ready_fds ready n j g s))"
proof -
  note wf = vfs_reach_wf [OF assms(1)]
  have le: "n \<le> MAX_FDS s" using assms(4) vfs_wfD(5) [OF wf] by simp
  obtain c where c: "scan_fds [0..<n] (scan_start s u) = Some c" "scanned s u n c"
    using scan_fds_scanned [OF wf assms(2,4)] by blast
  define s1 where "s1 = (sc_state c)\<lparr>semaphores := sm # semaphores (sc_state c)\<rparr>"
  obtain fl ts args t where st: "start_selects (int n) \<lparr>is_sem_local = True, sem = sm\<rparr> 0 (sc_triples c) s1 = (fl, ts, args, t)"
    by (rule prod_cases4)
  have "vfs_wf (sc_state c)"
    using scan_fds_state [OF c(1)] wf assms(4) by (auto simp: scan_start_def)
  then have w1: "vfs_wf s1" by (simp add: s1_def vfs_wf_def)
  have d1: "drivers_ok s1" using assms(3) c(2) by (simp add: drivers_ok_def s1_def scanned_def)
  note tt = start_selects_tables [OF st]
  have "vfs_wf t" "drivers_ok t" using w1 d1 tt vfs_wf_tables drivers_ok_tables by blast+
  moreover have "same_keys (s_fd_table s) (s_fd_table t)" "semaphores t = sm # semaphores s"
    using tt c(2) by (simp_all add: same_tables_def s1_def scanned_def)
  ultimately obtain s' where "select_finish k (int n) timeout \<lparr>is_sem_local = True, sem = sm\<rparr> c ts args t =
      Some (count_fds u (reported_fds3 ready n u s),
            \<lparr>readfds = map_option (\<lambda>_. reported_fds ready n 0 (readfds u) s) (readfds u),
             writefds = map_option (\<lambda>_. reported_fds ready n 1 (writefds u) s) (writefds u),
             errorfds = map_option (\<lambda>_. reported_fds ready n 2 (errorfds u) s) (errorfds u)\<rparr>, s')"
    "semaphores s' = semaphores s"
    using select_finish_plain [OF wf assms(2,4) c(2) _ assms(9)] tt assms(8) by blast
  moreover have "fl = None" using start_selects_ok [OF d1 w1 st] .
  moreover have "sc_socket c = None" using c(2) by (simp add: scanned_def)
  ultimately have "\<exists>s'. esp_vfs_select k al (int n) u timeout s =
      Some (count_fds u (reported_fds3 ready n u s),
            \<lparr>readfds = map_option (\<lambda>_. reported_fds ready n 0 (readfds u) s) (readfds u),
             writefds = map_option (\<lambda>_. reported_fds ready n 1 (writefds u) s) (writefds u),
             errorfds = map_option (\<lambda>_. reported_fds ready n 2 (errorfds u) s) (errorfds u)\<rparr>, s') \<and>
      semaphores s' = semaphores s"
    using assms(4-7) vfs_wfD(5) [OF wf] c(1) st by (simp add: select_run s1_def Let_def)
  then show ?thesis using ready_reported [OF le] reported_distinct [OF _ le] by blast
qed

text \<open>
  Two descriptors that are opened on the same device, as \<open>esp_newlib_init_global_stdio\<close> opens the
  standard streams on the console: the program asks for descriptor 0 alone and gets 0 and 1.
\<close>

definition demo_twice :: "unit vfs_state" where
  "demo_twice = demo_mounted\<lparr>s_fd_table := demo_fd # demo_fd # replicate 62 FD_TABLE_ENTRY_UNUSED\<rparr>"

lemma demo_twice_eq: "esp_vfs_open ''/dev/tty'' 0 0 demo_opened = Some (1, demo_twice)"
proof -
  have found: "get_vfs_for_path ''/dev/tty'' demo_opened = Some demo_entry"
    by (simp add: get_vfs_for_path_def path_turn_def demo_opened_def demo_mounted_def demo_entry_def vfs_initial_def
        LEN_PATH_PREFIX_IGNORED_def)
  have "esp_vfs_open ''/dev/tty'' 0 0 demo_opened = Some (int 1, claim_fd 1 3 demo_entry demo_opened)"
    using open_called [OF vfs_reach_wf [OF demo_opened_reach] found]
    by (simp add: demo_entry_def demo_driver_def open_denied_def call_driver_def O_RDONLY_def demo_opened_def
        demo_mounted_def demo_fd_def vfs_initial_def FD_SETSIZE_def replicate_numeral)
  then show ?thesis
    by (simp add: claim_fd_def demo_twice_def demo_opened_def demo_mounted_def vfs_initial_def FD_SETSIZE_def
        demo_entry_def to_vfs_index_t_small demo_fd_def replicate_numeral FD_TABLE_ENTRY_UNUSED_def)
qed

lemma demo_twice_reach: "vfs_reach demo_twice"
  using vfs_reach.step [OF demo_opened_reach vfs_step.open [OF demo_twice_eq]] .

lemma demo_twice_nth: "s_fd_table demo_twice ! fd = (if fd < 2 then demo_fd else FD_TABLE_ENTRY_UNUSED)" if "fd < 64"
proof -
  consider "fd = 0" | "fd = 1" | i where "fd = Suc (Suc i)" by (metis One_nat_def not0_implies_Suc)
  then show ?thesis using that by cases (simp_all add: demo_twice_def)
qed

definition demo_user :: user_fds where
  "demo_user = \<lparr>readfds = Some {0}, writefds = None, errorfds = None\<rparr>"

definition demo_ready :: "nat \<Rightarrow> fd_sets3" where "demo_ready i = ({3}, {}, {})"

definition demo_kernel :: "unit sel_kernel" where
  "demo_kernel = \<lparr>others = (\<lambda>_ _ t. (answers demo_ready 2 demo_user demo_twice, t)), drain_sem = (\<lambda>_ w. w),
     give_sem = (\<lambda>_ w. w), give_sem_isr = (\<lambda>_ w. (False, w)), tick_ms = 10\<rparr>"

lemma demo_ready_fds: "ready_fds demo_ready 2 0 (Some {0}) demo_twice = {0}"
  by (auto simp: ready_fds_def demo_twice_nth member_def lfd_def demo_fd_def demo_ready_def FD_TABLE_ENTRY_UNUSED_def
      split: if_splits)

lemma demo_reported_fds: "reported_fds demo_ready 2 0 (Some {0}) demo_twice = {0, 1}"
proof -
  have len: "MAX_FDS demo_twice = 64" by (simp add: demo_twice_def)
  have "fd \<in> reported_fds demo_ready 2 0 (Some {0}) demo_twice \<longleftrightarrow> fd \<in> {0, 1}" for fd
  proof (cases "fd < 64")
    case True
    have "vfs_index demo_fd \<noteq> vfs_index FD_TABLE_ENTRY_UNUSED" by (simp add: demo_fd_def FD_TABLE_ENTRY_UNUSED_def)
    moreover have "fd \<in> {0, 1} \<longleftrightarrow> fd < 2" by auto
    ultimately show ?thesis
      using demo_twice_nth [of 0] demo_twice_nth [OF True] True unfolding reported_fds_def demo_ready_fds len by simp
  qed (auto simp: reported_fds_def len)
  then show ?thesis by blast
qed

lemma demo_plain: "plain_select demo_twice demo_user" "drivers_ok demo_twice"
proof -
  have len: "MAX_FDS demo_twice = 64" by (simp add: demo_twice_def)
  show "plain_select demo_twice demo_user"
    by (auto simp: plain_select_def len demo_twice_nth lfd_def demo_fd_def
        FD_TABLE_ENTRY_UNUSED_def split: if_splits)
  show "drivers_ok demo_twice"
    by (simp add: drivers_ok_def demo_twice_def demo_mounted_def demo_entry_def demo_driver_def)
qed

theorem select_reports_ready_witness:
  "\<exists>s'. esp_vfs_select demo_kernel \<lparr>triples_ok = True, sem_new = Some 9, args_ok = True\<rparr> 2 demo_user (Some (1, 0)) demo_twice =
     Some (2, \<lparr>readfds = Some {0, 1}, writefds = None, errorfds = None\<rparr>, s') \<and> semaphores s' = []"
proof -
  have "readfds demo_user = Some {0}" "writefds demo_user = None" "errorfds demo_user = None"
    by (simp_all add: demo_user_def)
  moreover have "count_fds demo_user (reported_fds3 demo_ready 2 demo_user demo_twice) = 2"
    using demo_reported_fds by (simp add: count_fds_def reported_fds3_def bits_def demo_user_def)
  moreover have "semaphores demo_twice = []" by (simp add: demo_twice_def demo_mounted_def vfs_initial_def)
  moreover have "\<forall>w ts t. others demo_kernel w ts t = (answers demo_ready 2 demo_user demo_twice, t)"
    by (simp add: demo_kernel_def)
  ultimately show ?thesis
    using select_reports_ready [OF demo_twice_reach demo_plain, of 2 "\<lparr>triples_ok = True, sem_new = Some 9, args_ok = True\<rparr>" 9
        demo_kernel demo_ready "Some (1, 0)"] demo_reported_fds
    by simp
qed

text \<open>
  Claim C23. A path is served by the file system with the longest registered prefix. In every
  reachable state the loop of \<open>get_vfs_for_path\<close> computes the reference definition: of the entries
  whose prefix the path continues with a separator or equals, the first with the longest prefix;
  when there is none, a default entry; when there is no default entry, none.
\<close>

theorem path_lookup_longest_prefix:
  assumes "vfs_reach s"
  shows "get_vfs_for_path path s = vfs_for_path_spec path (entries s)"
  using get_vfs_for_path_spec [OF vfs_reach_wf [OF assms]] .

theorem path_lookup_longest_prefix_witness:
  "get_vfs_for_path ''/dev/tty'' demo_opened = Some demo_entry \<and> get_vfs_for_path ''/device'' demo_opened = None"
  using path_lookup_longest_prefix [OF demo_opened_reach, of "''/dev/tty''"]
    path_lookup_longest_prefix [OF demo_opened_reach, of "''/device''"]
  by (simp add: vfs_for_path_spec_def entries_def demo_opened_def demo_mounted_def map_filter_simps longest_def
      covers_def has_path_def demo_entry_def LEN_PATH_PREFIX_IGNORED_def default_vfs_def)

text \<open>
  Claim C24. The tables are well typed after any sequence of operations: the numbers of slots
  are the configured ones, every registered entry lies in the counted part of the table, knows its
  own index and has a prefix that \<open>esp_vfs_register\<close> accepts, and every descriptor is unused
  (\<open>-1\<close>) or holds the index of a counted slot.
\<close>

theorem vfs_tables_well_typed:
  assumes "vfs_reach s"
  shows "vfs_wf s"
  using assms by (rule vfs_reach_wf)

theorem vfs_tables_well_typed_witness: "vfs_wf demo_opened"
  using vfs_tables_well_typed [OF demo_opened_reach] .

text \<open>
  Claim C25. Open and close are inverse on the descriptor table. In a reachable state, when
  \<open>esp_vfs_open\<close> gives a descriptor whose slot was clean, the descriptor is the lowest free one, it
  leads to the file system of the path and to the low eight bits of the descriptor that the driver
  returned for the path inside the file system, and closing it calls the driver and restores the
  descriptor table.
\<close>

theorem open_close_roundtrip:
  assumes "vfs_reach s" and o: "esp_vfs_open path fl mode s = Some (fd, s1)" and "fd \<ge> 0"
    and v: "get_vfs_for_path path s = Some v" and cl: "vfs_fn (vfs v) M_close = Some cl"
    and clean: "s_fd_table s ! nat fd = FD_TABLE_ENTRY_UNUSED"
  shows "free_fd (s_fd_table s) = Some (nat fd) \<and> get_vfs_for_fd fd s1 = Some v \<and>
    (\<exists>op. vfs_fn (vfs v) M_open = Some op \<and>
       uint (local_fd (s_fd_table s1 ! nat fd)) =
       fst (call_driver v op [VPath (path_in v path), VInt fl, VInt mode] s) mod 256) \<and>
    (\<exists>r s2. esp_vfs_close fd s1 = Some (r, s2) \<and> s_fd_table s2 = s_fd_table s)"
proof -
  note wf = vfs_reach_wf [OF assms(1)]
  obtain op where op: "vfs_fn (vfs v) M_open = Some op" and ok: "\<not> open_denied fl v"
    using open_not_called [OF wf, where path = path and fl = fl and mode = mode] o \<open>fd \<ge> 0\<close> v by fastforce
  obtain l t where t: "call_driver v op [VPath (path_in v path), VInt fl, VInt mode] s = (l, t)" by fastforce
  note st = call_driver_tables [OF t, unfolded same_tables_def]
  have fail: "CHECK_AND_CALL v M_close [VInt l] (\<lambda>_. vfs_result (-1) ENOMEM) t \<noteq> Some (fd, s1)"
    using \<open>fd \<ge> 0\<close> cl by (auto simp: CHECK_AND_CALL_def split: prod.splits)
  have l: "free_fd (s_fd_table t) = Some (nat fd)" "s1 = claim_fd (nat fd) l v t"
    using o [unfolded open_called [OF wf v ok op t]] fail \<open>fd \<ge> 0\<close> by (auto split: if_splits option.splits)
  note found = found_vfs [OF wf v]
  have fd: "nat fd < length (s_fd_table t)" using fds.claim_bound [OF l(1)] .
  have idx: "to_vfs_index_t (int (offset v)) = int (offset v)"
    using found(1) vfs_wfD(3,4) [OF wf] by (intro to_vfs_index_t_small) auto
  have entry: "s_fd_table s1 ! nat fd = FD_TABLE_ENTRY_UNUSED\<lparr>permanent := False, vfs_index := int (offset v),
      local_fd := word_of_int l\<rparr>"
    using fd st clean by (simp add: l(2) claim_fd_def idx)
  have s1: "s_vfs s1 = s_vfs s" "s_vfs_count s1 = s_vfs_count s" "length (s_fd_table s1) = length (s_fd_table s)"
    using st by (simp_all add: l(2) claim_fd_def)
  have get: "get_vfs_for_fd fd s1 = Some v"
    using fd st \<open>fd \<ge> 0\<close> found(1,2) by (auto simp: get_vfs_for_fd_def fd_valid_def s1 entry get_vfs_for_index_def)
  obtain r u where u: "call_driver v cl [VInt (uint (local_fd (s_fd_table s1 ! nat fd)))] s1 = (r, u)" by fastforce
  have "s_fd_table u = s_fd_table s1" using call_driver_tables [OF u] by (simp add: same_tables_def)
  then have "s_fd_table (release_fd (nat fd) u) = (s_fd_table s1)[nat fd := FD_TABLE_ENTRY_UNUSED]"
    using entry by (simp add: release_fd_def FD_TABLE_ENTRY_UNUSED_def)
  also have "\<dots> = s_fd_table s"
    using st clean by (simp add: l(2) claim_fd_def) (metis list_update_id)
  finally show ?thesis
    using l(1) st get op t entry close_called [OF get cl u] by (simp add: uint_word_of_int)
qed

theorem open_close_roundtrip_witness:
  "get_vfs_for_fd 0 demo_opened = Some demo_entry \<and>
   (\<exists>r s2. esp_vfs_close 0 demo_opened = Some (r, s2) \<and> s_fd_table s2 = replicate 64 FD_TABLE_ENTRY_UNUSED)"
proof -
  have "s_fd_table demo_mounted = replicate 64 FD_TABLE_ENTRY_UNUSED"
    by (simp add: demo_mounted_def vfs_initial_def FD_SETSIZE_def)
  then show ?thesis
    using open_close_roundtrip [OF demo_mounted_reach demo_opened_eq _ demo_found, of "\<lambda>_ _ e w. (0, e, w)"]
    by (simp add: demo_entry_def demo_driver_def)
qed

text \<open>
  Claim C26. The assertion of \<open>translate_path\<close> cannot fail, and a driver is handed a proper path:
  in a reachable state the path within the file system of a path is not empty, starts with a
  separator when the file system has a prefix, and is the rest of the path after the prefix, or
  \<open>/\<close> for the prefix itself.
\<close>

theorem translated_path_proper:
  assumes "vfs_reach s" and "get_vfs_for_path path s = Some v"
  shows "\<exists>q. translate_path v path = Some q \<and> q \<noteq> [] \<and>
    (path_prefix v = [] \<or> hd q = CHR ''/'') \<and>
    (if path = path_prefix v then q = ''/'' else path = path_prefix v @ q)"
proof -
  note wf = vfs_reach_wf [OF assms(1)]
  note f = found_vfs(5) [OF wf assms(2)]
  have pre: "take (length (path_prefix v)) path = path_prefix v" using f by (auto simp: covers_def)
  have split: "path = path_prefix v @ drop (length (path_prefix v)) path"
    using pre append_take_drop_id [of "length (path_prefix v)" path] by simp
  show ?thesis
  proof (cases "path = path_prefix v")
    case False
    then have rest: "drop (length (path_prefix v)) path \<noteq> []" using split by auto
    have "hd (drop (length (path_prefix v)) path) = CHR ''/''" if "path_prefix v \<noteq> []"
      using f that False pre rest by (auto simp: covers_def hd_drop_conv_nth)
    then show ?thesis
      using translate_path_found [OF wf assms(2)] False rest split by auto
  qed (use translate_path_found [OF wf assms(2)] in simp)
qed

theorem translated_path_proper_witness: "translate_path demo_entry ''/dev/tty'' = Some ''/tty''"
  using translated_path_proper [OF demo_mounted_reach demo_found] by (auto simp: demo_entry_def)

subsection \<open>A range of descriptors, all or nothing\<close>

lemma fd_range_undo_later:
  "i < j \<Longrightarrow> fd_range_undo n j index (t[i := e]) = (fd_range_undo n j index t)[i := e]"
proof (induction n arbitrary: j t)
  case (Suc n)
  then have "t[i := e, j := x] = t[j := x, i := e]" for x by (simp add: list_update_swap)
  with Suc show ?case by simp
qed simp

lemma fd_range_set_before:
  "fd_range_set n i index t = Inl (j, t') \<Longrightarrow> i \<le> j \<and> length t' = length t \<and> (\<forall>k<i. t' ! k = t ! k)"
proof (induction n arbitrary: i t)
  case (Suc n)
  show ?case
  proof (cases "vfs_index (t ! i) = -1")
    case True
    with Suc.prems Suc.IH [of "Suc i"] show ?thesis by (auto dest!: Suc_leD)
  qed (use Suc.prems in auto)
qed simp

lemma fd_range_set_undo:
  assumes "fd_range_set n i index t = Inl (j, t')" and "int index < 128"
    and "\<forall>e\<in>set t. vfs_index e = -1 \<longrightarrow> e = FD_TABLE_ENTRY_UNUSED" and "i + n \<le> length t"
  shows "fd_range_undo (j - i) i index t' = t"
  using assms(1,3,4)
proof (induction n arbitrary: i t)
  case (Suc n)
  show ?case
  proof (cases "vfs_index (t ! i) = -1")
    case True
    define e where "e = (t ! i)\<lparr>permanent := True, vfs_index := to_vfs_index_t (int index), local_fd := of_nat i\<rparr>"
    have idx: "vfs_index e = int index" using assms(2) by (simp add: e_def to_vfs_index_t_small)
    have run: "fd_range_set n (Suc i) index (t[i := e]) = Inl (j, t')" using Suc.prems(1) True by (simp add: e_def)
    note b = fd_range_set_before [OF run]
    have "\<forall>x\<in>set (t[i := e]). vfs_index x = -1 \<longrightarrow> x = FD_TABLE_ENTRY_UNUSED"
      using Suc.prems(2) idx set_update_subset_insert [of t i e] by auto
    with Suc.IH [OF run] Suc.prems(3) have rest: "fd_range_undo (j - Suc i) (Suc i) index t' = t[i := e]" by simp
    have "t' ! i = e" using b Suc.prems(3) by simp
    moreover have "t ! i = FD_TABLE_ENTRY_UNUSED" using Suc.prems(2,3) True by simp
    moreover have "j - i = Suc (j - Suc i)" using b by (simp add: Suc_diff_Suc)
    ultimately show ?thesis
      by (simp add: fd_clear_if_def idx fd_range_undo_later rest) (metis list_update_id)
  qed (use Suc.prems in auto)
qed simp

text \<open>
  Claim C27. \<open>esp_vfs_register_fd_range\<close> is all or nothing. When it fails in a reachable state
  whose unused descriptors are clean, whether for bad bounds, for lack of memory or slots, or
  because a descriptor of the range is taken, the descriptor table and the table of file systems
  are as before.
\<close>

theorem register_fd_range_all_or_nothing:
  assumes "vfs_reach s" and r: "esp_vfs_register_fd_range malloc v ctx lo hi s = (err, s')" and "err \<noteq> ESP_OK"
    and clean: "\<forall>e\<in>set (s_fd_table s). vfs_index e = -1 \<longrightarrow> e = FD_TABLE_ENTRY_UNUSED"
  shows "s_fd_table s' = s_fd_table s \<and> s_vfs s' = s_vfs s"
proof (cases "lo < 0 \<or> hi < 0 \<or> lo > int (MAX_FDS s) \<or> hi > int (MAX_FDS s) \<or> lo > hi")
  case True
  with r show ?thesis by (simp add: esp_vfs_register_fd_range_def)
next
  case False
  note wf = vfs_reach_wf [OF assms(1)]
  obtain e i t where c: "esp_vfs_register_common malloc [] LEN_PATH_PREFIX_IGNORED v ctx s = (e, i, t)"
    by (rule prod_cases3)
  from c show ?thesis
  proof (cases rule: register_common_cases)
    case failed
    then show ?thesis
      using r c False by (auto simp: esp_vfs_register_fd_range_def split: if_splits esp_err_t.splits)
  next
    case (stored entry index en)
    have tab: "s_fd_table t = s_fd_table s" and vs: "s_vfs t = (s_vfs s)[index := Some en]"
      using stored(8) by simp_all
    have small: "int index < 128" using stored(5) vfs_wfD(3,4) [OF wf] by auto
    have none: "s_vfs s ! index = None" if "index < length (s_vfs s)"
    proof (cases "index < s_vfs_count s")
      case True
      then show ?thesis
        using first_free_less [of "take (s_vfs_count s) (s_vfs s)"] that stored(4) by auto
    next
      case False
      then show ?thesis
        using slots_okD(1) [OF vfs_wfD(1) [OF wf] that] by (cases "s_vfs s ! index") auto
    qed
    have undone: "((s_vfs s)[index := Some en])[index := None] = s_vfs s"
      using none by (cases "index < length (s_vfs s)") (simp_all add: list_update_beyond list_update_same_conv)
    have "e = ESP_OK" "i = Some index" using stored by auto
    then obtain j w where w: "fd_range_set (nat (hi - lo)) (nat lo) index (s_fd_table s) = Inl (j, w)"
      and restored: "s_vfs s' = (s_vfs t)[index := None]" "s_fd_table s' = fd_range_undo (j - nat lo) (nat lo) index w"
      using r c False \<open>err \<noteq> ESP_OK\<close> tab
      by (auto simp: esp_vfs_register_fd_range_def split: sum.splits)
    have "nat lo + nat (hi - lo) \<le> length (s_fd_table s)" using False by auto
    with fd_range_set_undo [OF w small clean] show ?thesis using restored vs undone by simp
  qed
qed

theorem register_fd_range_all_or_nothing_witness:
  "fst (esp_vfs_register_fd_range (Some 200) demo_driver 0 0 2 demo_opened) = ESP_ERR_INVALID_ARG \<and>
   s_fd_table (snd (esp_vfs_register_fd_range (Some 200) demo_driver 0 0 2 demo_opened)) = s_fd_table demo_opened"
proof -
  have "fst (esp_vfs_register_fd_range (Some 200) demo_driver 0 0 2 demo_opened) = ESP_ERR_INVALID_ARG"
    by (simp add: esp_vfs_register_fd_range_def esp_vfs_register_common_def demo_opened_def demo_mounted_def
        demo_fd_def numeral_2_eq_2)
  moreover have "\<forall>e\<in>set (s_fd_table demo_opened). vfs_index e = -1 \<longrightarrow> e = FD_TABLE_ENTRY_UNUSED"
    by (simp add: demo_opened_def demo_fd_def)
  ultimately show ?thesis
    using register_fd_range_all_or_nothing [OF demo_opened_reach prod.collapse [symmetric],
        of "Some 200" demo_driver 0 0 2] by simp
qed

subsection \<open>Where the code does less than it says\<close>

text \<open>
  Unregistering deletes the references of the first \<open>VFS_MAX_COUNT\<close> descriptors only: a descriptor
  above them keeps the index, and the next file system that is registered in the slot serves it.
\<close>

theorem stale_descriptor_after_unregister:
  assumes "vfs_wf s" and "VFS_MAX_COUNT s \<le> fd" and "fd < MAX_FDS s"
    and "vfs_index (s_fd_table s ! fd) = int i" and "esp_vfs_unregister_with_id (int i) s = (ESP_OK, s1)"
    and "esp_vfs_register_with_id (Some a) v ctx True s1 = (ESP_OK, int i, s2)"
  shows "\<exists>e. get_vfs_for_fd (int fd) s2 = Some e \<and> vfs e = v"
proof -
  have s1: "s_fd_table s1 ! fd = s_fd_table s ! fd" "length (s_fd_table s1) = length (s_fd_table s)"
    using assms(2,3,5) by (auto simp: esp_vfs_unregister_with_id_def nth_append split: if_splits)
  obtain e vid t where c: "esp_vfs_register_common (Some a) [] LEN_PATH_PREFIX_IGNORED v ctx s1 = (e, vid, t)"
    by (rule prod_cases3)
  have t: "e = ESP_OK" "vid = Some i" "s2 = t"
    using assms(6) c by (auto simp: esp_vfs_register_with_id_def split: option.splits)
  from c show ?thesis
  proof (cases rule: register_common_cases)
    case (stored entry index en)
    have i: "index = i" using stored(2) t(2) by simp
    have "s_vfs_count s1 \<le> length (s_vfs s1)"
      using vfs_wfD(3) [OF assms(1)] assms(5) by (auto simp: esp_vfs_unregister_with_id_def split: if_splits)
    then have "i < length (s_vfs s1)" using stored(5) i by auto
    then have "s_vfs s2 ! i = Some en" "s_fd_table s2 = s_fd_table s1" "i < s_vfs_count s2"
      using stored(8) t(3) i by simp_all
    moreover have "vfs en = v" using stored(6) by simp
    ultimately show ?thesis
      using s1 assms(3,4) by (simp add: get_vfs_for_fd_def fd_valid_def get_vfs_for_index_def)
  qed (use t in simp)
qed

text \<open>
  A descriptor that was once in the error set of a select keeps its mark. Closing it then leaves
  the slot in use, and the closed descriptor still reaches its file system, until some later select
  covers it.
\<close>

theorem close_keeps_marked_descriptor:
  assumes "get_vfs_for_fd fd s = Some v" and "vfs_fn (vfs v) M_close = Some cl"
    and "has_pending_select (s_fd_table s ! nat fd)" and "\<not> permanent (s_fd_table s ! nat fd)"
  shows "\<exists>r s'. esp_vfs_close fd s = Some (r, s') \<and> get_vfs_for_fd fd s' = Some v \<and>
    has_pending_close (s_fd_table s' ! nat fd)"
proof -
  obtain r t where t: "call_driver v cl [VInt (uint (local_fd (s_fd_table s ! nat fd)))] s = (r, t)" by fastforce
  note st = call_driver_tables [OF t, unfolded same_tables_def]
  have fd: "nat fd < length (s_fd_table s)" "0 \<le> fd"
    using assms(1) by (auto simp: get_vfs_for_fd_def fd_valid_def split: if_splits)
  then have "release_fd (nat fd) t = t\<lparr>s_fd_table := (s_fd_table t)[nat fd := (s_fd_table t ! nat fd)\<lparr>has_pending_close := True\<rparr>]\<rparr>"
    using st assms(3,4) by (simp add: release_fd_def)
  then show ?thesis
    using close_called [OF assms(1,2) t] assms(1) st fd
    by (auto simp: get_vfs_for_fd_def fd_valid_def get_vfs_for_index_def split: if_splits)
qed

text \<open>When the driver arguments cannot be allocated, the semaphore of the call is not deleted.\<close>

theorem select_loses_semaphore:
  assumes "vfs_wf s" and "plain_select s u" and "n \<le> 64" and "triples_ok al" and "\<not> args_ok al" and "sem_new al = Some sm"
  shows "\<exists>u' s'. esp_vfs_select k al (int n) u timeout s = Some (-1, u', s') \<and> semaphores s' = sm # semaphores s"
proof -
  obtain c where c: "scan_fds [0..<n] (scan_start s u) = Some c" "scanned s u n c"
    using scan_fds_scanned [OF assms(1-3)] by blast
  then have "sc_socket c = None" "semaphores (sc_state c) = semaphores s" by (simp_all add: scanned_def)
  with c(1) assms(3-6) vfs_wfD(5) [OF assms(1)] show ?thesis by (simp add: select_run Let_def)
qed

text \<open>
  The wait is at least the timeout rounded down to milliseconds, not the timeout: with a tick of
  10 ms, a timeout of 10.999 ms waits for two ticks, of which only one is sure to be whole.
\<close>

lemma ticks_to_wait_exact:
  assumes "0 < p" and "0 \<le> sec" and "0 \<le> usec" and "sec * 1000 + usec div 1000 + int p < 2 ^ 32"
  shows "ticks_to_wait p (Some (sec, usec)) = (nat (sec * 1000 + usec div 1000) + p - 1) div p + 1"
proof -
  define m where "m = nat (sec * 1000 + usec div 1000)"
  have m: "int m = sec * 1000 + usec div 1000" using assms(2,3) by (simp add: m_def)
  have "(sec * 1000 + usec div 1000) mod 2 ^ 32 = sec * 1000 + usec div 1000"
    using assms by (intro mod_pos_pos_trivial) auto
  then have tm: "timeout_ms (sec, usec) = m"
    using assms(3) by (simp add: timeout_ms_def c_div_def m_def)
  have "int (m + p) < int (2 ^ 32)" using assms(4) m by simp
  then have mp: "m + p < 2 ^ 32" by (simp only: of_nat_less_iff)
  then have "(m + p - 1) div p < 2 ^ 32 - 1"
    using div_le_dividend [of "m + p - 1" p] assms(1) by linarith
  then show ?thesis
    using mp assms(1) unfolding ticks_to_wait_def option.case tm m_def [symmetric]
    by (simp add: sz_add_exact sz_sub_exact)
qed

theorem select_wait_rounds_down:
  "ticks_to_wait 10 (Some (0, 10999)) = 2 \<and> (2 - 1) * 10 * 1000 < (10999::int)"
  using ticks_to_wait_exact [of 10 0 10999] by simp

end
