(* ===== verification/Split_Argv.thy ===== *)
theory Split_Argv
  imports Prelude
begin

section \<open>Splitting a command line in place\<close>

text \<open>
  Model of \<open>console/split_argv.c\<close>. The line is the memory of its buffer, a list of characters in
  which the character 0 ends the text; the code reads it at \<open>in_ptr\<close> and writes it at \<open>out_ptr\<close>. The
  array \<open>argv\<close> is a list of pointers, offsets into the line or null. A read or write outside the
  line or the array stops the run (\<open>None\<close>).
\<close>

abbreviation NUL :: char where "NUL \<equiv> CHR 0x00"
abbreviation SPACE :: char where "SPACE \<equiv> CHR 0x20"
abbreviation QUOTE :: char where "QUOTE \<equiv> CHR 0x22"
abbreviation ESCAPE :: char where "ESCAPE \<equiv> CHR 0x5C"

datatype split_state_t = SS_SPACE | SS_ARG | SS_QUOTED_ARG | SS_ARG_ESCAPED | SS_QUOTED_ARG_ESCAPED

record split_st =
  ss :: split_state_t
  argc :: nat
  next_arg_start :: nat
  in_ptr :: nat
  out_ptr :: nat
  line :: "char list"
  argv :: "nat option list"

text \<open>\<open>END_ARG\<close>: the terminator is the character to write, the caller writes it.\<close>

definition END_ARG :: "split_st \<Rightarrow> (char option \<times> split_st) option" where
  "END_ARG s =
     (if argc s < length (argv s)
      then Some (Some NUL, s\<lparr>argv := (argv s)[argc s := Some (next_arg_start s)], argc := argc s + 1, ss := SS_SPACE\<rparr>)
      else None)"

text \<open>The \<open>switch\<close>: the character to write (\<open>None\<close> for \<open>-1\<close>) and the new state.\<close>

definition split_switch :: "char \<Rightarrow> split_st \<Rightarrow> (char option \<times> split_st) option" where
  "split_switch c s =
     (case ss s of
        SS_SPACE \<Rightarrow>
          if c = SPACE then Some (None, s)
          else if c = QUOTE then Some (None, s\<lparr>next_arg_start := out_ptr s, ss := SS_QUOTED_ARG\<rparr>)
          else if c = ESCAPE then Some (None, s\<lparr>next_arg_start := out_ptr s, ss := SS_ARG_ESCAPED\<rparr>)
          else Some (Some c, s\<lparr>next_arg_start := out_ptr s, ss := SS_ARG\<rparr>)
      | SS_QUOTED_ARG \<Rightarrow>
          if c = QUOTE then END_ARG s
          else if c = ESCAPE then Some (None, s\<lparr>ss := SS_QUOTED_ARG_ESCAPED\<rparr>)
          else Some (Some c, s)
      | SS_ARG_ESCAPED \<Rightarrow>
          Some (if c = ESCAPE \<or> c = QUOTE \<or> c = SPACE then Some c else None, s\<lparr>ss := SS_ARG\<rparr>)
      | SS_QUOTED_ARG_ESCAPED \<Rightarrow>
          Some (if c = ESCAPE \<or> c = QUOTE \<or> c = SPACE then Some c else None, s\<lparr>ss := SS_QUOTED_ARG\<rparr>)
      | SS_ARG \<Rightarrow>
          if c = SPACE then END_ARG s
          else if c = ESCAPE then Some (None, s\<lparr>ss := SS_ARG_ESCAPED\<rparr>)
          else Some (Some c, s))"

definition write_out :: "char \<Rightarrow> split_st \<Rightarrow> split_st option" where
  "write_out c s =
     (if out_ptr s < length (line s) then Some (s\<lparr>line := (line s)[out_ptr s := c]\<rparr>) else None)"

text \<open>The body of the loop for the character \<open>c\<close> that was read.\<close>

definition split_char :: "char \<Rightarrow> split_st \<Rightarrow> split_st option" where
  "split_char c s =
     do { (char_out, s1) \<leftarrow> split_switch c s;
          case char_out of
            None \<Rightarrow> Some s1
          | Some d \<Rightarrow> do { s2 \<leftarrow> write_out d s1; Some (s2\<lparr>out_ptr := out_ptr s2 + 1\<rparr>) } }"

lemma split_char_length:
  assumes "split_char c s = Some s'"
  shows "length (line s') = length (line s)" and "in_ptr s' = in_ptr s"
proof -
  have "length (line s1) = length (line s) \<and> in_ptr s1 = in_ptr s" if "split_switch c s = Some (d, s1)" for d s1
    using that by (auto simp: split_switch_def END_ARG_def split: split_state_t.splits if_splits)
  then have "length (line s') = length (line s) \<and> in_ptr s' = in_ptr s"
    using assms by (fastforce simp: split_char_def write_out_def bind_eq_Some_conv split: option.splits if_splits)
  then show "length (line s') = length (line s)" and "in_ptr s' = in_ptr s" by auto
qed

function split_loop :: "nat \<Rightarrow> split_st \<Rightarrow> split_st option" where
  "split_loop argv_size s =
     (if argc s < sz_sub argv_size 1
      then if in_ptr s < length (line s)
           then let char_in = line s ! in_ptr s in
                if char_in = NUL then Some s
                else case split_char char_in s of
                    None \<Rightarrow> None
                  | Some s' \<Rightarrow> split_loop argv_size (s'\<lparr>in_ptr := in_ptr s' + 1\<rparr>)
           else None
      else Some s)"
  by pat_completeness auto

termination
proof (relation "measure (\<lambda>(n, s). length (line s) - in_ptr s)")
  fix argv_size s c s'
  assume "in_ptr s < length (line s)" and "split_char c s = Some s'"
  with split_char_length [OF this(2)]
  show "((argv_size, s'\<lparr>in_ptr := in_ptr s' + 1\<rparr>), (argv_size, s)) \<in> measure (\<lambda>(n, s). length (line s) - in_ptr s)"
    by simp
qed simp

declare split_loop.simps [simp del]

text \<open>The result: the number of arguments, the line and the array afterwards.\<close>

definition esp_console_split_argv ::
  "char list \<Rightarrow> nat option list \<Rightarrow> nat \<Rightarrow> (nat \<times> char list \<times> nat option list) option" where
  "esp_console_split_argv ln av argv_size =
     do { s \<leftarrow> split_loop argv_size
            \<lparr>ss = SS_SPACE, argc = 0, next_arg_start = 0, in_ptr = 0, out_ptr = 0, line = ln, argv = av\<rparr>;
          s \<leftarrow> write_out NUL s;
          s \<leftarrow> (if ss s \<noteq> SS_SPACE \<and> argc s < sz_sub argv_size 1
               then if argc s < length (argv s)
                    then Some (s\<lparr>argv := (argv s)[argc s := Some (next_arg_start s)], argc := argc s + 1\<rparr>)
                    else None
               else Some s);
          if argc s < length (argv s)
          then Some (argc s, line s, (argv s)[argc s := None])
          else None }"

text \<open>The string at a pointer.\<close>

definition c_string :: "char list \<Rightarrow> nat \<Rightarrow> string" where
  "c_string m p = takeWhile (\<lambda>c. c \<noteq> NUL) (drop p m)"

subsection \<open>The reference: the arguments of a line\<close>

text \<open>
  An unquoted argument runs to the next space, a quoted one to the next quote. In both a backslash
  before a backslash, a quote or a space stands for that character, and before any other character
  for nothing. \<open>plain_arg\<close> and \<open>quoted_arg\<close> give the argument and the rest of the line.
\<close>

definition escaped :: "char \<Rightarrow> string" where
  "escaped c = (if c = ESCAPE \<or> c = QUOTE \<or> c = SPACE then [c] else [])"

fun plain_arg :: "string \<Rightarrow> string \<times> string" where
  "plain_arg [] = ([], [])"
| "plain_arg (c # cs) =
     (if c = SPACE then ([], cs)
      else if c = ESCAPE
      then case cs of [] \<Rightarrow> ([], []) | d # ds \<Rightarrow> apfst ((@) (escaped d)) (plain_arg ds)
      else apfst ((#) c) (plain_arg cs))"

fun quoted_arg :: "string \<Rightarrow> string \<times> string" where
  "quoted_arg [] = ([], [])"
| "quoted_arg (c # cs) =
     (if c = QUOTE then ([], cs)
      else if c = ESCAPE
      then case cs of [] \<Rightarrow> ([], []) | d # ds \<Rightarrow> apfst ((@) (escaped d)) (quoted_arg ds)
      else apfst ((#) c) (quoted_arg cs))"

lemma plain_arg_shorter: "length (snd (plain_arg cs)) \<le> length cs"
  proof (induction cs rule: length_induct)
  case (1 cs)
  show ?case
  proof (cases cs)
    case (Cons c ds)
    with 1 [rule_format, of ds] 1 [rule_format, of "tl ds"]
    have "length (snd (plain_arg ds)) \<le> length ds" and "length (snd (plain_arg (tl ds))) \<le> length (tl ds)" by simp_all
    with Cons show ?thesis by (cases ds) simp_all
  qed simp
qed

lemma quoted_arg_shorter: "length (snd (quoted_arg cs)) \<le> length cs"
  proof (induction cs rule: length_induct)
  case (1 cs)
  show ?case
  proof (cases cs)
    case (Cons c ds)
    with 1 [rule_format, of ds] 1 [rule_format, of "tl ds"]
    have "length (snd (quoted_arg ds)) \<le> length ds" and "length (snd (quoted_arg (tl ds))) \<le> length (tl ds)" by simp_all
    with Cons show ?thesis by (cases ds) simp_all
  qed simp
qed

function split_args :: "string \<Rightarrow> string list" where
  "split_args [] = []"
| "split_args (c # cs) =
     (if c = SPACE then split_args cs
      else if c = QUOTE then fst (quoted_arg cs) # split_args (snd (quoted_arg cs))
      else fst (plain_arg (c # cs)) # split_args (snd (plain_arg (c # cs))))"
  by pat_completeness auto

termination
proof (relation "measure length")
  show "(snd (plain_arg (c # cs)), c # cs) \<in> measure length" if "c \<noteq> SPACE" for c cs
    using that plain_arg_shorter [of cs] plain_arg_shorter [of "tl cs"] by (cases cs) auto
qed (auto simp: quoted_arg_shorter le_imp_less_Suc)

end
