(* ===== verification/Console.thy ===== *)
theory Console
  imports Split_Argv
begin

section \<open>Console commands\<close>

text \<open>
  Model of \<open>console/commands.c\<close>. The list of commands is a list of records, each with the heap
  address of its item. Names and help texts are the application's own strings. Hints are allocated:
  an item holds the address of its hint, and \<open>hint_heap\<close> is the memory of the hints that are
  allocated now; freeing one that is not stops the run. The answers of the allocator are arguments.
  The handlers of the commands are an argument of \<open>esp_console_run\<close>, as is the syntax line that
  \<open>argtable3\<close> makes of an argument table.
\<close>

record esp_console_cmd_t =
  cmd_command :: "string option"
  cmd_help :: "string option"
  cmd_hint :: "string option"
  cmd_func :: nat
  cmd_argtable :: "nat option"

record cmd_item_t =
  item_addr :: nat
  command :: string
  item_help :: "string option"
  hint :: "nat option"
  func :: nat
  argtable :: "nat option"

record esp_console_config_t =
  max_cmdline_length :: nat
  max_cmdline_args :: nat
  heap_alloc_caps :: nat
  hint_color :: int
  hint_bold :: int

record console =
  s_cmd_list :: "cmd_item_t list"
  s_config :: esp_console_config_t
  s_tmp_line_buf :: "char list option"
  hint_heap :: "nat \<rightharpoonup> string"

definition ANSI_COLOR_DEFAULT :: int where "ANSI_COLOR_DEFAULT = 39"
definition MALLOC_CAP_DEFAULT :: nat where "MALLOC_CAP_DEFAULT = 4096"

text \<open>\<open>calloc_ok\<close>: whether the allocation of the line buffer succeeds.\<close>

definition esp_console_init :: "bool \<Rightarrow> esp_console_config_t option \<Rightarrow> console \<Rightarrow> esp_err_t \<times> console" where
  "esp_console_init calloc_ok config s =
     (case config of
        None \<Rightarrow> (ESP_ERR_INVALID_ARG, s)
      | Some cf \<Rightarrow>
          if \<not> Option.is_none (s_tmp_line_buf s) then (ESP_ERR_INVALID_STATE, s)
          else
            let cf' = (if hint_color cf = 0 then cf\<lparr>hint_color := ANSI_COLOR_DEFAULT\<rparr> else cf);
                cf' = (if heap_alloc_caps cf' = 0 then cf'\<lparr>heap_alloc_caps := MALLOC_CAP_DEFAULT\<rparr> else cf');
                s = s\<lparr>s_config := cf'\<rparr>
            in if calloc_ok
               then (ESP_OK, s\<lparr>s_tmp_line_buf := Some (replicate (max_cmdline_length cf) NUL)\<rparr>)
               else (ESP_ERR_NO_MEM, s))"

definition free_hint :: "nat option \<Rightarrow> (nat \<rightharpoonup> string) \<Rightarrow> (nat \<rightharpoonup> string) option" where
  "free_hint p h =
     (case p of
        None \<Rightarrow> Some h
      | Some a \<Rightarrow> if Option.is_none (h a) then None else Some (h(a := None)))"

fun free_items :: "cmd_item_t list \<Rightarrow> (nat \<rightharpoonup> string) \<Rightarrow> (nat \<rightharpoonup> string) option" where
  "free_items [] h = Some h"
| "free_items (it # its) h = do { h' \<leftarrow> free_hint (hint it) h; free_items its h' }"

definition esp_console_deinit :: "console \<Rightarrow> (esp_err_t \<times> console) option" where
  "esp_console_deinit s =
     (if Option.is_none (s_tmp_line_buf s) then Some (ESP_ERR_INVALID_STATE, s)
      else do { h \<leftarrow> free_items (s_cmd_list s) (hint_heap s);
                Some (ESP_OK, s\<lparr>s_tmp_line_buf := None, s_cmd_list := [], hint_heap := h\<rparr>) })"

definition find_command_by_name :: "string \<Rightarrow> console \<Rightarrow> cmd_item_t option" where
  "find_command_by_name name s = List.find (\<lambda>it. length (command it) = length name \<and> name = command it) (s_cmd_list s)"

text \<open>
  What registration stores as hint. \<open>hint_alloc\<close> is the answer of the allocator for the string; when
  \<open>asprintf\<close> fails the field keeps its value, when the memory stream fails it becomes null.
\<close>

definition new_hint ::
  "(nat \<Rightarrow> string) \<Rightarrow> nat option \<Rightarrow> esp_console_cmd_t \<Rightarrow> nat option \<Rightarrow> (nat \<rightharpoonup> string) \<Rightarrow>
   nat option \<times> (nat \<rightharpoonup> string)" where
  "new_hint syntax_of hint_alloc cmd old h =
     (case (cmd_hint cmd, cmd_argtable cmd) of
        (Some t, _) \<Rightarrow>
          (case hint_alloc of Some a \<Rightarrow> (Some a, h(a \<mapsto> SPACE # t)) | None \<Rightarrow> (old, h))
      | (None, Some tbl) \<Rightarrow>
          (case hint_alloc of Some a \<Rightarrow> (Some a, h(a \<mapsto> syntax_of tbl)) | None \<Rightarrow> (None, h))
      | (None, None) \<Rightarrow> (old, h))"

text \<open>
  Registration. A known item is unlinked and its hint freed, its other fields are kept; a new item
  is zeroed. Either way the item goes to the end of the list.
\<close>

definition esp_console_cmd_register ::
  "(nat \<Rightarrow> string) \<Rightarrow> nat option \<Rightarrow> nat option \<Rightarrow> esp_console_cmd_t option \<Rightarrow> console \<Rightarrow>
   (esp_err_t \<times> console) option" where
  "esp_console_cmd_register syntax_of item_alloc hint_alloc cmd s =
     (case cmd of
        None \<Rightarrow> Some (ESP_ERR_INVALID_ARG, s)
      | Some c \<Rightarrow>
          (case cmd_command c of
             None \<Rightarrow> Some (ESP_ERR_INVALID_ARG, s)
           | Some name \<Rightarrow>
               if SPACE \<in> set name then Some (ESP_ERR_INVALID_ARG, s)
               else case (case find_command_by_name name s of
                    Some item \<Rightarrow>
                      map_option (\<lambda>h. Some (item, filter (\<lambda>it. item_addr it \<noteq> item_addr item) (s_cmd_list s), h))
                        (free_hint (hint item) (hint_heap s))
                  | None \<Rightarrow>
                      Some (map_option (\<lambda>a. (\<lparr>item_addr = a, command = [], item_help = None, hint = None, func = 0,
                                              argtable = None\<rparr>, s_cmd_list s, hint_heap s)) item_alloc)) of
                 None \<Rightarrow> None
               | Some None \<Rightarrow> Some (ESP_ERR_NO_MEM, s)
               | Some (Some (item, items, h)) \<Rightarrow>
                   let (hp, h') = new_hint syntax_of hint_alloc c (hint item) h;
                       item' = item\<lparr>command := name, item_help := cmd_help c, hint := hp,
                                    argtable := cmd_argtable c, func := cmd_func c\<rparr>
                   in Some (ESP_OK, s\<lparr>s_cmd_list := items @ [item'], hint_heap := h'\<rparr>)))"

text \<open>The completions, in the order in which they are added.\<close>

definition esp_console_get_completion :: "string \<Rightarrow> console \<Rightarrow> string list" where
  "esp_console_get_completion buf s =
     (if length buf = 0 then []
      else map command (filter (\<lambda>it. take (length buf) (command it) = buf) (s_cmd_list s)))"

text \<open>The hint of the command that the text is the name of, with \<open>*color\<close> and \<open>*bold\<close>.\<close>

definition esp_console_get_hint :: "string \<Rightarrow> console \<Rightarrow> (nat option \<times> int \<times> int) option" where
  "esp_console_get_hint buf s =
     map_option (\<lambda>it. (hint it, hint_color (s_config s), hint_bold (s_config s)))
       (List.find (\<lambda>it. length (command it) = length buf \<and> take (length buf) (command it) = buf) (s_cmd_list s))"

text \<open>\<open>strlcpy\<close> into a buffer of \<open>n\<close> characters.\<close>

definition strlcpy :: "char list \<Rightarrow> string \<Rightarrow> nat \<Rightarrow> char list option" where
  "strlcpy dst src n =
     (if n = 0 then Some dst
      else let t = take (n - 1) src @ [NUL] in
           if length t \<le> length dst then Some (t @ drop (length t) dst) else None)"

text \<open>
  The handler gets the strings at the pointers of \<open>argv\<close>. The result also gives \<open>*cmd_ret\<close>, when it
  is stored, and the world after the handler.
\<close>

definition esp_console_run ::
  "(nat \<Rightarrow> string list \<Rightarrow> 'w \<Rightarrow> int \<times> 'w) \<Rightarrow> bool \<Rightarrow> string \<Rightarrow> console \<Rightarrow> 'w \<Rightarrow>
   (esp_err_t \<times> int option \<times> console \<times> 'w) option" where
  "esp_console_run handlers calloc_ok cmdline s w =
     (case s_tmp_line_buf s of
        None \<Rightarrow> Some (ESP_ERR_INVALID_STATE, None, s, w)
      | Some buf \<Rightarrow>
          if \<not> calloc_ok then Some (ESP_ERR_NO_MEM, None, s, w)
          else do {
            buf \<leftarrow> strlcpy buf cmdline (max_cmdline_length (s_config s));
            (n, buf, av) \<leftarrow> esp_console_split_argv buf (replicate (max_cmdline_args (s_config s)) None)
                              (max_cmdline_args (s_config s));
            let s = s\<lparr>s_tmp_line_buf := Some buf\<rparr> in
            if n = 0 then Some (ESP_ERR_INVALID_ARG, None, s, w)
            else case av ! 0 of
                None \<Rightarrow> None
              | Some p \<Rightarrow>
                  (case find_command_by_name (c_string buf p) s of
                     None \<Rightarrow> Some (ESP_ERR_NOT_FOUND, None, s, w)
                   | Some cmd \<Rightarrow>
                       let (ret, w) = handlers (func cmd) (map (\<lambda>q. c_string buf (the q)) (take n av)) w
                       in Some (ESP_OK, Some ret, s, w)) })"

text \<open>
  The built-in command. \<open>argtable3\<close> parses its arguments: \<open>nerrors\<close>, and the name asked for, when
  there is one. The result is the exit value and the items whose help is printed.
\<close>

definition help_command :: "int \<Rightarrow> string option \<Rightarrow> console \<Rightarrow> int \<times> cmd_item_t list" where
  "help_command nerrors help_cmd s =
     (if nerrors \<noteq> 0 then (1, [])
      else case help_cmd of
          None \<Rightarrow> (0, filter (\<lambda>it. \<not> Option.is_none (item_help it)) (s_cmd_list s))
        | Some name \<Rightarrow>
            (case List.find (\<lambda>it. \<not> Option.is_none (item_help it) \<and> name = command it) (s_cmd_list s) of
               Some it \<Rightarrow> (0, [it])
             | None \<Rightarrow> (1, [])))"

definition esp_console_register_help_command ::
  "(nat \<Rightarrow> string) \<Rightarrow> nat option \<Rightarrow> nat option \<Rightarrow> nat \<Rightarrow> nat \<Rightarrow> console \<Rightarrow> (esp_err_t \<times> console) option" where
  "esp_console_register_help_command syntax_of item_alloc hint_alloc help_func help_args s =
     esp_console_cmd_register syntax_of item_alloc hint_alloc
       (Some \<lparr>cmd_command = Some ''help'',
              cmd_help = Some (''Print the summary of all registered commands if no arguments '' @
                               ''are given, otherwise print summary of given command.''),
              cmd_hint = None, cmd_func = help_func, cmd_argtable = Some help_args\<rparr>) s"

end
