(* ===== verification/Split_Argv_Spec.thy ===== *)
theory Split_Argv_Spec
  imports Split_Argv
begin

section \<open>The in-place splitter computes the arguments of the line\<close>

text \<open>
  In two steps. The memory of the buffer is related to an automaton on the finished arguments and
  the argument in progress, which needs no memory (a forward simulation: the finished arguments
  stand at the start of the buffer, each with its terminator, and the write position never passes
  the read position). The automaton is then shown to compute the recursive definition
  \<open>split_args\<close>.
\<close>

subsection \<open>The automaton\<close>

type_synonym astate = "split_state_t \<times> string list \<times> string"

fun abs_step :: "char \<Rightarrow> astate \<Rightarrow> astate" where
  "abs_step c (SS_SPACE, dn, cur) =
     (if c = SPACE then (SS_SPACE, dn, cur)
      else if c = QUOTE then (SS_QUOTED_ARG, dn, [])
      else if c = ESCAPE then (SS_ARG_ESCAPED, dn, [])
      else (SS_ARG, dn, [c]))"
| "abs_step c (SS_ARG, dn, cur) =
     (if c = SPACE then (SS_SPACE, dn @ [cur], [])
      else if c = ESCAPE then (SS_ARG_ESCAPED, dn, cur)
      else (SS_ARG, dn, cur @ [c]))"
| "abs_step c (SS_QUOTED_ARG, dn, cur) =
     (if c = QUOTE then (SS_SPACE, dn @ [cur], [])
      else if c = ESCAPE then (SS_QUOTED_ARG_ESCAPED, dn, cur)
      else (SS_QUOTED_ARG, dn, cur @ [c]))"
| "abs_step c (SS_ARG_ESCAPED, dn, cur) = (SS_ARG, dn, cur @ escaped c)"
| "abs_step c (SS_QUOTED_ARG_ESCAPED, dn, cur) = (SS_QUOTED_ARG, dn, cur @ escaped c)"

fun abs_loop :: "nat \<Rightarrow> string \<Rightarrow> astate \<Rightarrow> astate" where
  "abs_loop n [] a = a"
| "abs_loop n (c # cs) a = (if length (fst (snd a)) < n then abs_loop n cs (abs_step c a) else a)"

fun finish_args :: "nat \<Rightarrow> astate \<Rightarrow> string list" where
  "finish_args n (st, dn, cur) = (if st \<noteq> SS_SPACE \<and> length dn < n then dn @ [cur] else dn)"

text \<open>The automaton computes the reference, cut at \<open>n\<close> arguments.\<close>

lemma abs_loop_full: "length dn = n \<Longrightarrow> abs_loop n cs (st, dn, cur) = (st, dn, cur)"
  by (cases cs) simp_all

lemma abs_loop_args_aux:
  "length dn \<le> n \<Longrightarrow>
   finish_args n (abs_loop n cs (SS_SPACE, dn, [])) = take n (dn @ split_args cs) \<and>
   (length dn < n \<longrightarrow>
      finish_args n (abs_loop n cs (SS_ARG, dn, cur)) =
        take n (dn @ (cur @ fst (plain_arg cs)) # split_args (snd (plain_arg cs))) \<and>
      finish_args n (abs_loop n cs (SS_QUOTED_ARG, dn, cur)) =
        take n (dn @ (cur @ fst (quoted_arg cs)) # split_args (snd (quoted_arg cs))))"
proof (induction "length cs" arbitrary: cs dn cur rule: less_induct)
  case less
  show ?case
  proof (cases cs)
    case (Cons c ds)
    have S: "finish_args n (abs_loop n ds (SS_SPACE, d, [])) = take n (d @ split_args ds)" if "length d \<le> n" for d
      using less.hyps [OF _ that, of ds] Cons by simp
    have A: "finish_args n (abs_loop n es (SS_ARG, d, u)) = take n (d @ (u @ fst (plain_arg es)) # split_args (snd (plain_arg es)))"
      and Q: "finish_args n (abs_loop n es (SS_QUOTED_ARG, d, u)) = take n (d @ (u @ fst (quoted_arg es)) # split_args (snd (quoted_arg es)))"
      if "length d < n" "es = ds \<or> es = tl ds" for d u es
      using less.hyps [of es d u] Cons that by auto
    show ?thesis
    proof (cases "length dn = n")
      case False
      with less.prems have n: "length dn < n" by simp
      have esc: "finish_args n (abs_loop n ds (SS_ARG_ESCAPED, dn, u)) =
            take n (dn @ (u @ fst (plain_arg (ESCAPE # ds))) # split_args (snd (plain_arg (ESCAPE # ds))))"
        and qesc: "finish_args n (abs_loop n ds (SS_QUOTED_ARG_ESCAPED, dn, u)) =
            take n (dn @ (u @ fst (quoted_arg (ESCAPE # ds))) # split_args (snd (quoted_arg (ESCAPE # ds))))" for u
        using n A [OF n, of ds] Q [OF n, of ds] A [OF n, of "tl ds"] Q [OF n, of "tl ds"]
        by (cases ds; simp)+
      show ?thesis
        using n Cons S [of dn] S [of "dn @ [cur]"] A [OF n, of ds] Q [OF n, of ds] esc qesc
        by (cases "c = ESCAPE") simp_all
    qed (simp add: abs_loop_full)
  qed (use less.prems in simp)
qed

lemma abs_loop_args: "finish_args n (abs_loop n cs (SS_SPACE, [], [])) = take n (split_args cs)"
  using abs_loop_args_aux [of "[]" n cs] by simp

subsection \<open>The buffer\<close>

definition mem_args :: "string list \<Rightarrow> char list" where
  "mem_args dn = concat (map (\<lambda>a. a @ [NUL]) dn)"

definition arg_ptr :: "string list \<Rightarrow> nat \<Rightarrow> nat" where
  "arg_ptr dn i = length (mem_args (take i dn))"

definition ptrs :: "string list \<Rightarrow> nat option list" where
  "ptrs dn = map (\<lambda>i. Some (arg_ptr dn i)) [0..<length dn]"

text \<open>
  The state of the loop stands for the automaton state \<open>(st, dn, cur)\<close>, with \<open>rest\<close> still to read and
  \<open>av\<close> the array as it was handed over. Between the written part and the part to read is a gap of
  characters that are done with.
\<close>

fun rep :: "nat option list \<Rightarrow> astate \<Rightarrow> char list \<Rightarrow> split_st \<Rightarrow> bool" where
  "rep av (st, dn, cur) rest s \<longleftrightarrow>
     (\<exists>gap. line s = mem_args dn @ cur @ gap @ rest \<and> in_ptr s = length (mem_args dn @ cur @ gap)) \<and>
     out_ptr s = length (mem_args dn @ cur) \<and> ss s = st \<and> argc s = length dn \<and>
     (if st = SS_SPACE then cur = [] else next_arg_start s = length (mem_args dn)) \<and>
     argv s = ptrs dn @ drop (length dn) av \<and> length dn \<le> length av"

lemma mem_args_simps [simp]: "mem_args [] = []" "mem_args (dn @ [a]) = mem_args dn @ a @ [NUL]"
  by (simp_all add: mem_args_def)

lemma length_ptrs [simp]: "length (ptrs dn) = length dn"
  by (simp add: ptrs_def)

lemma ptrs_snoc: "ptrs (dn @ [a]) = ptrs dn @ [Some (length (mem_args dn))]"
  by (simp add: ptrs_def arg_ptr_def)

lemma argv_store:
  assumes "length dn < length av"
  shows "(ptrs dn @ drop (length dn) av)[length dn := Some (length (mem_args dn))] =
    ptrs (dn @ [a]) @ drop (Suc (length dn)) av"
  using assms by (simp add: ptrs_snoc list_update_append Cons_nth_drop_Suc [symmetric])

lemma write_over_gap:
  "(xs @ gap @ c # rest)[length xs := d] = xs @ [d] @ tl (gap @ [c]) @ rest"
  by (cases gap) (simp_all add: list_update_append)

text \<open>
  Writing the next character of the argument, and reading on without a write.
\<close>

lemma rep_write:
  assumes "line s = mem_args dn @ cur @ gap @ c # rest" and "out_ptr s = length (mem_args dn @ cur)"
  shows "write_out d s = Some (s\<lparr>line := mem_args dn @ cur @ [d] @ tl (gap @ [c]) @ rest\<rparr>)"
  using assms write_over_gap [of "mem_args dn @ cur" gap c rest d] by (simp add: write_out_def)

lemma length_tl_gap: "length (tl (gap @ [c])) = length gap"
  by (cases gap) simp_all

lemma split_switch_rep:
  assumes "rep av (st, dn, cur) (c # rest) s" and "length dn < length av"
  obtains d s1 where "split_switch c s = Some (d, s1)" and "line s1 = line s" and "in_ptr s1 = in_ptr s"
    and "out_ptr s1 = out_ptr s"
    and "\<And>st' dn' cur'. abs_step c (st, dn, cur) = (st', dn', cur') \<Longrightarrow>
      mem_args dn' @ cur' = mem_args dn @ cur @ (case d of None \<Rightarrow> [] | Some x \<Rightarrow> [x]) \<and>
      ss s1 = st' \<and> argc s1 = length dn' \<and>
      (if st' = SS_SPACE then cur' = [] else next_arg_start s1 = length (mem_args dn')) \<and>
      argv s1 = ptrs dn' @ drop (length dn') av \<and> length dn' \<le> length av"
proof -
  have s: "ss s = st" "argc s = length dn" "argv s = ptrs dn @ drop (length dn) av"
    "out_ptr s = length (mem_args dn @ cur)"
    "if st = SS_SPACE then cur = [] else next_arg_start s = length (mem_args dn)"
    using assms(1) by auto
  have e: "END_ARG s = Some (Some NUL, s\<lparr>argv := (argv s)[argc s := Some (next_arg_start s)], argc := argc s + 1, ss := SS_SPACE\<rparr>)"
    using assms(2) s by (simp add: END_ARG_def)
  have "split_switch c s \<noteq> None" using e by (cases st) (simp_all add: split_switch_def s(1))
  then obtain d s1 where sw: "split_switch c s = Some (d, s1)" by auto
  have end_store: "(argv s)[argc s := Some (length (mem_args dn))] = ptrs (dn @ [cur]) @ drop (Suc (length dn)) av"
    using argv_store [OF assms(2)] s by simp
  show ?thesis
  proof (rule that [OF sw])
    show "line s1 = line s" "in_ptr s1 = in_ptr s" "out_ptr s1 = out_ptr s"
      using sw e by (cases st; auto simp: split_switch_def s(1) split: if_splits)+
  next
    fix st' dn' cur' assume st: "abs_step c (st, dn, cur) = (st', dn', cur')"
    show "mem_args dn' @ cur' = mem_args dn @ cur @ (case d of None \<Rightarrow> [] | Some x \<Rightarrow> [x]) \<and>
      ss s1 = st' \<and> argc s1 = length dn' \<and>
      (if st' = SS_SPACE then cur' = [] else next_arg_start s1 = length (mem_args dn')) \<and>
      argv s1 = ptrs dn' @ drop (length dn') av \<and> length dn' \<le> length av"
      using sw st e s end_store assms(2)
      by (cases st) (auto simp: split_switch_def escaped_def split: if_splits)
  qed
qed

lemma split_char_rep:
  assumes r: "rep av (st, dn, cur) (c # rest) s" and "length dn < length av"
  shows "\<exists>s'. split_char c s = Some s' \<and> rep av (abs_step c (st, dn, cur)) rest (s'\<lparr>in_ptr := in_ptr s' + 1\<rparr>)"
proof -
  obtain st' dn' cur' where st: "abs_step c (st, dn, cur) = (st', dn', cur')" by (rule prod_cases3)
  from r obtain gap where gap: "line s = mem_args dn @ cur @ gap @ c # rest"
    "in_ptr s = length (mem_args dn @ cur @ gap)" "out_ptr s = length (mem_args dn @ cur)" by auto
  from r assms(2) show ?thesis
  proof (rule split_switch_rep)
    fix d s1
    assume sw: "split_switch c s = Some (d, s1)" and same: "line s1 = line s" "in_ptr s1 = in_ptr s" "out_ptr s1 = out_ptr s"
      and nxt: "\<And>st' dn' cur'. abs_step c (st, dn, cur) = (st', dn', cur') \<Longrightarrow>
      mem_args dn' @ cur' = mem_args dn @ cur @ (case d of None \<Rightarrow> [] | Some x \<Rightarrow> [x]) \<and>
      ss s1 = st' \<and> argc s1 = length dn' \<and>
      (if st' = SS_SPACE then cur' = [] else next_arg_start s1 = length (mem_args dn')) \<and>
      argv s1 = ptrs dn' @ drop (length dn') av \<and> length dn' \<le> length av"
    note n = nxt [OF st]
    have m: "mem_args dn' @ cur' = mem_args dn @ cur @ (case d of None \<Rightarrow> [] | Some x \<Rightarrow> [x])" using n by blast
    note len = arg_cong [OF m, of length]
    show ?thesis
    proof (cases d)
      case None
      then have "split_char c s = Some s1" using sw by (simp add: split_char_def)
      moreover have "line s1 = mem_args dn' @ cur' @ (gap @ [c]) @ rest"
        using m None same gap by (simp flip: append_assoc)
      moreover have "in_ptr s1 + 1 = length (mem_args dn' @ cur' @ (gap @ [c]))" "out_ptr s1 = length (mem_args dn' @ cur')"
        using len None same gap by simp_all
      ultimately show ?thesis using n st by auto
    next
      case (Some x)
      let ?s = "s1\<lparr>line := mem_args dn @ cur @ [x] @ tl (gap @ [c]) @ rest, out_ptr := out_ptr s1 + 1\<rparr>"
      have "write_out x s1 = Some (s1\<lparr>line := mem_args dn @ cur @ [x] @ tl (gap @ [c]) @ rest\<rparr>)"
        using same gap by (intro rep_write) simp_all
      then have "split_char c s = Some ?s" using sw Some by (simp add: split_char_def)
      moreover have "line ?s = mem_args dn' @ cur' @ tl (gap @ [c]) @ rest"
        using m Some by (simp flip: append_assoc)
      moreover have "in_ptr ?s + 1 = length (mem_args dn' @ cur' @ tl (gap @ [c]))" "out_ptr ?s = length (mem_args dn' @ cur')"
        using len Some same gap length_tl_gap [of gap c] by simp_all
      moreover have "ss ?s = ss s1" "argc ?s = argc s1" "next_arg_start ?s = next_arg_start s1" "argv ?s = argv s1"
        by simp_all
      ultimately obtain s2 where s2: "split_char c s = Some s2" "line s2 = mem_args dn' @ cur' @ tl (gap @ [c]) @ rest"
        "in_ptr s2 + 1 = length (mem_args dn' @ cur' @ tl (gap @ [c]))" "out_ptr s2 = length (mem_args dn' @ cur')"
        "ss s2 = ss s1" "argc s2 = argc s1" "next_arg_start s2 = next_arg_start s1" "argv s2 = argv s1"
        by blast
      then show ?thesis using n st by auto
    qed
  qed
qed

lemma abs_step_count: "length (fst (snd (abs_step c a))) \<le> Suc (length (fst (snd a)))"
  by (cases "(c, a)" rule: abs_step.cases) auto

lemma split_loop_rep:
  assumes "rep av a (cs @ NUL # junk) s" and "NUL \<notin> set cs" and "sz_sub argv_size 1 = n" and "n < length av"
    and "length (fst (snd a)) \<le> n"
  shows "\<exists>s' rest. split_loop argv_size s = Some s' \<and> rep av (abs_loop n cs a) rest s' \<and> rest \<noteq> [] \<and>
    length (fst (snd (abs_loop n cs a))) \<le> n"
  using assms
proof (induction cs arbitrary: a s)
  case Nil
  obtain st dn cur where a: "a = (st, dn, cur)" by (rule prod_cases3)
  from Nil.prems(1) a have "in_ptr s < length (line s)" "line s ! in_ptr s = NUL" by (auto simp: nth_append)
  then have "split_loop argv_size s = Some s" by (simp add: split_loop.simps)
  with Nil.prems show ?case by auto
next
  case (Cons c cs)
  obtain st dn cur where a: "a = (st, dn, cur)" by (rule prod_cases3)
  have s: "argc s = length dn" using Cons.prems(1) a by auto
  show ?case
  proof (cases "length dn < n")
    case False
    then have "split_loop argv_size s = Some s" using Cons.prems(3) s by (simp add: split_loop.simps)
    moreover have "abs_loop n (c # cs) a = a" using False a by simp
    ultimately show ?thesis using Cons.prems(1,5) by (metis append_Cons list.distinct(1))
  next
    case True
    have rd: "in_ptr s < length (line s)" "line s ! in_ptr s = c"
      using Cons.prems(1) a by (auto simp: nth_append)
    obtain s1 where s1: "split_char c s = Some s1"
      "rep av (abs_step c a) (cs @ NUL # junk) (s1\<lparr>in_ptr := in_ptr s1 + 1\<rparr>)"
      using split_char_rep [of av st dn cur c "cs @ NUL # junk" s] Cons.prems(1,4) a True by auto
    have "split_loop argv_size s = split_loop argv_size (s1\<lparr>in_ptr := in_ptr s1 + 1\<rparr>)"
      using True rd s1(1) Cons.prems(2,3) s by (subst split_loop.simps) auto
    moreover have "length (fst (snd (abs_step c a))) \<le> n"
      using abs_step_count [of c a] True a by simp
    ultimately show ?thesis
      using Cons.IH [OF s1(2)] Cons.prems(2-4) True a by auto
  qed
qed

lemma split_loop_line: "split_loop argv_size s = Some s' \<Longrightarrow> length (line s') = length (line s)"
proof (induction "length (line s) - in_ptr s" arbitrary: s rule: less_induct)
  case less
  note run = less.prems [unfolded split_loop.simps [of argv_size s] Let_def]
  show ?case
  proof (cases "argc s < sz_sub argv_size 1 \<and> in_ptr s < length (line s) \<and> line s ! in_ptr s \<noteq> NUL")
    case True
    with run obtain t where t: "split_char (line s ! in_ptr s) s = Some t"
      "split_loop argv_size (t\<lparr>in_ptr := in_ptr t + 1\<rparr>) = Some s'" by (auto split: option.splits)
    note l = split_char_length [OF t(1)]
    have "length (line s') = length (line (t\<lparr>in_ptr := in_ptr t + 1\<rparr>))"
      using True l by (intro less.hyps [OF _ t(2)]) auto
    then show ?thesis using l by simp
  qed (use run in \<open>auto split: if_splits\<close>)
qed

subsection \<open>The strings at the pointers\<close>

lemma mem_args_append: "mem_args (xs @ ys) = mem_args xs @ mem_args ys"
  by (simp add: mem_args_def)

lemma c_string_args:
  assumes "i < length dn" and "NUL \<notin> set (dn ! i)"
  shows "c_string (mem_args dn @ rest) (arg_ptr dn i) = dn ! i"
proof -
  have "mem_args dn = mem_args (take i dn) @ (dn ! i) @ NUL # mem_args (drop (Suc i) dn)"
    using id_take_nth_drop [OF assms(1)] mem_args_append [of "take i dn" "dn ! i # drop (Suc i) dn"]
    by (simp add: mem_args_def)
  moreover have "takeWhile (\<lambda>c. c \<noteq> NUL) ((dn ! i) @ NUL # xs) = dn ! i" for xs
    using assms(2) by (subst takeWhile_append2) auto
  ultimately show ?thesis by (simp add: c_string_def arg_ptr_def)
qed

lemma abs_step_no_nul:
  "c \<noteq> NUL \<Longrightarrow> (\<forall>x\<in>set (cur # dn). NUL \<notin> set x) \<Longrightarrow> abs_step c (st, dn, cur) = (st', dn', cur') \<Longrightarrow>
   \<forall>x\<in>set (cur' # dn'). NUL \<notin> set x"
  by (cases st) (auto simp: escaped_def split: if_splits)

lemma abs_loop_no_nul:
  "NUL \<notin> set cs \<Longrightarrow> (\<forall>x\<in>set (cur # dn). NUL \<notin> set x) \<Longrightarrow> abs_loop n cs (st, dn, cur) = (st', dn', cur') \<Longrightarrow>
   \<forall>x\<in>set (cur' # dn'). NUL \<notin> set x"
proof (induction cs arbitrary: st dn cur)
  case (Cons c cs)
  obtain st1 dn1 cur1 where st: "abs_step c (st, dn, cur) = (st1, dn1, cur1)" by (rule prod_cases3)
  have "\<forall>x\<in>set (cur1 # dn1). NUL \<notin> set x" using abs_step_no_nul [OF _ Cons.prems(2) st] Cons.prems(1) by auto
  with Cons.IH [of cur1 dn1 st1] Cons.prems st show ?case by (auto split: if_splits)
qed auto

text \<open>What the function returns for a line with the text \<open>cs\<close>.\<close>

lemma split_argv_result:
  assumes "NUL \<notin> set cs" and "1 \<le> argv_size" and "argv_size < SIZE_LIM" and "argv_size \<le> length av"
  shows "\<exists>m av'. esp_console_split_argv (cs @ NUL # junk) av argv_size = Some (length (take (argv_size - 1) (split_args cs)), m, av') \<and>
    length m = length (cs @ NUL # junk) \<and>
    length av' = length av \<and> av' ! length (take (argv_size - 1) (split_args cs)) = None \<and>
    map (map_option (c_string m)) (take (length (take (argv_size - 1) (split_args cs))) av') =
      map Some (take (argv_size - 1) (split_args cs))"
proof -
  define n where "n = argv_size - 1"
  have sz: "sz_sub argv_size 1 = n" using assms(2,3) by (simp add: n_def sz_sub_exact)
  have nav: "n < length av" using assms(2,4) by (simp add: n_def)
  define s0 where "s0 = \<lparr>ss = SS_SPACE, argc = 0, next_arg_start = 0, in_ptr = 0, out_ptr = 0,
      line = cs @ NUL # junk, argv = av\<rparr>"
  have "rep av (SS_SPACE, [], []) (cs @ NUL # junk) s0" by (simp add: s0_def ptrs_def)
  then obtain s rest where s: "split_loop argv_size s0 = Some s" "rep av (abs_loop n cs (SS_SPACE, [], [])) rest s"
    "rest \<noteq> []" "length (fst (snd (abs_loop n cs (SS_SPACE, [], [])))) \<le> n"
    using split_loop_rep [OF _ assms(1) sz nav, of "(SS_SPACE, [], [])" junk s0] by auto
  obtain st dn cur where a: "abs_loop n cs (SS_SPACE, [], []) = (st, dn, cur)" by (rule prod_cases3)
  have nul: "\<forall>x\<in>set (cur # dn). NUL \<notin> set x" using abs_loop_no_nul [OF assms(1) _ a] by simp
  have args: "take n (split_args cs) = finish_args n (st, dn, cur)" using abs_loop_args [of n cs] a by simp
  from s(2) a obtain gap where gap: "line s = mem_args dn @ cur @ gap @ rest" "out_ptr s = length (mem_args dn @ cur)"
    and v: "ss s = st" "argc s = length dn" "argv s = ptrs dn @ drop (length dn) av"
      "if st = SS_SPACE then cur = [] else next_arg_start s = length (mem_args dn)" by auto
  obtain g gs where g: "gap @ rest = g # gs" using s(3) by (cases "gap @ rest") auto
  define m where "m = mem_args (dn @ [cur]) @ gs"
  have w: "write_out NUL s = Some (s\<lparr>line := m\<rparr>)"
    using gap g by (simp add: write_out_def m_def list_update_append)
  have dn: "length dn \<le> n" using s(4) a by simp
  define out where "out = take n (split_args cs)"
  define av' where "av' = ptrs out @ None # drop (Suc (length out)) av"
  have out: "out = (if st \<noteq> SS_SPACE \<and> length dn < n then dn @ [cur] else dn)" using args by (simp add: out_def)
  have lout: "length out \<le> n" using out dn by (auto split: if_splits)
  have drp: "drop k av = av ! k # drop (Suc k) av" if "k \<le> n" for k
    using that nav by (simp add: Cons_nth_drop_Suc)
  have end_av: "(ptrs out @ drop (length out) av)[length out := None] = av'"
    using drp [OF lout] by (simp add: av'_def list_update_append)
  have store: "(ptrs dn @ drop (length dn) av)[length dn := Some (length (mem_args dn))] = ptrs (dn @ [cur]) @ drop (Suc (length dn)) av"
    using argv_store [of dn av cur] dn nav by simp
  have run: "esp_console_split_argv (cs @ NUL # junk) av argv_size = Some (length out, m, av')"
    using s(1) w sz v out end_av store nav lout dn
    by (auto simp: esp_console_split_argv_def s0_def [symmetric] split: if_splits)
  have "c_string m (arg_ptr out i) = out ! i" if "i < length out" for i
  proof -
    have pre: "take i (dn @ [cur]) = take i out" "(dn @ [cur]) ! i = out ! i" "i < length (dn @ [cur])"
      using that out by (auto simp: nth_append split: if_splits)
    have "NUL \<notin> set ((dn @ [cur]) ! i)" using nul nth_mem [OF pre(3)] by auto
    from c_string_args [OF pre(3) this, of gs] show ?thesis by (simp only: m_def pre arg_ptr_def)
  qed
  then have "map (map_option (c_string m)) (take (length out) av') = map Some out"
    by (intro nth_equalityI) (simp_all add: av'_def ptrs_def)
  moreover have "length m = length (cs @ NUL # junk)"
  proof -
    have "length (line s) = length (cs @ NUL # junk)" using split_loop_line [OF s(1)] by (simp add: s0_def)
    then show ?thesis using gap(1) g by (simp add: m_def)
  qed
  ultimately show ?thesis
    using run lout nav unfolding n_def [symmetric] out_def [symmetric]
    by (intro exI [of _ m] exI [of _ av']) (simp add: av'_def nth_append)
qed

subsection \<open>Claims\<close>

text \<open>
  Claim C28. \<open>esp_console_split_argv\<close> splits the line in place. On a terminated line and an array
  with room for \<open>argv_size\<close> pointers it never leaves the buffers, and returns the arguments of the
  reference definition, at most \<open>argv_size - 1\<close> of them: their number, in the array the pointers to
  their strings inside the line, which keeps its size, and a null pointer after them.
\<close>

theorem split_argv_refines_split_args:
  assumes "NUL \<notin> set cs" and "1 \<le> argv_size" and "argv_size < SIZE_LIM" and "argv_size \<le> length av"
  shows "\<exists>m av'. esp_console_split_argv (cs @ NUL # junk) av argv_size = Some (length (take (argv_size - 1) (split_args cs)), m, av') \<and>
    length m = length (cs @ NUL # junk) \<and>
    length av' = length av \<and> av' ! length (take (argv_size - 1) (split_args cs)) = None \<and>
    map (map_option (c_string m)) (take (length (take (argv_size - 1) (split_args cs))) av') =
      map Some (take (argv_size - 1) (split_args cs))"
  using split_argv_result [OF assms] .

theorem split_argv_refines_split_args_witness:
  "\<exists>m av'. esp_console_split_argv (''ab c'' @ NUL # []) [None, None, None, None] 4 = Some (2, m, av') \<and>
    length m = 5 \<and> length av' = 4 \<and> av' ! 2 = None \<and>
    map (map_option (c_string m)) (take 2 av') = [Some ''ab'', Some ''c'']"
proof -
  have "take (4 - 1) (split_args ''ab c'') = [''ab'', ''c'']" "length [''ab'', ''c''] = 2" "length (''ab c'' @ NUL # []) = 5"
    by simp_all
  moreover have "NUL \<notin> set ''ab c''" "1 \<le> (4::nat)" "4 < SIZE_LIM" "4 \<le> length [None, None, None, None :: nat option]"
    "length [None, None, None, None :: nat option] = 4"
    by simp_all
  ultimately show ?thesis
    using split_argv_refines_split_args [of "''ab c''" 4 "[None, None, None, None]" "[]"] by (simp only: list.map simp_thms)
qed

text \<open>
  A way to write any arguments: each between quotes, with a backslash before the quotes and the
  backslashes in it, and a space between two.
\<close>

fun esc_arg :: "string \<Rightarrow> string" where
  "esc_arg [] = []"
| "esc_arg (c # cs) = (if c = QUOTE \<or> c = ESCAPE then [ESCAPE, c] else [c]) @ esc_arg cs"

fun quote_args :: "string list \<Rightarrow> string" where
  "quote_args [] = []"
| "quote_args (a # as) = [QUOTE] @ esc_arg a @ [QUOTE, SPACE] @ quote_args as"

lemma quoted_esc_arg: "quoted_arg (esc_arg a @ QUOTE # r) = (a, r)"
  by (induction a) (simp_all add: escaped_def)

lemma split_quote_args: "split_args (quote_args as) = as"
  by (induction as) (simp_all add: quoted_esc_arg)

lemma esc_arg_no_nul: "NUL \<notin> set a \<Longrightarrow> NUL \<notin> set (esc_arg a)"
  by (induction a) auto

lemma quote_args_no_nul: "(\<And>a. a \<in> set as \<Longrightarrow> NUL \<notin> set a) \<Longrightarrow> NUL \<notin> set (quote_args as)"
  by (induction as) (auto dest: esc_arg_no_nul)

text \<open>
  Claim C29. Every list of arguments can be passed on a command line. Arguments that are quoted
  as described come back from \<open>esp_console_split_argv\<close> unchanged, whatever characters, spaces,
  quotes and backslashes they contain, when there is room for them in the array.
\<close>

theorem quote_split_roundtrip:
  assumes "list_all (\<lambda>a. NUL \<notin> set a) as" and "length as < argv_size" and "argv_size < SIZE_LIM" and "argv_size \<le> length av"
  shows "\<exists>m av'. esp_console_split_argv (quote_args as @ NUL # junk) av argv_size = Some (length as, m, av') \<and>
    map (map_option (c_string m)) (take (length as) av') = map Some as"
proof -
  have "NUL \<notin> set (quote_args as)" using assms(1) by (intro quote_args_no_nul) (simp add: list_all_iff)
  moreover have "take (argv_size - 1) as = as" using assms(2) by simp
  ultimately show ?thesis
    using split_argv_result [of "quote_args as" argv_size av junk] assms(2-4) by (auto simp: split_quote_args)
qed

theorem quote_split_roundtrip_witness:
  "\<exists>m av'. esp_console_split_argv (quote_args [''say'', [QUOTE, ESCAPE, SPACE]] @ NUL # []) (replicate 4 None) 4 = Some (2, m, av') \<and>
    map (map_option (c_string m)) (take 2 av') = [Some ''say'', Some [QUOTE, ESCAPE, SPACE]]"
proof -
  have "list_all (\<lambda>a. NUL \<notin> set a) [''say'', [QUOTE, ESCAPE, SPACE]]" "length [''say'', [QUOTE, ESCAPE, SPACE]] < 4"
    "4 < SIZE_LIM" "4 \<le> length (replicate 4 None :: nat option list)" "length [''say'', [QUOTE, ESCAPE, SPACE]] = 2"
    by simp_all
  then show ?thesis
    using quote_split_roundtrip [of "[''say'', [QUOTE, ESCAPE, SPACE]]" 4 "replicate 4 None" "[]"] by (simp only: list.map simp_thms)
qed

text \<open>An array size of 0 is taken as the largest one: the first argument is written outside the array.\<close>

theorem split_argv_size_zero: "esp_console_split_argv (''a b'' @ [NUL]) [] 0 = None"
proof -
  have "sz_sub 0 1 = 4294967295" by (simp add: sz_sub_def)
  then show ?thesis
    by (simp add: esp_console_split_argv_def split_loop.simps split_char_def split_switch_def write_out_def END_ARG_def)
qed

end
