(* ===== verification/Console_Spec.thy ===== *)
theory Console_Spec
  imports Console Split_Argv_Spec
begin

section \<open>Properties of the console\<close>

text \<open>
  The command list holds one item per name, the last registration of a name counts, and running a
  line splits it as the reference does and calls the handler of its first argument.
\<close>

subsection \<open>The command list\<close>

definition console_ok :: "console \<Rightarrow> bool" where
  "console_ok s \<longleftrightarrow> distinct (map command (s_cmd_list s)) \<and> distinct (map item_addr (s_cmd_list s)) \<and>
     (case s_tmp_line_buf s of None \<Rightarrow> True | Some b \<Rightarrow> length b = max_cmdline_length (s_config s))"

lemma find_command_iff:
  assumes "console_ok s"
  shows "find_command_by_name name s = Some it \<longleftrightarrow> it \<in> set (s_cmd_list s) \<and> command it = name"
proof
  assume "find_command_by_name name s = Some it"
  then show "it \<in> set (s_cmd_list s) \<and> command it = name"
    by (auto simp: find_command_by_name_def find_Some_iff)
next
  assume r: "it \<in> set (s_cmd_list s) \<and> command it = name"
  then obtain it' where f: "find_command_by_name name s = Some it'"
    by (cases "find_command_by_name name s") (auto simp: find_command_by_name_def find_None_iff)
  then have "it' \<in> set (s_cmd_list s)" "command it' = name"
    by (auto simp: find_command_by_name_def find_Some_iff)
  with r assms have "it' = it" by (auto simp: console_ok_def distinct_map inj_on_def)
  with f show "find_command_by_name name s = Some it" by simp
qed

lemma find_command_None: "find_command_by_name name s = None \<longleftrightarrow> name \<notin> command ` set (s_cmd_list s)"
  by (auto simp: find_command_by_name_def find_None_iff)

text \<open>What a successful registration leaves.\<close>

lemma register_cases:
  assumes r: "esp_console_cmd_register sy ia ha (Some c) s = Some (ESP_OK, s')" and ok: "console_ok s"
    and fresh: "\<And>a. ia = Some a \<Longrightarrow> a \<notin> item_addr ` set (s_cmd_list s)"
  obtains name it where "cmd_command c = Some name" and "SPACE \<notin> set name"
    and "s_cmd_list s' = filter (\<lambda>x. command x \<noteq> name) (s_cmd_list s) @ [it]"
    and "command it = name" and "func it = cmd_func c" and "item_help it = cmd_help c" and "argtable it = cmd_argtable c"
    and "item_addr it \<notin> item_addr ` set (filter (\<lambda>x. command x \<noteq> name) (s_cmd_list s))"
    and "s_config s' = s_config s" and "s_tmp_line_buf s' = s_tmp_line_buf s"
proof -
  from r obtain name where name: "cmd_command c = Some name" "SPACE \<notin> set name"
    by (auto simp: esp_console_cmd_register_def split: option.splits if_splits)
  show ?thesis
  proof (cases "find_command_by_name name s")
    case None
    then have all: "filter (\<lambda>x. command x \<noteq> name) (s_cmd_list s) = s_cmd_list s"
      by (auto simp: find_command_None filter_id_conv)
    from r name None obtain a where a: "ia = Some a"
      by (cases ia) (auto simp: esp_console_cmd_register_def)
    define it where "it = \<lparr>item_addr = a, command = name, item_help = cmd_help c,
        hint = fst (new_hint sy ha c None (hint_heap s)), func = cmd_func c, argtable = cmd_argtable c\<rparr>"
    have s': "s' = s\<lparr>s_cmd_list := s_cmd_list s @ [it], hint_heap := snd (new_hint sy ha c None (hint_heap s))\<rparr>"
      using r name None a by (simp add: esp_console_cmd_register_def case_prod_beta it_def)
    show ?thesis
      using fresh [OF a] by (intro that [OF name, of it]) (simp_all add: s' all it_def)
  next
    case (Some item)
    then have item: "item \<in> set (s_cmd_list s)" "command item = name" using find_command_iff [OF ok] by auto
    have "item_addr x = item_addr item \<longleftrightarrow> command x = name" if "x \<in> set (s_cmd_list s)" for x
      using ok item that by (auto simp: console_ok_def distinct_map inj_on_def)
    then have all: "filter (\<lambda>x. item_addr x \<noteq> item_addr item) (s_cmd_list s) = filter (\<lambda>x. command x \<noteq> name) (s_cmd_list s)"
      by (intro filter_cong) auto
    moreover have "item_addr item \<notin> item_addr ` set (filter (\<lambda>x. item_addr x \<noteq> item_addr item) (s_cmd_list s))" by auto
    moreover from r name Some obtain h where h: "free_hint (hint item) (hint_heap s) = Some h"
      by (cases "free_hint (hint item) (hint_heap s)") (auto simp: esp_console_cmd_register_def)
    define it where "it = item\<lparr>command := name, item_help := cmd_help c, hint := fst (new_hint sy ha c (hint item) h),
        argtable := cmd_argtable c, func := cmd_func c\<rparr>"
    have s': "s' = s\<lparr>s_cmd_list := filter (\<lambda>x. item_addr x \<noteq> item_addr item) (s_cmd_list s) @ [it],
        hint_heap := snd (new_hint sy ha c (hint item) h)\<rparr>"
      using r name Some h by (simp add: esp_console_cmd_register_def case_prod_beta it_def)
    ultimately show ?thesis
      by (intro that [OF name, of it]) (simp_all add: s' it_def)
  qed
qed

lemma register_ok:
  assumes r: "esp_console_cmd_register sy ia ha cmd s = Some (err, s')" and ok: "console_ok s"
    and fresh: "\<And>a. ia = Some a \<Longrightarrow> a \<notin> item_addr ` set (s_cmd_list s)"
  shows "console_ok s'"
proof (cases "err = ESP_OK")
  case True
  then obtain c where c: "cmd = Some c" using r by (cases cmd) (auto simp: esp_console_cmd_register_def)
  from r [unfolded c True] ok fresh show ?thesis
  proof (rule register_cases)
    fix name it
    assume n: "s_cmd_list s' = filter (\<lambda>x. command x \<noteq> name) (s_cmd_list s) @ [it]" "command it = name"
      "item_addr it \<notin> item_addr ` set (filter (\<lambda>x. command x \<noteq> name) (s_cmd_list s))"
      "s_config s' = s_config s" "s_tmp_line_buf s' = s_tmp_line_buf s"
    show ?thesis
      using ok n by (auto simp: console_ok_def distinct_map_filter split: option.splits)
  qed
next
  case False
  then have "s' = s"
    using r by (auto simp: esp_console_cmd_register_def case_prod_beta split: option.splits if_splits)
  with ok show ?thesis by simp
qed

subsection \<open>Steps\<close>

inductive console_step :: "console \<Rightarrow> console \<Rightarrow> bool" where
  init: "esp_console_init b cf s = (err, s') \<Longrightarrow> console_step s s'"
| deinit: "esp_console_deinit s = Some (err, s') \<Longrightarrow> console_step s s'"
| register: "esp_console_cmd_register sy ia ha cmd s = Some (err, s') \<Longrightarrow>
    (\<And>a. ia = Some a \<Longrightarrow> a \<notin> item_addr ` set (s_cmd_list s)) \<Longrightarrow>
    (\<And>a. ha = Some a \<Longrightarrow> hint_heap s a = None) \<Longrightarrow> console_step s s'"
| register_help: "esp_console_register_help_command sy ia ha hf htab s = Some (err, s') \<Longrightarrow>
    (\<And>a. ia = Some a \<Longrightarrow> a \<notin> item_addr ` set (s_cmd_list s)) \<Longrightarrow>
    (\<And>a. ha = Some a \<Longrightarrow> hint_heap s a = None) \<Longrightarrow> console_step s s'"
| run: "esp_console_run H b cmdline s (w::unit) = Some (err, ret, s', w') \<Longrightarrow> console_step s s'"

definition console_initial :: console where
  "console_initial = \<lparr>s_cmd_list = [], s_config = \<lparr>max_cmdline_length = 0, max_cmdline_args = 0,
     heap_alloc_caps = MALLOC_CAP_DEFAULT, hint_color = 0, hint_bold = 0\<rparr>, s_tmp_line_buf = None, hint_heap = Map.empty\<rparr>"

inductive console_reach :: "console \<Rightarrow> bool" where
  start: "console_reach console_initial"
| step: "console_reach s \<Longrightarrow> console_step s s' \<Longrightarrow> console_reach s'"

lemma split_argv_line:
  assumes "esp_console_split_argv ln av n = Some (k, m, av')"
  shows "length m = length ln"
proof -
  obtain s where "split_loop n \<lparr>ss = SS_SPACE, argc = 0, next_arg_start = 0, in_ptr = 0, out_ptr = 0, line = ln, argv = av\<rparr> = Some s"
    and "length m = length (line s)"
    using assms by (auto simp: esp_console_split_argv_def write_out_def bind_eq_Some_conv split: if_splits)
  with split_loop_line [OF this(1)] show ?thesis by simp
qed

lemma strlcpy_length: "strlcpy dst src n = Some d \<Longrightarrow> length d = length dst"
  by (auto simp: strlcpy_def Let_def split: if_splits)

lemma run_keeps:
  assumes "esp_console_run H b cmdline s w = Some (err, ret, s', w')" and "console_ok s"
  shows "s_cmd_list s' = s_cmd_list s \<and> s_config s' = s_config s \<and> hint_heap s' = hint_heap s \<and> console_ok s'"
proof (cases "s_tmp_line_buf s = None \<or> \<not> b")
  case True
  then show ?thesis using assms by (auto simp: esp_console_run_def split: option.splits)
next
  case False
  then obtain buf where buf: "s_tmp_line_buf s = Some buf" by auto
  obtain d where d: "strlcpy buf cmdline (max_cmdline_length (s_config s)) = Some d"
    using assms(1) False buf by (auto simp: esp_console_run_def bind_eq_Some_conv)
  obtain n m av where m: "esp_console_split_argv d (replicate (max_cmdline_args (s_config s)) None)
      (max_cmdline_args (s_config s)) = Some (n, m, av)"
    using assms(1) False buf d by (auto simp: esp_console_run_def bind_eq_Some_conv)
  have "s' = s\<lparr>s_tmp_line_buf := Some m\<rparr>"
    using assms(1) False buf d m
    by (auto simp: esp_console_run_def Let_def case_prod_beta split: if_splits option.splits)
  then show ?thesis
    using assms(2) split_argv_line [OF m] strlcpy_length [OF d] buf by (auto simp: console_ok_def)
qed

lemma console_step_ok: "console_step s s' \<Longrightarrow> console_ok s \<Longrightarrow> console_ok s'"
proof (induction rule: console_step.induct)
  case (init b cf s err s')
  then show ?case
    by (auto simp: esp_console_init_def console_ok_def Let_def Option.is_none_def split: option.splits if_splits)
next
  case (deinit s err s')
  then show ?case by (auto simp: esp_console_deinit_def console_ok_def bind_eq_Some_conv split: if_splits)
next
  case (register sy ia ha cmd s err s')
  from register_ok [OF register.hyps(1) register.prems register.hyps(2)] show ?case .
next
  case (register_help sy ia ha hf htab s err s')
  from register_ok [OF register_help.hyps(1) [unfolded esp_console_register_help_command_def]
      register_help.prems register_help.hyps(2)] show ?case .
next
  case (run H b cmdline s w err ret s' w')
  from run_keeps [OF run.hyps run.prems] show ?case by simp
qed

lemma console_reach_ok: "console_reach s \<Longrightarrow> console_ok s"
proof (induction rule: console_reach.induct)
  case start
  show ?case by (simp add: console_initial_def console_ok_def)
qed (rule console_step_ok)

subsection \<open>Running a line\<close>

lemma strlcpy_line:
  assumes "length buf = n" and "0 < n"
  shows "strlcpy buf cmdline n = Some (take (n - 1) cmdline @ NUL # drop (length (take (n - 1) cmdline) + 1) buf)"
  using assms by (auto simp: strlcpy_def Let_def)

definition line_args :: "string \<Rightarrow> console \<Rightarrow> string list" where
  "line_args cmdline s =
     take (max_cmdline_args (s_config s) - 1) (split_args (take (max_cmdline_length (s_config s) - 1) cmdline))"

lemma run_result:
  assumes ok: "console_ok s" and "s_tmp_line_buf s = Some buf" and "NUL \<notin> set cmdline"
    and "0 < max_cmdline_length (s_config s)" and "1 \<le> max_cmdline_args (s_config s)" and "max_cmdline_args (s_config s) < SIZE_LIM"
  shows "\<exists>s'. s_cmd_list s' = s_cmd_list s \<and> s_config s' = s_config s \<and> s_tmp_line_buf s' \<noteq> None \<and>
    esp_console_run H True cmdline s w =
      Some (case line_args cmdline s of
              [] \<Rightarrow> (ESP_ERR_INVALID_ARG, None, s', w)
            | name # _ \<Rightarrow>
                (case find_command_by_name name s of
                   None \<Rightarrow> (ESP_ERR_NOT_FOUND, None, s', w)
                 | Some it \<Rightarrow> (ESP_OK, Some (fst (H (func it) (line_args cmdline s) w)), s', snd (H (func it) (line_args cmdline s) w))))"
proof -
  let ?n = "max_cmdline_args (s_config s)" and ?len = "max_cmdline_length (s_config s)"
  let ?cs = "take (?len - 1) cmdline"
  have blen: "length buf = ?len" using ok assms(2) by (simp add: console_ok_def)
  have nul: "NUL \<notin> set ?cs" using assms(3) by (meson in_set_takeD)
  define junk where "junk = drop (length ?cs + 1) buf"
  have cp: "strlcpy buf cmdline ?len = Some (?cs @ NUL # junk)"
    using strlcpy_line [OF blen assms(4)] by (simp add: junk_def)
  define as where "as = line_args cmdline s"
  obtain m av where m: "esp_console_split_argv (?cs @ NUL # junk) (replicate ?n None) ?n = Some (length as, m, av)"
    and args: "map (map_option (c_string m)) (take (length as) av) = map Some as"
    using split_argv_result [OF nul assms(5,6), of "replicate ?n None" junk] by (auto simp: as_def line_args_def)
  have nth: "\<exists>p. av ! i = Some p \<and> c_string m p = as ! i" and len: "length as \<le> length av" if "i < length as" for i
  proof -
    from map_eq_imp_length_eq [OF args] show "length as \<le> length av" by simp
    with arg_cong [OF args, of "\<lambda>xs. xs ! i"] that show "\<exists>p. av ! i = Some p \<and> c_string m p = as ! i" by auto
  qed
  have strs: "map (\<lambda>q. c_string m (the q)) (take (length as) av) = as"
  proof (rule nth_equalityI)
    show "length (map (\<lambda>q. c_string m (the q)) (take (length as) av)) = length as"
      using map_eq_imp_length_eq [OF args] by simp
    then show "map (\<lambda>q. c_string m (the q)) (take (length as) av) ! i = as ! i"
      if "i < length (map (\<lambda>q. c_string m (the q)) (take (length as) av))" for i
      using nth [of i] that by auto
  qed
  let ?s = "s\<lparr>s_tmp_line_buf := Some m\<rparr>"
  have find: "find_command_by_name x ?s = find_command_by_name x s" for x by (simp add: find_command_by_name_def)
  show ?thesis
  proof (cases as)
    case Nil
    then show ?thesis
      using assms(2) cp m by (intro exI [of _ ?s]) (simp add: esp_console_run_def as_def [symmetric])
  next
    case (Cons name rest)
    then obtain p where p: "av ! 0 = Some p" "c_string m p = name" using nth [of 0] by auto
    show ?thesis
      using assms(2) cp m p Cons strs find
      by (intro exI [of _ ?s]) (auto simp: esp_console_run_def as_def [symmetric] case_prod_beta split: option.split)
  qed
qed

subsection \<open>A console for the witnesses\<close>

definition demo_config :: esp_console_config_t where
  "demo_config = \<lparr>max_cmdline_length = 16, max_cmdline_args = 4, heap_alloc_caps = 1, hint_color = 33, hint_bold = 0\<rparr>"

definition demo_cmd :: "nat \<Rightarrow> esp_console_cmd_t" where
  "demo_cmd f = \<lparr>cmd_command = Some ''led'', cmd_help = None, cmd_hint = None, cmd_func = f, cmd_argtable = None\<rparr>"

definition demo_item :: "nat \<Rightarrow> cmd_item_t" where
  "demo_item f = \<lparr>item_addr = 50, command = ''led'', item_help = None, hint = None, func = f, argtable = None\<rparr>"

definition demo_console :: console where
  "demo_console = console_initial\<lparr>s_config := demo_config, s_tmp_line_buf := Some (replicate 16 NUL)\<rparr>"

definition demo_console_led :: "nat \<Rightarrow> console" where
  "demo_console_led f = demo_console\<lparr>s_cmd_list := [demo_item f]\<rparr>"

lemma demo_console_reach: "console_reach demo_console"
proof -
  have "esp_console_init True (Some demo_config) console_initial = (ESP_OK, demo_console)"
    by (simp add: esp_console_init_def demo_console_def demo_config_def console_initial_def)
  from console_reach.step [OF console_reach.start console_step.init [OF this]] show ?thesis .
qed

lemma demo_led_eq: "esp_console_cmd_register (\<lambda>_. []) (Some 50) None (Some (demo_cmd f)) demo_console = Some (ESP_OK, demo_console_led f)"
  by (simp add: esp_console_cmd_register_def demo_cmd_def demo_console_def console_initial_def demo_console_led_def
      demo_item_def find_command_by_name_def new_hint_def)

lemma demo_led_reach: "console_reach (demo_console_led f)"
  by (rule console_reach.step [OF demo_console_reach console_step.register [OF demo_led_eq]])
    (simp_all add: demo_console_def console_initial_def)

subsection \<open>Claims\<close>

text \<open>
  Claim C30. What running a line does, in every reachable console that is initialised for lines
  and at least one argument: the line, cut to the buffer, is split into arguments; with none the
  call reports an invalid argument; with a name that is not registered it reports not found;
  otherwise it calls the handler of that name with the arguments and stores its result. The list
  of commands is not changed.
\<close>

theorem console_run_dispatches:
  assumes "console_reach s" and "s_tmp_line_buf s = Some buf" and "NUL \<notin> set cmdline"
    and "0 < max_cmdline_length (s_config s)" and "1 \<le> max_cmdline_args (s_config s)" and "max_cmdline_args (s_config s) < SIZE_LIM"
  shows "\<exists>s'. s_cmd_list s' = s_cmd_list s \<and> s_config s' = s_config s \<and> s_tmp_line_buf s' \<noteq> None \<and>
    esp_console_run H True cmdline s w =
      Some (case line_args cmdline s of
              [] \<Rightarrow> (ESP_ERR_INVALID_ARG, None, s', w)
            | name # _ \<Rightarrow>
                (case find_command_by_name name s of
                   None \<Rightarrow> (ESP_ERR_NOT_FOUND, None, s', w)
                 | Some it \<Rightarrow> (ESP_OK, Some (fst (H (func it) (line_args cmdline s) w)), s', snd (H (func it) (line_args cmdline s) w))))"
  using run_result [OF console_reach_ok [OF assms(1)] assms(2-)] .

theorem console_run_dispatches_witness:
  "\<exists>s'. esp_console_run (\<lambda>f as w. (int f + int (length as), f # w)) True ''led on'' (demo_console_led 7) [] =
     Some (ESP_OK, Some 9, s', [7])"
proof -
  have buf: "s_tmp_line_buf (demo_console_led 7) = Some (replicate 16 NUL)" by (simp add: demo_console_led_def demo_console_def)
  have cfg: "s_config (demo_console_led 7) = demo_config" by (simp add: demo_console_led_def demo_console_def)
  have args: "line_args ''led on'' (demo_console_led 7) = [''led'', ''on'']"
    by (simp add: line_args_def cfg demo_config_def)
  have find: "find_command_by_name ''led'' (demo_console_led 7) = Some (demo_item 7)"
    by (simp add: find_command_by_name_def demo_console_led_def demo_item_def)
  show ?thesis
    using console_run_dispatches [OF demo_led_reach buf, of "''led on''" "\<lambda>f as w. (int f + int (length as), f # w)" "[]"]
      cfg args find
    by (auto simp: demo_config_def demo_item_def)
qed

text \<open>
  Claim C31. Commands are unique and the last registration counts. In every reachable console no
  two items have the same name; after a registration that succeeds, the name leads to an item with
  the new handler, help and argument table, and every other name leads where it led before.
\<close>

theorem console_register_last_wins:
  assumes "console_reach s" and r: "esp_console_cmd_register sy ia ha (Some c) s = Some (ESP_OK, s')"
    and "cmd_command c = Some name" and fresh: "\<And>a. ia = Some a \<Longrightarrow> a \<notin> item_addr ` set (s_cmd_list s)"
  shows "distinct (map command (s_cmd_list s')) \<and>
    (\<exists>it. find_command_by_name name s' = Some it \<and> func it = cmd_func c \<and> item_help it = cmd_help c \<and> argtable it = cmd_argtable c) \<and>
    (\<forall>other. other = name \<or> find_command_by_name other s' = find_command_by_name other s)"
proof -
  note ok = console_reach_ok [OF assms(1)]
  have ok': "console_ok s'" using register_ok [OF r ok fresh] .
  from r ok fresh show ?thesis
  proof (rule register_cases)
    fix name' it
    assume it: "cmd_command c = Some name'"
      "s_cmd_list s' = filter (\<lambda>x. command x \<noteq> name') (s_cmd_list s) @ [it]" "command it = name'"
      "func it = cmd_func c" "item_help it = cmd_help c" "argtable it = cmd_argtable c"
    have n: "name' = name" using it(1) assms(3) by simp
    have "find_command_by_name name s' = Some it"
      using it n by (simp add: find_command_iff [OF ok'])
    moreover have "find_command_by_name other s' = find_command_by_name other s" if "other \<noteq> name" for other
    proof (cases "find_command_by_name other s")
      case None
      then have "find_command_by_name other s' = None" using that it(2,3) n by (auto simp: find_command_None)
      with None show ?thesis by simp
    next
      case (Some x)
      then have "x \<in> set (s_cmd_list s)" "command x = other" using find_command_iff [OF ok] by auto
      then have "find_command_by_name other s' = Some x" using that it(2,3) n by (simp add: find_command_iff [OF ok'])
      with Some show ?thesis by simp
    qed
    ultimately show ?thesis using ok' it(4-6) unfolding console_ok_def by blast
  qed
qed

theorem console_register_last_wins_witness:
  "\<exists>s'. esp_console_cmd_register (\<lambda>_. []) (Some 60) None (Some (demo_cmd 8)) (demo_console_led 7) = Some (ESP_OK, s') \<and>
     (\<exists>it. find_command_by_name ''led'' s' = Some it \<and> func it = 8)"
proof -
  have e: "esp_console_cmd_register (\<lambda>_. []) (Some 60) None (Some (demo_cmd 8)) (demo_console_led 7) =
      Some (ESP_OK, demo_console_led 8)"
    by (simp add: esp_console_cmd_register_def demo_cmd_def demo_console_led_def demo_item_def find_command_by_name_def
        free_hint_def new_hint_def demo_console_def console_initial_def)
  have "60 \<notin> item_addr ` set (s_cmd_list (demo_console_led 7))" by (simp add: demo_console_led_def demo_item_def)
  then show ?thesis
    using console_register_last_wins [OF demo_led_reach e, of "''led''"] e by (auto simp: demo_cmd_def)
qed

subsection \<open>A hint that is freed twice\<close>

text \<open>
  Registering a command again without a hint and without an argument table frees the old hint and
  keeps the pointer to it: the next registration of the name, or the end of the console, frees it a
  second time.
\<close>

theorem reregister_leaves_dangling_hint:
  assumes "console_ok s" and "find_command_by_name name s = Some it" and "hint it = Some a" and "hint_heap s a = Some t"
    and "cmd_command c = Some name" and "SPACE \<notin> set name" and "cmd_hint c = None" and "cmd_argtable c = None"
  shows "\<exists>s' it'. esp_console_cmd_register sy ia ha (Some c) s = Some (ESP_OK, s') \<and>
    find_command_by_name name s' = Some it' \<and> hint it' = Some a \<and> hint_heap s' a = None \<and>
    esp_console_cmd_register sy ia ha (Some c) s' = None"
proof -
  define it' where "it' = it\<lparr>command := name, item_help := cmd_help c, argtable := None, func := cmd_func c\<rparr>"
  define s' where "s' = s\<lparr>s_cmd_list := filter (\<lambda>x. item_addr x \<noteq> item_addr it) (s_cmd_list s) @ [it'],
      hint_heap := (hint_heap s)(a := None)\<rparr>"
  have r: "esp_console_cmd_register sy ia ha (Some c) s = Some (ESP_OK, s')"
    using assms by (simp add: esp_console_cmd_register_def free_hint_def new_hint_def s'_def it'_def)
  have "it \<in> set (s_cmd_list s)" "command it = name" using assms(1,2) find_command_iff by auto
  then have "List.find (\<lambda>x. length (command x) = length name \<and> name = command x)
      (filter (\<lambda>x. item_addr x \<noteq> item_addr it) (s_cmd_list s)) = None"
    using assms(1) by (auto simp: find_None_iff console_ok_def distinct_map inj_on_def)
  then have f: "find_command_by_name name s' = Some it'"
    by (simp add: find_command_by_name_def s'_def find_append it'_def)
  have "hint it' = Some a" "hint_heap s' a = None" using assms(3) by (simp_all add: it'_def s'_def)
  moreover from this f assms(5,6) have "esp_console_cmd_register sy ia ha (Some c) s' = None"
    by (simp add: esp_console_cmd_register_def free_hint_def)
  ultimately show ?thesis using r f by blast
qed

end
