(* ===== verification/Httpd_Uri.thy ===== *)
theory Httpd_Uri
  imports Prelude
begin

section \<open>URI handlers of the HTTP server\<close>

text \<open>
  Model of \<open>esp_http_server/src/httpd_uri.c\<close>, without web sockets (the default configuration), and
  of the error handlers of \<open>httpd_txrx.c\<close> that it calls.
  \<^item> \<open>hd_calls\<close> is the array of \<open>max_uri_handlers\<close> pointers: null, a registered handler, or a pointer
    to memory that was freed. Reading through the last stops the run (\<open>None\<close>).
  \<^item> A URI of a request is the characters from its first on, and a length: it is not terminated.
  \<^item> The handlers of the application are numbers; what they do is an argument. An error response
    that the server sends is recorded in \<open>sent_errors\<close>.
\<close>

datatype httpd_err_code_t =
    HTTPD_500_INTERNAL_SERVER_ERROR | HTTPD_501_METHOD_NOT_IMPLEMENTED | HTTPD_505_VERSION_NOT_SUPPORTED
  | HTTPD_400_BAD_REQUEST | HTTPD_401_UNAUTHORIZED | HTTPD_403_FORBIDDEN | HTTPD_404_NOT_FOUND
  | HTTPD_405_METHOD_NOT_ALLOWED | HTTPD_408_REQ_TIMEOUT | HTTPD_411_LENGTH_REQUIRED
  | HTTPD_414_URI_TOO_LONG | HTTPD_431_REQ_HDR_FIELDS_TOO_LARGE

record httpd_uri_t =
  uri :: string
  http_method :: int
  handler :: nat
  user_ctx :: nat

datatype hd_slot = Null | Handler httpd_uri_t | Freed

type_synonym uri_match_fn = "string \<Rightarrow> char list \<Rightarrow> nat \<Rightarrow> bool"

record httpd_data =
  hd_calls :: "hd_slot list"
  uri_match_fn :: "uri_match_fn option"
  err_handler_fns :: "httpd_err_code_t \<Rightarrow> nat option"
  req_user_ctx :: nat
  sent_errors :: "httpd_err_code_t list"

subsection \<open>Matching\<close>

definition httpd_uri_match_simple :: uri_match_fn where
  "httpd_uri_match_simple uri1 uri2 len2 \<longleftrightarrow> length uri1 = len2 \<and> take len2 uri1 = take len2 uri2"

definition httpd_uri_match_wildcard :: uri_match_fn where
  "httpd_uri_match_wildcard template u len =
     (let tpl_len = length template;
          last = (if tpl_len > 0 then template ! (tpl_len - 1) else CHR 0x00);
          prevlast = (if tpl_len > 1 then template ! (tpl_len - 2) else CHR 0x00);
          asterisk = (last = CHR ''*'' \<or> prevlast = CHR ''*'' \<and> last = CHR ''?'');
          quest = (last = CHR ''?'' \<or> prevlast = CHR ''?'' \<and> last = CHR ''*'');
          special = of_bool asterisk + of_bool quest * 2
      in if tpl_len < special then False
         else let exact_match_chars = tpl_len - special in
           if len < exact_match_chars then False
           else if \<not> quest
           then if \<not> asterisk \<and> len \<noteq> exact_match_chars then False
                else take exact_match_chars template = take exact_match_chars u
           else if len > exact_match_chars \<and> template ! exact_match_chars \<noteq> u ! exact_match_chars then False
           else if take exact_match_chars template \<noteq> take exact_match_chars u then False
           else asterisk \<or> len \<le> exact_match_chars + 1)"

definition uri_matches :: "httpd_data \<Rightarrow> string \<Rightarrow> char list \<Rightarrow> nat \<Rightarrow> bool" where
  "uri_matches srv t u len =
     (case uri_match_fn srv of Some f \<Rightarrow> f t u len | None \<Rightarrow> httpd_uri_match_simple t u len)"

subsection \<open>Finding a handler\<close>

text \<open>The loop: the handler found, if any, and \<open>*err\<close>. A request without an error is 0, the code 500.\<close>

fun find_from ::
  "httpd_data \<Rightarrow> char list \<Rightarrow> nat \<Rightarrow> int \<Rightarrow> hd_slot list \<Rightarrow> httpd_err_code_t \<Rightarrow>
   (httpd_uri_t option \<times> httpd_err_code_t) option" where
  "find_from srv u len m [] err = Some (None, err)"
| "find_from srv u len m (Null # slots) err = Some (None, err)"
| "find_from srv u len m (Freed # slots) err = None"
| "find_from srv u len m (Handler h # slots) err =
     (if uri_matches srv (uri h) u len
      then if http_method h = m then Some (Some h, HTTPD_500_INTERNAL_SERVER_ERROR)
           else find_from srv u len m slots HTTPD_405_METHOD_NOT_ALLOWED
      else find_from srv u len m slots err)"

definition httpd_find_uri_handler ::
  "httpd_data \<Rightarrow> char list \<Rightarrow> nat \<Rightarrow> int \<Rightarrow> (httpd_uri_t option \<times> httpd_err_code_t) option" where
  "httpd_find_uri_handler srv u len m = find_from srv u len m (hd_calls srv) HTTPD_404_NOT_FOUND"

subsection \<open>Registration\<close>

fun first_null :: "hd_slot list \<Rightarrow> nat option" where
  "first_null [] = None"
| "first_null (s # slots) = (if s = Null then Some 0 else map_option Suc (first_null slots))"

text \<open>
  The debug line of the loop reads the handlers before the first null pointer; it is compiled out
  at the default log level. \<open>malloc_ok\<close> and \<open>strdup_ok\<close> are the answers of the allocator; the
  handler to register is null when it is \<open>None\<close>.
\<close>

definition httpd_register_uri_handler ::
  "bool \<Rightarrow> bool \<Rightarrow> httpd_uri_t option \<Rightarrow> httpd_data \<Rightarrow> (esp_err_t \<times> httpd_data) option" where
  "httpd_register_uri_handler malloc_ok strdup_ok uri_handler srv =
     (case uri_handler of
        None \<Rightarrow> Some (ESP_ERR_INVALID_ARG, srv)
      | Some h \<Rightarrow>
          do { (found, _) \<leftarrow> httpd_find_uri_handler srv (uri h) (length (uri h)) (http_method h);
               if \<not> Option.is_none found then Some (ESP_ERR_HTTPD_HANDLER_EXISTS, srv)
               else case first_null (hd_calls srv) of
                   None \<Rightarrow> Some (ESP_ERR_HTTPD_HANDLERS_FULL, srv)
                 | Some i \<Rightarrow>
                     if \<not> malloc_ok then Some (ESP_ERR_HTTPD_ALLOC_MEM, srv)
                     else if \<not> strdup_ok
                     then Some (ESP_ERR_HTTPD_ALLOC_MEM, srv\<lparr>hd_calls := (hd_calls srv)[i := Freed]\<rparr>)
                     else Some (ESP_OK, srv\<lparr>hd_calls := (hd_calls srv)[i := Handler h]\<rparr>) })"

text \<open>The inner loop of the removal: from \<open>i\<close> on every pointer moves one place down.\<close>

function shift_down :: "nat \<Rightarrow> hd_slot list \<Rightarrow> hd_slot list" where
  "shift_down i t =
     (if i < length t \<and> t ! i \<noteq> Null then shift_down (i + 1) (t[i - 1 := t ! i]) else t[i - 1 := Null])"
  by pat_completeness auto

termination by (relation "measure (\<lambda>(i, t). length t - i)") auto

declare shift_down.simps [simp del]

text \<open>The outer loop from \<open>i\<close> on, with \<open>n\<close> slots left.\<close>

fun remove_from :: "nat \<Rightarrow> nat \<Rightarrow> string \<Rightarrow> int \<Rightarrow> hd_slot list \<Rightarrow> (esp_err_t \<times> hd_slot list) option" where
  "remove_from 0 i u m t = Some (ESP_ERR_NOT_FOUND, t)"
| "remove_from (Suc n) i u m t =
     (case t ! i of
        Null \<Rightarrow> Some (ESP_ERR_NOT_FOUND, t)
      | Freed \<Rightarrow> None
      | Handler h \<Rightarrow>
          if http_method h = m \<and> uri h = u then Some (ESP_OK, shift_down (i + 1) (t[i := Null]))
          else remove_from n (Suc i) u m t)"

definition httpd_unregister_uri_handler :: "string option \<Rightarrow> int \<Rightarrow> httpd_data \<Rightarrow> (esp_err_t \<times> httpd_data) option" where
  "httpd_unregister_uri_handler u m srv =
     (case u of
        None \<Rightarrow> Some (ESP_ERR_INVALID_ARG, srv)
      | Some us \<Rightarrow>
          do { (err, t) \<leftarrow> remove_from (length (hd_calls srv)) 0 us m (hd_calls srv);
               Some (err, srv\<lparr>hd_calls := t\<rparr>) })"

text \<open>
  The loop of \<open>httpd_unregister_uri\<close>: \<open>j\<close> entries are removed so far. It ends with \<open>i\<close>, \<open>j\<close> and the
  array.
\<close>

fun remove_all_from :: "nat \<Rightarrow> nat \<Rightarrow> nat \<Rightarrow> string \<Rightarrow> hd_slot list \<Rightarrow> (nat \<times> nat \<times> hd_slot list) option" where
  "remove_all_from 0 i j u t = Some (i, j, t)"
| "remove_all_from (Suc n) i j u t =
     (case t ! i of
        Null \<Rightarrow> Some (i, j, t)
      | Freed \<Rightarrow> None
      | Handler h \<Rightarrow>
          if uri h = u then remove_all_from n (Suc i) (Suc j) u (t[i := Null])
          else remove_all_from n (Suc i) j u (t[i - j := t ! i]))"

fun nullify :: "nat \<Rightarrow> nat \<Rightarrow> hd_slot list \<Rightarrow> hd_slot list" where
  "nullify k 0 t = t"
| "nullify k (Suc n) t = nullify (Suc k) n (t[k := Null])"

definition httpd_unregister_uri :: "string option \<Rightarrow> httpd_data \<Rightarrow> (esp_err_t \<times> httpd_data) option" where
  "httpd_unregister_uri u srv =
     (case u of
        None \<Rightarrow> Some (ESP_ERR_INVALID_ARG, srv)
      | Some us \<Rightarrow>
          do { (i, j, t) \<leftarrow> remove_all_from (length (hd_calls srv)) 0 0 us (hd_calls srv);
               Some (if j > 0 then ESP_OK else ESP_ERR_NOT_FOUND, srv\<lparr>hd_calls := nullify (i - j) j t\<rparr>) })"

fun clear_from :: "nat \<Rightarrow> nat \<Rightarrow> hd_slot list \<Rightarrow> hd_slot list option" where
  "clear_from 0 i t = Some t"
| "clear_from (Suc n) i t =
     (case t ! i of
        Null \<Rightarrow> Some t
      | Freed \<Rightarrow> None
      | Handler h \<Rightarrow> clear_from n (Suc i) (t[i := Null]))"

definition httpd_unregister_all_uri_handlers :: "httpd_data \<Rightarrow> httpd_data option" where
  "httpd_unregister_all_uri_handlers srv =
     map_option (\<lambda>t. srv\<lparr>hd_calls := t\<rparr>) (clear_from (length (hd_calls srv)) 0 (hd_calls srv))"

subsection \<open>Dispatching a request\<close>

definition httpd_register_err_handler ::
  "httpd_err_code_t \<Rightarrow> nat option \<Rightarrow> httpd_data \<Rightarrow> esp_err_t \<times> httpd_data" where
  "httpd_register_err_handler err f srv = (ESP_OK, srv\<lparr>err_handler_fns := (err_handler_fns srv)(err := f)\<rparr>)"

definition httpd_req_handle_err ::
  "(nat \<Rightarrow> httpd_err_code_t \<Rightarrow> 'w \<Rightarrow> esp_err_t \<times> 'w) \<Rightarrow> httpd_err_code_t \<Rightarrow> httpd_data \<Rightarrow> 'w \<Rightarrow>
   esp_err_t \<times> httpd_data \<times> 'w" where
  "httpd_req_handle_err err_fns err srv w =
     (case err_handler_fns srv err of
        Some f \<Rightarrow>
          let (ret, w) = err_fns f err w
          in (if err = HTTPD_500_INTERNAL_SERVER_ERROR then ESP_FAIL else ret, srv, w)
      | None \<Rightarrow> (ESP_FAIL, srv\<lparr>sent_errors := sent_errors srv @ [err]\<rparr>, w))"

text \<open>
  The path of the request is \<open>req_uri\<close> from \<open>off\<close> on, \<open>len\<close> characters; \<open>path\<close> is \<open>None\<close> when the
  URL parser found no path.
\<close>

definition httpd_uri ::
  "(nat \<Rightarrow> nat \<Rightarrow> 'w \<Rightarrow> esp_err_t \<times> 'w) \<Rightarrow> (nat \<Rightarrow> httpd_err_code_t \<Rightarrow> 'w \<Rightarrow> esp_err_t \<times> 'w) \<Rightarrow>
   string \<Rightarrow> (nat \<times> nat) option \<Rightarrow> int \<Rightarrow> httpd_data \<Rightarrow> 'w \<Rightarrow> (esp_err_t \<times> httpd_data \<times> 'w) option" where
  "httpd_uri handlers err_fns req_uri path m srv w =
     do { (found, err) \<leftarrow>
            (case path of
               None \<Rightarrow> Some (None, HTTPD_500_INTERNAL_SERVER_ERROR)
             | Some (off, len) \<Rightarrow> httpd_find_uri_handler srv (drop off req_uri) len m);
          case found of
            None \<Rightarrow>
              if err = HTTPD_404_NOT_FOUND \<or> err = HTTPD_405_METHOD_NOT_ALLOWED
              then Some (httpd_req_handle_err err_fns err srv w)
              else Some (ESP_FAIL, srv, w)
          | Some h \<Rightarrow>
              let srv = srv\<lparr>req_user_ctx := user_ctx h\<rparr>;
                  (ret, w) = handlers (handler h) (user_ctx h) w
              in Some (if ret \<noteq> ESP_OK then ESP_FAIL else ESP_OK, srv, w) }"

end
