(* ===== verification/Httpd_Uri_Spec.thy ===== *)
theory Httpd_Uri_Spec
  imports Httpd_Uri Slots "HOL-Library.Sublist"
begin

section \<open>Properties of the URI handlers\<close>

text \<open>
  The wildcard matcher against the language of templates, the handler table against the list of
  registered handlers in the order of registration, and the choice of the handler for a request.
\<close>

subsection \<open>Templates\<close>

text \<open>
  The four forms of a template: a text, a text followed by anything, a text with an optional last
  character, and a text with an optional last character followed by anything when the character is
  there. The last has two spellings.
\<close>

datatype uri_template = Exact string | Any string | Optional string char | OptionalAny bool string char

fun template_text :: "uri_template \<Rightarrow> string" where
  "template_text (Exact p) = p"
| "template_text (Any p) = p @ ''*''"
| "template_text (Optional p c) = p @ [c] @ ''?''"
| "template_text (OptionalAny b p c) = p @ [c] @ (if b then ''?*'' else ''*?'')"

text \<open>Texts that read as one form only.\<close>

fun template_ok :: "uri_template \<Rightarrow> bool" where
  "template_ok (Exact p) = (p = [] \<or> last p \<noteq> CHR ''*'' \<and> last p \<noteq> CHR ''?'')"
| "template_ok (Any p) = (p = [] \<or> last p \<noteq> CHR ''?'')"
| "template_ok (Optional p c) = (c \<noteq> CHR ''*'')"
| "template_ok (OptionalAny b p c) = True"

fun template_accepts :: "uri_template \<Rightarrow> string \<Rightarrow> bool" where
  "template_accepts (Exact p) u = (u = p)"
| "template_accepts (Any p) u = prefix p u"
| "template_accepts (Optional p c) u = (u = p \<or> u = p @ [c])"
| "template_accepts (OptionalAny b p c) u = (u = p \<or> prefix (p @ [c]) u)"

lemma prefix_take_iff: "prefix p u \<longleftrightarrow> length p \<le> length u \<and> take (length p) u = p"
  by (metis append_eq_conv_conj prefix_def prefix_length_le take_is_prefix)

lemma prefix_snoc_iff:
  "prefix (p @ [c]) u \<longleftrightarrow> length p < length u \<and> take (length p) u = p \<and> u ! length p = c"
  by (auto simp: prefix_take_iff take_Suc_conv_app_nth less_eq_Suc_le)

lemma take_eq_iff: "len \<le> length u \<Longrightarrow> take len u = p \<longleftrightarrow> len = length p \<and> take (length p) u = p"
  by auto

lemma take_snoc_iff:
  "len \<le> length u \<Longrightarrow> take len u = p @ [c] \<longleftrightarrow> len = Suc (length p) \<and> take (length p) u = p \<and> u ! length p = c"
  using take_eq_iff [of len u "p @ [c]"] by (auto simp: take_Suc_conv_app_nth)

lemma match_wildcard_template:
  assumes "template_ok tp" and "len \<le> length u"
  shows "httpd_uri_match_wildcard (template_text tp) u len \<longleftrightarrow> template_accepts tp (take len u)"
proof (cases tp)
  case (Exact p)
  have "httpd_uri_match_wildcard p u len \<longleftrightarrow> len = length p \<and> p = take (length p) u"
    using assms Exact by (cases p rule: rev_cases) (auto simp: httpd_uri_match_wildcard_def Let_def nth_append)
  then show ?thesis using Exact assms(2) by auto
next
  case (Any p)
  have "httpd_uri_match_wildcard (p @ ''*'') u len \<longleftrightarrow> length p \<le> len \<and> p = take (length p) u"
    using assms Any by (cases p rule: rev_cases) (auto simp: httpd_uri_match_wildcard_def Let_def nth_append)
  then show ?thesis using Any assms(2) by (auto simp: prefix_take_iff min_def)
next
  case (Optional p c)
  have "httpd_uri_match_wildcard (p @ [c] @ ''?'') u len \<longleftrightarrow>
      length p \<le> len \<and> p = take (length p) u \<and> (length p < len \<longrightarrow> c = u ! length p) \<and> len \<le> length p + 1"
    using assms Optional by (auto simp: httpd_uri_match_wildcard_def Let_def nth_append)
  also have "\<dots> \<longleftrightarrow> take len u = p \<or> take len u = p @ [c]"
    using assms(2) by (auto simp: take_eq_iff [OF assms(2), of p] take_snoc_iff [OF assms(2)])
  finally show ?thesis using Optional by simp
next
  case (OptionalAny b p c)
  have "httpd_uri_match_wildcard (p @ [c] @ (if b then ''?*'' else ''*?'')) u len \<longleftrightarrow>
      length p \<le> len \<and> p = take (length p) u \<and> (length p < len \<longrightarrow> c = u ! length p)"
    by (cases b) (auto simp: httpd_uri_match_wildcard_def Let_def nth_append)
  also have "\<dots> \<longleftrightarrow> take len u = p \<or> prefix (p @ [c]) (take len u)"
    using assms(2) by (auto simp: take_eq_iff [OF assms(2)] prefix_snoc_iff min_def)
  finally show ?thesis using OptionalAny by simp
qed

lemma every_template:
  "t \<in> {''?'', ''?*'', ''*?''} \<or> (\<exists>tp. template_ok tp \<and> template_text tp = t)"
proof (cases t rule: rev_cases)
  case Nil
  have "template_ok (Exact [])" by simp
  then show ?thesis using Nil by (metis template_text.simps(1))
next
  case (snoc q l)
  consider "l \<noteq> CHR ''*''" "l \<noteq> CHR ''?''" | "l = CHR ''*''" "q = [] \<or> last q \<noteq> CHR ''?''"
    | "l = CHR ''?''" "q = [] \<or> last q \<noteq> CHR ''*''" | r where "t = r @ ''?*'' \<or> t = r @ ''*?''"
    using snoc by (cases q rule: rev_cases) auto
  then show ?thesis
  proof cases
    case 1
    then have "template_ok (Exact t) \<and> template_text (Exact t) = t" using snoc by simp
    then show ?thesis by blast
  next
    case 2
    then have "template_ok (Any q) \<and> template_text (Any q) = t" using snoc by auto
    then show ?thesis by blast
  next
    case 3
    show ?thesis
    proof (cases q rule: rev_cases)
      case (snoc p c)
      then have "template_ok (Optional p c) \<and> template_text (Optional p c) = t" using 3 \<open>t = q @ [l]\<close> by simp
      then show ?thesis by blast
    qed (use 3 snoc in simp)
  next
    case (4 r)
    show ?thesis
    proof (cases r rule: rev_cases)
      case (snoc p c)
      then have "template_ok (OptionalAny (t = r @ ''?*'') p c) \<and> template_text (OptionalAny (t = r @ ''?*'') p c) = t"
        using 4 by auto
      then show ?thesis by blast
    qed (use 4 in auto)
  qed
qed

text \<open>
  Claim C32. The wildcard matcher accepts the language of its template. For every template form
  and every URI (the first \<open>len\<close> characters of a buffer) \<open>httpd_uri_match_wildcard\<close> answers whether
  the URI is the text; starts with the text; is the text with or without the optional character;
  is the text or continues it with the optional character and anything.
\<close>

theorem uri_wildcard_matches_template:
  assumes "template_ok tp" and "len \<le> length u"
  shows "httpd_uri_match_wildcard (template_text tp) u len \<longleftrightarrow> template_accepts tp (take len u)"
  using match_wildcard_template [OF assms] .

theorem uri_wildcard_matches_template_witness:
  "httpd_uri_match_wildcard ''/bla?*'' ''/blabla?x=1'' 7 = template_accepts (OptionalAny True ''/bl'' CHR ''a'') ''/blabla'' \<and>
   template_accepts (OptionalAny True ''/bl'' CHR ''a'') ''/blabla''"
  using uri_wildcard_matches_template [of "OptionalAny True ''/bl'' CHR ''a''" 7 "''/blabla?x=1''"]
  by (simp add: prefix_def)

subsection \<open>The table and the list of handlers\<close>

lemma first_null_Some: "first_null t = Some i \<Longrightarrow> i < length t \<and> t ! i = Null \<and> (\<forall>j<i. t ! j \<noteq> Null)"
proof (induction t arbitrary: i)
  case (Cons s t)
  show ?case
  proof (cases "s = Null")
    case False
    with Cons.prems obtain k where k: "first_null t = Some k" "i = Suc k" by auto
    have "(s # t) ! j \<noteq> Null" if "j < i" for j
      using that Cons.IH [OF k(1)] k(2) False by (cases j) auto
    with Cons.IH [OF k(1)] k(2) show ?thesis by auto
  qed (use Cons.prems in auto)
qed simp

interpretation calls: slot_table "\<lambda>s. s \<noteq> Null" first_null
proof (unfold_locales, goal_cases)
  case (1 t i)
  then show ?case using first_null_Some by auto
next
  case (2 t e)
  then show ?case by (induction t) (auto split: if_splits)
qed

text \<open>The table is compact: the handlers \<open>hs\<close> in order, then null pointers.\<close>

definition table_of :: "nat \<Rightarrow> httpd_uri_t list \<Rightarrow> hd_slot list" where
  "table_of k hs = map Handler hs @ replicate k Null"

definition holds :: "httpd_uri_t list \<Rightarrow> httpd_data \<Rightarrow> bool" where
  "holds hs srv \<longleftrightarrow> (\<exists>k. hd_calls srv = table_of k hs)"

fun remove_first :: "('a \<Rightarrow> bool) \<Rightarrow> 'a list \<Rightarrow> 'a list" where
  "remove_first P [] = []"
| "remove_first P (x # xs) = (if P x then xs else x # remove_first P xs)"

lemma first_null_table: "first_null (table_of k hs) = (if k = 0 then None else Some (length hs))"
  by (cases k) (auto simp: calls.free_slot_iff calls.full_iff table_of_def nth_append)

lemma table_of_update: "(table_of (Suc k) hs)[length hs := s] = map Handler hs @ s # replicate k Null"
  by (simp add: table_of_def list_update_append)

lemma find_from_table:
  "find_from srv u len m (table_of k hs) err =
     Some (case List.find (\<lambda>h. uri_matches srv (uri h) u len \<and> http_method h = m) hs of
             Some h \<Rightarrow> (Some h, HTTPD_500_INTERNAL_SERVER_ERROR)
           | None \<Rightarrow> (None, if \<exists>h\<in>set hs. uri_matches srv (uri h) u len then HTTPD_405_METHOD_NOT_ALLOWED else err))"
proof (induction hs arbitrary: err)
  case Nil
  then show ?case by (cases k) (simp_all add: table_of_def)
next
  case (Cons h hs)
  then show ?case by (auto simp: table_of_def split: option.splits)
qed

lemma shift_down_table:
  "shift_down (Suc (length as)) (map Handler as @ x # map Handler bs @ replicate k Null) = table_of (Suc k) (as @ bs)"
proof (induction bs arbitrary: as x)
  case Nil
  show ?case
    by (cases k) (simp_all add: shift_down.simps [of "Suc (length as)"] nth_append list_update_append table_of_def)
next
  case (Cons b bs)
  have "shift_down (Suc (length as)) (map Handler as @ x # map Handler (b # bs) @ replicate k Null) =
      shift_down (Suc (length (as @ [b]))) (map Handler (as @ [b]) @ Handler b # map Handler bs @ replicate k Null)"
    by (subst shift_down.simps) (simp add: nth_append list_update_append)
  with Cons.IH [of "as @ [b]" "Handler b"] show ?case by simp
qed

lemma remove_from_table:
  "remove_from (length bs + k) (length as) u m (table_of k (as @ bs)) =
     (if \<exists>h\<in>set bs. http_method h = m \<and> uri h = u
      then Some (ESP_OK, table_of (Suc k) (as @ remove_first (\<lambda>h. http_method h = m \<and> uri h = u) bs))
      else Some (ESP_ERR_NOT_FOUND, table_of k (as @ bs)))"
proof (induction bs arbitrary: as)
  case Nil
  show ?case by (cases k) (simp_all add: table_of_def nth_append)
next
  case (Cons b bs)
  have nth: "table_of k (as @ b # bs) ! length as = Handler b" by (simp add: table_of_def nth_append)
  show ?case
  proof (cases "http_method b = m \<and> uri b = u")
    case True
    have "(table_of k (as @ b # bs))[length as := Null] = map Handler as @ Null # map Handler bs @ replicate k Null"
      by (simp add: table_of_def list_update_append)
    with True nth shift_down_table [of as Null bs k] show ?thesis by simp
  next
    case False
    with nth Cons.IH [of "as @ [b]"] show ?thesis by auto
  qed
qed

lemma remove_all_from_table:
  assumes "length junk = j"
  shows "\<exists>junk'. remove_all_from (length bs + k) (length as + j) j u
      (map Handler as @ junk @ map Handler bs @ replicate k Null) =
    Some (length as + j + length bs, j + length (filter (\<lambda>h. uri h = u) bs),
          map Handler (as @ filter (\<lambda>h. uri h \<noteq> u) bs) @ junk' @ replicate k Null) \<and>
    length junk' = j + length (filter (\<lambda>h. uri h = u) bs)"
  using assms
proof (induction bs arbitrary: as junk j)
  case Nil
  then show ?case by (cases k) (auto simp: nth_append)
next
  case (Cons b bs)
  let ?t = "map Handler as @ junk @ map Handler (b # bs) @ replicate k Null"
  have nth: "?t ! (length as + j) = Handler b" using Cons.prems by (simp add: nth_append)
  show ?case
  proof (cases "uri b = u")
    case True
    have "?t[length as + j := Null] = map Handler as @ (junk @ [Null]) @ map Handler bs @ replicate k Null"
      using Cons.prems by (simp add: list_update_append)
    with True nth Cons.IH [of "junk @ [Null]" "Suc j" as] Cons.prems show ?thesis by auto
  next
    case False
    have "?t[length as := Handler b] = map Handler (as @ [b]) @ tl (junk @ [Handler b]) @ map Handler bs @ replicate k Null"
      by (cases junk) (simp_all add: list_update_append)
    moreover have "length (tl (junk @ [Handler b])) = j" using Cons.prems by simp
    ultimately show ?thesis
      using False nth Cons.IH [of "tl (junk @ [Handler b])" j "as @ [b]"] by auto
  qed
qed

lemma nullify_table: "nullify (length as) (length junk) (as @ junk @ bs) = as @ replicate (length junk) Null @ bs"
proof (induction junk arbitrary: as)
  case (Cons x junk)
  from Cons.IH [of "as @ [Null]"] show ?case by (simp add: list_update_append)
qed simp

lemma clear_from_table: "clear_from (length bs + k) i (replicate i Null @ map Handler bs @ replicate k Null) =
    Some (replicate (i + length bs + k) Null)"
proof (induction bs arbitrary: i)
  case Nil
  show ?case by (cases k) (simp_all add: nth_append replicate_add replicate_append_same)
next
  case (Cons b bs)
  have sw: "replicate i Null @ Null # xs = Null # replicate i Null @ xs" for xs
    by (metis append_Cons append_assoc append_Nil replicate_append_same)
  from Cons.IH [of "Suc i"] show ?case by (simp add: nth_append list_update_append sw)
qed

subsection \<open>The operations on the list of handlers\<close>

definition spec_find :: "httpd_data \<Rightarrow> char list \<Rightarrow> nat \<Rightarrow> int \<Rightarrow> httpd_uri_t list \<Rightarrow> httpd_uri_t option" where
  "spec_find srv u len m hs = List.find (\<lambda>h. uri_matches srv (uri h) u len \<and> http_method h = m) hs"

lemma find_uri_handler_holds:
  assumes "holds hs srv"
  shows "httpd_find_uri_handler srv u len m =
    Some (case spec_find srv u len m hs of
            Some h \<Rightarrow> (Some h, HTTPD_500_INTERNAL_SERVER_ERROR)
          | None \<Rightarrow> (None, if \<exists>h\<in>set hs. uri_matches srv (uri h) u len then HTTPD_405_METHOD_NOT_ALLOWED
                           else HTTPD_404_NOT_FOUND))"
  using assms by (auto simp: holds_def httpd_find_uri_handler_def find_from_table spec_find_def)

lemma register_holds:
  assumes "holds hs srv" and "length hs < length (hd_calls srv)" and "strdup_ok" and "malloc_ok"
    and "spec_find srv (uri h) (length (uri h)) (http_method h) hs = None"
  shows "\<exists>srv'. httpd_register_uri_handler malloc_ok strdup_ok (Some h) srv = Some (ESP_OK, srv') \<and>
    holds (hs @ [h]) srv' \<and> length (hd_calls srv') = length (hd_calls srv)"
proof -
  from assms(1) obtain n where n: "hd_calls srv = table_of n hs" by (auto simp: holds_def)
  with assms(2) obtain k where "n = Suc k" by (cases n) (auto simp: table_of_def)
  with n have k: "hd_calls srv = table_of (Suc k) hs" by simp
  have "(hd_calls srv)[length hs := Handler h] = table_of k (hs @ [h])"
    using table_of_update [of k hs "Handler h"] by (simp add: k) (simp add: table_of_def)
  then have "httpd_register_uri_handler malloc_ok strdup_ok (Some h) srv = Some (ESP_OK, srv\<lparr>hd_calls := table_of k (hs @ [h])\<rparr>)"
    using assms(3-5) find_uri_handler_holds [OF assms(1)] first_null_table [of "Suc k" hs]
    by (simp add: httpd_register_uri_handler_def k)
  then show ?thesis using k by (auto simp: holds_def table_of_def)
qed

lemma register_fails:
  assumes "holds hs srv" and "httpd_register_uri_handler malloc_ok strdup_ok h srv = Some (err, srv')" and "err \<noteq> ESP_OK" and "strdup_ok"
  shows "srv' = srv"
  using assms
  by (auto simp: httpd_register_uri_handler_def find_uri_handler_holds [OF assms(1)] split: option.splits if_splits)

lemma unregister_handler_holds:
  assumes "holds hs srv"
  shows "\<exists>srv'. httpd_unregister_uri_handler (Some u) m srv =
      Some (if \<exists>h\<in>set hs. http_method h = m \<and> uri h = u then ESP_OK else ESP_ERR_NOT_FOUND, srv') \<and>
    holds (remove_first (\<lambda>h. http_method h = m \<and> uri h = u) hs) srv' \<and> length (hd_calls srv') = length (hd_calls srv)"
proof -
  from assms obtain k where k: "hd_calls srv = table_of k hs" by (auto simp: holds_def)
  have len: "length (table_of k hs) = length hs + k" by (simp add: table_of_def)
  have none: "remove_first P xs = xs" if "\<not> (\<exists>x\<in>set xs. P x)" for P and xs :: "httpd_uri_t list"
    using that by (induction xs) auto
  have some: "Suc (length (remove_first P xs)) = length xs" if "\<exists>x\<in>set xs. P x" for P and xs :: "httpd_uri_t list"
    using that by (induction xs) auto
  show ?thesis
  proof (cases "\<exists>h\<in>set hs. http_method h = m \<and> uri h = u")
    case True
    let ?hs = "remove_first (\<lambda>h. http_method h = m \<and> uri h = u) hs"
    have "httpd_unregister_uri_handler (Some u) m srv = Some (ESP_OK, srv\<lparr>hd_calls := table_of (Suc k) ?hs\<rparr>)"
      using remove_from_table [of hs k "[]" u m] len k True by (simp add: httpd_unregister_uri_handler_def)
    moreover have "length (table_of (Suc k) ?hs) = length (table_of k hs)"
      using some [OF True] by (simp add: table_of_def)
    ultimately show ?thesis using True k by (auto simp: holds_def)
  next
    case False
    have "httpd_unregister_uri_handler (Some u) m srv = Some (ESP_ERR_NOT_FOUND, srv)"
      using remove_from_table [of hs k "[]" u m] len k False by (simp add: httpd_unregister_uri_handler_def)
    with assms False none [OF False] show ?thesis by simp
  qed
qed

lemma unregister_uri_holds:
  assumes "holds hs srv"
  shows "\<exists>srv'. httpd_unregister_uri (Some u) srv =
      Some (if \<exists>h\<in>set hs. uri h = u then ESP_OK else ESP_ERR_NOT_FOUND, srv') \<and>
    holds (filter (\<lambda>h. uri h \<noteq> u) hs) srv' \<and> length (hd_calls srv') = length (hd_calls srv)"
proof -
  from assms obtain k where k: "hd_calls srv = table_of k hs" by (auto simp: holds_def)
  define ms where "ms = filter (\<lambda>h. uri h = u) hs"
  define rs where "rs = filter (\<lambda>h. uri h \<noteq> u) hs"
  obtain junk where r: "remove_all_from (length hs + k) 0 0 u (table_of k hs) =
      Some (length hs, length ms, map Handler rs @ junk @ replicate k Null)" and j: "length junk = length ms"
    using remove_all_from_table [of "[]" 0 hs k "[]" u] by (auto simp: table_of_def ms_def rs_def)
  have len: "length hs - length ms = length (map Handler rs)" and sum: "length rs + length ms = length hs"
    using sum_length_filter_compl [of "\<lambda>h. uri h = u" hs] by (simp_all add: ms_def rs_def)
  have "nullify (length hs - length ms) (length ms) (map Handler rs @ junk @ replicate k Null) = table_of (length ms + k) rs"
    using nullify_table [of "map Handler rs" junk "replicate k Null"] j unfolding len
    by (simp add: table_of_def replicate_add)
  moreover have "length ms > 0 \<longleftrightarrow> (\<exists>h\<in>set hs. uri h = u)" by (auto simp: ms_def filter_empty_conv)
  moreover have "length (table_of k hs) = length hs + k" by (simp add: table_of_def)
  ultimately have "httpd_unregister_uri (Some u) srv =
      Some (if \<exists>h\<in>set hs. uri h = u then ESP_OK else ESP_ERR_NOT_FOUND, srv\<lparr>hd_calls := table_of (length ms + k) rs\<rparr>)"
    using r k by (simp add: httpd_unregister_uri_def)
  then show ?thesis
    using sum k by (auto simp: holds_def rs_def table_of_def)
qed

lemma unregister_all_holds:
  assumes "holds hs srv"
  shows "\<exists>srv'. httpd_unregister_all_uri_handlers srv = Some srv' \<and> holds [] srv' \<and>
    length (hd_calls srv') = length (hd_calls srv)"
proof -
  from assms obtain k where k: "hd_calls srv = table_of k hs" by (auto simp: holds_def)
  have "length (table_of k hs) = length hs + k" by (simp add: table_of_def)
  with clear_from_table [of hs k 0] k show ?thesis
    by (auto simp: httpd_unregister_all_uri_handlers_def table_of_def holds_def)
qed

subsection \<open>Steps\<close>

text \<open>
  The operations on the table, with the string copies of the registrations successful (see the
  last theorem for one that fails).
\<close>

inductive httpd_step :: "httpd_data \<Rightarrow> httpd_data \<Rightarrow> bool" where
  register: "httpd_register_uri_handler malloc_ok True h srv = Some (err, srv') \<Longrightarrow> httpd_step srv srv'"
| unregister_handler: "httpd_unregister_uri_handler u m srv = Some (err, srv') \<Longrightarrow> httpd_step srv srv'"
| unregister_uri: "httpd_unregister_uri u srv = Some (err, srv') \<Longrightarrow> httpd_step srv srv'"
| unregister_all: "httpd_unregister_all_uri_handlers srv = Some srv' \<Longrightarrow> httpd_step srv srv'"
| register_err: "httpd_register_err_handler e f srv = (err, srv') \<Longrightarrow> httpd_step srv srv'"
| request: "httpd_uri H E req path m srv (w::unit) = Some (err, srv', w') \<Longrightarrow> httpd_step srv srv'"

definition httpd_start :: "nat \<Rightarrow> uri_match_fn option \<Rightarrow> httpd_data" where
  "httpd_start n f = \<lparr>hd_calls = replicate n Null, uri_match_fn = f, err_handler_fns = (\<lambda>_. None),
     req_user_ctx = 0, sent_errors = []\<rparr>"

inductive httpd_reach :: "httpd_data \<Rightarrow> bool" where
  start: "httpd_reach (httpd_start n f)"
| step: "httpd_reach srv \<Longrightarrow> httpd_step srv srv' \<Longrightarrow> httpd_reach srv'"

lemma holds_length: "holds hs srv \<Longrightarrow> length hs \<le> length (hd_calls srv)"
  by (auto simp: holds_def table_of_def)

lemma httpd_req_handle_err_calls: "hd_calls (fst (snd (httpd_req_handle_err E err srv w))) = hd_calls srv"
  by (simp add: httpd_req_handle_err_def case_prod_beta split: option.split)

lemma httpd_uri_calls: "httpd_uri H E req path m srv w = Some (err, srv', w') \<Longrightarrow> hd_calls srv' = hd_calls srv"
  using httpd_req_handle_err_calls [of E _ srv w]
  by (auto simp: httpd_uri_def bind_eq_Some_conv case_prod_beta split: option.splits if_splits)
    (metis fst_conv snd_conv)+

lemma httpd_step_holds: "httpd_step srv srv' \<Longrightarrow> holds hs srv \<Longrightarrow> \<exists>hs'. holds hs' srv'"
proof (induction rule: httpd_step.induct)
  case (register malloc_ok h srv err srv')
  show ?case
  proof (cases "err = ESP_OK")
    case True
    with register.hyps obtain h' where h: "h = Some h'" by (cases h) (auto simp: httpd_register_uri_handler_def)
    with register True find_uri_handler_holds [OF register.prems, of "uri h'" "length (uri h')" "http_method h'"]
    obtain i where i: "first_null (hd_calls srv) = Some i" "srv' = srv\<lparr>hd_calls := (hd_calls srv)[i := Handler h']\<rparr>"
      by (auto simp: httpd_register_uri_handler_def split: option.splits if_splits)
    from register.prems obtain k where k: "hd_calls srv = table_of k hs" by (auto simp: holds_def)
    with i(1) obtain k' where "k = Suc k'" "i = length hs" by (cases k) (auto simp: first_null_table)
    with i(2) k table_of_update [of k' hs "Handler h'"] have "hd_calls srv' = table_of k' (hs @ [h'])"
      by simp (simp add: table_of_def)
    then show ?thesis by (auto simp: holds_def)
  qed (use register_fails [OF register.prems register.hyps] register.prems in auto)
next
  case (unregister_handler u m srv err srv')
  show ?case
  proof (cases u)
    case None
    with unregister_handler show ?thesis by (auto simp: httpd_unregister_uri_handler_def)
  next
    case (Some a)
    from unregister_handler_holds [OF unregister_handler.prems, of a m] unregister_handler.hyps [unfolded Some]
    show ?thesis by auto
  qed
next
  case (unregister_uri u srv err srv')
  show ?case
  proof (cases u)
    case None
    with unregister_uri show ?thesis by (auto simp: httpd_unregister_uri_def)
  next
    case (Some a)
    from unregister_uri_holds [OF unregister_uri.prems, of a] unregister_uri.hyps [unfolded Some]
    show ?thesis by auto
  qed
next
  case (unregister_all srv srv')
  then show ?case using unregister_all_holds by fastforce
next
  case (register_err e f srv err srv')
  then have "hd_calls srv' = hd_calls srv" by (auto simp: httpd_register_err_handler_def)
  with register_err.prems show ?case unfolding holds_def by metis
next
  case (request H E req path m srv w err srv' w')
  then show ?case using httpd_uri_calls by (fastforce simp: holds_def)
qed

lemma httpd_reach_holds: "httpd_reach srv \<Longrightarrow> \<exists>hs. holds hs srv"
proof (induction rule: httpd_reach.induct)
  case (start n f)
  have "hd_calls (httpd_start n f) = table_of n []" by (simp add: httpd_start_def table_of_def)
  then show ?case unfolding holds_def by blast
qed (use httpd_step_holds in blast)

subsection \<open>Claims\<close>

definition demo_get :: httpd_uri_t where
  "demo_get = \<lparr>uri = ''/led'', http_method = 1, handler = 5, user_ctx = 77\<rparr>"

definition demo_server :: httpd_data where
  "demo_server = (httpd_start 2 None)\<lparr>hd_calls := [Handler demo_get, Null]\<rparr>"

lemma demo_server_reach: "httpd_reach demo_server"
proof -
  have "httpd_register_uri_handler True True (Some demo_get) (httpd_start 2 None) = Some (ESP_OK, demo_server)"
    by (simp add: httpd_register_uri_handler_def httpd_start_def demo_server_def httpd_find_uri_handler_def replicate_numeral)
  from httpd_reach.step [OF httpd_reach.start httpd_step.register [OF this]] show ?thesis .
qed

lemma demo_server_holds: "holds [demo_get] demo_server"
  unfolding holds_def by (rule exI [of _ 1]) (simp add: demo_server_def table_of_def)

text \<open>
  Claim C33. The handler table implements the list of handlers in the order of registration. In
  every reachable server the table holds some list of handlers without gaps, and on it registration, when
  its allocations succeed, reports an existing match, a full table, or appends; the two ways of unregistering remove the
  first handler with the method and the URI, and all handlers with the URI, and report whether there
  were any; unregistering all leaves none.
\<close>

theorem uri_table_refines_list:
  assumes "httpd_reach srv"
  shows "\<exists>hs. holds hs srv \<and>
    (\<forall>h. \<exists>srv'. httpd_register_uri_handler True True (Some h) srv =
       Some (if spec_find srv (uri h) (length (uri h)) (http_method h) hs \<noteq> None then ESP_ERR_HTTPD_HANDLER_EXISTS
             else if length hs = length (hd_calls srv) then ESP_ERR_HTTPD_HANDLERS_FULL else ESP_OK, srv') \<and>
       holds (if spec_find srv (uri h) (length (uri h)) (http_method h) hs \<noteq> None \<or> length hs = length (hd_calls srv)
              then hs else hs @ [h]) srv') \<and>
    (\<forall>u m. \<exists>srv'. httpd_unregister_uri_handler (Some u) m srv =
       Some (if \<exists>h\<in>set hs. http_method h = m \<and> uri h = u then ESP_OK else ESP_ERR_NOT_FOUND, srv') \<and>
       holds (remove_first (\<lambda>h. http_method h = m \<and> uri h = u) hs) srv') \<and>
    (\<forall>u. \<exists>srv'. httpd_unregister_uri (Some u) srv =
       Some (if \<exists>h\<in>set hs. uri h = u then ESP_OK else ESP_ERR_NOT_FOUND, srv') \<and>
       holds (filter (\<lambda>h. uri h \<noteq> u) hs) srv') \<and>
    (\<exists>srv'. httpd_unregister_all_uri_handlers srv = Some srv' \<and> holds [] srv')"
proof -
  obtain hs where hs: "holds hs srv" using httpd_reach_holds [OF assms] by blast
  have reg: "\<exists>srv'. httpd_register_uri_handler True True (Some h) srv =
       Some (if spec_find srv (uri h) (length (uri h)) (http_method h) hs \<noteq> None then ESP_ERR_HTTPD_HANDLER_EXISTS
             else if length hs = length (hd_calls srv) then ESP_ERR_HTTPD_HANDLERS_FULL else ESP_OK, srv') \<and>
       holds (if spec_find srv (uri h) (length (uri h)) (http_method h) hs \<noteq> None \<or> length hs = length (hd_calls srv)
              then hs else hs @ [h]) srv'" for h
  proof (cases "spec_find srv (uri h) (length (uri h)) (http_method h) hs")
    case None
    show ?thesis
    proof (cases "length hs = length (hd_calls srv)")
      case True
      then have "first_null (hd_calls srv) = None"
        using hs first_null_table [of 0 hs] by (auto simp: holds_def table_of_def)
      with None True hs show ?thesis
        by (auto simp: httpd_register_uri_handler_def find_uri_handler_holds [OF hs])
    next
      case False
      then show ?thesis using register_holds [OF hs, of True True h] holds_length [OF hs] None by auto
    qed
  next
    case (Some g)
    with hs show ?thesis by (auto simp: httpd_register_uri_handler_def find_uri_handler_holds [OF hs])
  qed
  show ?thesis
    by (intro exI [of _ hs] conjI allI hs reg)
      (use unregister_handler_holds [OF hs] unregister_uri_holds [OF hs] unregister_all_holds [OF hs] in blast)+
qed

theorem uri_table_refines_list_witness:
  "\<exists>hs srv'. holds hs demo_server \<and> httpd_unregister_all_uri_handlers demo_server = Some srv' \<and> holds [] srv'"
  using uri_table_refines_list [OF demo_server_reach] by blast

text \<open>
  Claim C34. A request reaches the first registered handler whose template matches its path and
  whose method is the request's: the handler is called with its context, and its failure is
  reported as a failure. When templates match only with other methods the request is answered as
  method not allowed, when none matches as not found, by the registered error handler or with an
  error response.
\<close>

theorem request_reaches_first_match:
  assumes "httpd_reach srv" and "holds hs srv"
  shows "httpd_uri H E req (Some (off, len)) m srv w =
    Some (case spec_find srv (drop off req) len m hs of
            Some h \<Rightarrow> (if fst (H (handler h) (user_ctx h) w) = ESP_OK then ESP_OK else ESP_FAIL,
                       srv\<lparr>req_user_ctx := user_ctx h\<rparr>, snd (H (handler h) (user_ctx h) w))
          | None \<Rightarrow> httpd_req_handle_err E
              (if \<exists>h\<in>set hs. uri_matches srv (uri h) (drop off req) len
               then HTTPD_405_METHOD_NOT_ALLOWED else HTTPD_404_NOT_FOUND) srv w)"
  using find_uri_handler_holds [OF assms(2), of "drop off req" len m]
  by (auto simp: httpd_uri_def case_prod_beta split: option.split)

theorem request_reaches_first_match_witness:
  "httpd_uri (\<lambda>h c w. (ESP_OK, c # w)) (\<lambda>_ _ w. (ESP_OK, w)) ''/led?on=1'' (Some (0, 4)) 1 demo_server [] =
     Some (ESP_OK, demo_server\<lparr>req_user_ctx := 77\<rparr>, [77])"
  using request_reaches_first_match [OF demo_server_reach demo_server_holds,
      of "\<lambda>h c w. (ESP_OK, c # w)" "\<lambda>_ _ w. (ESP_OK, w)" "''/led?on=1''" 0 4 1 "[]"]
  by (simp add: spec_find_def demo_get_def demo_server_def httpd_start_def uri_matches_def httpd_uri_match_simple_def)

subsection \<open>A registration that runs out of memory\<close>

text \<open>
  When the copy of the URI cannot be allocated, the memory of the handler is freed but the table
  keeps the pointer: the next search that gets that far reads freed memory.
\<close>

theorem failed_copy_leaves_freed_handler:
  assumes "holds hs srv" and "length hs < length (hd_calls srv)"
    and "spec_find srv (uri h) (length (uri h)) (http_method h) hs = None" and "spec_find srv u len m hs = None"
  shows "\<exists>srv'. httpd_register_uri_handler True False (Some h) srv = Some (ESP_ERR_HTTPD_ALLOC_MEM, srv') \<and>
    httpd_find_uri_handler srv' u len m = None"
proof -
  from assms(1) obtain n where n: "hd_calls srv = table_of n hs" by (auto simp: holds_def)
  with assms(2) obtain k where k: "n = Suc k" by (cases n) (auto simp: table_of_def)
  define srv' where "srv' = srv\<lparr>hd_calls := map Handler hs @ Freed # replicate k Null\<rparr>"
  have "httpd_register_uri_handler True False (Some h) srv = Some (ESP_ERR_HTTPD_ALLOC_MEM, srv')"
    using assms(3) n k table_of_update [of k hs Freed]
    by (simp add: httpd_register_uri_handler_def find_uri_handler_holds [OF assms(1)] first_null_table srv'_def)
  moreover have "find_from srv' u len m (map Handler gs @ Freed # replicate k Null) err = None"
    if "List.find (\<lambda>h. uri_matches srv' (uri h) u len \<and> http_method h = m) gs = None" for gs err
    using that by (induction gs arbitrary: err) (auto split: if_splits)
  moreover have "uri_matches srv' = uri_matches srv" by (simp add: uri_matches_def srv'_def fun_eq_iff)
  ultimately show ?thesis using assms(4) by (auto simp: httpd_find_uri_handler_def srv'_def spec_find_def)
qed

end
