(* ===== verification/Mmu_Hal.thy ===== *)
theory Mmu_Hal
  imports Prelude
begin

section \<open>The MMU of the external memory: register and hardware abstraction layers\<close>

text \<open>
  Model of \<open>hal/esp32c3/include/hal/mmu_ll.h\<close> and \<open>hal/mmu_hal.c\<close> with the constants of
  \<open>soc/esp32c3/include/soc/ext_mem_defs.h\<close> and \<open>hal/include/hal/mmu_types.h\<close>. The chip is the ESP32-C3:
  one MMU with a table of 128 entries for pages of 64 KB, shared by the instruction and the data bus.
  The table is a list of the register values. Addresses and register values are \<open>uint32_t\<close>, here a
  \<^typ>\<open>nat\<close> with the wrap-around operations of the prelude; flag words are 32-bit words. A failing
  \<open>HAL_ASSERT\<close> is \<open>None\<close>. The argument \<open>mmu_id\<close>, which this chip ignores, is left out.
\<close>

named_theorems mmu_consts \<open>constants of the MMU\<close>
named_theorems mmu_arith \<open>addresses and table entries as sums, quotients and remainders\<close>

subsection \<open>Constants\<close>

definition MMU_MEM_CAP_EXEC :: flags where [mmu_consts]: "MMU_MEM_CAP_EXEC = 1"
definition MMU_MEM_CAP_READ :: flags where [mmu_consts]: "MMU_MEM_CAP_READ = 2"
definition MMU_MEM_CAP_WRITE :: flags where [mmu_consts]: "MMU_MEM_CAP_WRITE = 4"
definition MMU_MEM_CAP_32BIT :: flags where [mmu_consts]: "MMU_MEM_CAP_32BIT = 8"
definition MMU_MEM_CAP_8BIT :: flags where [mmu_consts]: "MMU_MEM_CAP_8BIT = 16"

definition MMU_PAGE_16KB :: nat where [mmu_consts]: "MMU_PAGE_16KB = 0x4000"
definition MMU_PAGE_32KB :: nat where [mmu_consts]: "MMU_PAGE_32KB = 0x8000"
definition MMU_PAGE_64KB :: nat where [mmu_consts]: "MMU_PAGE_64KB = 0x10000"

definition MMU_VADDR_DATA :: flags where [mmu_consts]: "MMU_VADDR_DATA = 1"
definition MMU_VADDR_INSTRUCTION :: flags where [mmu_consts]: "MMU_VADDR_INSTRUCTION = 2"

definition MMU_TARGET_FLASH0 :: flags where [mmu_consts]: "MMU_TARGET_FLASH0 = 1"
definition MMU_TARGET_PSRAM0 :: flags where [mmu_consts]: "MMU_TARGET_PSRAM0 = 2"

definition SOC_IRAM0_CACHE_ADDRESS_LOW :: nat where [mmu_consts]: "SOC_IRAM0_CACHE_ADDRESS_LOW = 0x42000000"
definition SOC_IRAM0_CACHE_ADDRESS_HIGH :: nat where [mmu_consts]: "SOC_IRAM0_CACHE_ADDRESS_HIGH = 0x42800000"
definition SOC_DRAM0_CACHE_ADDRESS_LOW :: nat where [mmu_consts]: "SOC_DRAM0_CACHE_ADDRESS_LOW = 0x3C000000"
definition SOC_DRAM0_CACHE_ADDRESS_HIGH :: nat where [mmu_consts]: "SOC_DRAM0_CACHE_ADDRESS_HIGH = 0x3C800000"

definition SOC_MMU_INVALID :: nat where [mmu_consts]: "SOC_MMU_INVALID = 0x100"
definition SOC_MMU_VALID :: nat where [mmu_consts]: "SOC_MMU_VALID = 0"
definition SOC_MMU_ACCESS_FLASH :: nat where [mmu_consts]: "SOC_MMU_ACCESS_FLASH = 0"
definition SOC_MMU_VALID_VAL_MASK :: nat where [mmu_consts]: "SOC_MMU_VALID_VAL_MASK = 0xff"
definition SOC_MMU_MAX_PADDR_PAGE_NUM :: nat where [mmu_consts]: "SOC_MMU_MAX_PADDR_PAGE_NUM = 256"
definition SOC_MMU_VADDR_MASK :: nat where [mmu_consts]: "SOC_MMU_VADDR_MASK = 0x7FFFFF"
definition SOC_MMU_ENTRY_NUM :: nat where [mmu_consts]: "SOC_MMU_ENTRY_NUM = 128"
definition SOC_MMU_DBUS_VADDR_BASE :: nat where [mmu_consts]: "SOC_MMU_DBUS_VADDR_BASE = 0x3C000000"
definition SOC_MMU_IBUS_VADDR_BASE :: nat where [mmu_consts]: "SOC_MMU_IBUS_VADDR_BASE = 0x42000000"
definition SOC_MMU_LINEAR_ADDR_MASK :: nat where [mmu_consts]: "SOC_MMU_LINEAR_ADDR_MASK = 0x7FFFFF"

definition SOC_ADDRESS_IN_IRAM0_CACHE :: "nat \<Rightarrow> bool" where
  "SOC_ADDRESS_IN_IRAM0_CACHE v \<longleftrightarrow> v \<ge> SOC_IRAM0_CACHE_ADDRESS_LOW \<and> v < SOC_IRAM0_CACHE_ADDRESS_HIGH"

definition SOC_ADDRESS_IN_DRAM0_CACHE :: "nat \<Rightarrow> bool" where
  "SOC_ADDRESS_IN_DRAM0_CACHE v \<longleftrightarrow> v \<ge> SOC_DRAM0_CACHE_ADDRESS_LOW \<and> v < SOC_DRAM0_CACHE_ADDRESS_HIGH"

subsection \<open>Register layer\<close>

type_synonym mmu_table = "nat list"

definition mmu_ll_vaddr_to_laddr :: "nat \<Rightarrow> nat" where
  "mmu_ll_vaddr_to_laddr vaddr = vaddr AND SOC_MMU_LINEAR_ADDR_MASK"

definition mmu_ll_laddr_to_vaddr :: "nat \<Rightarrow> flags \<Rightarrow> flags \<Rightarrow> nat" where
  "mmu_ll_laddr_to_vaddr laddr vaddr_type target =
     (let vaddr_base = (if vaddr_type = MMU_VADDR_DATA then SOC_MMU_DBUS_VADDR_BASE else SOC_MMU_IBUS_VADDR_BASE)
      in vaddr_base OR laddr)"

definition mmu_ll_get_page_size :: nat where
  "mmu_ll_get_page_size = MMU_PAGE_64KB"

definition mmu_ll_check_valid_ext_vaddr_region :: "nat \<Rightarrow> nat \<Rightarrow> flags \<Rightarrow> bool" where
  "mmu_ll_check_valid_ext_vaddr_region vaddr_start len type =
     (let vaddr_end = sz_sub (sz_add vaddr_start len) 1
      in flag_set type MMU_VADDR_INSTRUCTION \<and>
           SOC_ADDRESS_IN_IRAM0_CACHE vaddr_start \<and> SOC_ADDRESS_IN_IRAM0_CACHE vaddr_end
       \<or> flag_set type MMU_VADDR_DATA \<and>
           SOC_ADDRESS_IN_DRAM0_CACHE vaddr_start \<and> SOC_ADDRESS_IN_DRAM0_CACHE vaddr_end)"

definition mmu_ll_check_valid_paddr_region :: "nat \<Rightarrow> nat \<Rightarrow> bool" where
  "mmu_ll_check_valid_paddr_region paddr_start len \<longleftrightarrow>
     paddr_start < mmu_ll_get_page_size * SOC_MMU_MAX_PADDR_PAGE_NUM \<and>
     len < mmu_ll_get_page_size * SOC_MMU_MAX_PADDR_PAGE_NUM \<and>
     sz_sub (sz_add paddr_start len) 1 < mmu_ll_get_page_size * SOC_MMU_MAX_PADDR_PAGE_NUM"

definition mmu_ll_get_entry_id :: "nat \<Rightarrow> nat" where
  "mmu_ll_get_entry_id vaddr = drop_bit 16 (vaddr AND SOC_MMU_VADDR_MASK)"

definition mmu_ll_format_paddr :: "nat \<Rightarrow> flags \<Rightarrow> nat" where
  "mmu_ll_format_paddr paddr target = drop_bit 16 paddr"

definition mmu_ll_write_entry :: "nat \<Rightarrow> nat \<Rightarrow> flags \<Rightarrow> mmu_table \<Rightarrow> mmu_table option" where
  "mmu_ll_write_entry entry_id mmu_val target t =
     do { configASSERT (target = MMU_TARGET_FLASH0);
          configASSERT (entry_id < SOC_MMU_ENTRY_NUM);
          Some (t[entry_id := mmu_val OR SOC_MMU_ACCESS_FLASH OR SOC_MMU_VALID]) }"

definition mmu_ll_set_entry_invalid :: "nat \<Rightarrow> mmu_table \<Rightarrow> mmu_table option" where
  "mmu_ll_set_entry_invalid entry_id t =
     do { configASSERT (entry_id < SOC_MMU_ENTRY_NUM); Some (t[entry_id := SOC_MMU_INVALID]) }"

definition mmu_ll_check_entry_valid :: "nat \<Rightarrow> mmu_table \<Rightarrow> bool option" where
  "mmu_ll_check_entry_valid entry_id t =
     do { configASSERT (entry_id < SOC_MMU_ENTRY_NUM);
          Some (\<not> (t ! entry_id) AND SOC_MMU_INVALID \<noteq> 0) }"

definition mmu_ll_get_entry_target :: "nat \<Rightarrow> flags option" where
  "mmu_ll_get_entry_target entry_id =
     do { configASSERT (entry_id < SOC_MMU_ENTRY_NUM); Some MMU_TARGET_FLASH0 }"

definition mmu_ll_entry_id_to_paddr_base :: "nat \<Rightarrow> mmu_table \<Rightarrow> nat option" where
  "mmu_ll_entry_id_to_paddr_base entry_id t =
     do { configASSERT (entry_id < SOC_MMU_ENTRY_NUM);
          Some (push_bit 16 ((t ! entry_id) AND SOC_MMU_VALID_VAL_MASK)) }"

text \<open>The loop over the table; \<open>entries\<close> are the numbers still to visit.\<close>

fun find_entry :: "nat \<Rightarrow> flags \<Rightarrow> mmu_table \<Rightarrow> nat list \<Rightarrow> nat option option" where
  "find_entry mmu_val target t [] = Some None"
| "find_entry mmu_val target t (i # entries) =
     do { valid \<leftarrow> mmu_ll_check_entry_valid i t;
          tg \<leftarrow> mmu_ll_get_entry_target i;
          if valid \<and> tg = target \<and> (t ! i) AND SOC_MMU_VALID_VAL_MASK = mmu_val then Some (Some i)
          else find_entry mmu_val target t entries }"

definition mmu_ll_find_entry_id_based_on_map_value :: "nat \<Rightarrow> flags \<Rightarrow> mmu_table \<Rightarrow> nat option option" where
  "mmu_ll_find_entry_id_based_on_map_value mmu_val target t = find_entry mmu_val target t [0..<SOC_MMU_ENTRY_NUM]"

definition mmu_ll_entry_id_to_vaddr_base :: "nat \<Rightarrow> flags \<Rightarrow> nat" where
  "mmu_ll_entry_id_to_vaddr_base entry_id type =
     mmu_ll_laddr_to_vaddr (push_bit 16 entry_id) type MMU_TARGET_FLASH0"

subsection \<open>Hardware abstraction layer\<close>

definition shift_code :: "nat \<Rightarrow> nat option" where
  "shift_code page_size =
     (if page_size = MMU_PAGE_64KB then Some 16
      else if page_size = MMU_PAGE_32KB then Some 15
      else if page_size = MMU_PAGE_16KB then Some 14
      else None)"

definition mmu_hal_pages_to_bytes :: "nat \<Rightarrow> nat option" where
  "mmu_hal_pages_to_bytes page_num =
     do { s \<leftarrow> shift_code mmu_ll_get_page_size; Some (push_bit s page_num mod SIZE_LIM) }"

definition mmu_hal_bytes_to_pages :: "nat \<Rightarrow> nat option" where
  "mmu_hal_bytes_to_pages bytes =
     do { s \<leftarrow> shift_code mmu_ll_get_page_size; Some (drop_bit s bytes) }"

definition mmu_hal_check_valid_ext_vaddr_region :: "nat \<Rightarrow> nat \<Rightarrow> flags \<Rightarrow> bool" where
  "mmu_hal_check_valid_ext_vaddr_region vaddr_start len type =
     mmu_ll_check_valid_ext_vaddr_region vaddr_start len type"

fun map_pages :: "nat \<Rightarrow> nat \<Rightarrow> nat \<Rightarrow> nat \<Rightarrow> flags \<Rightarrow> mmu_table \<Rightarrow> mmu_table option" where
  "map_pages psize 0 vaddr mmu_val mem_type t = Some t"
| "map_pages psize (Suc page_num) vaddr mmu_val mem_type t =
     do { t1 \<leftarrow> mmu_ll_write_entry (mmu_ll_get_entry_id vaddr) mmu_val mem_type t;
          map_pages psize page_num (sz_add vaddr psize) (sz_add mmu_val 1) mem_type t1 }"

definition mmu_hal_map_region :: "flags \<Rightarrow> nat \<Rightarrow> nat \<Rightarrow> nat \<Rightarrow> mmu_table \<Rightarrow> (nat \<times> mmu_table) option" where
  "mmu_hal_map_region mem_type vaddr paddr len t =
     do { psize \<leftarrow> mmu_hal_pages_to_bytes 1;
          configASSERT (vaddr mod psize = 0);
          configASSERT (paddr mod psize = 0);
          configASSERT (mmu_ll_check_valid_paddr_region paddr len);
          configASSERT (mmu_hal_check_valid_ext_vaddr_region vaddr len (MMU_VADDR_DATA OR MMU_VADDR_INSTRUCTION));
          let page_num = sz_sub (sz_add len psize) 1 div psize;
          out_len \<leftarrow> mmu_hal_pages_to_bytes page_num;
          t1 \<leftarrow> map_pages psize page_num vaddr (mmu_ll_format_paddr paddr mem_type) mem_type t;
          Some (out_len, t1) }"

fun unmap_pages :: "nat \<Rightarrow> nat \<Rightarrow> nat \<Rightarrow> mmu_table \<Rightarrow> mmu_table option" where
  "unmap_pages psize 0 vaddr t = Some t"
| "unmap_pages psize (Suc page_num) vaddr t =
     do { t1 \<leftarrow> mmu_ll_set_entry_invalid (mmu_ll_get_entry_id vaddr) t;
          unmap_pages psize page_num (sz_add vaddr psize) t1 }"

definition mmu_hal_unmap_region :: "nat \<Rightarrow> nat \<Rightarrow> mmu_table \<Rightarrow> mmu_table option" where
  "mmu_hal_unmap_region vaddr len t =
     do { psize \<leftarrow> mmu_hal_pages_to_bytes 1;
          configASSERT (vaddr mod psize = 0);
          configASSERT (mmu_hal_check_valid_ext_vaddr_region vaddr len (MMU_VADDR_DATA OR MMU_VADDR_INSTRUCTION));
          let page_num = sz_sub (sz_add len psize) 1 div psize;
          unmap_pages psize page_num vaddr t }"

fun unmap_entries :: "nat list \<Rightarrow> mmu_table \<Rightarrow> mmu_table option" where
  "unmap_entries [] t = Some t"
| "unmap_entries (i # is) t = do { t1 \<leftarrow> mmu_ll_set_entry_invalid i t; unmap_entries is t1 }"

definition mmu_ll_unmap_all :: "mmu_table \<Rightarrow> mmu_table option" where
  "mmu_ll_unmap_all t = unmap_entries [0..<SOC_MMU_ENTRY_NUM] t"

definition mmu_hal_unmap_all :: "mmu_table \<Rightarrow> mmu_table option" where
  "mmu_hal_unmap_all t = mmu_ll_unmap_all t"

text \<open>\<open>Some None\<close> is the result \<open>false\<close>, \<open>Some (Some _)\<close> the result \<open>true\<close> with the values stored
  through the pointers.\<close>

definition mmu_hal_vaddr_to_paddr :: "nat \<Rightarrow> mmu_table \<Rightarrow> (nat \<times> flags) option option" where
  "mmu_hal_vaddr_to_paddr vaddr t =
     do { configASSERT (mmu_hal_check_valid_ext_vaddr_region vaddr 1 (MMU_VADDR_DATA OR MMU_VADDR_INSTRUCTION));
          let entry_id = mmu_ll_get_entry_id vaddr;
          valid \<leftarrow> mmu_ll_check_entry_valid entry_id t;
          if \<not> valid then Some None
          else do {
            psize \<leftarrow> mmu_hal_pages_to_bytes 1;
            let offset = vaddr mod psize;
            target \<leftarrow> mmu_ll_get_entry_target entry_id;
            paddr_base \<leftarrow> mmu_ll_entry_id_to_paddr_base entry_id t;
            Some (Some (paddr_base OR offset, target)) } }"

definition mmu_hal_paddr_to_vaddr :: "nat \<Rightarrow> flags \<Rightarrow> flags \<Rightarrow> mmu_table \<Rightarrow> nat option option" where
  "mmu_hal_paddr_to_vaddr paddr target type t =
     do { configASSERT (mmu_ll_check_valid_paddr_region paddr 1);
          let mmu_val = mmu_ll_format_paddr paddr target;
          r \<leftarrow> mmu_ll_find_entry_id_based_on_map_value mmu_val target t;
          case r of
            None \<Rightarrow> Some None
          | Some entry_id \<Rightarrow> do {
              psize \<leftarrow> mmu_hal_pages_to_bytes 1;
              let offset = paddr mod psize;
              let vaddr_base = mmu_ll_entry_id_to_vaddr_base entry_id type;
              if vaddr_base = 0 then Some None else Some (Some (vaddr_base OR offset)) } }"

subsection \<open>Addresses as numbers\<close>

text \<open>The linear addresses form the range below \<open>LINEAR_END\<close>; physical addresses the MMU can reach lie
  below \<open>PADDR_END\<close>.\<close>

abbreviation PAGE :: nat where "PAGE \<equiv> 65536"
abbreviation LINEAR_END :: nat where "LINEAR_END \<equiv> 8388608"
abbreviation PADDR_END :: nat where "PADDR_END \<equiv> 16777216"

lemma page_size_bytes [simp]: "mmu_hal_pages_to_bytes 1 = Some PAGE" "mmu_hal_pages_to_bytes (Suc 0) = Some PAGE"
  by (simp_all add: mmu_hal_pages_to_bytes_def shift_code_def mmu_ll_get_page_size_def mmu_consts push_bit_eq_mult)

lemma pages_to_bytes [mmu_arith]: "mmu_hal_pages_to_bytes n = Some (PAGE * n mod SIZE_LIM)"
  by (simp add: mmu_hal_pages_to_bytes_def shift_code_def mmu_ll_get_page_size_def mmu_consts push_bit_eq_mult
      mult.commute)

lemma and_linear_mask: "x AND (0x7FFFFF :: nat) = x mod LINEAR_END"
  using take_bit_eq_mask [of 23 x] by (simp add: take_bit_eq_mod mask_eq_exp_minus_1)

lemma and_value_mask: "x AND (0xff :: nat) = x mod 256"
  using take_bit_eq_mask [of 8 x] by (simp add: take_bit_eq_mod mask_eq_exp_minus_1)

lemma vaddr_to_laddr_mod [mmu_arith]: "mmu_ll_vaddr_to_laddr v = v mod LINEAR_END"
  by (simp add: mmu_ll_vaddr_to_laddr_def SOC_MMU_LINEAR_ADDR_MASK_def and_linear_mask)

lemma get_entry_id_div [mmu_arith]: "mmu_ll_get_entry_id v = v mod LINEAR_END div PAGE"
  by (simp add: mmu_ll_get_entry_id_def SOC_MMU_VADDR_MASK_def and_linear_mask drop_bit_eq_div)

lemma format_paddr_div [mmu_arith]: "mmu_ll_format_paddr p tg = p div PAGE"
  by (simp add: mmu_ll_format_paddr_def drop_bit_eq_div)

lemma or_is_sum:
  fixes a b :: nat
  assumes "take_bit n a = 0" and "b < 2 ^ n"
  shows "a OR b = a + b"
proof -
  have "a AND b = 0"
  proof (rule bit_eqI)
    fix k
    have "bit a k \<Longrightarrow> n \<le> k" using assms(1) by (metis bit_take_bit_iff bit_0_eq bot_apply bot_bool_def not_le)
    moreover have "bit b k \<Longrightarrow> k < n" using assms(2) by (metis bit_take_bit_iff take_bit_nat_eq_self)
    ultimately show "bit (a AND b) k \<longleftrightarrow> bit (0::nat) k" by (auto simp: bit_and_iff)
  qed
  then show ?thesis by (simp add: disjunctive_add_eq_or)
qed

lemma or_page_offset [mmu_arith]: "b < PAGE \<Longrightarrow> (a * PAGE) OR b = a * PAGE + b"
  by (rule or_is_sum [of 16]) (simp_all add: take_bit_eq_mod)

definition vaddr_base :: "flags \<Rightarrow> nat" where
  "vaddr_base type = (if type = MMU_VADDR_DATA then 0x3C000000 else 0x42000000)"

lemma laddr_to_vaddr_sum [mmu_arith]:
  assumes "l < LINEAR_END"
  shows "mmu_ll_laddr_to_vaddr l type tg = vaddr_base type + l"
proof -
  have "vaddr_base type OR l = vaddr_base type + l"
    by (rule or_is_sum [of 23]) (use assms in \<open>simp_all add: vaddr_base_def take_bit_eq_mod\<close>)
  then show ?thesis
    by (simp add: mmu_ll_laddr_to_vaddr_def vaddr_base_def SOC_MMU_DBUS_VADDR_BASE_def SOC_MMU_IBUS_VADDR_BASE_def
        split: if_splits)
qed

lemma vaddr_base_facts [simp]:
  "vaddr_base type mod LINEAR_END = 0" "vaddr_base type mod PAGE = 0"
  "(vaddr_base type + x) mod LINEAR_END = x mod LINEAR_END"
  "(vaddr_base type + x) mod PAGE = x mod PAGE"
  by (simp_all add: vaddr_base_def mod_add_left_eq [symmetric])

lemma vaddr_base_bound: "vaddr_base type \<le> 0x42000000" and vaddr_base_pos: "0 < vaddr_base type"
  by (simp_all add: vaddr_base_def)

text \<open>The two views of a linear address lead back to it.\<close>

lemma laddr_vaddr_laddr [simp]:
  "l < LINEAR_END \<Longrightarrow> mmu_ll_vaddr_to_laddr (mmu_ll_laddr_to_vaddr l type tg) = l"
  by (simp add: mmu_arith)

subsection \<open>Validity of address ranges\<close>

lemma valid_vaddr_region:
  assumes "0 < n" and "l + n \<le> LINEAR_END"
  shows "mmu_hal_check_valid_ext_vaddr_region (vaddr_base type + l) n (MMU_VADDR_DATA OR MMU_VADDR_INSTRUCTION)"
  using assms
  by (simp add: mmu_hal_check_valid_ext_vaddr_region_def mmu_ll_check_valid_ext_vaddr_region_def Let_def sz_simps
      vaddr_base_def SOC_ADDRESS_IN_IRAM0_CACHE_def SOC_ADDRESS_IN_DRAM0_CACHE_def mmu_consts flag_simps
      bit_or_iff split: if_splits)

text \<open>What it means to be a virtual address of the external memory.\<close>

lemma valid_vaddr_iff:
  assumes "v < SIZE_LIM"
  shows "mmu_hal_check_valid_ext_vaddr_region v 1 (MMU_VADDR_DATA OR MMU_VADDR_INSTRUCTION) \<longleftrightarrow>
    (\<exists>type\<in>{MMU_VADDR_DATA, MMU_VADDR_INSTRUCTION}. \<exists>l<LINEAR_END. v = vaddr_base type + l)"
    (is "?L \<longleftrightarrow> ?R")
proof
  assume ?L
  then consider "0x42000000 \<le> v \<and> v < 0x42800000" | "0x3C000000 \<le> v \<and> v < 0x3C800000"
    by (auto simp: mmu_hal_check_valid_ext_vaddr_region_def mmu_ll_check_valid_ext_vaddr_region_def Let_def
        SOC_ADDRESS_IN_IRAM0_CACHE_def SOC_ADDRESS_IN_DRAM0_CACHE_def mmu_consts)
  then show ?R
  proof cases
    case 1
    then have "v = vaddr_base MMU_VADDR_INSTRUCTION + (v - 0x42000000)" "v - 0x42000000 < LINEAR_END"
      by (auto simp: vaddr_base_def mmu_consts)
    then show ?thesis by blast
  next
    case 2
    then have "v = vaddr_base MMU_VADDR_DATA + (v - 0x3C000000)" "v - 0x3C000000 < LINEAR_END"
      by (auto simp: vaddr_base_def mmu_consts)
    then show ?thesis by blast
  qed
next
  assume ?R
  then obtain type l where l: "l < LINEAR_END" "v = vaddr_base type + l" by blast
  then show ?L using valid_vaddr_region [of 1 l type] by simp
qed

lemma valid_paddr_region:
  assumes "p + n \<le> PADDR_END" "0 < n" "n < PADDR_END"
  shows "mmu_ll_check_valid_paddr_region p n"
  using assms by (simp add: mmu_ll_check_valid_paddr_region_def mmu_ll_get_page_size_def mmu_consts sz_simps)

lemma valid_paddr_regionD:
  assumes "mmu_ll_check_valid_paddr_region p n" "0 < n"
  shows "p + n \<le> PADDR_END \<and> n < PADDR_END"
proof -
  have b: "p < PADDR_END" "n < PADDR_END" "sz_sub (sz_add p n) 1 < PADDR_END"
    using assms(1) by (simp_all add: mmu_ll_check_valid_paddr_region_def mmu_ll_get_page_size_def mmu_consts)
  then have "sz_sub (sz_add p n) 1 = p + n - 1" using assms(2) by (simp add: sz_simps)
  with b show ?thesis using assms(2) by linarith
qed

subsection \<open>Runs of table entries\<close>

text \<open>\<open>put_pages e n v t\<close>: the entries \<open>e\<close> to \<open>e + n - 1\<close> hold \<open>v\<close>, \<open>v + 1\<close>, ...; \<open>clear_pages\<close> marks them
  invalid.\<close>

definition put_pages :: "nat \<Rightarrow> nat \<Rightarrow> nat \<Rightarrow> mmu_table \<Rightarrow> mmu_table" where
  "put_pages e n v t = map (\<lambda>i. if e \<le> i \<and> i < e + n then v + (i - e) else t ! i) [0..<length t]"

definition clear_pages :: "nat \<Rightarrow> nat \<Rightarrow> mmu_table \<Rightarrow> mmu_table" where
  "clear_pages e n t = map (\<lambda>i. if e \<le> i \<and> i < e + n then SOC_MMU_INVALID else t ! i) [0..<length t]"

lemma length_put_pages [simp]: "length (put_pages e n v t) = length t"
  and length_clear_pages [simp]: "length (clear_pages e n t) = length t"
  by (simp_all add: put_pages_def clear_pages_def)

lemma put_pages_nth [simp]:
  "i < length t \<Longrightarrow> put_pages e n v t ! i = (if e \<le> i \<and> i < e + n then v + (i - e) else t ! i)"
  and clear_pages_nth [simp]:
  "i < length t \<Longrightarrow> clear_pages e n t ! i = (if e \<le> i \<and> i < e + n then SOC_MMU_INVALID else t ! i)"
  by (simp_all add: put_pages_def clear_pages_def)

lemma put_pages_0 [simp]: "put_pages e 0 v t = t" and clear_pages_0 [simp]: "clear_pages e 0 t = t"
  by (rule nth_equalityI; simp)+

lemma put_pages_Suc: "e < length t \<Longrightarrow> put_pages (Suc e) n (Suc v) (t[e := v]) = put_pages e (Suc n) v t"
  by (rule nth_equalityI) (auto simp: nth_list_update)

lemma clear_pages_Suc: "e < length t \<Longrightarrow> clear_pages (Suc e) n (t[e := SOC_MMU_INVALID]) = clear_pages e (Suc n) t"
  by (rule nth_equalityI) (auto simp: nth_list_update)

lemma next_page: "(l + PAGE) div PAGE = Suc (l div PAGE)"
  using div_add_self2 [of PAGE l] by simp

lemma map_pages_eq:
  assumes "length t = SOC_MMU_ENTRY_NUM" "l mod PAGE = 0" "l + n * PAGE \<le> LINEAR_END" "v + n < SIZE_LIM"
  shows "map_pages PAGE n (vaddr_base type + l) v MMU_TARGET_FLASH0 t = Some (put_pages (l div PAGE) n v t)"
  using assms
proof (induction n arbitrary: l v t)
  case 0
  then show ?case by simp
next
  case (Suc n)
  let ?e = "l div PAGE"
  have l: "l < LINEAR_END" and e: "?e < SOC_MMU_ENTRY_NUM" using Suc.prems by (simp_all add: SOC_MMU_ENTRY_NUM_def)
  have w: "mmu_ll_write_entry (mmu_ll_get_entry_id (vaddr_base type + l)) v MMU_TARGET_FLASH0 t = Some (t[?e := v])"
    using e l by (simp add: mmu_ll_write_entry_def get_entry_id_div SOC_MMU_ACCESS_FLASH_def SOC_MMU_VALID_def)
  have a: "sz_add (vaddr_base type + l) PAGE = vaddr_base type + (l + PAGE)" "sz_add v (Suc 0) = Suc v"
    using Suc.prems vaddr_base_bound [of type] by (simp_all add: sz_simps)
  have "map_pages PAGE n (vaddr_base type + (l + PAGE)) (Suc v) MMU_TARGET_FLASH0 (t[?e := v]) =
      Some (put_pages (Suc ?e) n (Suc v) (t[?e := v]))"
    using Suc.IH [of "t[?e := v]" "l + PAGE" "Suc v"] Suc.prems by (simp add: next_page)
  then show ?case
    using e Suc.prems(1) by (simp add: w a put_pages_Suc)
qed

lemma unmap_pages_eq:
  assumes "length t = SOC_MMU_ENTRY_NUM" "l mod PAGE = 0" "l + n * PAGE \<le> LINEAR_END"
  shows "unmap_pages PAGE n (vaddr_base type + l) t = Some (clear_pages (l div PAGE) n t)"
  using assms
proof (induction n arbitrary: l t)
  case 0
  then show ?case by simp
next
  case (Suc n)
  let ?e = "l div PAGE"
  have l: "l < LINEAR_END" and e: "?e < SOC_MMU_ENTRY_NUM" using Suc.prems by (simp_all add: SOC_MMU_ENTRY_NUM_def)
  have w: "mmu_ll_set_entry_invalid (mmu_ll_get_entry_id (vaddr_base type + l)) t = Some (t[?e := SOC_MMU_INVALID])"
    using e l by (simp add: mmu_ll_set_entry_invalid_def get_entry_id_div)
  have a: "sz_add (vaddr_base type + l) PAGE = vaddr_base type + (l + PAGE)"
    using Suc.prems vaddr_base_bound [of type] by (simp add: sz_simps)
  have "unmap_pages PAGE n (vaddr_base type + (l + PAGE)) (t[?e := SOC_MMU_INVALID]) =
      Some (clear_pages (Suc ?e) n (t[?e := SOC_MMU_INVALID]))"
    using Suc.IH [of "t[?e := SOC_MMU_INVALID]" "l + PAGE"] Suc.prems by (simp add: next_page)
  then show ?case
    using e Suc.prems(1) by (simp add: w a clear_pages_Suc)
qed

subsection \<open>Mapping, unmapping and looking up a range\<close>

lemma page_count:
  assumes "n * PAGE < LINEAR_END + PAGE"
  shows "sz_sub (sz_add (n * PAGE) PAGE) (Suc 0) div PAGE = n"
proof -
  have "sz_sub (sz_add (n * PAGE) PAGE) (Suc 0) = 65535 + n * PAGE" using assms by (simp add: sz_simps)
  then show ?thesis by (simp add: div_mult_self3)
qed

lemma map_region_eq:
  assumes "length t = SOC_MMU_ENTRY_NUM" "l mod PAGE = 0" "0 < n" "l + n * PAGE \<le> LINEAR_END"
    and "p mod PAGE = 0" "p + n * PAGE \<le> PADDR_END"
  shows "mmu_hal_map_region MMU_TARGET_FLASH0 (vaddr_base type + l) p (n * PAGE) t =
    Some (n * PAGE, put_pages (l div PAGE) n (p div PAGE) t)"
proof -
  have c: "sz_sub (sz_add (n * PAGE) PAGE) (Suc 0) div PAGE = n" by (rule page_count) (use assms in simp)
  have b: "mmu_hal_pages_to_bytes n = Some (n * PAGE)" using assms by (simp add: pages_to_bytes mult.commute)
  have m: "map_pages PAGE n (vaddr_base type + l) (p div PAGE) MMU_TARGET_FLASH0 t =
      Some (put_pages (l div PAGE) n (p div PAGE) t)"
    by (rule map_pages_eq) (use assms in simp_all)
  have "mmu_ll_check_valid_paddr_region p (n * PAGE)"
    by (rule valid_paddr_region) (use assms in simp_all)
  then show ?thesis
    using assms valid_vaddr_region [of "n * PAGE" l type]
    by (simp add: mmu_hal_map_region_def format_paddr_div c b m)
qed

lemma unmap_region_eq:
  assumes "length t = SOC_MMU_ENTRY_NUM" "l mod PAGE = 0" "0 < n" "l + n * PAGE \<le> LINEAR_END"
  shows "mmu_hal_unmap_region (vaddr_base type + l) (n * PAGE) t = Some (clear_pages (l div PAGE) n t)"
proof -
  have c: "sz_sub (sz_add (n * PAGE) PAGE) (Suc 0) div PAGE = n" by (rule page_count) (use assms in simp)
  show ?thesis
    using assms valid_vaddr_region [of "n * PAGE" l type] unmap_pages_eq [of t l n type]
    by (simp add: mmu_hal_unmap_region_def c)
qed

text \<open>What the MMU makes of a linear address.\<close>

definition translate :: "mmu_table \<Rightarrow> nat \<Rightarrow> nat option" where
  "translate t l = (let e = t ! (l div PAGE) in if bit e 8 then None else Some (e mod 256 * PAGE + l mod PAGE))"

lemma check_entry_valid_bit:
  "i < SOC_MMU_ENTRY_NUM \<Longrightarrow> mmu_ll_check_entry_valid i t = Some (\<not> bit (t ! i) 8)"
  using and_exp_eq_0_iff_not_bit [of "t ! i" 8] by (simp add: mmu_ll_check_entry_valid_def SOC_MMU_INVALID_def)

lemma entry_bound: "l < LINEAR_END \<Longrightarrow> l div PAGE < SOC_MMU_ENTRY_NUM"
  by (simp add: SOC_MMU_ENTRY_NUM_def)

lemma vaddr_to_paddr_translate:
  assumes "l < LINEAR_END"
  shows "mmu_hal_vaddr_to_paddr (vaddr_base type + l) t =
    Some (map_option (\<lambda>p. (p, MMU_TARGET_FLASH0)) (translate t l))"
  using assms entry_bound [OF assms] valid_vaddr_region [of 1 l type]
  by (simp add: mmu_hal_vaddr_to_paddr_def get_entry_id_div check_entry_valid_bit translate_def Let_def
      mmu_ll_get_entry_target_def mmu_ll_entry_id_to_paddr_base_def SOC_MMU_VALID_VAL_MASK_def and_value_mask
      push_bit_eq_mult or_page_offset)

lemma page_multiple: "l mod PAGE = 0 \<Longrightarrow> \<exists>e. l = e * PAGE"
  using div_mult_mod_eq [of l PAGE] by (metis add.right_neutral)

lemma page_range: "e \<le> x div PAGE \<and> x div PAGE < e + n \<longleftrightarrow> e * PAGE \<le> x \<and> x < e * PAGE + n * PAGE"
  using div_less_iff_less_mult [of PAGE x "e + n"] by (simp add: less_eq_div_iff_mult_less_eq add_mult_distrib)

lemma small_value_valid: "(v::nat) < 256 \<Longrightarrow> \<not> bit v 8"
  using bit_take_bit_iff [of 8 v 8] by (simp add: take_bit_nat_eq_self)

lemma translate_put:
  assumes "length t = SOC_MMU_ENTRY_NUM" "l mod PAGE = 0" "l + n * PAGE \<le> LINEAR_END" "p mod PAGE = 0"
    and "p + n * PAGE \<le> PADDR_END" "x < LINEAR_END"
  shows "translate (put_pages (l div PAGE) n (p div PAGE) t) x =
    (if l \<le> x \<and> x < l + n * PAGE then Some (p + (x - l)) else translate t x)"
proof -
  obtain e f where l: "l = e * PAGE" and p: "p = f * PAGE"
    using page_multiple [OF assms(2)] page_multiple [OF assms(4)] by blast
  let ?i = "x div PAGE"
  have i: "?i < length t" using assms(1,6) by (simp add: SOC_MMU_ENTRY_NUM_def)
  have range: "e \<le> ?i \<and> ?i < e + n \<longleftrightarrow> l \<le> x \<and> x < l + n * PAGE"
    unfolding l by (rule page_range)
  show ?thesis
  proof (cases "l \<le> x \<and> x < l + n * PAGE")
    case True
    then have ei: "e \<le> ?i" "?i < e + n" using range by blast+
    then obtain d where d: "?i = e + d" "d < n" using le_Suc_ex by fastforce
    have v: "f + d < 256" using assms(5) d p by simp
    have x: "x = (e + d) * PAGE + x mod PAGE" using div_mult_mod_eq [of x PAGE] d by simp
    then have "p + (x - l) = (f + d) * PAGE + x mod PAGE" unfolding l p by simp
    then show ?thesis
      using True ei i v small_value_valid [OF v] d l p by (simp add: translate_def)
  next
    case False
    then show ?thesis using range i l by (auto simp: translate_def)
  qed
qed

lemma translate_clear:
  assumes "length t = SOC_MMU_ENTRY_NUM" "l mod PAGE = 0" "x < LINEAR_END"
  shows "translate (clear_pages (l div PAGE) n t) x =
    (if l \<le> x \<and> x < l + n * PAGE then None else translate t x)"
proof -
  obtain e where l: "l = e * PAGE" using page_multiple [OF assms(2)] by blast
  let ?i = "x div PAGE"
  have i: "?i < length t" using assms(1,3) by (simp add: SOC_MMU_ENTRY_NUM_def)
  have range: "e \<le> ?i \<and> ?i < e + n \<longleftrightarrow> l \<le> x \<and> x < l + n * PAGE"
    unfolding l by (rule page_range)
  have "bit (SOC_MMU_INVALID :: nat) 8" by (simp add: SOC_MMU_INVALID_def bit_numeral_rec bit_0)
  then show ?thesis using range i l by (auto simp: translate_def)
qed

end
