(* ===== verification/Mmu_Map.thy ===== *)
theory Mmu_Map
  imports Mmu_Hal
begin

section \<open>The memory mapping driver\<close>

text \<open>
  Model of \<open>esp_mm/esp_mmu_map.c\<close>, with the memory layout of \<open>esp_mm/port/esp32c3/ext_mem_layout.c\<close>. A region of
  linear addresses keeps the list of its mapped blocks between two empty blocks, the dummy head
  and the dummy tail, which are made at the first mapping. The state \<open>mmu_st\<close> holds the regions (the
  first \<open>num_regions\<close> elements of the array of \<open>mmu_ctx_t\<close>), the table of the MMU, the cache buses that are
  enabled and the address ranges the cache was told to invalidate, latest first. Allocation results
  are arguments. The field \<open>freed\<close> of a block tells that its memory was given back: a walk over
  the list that comes to such a block is stopped (\<open>None\<close>). Pointers for results are taken to be valid;
  the result is then returned as a value.
\<close>

subsection \<open>Data\<close>

record mem_block_t =
  laddr_start :: nat
  laddr_end :: nat
  vaddr_start :: nat
  vaddr_end :: nat
  block_size :: nat
  block_caps :: flags
  paddr_start :: nat
  paddr_end :: nat
  block_target :: flags
  freed :: bool

record mem_region_t =
  bus_id :: flags
  region_start :: nat
  region_end :: nat
  region_size :: nat
  free_head :: nat
  max_slot_size :: nat
  region_caps :: flags
  targets :: flags
  mem_block_head :: "mem_block_t list"

record mmu_st =
  mem_regions :: "mem_region_t list"
  mmu_tab :: mmu_table
  enabled_buses :: flags
  invalidated :: "(nat \<times> nat) list"

record mmu_mem_region_t =
  g_start :: nat
  g_end :: nat
  g_size :: nat
  g_bus_id :: flags
  g_targets :: flags
  g_caps :: flags

definition CONFIG_MMU_PAGE_SIZE :: nat where "CONFIG_MMU_PAGE_SIZE = 0x10000"
definition MEM_REGION_MERGED :: flags where "MEM_REGION_MERGED = -1"
definition ESP_MMU_MMAP_FLAG_PADDR_SHARED :: flags where "ESP_MMU_MMAP_FLAG_PADDR_SHARED = 1"

definition CACHE_BUS_IBUS0 :: flags where "CACHE_BUS_IBUS0 = 1"
definition CACHE_BUS_DBUS0 :: flags where "CACHE_BUS_DBUS0 = 8"

definition g_mmu_mem_regions :: "mmu_mem_region_t list" where
  "g_mmu_mem_regions =
     [\<lparr>g_start = SOC_IRAM0_CACHE_ADDRESS_LOW AND SOC_MMU_LINEAR_ADDR_MASK,
       g_end = (if SOC_IRAM0_CACHE_ADDRESS_HIGH AND SOC_MMU_LINEAR_ADDR_MASK > 0
                then SOC_IRAM0_CACHE_ADDRESS_HIGH AND SOC_MMU_LINEAR_ADDR_MASK else SOC_MMU_LINEAR_ADDR_MASK + 1),
       g_size = (if SOC_IRAM0_CACHE_ADDRESS_HIGH AND SOC_MMU_LINEAR_ADDR_MASK > 0
                then SOC_IRAM0_CACHE_ADDRESS_HIGH AND SOC_MMU_LINEAR_ADDR_MASK else SOC_MMU_LINEAR_ADDR_MASK + 1)
                - (SOC_IRAM0_CACHE_ADDRESS_LOW AND SOC_MMU_LINEAR_ADDR_MASK),
       g_bus_id = CACHE_BUS_IBUS0 OR CACHE_BUS_DBUS0,
       g_targets = MMU_TARGET_FLASH0,
       g_caps = MMU_MEM_CAP_EXEC OR MMU_MEM_CAP_READ OR MMU_MEM_CAP_32BIT OR MMU_MEM_CAP_8BIT\<rparr>]"

text \<open>The complement of a 32-bit number, and rounding to multiples of a power of two.\<close>

definition sz_not :: "nat \<Rightarrow> nat" where "sz_not x = SIZE_LIM - 1 - x"

definition ALIGN_UP_BY :: "nat \<Rightarrow> nat \<Rightarrow> nat" where
  "ALIGN_UP_BY num align = sz_add num (align - 1) AND sz_not (align - 1)"

definition ALIGN_DOWN_BY :: "nat \<Rightarrow> nat \<Rightarrow> nat" where
  "ALIGN_DOWN_BY num align = num AND sz_not (align - 1)"

subsection \<open>Initialisation\<close>

text \<open>\<open>HAL_ASSERT(0)\<close> stops an address range of no bus.\<close>

definition cache_ll_l1_get_bus :: "nat \<Rightarrow> nat \<Rightarrow> flags option" where
  "cache_ll_l1_get_bus vstart len =
     (let vend = sz_sub (sz_add vstart len) 1 in
      if vstart \<ge> SOC_IRAM0_CACHE_ADDRESS_LOW \<and> vend < SOC_IRAM0_CACHE_ADDRESS_HIGH then Some CACHE_BUS_IBUS0
      else if vstart \<ge> SOC_DRAM0_CACHE_ADDRESS_LOW \<and> vend < SOC_DRAM0_CACHE_ADDRESS_HIGH then Some CACHE_BUS_DBUS0
      else None)"

fun reserve_loop :: "flags \<Rightarrow> nat \<Rightarrow> mem_region_t list \<Rightarrow> mem_region_t list" where
  "reserve_loop bus_mask len [] = []"
| "reserve_loop bus_mask len (r # rs) =
     (if bus_mask AND bus_id r \<noteq> 0
      then if region_size r \<le> len
           then r\<lparr>free_head := region_end r, max_slot_size := 0\<rparr> # reserve_loop bus_mask (sz_sub len (region_size r)) rs
           else r\<lparr>free_head := sz_add (free_head r) len, max_slot_size := sz_sub (max_slot_size r) len\<rparr>
                # reserve_loop bus_mask len rs
      else r # reserve_loop bus_mask len rs)"

text \<open>The same computation stands in \<open>s_reserve_irom_region\<close> and \<open>s_reserve_drom_region\<close>, on two pairs of
  symbols of the linker.\<close>

definition reserve_between :: "nat \<Rightarrow> nat \<Rightarrow> mem_region_t list \<Rightarrow> mem_region_t list option" where
  "reserve_between rstart rend rs =
     do { let len = sz_sub rend rstart;
          configASSERT (sz_sub (mmu_ll_vaddr_to_laddr rend) (mmu_ll_vaddr_to_laddr rstart) = len);
          let len1 = sz_add len (sz_sub rstart (ALIGN_DOWN_BY rstart CONFIG_MMU_PAGE_SIZE));
          let len2 = ALIGN_UP_BY len1 CONFIG_MMU_PAGE_SIZE;
          bus_mask \<leftarrow> cache_ll_l1_get_bus rstart len2;
          Some (reserve_loop bus_mask len2 rs) }"

record linker_symbols =
  instruction_reserved_start :: nat
  instruction_reserved_end :: nat
  rodata_reserved_start :: nat
  rodata_reserved_end :: nat

definition s_reserve_irom_region :: "linker_symbols \<Rightarrow> mem_region_t list \<Rightarrow> mem_region_t list option" where
  "s_reserve_irom_region lk rs = reserve_between (instruction_reserved_start lk) (instruction_reserved_end lk) rs"

definition s_reserve_drom_region :: "linker_symbols \<Rightarrow> mem_region_t list \<Rightarrow> mem_region_t list option" where
  "s_reserve_drom_region lk rs = reserve_between (rodata_reserved_start lk) (rodata_reserved_end lk) rs"

definition hw_region :: "mmu_mem_region_t \<Rightarrow> mem_region_t" where
  "hw_region g =
     \<lparr>bus_id = g_bus_id g, region_start = g_start g, region_end = g_end g, region_size = g_size g,
      free_head = g_start g, max_slot_size = g_size g, region_caps = g_caps g, targets = g_targets g,
      mem_block_head = []\<rparr>"

fun coalesce :: "mem_region_t list \<Rightarrow> mem_region_t list" where
  "coalesce (a # b # rs) =
     (if free_head b = region_end a \<and> region_caps b = region_caps a \<and> targets b = targets a
      then a\<lparr>region_caps := MEM_REGION_MERGED\<rparr> #
           coalesce (b\<lparr>bus_id := bus_id b OR bus_id a, region_start := region_start a,
                       region_size := sz_add (region_size b) (region_size a), free_head := free_head a,
                       max_slot_size := sz_add (max_slot_size b) (max_slot_size a)\<rparr> # rs)
      else a # coalesce (b # rs))"
| "coalesce rs = rs"

definition esp_mmu_map_init :: "linker_symbols \<Rightarrow> mmu_mem_region_t list \<Rightarrow> mem_region_t list option" where
  "esp_mmu_map_init lk g =
     do { let hw = map hw_region g;
          configASSERT (\<forall>r\<in>set hw. region_size r mod CONFIG_MMU_PAGE_SIZE = 0);
          hw1 \<leftarrow> s_reserve_irom_region lk hw;
          hw2 \<leftarrow> s_reserve_drom_region lk hw1;
          let hw3 = coalesce hw2;
          Some (map (\<lambda>r. r\<lparr>mem_block_head := []\<rparr>) (filter (\<lambda>r. region_caps r \<noteq> MEM_REGION_MERGED) hw3)) }"

subsection \<open>Capabilities and the choice of a region\<close>

definition s_mem_caps_check :: "flags \<Rightarrow> esp_err_t" where
  "s_mem_caps_check caps =
     (if flag_set caps MMU_MEM_CAP_EXEC \<and> (flag_set caps MMU_MEM_CAP_8BIT \<or> flag_set caps MMU_MEM_CAP_WRITE)
      then ESP_ERR_INVALID_ARG else ESP_OK)"

definition region_supports :: "flags \<Rightarrow> flags \<Rightarrow> mem_region_t \<Rightarrow> bool" where
  "region_supports caps target r \<longleftrightarrow> region_caps r AND caps = caps \<and> targets r AND target = target"

definition esp_mmu_map_get_max_consecutive_free_block_size ::
  "flags \<Rightarrow> flags \<Rightarrow> mmu_st \<Rightarrow> esp_err_t \<times> nat" where
  "esp_mmu_map_get_max_consecutive_free_block_size caps target s =
     (if s_mem_caps_check caps \<noteq> ESP_OK then (s_mem_caps_check caps, 0)
      else (ESP_OK, fold (\<lambda>r m. if region_supports caps target r \<and> max_slot_size r > m then max_slot_size r else m)
                      (mem_regions s) 0))"

fun s_find_available_region :: "mem_region_t list \<Rightarrow> nat \<Rightarrow> flags \<Rightarrow> flags \<Rightarrow> nat option" where
  "s_find_available_region [] sz caps target = None"
| "s_find_available_region (r # rs) sz caps target =
     (if region_supports caps target r \<and> max_slot_size r \<ge> sz then Some 0
      else map_option Suc (s_find_available_region rs sz caps target))"

definition vaddr_type_of :: "flags \<Rightarrow> flags" where
  "vaddr_type_of caps = (if flag_set caps MMU_MEM_CAP_EXEC then MMU_VADDR_INSTRUCTION else MMU_VADDR_DATA)"

definition esp_mmu_map_reserve_block_with_caps ::
  "nat \<Rightarrow> flags \<Rightarrow> flags \<Rightarrow> mmu_st \<Rightarrow> esp_err_t \<times> nat option \<times> mmu_st" where
  "esp_mmu_map_reserve_block_with_caps sz caps target s =
     (if s_mem_caps_check caps \<noteq> ESP_OK then (s_mem_caps_check caps, None, s)
      else let aligned_size = ALIGN_UP_BY sz CONFIG_MMU_PAGE_SIZE in
        case s_find_available_region (mem_regions s) aligned_size caps target of
          None \<Rightarrow> (ESP_ERR_NOT_FOUND, None, s)
        | Some i \<Rightarrow>
            let r = mem_regions s ! i; laddr = free_head r in
            (ESP_OK, Some (mmu_ll_laddr_to_vaddr laddr (vaddr_type_of caps) target),
             s\<lparr>mem_regions := (mem_regions s)
                 [i := r\<lparr>free_head := sz_add (free_head r) aligned_size,
                        max_slot_size := sz_sub (max_slot_size r) aligned_size\<rparr>]\<rparr>))"

subsection \<open>Mapping\<close>

definition s_is_enclosed :: "nat \<Rightarrow> nat \<Rightarrow> nat \<Rightarrow> nat \<Rightarrow> bool" where
  "s_is_enclosed block_start block_end new_block_start new_block_size =
     (let new_block_end = sz_add new_block_start new_block_size
      in new_block_start \<ge> block_start \<and> new_block_end \<le> block_end)"

definition s_is_overlapped :: "nat \<Rightarrow> nat \<Rightarrow> nat \<Rightarrow> nat \<Rightarrow> bool" where
  "s_is_overlapped block_start block_end new_block_start new_block_size =
     (let new_block_end = sz_add new_block_start new_block_size
      in new_block_start < block_start \<and> new_block_end > block_start \<or>
         new_block_start < block_end \<and> new_block_end > block_end)"

datatype paddr_state = Separate | Enclosed mem_block_t | Overlapped

fun paddr_check :: "flags \<Rightarrow> nat \<Rightarrow> nat \<Rightarrow> bool \<Rightarrow> mem_block_t list \<Rightarrow> paddr_state option" where
  "paddr_check target p sz allow_overlap [] = Some Separate"
| "paddr_check target p sz allow_overlap (b # bs) =
     do { configASSERT (\<not> freed b);
          if target = block_target b \<and> s_is_enclosed (paddr_start b) (paddr_end b) p sz then Some (Enclosed b)
          else if target = block_target b \<and> \<not> allow_overlap \<and> s_is_overlapped (paddr_start b) (paddr_end b) p sz
          then Some Overlapped
          else paddr_check target p sz allow_overlap bs }"

text \<open>The search for a slot before the block number \<open>i\<close> on. The result is the number of the block to
  insert before with the linear address of the slot, and the size of the largest slot afterwards.\<close>

fun slot_loop :: "nat \<Rightarrow> nat \<Rightarrow> nat \<Rightarrow> (nat \<times> nat) option \<Rightarrow> nat \<Rightarrow> mem_block_t list \<Rightarrow> ((nat \<times> nat) option \<times> nat) option"
where
  "slot_loop sz i last_end found max_slot_len [] = Some (found, max_slot_len)"
| "slot_loop sz i last_end found max_slot_len (b # bs) =
     do { configASSERT (\<not> freed b);
          let slot_len = sz_sub (laddr_start b) last_end;
          let here = (found = None \<and> slot_len \<ge> sz);
          let slot_len1 = (if here then sz_sub slot_len sz else slot_len);
          slot_loop sz (i + 1) (laddr_end b) (if here then Some (i, last_end) else found)
            (if slot_len1 > max_slot_len then slot_len1 else max_slot_len) bs }"

definition zero_block :: mem_block_t where
  "zero_block = \<lparr>laddr_start = 0, laddr_end = 0, vaddr_start = 0, vaddr_end = 0, block_size = 0, block_caps = 0,
     paddr_start = 0, paddr_end = 0, block_target = 0, freed = False\<rparr>"

definition dummy_block :: "nat \<Rightarrow> flags \<Rightarrow> mem_block_t" where
  "dummy_block l caps = zero_block\<lparr>laddr_start := l, laddr_end := l, block_size := 0, block_caps := caps\<rparr>"

definition free_block :: "mem_block_t \<Rightarrow> mem_block_t" where "free_block b = b\<lparr>freed := True\<rparr>"

record alloc_results =
  head_ok :: bool
  tail_ok :: bool
  block_ok :: bool

text \<open>The list with its dummy blocks. \<open>None\<close> in the first component: both are there (and whether this call
  made them); \<open>Some err\<close>: an allocation failed, after the clean-up behind the label \<open>err\<close>.\<close>

definition with_dummies :: "alloc_results \<Rightarrow> flags \<Rightarrow> mem_region_t \<Rightarrow> esp_err_t option \<times> bool \<times> mem_region_t" where
  "with_dummies al caps r =
     (if mem_block_head r \<noteq> [] then (None, False, r)
      else if \<not> head_ok al then (Some ESP_ERR_NO_MEM, False, r)
      else let dummy_head = dummy_block (free_head r) caps in
        if \<not> tail_ok al then (Some ESP_ERR_NO_MEM, False, r\<lparr>mem_block_head := [free_block dummy_head]\<rparr>)
        else (None, True, r\<lparr>mem_block_head := [dummy_head, dummy_block (region_end r) caps]\<rparr>))"

definition new_mem_block :: "nat \<Rightarrow> nat \<Rightarrow> flags \<Rightarrow> nat \<Rightarrow> flags \<Rightarrow> mem_block_t" where
  "new_mem_block laddr sz caps p target =
     zero_block\<lparr>laddr_start := laddr, laddr_end := sz_add laddr sz, block_size := sz, block_caps := caps,
       paddr_start := p, paddr_end := sz_add p sz, block_target := target,
       vaddr_start := mmu_ll_laddr_to_vaddr laddr (vaddr_type_of caps) target,
       vaddr_end := mmu_ll_laddr_to_vaddr (sz_add laddr sz) (vaddr_type_of caps) target\<rparr>"

definition s_do_mapping :: "flags \<Rightarrow> nat \<Rightarrow> nat \<Rightarrow> nat \<Rightarrow> mmu_st \<Rightarrow> mmu_st option" where
  "s_do_mapping target vstart p sz s =
     do { (actual_mapped_len, t) \<leftarrow> mmu_hal_map_region target vstart p sz (mmu_tab s);
          bus_mask \<leftarrow> cache_ll_l1_get_bus vstart sz;
          Some (s\<lparr>mmu_tab := t, enabled_buses := enabled_buses s OR bus_mask,
                  invalidated := (vstart, sz) # invalidated s\<rparr>) }"

definition insert_at :: "nat \<Rightarrow> 'a \<Rightarrow> 'a list \<Rightarrow> 'a list" where
  "insert_at i x xs = take i xs @ x # drop i xs"

definition map_in_region ::
  "nat \<Rightarrow> mem_region_t \<Rightarrow> nat \<Rightarrow> nat \<Rightarrow> flags \<Rightarrow> flags \<Rightarrow> mmu_st \<Rightarrow> (esp_err_t \<times> nat option \<times> mmu_st) option" where
  "map_in_region i r p aligned_size target caps s =
     do { (found, max_slot_len) \<leftarrow>
            slot_loop aligned_size 0 (laddr_end (hd (mem_block_head r))) None 0 (mem_block_head r);
          configASSERT (found \<noteq> None);
          let (k, laddr) = the found;
          let new_block = new_mem_block laddr aligned_size caps p target;
          let r1 = r\<lparr>mem_block_head := insert_at k new_block (mem_block_head r), max_slot_size := max_slot_len\<rparr>;
          s1 \<leftarrow> s_do_mapping target (vaddr_start new_block) p aligned_size
                  (s\<lparr>mem_regions := (mem_regions s)[i := r1]\<rparr>);
          Some (ESP_OK, Some (vaddr_start new_block), s1) }"

definition esp_mmu_map ::
  "alloc_results \<Rightarrow> nat \<Rightarrow> nat \<Rightarrow> flags \<Rightarrow> flags \<Rightarrow> flags \<Rightarrow> mmu_st \<Rightarrow> (esp_err_t \<times> nat option \<times> mmu_st) option" where
  "esp_mmu_map al p sz target caps flgs s =
     (if flag_set target MMU_TARGET_PSRAM0 then Some (ESP_ERR_NOT_SUPPORTED, None, s)
      else if p mod CONFIG_MMU_PAGE_SIZE \<noteq> 0 then Some (ESP_ERR_INVALID_ARG, None, s)
      else if s_mem_caps_check caps \<noteq> ESP_OK then Some (s_mem_caps_check caps, None, s)
      else
        let aligned_size = ALIGN_UP_BY sz CONFIG_MMU_PAGE_SIZE in
        case s_find_available_region (mem_regions s) aligned_size caps target of
          None \<Rightarrow> Some (ESP_ERR_NOT_FOUND, None, s)
        | Some i \<Rightarrow>
            let (err, made, r) = with_dummies al caps (mem_regions s ! i);
                s1 = s\<lparr>mem_regions := (mem_regions s)[i := r]\<rparr> in
            case err of
              Some e \<Rightarrow> Some (e, None, s1)
            | None \<Rightarrow> do {
                chk \<leftarrow> paddr_check target p aligned_size (flag_set flgs ESP_MMU_MMAP_FLAG_PADDR_SHARED) (mem_block_head r);
                case chk of
                  Enclosed b \<Rightarrow> Some (ESP_ERR_INVALID_STATE, Some (vaddr_start b), s1)
                | Overlapped \<Rightarrow> Some (ESP_ERR_INVALID_ARG, None, s1)
                | Separate \<Rightarrow>
                    if \<not> block_ok al
                    then Some (ESP_ERR_NO_MEM, None,
                           if made
                           then s\<lparr>mem_regions := (mem_regions s)
                                   [i := r\<lparr>mem_block_head := map free_block (mem_block_head r)\<rparr>]\<rparr>
                           else s1)
                    else map_in_region i r p aligned_size target caps s1 })"

subsection \<open>Unmapping\<close>

definition s_do_unmapping :: "nat \<Rightarrow> nat \<Rightarrow> mmu_st \<Rightarrow> mmu_st option" where
  "s_do_unmapping vstart sz s =
     do { t \<leftarrow> mmu_hal_unmap_region vstart sz (mmu_tab s); Some (s\<lparr>mmu_tab := t\<rparr>) }"

text \<open>The last region that contains the address.\<close>

definition region_of_laddr :: "nat \<Rightarrow> mem_region_t list \<Rightarrow> nat option" where
  "region_of_laddr l rs =
     fold (\<lambda>i found. if l \<ge> free_head (rs ! i) \<and> l < region_end (rs ! i) then Some i else found) [0..<length rs] None"

text \<open>The number of the block with a property; the first and the last block are passed over. The test
  for the last block reads that block.\<close>

fun find_inner :: "(mem_block_t \<Rightarrow> bool) \<Rightarrow> nat \<Rightarrow> mem_block_t list \<Rightarrow> nat option option" where
  "find_inner P i [] = Some None"
| "find_inner P i [b] = do { configASSERT (\<not> freed b); Some None }"
| "find_inner P i (b # c # bs) =
     do { configASSERT (\<not> freed b);
          if i \<noteq> 0 \<and> P b then Some (Some i) else find_inner P (i + 1) (c # bs) }"

definition find_block :: "(mem_block_t \<Rightarrow> bool) \<Rightarrow> mem_block_t list \<Rightarrow> nat option option" where
  "find_block P bs =
     do { configASSERT (bs \<noteq> [] \<longrightarrow> \<not> freed (last bs)); find_inner P 0 bs }"

definition remove_at :: "nat \<Rightarrow> 'a list \<Rightarrow> 'a list" where
  "remove_at i xs = take i xs @ drop (i + 1) xs"

definition esp_mmu_unmap :: "nat \<Rightarrow> mmu_st \<Rightarrow> (esp_err_t \<times> mmu_st) option" where
  "esp_mmu_unmap ptr s =
     (if ptr = 0 then Some (ESP_ERR_INVALID_ARG, s)
      else
        let ptr_laddr = mmu_ll_vaddr_to_laddr ptr in
        case region_of_laddr ptr_laddr (mem_regions s) of
          None \<Rightarrow> Some (ESP_ERR_NOT_FOUND, s)
        | Some i \<Rightarrow>
            let r = mem_regions s ! i; bs = mem_block_head r in
            do { found \<leftarrow> find_block (\<lambda>b. laddr_start b = ptr_laddr) bs;
                 case found of
                   None \<Rightarrow> Some (ESP_ERR_NOT_FOUND, s)
                 | Some k \<Rightarrow> do {
                     configASSERT (\<not> freed (bs ! (k + 1)));
                     let slot_len = sz_sub (laddr_start (bs ! (k + 1))) (laddr_end (bs ! (k - 1)));
                     let r1 = r\<lparr>max_slot_size := if slot_len > max_slot_size r then slot_len else max_slot_size r\<rparr>;
                     s1 \<leftarrow> s_do_unmapping (vaddr_start (bs ! k)) (block_size (bs ! k)) s;
                     Some (ESP_OK, s1\<lparr>mem_regions := (mem_regions s)[i := r1\<lparr>mem_block_head := remove_at k bs\<rparr>]\<rparr>) } })"

subsection \<open>Queries\<close>

fun find_caps_loop :: "nat \<Rightarrow> mem_region_t list \<Rightarrow> flags option \<Rightarrow> flags option option" where
  "find_caps_loop p [] found = Some found"
| "find_caps_loop p (r # rs) found =
     do { k \<leftarrow> find_block (\<lambda>b. paddr_start b = p) (mem_block_head r);
          find_caps_loop p rs (case k of None \<Rightarrow> found | Some k \<Rightarrow> Some (block_caps (mem_block_head r ! k))) }"

definition esp_mmu_paddr_find_caps :: "nat \<Rightarrow> mmu_st \<Rightarrow> (esp_err_t \<times> flags option) option" where
  "esp_mmu_paddr_find_caps p s =
     do { found \<leftarrow> find_caps_loop p (mem_regions s) None;
          Some (case found of None \<Rightarrow> (ESP_ERR_NOT_FOUND, None) | Some c \<Rightarrow> (ESP_OK, Some c)) }"

definition esp_mmu_vaddr_to_paddr :: "nat \<Rightarrow> mmu_st \<Rightarrow> (esp_err_t \<times> (nat \<times> flags) option) option" where
  "esp_mmu_vaddr_to_paddr v s =
     (if v = 0 then Some (ESP_ERR_INVALID_ARG, None)
      else if \<not> mmu_hal_check_valid_ext_vaddr_region v 1 (MMU_VADDR_DATA OR MMU_VADDR_INSTRUCTION)
      then Some (ESP_ERR_INVALID_ARG, None)
      else do { r \<leftarrow> mmu_hal_vaddr_to_paddr v (mmu_tab s);
                Some (case r of None \<Rightarrow> (ESP_ERR_NOT_FOUND, None) | Some x \<Rightarrow> (ESP_OK, Some x)) })"

definition esp_mmu_paddr_to_vaddr :: "nat \<Rightarrow> flags \<Rightarrow> flags \<Rightarrow> mmu_st \<Rightarrow> (esp_err_t \<times> nat option) option" where
  "esp_mmu_paddr_to_vaddr p target type s =
     do { r \<leftarrow> mmu_hal_paddr_to_vaddr p target type (mmu_tab s);
          Some (case r of None \<Rightarrow> (ESP_ERR_NOT_FOUND, None) | Some v \<Rightarrow> (ESP_OK, Some v)) }"

end
