(* ===== verification/Flash_Mmap.thy ===== *)
theory Flash_Mmap
  imports Mmu_Map
begin

section \<open>Mapping flash memory\<close>

text \<open>
  Model of \<open>spi_flash/flash_mmap.c\<close>, which maps flash memory with the memory mapping driver. A handle is
  a pointer to a \<open>mmap_block_t\<close>; the functions here return and take the structure itself. The results of the
  two allocations of a call and of the allocations of the driver in its \<open>i\<close>-th call are arguments. Page
  numbers are not negative. The options for code and constants in PSRAM are off: the chip has none.
\<close>

datatype spi_flash_mmap_memory_t = SPI_FLASH_MMAP_DATA | SPI_FLASH_MMAP_INST

record mmap_block_t =
  vaddr_list :: "nat list"
  list_num :: nat

record mmap_alloc =
  mblock_ok :: bool
  mlist_ok :: bool
  driver_alloc :: "nat \<Rightarrow> alloc_results"

type_synonym mmap_result = "(esp_err_t \<times> nat option \<times> mmap_block_t option \<times> mmu_st) option"

definition caps_of_memory :: "spi_flash_mmap_memory_t \<Rightarrow> flags" where
  "caps_of_memory memory =
     (if memory = SPI_FLASH_MMAP_INST then MMU_MEM_CAP_EXEC OR MMU_MEM_CAP_32BIT
      else MMU_MEM_CAP_READ OR MMU_MEM_CAP_8BIT)"

definition spi_flash_mmap :: "mmap_alloc \<Rightarrow> nat \<Rightarrow> nat \<Rightarrow> spi_flash_mmap_memory_t \<Rightarrow> mmu_st \<Rightarrow> mmap_result" where
  "spi_flash_mmap al src_addr sz memory s =
     (if \<not> mblock_ok al \<or> \<not> mlist_ok al then Some (ESP_ERR_NO_MEM, None, None, s)
      else do {
        (ret, ptr, s1) \<leftarrow> esp_mmu_map (driver_alloc al 0) src_addr sz MMU_TARGET_FLASH0 (caps_of_memory memory)
                            ESP_MMU_MMAP_FLAG_PADDR_SHARED s;
        if ret = ESP_OK then Some (ESP_OK, ptr, Some \<lparr>vaddr_list = [the ptr], list_num = 1\<rparr>, s1)
        else if ret = ESP_ERR_INVALID_STATE then Some (ESP_OK, ptr, Some \<lparr>vaddr_list = [0], list_num = 0\<rparr>, s1)
        else Some (ret, None, None, s1) })"

fun count_blocks :: "nat \<Rightarrow> nat \<Rightarrow> nat list \<Rightarrow> nat" where
  "count_blocks nums last_end [] = nums"
| "count_blocks nums last_end (q # qs) = count_blocks (if q \<noteq> last_end then nums + 1 else nums) (q + 1) qs"

definition s_find_non_contiguous_block_nums :: "nat list \<Rightarrow> nat option" where
  "s_find_non_contiguous_block_nums pages =
     (case pages of [] \<Rightarrow> None | q # qs \<Rightarrow> Some (count_blocks 1 (q + 1) qs))"

text \<open>The array \<open>out_blocks\<close> up to the element \<open>new_array_id\<close>, as pairs of a first page and a number of pages.\<close>

fun merge_loop :: "nat \<Rightarrow> nat \<Rightarrow> (nat \<times> nat) list \<Rightarrow> nat list \<Rightarrow> (nat \<times> nat) list option" where
  "merge_loop block_nums last_end out [] = Some out"
| "merge_loop block_nums last_end out (q # qs) =
     (if q \<noteq> last_end
      then do { configASSERT (length out < block_nums); merge_loop block_nums (q + 1) (out @ [(q, 1)]) qs }
      else merge_loop block_nums (q + 1) (butlast out @ [(fst (last out), snd (last out) + 1)]) qs)"

definition s_merge_contiguous_pages :: "nat list \<Rightarrow> nat \<Rightarrow> (nat \<times> nat) list option" where
  "s_merge_contiguous_pages pages block_nums =
     (case pages of [] \<Rightarrow> None | q # qs \<Rightarrow> merge_loop block_nums (q + 1) [(q, 1)] qs)"

definition s_pages_to_bytes :: "(nat \<times> nat) list \<Rightarrow> (nat \<times> nat) list" where
  "s_pages_to_bytes blocks = map (\<lambda>(a, c). (sz_mul a CONFIG_MMU_PAGE_SIZE, sz_mul c CONFIG_MMU_PAGE_SIZE)) blocks"

text \<open>The loop over the blocks: the result of the last call of the driver and the addresses of the
  successful ones.\<close>

fun map_blocks :: "(nat \<Rightarrow> alloc_results) \<Rightarrow> nat \<Rightarrow> flags \<Rightarrow> (nat \<times> nat) list \<Rightarrow> mmu_st \<Rightarrow> (esp_err_t \<times> nat list \<times> mmu_st) option"
where
  "map_blocks al i caps [] s = Some (ESP_OK, [], s)"
| "map_blocks al i caps ((p, n) # bs) s =
     do { (ret, ptr, s1) \<leftarrow> esp_mmu_map (al i) p n MMU_TARGET_FLASH0 caps ESP_MMU_MMAP_FLAG_PADDR_SHARED s;
          if ret = ESP_OK
          then do { (e, vs, s2) \<leftarrow> map_blocks al (i + 1) caps bs s1; Some (e, the ptr # vs, s2) }
          else Some (ret, [], s1) }"

fun unmap_blocks :: "nat list \<Rightarrow> mmu_st \<Rightarrow> mmu_st option" where
  "unmap_blocks [] s = Some s"
| "unmap_blocks (v # vs) s = do { (ret, s1) \<leftarrow> esp_mmu_unmap v s; unmap_blocks vs s1 }"

definition spi_flash_mmap_pages :: "mmap_alloc \<Rightarrow> nat list \<Rightarrow> spi_flash_mmap_memory_t \<Rightarrow> mmu_st \<Rightarrow> mmap_result" where
  "spi_flash_mmap_pages al pages memory s =
     do { block_num \<leftarrow> s_find_non_contiguous_block_nums pages;
          blocks \<leftarrow> s_merge_contiguous_pages pages block_num;
          let paddr_blocks = s_pages_to_bytes blocks;
          if \<not> mblock_ok al \<or> \<not> mlist_ok al then Some (ESP_ERR_NO_MEM, None, None, s)
          else do {
            (ret, vs, s1) \<leftarrow> map_blocks (driver_alloc al) 0 (caps_of_memory memory) paddr_blocks s;
            if ret = ESP_OK then Some (ESP_OK, Some (hd vs), Some \<lparr>vaddr_list = vs, list_num = length vs\<rparr>, s1)
            else do { s2 \<leftarrow> unmap_blocks vs s1; Some (ret, None, None, s2) } } }"

fun munmap_loop :: "nat list \<Rightarrow> mmu_st \<Rightarrow> mmu_st option" where
  "munmap_loop [] s = Some s"
| "munmap_loop (v # vs) s =
     do { (ret, s1) \<leftarrow> esp_mmu_unmap v s; configASSERT (ret \<noteq> ESP_ERR_NOT_FOUND); munmap_loop vs s1 }"

definition spi_flash_munmap :: "mmap_block_t \<Rightarrow> mmu_st \<Rightarrow> mmu_st option" where
  "spi_flash_munmap block s = munmap_loop (take (list_num block) (vaddr_list block)) s"

definition spi_flash_mmap_get_free_pages :: "spi_flash_mmap_memory_t \<Rightarrow> mmu_st \<Rightarrow> nat" where
  "spi_flash_mmap_get_free_pages memory s =
     snd (esp_mmu_map_get_max_consecutive_free_block_size (caps_of_memory memory) MMU_TARGET_FLASH0 s)
       div CONFIG_MMU_PAGE_SIZE"

definition SPI_FLASH_CACHE2PHYS_FAIL :: nat where "SPI_FLASH_CACHE2PHYS_FAIL = SIZE_LIM - 1"

definition spi_flash_cache2phys :: "nat \<Rightarrow> mmu_st \<Rightarrow> nat option" where
  "spi_flash_cache2phys cached s =
     (if cached = 0 then Some SPI_FLASH_CACHE2PHYS_FAIL
      else do { (ret, out) \<leftarrow> esp_mmu_vaddr_to_paddr cached s;
                Some (if ret \<noteq> ESP_OK then SPI_FLASH_CACHE2PHYS_FAIL else fst (the out)) })"

definition spi_flash_phys2cache :: "nat \<Rightarrow> spi_flash_mmap_memory_t \<Rightarrow> mmu_st \<Rightarrow> nat option option" where
  "spi_flash_phys2cache phys_offs memory s =
     (let type = (if memory = SPI_FLASH_MMAP_DATA then MMU_VADDR_DATA else MMU_VADDR_INSTRUCTION) in
      do { (ret, v) \<leftarrow> esp_mmu_paddr_to_vaddr phys_offs MMU_TARGET_FLASH0 type s;
           if ret = ESP_ERR_NOT_FOUND then Some None
           else do { configASSERT (ret = ESP_OK); Some v } })"

text \<open>Whether the page is mapped, and its address; \<open>0\<close> is the null pointer.\<close>

definition is_page_mapped_in_cache :: "nat \<Rightarrow> mmu_st \<Rightarrow> (bool \<times> nat) option" where
  "is_page_mapped_in_cache phys_addr s =
     do { (err, caps) \<leftarrow> esp_mmu_paddr_find_caps phys_addr s;
          if err = ESP_OK
          then do { v \<leftarrow> mmu_hal_paddr_to_vaddr phys_addr MMU_TARGET_FLASH0
                          (if flag_set (the caps) MMU_MEM_CAP_EXEC then MMU_VADDR_INSTRUCTION else MMU_VADDR_DATA) (mmu_tab s);
                    Some (True, case v of None \<Rightarrow> 0 | Some v \<Rightarrow> v) }
          else Some (False, 0) }"

fun flush_loop :: "nat \<Rightarrow> bool \<Rightarrow> nat list \<Rightarrow> mmu_st \<Rightarrow> (bool \<times> mmu_st) option" where
  "flush_loop chip_size ret [] s = Some (ret, s)"
| "flush_loop chip_size ret (a # as) s =
     (if a \<ge> chip_size then Some (False, s)
      else do { (mapped, v) \<leftarrow> is_page_mapped_in_cache a s;
                if mapped \<and> v \<noteq> 0
                then flush_loop chip_size True as (s\<lparr>invalidated := (v, CONFIG_MMU_PAGE_SIZE) # invalidated s\<rparr>)
                else flush_loop chip_size ret as s })"

text \<open>The addresses of the loop are the multiples of the page size from the start up to the end, both of
  which are multiples themselves.\<close>

definition spi_flash_check_and_flush_cache :: "nat \<Rightarrow> nat \<Rightarrow> nat \<Rightarrow> mmu_st \<Rightarrow> (bool \<times> mmu_st) option" where
  "spi_flash_check_and_flush_cache chip_size start_addr len s =
     (let page_start_addr = ALIGN_DOWN_BY start_addr CONFIG_MMU_PAGE_SIZE;
          len1 = sz_add len (sz_sub start_addr page_start_addr);
          len2 = ALIGN_UP_BY len1 CONFIG_MMU_PAGE_SIZE;
          end_addr = sz_add page_start_addr len2
      in flush_loop chip_size False
           (map (\<lambda>i. page_start_addr + i * CONFIG_MMU_PAGE_SIZE)
              [0..<(end_addr - page_start_addr) div CONFIG_MMU_PAGE_SIZE]) s)"

end
