(* ===== verification/Mmu_Inv.thy ===== *)
theory Mmu_Inv
  imports Mmu_Map
begin

section \<open>Lists of mapped blocks\<close>

text \<open>
  The invariant of the memory mapping driver. The blocks of a region follow each other by linear
  address, between a dummy head at the first free address and a dummy tail at the end; the recorded
  largest slot is the largest gap; and the MMU table translates exactly the addresses of the blocks.
\<close>

named_theorems mmu_defs \<open>definitions of the invariant\<close>

subsection \<open>Rounding\<close>

lemma and_not_page: "x < SIZE_LIM \<Longrightarrow> x AND sz_not (PAGE - 1) = x div PAGE * PAGE"
proof -
  assume x: "x < SIZE_LIM"
  have m: "sz_not 65535 = push_bit 16 (mask 16)"
    by (simp add: sz_not_def push_bit_eq_mult mask_eq_exp_minus_1)
  have "x AND push_bit 16 (mask 16) = push_bit 16 (take_bit 16 (drop_bit 16 x))"
    by (rule bit_eqI) (auto simp: bit_and_iff bit_push_bit_iff bit_mask_iff bit_take_bit_iff bit_drop_bit_eq)
  also have "\<dots> = x div PAGE mod PAGE * PAGE" by (simp add: push_bit_eq_mult take_bit_eq_mod drop_bit_eq_div)
  also have "x div PAGE mod PAGE = x div PAGE" using x by simp
  finally show ?thesis by (simp add: m)
qed

lemma align_up_eq: "ALIGN_UP_BY n CONFIG_MMU_PAGE_SIZE = sz_add n (PAGE - 1) div PAGE * PAGE"
  using and_not_page [OF sz_add_less [of n "PAGE - 1"]] by (simp add: ALIGN_UP_BY_def CONFIG_MMU_PAGE_SIZE_def)

lemma align_up_page [simp]: "ALIGN_UP_BY n CONFIG_MMU_PAGE_SIZE mod PAGE = 0"
  by (simp add: align_up_eq)

lemma align_up_bounds:
  assumes "n \<le> SIZE_LIM - PAGE"
  shows "n \<le> ALIGN_UP_BY n CONFIG_MMU_PAGE_SIZE" "ALIGN_UP_BY n CONFIG_MMU_PAGE_SIZE < n + PAGE"
proof -
  have e: "ALIGN_UP_BY n CONFIG_MMU_PAGE_SIZE = (n + 65535) div PAGE * PAGE"
    using assms by (simp add: align_up_eq sz_simps)
  have "(n + 65535) div PAGE * PAGE + (n + 65535) mod PAGE = n + 65535" by simp
  then show "n \<le> ALIGN_UP_BY n CONFIG_MMU_PAGE_SIZE" "ALIGN_UP_BY n CONFIG_MMU_PAGE_SIZE < n + PAGE"
    unfolding e using mod_less_divisor [of PAGE "n + 65535"] by linarith+
qed

lemma align_up_less: "ALIGN_UP_BY n CONFIG_MMU_PAGE_SIZE < SIZE_LIM"
proof -
  have "sz_add n (PAGE - 1) div PAGE * PAGE \<le> sz_add n (PAGE - 1)" by (rule div_times_less_eq_dividend)
  then show ?thesis using sz_add_less [of n "PAGE - 1"] unfolding align_up_eq by linarith
qed

subsection \<open>Chains of blocks and the gaps between them\<close>

fun block_chain :: "nat \<Rightarrow> mem_block_t list \<Rightarrow> bool" where
  "block_chain e [] = True"
| "block_chain e (b # bs) = (e \<le> laddr_start b \<and> laddr_start b \<le> laddr_end b \<and> block_chain (laddr_end b) bs)"

fun max_gap :: "nat \<Rightarrow> mem_block_t list \<Rightarrow> nat" where
  "max_gap e [] = 0"
| "max_gap e (b # bs) = max (laddr_start b - e) (max_gap (laddr_end b) bs)"

fun end_of :: "nat \<Rightarrow> mem_block_t list \<Rightarrow> nat" where
  "end_of e [] = e"
| "end_of e (b # bs) = end_of (laddr_end b) bs"

lemma block_chain_append [simp]: "block_chain e (xs @ ys) \<longleftrightarrow> block_chain e xs \<and> block_chain (end_of e xs) ys"
  by (induction xs arbitrary: e) auto

lemma max_gap_append [simp]: "max_gap e (xs @ ys) = max (max_gap e xs) (max_gap (end_of e xs) ys)"
  by (induction xs arbitrary: e) (auto simp: max.assoc)

lemma end_of_append [simp]: "end_of e (xs @ ys) = end_of (end_of e xs) ys"
  by (induction xs arbitrary: e) auto

lemma chain_le_end: "block_chain e xs \<Longrightarrow> e \<le> end_of e xs"
  by (induction xs arbitrary: e) fastforce+

lemma chain_above: "block_chain e xs \<Longrightarrow> b \<in> set xs \<Longrightarrow> e \<le> laddr_start b \<and> laddr_start b \<le> laddr_end b \<and> laddr_end b \<le> end_of e xs"
proof (induction xs arbitrary: e)
  case (Cons c xs)
  then show ?case using chain_le_end [of "laddr_end c" xs] by fastforce
qed simp

text \<open>A block of a chain does not share an address with the others.\<close>

lemma chain_disjoint:
  assumes "block_chain e (xs @ b # ys)"
  shows "c \<in> set xs \<Longrightarrow> laddr_end c \<le> laddr_start b" "c \<in> set ys \<Longrightarrow> laddr_end b \<le> laddr_start c"
  using assms chain_above [of e xs c] chain_above [of "laddr_end b" ys c] by auto

subsection \<open>The search for a slot\<close>

definition live :: "mem_block_t list \<Rightarrow> bool" where
  "live bs \<longleftrightarrow> (\<forall>b\<in>set bs. \<not> freed b \<and> laddr_start b < SIZE_LIM)"

lemma live_simps [simp]: "live []" "live (b # bs) \<longleftrightarrow> \<not> freed b \<and> laddr_start b < SIZE_LIM \<and> live bs"
  "live (xs @ ys) \<longleftrightarrow> live xs \<and> live ys"
  by (auto simp: live_def)

lemma slot_loop_found:
  assumes "block_chain e bs" "live bs"
  shows "slot_loop sz i e (Some f) m bs = Some (Some f, max m (max_gap e bs))"
  using assms
proof (induction bs arbitrary: i e m)
  case (Cons b bs)
  have "sz_sub (laddr_start b) e = laddr_start b - e" using Cons.prems by (simp add: sz_simps)
  with Cons show ?case by (auto simp: Let_def max_def)
qed simp

lemma slot_loop_search:
  assumes "block_chain e bs" "live bs" "sz \<le> max_gap e bs" "0 < sz"
  shows "\<exists>j l. slot_loop sz i e None m bs =
      Some (Some (i + j, l), max m (max_gap e (take j bs @ b\<lparr>laddr_start := l, laddr_end := l + sz\<rparr> # drop j bs)))
    \<and> j < length bs \<and> l = end_of e (take j bs) \<and> l + sz \<le> laddr_start (bs ! j)"
  using assms
proof (induction bs arbitrary: i e m)
  case (Cons c bs)
  have s: "sz_sub (laddr_start c) e = laddr_start c - e" using Cons.prems by (simp add: sz_simps)
  show ?case
  proof (cases "sz \<le> laddr_start c - e")
    case True
    then have "sz_sub (laddr_start c - e) sz = laddr_start c - e - sz"
      using Cons.prems sz_sub_exact [of sz "laddr_start c - e"] by (simp add: less_imp_diff_less)
    moreover have "e + sz \<le> laddr_start c" using True Cons.prems(4) by linarith
    ultimately have "slot_loop sz i e None m (c # bs) = Some (Some (i + 0, e), max m (max_gap e (b\<lparr>laddr_start := e, laddr_end := e + sz\<rparr> # c # bs)))"
      using Cons.prems True by (simp add: Let_def s slot_loop_found max_def diff_diff_left)
    with \<open>e + sz \<le> laddr_start c\<close> show ?thesis by (intro exI [of _ 0] exI [of _ e]) simp
  next
    case False
    then have "sz \<le> max_gap (laddr_end c) bs" using Cons.prems(3) by auto
    then obtain j l where jl: "slot_loop sz (i + 1) (laddr_end c) None (max m (laddr_start c - e)) bs =
        Some (Some (i + 1 + j, l), max (max m (laddr_start c - e))
          (max_gap (laddr_end c) (take j bs @ b\<lparr>laddr_start := l, laddr_end := l + sz\<rparr> # drop j bs)))"
      "j < length bs" "l = end_of (laddr_end c) (take j bs)" "l + sz \<le> laddr_start (bs ! j)"
      using Cons.IH [of "laddr_end c" "i + 1" "max m (laddr_start c - e)"] Cons.prems by auto
    have "slot_loop sz i e None m (c # bs) = slot_loop sz (i + 1) (laddr_end c) None (max m (laddr_start c - e)) bs"
      using False Cons.prems by (simp add: Let_def s max_def)
    with jl show ?thesis by (intro exI [of _ "Suc j"] exI [of _ l]) (simp add: max.assoc)
  qed
qed simp

subsection \<open>Looking an address up in a list of blocks\<close>

definition block_holds :: "nat \<Rightarrow> mem_block_t \<Rightarrow> bool" where
  "block_holds x b \<longleftrightarrow> laddr_start b \<le> x \<and> x < laddr_end b"

definition lookup :: "mem_block_t list \<Rightarrow> nat \<Rightarrow> nat option" where
  "lookup bs x = map_option (\<lambda>b. paddr_start b + (x - laddr_start b)) (find (block_holds x) bs)"

lemma lookup_insert:
  assumes "block_chain e (xs @ b # ys)"
  shows "lookup (xs @ b # ys) x = (if block_holds x b then Some (paddr_start b + (x - laddr_start b)) else lookup (xs @ ys) x)"
proof (cases "block_holds x b")
  case True
  then have "find (block_holds x) xs = None"
    using chain_disjoint(1) [OF assms] by (fastforce simp: find_None_iff block_holds_def)
  with True show ?thesis by (simp add: lookup_def find_append)
qed (simp add: lookup_def find_append split: option.splits)

lemma lookup_removed:
  assumes "block_chain e (xs @ b # ys)"
  shows "lookup (xs @ ys) x = (if block_holds x b then None else lookup (xs @ b # ys) x)"
proof (cases "block_holds x b")
  case True
  then have "find (block_holds x) (xs @ ys) = None"
    using chain_disjoint [OF assms] by (fastforce simp: find_None_iff block_holds_def)
  with True show ?thesis by (simp add: lookup_def)
qed (simp add: lookup_insert [OF assms])

subsection \<open>The invariant\<close>

definition dummy_at :: "nat \<Rightarrow> mem_block_t \<Rightarrow> bool" where
  "dummy_at l b \<longleftrightarrow> laddr_start b = l \<and> laddr_end b = l \<and> block_target b = 0 \<and> \<not> freed b"

definition mapped_block :: "mem_block_t \<Rightarrow> bool" where
  "mapped_block b \<longleftrightarrow> \<not> freed b \<and> 0 < block_size b \<and> block_size b mod PAGE = 0 \<and> laddr_start b mod PAGE = 0
     \<and> laddr_end b = laddr_start b + block_size b \<and> block_target b = MMU_TARGET_FLASH0
     \<and> paddr_start b mod PAGE = 0 \<and> paddr_end b = paddr_start b + block_size b \<and> paddr_end b \<le> PADDR_END
     \<and> vaddr_start b = vaddr_base (vaddr_type_of (block_caps b)) + laddr_start b"

text \<open>The blocks without the two dummies.\<close>

definition inner :: "mem_region_t \<Rightarrow> mem_block_t list" where
  "inner r = butlast (tl (mem_block_head r))"

definition blocks_ok :: "mem_region_t \<Rightarrow> bool" where
  "blocks_ok r \<longleftrightarrow>
     mem_block_head r = [] \<and> max_slot_size r = region_end r - free_head r \<or>
     (\<exists>h bs t. mem_block_head r = h # bs @ [t] \<and> dummy_at (free_head r) h \<and> dummy_at (region_end r) t
        \<and> (\<forall>b\<in>set bs. mapped_block b) \<and> block_chain (free_head r) (h # bs @ [t])
        \<and> max_slot_size r = max_gap (free_head r) (h # bs @ [t]))"

definition region_ok :: "mem_region_t \<Rightarrow> bool" where
  "region_ok r \<longleftrightarrow> free_head r \<le> region_end r \<and> region_end r \<le> LINEAR_END
     \<and> free_head r mod PAGE = 0 \<and> region_end r mod PAGE = 0 \<and> blocks_ok r"

definition managed :: "mem_region_t \<Rightarrow> nat set" where
  "managed r = {free_head r..<region_end r}"

definition mmu_inv :: "mmu_st \<Rightarrow> bool" where
  "mmu_inv s \<longleftrightarrow> (\<forall>r\<in>set (mem_regions s). region_ok r)
     \<and> (\<forall>i<length (mem_regions s). \<forall>j<length (mem_regions s). i \<noteq> j \<longrightarrow>
          managed (mem_regions s ! i) \<inter> managed (mem_regions s ! j) = {})
     \<and> length (mmu_tab s) = SOC_MMU_ENTRY_NUM
     \<and> (\<forall>r\<in>set (mem_regions s). \<forall>x\<in>managed r. translate (mmu_tab s) x = lookup (mem_block_head r) x)"

text \<open>The shape of a list that is in use.\<close>

definition in_use :: "mem_region_t \<Rightarrow> mem_block_t \<Rightarrow> mem_block_t list \<Rightarrow> mem_block_t \<Rightarrow> bool" where
  "in_use r h bs t \<longleftrightarrow> mem_block_head r = h # bs @ [t] \<and> dummy_at (free_head r) h \<and> dummy_at (region_end r) t
     \<and> (\<forall>b\<in>set bs. mapped_block b) \<and> block_chain (free_head r) (h # bs @ [t])
     \<and> max_slot_size r = max_gap (free_head r) (h # bs @ [t])"

lemma blocks_ok_cases:
  assumes "blocks_ok r"
  obtains "mem_block_head r = []" "max_slot_size r = region_end r - free_head r"
  | h bs t where "in_use r h bs t"
  using assms unfolding blocks_ok_def in_use_def by blast

lemma in_use_blocks_ok: "in_use r h bs t \<Longrightarrow> blocks_ok r"
  unfolding blocks_ok_def in_use_def by blast

lemma in_use_chain: "in_use r h bs t \<Longrightarrow> block_chain (free_head r) bs \<and> end_of (free_head r) bs \<le> region_end r"
  by (auto simp: in_use_def dummy_at_def)

lemma in_use_block:
  assumes "in_use r h bs t" "b \<in> set bs"
  shows "mapped_block b" "free_head r \<le> laddr_start b" "laddr_start b < laddr_end b" "laddr_end b \<le> region_end r"
  using assms in_use_chain [OF assms(1)] chain_above [of "free_head r" bs b]
  by (auto simp: in_use_def mapped_block_def)

lemma in_use_live:
  assumes "in_use r h bs t" "region_end r \<le> LINEAR_END" "free_head r \<le> region_end r"
  shows "live (mem_block_head r)"
  using assms in_use_block [OF assms(1)]
  by (fastforce simp: live_def in_use_def dummy_at_def mapped_block_def)

lemma lookup_dummies:
  assumes "dummy_at e h" "dummy_at f t"
  shows "lookup (h # bs @ [t]) x = lookup bs x"
  using assms by (auto simp: lookup_def find_append block_holds_def dummy_at_def split: option.splits)

lemma in_use_lookup: "in_use r h bs t \<Longrightarrow> lookup (mem_block_head r) x = lookup bs x"
  by (metis in_use_def lookup_dummies)

text \<open>Addresses inside a block.\<close>

lemma lookup_block:
  assumes "block_chain e bs" "b \<in> set bs" "block_holds x b"
  shows "lookup bs x = Some (paddr_start b + (x - laddr_start b))"
proof -
  obtain xs ys where bs: "bs = xs @ b # ys" using split_list [OF assms(2)] by blast
  show ?thesis unfolding bs lookup_insert [OF assms(1) [unfolded bs]] using assms(3) by simp
qed

lemma lookup_NoneI: "(\<And>b. b \<in> set bs \<Longrightarrow> \<not> block_holds x b) \<Longrightarrow> lookup bs x = None"
  by (auto simp: lookup_def find_None_iff)

lemma block_pages:
  assumes "mapped_block b"
  obtains n where "block_size b = n * PAGE" "0 < n"
proof -
  obtain n where "block_size b = n * PAGE" using assms page_multiple by (auto simp: mapped_block_def)
  with that [of n] show thesis using assms by (simp add: mapped_block_def)
qed

end
