(* ===== verification/Mmu_Steps.thy ===== *)
theory Mmu_Steps
  imports Mmu_Inv "HOL-Library.Multiset"
begin

section \<open>Operations of the memory mapping driver and its invariant\<close>

text \<open>Every call keeps \<open>mmu_inv\<close>, and what it does to the translation of addresses.\<close>

subsection \<open>Replacing a region\<close>

lemma mmu_inv_update:
  assumes inv: "mmu_inv s" and i: "i < length (mem_regions s)" and r: "region_ok r"
    and same: "free_head r = free_head (mem_regions s ! i)" "region_end r = region_end (mem_regions s ! i)"
    and len: "length (mmu_tab s') = SOC_MMU_ENTRY_NUM"
    and new: "\<And>x. x \<in> managed r \<Longrightarrow> translate (mmu_tab s') x = lookup (mem_block_head r) x"
    and old: "\<And>x. x < LINEAR_END \<Longrightarrow> x \<notin> managed r \<Longrightarrow> translate (mmu_tab s') x = translate (mmu_tab s) x"
    and regs: "mem_regions s' = (mem_regions s)[i := r]"
  shows "mmu_inv s'"
proof -
  let ?rs = "mem_regions s" and ?rs' = "(mem_regions s)[i := r]"
  have man: "managed (?rs' ! j) = managed (?rs ! j)" if "j < length ?rs" for j
    using that same by (cases "j = i") (simp_all add: managed_def)
  have "region_ok q" if "q \<in> set ?rs'" for q
    using that inv r set_update_subset_insert [of ?rs i r] by (auto simp: mmu_inv_def)
  moreover have "translate (mmu_tab s') x = lookup (mem_block_head q) x" if q: "q \<in> set ?rs'" and x: "x \<in> managed q" for q x
  proof -
    obtain j where j: "j < length ?rs" "q = ?rs' ! j" using q by (auto simp: in_set_conv_nth)
    show ?thesis
    proof (cases "j = i")
      case False
      have "managed (?rs ! i) \<inter> managed (?rs ! j) = {}" using inv i j False by (simp add: mmu_inv_def)
      then have "x \<notin> managed r" using man [OF i] man [OF j(1)] i j x by auto
      moreover have q: "q = ?rs ! j" "q \<in> set ?rs" using False j by simp_all
      then have "region_ok q" using inv by (simp add: mmu_inv_def)
      then have "x < LINEAR_END" using x by (simp add: region_ok_def managed_def)
      ultimately have "translate (mmu_tab s') x = translate (mmu_tab s) x" using old by blast
      then show ?thesis using inv q x by (simp add: mmu_inv_def)
    qed (use new i j x in simp)
  qed
  moreover have "managed (?rs' ! j) \<inter> managed (?rs' ! k) = {}" if "j < length ?rs" "k < length ?rs" "j \<noteq> k" for j k
    using that man inv by (simp add: mmu_inv_def)
  ultimately show ?thesis
    unfolding mmu_inv_def regs using len by (simp add: Ball_def)
qed

lemma mmu_inv_region:
  assumes "mmu_inv s" "i < length (mem_regions s)"
  shows "region_ok (mem_regions s ! i)"
  using assms by (simp add: mmu_inv_def)

lemma mmu_inv_translate:
  assumes "mmu_inv s" "i < length (mem_regions s)" "x \<in> managed (mem_regions s ! i)"
  shows "translate (mmu_tab s) x = lookup (mem_block_head (mem_regions s ! i)) x"
  using assms by (simp add: mmu_inv_def)

subsection \<open>Dummy blocks and the check of physical addresses\<close>

lemma with_dummies_ok:
  assumes "region_ok r" "with_dummies al caps r = (None, made, r')"
  shows "region_ok r'" "\<exists>h bs t. in_use r' h bs t" "free_head r' = free_head r" "region_end r' = region_end r"
    "max_slot_size r' = max_slot_size r" "lookup (mem_block_head r') = lookup (mem_block_head r)" "inner r' = inner r"
    "region_caps r' = region_caps r" "targets r' = targets r"
proof -
  have *: "(\<exists>h bs t. in_use r' h bs t) \<and> free_head r' = free_head r \<and> region_end r' = region_end r \<and>
      region_caps r' = region_caps r \<and> targets r' = targets r \<and>
      max_slot_size r' = max_slot_size r \<and> lookup (mem_block_head r') = lookup (mem_block_head r) \<and> inner r' = inner r"
  proof (cases "mem_block_head r = []")
    case True
    let ?h = "dummy_block (free_head r) caps" and ?t = "dummy_block (region_end r) caps"
    have r': "r' = r\<lparr>mem_block_head := [?h, ?t]\<rparr>"
      using assms(2) True by (auto simp: with_dummies_def Let_def split: if_splits)
    have d: "dummy_at (free_head r) ?h" "dummy_at (region_end r) ?t"
      by (simp_all add: dummy_at_def dummy_block_def zero_block_def)
    have "in_use r' ?h [] ?t"
      using assms(1) True d by (auto simp: in_use_def r' region_ok_def blocks_ok_def dummy_at_def)
    moreover have "lookup (mem_block_head r') x = lookup (mem_block_head r) x" for x
      using lookup_dummies [OF d, of "[]"] True by (simp add: r')
    ultimately show ?thesis using True by (auto simp: r' inner_def)
  next
    case False
    then have "r' = r" using assms(2) by (simp add: with_dummies_def)
    moreover have "blocks_ok r" using assms(1) by (simp add: region_ok_def)
    then have "\<exists>h bs t. in_use r h bs t" using False by (rule_tac blocks_ok_cases) auto
    ultimately show ?thesis by simp
  qed
  then show "\<exists>h bs t. in_use r' h bs t" "free_head r' = free_head r" "region_end r' = region_end r"
    "max_slot_size r' = max_slot_size r" "lookup (mem_block_head r') = lookup (mem_block_head r)" "inner r' = inner r"
    "region_caps r' = region_caps r" "targets r' = targets r"
    by blast+
  with assms(1) show "region_ok r'" by (auto simp: region_ok_def intro: in_use_blocks_ok)
qed

lemma with_dummies_failed:
  assumes "with_dummies al caps r = (Some e, made, r')" "head_ok al \<longrightarrow> tail_ok al \<and> block_ok al"
  shows "r' = r" "e = ESP_ERR_NO_MEM"
  using assms by (auto simp: with_dummies_def Let_def split: if_splits)

lemma with_dummies_made:
  assumes "with_dummies al caps r = (None, True, r')"
  shows "head_ok al"
  using assms by (auto simp: with_dummies_def Let_def split: if_splits)

lemma paddr_check_total: "live bs \<Longrightarrow> \<exists>c. paddr_check tg p sz allow bs = Some c"
  by (induction bs) auto

lemma paddr_check_Enclosed:
  "paddr_check tg p sz allow bs = Some (Enclosed b) \<Longrightarrow>
   b \<in> set bs \<and> block_target b = tg \<and> s_is_enclosed (paddr_start b) (paddr_end b) p sz"
  by (induction bs) (auto split: if_splits)

lemma paddr_check_Separate:
  "paddr_check tg p sz allow bs = Some Separate \<Longrightarrow> b \<in> set bs \<Longrightarrow> block_target b = tg \<Longrightarrow>
   \<not> s_is_enclosed (paddr_start b) (paddr_end b) p sz \<and>
   (allow \<or> \<not> s_is_overlapped (paddr_start b) (paddr_end b) p sz)"
  by (induction bs) (auto split: if_splits)

text \<open>Neither enclosed nor overlapped: no byte in common.\<close>

lemma separate_disjoint:
  assumes "\<not> s_is_enclosed a b p n" "\<not> s_is_overlapped a b p n" "a < b" "0 < n" "p + n < SIZE_LIM"
  shows "p + n \<le> a \<or> b \<le> p"
  using assms by (auto simp: s_is_enclosed_def s_is_overlapped_def Let_def sz_simps)

subsection \<open>The bus of an address range\<close>

lemma get_bus_eq:
  assumes "0 < n" "l + n \<le> LINEAR_END"
  shows "cache_ll_l1_get_bus (vaddr_base type + l) n =
    Some (if type = MMU_VADDR_DATA then CACHE_BUS_DBUS0 else CACHE_BUS_IBUS0)"
  using assms by (simp add: cache_ll_l1_get_bus_def vaddr_base_def mmu_consts sz_simps)

subsection \<open>Insertion of a block\<close>

lemma end_of_aligned:
  "e mod PAGE = 0 \<Longrightarrow> \<forall>b\<in>set bs. mapped_block b \<Longrightarrow> end_of e bs mod PAGE = 0"
proof (induction bs arbitrary: e)
  case (Cons b bs)
  have "laddr_end b mod PAGE = 0" using Cons.prems(2) by (auto simp: mapped_block_def mod_add_eq [symmetric])
  with Cons show ?case by simp
qed simp

lemma map_region_SomeD:
  assumes "mmu_hal_map_region tg v p (n * PAGE) t = Some x" "0 < n" "n * PAGE \<le> LINEAR_END"
  shows "tg = MMU_TARGET_FLASH0" "p + n * PAGE \<le> PADDR_END"
proof -
  have c: "sz_sub (sz_add (n * PAGE) PAGE) (Suc 0) div PAGE = n" by (rule page_count) (use assms in simp)
  have v: "mmu_ll_check_valid_paddr_region p (n * PAGE)"
    and "map_pages PAGE n v (mmu_ll_format_paddr p tg) tg t \<noteq> None"
    using assms(1) by (auto simp: mmu_hal_map_region_def c bind_eq_Some_conv split: if_splits)
  then show "tg = MMU_TARGET_FLASH0"
    using assms(2) by (cases n) (auto simp: mmu_ll_write_entry_def split: if_splits)
  show "p + n * PAGE \<le> PADDR_END" using valid_paddr_regionD [OF v] assms(2) by simp
qed

text \<open>The slot that the search finds lies between two blocks, and the new list is again in use.\<close>

lemma slot_found:
  assumes u: "in_use r h bs t" and ok: "region_ok r" and sz: "0 < sz" "sz \<le> max_slot_size r"
  obtains j l m where
    "slot_loop sz 0 (laddr_end (hd (mem_block_head r))) None 0 (mem_block_head r) = Some (Some (Suc j, l), m)"
    "j \<le> length bs" "l = end_of (free_head r) (take j bs)"
    "\<And>c. laddr_start c = l \<Longrightarrow> laddr_end c = l + sz \<Longrightarrow>
       block_chain (free_head r) (h # take j bs @ c # drop j bs @ [t]) \<and>
       m = max_gap (free_head r) (h # take j bs @ c # drop j bs @ [t])"
proof -
  let ?L = "h # bs @ [t]"
  have L: "mem_block_head r = ?L" "block_chain (free_head r) ?L" "max_slot_size r = max_gap (free_head r) ?L"
    and d: "laddr_start h = free_head r" "laddr_end h = free_head r"
    using u by (auto simp: in_use_def dummy_at_def)
  have lv: "live ?L" using in_use_live [OF u] ok L(1) by (simp add: region_ok_def)
  obtain j l where jl: "slot_loop sz 0 (free_head r) None 0 ?L =
      Some (Some (j, l), max_gap (free_head r) (take j ?L @ zero_block\<lparr>laddr_start := l, laddr_end := l + sz\<rparr> # drop j ?L))"
    "j < length ?L" "l = end_of (free_head r) (take j ?L)" "l + sz \<le> laddr_start (?L ! j)"
    using slot_loop_search [OF L(2) lv, of sz 0 0 b] sz L(3) by auto
  have "j \<noteq> 0" using jl(3,4) d sz(1) by (cases j) simp_all
  then obtain k where k: "j = Suc k" by (cases j) auto
  have kl: "k \<le> length bs" using jl(2) k by simp
  have l: "l = end_of (free_head r) (take k bs)" using jl(3) k kl d by simp
  have next_block: "drop k (bs @ [t]) = (bs @ [t]) ! k # drop (Suc k) (bs @ [t])"
    by (rule Cons_nth_drop_Suc [symmetric]) (use kl in simp)
  have split: "block_chain (free_head r) (take k (bs @ [t]))" "block_chain l (drop k (bs @ [t]))"
    using L(2) d l kl block_chain_append [of "free_head r" "take k (bs @ [t])" "drop k (bs @ [t])"]
    unfolding append_take_drop_id by simp_all
  then have "block_chain (l + sz) (drop k (bs @ [t]))"
    using jl(4) k kl unfolding next_block by simp
  then have "block_chain (free_head r) (h # take k bs @ c # drop k bs @ [t])"
    if "laddr_start c = l" "laddr_end c = l + sz" for c
    using split kl d l that by simp
  then show thesis
    using that [of k l] jl(1) k kl l d L(1) by simp
qed

lemma new_block_mapped:
  assumes "l mod PAGE = 0" "sz mod PAGE = 0" "0 < sz" "l + sz \<le> LINEAR_END" "p mod PAGE = 0" "p + sz \<le> PADDR_END"
  shows "mapped_block (new_mem_block l sz caps p MMU_TARGET_FLASH0)"
    "laddr_start (new_mem_block l sz caps p tg) = l" "laddr_end (new_mem_block l sz caps p tg) = l + sz"
    "paddr_start (new_mem_block l sz caps p tg) = p" "vaddr_start (new_mem_block l sz caps p tg) = vaddr_base (vaddr_type_of caps) + l"
    "(new_mem_block l sz caps p tg)\<lparr>laddr_start := l, laddr_end := l + sz\<rparr> = new_mem_block l sz caps p tg"
  using assms by (simp_all add: mapped_block_def new_mem_block_def zero_block_def sz_simps laddr_to_vaddr_sum)

definition bus_of :: "flags \<Rightarrow> flags" where
  "bus_of caps = (if vaddr_type_of caps = MMU_VADDR_DATA then CACHE_BUS_DBUS0 else CACHE_BUS_IBUS0)"

lemma map_in_region_eq:
  assumes inv: "length (mmu_tab s) = SOC_MMU_ENTRY_NUM" and u: "in_use r h bs t" and ok: "region_ok r"
    and sz: "sz = n * PAGE" "0 < n" "sz \<le> max_slot_size r"
    and p: "p mod PAGE = 0" "p + sz \<le> PADDR_END"
  obtains j l r' where
    "map_in_region i r p sz MMU_TARGET_FLASH0 caps s =
       Some (ESP_OK, Some (vaddr_base (vaddr_type_of caps) + l),
         s\<lparr>mem_regions := (mem_regions s)[i := r'], mmu_tab := put_pages (l div PAGE) n (p div PAGE) (mmu_tab s),
           enabled_buses := enabled_buses s OR bus_of caps,
           invalidated := (vaddr_base (vaddr_type_of caps) + l, sz) # invalidated s\<rparr>)"
    "in_use r' h (take j bs @ new_mem_block l sz caps p MMU_TARGET_FLASH0 # drop j bs) t"
    "free_head r' = free_head r" "region_end r' = region_end r" "region_caps r' = region_caps r" "targets r' = targets r"
    "mapped_block (new_mem_block l sz caps p MMU_TARGET_FLASH0)"
    "l mod PAGE = 0" "l + sz \<le> LINEAR_END"
proof -
  obtain j l m where jl:
    "slot_loop sz 0 (laddr_end (hd (mem_block_head r))) None 0 (mem_block_head r) = Some (Some (Suc j, l), m)"
    "j \<le> length bs" "l = end_of (free_head r) (take j bs)"
    and c: "\<And>c. laddr_start c = l \<Longrightarrow> laddr_end c = l + sz \<Longrightarrow>
       block_chain (free_head r) (h # take j bs @ c # drop j bs @ [t]) \<and>
       m = max_gap (free_head r) (h # take j bs @ c # drop j bs @ [t])"
    using slot_found [OF u ok] sz by (metis mult_pos_pos zero_less_numeral)
  let ?nb = "new_mem_block l sz caps p MMU_TARGET_FLASH0"
  let ?r = "r\<lparr>mem_block_head := insert_at (Suc j) ?nb (mem_block_head r), max_slot_size := m\<rparr>"
  have L: "mem_block_head r = h # bs @ [t]" and d: "laddr_start t = region_end r" using u by (auto simp: in_use_def dummy_at_def)
  have la: "l mod PAGE = 0"
    unfolding jl(3) using u ok by (intro end_of_aligned) (auto simp: in_use_def region_ok_def dest: in_set_takeD)
  have "l + sz \<le> region_end r"
    using c [of "zero_block\<lparr>laddr_start := l, laddr_end := l + sz\<rparr>"] d
      chain_le_end [of "l + sz" "drop j bs"] by simp
  then have lb: "l + sz \<le> LINEAR_END" using ok by (simp add: region_ok_def)
  note nb = new_block_mapped [OF la _ _ lb p, of caps]
  have nbm: "mapped_block ?nb" using nb sz by simp
  have ins: "insert_at (Suc j) ?nb (h # bs @ [t]) = h # (take j bs @ ?nb # drop j bs) @ [t]"
    using jl(2) by (simp add: insert_at_def)
  have "in_use ?r h (take j bs @ ?nb # drop j bs) t"
  proof -
    have "\<forall>b\<in>set (take j bs @ ?nb # drop j bs). mapped_block b"
      using u nbm by (auto simp: in_use_def dest: in_set_takeD in_set_dropD)
    moreover have "block_chain (free_head r) (h # take j bs @ ?nb # drop j bs @ [t]) \<and>
        m = max_gap (free_head r) (h # take j bs @ ?nb # drop j bs @ [t])"
      using c [of ?nb] nb(2,3) sz by simp
    ultimately show ?thesis using u unfolding in_use_def by (simp add: ins)
  qed
  moreover have "map_in_region i r p sz MMU_TARGET_FLASH0 caps s =
       Some (ESP_OK, Some (vaddr_base (vaddr_type_of caps) + l),
         s\<lparr>mem_regions := (mem_regions s)[i := ?r], mmu_tab := put_pages (l div PAGE) n (p div PAGE) (mmu_tab s),
           enabled_buses := enabled_buses s OR bus_of caps,
           invalidated := (vaddr_base (vaddr_type_of caps) + l, sz) # invalidated s\<rparr>)"
    using map_region_eq [OF inv la sz(2), of p "vaddr_type_of caps"] get_bus_eq [of sz l "vaddr_type_of caps"]
      p lb sz nb(5) by (simp add: map_in_region_def jl(1) [unfolded sz(1)] s_do_mapping_def bus_of_def Let_def)
  ultimately show ?thesis using that [of l ?r j] la lb nbm by simp
qed

subsection \<open>The blocks of all regions\<close>

definition all_blocks :: "mmu_st \<Rightarrow> mem_block_t list" where
  "all_blocks s = concat (map inner (mem_regions s))"

lemma all_blocks_update:
  assumes "i < length (mem_regions s)" "mem_regions s' = (mem_regions s)[i := r]"
  shows "mset (all_blocks s') + mset (inner (mem_regions s ! i)) = mset (all_blocks s) + mset (inner r)"
proof -
  let ?rs = "mem_regions s"
  have "mset (all_blocks s') = mset (concat (map inner (take i ?rs @ r # drop (Suc i) ?rs)))"
    unfolding all_blocks_def assms(2) using assms(1) by (simp add: upd_conv_take_nth_drop)
  moreover have "mset (all_blocks s) = mset (concat (map inner (take i ?rs @ ?rs ! i # drop (Suc i) ?rs)))"
    unfolding all_blocks_def using assms(1) by (simp add: id_take_nth_drop [symmetric])
  ultimately show ?thesis by simp
qed

lemma inner_in_use: "in_use r h bs t \<Longrightarrow> inner r = bs"
  by (simp add: in_use_def inner_def)

lemma all_blocks_mem: "b \<in> set (all_blocks s) \<longleftrightarrow> (\<exists>i<length (mem_regions s). b \<in> set (inner (mem_regions s ! i)))"
  by (force simp: all_blocks_def in_set_conv_nth [of _ "mem_regions s"])

text \<open>Every mapped block translates, and nothing else does.\<close>

lemma block_translates:
  assumes "mmu_inv s" "b \<in> set (all_blocks s)"
  shows "mapped_block b" "laddr_end b \<le> LINEAR_END"
    "laddr_start b \<le> x \<Longrightarrow> x < laddr_end b \<Longrightarrow> translate (mmu_tab s) x = Some (paddr_start b + (x - laddr_start b))"
proof -
  obtain i where i: "i < length (mem_regions s)" "b \<in> set (inner (mem_regions s ! i))"
    using assms(2) all_blocks_mem by blast
  let ?r = "mem_regions s ! i"
  have ok: "region_ok ?r" using assms(1) i(1) by (rule mmu_inv_region)
  obtain h bs t where u: "in_use ?r h bs t"
    using ok i(2) by (auto simp: region_ok_def inner_def elim!: blocks_ok_cases)
  have b: "b \<in> set bs" using i(2) inner_in_use [OF u] by simp
  show "mapped_block b" "laddr_end b \<le> LINEAR_END"
    using in_use_block [OF u b] ok by (simp_all add: region_ok_def)
  assume x: "laddr_start b \<le> x" "x < laddr_end b"
  then have "x \<in> managed ?r" using in_use_block [OF u b] by (simp add: managed_def)
  then have "translate (mmu_tab s) x = lookup (mem_block_head ?r) x"
    using assms(1) i(1) by (simp add: mmu_inv_def)
  also have "\<dots> = lookup bs x" by (rule in_use_lookup [OF u])
  also have "\<dots> = Some (paddr_start b + (x - laddr_start b))"
    using lookup_block [of "free_head ?r" bs b x] in_use_chain [OF u] b x by (simp add: block_holds_def)
  finally show "translate (mmu_tab s) x = Some (paddr_start b + (x - laddr_start b))" .
qed

lemma unmapped_untranslated:
  assumes "mmu_inv s" "r \<in> set (mem_regions s)" "x \<in> managed r"
    and "\<And>b. b \<in> set (all_blocks s) \<Longrightarrow> \<not> (laddr_start b \<le> x \<and> x < laddr_end b)"
  shows "translate (mmu_tab s) x = None"
proof -
  have ok: "blocks_ok r" using assms(1,2) by (simp add: mmu_inv_def region_ok_def)
  have "lookup (mem_block_head r) x = None"
    using ok
  proof (cases rule: blocks_ok_cases)
    case 1
    then show ?thesis by (simp add: lookup_def)
  next
    case (2 h bs t)
    have "lookup (mem_block_head r) x = lookup bs x" by (rule in_use_lookup [OF 2])
    also have "\<dots> = None"
      using assms(2,4) inner_in_use [OF 2] by (intro lookup_NoneI) (auto simp: block_holds_def all_blocks_def)
    finally show ?thesis .
  qed
  then show ?thesis using assms(1,2,3) by (simp add: mmu_inv_def)
qed

subsection \<open>What a mapping call does\<close>

lemma find_region_Some:
  "s_find_available_region rs sz caps tg = Some i \<Longrightarrow>
   i < length rs \<and> region_supports caps tg (rs ! i) \<and> sz \<le> max_slot_size (rs ! i)"
  by (induction rs arbitrary: i) (auto split: if_splits)

lemma find_region_None:
  "s_find_available_region rs sz caps tg = None \<longleftrightarrow> (\<forall>r\<in>set rs. region_supports caps tg r \<longrightarrow> max_slot_size r < sz)"
  by (induction rs) auto

lemma map_in_region_SomeD:
  assumes "map_in_region i r p (n * PAGE) tg caps s = Some (e, ptr, s')" "0 < n" "n * PAGE \<le> LINEAR_END"
  shows "tg = MMU_TARGET_FLASH0" "p + n * PAGE \<le> PADDR_END"
proof -
  obtain v x where "mmu_hal_map_region tg v p (n * PAGE) (mmu_tab s) = Some x"
    using assms(1) by (auto simp: map_in_region_def s_do_mapping_def Let_def case_prod_beta bind_eq_Some_conv split: if_splits)
  then show "tg = MMU_TARGET_FLASH0" "p + n * PAGE \<le> PADDR_END"
    using map_region_SomeD assms(2,3) by blast+
qed

text \<open>The addresses the driver hands out are the same before and after a call.\<close>

definition same_space :: "mmu_st \<Rightarrow> mmu_st \<Rightarrow> bool" where
  "same_space s s' \<longleftrightarrow> map free_head (mem_regions s') = map free_head (mem_regions s)
     \<and> map region_end (mem_regions s') = map region_end (mem_regions s)
     \<and> map region_caps (mem_regions s') = map region_caps (mem_regions s)
     \<and> map targets (mem_regions s') = map targets (mem_regions s)"

lemma same_space_update:
  assumes "mem_regions s' = (mem_regions s)[i := r]"
    "free_head r = free_head (mem_regions s ! i)" "region_end r = region_end (mem_regions s ! i)"
    "region_caps r = region_caps (mem_regions s ! i)" "targets r = targets (mem_regions s ! i)"
  shows "same_space s s'"
  using assms by (cases "i < length (mem_regions s)") (simp_all add: same_space_def map_update list_update_same_conv list_update_beyond)

text \<open>The driver's view of one more mapped block.\<close>

definition adds_block :: "mmu_st \<Rightarrow> mem_block_t \<Rightarrow> mmu_st \<Rightarrow> bool" where
  "adds_block s b s' \<longleftrightarrow> mapped_block b \<and> laddr_end b \<le> LINEAR_END
     \<and> mset (all_blocks s') = add_mset b (mset (all_blocks s))
     \<and> (\<exists>r\<in>set (mem_regions s). {laddr_start b..<laddr_end b} \<subseteq> managed r)
     \<and> (\<forall>x. laddr_start b \<le> x \<longrightarrow> x < laddr_end b \<longrightarrow> translate (mmu_tab s) x = None)
     \<and> (\<forall>x<LINEAR_END. translate (mmu_tab s') x =
          (if laddr_start b \<le> x \<and> x < laddr_end b then Some (paddr_start b + (x - laddr_start b))
           else translate (mmu_tab s) x))"

lemma map_in_region_effect:
  assumes inv: "mmu_inv s" and i: "i < length (mem_regions s)" and r: "mem_regions s ! i = r" and u: "in_use r h bs t"
    and sz: "sz = n * PAGE" "0 < n" "sz \<le> max_slot_size r" and p: "p mod PAGE = 0" "p + sz \<le> PADDR_END"
  obtains l s' where
    "map_in_region i r p sz MMU_TARGET_FLASH0 caps s = Some (ESP_OK, Some (vaddr_base (vaddr_type_of caps) + l), s')"
    "mmu_inv s'" "same_space s s'" "adds_block s (new_mem_block l sz caps p MMU_TARGET_FLASH0) s'"
    "laddr_start (new_mem_block l sz caps p MMU_TARGET_FLASH0) = l"
    "laddr_end (new_mem_block l sz caps p MMU_TARGET_FLASH0) = l + sz"
    "invalidated s' = (vaddr_base (vaddr_type_of caps) + l, sz) # invalidated s"
    "enabled_buses s' = enabled_buses s OR bus_of caps"
proof -
  have ok: "region_ok r" using mmu_inv_region [OF inv i] r by simp
  have len: "length (mmu_tab s) = SOC_MMU_ENTRY_NUM" using inv by (simp add: mmu_inv_def)
  obtain j l r' where m: "map_in_region i r p sz MMU_TARGET_FLASH0 caps s =
       Some (ESP_OK, Some (vaddr_base (vaddr_type_of caps) + l),
         s\<lparr>mem_regions := (mem_regions s)[i := r'], mmu_tab := put_pages (l div PAGE) n (p div PAGE) (mmu_tab s),
           enabled_buses := enabled_buses s OR bus_of caps,
           invalidated := (vaddr_base (vaddr_type_of caps) + l, sz) # invalidated s\<rparr>)"
    and u': "in_use r' h (take j bs @ new_mem_block l sz caps p MMU_TARGET_FLASH0 # drop j bs) t"
    and f: "free_head r' = free_head r" "region_end r' = region_end r" "region_caps r' = region_caps r" "targets r' = targets r"
    and nb: "mapped_block (new_mem_block l sz caps p MMU_TARGET_FLASH0)" and l: "l mod PAGE = 0" "l + sz \<le> LINEAR_END"
    using map_in_region_eq [OF len u ok sz p, of i caps] .
  let ?b = "new_mem_block l sz caps p MMU_TARGET_FLASH0"
  let ?s = "s\<lparr>mem_regions := (mem_regions s)[i := r'], mmu_tab := put_pages (l div PAGE) n (p div PAGE) (mmu_tab s),
           enabled_buses := enabled_buses s OR bus_of caps,
           invalidated := (vaddr_base (vaddr_type_of caps) + l, sz) # invalidated s\<rparr>"
  have b: "laddr_start ?b = l" "laddr_end ?b = l + sz" "paddr_start ?b = p"
    using new_block_mapped(2,3,4) [OF l(1) _ _ l(2) p] sz by simp_all
  have tr: "translate (mmu_tab ?s) x = (if l \<le> x \<and> x < l + sz then Some (p + (x - l)) else translate (mmu_tab s) x)"
    if "x < LINEAR_END" for x
    using translate_put [OF len l(1), of n p x] l(2) p sz(1) that by simp
  have c: "block_chain (free_head r) (take j bs @ ?b # drop j bs)" using in_use_chain [OF u'] f by simp
  have old: "translate (mmu_tab s) x = lookup bs x" if "x \<in> managed r" for x
    using mmu_inv_translate [OF inv i] r that in_use_lookup [OF u] by simp
  have rng: "{l..<l + sz} \<subseteq> managed r"
    using in_use_block [OF u', of ?b] f b by (auto simp: managed_def)
  have ok': "region_ok r'" using ok f in_use_blocks_ok [OF u'] by (simp add: region_ok_def)
  have "mmu_inv ?s"
  proof (rule mmu_inv_update [OF inv i ok'])
    fix x assume x: "x \<in> managed r'"
    then have "x < LINEAR_END" "x \<in> managed r" using ok f by (auto simp: managed_def region_ok_def)
    moreover have "lookup (mem_block_head r') x = lookup (take j bs @ ?b # drop j bs) x"
      by (rule in_use_lookup [OF u'])
    ultimately show "translate (mmu_tab ?s) x = lookup (mem_block_head r') x"
      using tr old lookup_insert [OF c, of x] b by (simp add: block_holds_def)
  next
    fix x assume "x < LINEAR_END" "x \<notin> managed r'"
    then show "translate (mmu_tab ?s) x = translate (mmu_tab s) x"
      using tr rng f by (auto simp: managed_def)
  qed (use f r len in simp_all)
  moreover have "same_space s ?s" using f r by (intro same_space_update [of ?s s i r']) simp_all
  moreover have "adds_block s ?b ?s"
  proof -
    have "mset (all_blocks ?s) + mset bs = mset (all_blocks s) + mset (take j bs @ ?b # drop j bs)"
      using all_blocks_update [OF i, of ?s r'] inner_in_use [OF u] inner_in_use [OF u'] r by simp
    also have "mset (take j bs @ ?b # drop j bs) = add_mset ?b (mset bs)"
      using mset_append [of "take j bs" "drop j bs"] by simp
    finally have "mset (all_blocks ?s) = add_mset ?b (mset (all_blocks s))" by simp
    moreover have "translate (mmu_tab s) x = None" if "l \<le> x" "x < l + sz" for x
      using old [of x] rng that lookup_removed [OF c, of x] b by (auto simp: block_holds_def)
    moreover have "\<exists>r\<in>set (mem_regions s). {l..<l + sz} \<subseteq> managed r" using rng i r by auto
    ultimately show ?thesis using nb l tr b unfolding adds_block_def by simp
  qed
  ultimately show thesis using that [OF m] b by simp
qed

lemma same_space_managed:
  assumes "same_space s s'"
  shows "length (mem_regions s') = length (mem_regions s)"
    "i < length (mem_regions s) \<Longrightarrow> managed (mem_regions s' ! i) = managed (mem_regions s ! i)"
proof -
  show len: "length (mem_regions s') = length (mem_regions s)"
    using assms unfolding same_space_def by (metis length_map)
  assume i: "i < length (mem_regions s)"
  have "map free_head (mem_regions s') ! i = map free_head (mem_regions s) ! i"
    "map region_end (mem_regions s') ! i = map region_end (mem_regions s) ! i"
    using assms by (simp_all add: same_space_def)
  then show "managed (mem_regions s' ! i) = managed (mem_regions s ! i)" using i len by (simp add: managed_def)
qed

lemma same_space_trans: "same_space s s' \<Longrightarrow> same_space s' s'' \<Longrightarrow> same_space s s''"
  and same_space_refl [simp]: "same_space s s"
  by (simp_all add: same_space_def)

lemma adds_block_from:
  assumes "same_space s s1" "mset (all_blocks s1) = mset (all_blocks s)" "mmu_tab s1 = mmu_tab s" "adds_block s1 b s'"
  shows "adds_block s b s'"
proof -
  have "\<exists>r\<in>set (mem_regions s). {laddr_start b..<laddr_end b} \<subseteq> managed r"
    using assms(4) same_space_managed [OF assms(1)] unfolding adds_block_def
    by (metis in_set_conv_nth)
  with assms show ?thesis by (simp add: adds_block_def)
qed

lemma dummies_keep:
  assumes "mmu_inv s" "i < length (mem_regions s)" "with_dummies al caps (mem_regions s ! i) = (None, made, r)"
    and s': "mem_regions s' = (mem_regions s)[i := r]" "mmu_tab s' = mmu_tab s"
  shows "mmu_inv s'" "same_space s s'" "mset (all_blocks s') = mset (all_blocks s)"
proof -
  note d = with_dummies_ok [OF mmu_inv_region [OF assms(1,2)] assms(3)]
  show "mmu_inv s'"
    by (rule mmu_inv_update [OF assms(1,2) d(1,3,4) _ _ _ s'(1)])
      (use assms(1,2) d s' mmu_inv_translate in \<open>auto simp: mmu_inv_def managed_def\<close>)
  show "same_space s s'" using same_space_update [OF s'(1) d(3,4,8,9)] .
  show "mset (all_blocks s') = mset (all_blocks s)" using all_blocks_update [OF assms(2) s'(1)] d(7) by simp
qed

lemma max_slot_bound:
  assumes "region_ok r"
  shows "max_slot_size r \<le> LINEAR_END"
proof -
  have gap: "max_gap e bs \<le> end_of e bs" if "block_chain e bs" for e bs
    using that
  proof (induction bs arbitrary: e)
    case (Cons b bs)
    then show ?case using chain_le_end [of "laddr_end b" bs] by fastforce
  qed simp
  have "blocks_ok r" using assms by (simp add: region_ok_def)
  then show ?thesis
  proof (cases rule: blocks_ok_cases)
    case (2 h bs t)
    then have "block_chain (free_head r) (h # bs @ [t])" "max_slot_size r = max_gap (free_head r) (h # bs @ [t])"
      "end_of (free_head r) (h # bs @ [t]) = region_end r"
      unfolding in_use_def dummy_at_def by auto
    with gap [of "free_head r" "h # bs @ [t]"] assms show ?thesis unfolding region_ok_def by linarith
  qed (use assms in \<open>auto simp: region_ok_def\<close>)
qed

lemma mod_config_page: "x mod CONFIG_MMU_PAGE_SIZE = x mod PAGE"
  by (simp add: CONFIG_MMU_PAGE_SIZE_def)

lemma map_success:
  assumes inv: "mmu_inv s" and sz: "sz mod PAGE = 0" "0 < sz" and p: "p mod PAGE = 0"
    and i: "s_find_available_region (mem_regions s) sz caps tg = Some i"
    and wd: "with_dummies al caps (mem_regions s ! i) = (None, made, r)"
    and mr: "map_in_region i r p sz tg caps (s\<lparr>mem_regions := (mem_regions s)[i := r]\<rparr>) = Some (e, ptr, s')"
  shows "mmu_inv s' \<and> same_space s s' \<and> e = ESP_OK \<and> tg = MMU_TARGET_FLASH0 \<and>
       (\<exists>l. ptr = Some (vaddr_base (vaddr_type_of caps) + l) \<and> l + sz \<le> LINEAR_END
          \<and> adds_block s (new_mem_block l sz caps p MMU_TARGET_FLASH0) s')"
proof -
  let ?s1 = "s\<lparr>mem_regions := (mem_regions s)[i := r]\<rparr>"
  have il: "i < length (mem_regions s)" and slot: "sz \<le> max_slot_size (mem_regions s ! i)"
    using find_region_Some [OF i] by simp_all
  note d = with_dummies_ok [OF mmu_inv_region [OF inv il] wd]
  note k = dummies_keep [OF inv il wd, of ?s1, simplified]
  obtain h bs t where u: "in_use r h bs t" using d(2) by blast
  obtain n where n: "sz = n * PAGE" "0 < n" using page_multiple [OF sz(1)] sz(2) by auto
  have szb: "sz \<le> LINEAR_END" using slot max_slot_bound [OF mmu_inv_region [OF inv il]] by simp
  have tg: "tg = MMU_TARGET_FLASH0" and pb: "p + sz \<le> PADDR_END"
    using map_in_region_SomeD [OF mr [unfolded n(1)] n(2)] szb n(1) by simp_all
  have il1: "i < length (mem_regions ?s1)" and r1: "mem_regions ?s1 ! i = r" and slot1: "sz \<le> max_slot_size r"
    using il slot d(5) by simp_all
  obtain l s2 where l: "map_in_region i r p sz MMU_TARGET_FLASH0 caps ?s1 =
        Some (ESP_OK, Some (vaddr_base (vaddr_type_of caps) + l), s2)"
      "mmu_inv s2" "same_space ?s1 s2" "adds_block ?s1 (new_mem_block l sz caps p MMU_TARGET_FLASH0) s2"
      "laddr_end (new_mem_block l sz caps p MMU_TARGET_FLASH0) = l + sz"
    using map_in_region_effect [OF k(1) il1 r1 u n slot1 p pb] by blast
  have "s2 = s'" "e = ESP_OK" "ptr = Some (vaddr_base (vaddr_type_of caps) + l)" using l(1) mr tg by simp_all
  moreover have "adds_block s (new_mem_block l sz caps p MMU_TARGET_FLASH0) s2"
    by (rule adds_block_from [OF k(2,3) _ l(4)]) simp
  moreover have "l + sz \<le> LINEAR_END" using l(4,5) by (simp add: adds_block_def)
  ultimately show ?thesis using l(2,3) k(2) tg same_space_trans by blast
qed

lemma esp_mmu_map_effect:
  assumes inv: "mmu_inv s" and al: "head_ok al \<longrightarrow> tail_ok al \<and> block_ok al"
    and sz: "sz = ALIGN_UP_BY n CONFIG_MMU_PAGE_SIZE" "0 < sz"
    and m: "esp_mmu_map al p n tg caps flgs s = Some (e, ptr, s')"
  shows "mmu_inv s' \<and> same_space s s' \<and>
    (if e = ESP_OK
     then tg = MMU_TARGET_FLASH0 \<and> p mod PAGE = 0 \<and>
       (\<exists>l. ptr = Some (vaddr_base (vaddr_type_of caps) + l) \<and> l + sz \<le> LINEAR_END
          \<and> adds_block s (new_mem_block l sz caps p MMU_TARGET_FLASH0) s')
     else mmu_tab s' = mmu_tab s \<and> mset (all_blocks s') = mset (all_blocks s))"
proof (cases "s_find_available_region (mem_regions s) sz caps tg")
  case None
  then show ?thesis
    using m inv by (auto simp: esp_mmu_map_def sz(1) [symmetric] Let_def split: if_splits)
next
  case (Some i)
  have il: "i < length (mem_regions s)" using find_region_Some [OF Some] by simp
  obtain err made r where wd: "with_dummies al caps (mem_regions s ! i) = (err, made, r)"
    by (cases "with_dummies al caps (mem_regions s ! i)") auto
  let ?s1 = "s\<lparr>mem_regions := (mem_regions s)[i := r]\<rparr>"
  show ?thesis
  proof (cases err)
    case err: (Some x)
    then have "r = mem_regions s ! i" "x = ESP_ERR_NO_MEM" using with_dummies_failed [OF wd [unfolded err] al] by simp_all
    then have "?s1 = s" by simp
    then show ?thesis
      using m inv Some wd err \<open>x = ESP_ERR_NO_MEM\<close>
      by (auto simp: esp_mmu_map_def sz(1) [symmetric] Let_def split: if_splits)
  next
    case None
    note k = dummies_keep [OF inv il wd [unfolded None], of ?s1, simplified]
    have mb: "made \<longrightarrow> block_ok al" using with_dummies_made [of al caps "mem_regions s ! i" r] wd None al by auto
    obtain chk where chk: "paddr_check tg p sz (flag_set flgs ESP_MMU_MMAP_FLAG_PADDR_SHARED) (mem_block_head r) = Some chk"
      using paddr_check_total in_use_live with_dummies_ok(1,2) [OF mmu_inv_region [OF inv il] wd [unfolded None]]
      unfolding region_ok_def by metis
    have "s' = s \<and> e \<noteq> ESP_OK \<or> s' = ?s1 \<and> e \<noteq> ESP_OK \<or>
        p mod PAGE = 0 \<and> map_in_region i r p sz tg caps ?s1 = Some (e, ptr, s')"
      using m Some wd None mb chk
      by (cases chk) (auto simp: esp_mmu_map_def sz(1) [symmetric] Let_def mod_config_page split: if_split_asm)
    then consider "s' = s" "e \<noteq> ESP_OK" | "s' = ?s1" "e \<noteq> ESP_OK"
      | "p mod PAGE = 0" "map_in_region i r p sz tg caps ?s1 = Some (e, ptr, s')"
      by (elim disjE conjE)
    then show ?thesis
    proof cases
      case 3
      show ?thesis
        using map_success [OF inv _ sz(2) 3(1) Some wd [unfolded None] 3(2)] 3(1) sz(1) by simp
    qed (use k inv in simp_all)
  qed
qed

subsection \<open>What an unmapping call does\<close>

lemma find_inner_append:
  assumes "live (bs @ [t])" "0 < i"
  shows "find_inner P i (bs @ [t]) =
    Some (if \<exists>b\<in>set bs. P b then Some (i + length (takeWhile (\<lambda>b. \<not> P b) bs)) else None)"
  using assms
proof (induction bs arbitrary: i)
  case (Cons b bs)
  obtain c cs where c: "bs @ [t] = c # cs" by (cases bs) auto
  have "find_inner P i ((b # bs) @ [t]) = (if P b then Some (Some i) else find_inner P (i + 1) (bs @ [t]))"
    using Cons.prems by (simp add: c)
  with Cons show ?case by simp
qed simp

lemma find_block_in_use:
  assumes "in_use r h bs t" "region_ok r"
  shows "find_block P (mem_block_head r) =
    Some (if \<exists>b\<in>set bs. P b then Some (Suc (length (takeWhile (\<lambda>b. \<not> P b) bs))) else None)"
proof -
  have L: "mem_block_head r = h # bs @ [t]" using assms by (simp add: in_use_def)
  have lv: "live (h # bs @ [t])" using in_use_live [OF assms(1)] assms(2) L by (simp add: region_ok_def)
  obtain c cs where c: "bs @ [t] = c # cs" by (cases bs) auto
  have "find_inner P 0 (h # bs @ [t]) = find_inner P 1 (bs @ [t])" using lv by (simp add: c)
  then show ?thesis
    using find_inner_append [of bs t 1 P] lv by (simp add: find_block_def L)
qed

lemma fold_last_index:
  assumes "i < n" "Q i" "\<And>j. j < n \<Longrightarrow> j \<noteq> i \<Longrightarrow> \<not> Q j"
  shows "fold (\<lambda>i found. if Q i then Some i else found) [0..<n] None = Some i"
  using assms
proof (induction n)
  case (Suc n)
  then show ?case by (cases "i = n") (auto simp: less_Suc_eq)
qed simp

lemma region_of_laddr_managed:
  assumes "mmu_inv s" "i < length (mem_regions s)" "l \<in> managed (mem_regions s ! i)"
  shows "region_of_laddr l (mem_regions s) = Some i"
  unfolding region_of_laddr_def
proof (rule fold_last_index)
  fix j assume j: "j < length (mem_regions s)" "j \<noteq> i"
  then have "managed (mem_regions s ! i) \<inter> managed (mem_regions s ! j) = {}" using assms by (simp add: mmu_inv_def)
  then show "\<not> (l \<ge> free_head (mem_regions s ! j) \<and> l < region_end (mem_regions s ! j))"
    using assms(3) by (auto simp: managed_def)
qed (use assms in \<open>auto simp: managed_def\<close>)

lemma region_of_laddr_Some:
  assumes "region_of_laddr l rs = Some i"
  shows "i < length rs \<and> l \<in> managed (rs ! i)"
proof -
  have "fold (\<lambda>i found. if Q i then Some i else found) [0..<n] None = Some i \<Longrightarrow> i < n \<and> Q i" for Q and n
    by (induction n) (auto split: if_splits simp: less_Suc_eq)
  from this [of "\<lambda>i. l \<ge> free_head (rs ! i) \<and> l < region_end (rs ! i)"] show ?thesis
    using assms by (auto simp: region_of_laddr_def managed_def)
qed

lemma chain_mono: "block_chain e bs \<Longrightarrow> e' \<le> e \<Longrightarrow> block_chain e' bs"
  by (cases bs) auto

lemma end_of_last: "xs \<noteq> [] \<Longrightarrow> end_of e xs = laddr_end (last xs)"
  by (induction xs arbitrary: e) auto

text \<open>Without one block, the largest gap is the larger one of the old one and the gap that the
  block leaves.\<close>

lemma max_gap_remove:
  assumes "block_chain e (xs @ b # z # zs)"
  shows "block_chain e (xs @ z # zs)"
    "max_gap e (xs @ z # zs) = max (max_gap e (xs @ b # z # zs)) (laddr_start z - end_of e xs)"
  using assms by (auto simp: max_def)

lemma in_use_remove:
  assumes u: "in_use r h (xs @ b # ys) t"
    and r': "r' = r\<lparr>max_slot_size := max (max_slot_size r) (laddr_start (hd (ys @ [t])) - laddr_end (last (h # xs))),
          mem_block_head := h # (xs @ ys) @ [t]\<rparr>"
  shows "in_use r' h (xs @ ys) t"
proof -
  obtain z zs where z: "ys @ [t] = z # zs" by (cases ys) auto
  have c: "block_chain (free_head r) ((h # xs) @ b # z # zs)"
    and m: "max_slot_size r = max_gap (free_head r) ((h # xs) @ b # z # zs)"
    using u z by (simp_all add: in_use_def)
  have e: "end_of (free_head r) (h # xs) = laddr_end (last (h # xs))" by (rule end_of_last) simp
  have l: "(h # xs) @ z # zs = h # (xs @ ys) @ [t]" using z by simp
  have "block_chain (free_head r) (h # (xs @ ys) @ [t])" using max_gap_remove(1) [OF c] unfolding l .
  moreover have mr: "max_slot_size r' = max (max_slot_size r) (laddr_start z - laddr_end (last (h # xs)))"
    unfolding r' z by simp
  have "max_gap (free_head r) (h # (xs @ ys) @ [t]) = max_slot_size r'"
    using max_gap_remove(2) [OF c] unfolding l e mr m .
  moreover have mb: "\<forall>c\<in>set (xs @ ys). mapped_block c" and d: "dummy_at (free_head r) h" "dummy_at (region_end r) t"
    using u by (simp_all add: in_use_def)
  moreover have "mem_block_head r' = h # (xs @ ys) @ [t]" "free_head r' = free_head r" "region_end r' = region_end r"
    by (simp_all add: r')
  ultimately show ?thesis unfolding in_use_def by metis
qed

lemma laddr_start_unique:
  assumes "block_chain e bs" "\<forall>b\<in>set bs. laddr_start b < laddr_end b" "b \<in> set bs" "c \<in> set bs" "laddr_start b = laddr_start c"
  shows "b = c"
proof -
  obtain xs ys where bs: "bs = xs @ b # ys" using split_list [OF assms(3)] by blast
  show ?thesis
    using chain_disjoint [OF assms(1) [unfolded bs], of c] assms bs by fastforce
qed

definition drops_block :: "mmu_st \<Rightarrow> mem_block_t \<Rightarrow> mmu_st \<Rightarrow> bool" where
  "drops_block s b s' \<longleftrightarrow> add_mset b (mset (all_blocks s')) = mset (all_blocks s)
     \<and> (\<forall>x<LINEAR_END. translate (mmu_tab s') x =
          (if laddr_start b \<le> x \<and> x < laddr_end b then None else translate (mmu_tab s) x))"

lemma esp_mmu_unmap_eval:
  assumes "ptr \<noteq> 0" "mmu_ll_vaddr_to_laddr ptr = l" "region_of_laddr l (mem_regions s) = Some i"
    and "r = mem_regions s ! i" "mem_block_head r = bs" "find_block (\<lambda>b. laddr_start b = l) bs = Some (Some k)"
    and "\<not> freed (bs ! (k + 1))" "laddr_end (bs ! (k - 1)) \<le> laddr_start (bs ! (k + 1))"
    and "laddr_start (bs ! (k + 1)) < SIZE_LIM"
    and "mmu_hal_unmap_region (vaddr_start (bs ! k)) (block_size (bs ! k)) (mmu_tab s) = Some t"
  shows "esp_mmu_unmap ptr s = Some (ESP_OK, s\<lparr>mmu_tab := t, mem_regions := (mem_regions s)[i :=
      r\<lparr>max_slot_size := max (max_slot_size r) (laddr_start (bs ! (k + 1)) - laddr_end (bs ! (k - 1))),
        mem_block_head := remove_at k bs\<rparr>]\<rparr>)"
  using assms by (simp add: esp_mmu_unmap_def s_do_unmapping_def Let_def sz_simps max_def)

lemma esp_mmu_unmap_block:
  assumes inv: "mmu_inv s" and b: "b \<in> set (all_blocks s)"
    and ptr: "ptr \<noteq> 0" "mmu_ll_vaddr_to_laddr ptr = laddr_start b"
  obtains s' where "esp_mmu_unmap ptr s = Some (ESP_OK, s')" "mmu_inv s'" "same_space s s'" "drops_block s b s'"
proof -
  obtain i where i: "i < length (mem_regions s)" "b \<in> set (inner (mem_regions s ! i))"
    using b all_blocks_mem by blast
  let ?r = "mem_regions s ! i"
  have ok: "region_ok ?r" using mmu_inv_region [OF inv i(1)] .
  obtain h bs t where u: "in_use ?r h bs t"
    using ok i(2) by (auto simp: region_ok_def inner_def elim!: blocks_ok_cases)
  have bin: "b \<in> set bs" using i(2) inner_in_use [OF u] by simp
  have uniq: "c = b" if "c \<in> set bs" "laddr_start c = laddr_start b" for c
    using laddr_start_unique [of "free_head ?r" bs c b] in_use_chain [OF u] in_use_block(3) [OF u] bin that by blast
  obtain xs ys where bs: "bs = xs @ b # ys" and first: "\<forall>c\<in>set xs. laddr_start c \<noteq> laddr_start b"
  proof -
    have "\<exists>c\<in>set bs. laddr_start c = laddr_start b" using bin by blast
    then obtain xs c ys where c: "bs = xs @ c # ys" "laddr_start c = laddr_start b" "\<forall>d\<in>set xs. laddr_start d \<noteq> laddr_start b"
      using split_list_first_prop [of bs "\<lambda>c. laddr_start c = laddr_start b"] by blast
    moreover have "c = b" using c uniq [of c] by simp
    ultimately show thesis using that by blast
  qed
  have idx: "length (takeWhile (\<lambda>c. laddr_start c \<noteq> laddr_start b) bs) = length xs"
    unfolding bs using first by (simp add: takeWhile_append2)
  have man: "laddr_start b \<in> managed ?r" "laddr_end b \<le> LINEAR_END" and mb: "mapped_block b"
    using in_use_block [OF u bin] ok by (auto simp: managed_def region_ok_def)
  let ?L = "h # xs @ b # ys @ [t]" and ?k = "Suc (length xs)"
  have L: "mem_block_head ?r = ?L" using u bs by (simp add: in_use_def)
  have nth: "?L ! ?k = b" "?L ! (?k + 1) = hd (ys @ [t])" "?L ! (?k - 1) = last (h # xs)"
    by (simp_all add: nth_append nth_Cons' hd_conv_nth last_conv_nth)
  have hd_in: "hd (ys @ [t]) \<in> set ?L" by (cases ys) simp_all
  have lv: "live ?L" using in_use_live [OF u] ok L by (simp add: region_ok_def)
  then have hd_live: "\<not> freed (hd (ys @ [t]))" "laddr_start (hd (ys @ [t])) < SIZE_LIM"
    using hd_in unfolding live_def by blast+
  have c: "block_chain (free_head ?r) ((h # xs) @ b # ys @ [t])" using u bs by (simp add: in_use_def)
  have le: "laddr_end (last (h # xs)) \<le> laddr_start (hd (ys @ [t]))"
    using chain_disjoint [OF c, of "last (h # xs)"] chain_disjoint [OF c, of "hd (ys @ [t])"] in_use_block(3) [OF u bin]
    by (cases ys) (auto split: if_splits)
  let ?r' = "?r\<lparr>max_slot_size := max (max_slot_size ?r) (laddr_start (hd (ys @ [t])) - laddr_end (last (h # xs))),
          mem_block_head := h # (xs @ ys) @ [t]\<rparr>"
  have u': "in_use ?r' h (xs @ ys) t" using in_use_remove [OF u [unfolded bs]] by simp
  obtain n where n: "block_size b = n * PAGE" "0 < n" using block_pages [OF mb] .
  have len: "length (mmu_tab s) = SOC_MMU_ENTRY_NUM" using inv by (simp add: mmu_inv_def)
  have lb: "laddr_start b mod PAGE = 0" "laddr_end b = laddr_start b + n * PAGE" using mb n by (simp_all add: mapped_block_def)
  let ?t = "clear_pages (laddr_start b div PAGE) n (mmu_tab s)"
  have um: "mmu_hal_unmap_region (vaddr_start b) (block_size b) (mmu_tab s) = Some ?t"
    using unmap_region_eq [OF len lb(1) n(2)] man(2) lb n mb by (simp add: mapped_block_def)
  let ?s = "s\<lparr>mmu_tab := ?t, mem_regions := (mem_regions s)[i := ?r']\<rparr>"
  have fb: "find_block (\<lambda>c. laddr_start c = laddr_start b) ?L = Some (Some ?k)"
    using find_block_in_use [OF u ok, of "\<lambda>c. laddr_start c = laddr_start b"] idx bin unfolding L by auto
  have rm: "remove_at ?k ?L = h # (xs @ ys) @ [t]" by (simp add: remove_at_def)
  have "esp_mmu_unmap ptr s = Some (ESP_OK, ?s)"
    using esp_mmu_unmap_eval [OF ptr region_of_laddr_managed [OF inv i(1) man(1)] refl L fb] hd_live le um
    unfolding nth rm by simp
  moreover have tr: "translate (mmu_tab ?s) x =
      (if laddr_start b \<le> x \<and> x < laddr_end b then None else translate (mmu_tab s) x)" if "x < LINEAR_END" for x
    using translate_clear [OF len lb(1) that, of n] lb(2) by simp
  have cb: "block_chain (free_head ?r) (xs @ b # ys)" using in_use_chain [OF u] bs by simp
  have "mmu_inv ?s"
  proof (rule mmu_inv_update [OF inv i(1), of ?r'])
    show "region_ok ?r'" using ok in_use_blocks_ok [OF u'] by (simp add: region_ok_def)
  next
    fix x assume x: "x \<in> managed ?r'"
    then have "x \<in> managed ?r" "x < LINEAR_END" using ok by (auto simp: managed_def region_ok_def)
    then show "translate (mmu_tab ?s) x = lookup (mem_block_head ?r') x"
      using tr mmu_inv_translate [OF inv i(1)] in_use_lookup [OF u, of x] in_use_lookup [OF u', of x]
        lookup_removed [OF cb, of x] bs by (simp add: block_holds_def)
  next
    fix x assume "x < LINEAR_END" "x \<notin> managed ?r'"
    then show "translate (mmu_tab ?s) x = translate (mmu_tab s) x"
      using tr in_use_block [OF u bin] by (auto simp: managed_def)
  qed (use len in simp_all)
  moreover have "same_space s ?s" by (rule same_space_update [of ?s s i ?r']) simp_all
  moreover have "drops_block s b ?s"
  proof -
    have "mset (all_blocks ?s) + mset bs = mset (all_blocks s) + mset (xs @ ys)"
      using all_blocks_update [OF i(1), of ?s ?r'] inner_in_use [OF u] inner_in_use [OF u'] by simp
    then have "add_mset b (mset (all_blocks ?s)) = mset (all_blocks s)" by (simp add: bs)
    with tr show ?thesis by (simp add: drops_block_def)
  qed
  ultimately show thesis using that by blast
qed

lemma esp_mmu_unmap_other:
  assumes inv: "mmu_inv s" and no: "\<And>b. b \<in> set (all_blocks s) \<Longrightarrow> laddr_start b \<noteq> mmu_ll_vaddr_to_laddr ptr"
  shows "esp_mmu_unmap ptr s = Some (if ptr = 0 then ESP_ERR_INVALID_ARG else ESP_ERR_NOT_FOUND, s)"
proof (cases "ptr \<noteq> 0 \<and> (\<exists>i. region_of_laddr (mmu_ll_vaddr_to_laddr ptr) (mem_regions s) = Some i)")
  case True
  then obtain i where i: "region_of_laddr (mmu_ll_vaddr_to_laddr ptr) (mem_regions s) = Some i" by blast
  let ?r = "mem_regions s ! i"
  have il: "i < length (mem_regions s)" using region_of_laddr_Some [OF i] by simp
  have ok: "region_ok ?r" using mmu_inv_region [OF inv il] .
  then have "blocks_ok ?r" by (simp add: region_ok_def)
  then have "find_block (\<lambda>b. laddr_start b = mmu_ll_vaddr_to_laddr ptr) (mem_block_head ?r) = Some None"
  proof (cases rule: blocks_ok_cases)
    case 1
    then show ?thesis by (simp add: find_block_def)
  next
    case (2 h bs t)
    then show ?thesis
      using find_block_in_use [OF 2 ok] no inner_in_use [OF 2] il by (auto simp: all_blocks_mem)
  qed
  with True i show ?thesis by (simp add: esp_mmu_unmap_def Let_def)
qed (auto simp: esp_mmu_unmap_def Let_def)

end
