(* ===== verification/Address_Space.thy ===== *)
theory Address_Space
  imports Prelude
begin

section \<open>The contract of an address space\<close>

text \<open>
  A driver maps blocks of physical memory into an address space and unmaps them again. The locale
  states what a client may rely on: a mapped block translates address by address, it takes addresses
  that were not translated before, other addresses are not affected, and unmapping takes exactly the
  addresses of the block away. What follows for a single block and for sequences of blocks, which
  clients map one after the other and give back in the same order, is proved here once.
\<close>

locale address_space =
  fixes inv :: "'s \<Rightarrow> bool"
    and trans :: "'s \<Rightarrow> nat \<Rightarrow> nat option"
    and blocks :: "'s \<Rightarrow> (nat \<times> nat) set"
    and addr :: "nat \<Rightarrow> nat"
    and maps :: "'s \<Rightarrow> nat \<Rightarrow> nat \<Rightarrow> nat \<Rightarrow> 's \<Rightarrow> bool"
    and unmap :: "nat \<Rightarrow> 's \<Rightarrow> 's option"
  assumes block_law: "inv s \<Longrightarrow> (l, n) \<in> blocks s \<Longrightarrow> 0 < n \<and> (\<forall>x. l \<le> x \<longrightarrow> x < l + n \<longrightarrow> trans s x \<noteq> None)"
    and maps_law: "inv s \<Longrightarrow> maps s p n ptr s' \<Longrightarrow>
      ptr \<noteq> 0 \<and> 0 < n \<and> inv s' \<and> blocks s' = insert (addr ptr, n) (blocks s) \<and>
      (\<forall>x. addr ptr \<le> x \<longrightarrow> x < addr ptr + n \<longrightarrow> trans s x = None) \<and>
      (\<forall>x. trans s' x = (if addr ptr \<le> x \<and> x < addr ptr + n then Some (p + (x - addr ptr)) else trans s x))"
    and unmap_law: "inv s \<Longrightarrow> ptr \<noteq> 0 \<Longrightarrow> (addr ptr, n) \<in> blocks s \<Longrightarrow>
      \<exists>s'. unmap ptr s = Some s' \<and> inv s' \<and> blocks s' = blocks s - {(addr ptr, n)} \<and>
        (\<forall>x. trans s' x = (if addr ptr \<le> x \<and> x < addr ptr + n then None else trans s x))"
begin

lemma maps_fresh:
  assumes "inv s" "maps s p n ptr s'"
  shows "(addr ptr, m) \<notin> blocks s"
proof
  assume "(addr ptr, m) \<in> blocks s"
  then have "trans s (addr ptr) \<noteq> None" using block_law [OF assms(1)] by force
  moreover have "trans s (addr ptr) = None" using maps_law [OF assms] by simp
  ultimately show False by simp
qed

text \<open>Mapping and unmapping a block restores the address space.\<close>

lemma maps_unmap:
  assumes "inv s" "maps s p n ptr s'"
  obtains s'' where "unmap ptr s' = Some s''" "inv s''" "trans s'' = trans s" "blocks s'' = blocks s"
proof -
  note m = maps_law [OF assms]
  have "inv s'" "ptr \<noteq> 0" "(addr ptr, n) \<in> blocks s'" using m by auto
  from unmap_law [OF this] obtain s'' where u: "unmap ptr s' = Some s''" "inv s''"
    "blocks s'' = blocks s' - {(addr ptr, n)}"
    "\<forall>x. trans s'' x = (if addr ptr \<le> x \<and> x < addr ptr + n then None else trans s' x)"
    by blast
  have "trans s'' = trans s" using u(4) m by (auto simp: fun_eq_iff)
  moreover have "blocks s'' = blocks s" using u(3) m maps_fresh [OF assms] by auto
  ultimately show thesis using that u by blast
qed

text \<open>Sequences. A request is a physical address, a size and the address that the driver returned.\<close>

fun map_seq :: "'s \<Rightarrow> (nat \<times> nat \<times> nat) list \<Rightarrow> 's \<Rightarrow> bool" where
  "map_seq s [] s' = (s' = s)"
| "map_seq s ((p, n, ptr) # ms) s' = (\<exists>s1. maps s p n ptr s1 \<and> map_seq s1 ms s')"

fun unmap_seq :: "nat list \<Rightarrow> 's \<Rightarrow> 's option" where
  "unmap_seq [] s = Some s"
| "unmap_seq (ptr # ptrs) s = Option.bind (unmap ptr s) (unmap_seq ptrs)"

lemma map_seq_append: "map_seq s (ms @ ns) s' \<longleftrightarrow> (\<exists>s1. map_seq s ms s1 \<and> map_seq s1 ns s')"
  by (induction s ms s' rule: map_seq.induct) auto

definition in_ranges :: "(nat \<times> nat \<times> nat) list \<Rightarrow> nat \<Rightarrow> bool" where
  "in_ranges ms x \<longleftrightarrow> (\<exists>(p, n, ptr)\<in>set ms. addr ptr \<le> x \<and> x < addr ptr + n)"

lemma in_range_simps [simp]:
  "\<not> in_ranges [] x" "in_ranges ((p, n, ptr) # ms) x \<longleftrightarrow> addr ptr \<le> x \<and> x < addr ptr + n \<or> in_ranges ms x"
  by (auto simp: in_ranges_def)

lemma in_rangesI: "(p, n, ptr) \<in> set ms \<Longrightarrow> addr ptr \<le> x \<Longrightarrow> x < addr ptr + n \<Longrightarrow> in_ranges ms x"
  by (auto simp: in_ranges_def)

lemma map_seq_inv: "inv s \<Longrightarrow> map_seq s ms s' \<Longrightarrow> inv s'"
proof (induction ms arbitrary: s)
  case (Cons r ms)
  obtain p n ptr where [simp]: "r = (p, n, ptr)" by (cases r)
  from Cons.prems obtain s1 where "maps s p n ptr s1" "map_seq s1 ms s'" by auto
  then show ?case using Cons.IH [of s1] maps_law [OF Cons.prems(1)] by blast
qed simp

lemma map_seq_trans:
  assumes "inv s" "map_seq s ms s'"
  shows "(in_ranges ms x \<longrightarrow> trans s x = None) \<and> (\<not> in_ranges ms x \<longrightarrow> trans s' x = trans s x)"
  using assms
proof (induction ms arbitrary: s)
  case (Cons r ms)
  obtain p n ptr where r [simp]: "r = (p, n, ptr)" by (cases r)
  from Cons.prems obtain s1 where s1: "maps s p n ptr s1" "map_seq s1 ms s'" by auto
  note m = maps_law [OF Cons.prems(1) s1(1)]
  have "(in_ranges ms x \<longrightarrow> trans s1 x = None) \<and> (\<not> in_ranges ms x \<longrightarrow> trans s' x = trans s1 x)"
    using Cons.IH [of s1] m s1(2) by blast
  moreover have "trans s1 x = (if addr ptr \<le> x \<and> x < addr ptr + n then Some (p + (x - addr ptr)) else trans s x)"
    and "addr ptr \<le> x \<and> x < addr ptr + n \<longrightarrow> trans s x = None"
    using m by blast+
  ultimately show ?case by (auto split: if_splits)
qed simp

lemma map_seq_member:
  assumes "inv s" "map_seq s ms s'" "(p, n, ptr) \<in> set ms"
  shows "ptr \<noteq> 0 \<and> 0 < n \<and> (addr ptr, n) \<in> blocks s' \<and>
    (\<forall>x. addr ptr \<le> x \<longrightarrow> x < addr ptr + n \<longrightarrow> trans s' x = Some (p + (x - addr ptr)))"
  using assms
proof (induction ms arbitrary: s)
  case (Cons r ms)
  obtain q k a where r [simp]: "r = (q, k, a)" by (cases r)
  from Cons.prems obtain s1 where s1: "maps s q k a s1" "map_seq s1 ms s'" by auto
  note m = maps_law [OF Cons.prems(1) s1(1)]
  have i: "inv s1" using m by blast
  show ?case
  proof (cases "(p, n, ptr) \<in> set ms")
    case False
    then have h: "p = q" "n = k" "ptr = a" using Cons.prems(3) by simp_all
    have "trans s1 x = Some (p + (x - addr ptr))" if "addr ptr \<le> x" "x < addr ptr + n" for x
      using m h that by simp
    moreover have "trans s1 x \<noteq> None \<Longrightarrow> trans s' x = trans s1 x" for x using map_seq_trans [OF i s1(2), of x] by auto
    moreover have "(addr ptr, n) \<in> blocks s'"
    proof -
      have "blocks s1 \<subseteq> blocks s'" using s1(2) i
      proof (induction ms arbitrary: s1)
        case (Cons t ms)
        then show ?case using maps_law by (cases t) fastforce
      qed simp
      then show ?thesis using m h by auto
    qed
    ultimately show ?thesis using m h by simp
  qed (use Cons.IH [OF i s1(2)] in blast)
qed simp

lemma map_seq_blocks:
  assumes "inv s" "map_seq s ms s'"
  shows "blocks s' = blocks s \<union> {(addr ptr, n) | p n ptr. (p, n, ptr) \<in> set ms}"
  using assms
proof (induction ms arbitrary: s)
  case (Cons r ms)
  obtain p n ptr where r [simp]: "r = (p, n, ptr)" by (cases r)
  from Cons.prems obtain s1 where s1: "maps s p n ptr s1" "map_seq s1 ms s'" by auto
  note m = maps_law [OF Cons.prems(1) s1(1)]
  have "blocks s' = blocks s1 \<union> {(addr ptr, n) | p n ptr. (p, n, ptr) \<in> set ms}"
    using Cons.IH [of s1] m s1(2) by blast
  with m show ?case by auto
qed simp

lemma map_seq_distinct:
  assumes "inv s" "map_seq s ms s'"
  shows "distinct (map (\<lambda>(p, n, ptr). addr ptr) ms)"
  using assms
proof (induction ms arbitrary: s)
  case (Cons r ms)
  obtain p n ptr where r [simp]: "r = (p, n, ptr)" by (cases r)
  from Cons.prems obtain s1 where s1: "maps s p n ptr s1" "map_seq s1 ms s'" by auto
  note m = maps_law [OF Cons.prems(1) s1(1)]
  have i: "inv s1" using m by blast
  have t: "trans s1 (addr ptr) \<noteq> None" using m by simp
  have "addr a \<noteq> addr ptr" if "(q, k, a) \<in> set ms" for q k a
  proof
    assume e: "addr a = addr ptr"
    have "0 < k" using map_seq_member [OF i s1(2) that] by blast
    then have "in_ranges ms (addr ptr)" using in_rangesI [OF that, of "addr ptr"] e by simp
    then show False using map_seq_trans [OF i s1(2), of "addr ptr"] t by simp
  qed
  then show ?case using Cons.IH [OF i s1(2)] by force
qed simp

text \<open>Giving back mapped blocks in any order takes exactly their addresses away.\<close>

lemma unmap_seq_effect:
  assumes "inv s" "\<forall>(p, n, ptr)\<in>set ms. ptr \<noteq> 0 \<and> (addr ptr, n) \<in> blocks s" "distinct (map (\<lambda>(p, n, ptr). addr ptr) ms)"
  obtains s' where "unmap_seq (map (\<lambda>(p, n, ptr). ptr) ms) s = Some s'" "inv s'"
    "blocks s' = blocks s - {(addr ptr, n) | p n ptr. (p, n, ptr) \<in> set ms}"
    "\<And>x. trans s' x = (if in_ranges ms x then None else trans s x)"
  using assms
proof (induction ms arbitrary: s thesis)
  case Nil
  then show ?case by simp
next
  case (Cons r ms)
  obtain p n ptr where r [simp]: "r = (p, n, ptr)" by (cases r)
  have "ptr \<noteq> 0" "(addr ptr, n) \<in> blocks s" using Cons.prems(3) by simp_all
  from unmap_law [OF Cons.prems(2) this] obtain s1 where s1: "unmap ptr s = Some s1" "inv s1"
      "blocks s1 = blocks s - {(addr ptr, n)}"
      "\<forall>x. trans s1 x = (if addr ptr \<le> x \<and> x < addr ptr + n then None else trans s x)" by blast
  have "a \<noteq> 0 \<and> (addr a, k) \<in> blocks s1" if "(q, k, a) \<in> set ms" for q k a
  proof -
    have "a \<noteq> 0 \<and> (addr a, k) \<in> blocks s" using Cons.prems(3) that by auto
    moreover have "addr a \<noteq> addr ptr" using Cons.prems(4) that by force
    ultimately show ?thesis using s1(3) by simp
  qed
  then have "\<forall>(q, k, a)\<in>set ms. a \<noteq> 0 \<and> (addr a, k) \<in> blocks s1" by blast
  moreover have "distinct (map (\<lambda>(p, n, ptr). addr ptr) ms)" using Cons.prems(4) by simp
  ultimately obtain s' where s': "unmap_seq (map (\<lambda>(p, n, ptr). ptr) ms) s1 = Some s'" "inv s'"
    "blocks s' = blocks s1 - {(addr ptr, n) | p n ptr. (p, n, ptr) \<in> set ms}"
    "\<And>x. trans s' x = (if in_ranges ms x then None else trans s1 x)"
    using Cons.IH [OF _ s1(2)] by blast
  have "unmap_seq (map (\<lambda>(p, n, ptr). ptr) (r # ms)) s = Some s'" using s1(1) s'(1) by simp
  moreover have "blocks s' = blocks s - {(addr ptr, n) | p n ptr. (p, n, ptr) \<in> set (r # ms)}"
    unfolding s'(3) s1(3) by auto
  moreover have "trans s' x = (if in_ranges (r # ms) x then None else trans s x)" for x
    using s'(4) s1(4) by simp
  ultimately show ?case using Cons.prems(1) s'(2) by blast
qed

text \<open>A client that maps several blocks and gives them back leaves the address space as it was, also when
  other calls that change neither the translation nor the blocks come in between.\<close>

lemma map_seq_unmap_seq:
  assumes "inv s" "map_seq s ms s1" and s': "inv s'" "trans s' = trans s1" "blocks s' = blocks s1"
  obtains s'' where "unmap_seq (map (\<lambda>(p, n, ptr). ptr) ms) s' = Some s''" "inv s''" "trans s'' = trans s" "blocks s'' = blocks s"
proof -
  have "\<forall>(p, n, ptr)\<in>set ms. ptr \<noteq> 0 \<and> (addr ptr, n) \<in> blocks s'"
    using map_seq_member [OF assms(1,2)] unfolding s' by fastforce
  then obtain s'' where u: "unmap_seq (map (\<lambda>(p, n, ptr). ptr) ms) s' = Some s''" "inv s''"
    "blocks s'' = blocks s' - {(addr ptr, n) | p n ptr. (p, n, ptr) \<in> set ms}"
    "\<And>x. trans s'' x = (if in_ranges ms x then None else trans s' x)"
    using unmap_seq_effect [OF s'(1) _ map_seq_distinct [OF assms(1,2)]] by blast
  have "trans s'' x = trans s x" for x using u(4) map_seq_trans [OF assms(1,2), of x] s'(2) by auto
  moreover have "(addr ptr, n) \<notin> blocks s" if "(p, n, ptr) \<in> set ms" for p n ptr
  proof
    assume "(addr ptr, n) \<in> blocks s"
    then have "trans s (addr ptr) \<noteq> None" using block_law [OF assms(1)] by force
    moreover have "0 < n" using map_seq_member [OF assms(1,2) that] by blast
    then have "in_ranges ms (addr ptr)" using in_rangesI [OF that, of "addr ptr"] by simp
    ultimately show False using map_seq_trans [OF assms(1,2), of "addr ptr"] by simp
  qed
  then have "blocks s'' = blocks s" using u(3) map_seq_blocks [OF assms(1,2)] s'(3) by auto
  ultimately show thesis using that u by blast
qed

end

end
