(* ===== verification/Mmu_Spec.thy ===== *)
theory Mmu_Spec
  imports Mmu_Steps Address_Space
begin

section \<open>What the memory mapping driver promises\<close>

text \<open>
  Initialisation on the ESP32-C3 establishes the invariant; \<open>mmu_reach\<close> are the states that mapping and
  unmapping calls lead to. The contract of an address space that clients rely on is the locale
  \<open>address_space\<close>, interpreted on the driver.
\<close>

subsection \<open>Initialisation\<close>

definition reserved_bytes :: "nat \<Rightarrow> nat \<Rightarrow> nat" where
  "reserved_bytes a b =
     ALIGN_UP_BY (sz_add (sz_sub b a) (sz_sub a (ALIGN_DOWN_BY a CONFIG_MMU_PAGE_SIZE))) CONFIG_MMU_PAGE_SIZE"

definition reserved_total :: "linker_symbols \<Rightarrow> nat" where
  "reserved_total lk = reserved_bytes (instruction_reserved_start lk) (instruction_reserved_end lk)
     + reserved_bytes (rodata_reserved_start lk) (rodata_reserved_end lk)"

definition c3_region :: "nat \<Rightarrow> mem_region_t" where
  "c3_region f = \<lparr>bus_id = 9, region_start = 0, region_end = LINEAR_END, region_size = LINEAR_END, free_head = f,
     max_slot_size = LINEAR_END - f, region_caps = 27, targets = 1, mem_block_head = []\<rparr>"

lemma hw_region_c3: "map hw_region g_mmu_mem_regions = [c3_region 0]"
  by (simp add: g_mmu_mem_regions_def hw_region_def c3_region_def mmu_consts CACHE_BUS_IBUS0_def CACHE_BUS_DBUS0_def)

lemma get_bus_cases: "cache_ll_l1_get_bus v n = Some m \<Longrightarrow> m = 1 \<or> m = 8"
  by (auto simp: cache_ll_l1_get_bus_def CACHE_BUS_IBUS0_def CACHE_BUS_DBUS0_def Let_def split: if_splits)

lemma reserve_between_c3:
  assumes "reserve_between a b [c3_region f] = Some rs" "f + reserved_bytes a b \<le> LINEAR_END"
  shows "rs = [c3_region (f + reserved_bytes a b)]"
proof -
  obtain m where m: "cache_ll_l1_get_bus a (reserved_bytes a b) = Some m" "rs = reserve_loop m (reserved_bytes a b) [c3_region f]"
    using assms(1) unfolding reserve_between_def Let_def reserved_bytes_def [symmetric]
    by (auto simp: bind_eq_Some_conv split: if_splits)
  have bus: "m AND 9 \<noteq> 0" using get_bus_cases [OF m(1)] by auto
  show ?thesis
  proof (cases "LINEAR_END \<le> reserved_bytes a b")
    case True
    then show ?thesis using assms(2) bus by (simp add: m(2) c3_region_def)
  next
    case False
    then show ?thesis using assms(2) bus by (simp add: m(2) c3_region_def sz_simps)
  qed
qed

lemma esp_mmu_map_init_c3:
  assumes "esp_mmu_map_init lk g_mmu_mem_regions = Some rs" "reserved_total lk \<le> LINEAR_END"
  shows "rs = [c3_region (reserved_total lk)]"
proof -
  obtain hw1 hw2 where h: "s_reserve_irom_region lk [c3_region 0] = Some hw1" "s_reserve_drom_region lk hw1 = Some hw2"
    and rs: "rs = map (\<lambda>r. r\<lparr>mem_block_head := []\<rparr>) (filter (\<lambda>r. region_caps r \<noteq> MEM_REGION_MERGED) (coalesce hw2))"
    using assms(1) unfolding esp_mmu_map_init_def hw_region_c3 by (auto simp: Let_def bind_eq_Some_conv split: if_splits)
  have "hw1 = [c3_region (reserved_bytes (instruction_reserved_start lk) (instruction_reserved_end lk))]"
    using reserve_between_c3 [OF h(1) [unfolded s_reserve_irom_region_def]] assms(2) by (simp add: reserved_total_def)
  then have "hw2 = [c3_region (reserved_total lk)]"
    using reserve_between_c3 [of _ _ _ hw2] h(2) assms(2) by (simp add: s_reserve_drom_region_def reserved_total_def)
  then show ?thesis by (simp add: rs c3_region_def MEM_REGION_MERGED_def)
qed

text \<open>After start-up: the pages that are not reserved for the application are invalid in the table.\<close>

definition start_state :: "mem_region_t list \<Rightarrow> mmu_table \<Rightarrow> mmu_st" where
  "start_state rs t = \<lparr>mem_regions = rs, mmu_tab = t, enabled_buses = 0, invalidated = []\<rparr>"

definition boot_table :: "linker_symbols \<Rightarrow> mmu_table \<Rightarrow> bool" where
  "boot_table lk t \<longleftrightarrow> length t = SOC_MMU_ENTRY_NUM \<and>
     (\<forall>i<SOC_MMU_ENTRY_NUM. reserved_total lk \<le> i * PAGE \<longrightarrow> bit (t ! i) 8)"

lemma start_state_inv:
  assumes "esp_mmu_map_init lk g_mmu_mem_regions = Some rs" "reserved_total lk \<le> LINEAR_END" "boot_table lk t"
  shows "mmu_inv (start_state rs t)"
proof -
  have r: "rs = [c3_region (reserved_total lk)]" by (rule esp_mmu_map_init_c3) (use assms in simp_all)
  have a: "reserved_total lk mod PAGE = 0"
    unfolding reserved_total_def reserved_bytes_def by (simp add: mod_add_eq [symmetric])
  have "translate t x = None" if x: "reserved_total lk \<le> x" "x < LINEAR_END" for x
  proof -
    obtain e where e: "reserved_total lk = e * PAGE" using page_multiple [OF a] by blast
    then have "e \<le> x div PAGE" using x(1) by (simp add: less_eq_div_iff_mult_less_eq)
    then have "reserved_total lk \<le> x div PAGE * PAGE" using e by simp
    then have "bit (t ! (x div PAGE)) 8" using assms(3) entry_bound [OF x(2)] unfolding boot_table_def by blast
    then show ?thesis by (simp add: translate_def)
  qed
  moreover have "region_ok (c3_region (reserved_total lk))"
    using assms(2) a by (simp add: region_ok_def blocks_ok_def c3_region_def)
  ultimately show ?thesis
    using assms(3) by (simp add: mmu_inv_def start_state_def r boot_table_def managed_def c3_region_def lookup_def)
qed

subsection \<open>Reachable states\<close>

text \<open>Calls whose size rounds to zero, and allocations that fail after the first dummy block of a region
  was made, are left out: they damage the list of blocks (see below).\<close>

definition clean_alloc :: "alloc_results \<Rightarrow> bool" where
  "clean_alloc al \<longleftrightarrow> (head_ok al \<longrightarrow> tail_ok al \<and> block_ok al)"

inductive mmu_reach :: "mmu_st \<Rightarrow> bool" where
  start: "esp_mmu_map_init lk g_mmu_mem_regions = Some rs \<Longrightarrow> reserved_total lk \<le> LINEAR_END \<Longrightarrow> boot_table lk t \<Longrightarrow>
    mmu_reach (start_state rs t)"
| map: "mmu_reach s \<Longrightarrow> clean_alloc al \<Longrightarrow> 0 < ALIGN_UP_BY n CONFIG_MMU_PAGE_SIZE \<Longrightarrow>
    esp_mmu_map al p n tg caps flgs s = Some (e, ptr, s') \<Longrightarrow> mmu_reach s'"
| unmap: "mmu_reach s \<Longrightarrow> esp_mmu_unmap ptr s = Some (e, s') \<Longrightarrow> mmu_reach s'"

lemma unmap_keeps:
  assumes "mmu_inv s" "esp_mmu_unmap ptr s = Some (e, s')"
  shows "mmu_inv s' \<and> same_space s s'"
proof (cases "ptr \<noteq> 0 \<and> (\<exists>b\<in>set (all_blocks s). laddr_start b = mmu_ll_vaddr_to_laddr ptr)")
  case True
  then obtain b where "b \<in> set (all_blocks s)" "mmu_ll_vaddr_to_laddr ptr = laddr_start b" "ptr \<noteq> 0" by auto
  then show ?thesis using esp_mmu_unmap_block [OF assms(1), of b ptr] assms(2) by auto
next
  case False
  then show ?thesis
    using esp_mmu_unmap_other [OF assms(1), of ptr] assms by (auto simp: esp_mmu_unmap_def)
qed

lemma mmu_reach_inv: "mmu_reach s \<Longrightarrow> mmu_inv s"
proof (induction rule: mmu_reach.induct)
  case (start lk rs t)
  then show ?case by (rule start_state_inv)
next
  case (map s al n p tg caps flgs e ptr s')
  then show ?case using esp_mmu_map_effect [of s al _ n p tg caps flgs e ptr s'] by (simp add: clean_alloc_def)
next
  case (unmap s ptr e s')
  then show ?case using unmap_keeps by blast
qed

subsection \<open>The driver is an address space\<close>

definition mmu_trans :: "mmu_st \<Rightarrow> nat \<Rightarrow> nat option" where
  "mmu_trans s x = (if x < LINEAR_END then translate (mmu_tab s) x else None)"

definition mmu_blocks :: "mmu_st \<Rightarrow> (nat \<times> nat) set" where
  "mmu_blocks s = (\<lambda>b. (laddr_start b, block_size b)) ` set (all_blocks s)"

definition mmu_maps :: "mmu_st \<Rightarrow> nat \<Rightarrow> nat \<Rightarrow> nat \<Rightarrow> mmu_st \<Rightarrow> bool" where
  "mmu_maps s p n ptr s' \<longleftrightarrow> (\<exists>al k caps flgs. clean_alloc al \<and> n = ALIGN_UP_BY k CONFIG_MMU_PAGE_SIZE \<and> 0 < n \<and>
     esp_mmu_map al p k MMU_TARGET_FLASH0 caps flgs s = Some (ESP_OK, Some ptr, s'))"

definition mmu_unmap :: "nat \<Rightarrow> mmu_st \<Rightarrow> mmu_st option" where
  "mmu_unmap ptr s = (case esp_mmu_unmap ptr s of Some (e, s') \<Rightarrow> if e = ESP_OK then Some s' else None | None \<Rightarrow> None)"

lemma vaddr_of_laddr:
  assumes "l < LINEAR_END"
  shows "vaddr_base type + l \<noteq> 0" "mmu_ll_vaddr_to_laddr (vaddr_base type + l) = l"
  using assms vaddr_base_pos [of type] by (simp_all add: vaddr_to_laddr_mod)

lemma mmu_block_law:
  assumes "mmu_inv s" "(l, n) \<in> mmu_blocks s"
  shows "0 < n \<and> (\<forall>x. l \<le> x \<longrightarrow> x < l + n \<longrightarrow> mmu_trans s x \<noteq> None)"
proof -
  obtain b where b: "b \<in> set (all_blocks s)" "l = laddr_start b" "n = block_size b" using assms(2) by (auto simp: mmu_blocks_def)
  note t = block_translates [OF assms(1) b(1)]
  have e: "laddr_end b = l + n" "0 < n" using t(1) b by (simp_all add: mapped_block_def)
  have "mmu_trans s x \<noteq> None" if "l \<le> x" "x < l + n" for x
    using t(2,3) e b that by (simp add: mmu_trans_def)
  with e show ?thesis by blast
qed

lemma new_block_fields [simp]:
  "laddr_start (new_mem_block l sz caps p tg) = l" "block_size (new_mem_block l sz caps p tg) = sz"
  "paddr_start (new_mem_block l sz caps p tg) = p" "block_caps (new_mem_block l sz caps p tg) = caps"
  by (simp_all add: new_mem_block_def zero_block_def)

lemma mmu_maps_law:
  assumes "mmu_inv s" "mmu_maps s p n ptr s'"
  shows "ptr \<noteq> 0 \<and> 0 < n \<and> mmu_inv s' \<and> mmu_blocks s' = insert (mmu_ll_vaddr_to_laddr ptr, n) (mmu_blocks s) \<and>
    (\<forall>x. mmu_ll_vaddr_to_laddr ptr \<le> x \<longrightarrow> x < mmu_ll_vaddr_to_laddr ptr + n \<longrightarrow> mmu_trans s x = None) \<and>
    (\<forall>x. mmu_trans s' x = (if mmu_ll_vaddr_to_laddr ptr \<le> x \<and> x < mmu_ll_vaddr_to_laddr ptr + n
       then Some (p + (x - mmu_ll_vaddr_to_laddr ptr)) else mmu_trans s x))"
proof -
  obtain al k caps flgs where m: "clean_alloc al" "n = ALIGN_UP_BY k CONFIG_MMU_PAGE_SIZE" "0 < n"
     "esp_mmu_map al p k MMU_TARGET_FLASH0 caps flgs s = Some (ESP_OK, Some ptr, s')"
    using assms(2) by (auto simp: mmu_maps_def)
  obtain l where l: "ptr = vaddr_base (vaddr_type_of caps) + l" "l + n \<le> LINEAR_END"
    and a: "adds_block s (new_mem_block l n caps p MMU_TARGET_FLASH0) s'" and inv: "mmu_inv s'"
    using esp_mmu_map_effect [OF assms(1) _ m(2,3,4)] m(1) by (auto simp: clean_alloc_def)
  let ?b = "new_mem_block l n caps p MMU_TARGET_FLASH0"
  have e: "laddr_end ?b = l + n" using a by (simp add: adds_block_def mapped_block_def)
  have v: "ptr \<noteq> 0" "mmu_ll_vaddr_to_laddr ptr = l" using vaddr_of_laddr [of l] l m(3) by simp_all
  have "set (all_blocks s') = insert ?b (set (all_blocks s))"
    using a unfolding adds_block_def by (metis set_mset_mset set_mset_add_mset_insert)
  then have "mmu_blocks s' = insert (l, n) (mmu_blocks s)" by (simp add: mmu_blocks_def)
  moreover have "mmu_trans s x = None" if "l \<le> x" "x < l + n" for x
    using a e that by (simp add: adds_block_def mmu_trans_def)
  moreover have "mmu_trans s' x = (if l \<le> x \<and> x < l + n then Some (p + (x - l)) else mmu_trans s x)" for x
    using a e l by (simp add: adds_block_def mmu_trans_def)
  ultimately show ?thesis using inv m(3) v by simp
qed

lemma mmu_unmap_law:
  assumes "mmu_inv s" "ptr \<noteq> 0" "(mmu_ll_vaddr_to_laddr ptr, n) \<in> mmu_blocks s"
  shows "\<exists>s'. mmu_unmap ptr s = Some s' \<and> mmu_inv s' \<and> mmu_blocks s' = mmu_blocks s - {(mmu_ll_vaddr_to_laddr ptr, n)} \<and>
    (\<forall>x. mmu_trans s' x = (if mmu_ll_vaddr_to_laddr ptr \<le> x \<and> x < mmu_ll_vaddr_to_laddr ptr + n
       then None else mmu_trans s x))"
proof -
  obtain b where b: "b \<in> set (all_blocks s)" "mmu_ll_vaddr_to_laddr ptr = laddr_start b" "n = block_size b"
    using assms(3) by (auto simp: mmu_blocks_def)
  obtain s' where u: "esp_mmu_unmap ptr s = Some (ESP_OK, s')" "mmu_inv s'" "drops_block s b s'"
    using esp_mmu_unmap_block [OF assms(1) b(1) assms(2) b(2)] by blast
  have mb: "mapped_block b" "laddr_end b \<le> LINEAR_END" using block_translates [OF assms(1) b(1)] by blast+
  then have e: "laddr_end b = laddr_start b + n" "0 < n" using b(3) by (simp_all add: mapped_block_def)
  have tr: "mmu_trans s' x = (if laddr_start b \<le> x \<and> x < laddr_start b + n then None else mmu_trans s x)" for x
    using u(3) e mb(2) by (simp add: drops_block_def mmu_trans_def)
  have "set (all_blocks s) = insert b (set (all_blocks s'))"
    using u(3) unfolding drops_block_def by (metis set_mset_mset set_mset_add_mset_insert)
  moreover have "(laddr_start b, n) \<notin> mmu_blocks s'"
    using mmu_block_law [OF u(2), of "laddr_start b" n] tr [of "laddr_start b"] e by fastforce
  ultimately have "mmu_blocks s' = mmu_blocks s - {(laddr_start b, n)}" using b(3) by (auto simp: mmu_blocks_def)
  then show ?thesis using u tr b(2) by (simp add: mmu_unmap_def)
qed

interpretation mmu: address_space mmu_inv mmu_trans mmu_blocks mmu_ll_vaddr_to_laddr mmu_maps mmu_unmap
  by unfold_locales (use mmu_block_law mmu_maps_law mmu_unmap_law in blast)+

text \<open>The query for the physical address reads off the translation.\<close>

lemma esp_mmu_vaddr_to_paddr_trans:
  assumes "l < LINEAR_END"
  shows "esp_mmu_vaddr_to_paddr (vaddr_base type + l) s =
    Some (case mmu_trans s l of None \<Rightarrow> (ESP_ERR_NOT_FOUND, None) | Some p \<Rightarrow> (ESP_OK, Some (p, MMU_TARGET_FLASH0)))"
  using assms vaddr_of_laddr [OF assms, of type] valid_vaddr_region [of 1 l type]
  by (auto simp: esp_mmu_vaddr_to_paddr_def vaddr_to_paddr_translate mmu_trans_def split: option.splits)

lemma esp_mmu_vaddr_to_paddr_cong:
  assumes "mmu_trans s' = mmu_trans s" "v < SIZE_LIM"
  shows "esp_mmu_vaddr_to_paddr v s' = esp_mmu_vaddr_to_paddr v s"
proof (cases "mmu_hal_check_valid_ext_vaddr_region v 1 (MMU_VADDR_DATA OR MMU_VADDR_INSTRUCTION)")
  case True
  then obtain type l where "l < LINEAR_END" "v = vaddr_base type + l" using valid_vaddr_iff [OF assms(2)] by blast
  then show ?thesis using assms(1) by (simp add: esp_mmu_vaddr_to_paddr_trans)
qed (simp add: esp_mmu_vaddr_to_paddr_def)

subsection \<open>Properties of reachable states\<close>

lemma mmu_reach_one_region: "mmu_reach s \<Longrightarrow> \<exists>r. mem_regions s = [r]"
proof -
  assume "mmu_reach s"
  then have "length (mem_regions s) = 1"
  proof (induction rule: mmu_reach.induct)
    case (start lk rs t)
    then show ?case using esp_mmu_map_init_c3 [of lk rs] by (simp add: start_state_def)
  next
    case (map s al n p tg caps flgs e ptr s')
    then have "same_space s s'"
      using esp_mmu_map_effect [of s al _ n p tg caps flgs e ptr s'] mmu_reach_inv by (simp add: clean_alloc_def)
    then show ?case using map same_space_managed(1) by simp
  next
    case (unmap s ptr e s')
    then show ?case using unmap_keeps [OF mmu_reach_inv] same_space_managed(1) by metis
  qed
  then show ?thesis by (simp add: length_Suc_conv)
qed

lemma blocks_ok_inner:
  assumes "blocks_ok r" "free_head r \<le> region_end r"
  shows "block_chain (free_head r) (inner r)" "end_of (free_head r) (inner r) \<le> region_end r"
    "max_slot_size r = max (max_gap (free_head r) (inner r)) (region_end r - end_of (free_head r) (inner r))"
proof -
  have "block_chain (free_head r) (inner r) \<and> end_of (free_head r) (inner r) \<le> region_end r \<and>
    max_slot_size r = max (max_gap (free_head r) (inner r)) (region_end r - end_of (free_head r) (inner r))"
    using assms(1)
  proof (cases rule: blocks_ok_cases)
    case 1
    then show ?thesis using assms(2) by (simp add: inner_def)
  next
    case (2 h bs t)
    then show ?thesis using inner_in_use [OF 2] by (auto simp: in_use_def dummy_at_def)
  qed
  then show "block_chain (free_head r) (inner r)" "end_of (free_head r) (inner r) \<le> region_end r"
    "max_slot_size r = max (max_gap (free_head r) (inner r)) (region_end r - end_of (free_head r) (inner r))"
    by blast+
qed

lemma block_query:
  assumes "mmu_inv s" "b \<in> set (all_blocks s)" "off < block_size b"
  shows "esp_mmu_vaddr_to_paddr (vaddr_start b + off) s = Some (ESP_OK, Some (paddr_start b + off, MMU_TARGET_FLASH0))"
proof -
  note t = block_translates [OF assms(1,2)]
  let ?l = "laddr_start b + off"
  have l: "laddr_start b \<le> ?l" "?l < laddr_end b" and v: "vaddr_start b = vaddr_base (vaddr_type_of (block_caps b)) + laddr_start b"
    using t(1) assms(3) by (simp_all add: mapped_block_def)
  have "?l < LINEAR_END" using l t(2) by linarith
  then show ?thesis
    using t(3) [OF l] by (simp add: v add.assoc esp_mmu_vaddr_to_paddr_trans mmu_trans_def)
qed

text \<open>
  Claim C35. Whatever was mapped and unmapped before, the MMU translates the addresses of the mapped
  blocks, each to its physical address, and no other address the driver manages. In every state
  that mapping and unmapping calls lead to from start-up, a query for an address of a mapped block returns the
  physical address at the same offset; a managed address outside of the blocks is not mapped; the
  blocks of a region follow each other without overlap between the first free address and the end;
  and the recorded largest slot is the largest gap between them.
\<close>

theorem mmu_translates_blocks:
  assumes "mmu_reach s"
  shows "(\<forall>b off. b \<in> set (all_blocks s) \<longrightarrow> off < block_size b \<longrightarrow>
      esp_mmu_vaddr_to_paddr (vaddr_start b + off) s = Some (ESP_OK, Some (paddr_start b + off, MMU_TARGET_FLASH0)))
    \<and> (\<forall>r x type. r \<in> set (mem_regions s) \<longrightarrow> x \<in> managed r \<longrightarrow>
      (\<forall>b\<in>set (all_blocks s). \<not> (laddr_start b \<le> x \<and> x < laddr_end b)) \<longrightarrow>
      esp_mmu_vaddr_to_paddr (vaddr_base type + x) s = Some (ESP_ERR_NOT_FOUND, None))
    \<and> (\<forall>r\<in>set (mem_regions s).
      block_chain (free_head r) (inner r) \<and> end_of (free_head r) (inner r) \<le> region_end r \<and>
      max_slot_size r = max (max_gap (free_head r) (inner r)) (region_end r - end_of (free_head r) (inner r)))"
proof -
  note inv = mmu_reach_inv [OF assms]
  have "esp_mmu_vaddr_to_paddr (vaddr_start b + off) s = Some (ESP_OK, Some (paddr_start b + off, MMU_TARGET_FLASH0))"
    if "b \<in> set (all_blocks s)" "off < block_size b" for b off
    using block_query [OF inv that] .
  moreover have "esp_mmu_vaddr_to_paddr (vaddr_base type + x) s = Some (ESP_ERR_NOT_FOUND, None)"
    if r: "r \<in> set (mem_regions s)" "x \<in> managed r" "\<forall>b\<in>set (all_blocks s). \<not> (laddr_start b \<le> x \<and> x < laddr_end b)"
    for r x type
  proof -
    have "x < LINEAR_END" using inv r by (auto simp: mmu_inv_def region_ok_def managed_def)
    moreover have "translate (mmu_tab s) x = None" using unmapped_untranslated [OF inv r(1,2)] r(3) by blast
    ultimately show ?thesis by (simp add: esp_mmu_vaddr_to_paddr_trans mmu_trans_def)
  qed
  moreover have "block_chain (free_head r) (inner r) \<and> end_of (free_head r) (inner r) \<le> region_end r \<and>
      max_slot_size r = max (max_gap (free_head r) (inner r)) (region_end r - end_of (free_head r) (inner r))"
    if "r \<in> set (mem_regions s)" for r
    using inv that blocks_ok_inner [of r] by (auto simp: mmu_inv_def region_ok_def)
  ultimately show ?thesis by blast
qed

text \<open>
  Claim C36. Mapping and unmapping are inverse. When a mapping call in a reachable state succeeds, every
  address from the returned pointer on, up to the rounded size, translates to the physical address at the
  same offset. Unmapping the pointer then succeeds, and afterwards every query, for whatever
  address, answers as before the mapping.
\<close>

theorem map_unmap_roundtrip:
  assumes "mmu_reach s" "clean_alloc al" "0 < ALIGN_UP_BY n CONFIG_MMU_PAGE_SIZE"
    and "esp_mmu_map al p n tg caps flgs s = Some (ESP_OK, Some ptr, s')"
  shows "(\<forall>off. off < ALIGN_UP_BY n CONFIG_MMU_PAGE_SIZE \<longrightarrow>
      esp_mmu_vaddr_to_paddr (ptr + off) s' = Some (ESP_OK, Some (p + off, MMU_TARGET_FLASH0)))
    \<and> (\<exists>s''. esp_mmu_unmap ptr s' = Some (ESP_OK, s'') \<and>
         (\<forall>v. v < SIZE_LIM \<longrightarrow> esp_mmu_vaddr_to_paddr v s'' = esp_mmu_vaddr_to_paddr v s))"
proof -
  let ?n = "ALIGN_UP_BY n CONFIG_MMU_PAGE_SIZE"
  note inv = mmu_reach_inv [OF assms(1)]
  note e = esp_mmu_map_effect [OF inv _ refl assms(3,4)]
  have tg: "tg = MMU_TARGET_FLASH0" using e assms(2) by (simp add: clean_alloc_def)
  obtain l where l: "ptr = vaddr_base (vaddr_type_of caps) + l" "l + ?n \<le> LINEAR_END"
    using e assms(2) by (auto simp: clean_alloc_def)
  have m: "mmu_maps s p ?n ptr s'" using assms tg unfolding mmu_maps_def by blast
  have lv: "mmu_ll_vaddr_to_laddr ptr = l" using vaddr_of_laddr(2) [of l] l assms(3) by simp
  have "esp_mmu_vaddr_to_paddr (ptr + off) s' = Some (ESP_OK, Some (p + off, MMU_TARGET_FLASH0))" if "off < ?n" for off
  proof -
    have "mmu_trans s' (l + off) = Some (p + off)" using mmu_maps_law [OF inv m] lv that by simp
    moreover have "l + off < LINEAR_END" using l(2) that by linarith
    ultimately show ?thesis by (simp add: l(1) add.assoc esp_mmu_vaddr_to_paddr_trans)
  qed
  moreover obtain s'' where u: "mmu_unmap ptr s' = Some s''" "mmu_trans s'' = mmu_trans s"
    using mmu.maps_unmap [OF inv m] by blast
  have "esp_mmu_unmap ptr s' = Some (ESP_OK, s'')"
    using u(1) by (auto simp: mmu_unmap_def split: option.splits if_splits)
  moreover have "esp_mmu_vaddr_to_paddr v s'' = esp_mmu_vaddr_to_paddr v s" if "v < SIZE_LIM" for v
    by (rule esp_mmu_vaddr_to_paddr_cong [OF u(2) that])
  ultimately show ?thesis by blast
qed

text \<open>The size query is the largest slot of the regions that support the capabilities.\<close>

lemma fold_max_slot:
  fixes f :: "'a \<Rightarrow> nat"
  shows "n \<le> fold (\<lambda>r m. if P r \<and> f r > m then f r else m) rs a \<longleftrightarrow> n \<le> a \<or> (\<exists>r\<in>set rs. P r \<and> n \<le> f r)"
  by (induction rs arbitrary: a) auto

lemma max_block_size_iff:
  assumes "esp_mmu_map_get_max_consecutive_free_block_size caps tg s = (ESP_OK, m)" "0 < n"
  shows "n \<le> m \<longleftrightarrow> (\<exists>r\<in>set (mem_regions s). region_supports caps tg r \<and> n \<le> max_slot_size r)"
  using assms fold_max_slot [of n "region_supports caps tg" max_slot_size "mem_regions s" 0]
  by (auto simp: esp_mmu_map_get_max_consecutive_free_block_size_def split: if_splits)

definition encloses :: "nat \<Rightarrow> nat \<Rightarrow> mem_block_t \<Rightarrow> bool" where
  "encloses p n b \<longleftrightarrow> paddr_start b \<le> p \<and> p + n \<le> paddr_end b"

definition meets :: "nat \<Rightarrow> nat \<Rightarrow> mem_block_t \<Rightarrow> bool" where
  "meets p n b \<longleftrightarrow> p < paddr_end b \<and> paddr_start b < p + n"

lemma check_block:
  assumes "mapped_block b" "0 < n" "p + n < SIZE_LIM"
  shows "s_is_enclosed (paddr_start b) (paddr_end b) p n \<longleftrightarrow> encloses p n b"
    "s_is_enclosed (paddr_start b) (paddr_end b) p n \<or> s_is_overlapped (paddr_start b) (paddr_end b) p n \<longleftrightarrow> meets p n b"
  using assms by (auto simp: s_is_enclosed_def s_is_overlapped_def encloses_def meets_def sz_simps Let_def mapped_block_def)

lemma paddr_check_Separate_iff:
  "live bs \<Longrightarrow> paddr_check tg p n allow bs = Some Separate \<longleftrightarrow>
   (\<forall>b\<in>set bs. block_target b = tg \<longrightarrow>
      \<not> (s_is_enclosed (paddr_start b) (paddr_end b) p n \<or> \<not> allow \<and> s_is_overlapped (paddr_start b) (paddr_end b) p n))"
  by (induction bs) auto

lemma paddr_check_Overlapped: "paddr_check tg p n allow bs = Some Overlapped \<Longrightarrow> \<not> allow"
  by (induction bs) (auto split: if_splits)

lemma separate_in_use:
  assumes u: "in_use r h bs t" "region_ok r" and n: "0 < n" "p + n < SIZE_LIM"
  shows "paddr_check MMU_TARGET_FLASH0 p n allow (mem_block_head r) = Some Separate \<longleftrightarrow>
    (\<forall>b\<in>set bs. \<not> (if allow then encloses p n b else meets p n b))"
proof -
  have L: "mem_block_head r = h # bs @ [t]" and d: "block_target h = 0" "block_target t = 0"
    and m: "\<And>b. b \<in> set bs \<Longrightarrow> mapped_block b"
    using u by (auto simp: in_use_def dummy_at_def)
  have lv: "live (h # bs @ [t])" using in_use_live [OF u(1)] u(2) L by (simp add: region_ok_def)
  have "block_target b = MMU_TARGET_FLASH0" if "b \<in> set bs" for b using m [OF that] by (simp add: mapped_block_def)
  moreover have "(0::flags) \<noteq> MMU_TARGET_FLASH0" by (simp add: MMU_TARGET_FLASH0_def)
  ultimately show ?thesis
    unfolding L paddr_check_Separate_iff [OF lv] using d check_block [OF m n] by auto
qed

text \<open>A mapping call with valid arguments, enough memory and a region with a slot that is large enough
  returns, and is successful exactly when the physical block is free.\<close>

lemma esp_mmu_map_returns:
  assumes inv: "mmu_inv s" and reg: "mem_regions s = [r]"
    and al: "head_ok al" "tail_ok al" "block_ok al" and c: "s_mem_caps_check caps = ESP_OK"
    and sz: "sz = ALIGN_UP_BY n CONFIG_MMU_PAGE_SIZE" "0 < sz"
    and p: "p mod PAGE = 0" "p + sz \<le> PADDR_END"
    and fit: "region_supports caps MMU_TARGET_FLASH0 r" "sz \<le> max_slot_size r"
  shows "\<exists>e ptr s'. esp_mmu_map al p n MMU_TARGET_FLASH0 caps flgs s = Some (e, ptr, s') \<and>
    (e = ESP_OK \<longleftrightarrow> (\<forall>b\<in>set (all_blocks s).
       \<not> (if flag_set flgs ESP_MMU_MMAP_FLAG_PADDR_SHARED then encloses p sz b else meets p sz b))) \<and>
    (e \<noteq> ESP_OK \<and> flag_set flgs ESP_MMU_MMAP_FLAG_PADDR_SHARED \<longrightarrow>
       e = ESP_ERR_INVALID_STATE \<and> (\<exists>b\<in>set (all_blocks s). encloses p sz b \<and> ptr = Some (vaddr_start b)))"
proof -
  have ok: "region_ok r" using inv reg by (simp add: mmu_inv_def)
  have f: "s_find_available_region (mem_regions s) sz caps MMU_TARGET_FLASH0 = Some 0" using fit by (simp add: reg)
  obtain err made r1 where wd: "with_dummies al caps r = (err, made, r1)" by (cases "with_dummies al caps r") auto
  then have err: "err = None" using al by (auto simp: with_dummies_def Let_def split: if_splits)
  note d = with_dummies_ok [OF ok wd [unfolded err]]
  obtain h bs t where u: "in_use r1 h bs t" using d(2) by blast
  let ?s = "s\<lparr>mem_regions := [r1]\<rparr>" and ?sh = "flag_set flgs ESP_MMU_MMAP_FLAG_PADDR_SHARED"
  have s1: "s\<lparr>mem_regions := (mem_regions s)[0 := r1]\<rparr> = ?s" by (simp add: reg)
  have inv1: "mmu_inv ?s" by (rule dummies_keep(1) [of s 0 al caps made r1]) (use inv reg wd err in simp_all)
  obtain chk where chk: "paddr_check MMU_TARGET_FLASH0 p sz ?sh (mem_block_head r1) = Some chk"
    using paddr_check_total in_use_live [OF u] d(1) unfolding region_ok_def by metis
  have bs: "set (all_blocks s) = set bs" using inner_in_use [OF u] d(7) by (simp add: all_blocks_def reg)
  have sep: "chk = Separate \<longleftrightarrow> (\<forall>b\<in>set (all_blocks s). \<not> (if ?sh then encloses p sz b else meets p sz b))"
    using separate_in_use [OF u d(1) sz(2), of p ?sh] chk p(2) bs by simp
  have run: "esp_mmu_map al p n MMU_TARGET_FLASH0 caps flgs s =
      (case chk of Separate \<Rightarrow> map_in_region 0 r1 p sz MMU_TARGET_FLASH0 caps ?s
       | Enclosed b \<Rightarrow> Some (ESP_ERR_INVALID_STATE, Some (vaddr_start b), ?s) | Overlapped \<Rightarrow> Some (ESP_ERR_INVALID_ARG, None, ?s))"
    using c p(1) f wd err chk al
    by (simp add: esp_mmu_map_def sz(1) [symmetric] mod_config_page Let_def reg flag_set_def mmu_consts split: paddr_state.splits)
  show ?thesis
  proof (cases "chk = Separate")
    case True
    obtain k where k: "sz = k * PAGE" "0 < k" using page_multiple [of sz] sz by auto
    have i0: "0 < length (mem_regions ?s)" "mem_regions ?s ! 0 = r1" "sz \<le> max_slot_size r1" using fit(2) d(5) by simp_all
    obtain l s' where "map_in_region 0 r1 p sz MMU_TARGET_FLASH0 caps ?s = Some (ESP_OK, Some (vaddr_base (vaddr_type_of caps) + l), s')"
      using map_in_region_effect [OF inv1 i0(1,2) u k i0(3) p] by blast
    with True sep run show ?thesis by simp
  next
    case False
    show ?thesis
    proof (cases chk)
      case (Enclosed b)
      then have b: "b \<in> set (mem_block_head r1)" "block_target b = MMU_TARGET_FLASH0"
        "s_is_enclosed (paddr_start b) (paddr_end b) p sz" using paddr_check_Enclosed chk by blast+
      then have "b \<in> set bs" using u by (auto simp: in_use_def dummy_at_def MMU_TARGET_FLASH0_def)
      moreover from this have "encloses p sz b" using b(3) check_block(1) [OF in_use_block(1) [OF u] sz(2)] p(2) by simp
      ultimately show ?thesis using Enclosed sep run False bs by auto
    next
      case Overlapped
      then have "\<not> ?sh" using paddr_check_Overlapped chk by blast
      with Overlapped sep run show ?thesis by simp
    qed (use False in simp)
  qed
qed

text \<open>
  Claim C37. The size query tells what can be mapped. In a reachable state, with enough heap memory, a
  page-aligned physical address, a non-empty range inside the physical memory that the MMU reaches (16 MB)
  and capabilities that make sense, a mapping call with a larger size (rounded to pages)
  than the size query reports for the same capabilities returns that no block was found, and
  changes nothing. With any other size the call returns, without a failing assertion, and it is
  successful exactly when no mapped block has a physical byte in common with the new one or, for a
  shared mapping, when no mapped block encloses it. A shared mapping that is refused returns
  \<open>ESP_ERR_INVALID_STATE\<close> and the address of a block that encloses it.
\<close>

theorem map_succeeds_if_it_fits:
  assumes "mmu_reach s" "head_ok al" "tail_ok al" "block_ok al"
    and "esp_mmu_map_get_max_consecutive_free_block_size caps MMU_TARGET_FLASH0 s = (ESP_OK, m)"
    and "sz = ALIGN_UP_BY n CONFIG_MMU_PAGE_SIZE" "0 < sz" "p mod PAGE = 0" "p + sz \<le> PADDR_END"
  shows "if m < sz then esp_mmu_map al p n MMU_TARGET_FLASH0 caps flgs s = Some (ESP_ERR_NOT_FOUND, None, s)
    else \<exists>e ptr s'. esp_mmu_map al p n MMU_TARGET_FLASH0 caps flgs s = Some (e, ptr, s') \<and>
      (e = ESP_OK \<longleftrightarrow> (\<forall>b\<in>set (all_blocks s).
         \<not> (if flag_set flgs ESP_MMU_MMAP_FLAG_PADDR_SHARED then encloses p sz b else meets p sz b))) \<and>
      (e \<noteq> ESP_OK \<and> flag_set flgs ESP_MMU_MMAP_FLAG_PADDR_SHARED \<longrightarrow>
         e = ESP_ERR_INVALID_STATE \<and> (\<exists>b\<in>set (all_blocks s). encloses p sz b \<and> ptr = Some (vaddr_start b)))"
proof -
  obtain r where r: "mem_regions s = [r]" using mmu_reach_one_region [OF assms(1)] by blast
  have c: "s_mem_caps_check caps = ESP_OK"
    using assms(5) by (auto simp: esp_mmu_map_get_max_consecutive_free_block_size_def split: if_splits)
  note fits = max_block_size_iff [OF assms(5,7)]
  show ?thesis
  proof (cases "m < sz")
    case True
    then have "s_find_available_region (mem_regions s) sz caps MMU_TARGET_FLASH0 = None"
      using fits by (auto simp: find_region_None)
    then show ?thesis
      using True c assms(8) by (simp add: esp_mmu_map_def assms(6) [symmetric] mod_config_page flag_set_def mmu_consts)
  next
    case False
    then have "region_supports caps MMU_TARGET_FLASH0 r" "sz \<le> max_slot_size r" using fits r by auto
    from esp_mmu_map_returns [OF mmu_reach_inv [OF assms(1)] r assms(2-4) c assms(6-9) this, of flgs] False show ?thesis by simp
  qed
qed

lemma find_entry_Some:
  "find_entry v tg t is = Some (Some i) \<Longrightarrow> set is \<subseteq> {..<SOC_MMU_ENTRY_NUM} \<Longrightarrow>
   i < SOC_MMU_ENTRY_NUM \<and> \<not> bit (t ! i) 8 \<and> tg = MMU_TARGET_FLASH0 \<and> t ! i mod 256 = v"
  by (induction "is") (auto simp: check_entry_valid_bit mmu_ll_get_entry_target_def SOC_MMU_VALID_VAL_MASK_def
      and_value_mask bind_eq_Some_conv split: if_splits)

text \<open>
  Claim C38. The two address queries agree. When the query for the virtual address of a physical
  address succeeds, on whatever table of the MMU and for either bus, the query for the physical
  address of the result returns the address that was asked for.
\<close>

theorem paddr_query_inverse:
  assumes "esp_mmu_paddr_to_vaddr p tg type s = Some (ESP_OK, Some v)"
  shows "esp_mmu_vaddr_to_paddr v s = Some (ESP_OK, Some (p, tg))"
proof -
  obtain i where pv: "mmu_ll_check_valid_paddr_region p 1"
    and i: "find_entry (p div PAGE) tg (mmu_tab s) [0..<SOC_MMU_ENTRY_NUM] = Some (Some i)"
    and v: "v = mmu_ll_entry_id_to_vaddr_base i type OR (p mod PAGE)"
    using assms by (auto simp: esp_mmu_paddr_to_vaddr_def mmu_hal_paddr_to_vaddr_def format_paddr_div Let_def
        mmu_ll_find_entry_id_based_on_map_value_def bind_eq_Some_conv split: option.splits if_splits)
  have e: "i < SOC_MMU_ENTRY_NUM" "\<not> bit (mmu_tab s ! i) 8" "tg = MMU_TARGET_FLASH0" "mmu_tab s ! i mod 256 = p div PAGE"
    using find_entry_Some [OF i] by (simp_all add: lessThan_atLeast0)
  let ?l = "i * PAGE + p mod PAGE"
  have l: "?l < LINEAR_END" "?l div PAGE = i" "?l mod PAGE = p mod PAGE" using e(1) by (simp_all add: SOC_MMU_ENTRY_NUM_def)
  have "mmu_ll_entry_id_to_vaddr_base i type = vaddr_base type + i * PAGE"
    using e(1) by (simp add: mmu_ll_entry_id_to_vaddr_base_def push_bit_eq_mult laddr_to_vaddr_sum SOC_MMU_ENTRY_NUM_def)
  also have "\<dots> = (vaddr_base type div PAGE + i) * PAGE" using vaddr_base_facts(2) [of type] by (simp add: vaddr_base_def)
  finally have "v = (vaddr_base type div PAGE + i) * PAGE + p mod PAGE" unfolding v
    using or_page_offset [of "p mod PAGE" "vaddr_base type div PAGE + i"] by simp
  then have "v = vaddr_base type + ?l" by (simp add: vaddr_base_def)
  moreover have "mmu_trans s ?l = Some p" using l e by (simp add: mmu_trans_def translate_def)
  ultimately show ?thesis using esp_mmu_vaddr_to_paddr_trans [OF l(1), of type s] e(3) by simp
qed

text \<open>Under \<open>clean_alloc\<close> a call with a physical range that the MMU reaches always returns.\<close>

lemma esp_mmu_map_total:
  assumes inv: "mmu_inv s" and al: "clean_alloc al" and sz: "sz = ALIGN_UP_BY n CONFIG_MMU_PAGE_SIZE" "0 < sz"
    and p: "p mod PAGE = 0" "p + sz \<le> PADDR_END"
  shows "\<exists>e ptr s'. esp_mmu_map al p n MMU_TARGET_FLASH0 caps flgs s = Some (e, ptr, s')"
proof (cases "s_find_available_region (mem_regions s) sz caps MMU_TARGET_FLASH0")
  case None
  then show ?thesis by (auto simp: esp_mmu_map_def sz(1) [symmetric] Let_def)
next
  case (Some i)
  have il: "i < length (mem_regions s)" and slot: "sz \<le> max_slot_size (mem_regions s ! i)"
    using find_region_Some [OF Some] by simp_all
  obtain err made r where wd: "with_dummies al caps (mem_regions s ! i) = (err, made, r)"
    by (cases "with_dummies al caps (mem_regions s ! i)") auto
  show ?thesis
  proof (cases err)
    case err: None
    let ?s1 = "s\<lparr>mem_regions := (mem_regions s)[i := r]\<rparr>"
    note d = with_dummies_ok [OF mmu_inv_region [OF inv il] wd [unfolded err]]
    note k = dummies_keep [OF inv il wd [unfolded err], of ?s1, simplified]
    obtain h bs t where u: "in_use r h bs t" using d(2) by blast
    obtain chk where chk: "paddr_check MMU_TARGET_FLASH0 p sz (flag_set flgs ESP_MMU_MMAP_FLAG_PADDR_SHARED) (mem_block_head r) = Some chk"
      using paddr_check_total in_use_live [OF u] d(1) unfolding region_ok_def by metis
    obtain m where m: "sz = m * PAGE" "0 < m" using page_multiple [of sz] sz by auto
    have i1: "i < length (mem_regions ?s1)" "mem_regions ?s1 ! i = r" "sz \<le> max_slot_size r" using il slot d(5) by simp_all
    obtain l s' where "map_in_region i r p sz MMU_TARGET_FLASH0 caps ?s1 = Some (ESP_OK, Some (vaddr_base (vaddr_type_of caps) + l), s')"
      using map_in_region_effect [OF k(1) i1(1,2) u m i1(3) p] by blast
    then show ?thesis
      using Some wd err chk by (cases chk) (auto simp: esp_mmu_map_def sz(1) [symmetric] Let_def)
  qed (use Some wd in \<open>auto simp: esp_mmu_map_def sz(1) [symmetric] Let_def\<close>)
qed

subsection \<open>An example\<close>

text \<open>Code and constants take one page each; nothing is mapped.\<close>

definition ex_linker :: linker_symbols where
  "ex_linker = \<lparr>instruction_reserved_start = 0x42000020, instruction_reserved_end = 0x42010000,
     rodata_reserved_start = 0x3C010020, rodata_reserved_end = 0x3C020000\<rparr>"

definition ex_mmu :: mmu_st where
  "ex_mmu = start_state [c3_region 0x20000] (replicate 128 0x100)"

definition ex_read :: flags where "ex_read = MMU_MEM_CAP_READ OR MMU_MEM_CAP_8BIT"

definition all_memory :: alloc_results where
  "all_memory = \<lparr>head_ok = True, tail_ok = True, block_ok = True\<rparr>"

lemma and_not_page_num: "x < SIZE_LIM \<Longrightarrow> x AND sz_not 65535 = x div PAGE * PAGE"
  using and_not_page by simp

lemma align_down_eq: "x < SIZE_LIM \<Longrightarrow> ALIGN_DOWN_BY x CONFIG_MMU_PAGE_SIZE = x div PAGE * PAGE"
  using and_not_page_num by (simp add: ALIGN_DOWN_BY_def CONFIG_MMU_PAGE_SIZE_def)

lemma reserve_between_eq:
  "reserve_between a b rs = (if sz_sub (b mod LINEAR_END) (a mod LINEAR_END) = sz_sub b a
     then map_option (\<lambda>m. reserve_loop m (reserved_bytes a b) rs) (cache_ll_l1_get_bus a (reserved_bytes a b)) else None)"
  unfolding reserve_between_def Let_def reserved_bytes_def [symmetric] vaddr_to_laddr_mod
  by (cases "cache_ll_l1_get_bus a (reserved_bytes a b)") simp_all

lemma ex_reserved: "reserved_total ex_linker = 0x20000"
  by (simp add: reserved_total_def reserved_bytes_def ex_linker_def align_down_eq align_up_eq sz_simps)

lemma ex_init: "esp_mmu_map_init ex_linker g_mmu_mem_regions = Some [c3_region 0x20000]"
proof -
  have len: "reserved_bytes 0x42000020 0x42010000 = 0x10000" "reserved_bytes 0x3C010020 0x3C020000 = 0x10000"
    by (simp_all add: reserved_bytes_def align_down_eq align_up_eq sz_simps)
  have bus: "cache_ll_l1_get_bus 0x42000020 0x10000 = Some 1" "cache_ll_l1_get_bus 0x3C010020 0x10000 = Some 8"
    by (simp_all add: cache_ll_l1_get_bus_def mmu_consts CACHE_BUS_IBUS0_def CACHE_BUS_DBUS0_def sz_simps)
  have "reserve_between 0x42000020 0x42010000 [c3_region 0] = Some [c3_region 65536]"
    "reserve_between 0x3C010020 0x3C020000 [c3_region 65536] = Some [c3_region 0x20000]"
    unfolding reserve_between_eq len bus by (simp_all add: sz_simps c3_region_def)
  then show ?thesis
    unfolding esp_mmu_map_init_def hw_region_c3
    by (simp add: s_reserve_irom_region_def s_reserve_drom_region_def ex_linker_def Let_def)
      (simp add: c3_region_def CONFIG_MMU_PAGE_SIZE_def MEM_REGION_MERGED_def)
qed

lemma ex_mmu_reach: "mmu_reach ex_mmu"
  unfolding ex_mmu_def
proof (rule mmu_reach.start [OF ex_init])
  show "boot_table ex_linker (replicate 128 0x100)"
    by (simp add: boot_table_def SOC_MMU_ENTRY_NUM_def bit_numeral_rec bit_0)
qed (simp add: ex_reserved)

lemma ex_size: "ALIGN_UP_BY 0x18000 CONFIG_MMU_PAGE_SIZE = 0x20000"
  by (simp add: align_up_eq sz_simps)

lemma ex_max: "esp_mmu_map_get_max_consecutive_free_block_size ex_read MMU_TARGET_FLASH0 ex_mmu = (ESP_OK, 0x7E0000)"
  by (simp add: esp_mmu_map_get_max_consecutive_free_block_size_def ex_mmu_def start_state_def c3_region_def ex_read_def
      region_supports_def s_mem_caps_check_def flag_set_def mmu_consts)

lemma ex_blocks: "all_blocks ex_mmu = []"
  by (simp add: all_blocks_def ex_mmu_def start_state_def c3_region_def inner_def)

lemma ex_map:
  obtains ptr s' where "esp_mmu_map all_memory 0x100000 0x18000 MMU_TARGET_FLASH0 ex_read 0 ex_mmu = Some (ESP_OK, Some ptr, s')"
proof -
  have reg: "mem_regions ex_mmu = [c3_region 0x20000]" by (simp add: ex_mmu_def start_state_def)
  have al: "head_ok all_memory" "tail_ok all_memory" "block_ok all_memory" by (simp_all add: all_memory_def)
  have c: "s_mem_caps_check ex_read = ESP_OK" "region_supports ex_read MMU_TARGET_FLASH0 (c3_region 0x20000)"
    by (simp_all add: s_mem_caps_check_def ex_read_def flag_set_def mmu_consts region_supports_def c3_region_def)
  have "\<exists>e ptr s'. esp_mmu_map all_memory 0x100000 0x18000 MMU_TARGET_FLASH0 ex_read 0 ex_mmu = Some (e, ptr, s') \<and> e = ESP_OK"
    using esp_mmu_map_returns [OF mmu_reach_inv [OF ex_mmu_reach] reg al c(1) ex_size [symmetric] _ _ _ c(2), of "0x100000" 0]
    by (simp add: ex_blocks c3_region_def)
  then obtain ptr s' where m: "esp_mmu_map all_memory 0x100000 0x18000 MMU_TARGET_FLASH0 ex_read 0 ex_mmu = Some (ESP_OK, ptr, s')" by blast
  then obtain l where "ptr = Some (vaddr_base (vaddr_type_of ex_read) + l)"
    using esp_mmu_map_effect [OF mmu_reach_inv [OF ex_mmu_reach] _ refl _ m] ex_size by (auto simp: all_memory_def)
  with m that show thesis by blast
qed

theorem mmu_translates_blocks_witness:
  "mmu_reach ex_mmu \<and> esp_mmu_vaddr_to_paddr (vaddr_base MMU_VADDR_DATA + 0x20000) ex_mmu = Some (ESP_ERR_NOT_FOUND, None)"
proof -
  have "c3_region 0x20000 \<in> set (mem_regions ex_mmu)" "(0x20000::nat) \<in> managed (c3_region 0x20000)"
    by (simp_all add: ex_mmu_def start_state_def managed_def c3_region_def)
  then show ?thesis using mmu_translates_blocks [OF ex_mmu_reach] ex_mmu_reach by (simp add: ex_blocks)
qed

theorem map_unmap_roundtrip_witness:
  "\<exists>ptr s' s''. esp_mmu_map all_memory 0x100000 0x18000 MMU_TARGET_FLASH0 ex_read 0 ex_mmu = Some (ESP_OK, Some ptr, s')
     \<and> esp_mmu_vaddr_to_paddr (ptr + 0x17FFF) s' = Some (ESP_OK, Some (0x117FFF, MMU_TARGET_FLASH0))
     \<and> esp_mmu_unmap ptr s' = Some (ESP_OK, s'')"
proof -
  obtain ptr s' where m: "esp_mmu_map all_memory 0x100000 0x18000 MMU_TARGET_FLASH0 ex_read 0 ex_mmu = Some (ESP_OK, Some ptr, s')"
    using ex_map .
  have a: "clean_alloc all_memory" "0 < ALIGN_UP_BY 0x18000 CONFIG_MMU_PAGE_SIZE"
    by (simp_all add: clean_alloc_def all_memory_def ex_size)
  note r = map_unmap_roundtrip [OF ex_mmu_reach a m, unfolded ex_size]
  have "esp_mmu_vaddr_to_paddr (ptr + 0x17FFF) s' = Some (ESP_OK, Some (0x100000 + 0x17FFF, MMU_TARGET_FLASH0))"
    using r by simp
  moreover obtain s'' where "esp_mmu_unmap ptr s' = Some (ESP_OK, s'')" using r by blast
  ultimately show ?thesis using m by simp
qed

theorem map_succeeds_if_it_fits_witness:
  "(\<exists>e ptr s'. esp_mmu_map all_memory 0x100000 0x18000 MMU_TARGET_FLASH0 ex_read 0 ex_mmu = Some (e, ptr, s') \<and> e = ESP_OK)"
  using map_succeeds_if_it_fits [OF ex_mmu_reach _ _ _ ex_max, of all_memory "0x20000" "0x18000" "0x100000" 0]
  by (simp add: all_memory_def ex_size ex_blocks)

theorem paddr_query_inverse_witness:
  "esp_mmu_vaddr_to_paddr 0x3C030005 \<lparr>mem_regions = [], mmu_tab = (replicate 128 0x100)[3 := 7], enabled_buses = 0, invalidated = []\<rparr>
     = Some (ESP_OK, Some (0x70005, MMU_TARGET_FLASH0))"
proof -
  let ?s = "\<lparr>mem_regions = [], mmu_tab = (replicate 128 0x100)[3 := 7], enabled_buses = 0, invalidated = []\<rparr> :: mmu_st"
  have u: "[0..<SOC_MMU_ENTRY_NUM] = 0 # 1 # 2 # 3 # [4..<SOC_MMU_ENTRY_NUM]"
    by (simp add: SOC_MMU_ENTRY_NUM_def upt_conv_Cons)
  have b: "bit (256::nat) 8" "\<not> bit (7::nat) 8" by (simp_all add: bit_numeral_rec bit_0)
  have e: "find_entry 7 1 (mmu_tab ?s) [0..<SOC_MMU_ENTRY_NUM] = Some (Some 3)"
    unfolding u using b
    by (simp add: check_entry_valid_bit mmu_ll_get_entry_target_def SOC_MMU_VALID_VAL_MASK_def and_value_mask SOC_MMU_ENTRY_NUM_def MMU_TARGET_FLASH0_def)
  have "mmu_ll_entry_id_to_vaddr_base 3 MMU_VADDR_DATA = 0x3C030000"
    by (simp add: mmu_ll_entry_id_to_vaddr_base_def push_bit_eq_mult laddr_to_vaddr_sum vaddr_base_def)
  moreover have "(0x3C030000::nat) OR 5 = 0x3C030005" by simp
  ultimately have "esp_mmu_paddr_to_vaddr 0x70005 MMU_TARGET_FLASH0 MMU_VADDR_DATA ?s = Some (ESP_OK, Some 0x3C030005)"
    using e valid_paddr_region [of "0x70005" 1]
    by (simp add: esp_mmu_paddr_to_vaddr_def mmu_hal_paddr_to_vaddr_def mmu_ll_find_entry_id_based_on_map_value_def
        format_paddr_div MMU_TARGET_FLASH0_def)
  then show ?thesis by (rule paddr_query_inverse)
qed

subsection \<open>Calls that damage the list of blocks\<close>

text \<open>
  A mapping of size zero is not refused (nor is a size that rounds up beyond the 32-bit range). The new, empty
  block is put before the dummy head, so that the dummy head is no longer the first block. The call
  reports success, and unmapping the returned address ends in a failing assertion.
\<close>

theorem zero_size_mapping:
  "\<exists>ptr s'. esp_mmu_map all_memory 0x100000 0 MMU_TARGET_FLASH0 ex_read 0 ex_mmu = Some (ESP_OK, Some ptr, s') \<and>
     length (mem_block_head (hd (mem_regions s'))) = 3 \<and> esp_mmu_unmap ptr s' = None"
proof -
  have z: "ALIGN_UP_BY 0 CONFIG_MMU_PAGE_SIZE = 0" by (simp add: align_up_eq sz_simps)
  have m: "s_do_mapping 1 0x3C020000 0x100000 0 s =
      Some (s\<lparr>enabled_buses := enabled_buses s OR 8, invalidated := (0x3C020000, 0) # invalidated s\<rparr>)" for s
    by (simp add: s_do_mapping_def mmu_hal_map_region_def mmu_ll_check_valid_paddr_region_def mmu_ll_get_page_size_def
        mmu_hal_check_valid_ext_vaddr_region_def mmu_ll_check_valid_ext_vaddr_region_def Let_def sz_simps mmu_consts
        SOC_ADDRESS_IN_IRAM0_CACHE_def SOC_ADDRESS_IN_DRAM0_CACHE_def flag_simps bit_or_iff pages_to_bytes
        cache_ll_l1_get_bus_def CACHE_BUS_DBUS0_def)
  have u: "s_do_unmapping 0 0 s = None" for s
    by (simp add: s_do_unmapping_def mmu_hal_unmap_region_def mmu_hal_check_valid_ext_vaddr_region_def
        mmu_ll_check_valid_ext_vaddr_region_def Let_def SOC_ADDRESS_IN_IRAM0_CACHE_def SOC_ADDRESS_IN_DRAM0_CACHE_def mmu_consts)
  show ?thesis
    by (simp add: m u insert_at_def esp_mmu_unmap_def vaddr_to_laddr_mod region_of_laddr_def find_block_def
      esp_mmu_map_def z with_dummies_def ex_mmu_def start_state_def c3_region_def all_memory_def
      ex_read_def s_mem_caps_check_def flag_set_def mmu_consts region_supports_def mod_config_page
      dummy_block_def zero_block_def Let_def map_in_region_def sz_simps new_mem_block_def vaddr_type_of_def
      laddr_to_vaddr_sum vaddr_base_def)
qed

text \<open>
  When the memory for the block is not available and the call made the dummy blocks of the region, the
  clean-up frees the dummy blocks but leaves them in the list. The next mapping call walks over freed
  memory.
\<close>

theorem failed_mapping_leaves_freed_blocks:
  "\<exists>s'. esp_mmu_map (all_memory\<lparr>block_ok := False\<rparr>) 0x100000 0x18000 MMU_TARGET_FLASH0 ex_read 0 ex_mmu
       = Some (ESP_ERR_NO_MEM, None, s') \<and>
     (\<forall>al. esp_mmu_map al 0x100000 0x18000 MMU_TARGET_FLASH0 ex_read 0 s' = None)"
  by (simp add: esp_mmu_map_def ex_size with_dummies_def ex_mmu_def start_state_def c3_region_def all_memory_def
      ex_read_def s_mem_caps_check_def flag_set_def mmu_consts region_supports_def mod_config_page
      dummy_block_def zero_block_def free_block_def Let_def)

end
