(* ===== verification/Flash_Mmap_Spec.thy ===== *)
theory Flash_Mmap_Spec
  imports Flash_Mmap Mmu_Spec
begin

section \<open>What mapping of flash memory promises\<close>

text \<open>
  The functions for whole blocks and for lists of pages, over the contract of the driver as an address
  space (the interpretation \<open>mmu\<close> of the locale \<open>address_space\<close>), and what they do in cases the
  documentation describes differently.
\<close>

subsection \<open>Merging pages\<close>

definition expand :: "(nat \<times> nat) list \<Rightarrow> nat list" where
  "expand bs = concat (map (\<lambda>(a, c). [a..<a + c]) bs)"

lemma count_blocks_ge: "n \<le> count_blocks n e qs"
proof (induction qs arbitrary: n e)
  case (Cons q qs)
  show ?case using Suc_leD [OF Cons.IH [of "Suc n" "Suc q"]] Cons.IH [of n "Suc q"] by auto
qed simp

lemma merge_loop_eq:
  assumes "out = init @ [(a, c)]" "0 < c" "\<forall>(x, y)\<in>set init. 0 < y" "e = a + c"
  shows "\<exists>bs. merge_loop (count_blocks (length out) e qs) e out qs = Some bs \<and> expand bs = expand out @ qs \<and>
    length bs = count_blocks (length out) e qs \<and> (\<forall>(x, y)\<in>set bs. 0 < y)"
  using assms
proof (induction qs arbitrary: out init a c e)
  case (Cons q qs)
  show ?case
  proof (cases "q = e")
    case True
    then have "expand (init @ [(a, c + 1)]) = expand out @ [q]" using Cons.prems by (simp add: expand_def)
    then show ?thesis
      using Cons.IH [of "init @ [(a, c + 1)]" init a "c + 1" "q + 1"] Cons.prems True by simp
  next
    case False
    have "length out + 1 \<le> count_blocks (length out + 1) (q + 1) qs" by (rule count_blocks_ge)
    moreover have "expand (out @ [(q, 1)]) = expand out @ [q]" by (simp add: expand_def)
    ultimately show ?thesis
      using Cons.IH [of "out @ [(q, 1)]" out q 1 "q + 1"] Cons.prems False by auto
  qed
qed simp

lemma pages_in_block:
  assumes "(a, c) \<in> set bs" "0 < c"
  shows "a \<in> set (expand bs)" "a + c - 1 \<in> set (expand bs)"
  unfolding expand_def using assms by (auto intro!: bexI [of _ "(a, c)"])

text \<open>
  Claim C39. A non-empty list of pages is merged into runs of consecutive pages: the two passes over the list
  agree about the number of runs, so that the assertion in the second one cannot fail, and the
  runs, written out one after the other, are the list.
\<close>

theorem merged_pages_expand:
  assumes "pages \<noteq> []"
  shows "\<exists>n bs. s_find_non_contiguous_block_nums pages = Some n \<and> s_merge_contiguous_pages pages n = Some bs \<and>
    length bs = n \<and> concat (map (\<lambda>(a, c). [a..<a + c]) bs) = pages \<and> (\<forall>(a, c)\<in>set bs. 0 < c)"
proof -
  obtain q qs where pages: "pages = q # qs" using assms by (cases pages) auto
  obtain bs where "merge_loop (count_blocks 1 (q + 1) qs) (q + 1) [(q, 1)] qs = Some bs"
    "expand bs = expand [(q, 1)] @ qs" "length bs = count_blocks 1 (q + 1) qs" "\<forall>(a, c)\<in>set bs. 0 < c"
    using merge_loop_eq [of "[(q, 1)]" "[]" q 1 "q + 1" qs] by auto
  then show ?thesis
    by (simp add: pages s_find_non_contiguous_block_nums_def s_merge_contiguous_pages_def expand_def)
qed

theorem merged_pages_expand_witness:
  "s_merge_contiguous_pages [5, 6, 9, 3, 4] 3 = Some [(5, 2), (9, 1), (3, 2)] \<and>
   (\<exists>n bs. s_find_non_contiguous_block_nums [5, 6, 9, 3, 4] = Some n \<and> s_merge_contiguous_pages [5, 6, 9, 3, 4] n = Some bs \<and>
      length bs = n \<and> concat (map (\<lambda>(a, c). [a..<a + c]) bs) = [5, 6, 9, 3, 4])"
proof
  show "s_merge_contiguous_pages [5, 6, 9, 3, 4] 3 = Some [(5, 2), (9, 1), (3, 2)]"
    by (simp add: s_merge_contiguous_pages_def)
  show "\<exists>n bs. s_find_non_contiguous_block_nums [5, 6, 9, 3, 4] = Some n \<and> s_merge_contiguous_pages [5, 6, 9, 3, 4] n = Some bs \<and>
      length bs = n \<and> concat (map (\<lambda>(a, c). [a..<a + c]) bs) = [5, 6, 9, 3, 4]"
    using merged_pages_expand [of "[5, 6, 9, 3, 4]"] by blast
qed

subsection \<open>Runs of calls\<close>

lemma align_up_exact:
  assumes "n mod PAGE = 0" "n \<le> SIZE_LIM - PAGE"
  shows "ALIGN_UP_BY n CONFIG_MMU_PAGE_SIZE = n"
proof -
  obtain e where e: "n = e * PAGE" using page_multiple [OF assms(1)] by blast
  then have "sz_add n (PAGE - 1) = e * PAGE + 65535" using assms(2) by (simp add: sz_simps)
  then have "sz_add n (PAGE - 1) div PAGE = e" by simp
  then show ?thesis by (simp only: align_up_eq e)
qed

definition requests :: "(nat \<times> nat) list \<Rightarrow> nat list \<Rightarrow> (nat \<times> nat \<times> nat) list" where
  "requests bs vs = map2 (\<lambda>(p, n) v. (p, n, v)) bs vs"

lemma requests_simps [simp]:
  "requests [] vs = []" "requests bs [] = []" "requests ((p, n) # bs) (v # vs) = (p, n, v) # requests bs vs"
  by (simp_all add: requests_def)

lemma requests_ptrs: "length vs \<le> length bs \<Longrightarrow> map (\<lambda>(p, n, ptr). ptr) (requests bs vs) = vs"
proof (induction bs arbitrary: vs)
  case (Cons b bs)
  then show ?case by (cases b; cases vs) simp_all
qed simp

definition good_block :: "nat \<times> nat \<Rightarrow> bool" where
  "good_block b \<longleftrightarrow> (case b of (p, n) \<Rightarrow> p mod PAGE = 0 \<and> n mod PAGE = 0 \<and> 0 < n \<and> p + n \<le> PADDR_END)"

lemma map_blocks_run:
  assumes "mmu_inv s" "\<And>i. clean_alloc (al i)" "\<forall>b\<in>set bs. good_block b"
  shows "\<exists>e vs s1 s'. map_blocks al i caps bs s = Some (e, vs, s') \<and> length vs \<le> length bs \<and>
    mmu.map_seq s (requests bs vs) s1 \<and> mmu_inv s' \<and> mmu_trans s' = mmu_trans s1 \<and> mmu_blocks s' = mmu_blocks s1 \<and>
    (e = ESP_OK \<longrightarrow> length vs = length bs \<and> s' = s1)"
  using assms
proof (induction bs arbitrary: s i)
  case Nil
  then show ?case by simp
next
  case (Cons b bs)
  obtain p n where b: "b = (p, n)" by (cases b)
  have g: "p mod PAGE = 0" "n mod PAGE = 0" "0 < n" "p + n \<le> PADDR_END" using Cons.prems(3) by (auto simp: good_block_def b)
  have n: "n = ALIGN_UP_BY n CONFIG_MMU_PAGE_SIZE" using align_up_exact [of n] g by simp
  obtain e ptr s1 where m: "esp_mmu_map (al i) p n MMU_TARGET_FLASH0 caps ESP_MMU_MMAP_FLAG_PADDR_SHARED s = Some (e, ptr, s1)"
    using esp_mmu_map_total [OF Cons.prems(1,2) n g(3,1,4)] by blast
  note eff = esp_mmu_map_effect [OF Cons.prems(1) _ n g(3) m]
  have al: "head_ok (al i) \<longrightarrow> tail_ok (al i) \<and> block_ok (al i)" using Cons.prems(2) by (simp add: clean_alloc_def)
  show ?case
  proof (cases "e = ESP_OK")
    case True
    obtain v where v: "ptr = Some v" using eff al True by auto
    have ms: "mmu_maps s p n v s1" using m True v n g(3) Cons.prems(2) unfolding mmu_maps_def by metis
    have inv: "mmu_inv s1" using eff al by blast
    obtain e' vs s2 s' where r: "map_blocks al (i + 1) caps bs s1 = Some (e', vs, s')" "length vs \<le> length bs"
      "mmu.map_seq s1 (requests bs vs) s2" "mmu_inv s'" "mmu_trans s' = mmu_trans s2" "mmu_blocks s' = mmu_blocks s2"
      "e' = ESP_OK \<longrightarrow> length vs = length bs \<and> s' = s2"
      using Cons.IH [OF inv Cons.prems(2), of "i + 1"] Cons.prems(3) by auto
    have "map_blocks al i caps (b # bs) s = Some (e', v # vs, s')" using m True v r(1) by (simp add: b)
    moreover have "mmu.map_seq s (requests (b # bs) (v # vs)) s2" using ms r(3) by (auto simp: b)
    ultimately show ?thesis using r by (intro exI [of _ e'] exI [of _ "v # vs"] exI [of _ s2] exI [of _ s']) simp
  next
    case False
    then have same: "mmu_inv s1" "mmu_tab s1 = mmu_tab s" "mset (all_blocks s1) = mset (all_blocks s)" using eff al by auto
    have "mmu_trans s1 = mmu_trans s" using same(2) by (simp add: mmu_trans_def fun_eq_iff)
    moreover have "mmu_blocks s1 = mmu_blocks s" unfolding mmu_blocks_def using mset_eq_setD [OF same(3)] by simp
    moreover have "map_blocks al i caps (b # bs) s = Some (e, [], s1)" using m False by (simp add: b)
    ultimately show ?thesis using same(1) False by (intro exI [of _ e] exI [of _ "[]"] exI [of _ s] exI [of _ s1]) simp
  qed
qed

lemma unmap_seq_loops:
  "mmu.unmap_seq vs s = Some s' \<Longrightarrow> unmap_blocks vs s = Some s' \<and> munmap_loop vs s = Some s'"
proof (induction vs arbitrary: s)
  case (Cons v vs)
  then obtain s1 where "mmu_unmap v s = Some s1" "mmu.unmap_seq vs s1 = Some s'" by (auto simp: bind_eq_Some_conv)
  moreover from this have "esp_mmu_unmap v s = Some (ESP_OK, s1)" by (auto simp: mmu_unmap_def split: option.splits if_splits)
  ultimately show ?case using Cons.IH by simp
qed simp

lemma cache2phys_cong:
  assumes "mmu_trans s' = mmu_trans s" "v < SIZE_LIM"
  shows "spi_flash_cache2phys v s' = spi_flash_cache2phys v s"
  using esp_mmu_vaddr_to_paddr_cong [OF assms] by (simp add: spi_flash_cache2phys_def)

lemma good_runs:
  assumes "set pages \<subseteq> {..<256}" "expand bs = pages" "\<forall>(a, c)\<in>set bs. 0 < c" "(a, c) \<in> set bs"
  shows "sz_mul a CONFIG_MMU_PAGE_SIZE = a * PAGE" "sz_mul c CONFIG_MMU_PAGE_SIZE = c * PAGE"
    "good_block (a * PAGE, c * PAGE)"
proof -
  have c: "0 < c" using assms(3,4) by auto
  have "a < 256" "a + c - 1 < 256" using pages_in_block [OF assms(4) c] assms(1,2) by auto
  then show "sz_mul a CONFIG_MMU_PAGE_SIZE = a * PAGE" "sz_mul c CONFIG_MMU_PAGE_SIZE = c * PAGE"
    "good_block (a * PAGE, c * PAGE)"
    using c by (simp_all add: CONFIG_MMU_PAGE_SIZE_def sz_simps good_block_def)
qed

lemma mapped_cache2phys:
  assumes "mmu_inv s'" "mmu_trans s' (mmu_ll_vaddr_to_laddr v + off) = Some p" "v = vaddr_base type + l" "l + off < LINEAR_END"
  shows "spi_flash_cache2phys (v + off) s' = Some p"
proof -
  have l: "mmu_ll_vaddr_to_laddr v = l" using vaddr_of_laddr(2) [of l type] assms(3,4) by simp
  have "v + off \<noteq> 0" using vaddr_base_pos [of type] assms(3) by simp
  moreover have "esp_mmu_vaddr_to_paddr (v + off) s' = Some (ESP_OK, Some (p, MMU_TARGET_FLASH0))"
    using assms(2) l esp_mmu_vaddr_to_paddr_trans [OF assms(4), of type s'] by (simp add: assms(3) add.assoc)
  ultimately show ?thesis by (auto simp: spi_flash_cache2phys_def)
qed

text \<open>A pointer that the driver returned is a base address plus a linear address.\<close>

lemma mmu_maps_ptr:
  assumes "mmu_inv s" "mmu_maps s p n ptr s'"
  shows "\<exists>type l. ptr = vaddr_base type + l \<and> l + n \<le> LINEAR_END"
proof -
  obtain al k caps flgs where m: "clean_alloc al" "n = ALIGN_UP_BY k CONFIG_MMU_PAGE_SIZE" "0 < n"
     "esp_mmu_map al p k MMU_TARGET_FLASH0 caps flgs s = Some (ESP_OK, Some ptr, s')"
    using assms(2) by (auto simp: mmu_maps_def)
  then show ?thesis using esp_mmu_map_effect [OF assms(1) _ m(2,3,4)] by (auto simp: clean_alloc_def)
qed

lemma map_seq_ptr:
  assumes "mmu_inv s" "mmu.map_seq s ms s'" "(p, n, ptr) \<in> set ms"
  shows "\<exists>type l. ptr = vaddr_base type + l \<and> l + n \<le> LINEAR_END"
  using assms
proof (induction ms arbitrary: s)
  case (Cons r ms)
  obtain q k a where r: "r = (q, k, a)" by (cases r)
  from Cons.prems obtain s1 where s1: "mmu_maps s q k a s1" "mmu.map_seq s1 ms s'" by (auto simp: r)
  have "mmu_inv s1" using mmu_maps_law [OF Cons.prems(1) s1(1)] by blast
  then show ?case
    using Cons.IH [OF _ s1(2)] mmu_maps_ptr [OF Cons.prems(1) s1(1)] Cons.prems(3) r by auto
qed simp

text \<open>
  Claim C40. Mapping a list of pages is all or nothing. In a reachable state, for a non-empty list of pages of
  the memory that the MMU reaches (below 256), when no allocation in the mapping driver fails after it made the
  first dummy block of a region, the call returns. If it succeeds, the list is a sequence of runs of
  consecutive pages, the handle holds one address per run, every address of a run leads to the
  byte of the flash memory, and giving the handle back succeeds and leaves every address with the
  translation it had before. If it fails, whatever run could not be mapped, every
  address has the translation it had before.
\<close>

theorem mmap_pages_all_or_nothing:
  assumes "mmu_reach s" "\<forall>i. clean_alloc (driver_alloc al i)" "pages \<noteq> []" "set pages \<subseteq> {..<256}"
  shows "\<exists>e ptr h s'. spi_flash_mmap_pages al pages memory s = Some (e, ptr, h, s') \<and>
    (if e = ESP_OK
     then \<exists>block runs. h = Some block \<and> concat (map (\<lambda>(a, c). [a..<a + c]) runs) = pages \<and>
       length (vaddr_list block) = length runs \<and> ptr = Some (vaddr_list block ! 0) \<and>
       (\<forall>i off. i < length runs \<longrightarrow> off < snd (runs ! i) * PAGE \<longrightarrow>
          spi_flash_cache2phys (vaddr_list block ! i + off) s' = Some (fst (runs ! i) * PAGE + off)) \<and>
       (\<exists>s''. spi_flash_munmap block s' = Some s'' \<and>
          (\<forall>v. v < SIZE_LIM \<longrightarrow> spi_flash_cache2phys v s'' = spi_flash_cache2phys v s))
     else h = None \<and> (\<forall>v. v < SIZE_LIM \<longrightarrow> spi_flash_cache2phys v s' = spi_flash_cache2phys v s))"
  (is "\<exists>e ptr h s'. ?run e ptr h s' \<and> ?prop e ptr h s'")
proof -
  note inv = mmu_reach_inv [OF assms(1)]
  obtain q qs where pages: "pages = q # qs" using assms(3) by (cases pages) auto
  obtain bs where bs: "merge_loop (count_blocks 1 (q + 1) qs) (q + 1) [(q, 1)] qs = Some bs"
    "expand bs = pages" "\<forall>(a, c)\<in>set bs. 0 < c"
    using merge_loop_eq [of "[(q, 1)]" "[]" q 1 "q + 1" qs] by (auto simp: pages expand_def)
  let ?pb = "map (\<lambda>(a, c). (a * PAGE, c * PAGE)) bs"
  have pb: "s_pages_to_bytes bs = ?pb" "\<forall>b\<in>set ?pb. good_block b"
    using good_runs [OF assms(4) bs(2,3)] by (auto simp: s_pages_to_bytes_def)
  have start: "spi_flash_mmap_pages al pages memory s =
      (if \<not> mblock_ok al \<or> \<not> mlist_ok al then Some (ESP_ERR_NO_MEM, None, None, s)
       else do {
            (ret, vs, s1) \<leftarrow> map_blocks (driver_alloc al) 0 (caps_of_memory memory) ?pb s;
            if ret = ESP_OK then Some (ESP_OK, Some (hd vs), Some \<lparr>vaddr_list = vs, list_num = length vs\<rparr>, s1)
            else do { s2 \<leftarrow> unmap_blocks vs s1; Some (ret, None, None, s2) } })"
    using bs(1) by (simp add: spi_flash_mmap_pages_def pages s_find_non_contiguous_block_nums_def
        s_merge_contiguous_pages_def pb(1))
  show ?thesis
  proof (cases "mblock_ok al \<and> mlist_ok al")
    case False
    then show ?thesis using start by (intro exI [of _ ESP_ERR_NO_MEM] exI [of _ None] exI [of _ s]) auto
  next
    case True
    obtain e vs s1 s' where r: "map_blocks (driver_alloc al) 0 (caps_of_memory memory) ?pb s = Some (e, vs, s')"
      "length vs \<le> length ?pb" "mmu.map_seq s (requests ?pb vs) s1" "mmu_inv s'" "mmu_trans s' = mmu_trans s1"
      "mmu_blocks s' = mmu_blocks s1" "e = ESP_OK \<longrightarrow> length vs = length ?pb \<and> s' = s1"
      using map_blocks_run [of s "driver_alloc al" ?pb 0 "caps_of_memory memory"] inv assms(2) pb(2) by blast
    obtain s'' where u: "mmu.unmap_seq vs s' = Some s''" "mmu_trans s'' = mmu_trans s"
      using mmu.map_seq_unmap_seq [OF inv r(3-6)] requests_ptrs [OF r(2)] by metis
    have restored: "\<forall>v. v < SIZE_LIM \<longrightarrow> spi_flash_cache2phys v s'' = spi_flash_cache2phys v s" using cache2phys_cong [OF u(2)] by blast
    show ?thesis
    proof (cases "e = ESP_OK")
      case False
      then have "spi_flash_mmap_pages al pages memory s = Some (e, None, None, s'')"
        using start True r(1) unmap_seq_loops [OF u(1)] by simp
      with False restored show ?thesis by simp
    next
      case ok: True
      let ?block = "\<lparr>vaddr_list = vs, list_num = length vs\<rparr>"
      have len: "length vs = length bs" "s' = s1" using r(7) ok by simp_all
      have run: "spi_flash_mmap_pages al pages memory s = Some (ESP_OK, Some (hd vs), Some ?block, s')"
        using start True ok r(1) by simp
      have "bs \<noteq> []" using bs(2) pages by (auto simp: expand_def)
      then have "hd vs = vs ! 0" using len(1) by (intro hd_conv_nth) auto
      moreover have "spi_flash_cache2phys (vs ! i + off) s' = Some (fst (bs ! i) * PAGE + off)"
        if i: "i < length bs" "off < snd (bs ! i) * PAGE" for i off
      proof -
        let ?p = "fst (bs ! i) * PAGE" and ?n = "snd (bs ! i) * PAGE"
        have mem: "(?p, ?n, vs ! i) \<in> set (requests ?pb vs)"
          using i(1) len(1) by (auto simp: requests_def set_zip case_prod_beta intro!: image_eqI [of _ _ "((?p, ?n), vs ! i)"] exI [of _ i])
        obtain type l where l: "vs ! i = vaddr_base type + l" "l + ?n \<le> LINEAR_END"
          using map_seq_ptr [OF inv r(3) mem] by blast
        have "mmu_trans s' (mmu_ll_vaddr_to_laddr (vs ! i) + off) = Some (?p + off)"
          using mmu.map_seq_member [OF inv r(3) mem] i(2) len(2) by simp
        then show ?thesis using mapped_cache2phys [OF r(4) _ l(1)] l(2) i(2) by simp
      qed
      moreover have "spi_flash_munmap ?block s' = Some s''"
        using unmap_seq_loops [OF u(1)] by (simp add: spi_flash_munmap_def)
      ultimately have "?prop ESP_OK (Some (hd vs)) (Some ?block) s'"
        using len(1) restored bs(2) by (auto simp: expand_def intro!: exI [of _ ?block] exI [of _ bs])
      with run show ?thesis by blast
    qed
  qed
qed

subsection \<open>An example, and what the documentation says differently\<close>

definition all_mmap :: mmap_alloc where
  "all_mmap = \<lparr>mblock_ok = True, mlist_ok = True, driver_alloc = (\<lambda>i. all_memory)\<rparr>"

theorem mmap_pages_all_or_nothing_witness:
  "mmu_reach ex_mmu \<and> (\<exists>e ptr h s'. spi_flash_mmap_pages all_mmap [16, 17, 20] SPI_FLASH_MMAP_DATA ex_mmu = Some (e, ptr, h, s') \<and>
     (e = ESP_OK \<or> h = None \<and> spi_flash_cache2phys 0x3C020000 s' = spi_flash_cache2phys 0x3C020000 ex_mmu))"
proof -
  have "\<forall>i. clean_alloc (driver_alloc all_mmap i)" "set [16, 17, 20 :: nat] \<subseteq> {..<256}"
    by (simp_all add: all_mmap_def clean_alloc_def all_memory_def)
  from mmap_pages_all_or_nothing [OF ex_mmu_reach this(1) _ this(2), of SPI_FLASH_MMAP_DATA]
  obtain e ptr h s' where r: "spi_flash_mmap_pages all_mmap [16, 17, 20] SPI_FLASH_MMAP_DATA ex_mmu = Some (e, ptr, h, s')"
    "e \<noteq> ESP_OK \<longrightarrow> h = None \<and> (\<forall>v. v < SIZE_LIM \<longrightarrow> spi_flash_cache2phys v s' = spi_flash_cache2phys v ex_mmu)"
    by (auto split: if_splits)
  then show ?thesis using ex_mmu_reach by auto
qed

text \<open>The state after mapping two pages.\<close>

lemma ex_two_pages:
  obtains s b where "spi_flash_mmap all_mmap 0x100000 0x18000 SPI_FLASH_MMAP_DATA ex_mmu =
      Some (ESP_OK, Some (vaddr_start b), Some \<lparr>vaddr_list = [vaddr_start b], list_num = 1\<rparr>, s)"
    "mmu_reach s" "all_blocks s = [b]" "paddr_start b = 0x100000" "block_size b = 0x20000" "paddr_end b = 0x120000"
    "\<exists>m\<ge>0x10000. esp_mmu_map_get_max_consecutive_free_block_size ex_read MMU_TARGET_FLASH0 s = (ESP_OK, m)"
proof -
  have caps: "caps_of_memory SPI_FLASH_MMAP_DATA = ex_read" by (simp add: caps_of_memory_def ex_read_def)
  have sh: "flag_set ESP_MMU_MMAP_FLAG_PADDR_SHARED ESP_MMU_MMAP_FLAG_PADDR_SHARED"
    by (simp add: flag_set_def ESP_MMU_MMAP_FLAG_PADDR_SHARED_def)
  have reg: "mem_regions ex_mmu = [c3_region 0x20000]" by (simp add: ex_mmu_def start_state_def)
  have al: "head_ok all_memory" "tail_ok all_memory" "block_ok all_memory" by (simp_all add: all_memory_def)
  have c: "s_mem_caps_check ex_read = ESP_OK" "region_supports ex_read MMU_TARGET_FLASH0 (c3_region 0x20000)"
    by (simp_all add: s_mem_caps_check_def ex_read_def flag_set_def mmu_consts region_supports_def c3_region_def)
  have "\<exists>e ptr s. esp_mmu_map all_memory 0x100000 0x18000 MMU_TARGET_FLASH0 ex_read ESP_MMU_MMAP_FLAG_PADDR_SHARED ex_mmu = Some (e, ptr, s) \<and> e = ESP_OK"
    using esp_mmu_map_returns [OF mmu_reach_inv [OF ex_mmu_reach] reg al c(1) ex_size [symmetric] _ _ _ c(2), of "0x100000" ESP_MMU_MMAP_FLAG_PADDR_SHARED]
    by (simp add: ex_blocks c3_region_def)
  then obtain ptr s where m: "esp_mmu_map all_memory 0x100000 0x18000 MMU_TARGET_FLASH0 ex_read ESP_MMU_MMAP_FLAG_PADDR_SHARED ex_mmu = Some (ESP_OK, ptr, s)" by blast
  have ca: "clean_alloc all_memory" "0 < ALIGN_UP_BY 0x18000 CONFIG_MMU_PAGE_SIZE" by (simp_all add: clean_alloc_def all_memory_def ex_size)
  have reach: "mmu_reach s" using mmu_reach.map [OF ex_mmu_reach ca m] .
  obtain l where l: "ptr = Some (vaddr_base (vaddr_type_of ex_read) + l)" "l + 0x20000 \<le> LINEAR_END"
    and ab: "adds_block ex_mmu (new_mem_block l 0x20000 ex_read 0x100000 MMU_TARGET_FLASH0) s" and sp: "same_space ex_mmu s"
    using esp_mmu_map_effect [OF mmu_reach_inv [OF ex_mmu_reach] _ ex_size [symmetric] _ m] by (auto simp: all_memory_def)
  let ?b = "new_mem_block l 0x20000 ex_read 0x100000 MMU_TARGET_FLASH0"
  have blocks: "all_blocks s = [?b]" using ab ex_blocks by (simp add: adds_block_def)
  have mb: "mapped_block ?b" using ab by (simp add: adds_block_def)
  then have f: "vaddr_start ?b = vaddr_base (vaddr_type_of ex_read) + l" "paddr_end ?b = 0x120000" "laddr_end ?b = l + 0x20000"
    by (simp_all add: mapped_block_def)
  obtain r where r: "mem_regions s = [r]" using mmu_reach_one_region [OF reach] by blast
  have rf: "free_head r = 0x20000" "region_end r = LINEAR_END" "region_caps r = 27" "targets r = 1"
    using sp by (simp_all add: same_space_def r reg c3_region_def)
  have "inner r = [?b]" using blocks by (simp add: all_blocks_def r)
  then have "max_slot_size r = max (l - 0x20000) (LINEAR_END - (l + 0x20000))"
    using blocks_ok_inner [of r] mmu_reach_inv [OF reach] rf f by (simp add: mmu_inv_def r region_ok_def)
  then have "0x10000 \<le> max_slot_size r" by linarith
  moreover have "esp_mmu_map_get_max_consecutive_free_block_size ex_read MMU_TARGET_FLASH0 s = (ESP_OK, max_slot_size r)"
    using c(1) rf calculation by (simp add: esp_mmu_map_get_max_consecutive_free_block_size_def r region_supports_def ex_read_def mmu_consts)
  moreover have "spi_flash_mmap all_mmap 0x100000 0x18000 SPI_FLASH_MMAP_DATA ex_mmu =
      Some (ESP_OK, Some (vaddr_start ?b), Some \<lparr>vaddr_list = [vaddr_start ?b], list_num = 1\<rparr>, s)"
    using m l f by (simp add: spi_flash_mmap_def all_mmap_def caps)
  ultimately show thesis using that [of ?b s] reach blocks f by auto
qed

text \<open>The second call asks for the second page of a mapped block: it returns the address of the first one.\<close>

lemma ex_second_page:
  assumes "mmu_reach s" "all_blocks s = [b]" "paddr_start b = 0x100000" "block_size b = 0x20000" "paddr_end b = 0x120000"
    and "esp_mmu_map_get_max_consecutive_free_block_size ex_read MMU_TARGET_FLASH0 s = (ESP_OK, m)" "0x10000 \<le> m"
  obtains s2 where "spi_flash_mmap all_mmap 0x110000 0x10000 SPI_FLASH_MMAP_DATA s =
      Some (ESP_OK, Some (vaddr_start b), Some \<lparr>vaddr_list = [0], list_num = 0\<rparr>, s2)"
    "mmu_reach s2" "mmu_trans s2 = mmu_trans s" "mmu_blocks s2 = mmu_blocks s" "all_blocks s2 = [b]"
proof -
  have caps: "caps_of_memory SPI_FLASH_MMAP_DATA = ex_read" by (simp add: caps_of_memory_def ex_read_def)
  have sh: "flag_set ESP_MMU_MMAP_FLAG_PADDR_SHARED ESP_MMU_MMAP_FLAG_PADDR_SHARED"
    by (simp add: flag_set_def ESP_MMU_MMAP_FLAG_PADDR_SHARED_def)
  have sz: "0x10000 = ALIGN_UP_BY 0x10000 CONFIG_MMU_PAGE_SIZE" by (simp add: align_up_eq sz_simps)
  have al: "head_ok all_memory" "tail_ok all_memory" "block_ok all_memory" by (simp_all add: all_memory_def)
  have c: "s_mem_caps_check ex_read = ESP_OK" by (simp add: s_mem_caps_check_def ex_read_def flag_set_def mmu_consts)
  obtain r where r: "mem_regions s = [r]" using mmu_reach_one_region [OF assms(1)] by blast
  have fit: "region_supports ex_read MMU_TARGET_FLASH0 r" "0x10000 \<le> max_slot_size r"
    using max_block_size_iff [OF assms(6), of "0x10000"] assms(7) r by auto
  obtain e ptr s2 where m: "esp_mmu_map all_memory 0x110000 0x10000 MMU_TARGET_FLASH0 ex_read ESP_MMU_MMAP_FLAG_PADDR_SHARED s = Some (e, ptr, s2)"
    and e: "e = ESP_OK \<longleftrightarrow> \<not> encloses 0x110000 0x10000 b"
      "e \<noteq> ESP_OK \<longrightarrow> e = ESP_ERR_INVALID_STATE \<and> ptr = Some (vaddr_start b)"
    using esp_mmu_map_returns [OF mmu_reach_inv [OF assms(1)] r al c sz _ _ _ fit, of "0x110000" ESP_MMU_MMAP_FLAG_PADDR_SHARED] sh
    by (auto simp: assms(2))
  have en: "encloses 0x110000 0x10000 b" using assms by (simp add: encloses_def)
  have ca: "clean_alloc all_memory" "0 < ALIGN_UP_BY 0x10000 CONFIG_MMU_PAGE_SIZE"
    by (simp_all add: clean_alloc_def all_memory_def sz [symmetric])
  have "mmu_tab s2 = mmu_tab s" "mset (all_blocks s2) = mset (all_blocks s)"
    using esp_mmu_map_effect [OF mmu_reach_inv [OF assms(1)] _ sz _ m] e en by (simp_all add: all_memory_def)
  then have "mmu_trans s2 = mmu_trans s" "mmu_blocks s2 = mmu_blocks s" "all_blocks s2 = [b]"
    using assms(2) mset_eq_setD by (auto simp: mmu_trans_def mmu_blocks_def fun_eq_iff)
  moreover have "spi_flash_mmap all_mmap 0x110000 0x10000 SPI_FLASH_MMAP_DATA s =
      Some (ESP_OK, Some (vaddr_start b), Some \<lparr>vaddr_list = [0], list_num = 0\<rparr>, s2)"
    using m e en by (simp add: spi_flash_mmap_def all_mmap_def caps)
  ultimately show thesis using that mmu_reach.map [OF assms(1) ca m] by blast
qed

text \<open>
  A second mapping inside of a mapped block succeeds with a pointer that leads to other data: the driver
  returns the start of the enclosing block, and \<open>spi_flash_mmap\<close> hands this address out as the address of the
  requested page.
\<close>

theorem enclosed_mapping_wrong_address:
  "\<exists>ptr1 h1 s1 ptr2 h2 s2.
     spi_flash_mmap all_mmap 0x100000 0x18000 SPI_FLASH_MMAP_DATA ex_mmu = Some (ESP_OK, Some ptr1, Some h1, s1) \<and>
     spi_flash_mmap all_mmap 0x110000 0x10000 SPI_FLASH_MMAP_DATA s1 = Some (ESP_OK, Some ptr2, Some h2, s2) \<and>
     spi_flash_cache2phys ptr2 s2 = Some 0x100000"
proof -
  obtain s b where s: "spi_flash_mmap all_mmap 0x100000 0x18000 SPI_FLASH_MMAP_DATA ex_mmu =
      Some (ESP_OK, Some (vaddr_start b), Some \<lparr>vaddr_list = [vaddr_start b], list_num = 1\<rparr>, s)"
    "mmu_reach s" "all_blocks s = [b]" "paddr_start b = 0x100000" "block_size b = 0x20000" "paddr_end b = 0x120000"
    "\<exists>m\<ge>0x10000. esp_mmu_map_get_max_consecutive_free_block_size ex_read MMU_TARGET_FLASH0 s = (ESP_OK, m)"
    using ex_two_pages .
  obtain s2 where s2: "spi_flash_mmap all_mmap 0x110000 0x10000 SPI_FLASH_MMAP_DATA s =
      Some (ESP_OK, Some (vaddr_start b), Some \<lparr>vaddr_list = [0], list_num = 0\<rparr>, s2)" "mmu_reach s2" "all_blocks s2 = [b]"
    using s(7) ex_second_page [OF s(2-6)] by blast
  have "vaddr_start b \<noteq> 0"
    using block_translates(1) [OF mmu_reach_inv [OF s(2)], of b] s(3) vaddr_base_pos by (simp add: mapped_block_def)
  then have "spi_flash_cache2phys (vaddr_start b) s2 = Some 0x100000"
    using block_query [OF mmu_reach_inv [OF s2(2)], of b 0] s2(3) s(4,5) by (simp add: spi_flash_cache2phys_def)
  with s(1) s2(1) show ?thesis by blast
qed

text \<open>
  The second handle of the same memory does not keep it mapped: after the first handle was given back, the
  pointer that belongs to the second one leads nowhere.
\<close>

theorem munmap_unmaps_shared_block:
  "\<exists>ptr1 h1 s1 ptr2 h2 s2 s3.
     spi_flash_mmap all_mmap 0x100000 0x18000 SPI_FLASH_MMAP_DATA ex_mmu = Some (ESP_OK, Some ptr1, Some h1, s1) \<and>
     spi_flash_mmap all_mmap 0x110000 0x10000 SPI_FLASH_MMAP_DATA s1 = Some (ESP_OK, Some ptr2, Some h2, s2) \<and>
     spi_flash_munmap h1 s2 = Some s3 \<and> spi_flash_cache2phys ptr2 s3 = Some SPI_FLASH_CACHE2PHYS_FAIL"
proof -
  obtain s b where s: "spi_flash_mmap all_mmap 0x100000 0x18000 SPI_FLASH_MMAP_DATA ex_mmu =
      Some (ESP_OK, Some (vaddr_start b), Some \<lparr>vaddr_list = [vaddr_start b], list_num = 1\<rparr>, s)"
    "mmu_reach s" "all_blocks s = [b]" "paddr_start b = 0x100000" "block_size b = 0x20000" "paddr_end b = 0x120000"
    "\<exists>m\<ge>0x10000. esp_mmu_map_get_max_consecutive_free_block_size ex_read MMU_TARGET_FLASH0 s = (ESP_OK, m)"
    using ex_two_pages .
  obtain s2 where s2: "spi_flash_mmap all_mmap 0x110000 0x10000 SPI_FLASH_MMAP_DATA s =
      Some (ESP_OK, Some (vaddr_start b), Some \<lparr>vaddr_list = [0], list_num = 0\<rparr>, s2)" "mmu_reach s2" "all_blocks s2 = [b]"
    using s(7) ex_second_page [OF s(2-6)] by blast
  note inv = mmu_reach_inv [OF s2(2)]
  have mb: "mapped_block b" "laddr_end b \<le> LINEAR_END" using block_translates [OF inv, of b] s2(3) by simp_all
  let ?t = "vaddr_type_of (block_caps b)"
  have v: "vaddr_start b = vaddr_base ?t + laddr_start b" "laddr_start b < LINEAR_END" "laddr_end b = laddr_start b + 0x20000"
    using mb s(5) by (simp_all add: mapped_block_def)
  have ptr: "vaddr_start b \<noteq> 0" "mmu_ll_vaddr_to_laddr (vaddr_start b) = laddr_start b"
    unfolding v(1) using vaddr_of_laddr [OF v(2)] by simp_all
  obtain s3 where u: "esp_mmu_unmap (vaddr_start b) s2 = Some (ESP_OK, s3)" "drops_block s2 b s3"
    using esp_mmu_unmap_block [OF inv _ ptr] s2(3) by auto
  have "mmu_trans s3 (laddr_start b) = None" using u(2) v by (simp add: drops_block_def mmu_trans_def)
  then have "spi_flash_cache2phys (vaddr_start b) s3 = Some SPI_FLASH_CACHE2PHYS_FAIL"
    using esp_mmu_vaddr_to_paddr_trans [OF v(2), of ?t s3] ptr(1) by (simp add: spi_flash_cache2phys_def v(1))
  moreover have "spi_flash_munmap \<lparr>vaddr_list = [vaddr_start b], list_num = 1\<rparr> s2 = Some s3"
    using u(1) by (simp add: spi_flash_munmap_def)
  ultimately show ?thesis using s(1) s2(1) by blast
qed

text \<open>
  After a write to flash memory the cache is invalidated only for pages at which a mapped block starts: for
  the second page of a mapped block nothing is invalidated, although the page can be read through the
  cache.
\<close>

theorem later_page_not_flushed:
  "\<exists>ptr h s. spi_flash_mmap all_mmap 0x100000 0x18000 SPI_FLASH_MMAP_DATA ex_mmu = Some (ESP_OK, Some ptr, Some h, s) \<and>
     spi_flash_cache2phys (ptr + 0x10000) s = Some 0x110000 \<and>
     spi_flash_check_and_flush_cache 0x400000 0x110000 0x1000 s = Some (False, s)"
proof -
  obtain s b where s: "spi_flash_mmap all_mmap 0x100000 0x18000 SPI_FLASH_MMAP_DATA ex_mmu =
      Some (ESP_OK, Some (vaddr_start b), Some \<lparr>vaddr_list = [vaddr_start b], list_num = 1\<rparr>, s)"
    "mmu_reach s" "all_blocks s = [b]" "paddr_start b = 0x100000" "block_size b = 0x20000"
    using ex_two_pages .
  note inv = mmu_reach_inv [OF s(2)]
  obtain r where r: "mem_regions s = [r]" using mmu_reach_one_region [OF s(2)] by blast
  have ok: "region_ok r" using inv r by (simp add: mmu_inv_def)
  obtain h bs t where u: "in_use r h bs t"
    using ok s(3) by (auto simp: all_blocks_def r region_ok_def inner_def elim!: blocks_ok_cases)
  have "bs = [b]" using inner_in_use [OF u] s(3) by (simp add: all_blocks_def r)
  then have "find_block (\<lambda>b. paddr_start b = 0x110000) (mem_block_head r) = Some None"
    using find_block_in_use [OF u ok] s(4) by simp
  then have "is_page_mapped_in_cache 0x110000 s = Some (False, 0)"
    by (simp add: is_page_mapped_in_cache_def esp_mmu_paddr_find_caps_def r)
  moreover have "ALIGN_DOWN_BY 0x110000 CONFIG_MMU_PAGE_SIZE = 0x110000" "ALIGN_UP_BY 0x1000 CONFIG_MMU_PAGE_SIZE = 0x10000"
    by (simp_all add: align_down_eq align_up_eq sz_simps)
  ultimately have "spi_flash_check_and_flush_cache 0x400000 0x110000 0x1000 s = Some (False, s)"
    by (simp add: spi_flash_check_and_flush_cache_def Let_def sz_simps CONFIG_MMU_PAGE_SIZE_def)
  moreover have "spi_flash_cache2phys (vaddr_start b + 0x10000) s = Some 0x110000"
    using block_query [OF inv, of b "0x10000"] s(3-5) by (simp add: spi_flash_cache2phys_def)
  ultimately show ?thesis using s(1) by blast
qed

subsection \<open>Pages that are not contiguous\<close>

text \<open>Evaluation of a mapping call on a list that is in use.\<close>

lemma esp_mmu_map_eval:
  assumes "length (mmu_tab s) = SOC_MMU_ENTRY_NUM" "mem_regions s = [r]" "mem_block_head r = bs" "bs \<noteq> []"
    and "region_supports caps MMU_TARGET_FLASH0 r" "s_mem_caps_check caps = ESP_OK" "block_ok al"
    and sz: "ALIGN_UP_BY n CONFIG_MMU_PAGE_SIZE = k * PAGE" "0 < k" "k * PAGE \<le> max_slot_size r"
    and p: "p mod PAGE = 0" "p + k * PAGE \<le> PADDR_END"
    and "paddr_check MMU_TARGET_FLASH0 p (k * PAGE) (flag_set flgs ESP_MMU_MMAP_FLAG_PADDR_SHARED) bs = Some Separate"
    and "slot_loop (k * PAGE) 0 (laddr_end (hd bs)) None 0 bs = Some (Some (j, l), m)"
    and l: "l mod PAGE = 0" "l + k * PAGE \<le> LINEAR_END"
  shows "\<exists>s'. esp_mmu_map al p n MMU_TARGET_FLASH0 caps flgs s = Some (ESP_OK, Some (vaddr_base (vaddr_type_of caps) + l), s') \<and>
    mem_regions s' = [r\<lparr>mem_block_head := insert_at j (new_mem_block l (k * PAGE) caps p MMU_TARGET_FLASH0) bs, max_slot_size := m\<rparr>] \<and>
    length (mmu_tab s') = SOC_MMU_ENTRY_NUM"
proof -
  have v: "vaddr_start (new_mem_block l (k * PAGE) caps p MMU_TARGET_FLASH0) = vaddr_base (vaddr_type_of caps) + l"
    using new_block_mapped(5) [OF l(1) _ _ l(2) p] sz(2) by simp
  have "map_in_region 0 r p (k * PAGE) MMU_TARGET_FLASH0 caps s =
      Some (ESP_OK, Some (vaddr_base (vaddr_type_of caps) + l),
        s\<lparr>mem_regions := [r\<lparr>mem_block_head := insert_at j (new_mem_block l (k * PAGE) caps p MMU_TARGET_FLASH0) bs, max_slot_size := m\<rparr>],
          mmu_tab := put_pages (l div PAGE) k (p div PAGE) (mmu_tab s), enabled_buses := enabled_buses s OR bus_of caps,
          invalidated := (vaddr_base (vaddr_type_of caps) + l, k * PAGE) # invalidated s\<rparr>)"
    using assms map_region_eq [OF assms(1) l(1) sz(2) l(2) p, of "vaddr_type_of caps"] get_bus_eq [of "k * PAGE" l "vaddr_type_of caps"]
    by (simp add: map_in_region_def s_do_mapping_def Let_def bus_of_def v)
  moreover have e: "s\<lparr>mem_regions := [r]\<rparr> = s" using assms(2) by simp
  moreover have "\<not> flag_set MMU_TARGET_FLASH0 MMU_TARGET_PSRAM0" by (simp add: flag_set_def mmu_consts)
  ultimately show ?thesis
    using assms by (simp add: esp_mmu_map_def with_dummies_def Let_def mod_config_page e)
qed

text \<open>States of the example with a given list of blocks and a given largest slot.\<close>

definition ex_at :: "mem_block_t list \<Rightarrow> nat \<Rightarrow> mmu_st \<Rightarrow> bool" where
  "ex_at bs m s \<longleftrightarrow> mem_regions s = [(c3_region 0x20000)\<lparr>mem_block_head := bs, max_slot_size := m\<rparr>] \<and>
     length (mmu_tab s) = SOC_MMU_ENTRY_NUM"

abbreviation ex_block :: "nat \<Rightarrow> nat \<Rightarrow> nat \<Rightarrow> mem_block_t" where
  "ex_block l n p \<equiv> new_mem_block l n ex_read p MMU_TARGET_FLASH0"

lemma ex_caps:
  "caps_of_memory SPI_FLASH_MMAP_DATA = ex_read" "s_mem_caps_check ex_read = ESP_OK"
  "vaddr_base (vaddr_type_of ex_read) = 0x3C000000"
  "region_supports ex_read MMU_TARGET_FLASH0 ((c3_region 0x20000)\<lparr>mem_block_head := bs, max_slot_size := m\<rparr>)"
  by (simp_all add: caps_of_memory_def ex_read_def s_mem_caps_check_def flag_set_def mmu_consts vaddr_base_def
      vaddr_type_of_def region_supports_def c3_region_def)

lemma ex_map_at:
  assumes "ex_at bs m s" "bs \<noteq> []" "0 < k" "k * PAGE \<le> m" "k * PAGE < LINEAR_END"
    and "p mod PAGE = 0" "p + k * PAGE \<le> PADDR_END"
    and "paddr_check MMU_TARGET_FLASH0 p (k * PAGE) True bs = Some Separate"
    and "slot_loop (k * PAGE) 0 (laddr_end (hd bs)) None 0 bs = Some (Some (j, l), m')"
    and "l mod PAGE = 0" "l + k * PAGE \<le> LINEAR_END"
  obtains s' where "esp_mmu_map all_memory p (k * PAGE) MMU_TARGET_FLASH0 ex_read ESP_MMU_MMAP_FLAG_PADDR_SHARED s
      = Some (ESP_OK, Some (0x3C000000 + l), s')" "ex_at (insert_at j (ex_block l (k * PAGE) p) bs) m' s'"
proof -
  have sz: "ALIGN_UP_BY (k * PAGE) CONFIG_MMU_PAGE_SIZE = k * PAGE" using assms(5) by (simp add: align_up_eq sz_simps)
  have sh: "flag_set ESP_MMU_MMAP_FLAG_PADDR_SHARED ESP_MMU_MMAP_FLAG_PADDR_SHARED"
    by (simp add: flag_set_def ESP_MMU_MMAP_FLAG_PADDR_SHARED_def)
  show thesis
    using esp_mmu_map_eval [of s "(c3_region 0x20000)\<lparr>mem_block_head := bs, max_slot_size := m\<rparr>" bs ex_read all_memory
        "k * PAGE" k p ESP_MMU_MMAP_FLAG_PADDR_SHARED j l m'] assms sz sh ex_caps that
    by (auto simp: ex_at_def all_memory_def)
qed

text \<open>The first call makes the dummy blocks.\<close>

lemma ex_first:
  "esp_mmu_map all_memory 0x100000 (1 * PAGE) MMU_TARGET_FLASH0 ex_read flgs ex_mmu =
   esp_mmu_map all_memory 0x100000 (1 * PAGE) MMU_TARGET_FLASH0 ex_read flgs
     (ex_mmu\<lparr>mem_regions := [(c3_region 0x20000)\<lparr>mem_block_head := [dummy_block 0x20000 ex_read, dummy_block LINEAR_END ex_read],
        max_slot_size := 0x7E0000\<rparr>]\<rparr>)"
proof -
  let ?r = "c3_region 0x20000" and ?L = "[dummy_block 0x20000 ex_read, dummy_block LINEAR_END ex_read]"
  have "ALIGN_UP_BY (1 * PAGE) CONFIG_MMU_PAGE_SIZE = PAGE" by (simp add: align_up_eq sz_simps)
  moreover have r: "?r\<lparr>mem_block_head := ?L, max_slot_size := 0x7E0000\<rparr> = ?r\<lparr>mem_block_head := ?L\<rparr>"
    by (simp add: c3_region_def)
  moreover have "region_supports ex_read MMU_TARGET_FLASH0 (?r\<lparr>mem_block_head := ?L\<rparr>)" "region_supports ex_read MMU_TARGET_FLASH0 ?r"
    using ex_caps(4) by (simp_all add: region_supports_def)
  moreover have "with_dummies all_memory ex_read ?r = (None, True, ?r\<lparr>mem_block_head := ?L\<rparr>)"
    "with_dummies all_memory ex_read (?r\<lparr>mem_block_head := ?L\<rparr>) = (None, False, ?r\<lparr>mem_block_head := ?L\<rparr>)"
    "max_slot_size ?r = 0x7E0000"
    by (simp_all add: with_dummies_def all_memory_def c3_region_def)
  moreover have "\<not> flag_set MMU_TARGET_FLASH0 MMU_TARGET_PSRAM0" by (simp add: flag_set_def mmu_consts)
  moreover have "mem_regions ex_mmu = [?r]" "block_ok all_memory" by (simp_all add: ex_mmu_def start_state_def all_memory_def)
  ultimately show ?thesis
    unfolding r by (simp add: esp_mmu_map_def ex_caps(2) Let_def mod_config_page)
qed

lemmas ex_block_simps = new_mem_block_def zero_block_def dummy_block_def sz_simps s_is_enclosed_def s_is_overlapped_def
  MMU_TARGET_FLASH0_def Let_def insert_at_def

lemma ex_two_blocks:
  obtains s1 s2 where
    "esp_mmu_map all_memory 0x100000 (1 * PAGE) MMU_TARGET_FLASH0 ex_read ESP_MMU_MMAP_FLAG_PADDR_SHARED ex_mmu
      = Some (ESP_OK, Some 0x3C020000, s1)"
    "esp_mmu_map all_memory 0x200000 (1 * PAGE) MMU_TARGET_FLASH0 ex_read ESP_MMU_MMAP_FLAG_PADDR_SHARED s1
      = Some (ESP_OK, Some 0x3C030000, s2)"
    "ex_at [dummy_block 0x20000 ex_read, ex_block 0x20000 PAGE 0x100000, ex_block 0x30000 PAGE 0x200000,
       dummy_block LINEAR_END ex_read] 0x7C0000 s2"
proof -
  let ?d = "dummy_block 0x20000 ex_read" and ?e = "dummy_block LINEAR_END ex_read"
  let ?s = "ex_mmu\<lparr>mem_regions := [(c3_region 0x20000)\<lparr>mem_block_head := [?d, ?e], max_slot_size := 0x7E0000\<rparr>]\<rparr>"
  have "ex_at [?d, ?e] 0x7E0000 ?s" by (simp add: ex_at_def ex_mmu_def start_state_def SOC_MMU_ENTRY_NUM_def)
  then obtain s1 where s1: "esp_mmu_map all_memory 0x100000 (1 * PAGE) MMU_TARGET_FLASH0 ex_read ESP_MMU_MMAP_FLAG_PADDR_SHARED ?s
      = Some (ESP_OK, Some (0x3C000000 + 0x20000), s1)" "ex_at (insert_at 1 (ex_block 0x20000 (1 * PAGE) 0x100000) [?d, ?e]) 0x7D0000 s1"
    by (rule ex_map_at [where k = 1 and p = "0x100000" and j = 1 and l = "0x20000" and m' = "0x7D0000"])
      (simp_all add: ex_block_simps)
  have l1: "insert_at 1 (ex_block 0x20000 (1 * PAGE) 0x100000) [?d, ?e] = [?d, ex_block 0x20000 PAGE 0x100000, ?e]"
    by (simp add: insert_at_def)
  obtain s2 where s2: "esp_mmu_map all_memory 0x200000 (1 * PAGE) MMU_TARGET_FLASH0 ex_read ESP_MMU_MMAP_FLAG_PADDR_SHARED s1
      = Some (ESP_OK, Some (0x3C000000 + 0x30000), s2)"
    "ex_at (insert_at 2 (ex_block 0x30000 (1 * PAGE) 0x200000) [?d, ex_block 0x20000 PAGE 0x100000, ?e]) 0x7C0000 s2"
    using s1(2) [unfolded l1]
    by (rule ex_map_at [where k = 1 and p = "0x200000" and j = 2 and l = "0x30000" and m' = "0x7C0000"])
      (simp_all add: ex_block_simps)
  show thesis
    by (rule that [of s1 s2]) (use s1(1) s2 in \<open>simp_all add: ex_first [unfolded mult_1] insert_at_def\<close>)
qed

lemma ex_hole:
  assumes "ex_at [dummy_block 0x20000 ex_read, ex_block 0x20000 PAGE 0x100000, ex_block 0x30000 PAGE 0x200000,
       dummy_block LINEAR_END ex_read] 0x7C0000 s"
  obtains s' where "esp_mmu_unmap 0x3C020000 s = Some (ESP_OK, s')"
    "ex_at [dummy_block 0x20000 ex_read, ex_block 0x30000 PAGE 0x200000, dummy_block LINEAR_END ex_read] 0x7C0000 s'"
proof -
  let ?L = "[dummy_block 0x20000 ex_read, ex_block 0x20000 PAGE 0x100000, ex_block 0x30000 PAGE 0x200000, dummy_block LINEAR_END ex_read]"
  have r: "mem_regions s = [(c3_region 0x20000)\<lparr>mem_block_head := ?L, max_slot_size := 0x7C0000\<rparr>]"
    and t: "length (mmu_tab s) = SOC_MMU_ENTRY_NUM" using assms by (simp_all add: ex_at_def)
  have v: "vaddr_start (ex_block 0x20000 PAGE 0x100000) = vaddr_base (vaddr_type_of ex_read) + 0x20000"
    using new_block_mapped(5) [of "0x20000" PAGE "0x100000" ex_read] by simp
  have "mmu_hal_unmap_region (vaddr_start (ex_block 0x20000 PAGE 0x100000)) PAGE (mmu_tab s) = Some (clear_pages 2 1 (mmu_tab s))"
    using unmap_region_eq [OF t, of "0x20000" 1 "vaddr_type_of ex_read"] by (simp add: v)
  moreover have "region_of_laddr 0x20000 (mem_regions s) = Some 0" by (simp add: r region_of_laddr_def c3_region_def)
  moreover have "find_block (\<lambda>b. laddr_start b = 0x20000) ?L = Some (Some 1)"
    by (simp add: find_block_def ex_block_simps)
  moreover have "mmu_ll_vaddr_to_laddr 0x3C020000 = 0x20000" by (simp add: vaddr_to_laddr_mod)
  ultimately have "esp_mmu_unmap 0x3C020000 s = Some (ESP_OK, s\<lparr>mmu_tab := clear_pages 2 1 (mmu_tab s),
      mem_regions := [(c3_region 0x20000)\<lparr>max_slot_size := 0x7C0000, mem_block_head := remove_at 1 ?L\<rparr>]\<rparr>)"
    using esp_mmu_unmap_eval [of "0x3C020000" "0x20000" s 0 _ ?L 1 "clear_pages 2 1 (mmu_tab s)"]
    by (simp add: r new_mem_block_def zero_block_def dummy_block_def sz_simps)
  then show thesis
    by (rule that) (simp add: ex_at_def remove_at_def t clear_pages_def c3_region_def)
qed

text \<open>
  The pages of one call are mapped contiguously, says the documentation. When the address space has
  a hole they are not: after two pages were mapped and the first one was released, the call for the pages 5, 6 and 9
  succeeds, but the run of the pages 5 and 6 lies behind the hole and the page 9 in it.
\<close>

theorem mmap_pages_not_contiguous:
  "\<exists>s1 s2 s3 s4 h1 h2 h.
     spi_flash_mmap all_mmap 0x100000 PAGE SPI_FLASH_MMAP_DATA ex_mmu = Some (ESP_OK, Some 0x3C020000, Some h1, s1) \<and>
     spi_flash_mmap all_mmap 0x200000 PAGE SPI_FLASH_MMAP_DATA s1 = Some (ESP_OK, Some 0x3C030000, Some h2, s2) \<and>
     spi_flash_munmap h1 s2 = Some s3 \<and>
     spi_flash_mmap_pages all_mmap [5, 6, 9] SPI_FLASH_MMAP_DATA s3 = Some (ESP_OK, Some 0x3C040000, Some h, s4) \<and>
     vaddr_list h = [0x3C040000, 0x3C020000]"
proof -
  let ?d = "dummy_block 0x20000 ex_read" and ?e = "dummy_block LINEAR_END ex_read" and ?b = "ex_block 0x30000 PAGE 0x200000"
  obtain s1 s2 where s1: "esp_mmu_map all_memory 0x100000 (1 * PAGE) MMU_TARGET_FLASH0 ex_read ESP_MMU_MMAP_FLAG_PADDR_SHARED ex_mmu
      = Some (ESP_OK, Some 0x3C020000, s1)"
    and s2: "esp_mmu_map all_memory 0x200000 (1 * PAGE) MMU_TARGET_FLASH0 ex_read ESP_MMU_MMAP_FLAG_PADDR_SHARED s1
      = Some (ESP_OK, Some 0x3C030000, s2)" "ex_at [?d, ex_block 0x20000 PAGE 0x100000, ?b, ?e] 0x7C0000 s2"
    using ex_two_blocks .
  obtain s3 where s3: "esp_mmu_unmap 0x3C020000 s2 = Some (ESP_OK, s3)" "ex_at [?d, ?b, ?e] 0x7C0000 s3"
    using ex_hole [OF s2(2)] .
  obtain s4 where s4: "esp_mmu_map all_memory 0x50000 (2 * PAGE) MMU_TARGET_FLASH0 ex_read ESP_MMU_MMAP_FLAG_PADDR_SHARED s3
      = Some (ESP_OK, Some (0x3C000000 + 0x40000), s4)" "ex_at (insert_at 2 (ex_block 0x40000 (2 * PAGE) 0x50000) [?d, ?b, ?e]) 0x7A0000 s4"
    using s3(2)
    by (rule ex_map_at [where k = 2 and p = "0x50000" and j = 2 and l = "0x40000" and m' = "0x7A0000"])
      (simp_all add: ex_block_simps)
  have l4: "insert_at 2 (ex_block 0x40000 (2 * PAGE) 0x50000) [?d, ?b, ?e] = [?d, ?b, ex_block 0x40000 0x20000 0x50000, ?e]"
    by (simp add: insert_at_def)
  obtain s5 where s5: "esp_mmu_map all_memory 0x90000 (1 * PAGE) MMU_TARGET_FLASH0 ex_read ESP_MMU_MMAP_FLAG_PADDR_SHARED s4
      = Some (ESP_OK, Some (0x3C000000 + 0x20000), s5)"
    using s4(2) [unfolded l4]
    by (rule ex_map_at [where k = 1 and p = "0x90000" and j = 1 and l = "0x20000" and m' = "0x7A0000"])
      (simp_all add: ex_block_simps)
  have m: "spi_flash_mmap all_mmap 0x100000 PAGE SPI_FLASH_MMAP_DATA ex_mmu =
      Some (ESP_OK, Some 0x3C020000, Some \<lparr>vaddr_list = [0x3C020000], list_num = 1\<rparr>, s1)"
    "spi_flash_mmap all_mmap 0x200000 PAGE SPI_FLASH_MMAP_DATA s1 =
      Some (ESP_OK, Some 0x3C030000, Some \<lparr>vaddr_list = [0x3C030000], list_num = 1\<rparr>, s2)"
    using s1 s2(1) by (simp_all add: spi_flash_mmap_def all_mmap_def ex_caps(1))
  moreover have "spi_flash_munmap \<lparr>vaddr_list = [0x3C020000], list_num = 1\<rparr> s2 = Some s3"
    using s3(1) by (simp add: spi_flash_munmap_def)
  moreover have "spi_flash_mmap_pages all_mmap [5, 6, 9] SPI_FLASH_MMAP_DATA s3 =
      Some (ESP_OK, Some 0x3C040000, Some \<lparr>vaddr_list = [0x3C040000, 0x3C020000], list_num = 2\<rparr>, s5)"
    using s4(1) s5
    by (simp add: spi_flash_mmap_pages_def s_find_non_contiguous_block_nums_def s_merge_contiguous_pages_def s_pages_to_bytes_def
        all_mmap_def ex_caps(1) sz_simps CONFIG_MMU_PAGE_SIZE_def)
  ultimately show ?thesis by (metis mmap_block_t.select_convs(1))
qed

end
