(* ===== verification/Spec2Isabelle.thy ===== *)
theory Spec2Isabelle
  imports Ringbuf_Spec Esp_Timer_Spec Log_Spec Partition_Spec Ota_Boot_Spec Ota_Write_Spec Ota_Session Boot_Spec Event_Spec
    Vfs_Spec Console_Spec Httpd_Uri_Spec Flash_Mmap_Spec
begin

section \<open>Verification of core components of ESP-IDF\<close>

text \<open>
  The program is the Espressif IoT Development Framework (C sources under
  \<open>src/esp-idf/components/\<close>). The development covers components with their own algorithms and state,
  and the way they work together.

  \<^bold>\<open>Parts of the program, and the theories that model them.\<close>

  \<^item> \<open>Prelude\<close>: 32-bit \<open>size_t\<close> arithmetic with wrap-around, assertions as \<open>option\<close>, flag words,
    little-endian byte memory, error codes.
  \<^item> Ring buffers, \<open>esp_ringbuf/ringbuf.c\<close>. \<open>Ringbuf\<close>: \<open>Ringbuffer_t\<close> over raw bytes, item headers and
    the static functions (fit checks, copies, retrieval, return, current maximum size) for no-split,
    allow-split and byte buffers. \<open>Ringbuf_Api\<close>: creation, send, acquire, receive, return, queries.
    \<open>Channel\<close> is the interface of a first-in first-out channel as a locale; \<open>Ringbuf_Byte\<close> and
    \<open>Ringbuf_NoSplit\<close> interpret it on the two kinds of buffer; \<open>Ringbuf_Spec\<close> holds C1 to C3.
  \<^item> High resolution timers, \<open>esp_timer/src/esp_timer.c\<close>, \<open>esp_timer_impl_common.c\<close>,
    \<open>esp_timer_impl_systimer.c\<close>. \<open>Esp_Timer\<close>: timer objects in a store, the two sorted lists, the alarm
    table, start, stop, restart, delete, processing of alarms with callbacks. \<open>Esp_Timer_Inv\<close> and
    \<open>Esp_Timer_Steps\<close>: the invariant and the step relation \<open>tm_api\<close> of all calls; the locale
    \<open>alarm_table\<close> is the contract of the hardware alarm. \<open>Esp_Timer_Spec\<close> holds C4 to C6.
  \<^item> Log levels, \<open>log/log.c\<close>. \<open>Log\<close>: tag list and the cache of tags, a heap by generation. \<open>Log_Spec\<close>:
    the locale \<open>level_table\<close> of a plain table and its interpretation; C7, C8.
  \<^item> Partitions, \<open>esp_partition/partition.c\<close>, \<open>partition_target.c\<close>,
    \<open>bootloader_support/src/flash_partitions.c\<close>. \<open>Partition\<close>: the flash chip as a NOR memory, table
    loading, iterators, registration, access through a partition. \<open>Partition_Spec\<close>: C14, C15.
  \<^item> Over-the-air updates, \<open>app_update/esp_ota_ops.c\<close> and
    \<open>bootloader_support/src/bootloader_common_loader.c\<close>. \<open>Ota\<close>: entries of the OTA data, choice of the
    boot partition, rollback. \<open>Ota_Write\<close>: update sessions. \<open>Ota_Write_Spec\<close>: C16.
    \<open>Ota_Session\<close>: the session calls as the step relation \<open>ota_step\<close>, with C17.
  \<^item> The boot loader, \<open>bootloader_support/src/bootloader_utility.c\<close>, \<open>bootloader_common.c\<close>,
    \<open>bootloader_flash.c\<close> and \<open>bootloader/subproject/main/bootloader_start.c\<close>. \<open>Boot\<close>: table, selection of
    the boot index, fallback, factory reset. \<open>Boot_Spec\<close>: C18.
  \<^item> The two sides meet in the OTA data. \<open>Ota_Store\<close> states it as the locale \<open>otadata_store\<close>, a store of
    two entries, interpreted on the partition writes of the application (\<open>app_store\<close>) and on the flash
    writes of the boot loader (\<open>boot_store\<close>). \<open>Ota_Select\<close> and \<open>Ota_Spec\<close> hold the sequence numbers and the
    selection; \<open>Ota_Boot_Spec\<close> holds C9 to C13 on both sides together.
  \<^item> Event loops, \<open>esp_event/esp_event.c\<close>, \<open>default_event_loop.c\<close>, \<open>esp_event_private.c\<close>. \<open>Event\<close>: the nested
    lists of handler nodes, registration, unregistration, posting, and the dispatch, which walks the
    lists as they are while handlers run. \<open>Event_Registry\<close>: the lists as one list of registrations, what
    adding and removing do to it, memory of the nodes. \<open>Event_Dispatch\<close>: the walk as a sequence of handler
    calls. \<open>Event_Spec\<close>: the locale \<open>ordered_registry\<close>, the interface between registration and dispatch,
    interpreted on the event loop (\<open>event_registry\<close>); the step relation \<open>loop_reach\<close>; C19 to C21.
  \<^item> Tables of slots. \<open>Slots\<close>: the locale \<open>slot_table\<close>, an array of slots that are free or in use with the
    search for the first free one; interpreted on the descriptor table and on the table of file systems
    (\<open>fds\<close> and \<open>vfss\<close> in \<open>Vfs_Inv\<close>) and on the handler table of the HTTP server (\<open>calls\<close> in
    \<open>Httpd_Uri_Spec\<close>).
  \<^item> The virtual file system, \<open>vfs/vfs.c\<close>. \<open>Vfs\<close>: registered file systems with their driver functions, the
    descriptor table, the choice of a file system by path prefix, and the calls on paths, descriptors and
    directories. \<open>Vfs_Select\<close>: \<open>esp_vfs_select\<close> with the start and end calls of the drivers, and the
    terminal calls. \<open>Vfs_Inv\<close>, \<open>Vfs_Steps\<close> and \<open>Vfs_Select_Inv\<close>: the invariant of the tables and the step
    relation \<open>vfs_step\<close> of all calls. \<open>Vfs_Select_Sets\<close>: descriptor sets. \<open>Vfs_Spec\<close>: C22 to C27.
  \<^item> The console, \<open>console/split_argv.c\<close> and \<open>commands.c\<close>. \<open>Split_Argv\<close>: the state machine that splits a line
    in place; \<open>Split_Argv_Spec\<close>: a recursive reference splitter and C28, C29. \<open>Console\<close>: the list of
    commands, hints in allocated memory, running a line; \<open>Console_Spec\<close>: C30, C31.
  \<^item> URI handlers of the HTTP server, \<open>esp_http_server/src/httpd_uri.c\<close> and the error handlers of
    \<open>httpd_txrx.c\<close>. \<open>Httpd_Uri\<close>: the matchers, the handler table, the choice of a handler for a request.
    \<open>Httpd_Uri_Spec\<close>: C32 to C34.
  \<^item> Memory mapping, \<open>esp_mm/esp_mmu_map.c\<close> over \<open>hal/mmu_hal.c\<close> and the registers of the ESP32-C3
    (\<open>hal/esp32c3/include/hal/mmu_ll.h\<close>). \<open>Mmu_Hal\<close>: the table of the MMU as a list of register values, with the
    calls that fill, clear and search it. \<open>Mmu_Map\<close>: regions of the address space, each with its list of blocks
    between two dummy blocks, start-up, mapping, unmapping, queries. \<open>Mmu_Inv\<close>: the invariant \<open>mmu_inv\<close>, which
    relates the blocks, the recorded largest slot and the table. \<open>Mmu_Steps\<close>: what mapping and unmapping do
    to it. \<open>Address_Space\<close>: the locale \<open>address_space\<close>, the contract of a space in which ranges are mapped and
    unmapped, with lemmas about sequences of mappings. \<open>Mmu_Spec\<close>: the reachable states \<open>mmu_reach\<close>, the
    interpretation \<open>mmu\<close> of the locale, and C35 to C38.
  \<^item> Mapping of flash memory, \<open>spi_flash/flash_mmap.c\<close>, the client of the driver. \<open>Flash_Mmap\<close>: mapping of ranges and
    of lists of pages, release of handles, address queries, flush of the cache. \<open>Flash_Mmap_Spec\<close>: C39, C40,
    which rest on the lemmas of \<open>address_space\<close>.

  \<^bold>\<open>How code becomes definitions.\<close> A struct is a record with the names of its fields, a function is
  a definition that takes and returns the state; \<open>None\<close> is a run stopped by a failing assertion, by an
  access outside its object or by a loop that does not end; error codes are values of \<open>esp_err_t\<close>.
  Pointers into a buffer are offsets, linked lists are lists, list items compared by address carry an
  address. Allocation results, clock readings and the results of hardware or ROM functions are
  arguments: the CRC and MD5 of the ROM, the verification and loading of an image, the memory map and the
  flash cipher. The chip performs a given number of erase and program operations, then one that fails
  and leaves anything in its range, which stands for flash errors and power loss alike.

  \<^bold>\<open>Loops.\<close> The loops over items of the ring buffer, the search for a sequence number and the walk and the
  run of an event loop are \<open>partial_function (option)\<close>; the properties prove that they return, or, for the run of an
  event loop without a time limit, that it waits for good on an empty queue (C20). The processing of timers takes
  the list of its clock readings; C6 gives a number of readings that is enough, and \<open>callback_keeps_loop_busy\<close> shows
  that callbacks can keep it running. The label search
  has fuel of one more round than the list has characters, which suffices for every label without delimiters
  (\<open>label_search_finds_whole_words\<close>); \<open>empty_label_search_does_not_end\<close> shows an input on which no fuel does. The other loops are structural or have a measure.

  \<^bold>\<open>What the properties show.\<close> Refinement of queues by the ring buffers (C1 to C3), of a level table by
  the log cache (C7), of an ordered registry by the event loop (C19), of a list of handlers by the
  handler table (C33) and of a reference splitter by the console (C28); the invariant of the timer
  lists, service of due timers and the end of processing (C4 to C6); the answers of the application and the
  boot loader about the boot partition, with and without a pending image, safety under interruption, rollback (C9 to C13); registration
  and confinement of writes of partitions (C14, C15); update sessions store the image and never touch
  the running one (C16, C17); the boot loader boots what can be booted (C18); an event loop handles what is
  queued and what arrives while it runs and neither leaks nor frees twice (C20, C21). The tables of the virtual file system stay well
  typed (C24), a path reaches the file system with the longest prefix, with a proper path for the driver
  (C23, C26), open and close are inverse (C25), a failed registration changes nothing (C27) and select
  reports the descriptors that lead to what the drivers report (C22). Arguments survive quoting (C29), a line runs the last registration
  of its command (C30, C31), a request runs the first handler that matches (C32, C34). The MMU translates
  the mapped blocks and nothing else (C35), mapping and unmapping are inverse (C36), a mapping that fits
  succeeds (C37), the two address queries agree (C38), and a list of pages is mapped as a whole or not at
  all (C39, C40).

  Theorems without a number complete the picture: \<open>byte_buffer_send_exact\<close>, \<open>next_alarm_is_earliest\<close>,
  \<open>confirmed_image_stays\<close>, \<open>partition_verify_returns_own_item\<close>, \<open>next_update_partition_is_successor\<close>,
  \<open>no_split_drain\<close>, \<open>no_split_max_item_fits\<close>, \<open>timer_delete_frees\<close>, \<open>partition_iterator_enumerates\<close>,
  \<open>deregister_undoes_register\<close>, \<open>label_search_finds_whole_words\<close>. Others
  show behaviour at the edges that differs from what the interface suggests:
  \<open>no_split_full_loan_released\<close>, \<open>no_split_uncommitted_item_received\<close>, \<open>allow_split_plain_receive_fails\<close>,
  \<open>tiny_buffer_max_item_wraps\<close>, \<open>isr_alarm_lost\<close>, \<open>start_once_wraps_to_unarmed\<close>,
  \<open>second_address_keeps_stale_level\<close>, \<open>register_external_wraps\<close>, \<open>wrapped_partition_writes_elsewhere\<close>,
  \<open>callback_keeps_loop_busy\<close>,
  \<open>encrypted_end_programs_unerased_sector\<close>, \<open>empty_label_search_does_not_end\<close>,
  \<open>sixteen_slots_and_test_app_abort\<close>, \<open>self_unregistration_reads_freed_node\<close>,
  \<open>legacy_registration_survives_unregister\<close>, \<open>expired_run_keeps_running_task\<close>,
  \<open>stale_descriptor_after_unregister\<close>, \<open>close_keeps_marked_descriptor\<close>, \<open>select_loses_semaphore\<close>,
  \<open>select_wait_rounds_down\<close>, \<open>split_argv_size_zero\<close>, \<open>reregister_leaves_dangling_hint\<close>,
  \<open>failed_copy_leaves_freed_handler\<close>, \<open>zero_size_mapping\<close>, \<open>failed_mapping_leaves_freed_blocks\<close>,
  \<open>enclosed_mapping_wrong_address\<close>, \<open>munmap_unmaps_shared_block\<close>, \<open>later_page_not_flushed\<close>,
  \<open>mmap_pages_not_contiguous\<close>.

  \<^bold>\<open>Not modelled.\<close> Interleaving inside a critical section, and waiting except on the queue of an event loop and in
  select, where what other tasks do meanwhile is an argument (each other call is one step); partitions on chips other than the default one; anti-rollback, secure boot and the image
  format; the flash and cache drivers; lock back ends and hex dumps of the log; the other timer
  back ends. Of the rest of the framework: kernels and protocol stacks are third-party code, drivers are
  register access. Of the console, the line editor and
  the text of the help command are left out; of the HTTP server, parsing, sessions and sockets; the file
  systems behind the virtual one are arbitrary functions.
  Of event loops, the profiling option is left out, and handlers that change the registrations of their
  own loop are covered by the model of the walk but, as the documentation forbids them, not by C19 to C21.
  Of memory mapping, chips other than the ESP32-C3, the functions that print the blocks and the contents of the
  cache are left out: the model records which ranges were invalidated. The steps of C35 to C37
  and C40 are mapping calls of non-empty sizes that do not run out of memory after they made the dummy blocks, and
  unmapping calls; the reservation of a block, a call for the time of start-up, is modelled but not a step.
\<close>

end
